(* ===== verification/Bpf.thy ===== *)
theory Bpf
  imports Prelude
begin

text \<open>
  \<^verbatim>\<open>pktbaffle/src/bpf.rs\<close>: the classic BPF instruction word, its constructors, its 8-byte
  little-endian wire form and the program type. The decode lemmas at the end give the bits the
  virtual machine and the optimizer look at for every constructor.
\<close>

section \<open>Opcode constants\<close>

definition BPF_LD :: u16 where "BPF_LD = 0x00"
definition BPF_LDX :: u16 where "BPF_LDX = 0x01"
definition BPF_ST :: u16 where "BPF_ST = 0x02"
definition BPF_STX :: u16 where "BPF_STX = 0x03"
definition BPF_ALU :: u16 where "BPF_ALU = 0x04"
definition BPF_JMP :: u16 where "BPF_JMP = 0x05"
definition BPF_RET :: u16 where "BPF_RET = 0x06"
definition BPF_MISC :: u16 where "BPF_MISC = 0x07"

definition BPF_W :: u16 where "BPF_W = 0x00"
definition BPF_H :: u16 where "BPF_H = 0x08"
definition BPF_B :: u16 where "BPF_B = 0x10"

definition BPF_IMM :: u16 where "BPF_IMM = 0x00"
definition BPF_ABS :: u16 where "BPF_ABS = 0x20"
definition BPF_IND :: u16 where "BPF_IND = 0x40"
definition BPF_MEM :: u16 where "BPF_MEM = 0x60"
definition BPF_LEN :: u16 where "BPF_LEN = 0x80"
definition BPF_MSH :: u16 where "BPF_MSH = 0xa0"

definition BPF_ADD :: u16 where "BPF_ADD = 0x00"
definition BPF_SUB :: u16 where "BPF_SUB = 0x10"
definition BPF_MUL :: u16 where "BPF_MUL = 0x20"
definition BPF_DIV :: u16 where "BPF_DIV = 0x30"
definition BPF_OR :: u16 where "BPF_OR = 0x40"
definition BPF_AND :: u16 where "BPF_AND = 0x50"
definition BPF_LSH :: u16 where "BPF_LSH = 0x60"
definition BPF_RSH :: u16 where "BPF_RSH = 0x70"
definition BPF_NEG :: u16 where "BPF_NEG = 0x80"
definition BPF_XOR :: u16 where "BPF_XOR = 0xa0"

definition BPF_JA :: u16 where "BPF_JA = 0x00"
definition BPF_JEQ :: u16 where "BPF_JEQ = 0x10"
definition BPF_JGT :: u16 where "BPF_JGT = 0x20"
definition BPF_JGE :: u16 where "BPF_JGE = 0x30"
definition BPF_JSET :: u16 where "BPF_JSET = 0x40"

definition BPF_K :: u16 where "BPF_K = 0x00"
definition BPF_X :: u16 where "BPF_X = 0x08"
definition BPF_A :: u16 where "BPF_A = 0x10"
definition BPF_TAX :: u16 where "BPF_TAX = 0x00"
definition BPF_TXA :: u16 where "BPF_TXA = 0x80"

definition BPF_ACCEPT :: u32 where "BPF_ACCEPT = 0xffffffff"
definition BPF_DROP :: u32 where "BPF_DROP = 0"

lemmas bpf_class_defs =
  BPF_LD_def BPF_LDX_def BPF_ST_def BPF_STX_def BPF_ALU_def BPF_JMP_def BPF_RET_def BPF_MISC_def

lemmas bpf_mode_defs =
  BPF_W_def BPF_H_def BPF_B_def BPF_IMM_def BPF_ABS_def BPF_IND_def BPF_MEM_def BPF_LEN_def
  BPF_MSH_def

lemmas bpf_alu_defs =
  BPF_ADD_def BPF_SUB_def BPF_MUL_def BPF_DIV_def BPF_OR_def BPF_AND_def BPF_LSH_def BPF_RSH_def
  BPF_NEG_def BPF_XOR_def

lemmas bpf_jmp_defs = BPF_JA_def BPF_JEQ_def BPF_JGT_def BPF_JGE_def BPF_JSET_def

lemmas bpf_misc_defs = BPF_K_def BPF_X_def BPF_A_def BPF_TAX_def BPF_TXA_def

lemmas bpf_defs = bpf_class_defs bpf_mode_defs bpf_alu_defs bpf_jmp_defs bpf_misc_defs

section \<open>Instructions\<close>

record insn =
  code :: u16
  jt :: u8
  jf :: u8
  k_field :: u32

definition mk_insn :: "u16 \<Rightarrow> u8 \<Rightarrow> u8 \<Rightarrow> u32 \<Rightarrow> insn" where
  "mk_insn c t f v = \<lparr>code = c, jt = t, jf = f, k_field = v\<rparr>"

definition ldw_abs :: "u32 \<Rightarrow> insn" where
  "ldw_abs v = mk_insn (BPF_LD OR BPF_W OR BPF_ABS) 0 0 v"

definition ldh_abs :: "u32 \<Rightarrow> insn" where
  "ldh_abs v = mk_insn (BPF_LD OR BPF_H OR BPF_ABS) 0 0 v"

definition ldb_abs :: "u32 \<Rightarrow> insn" where
  "ldb_abs v = mk_insn (BPF_LD OR BPF_B OR BPF_ABS) 0 0 v"

definition ldw_ind :: "u32 \<Rightarrow> insn" where
  "ldw_ind v = mk_insn (BPF_LD OR BPF_W OR BPF_IND) 0 0 v"

definition ldb_ind :: "u32 \<Rightarrow> insn" where
  "ldb_ind v = mk_insn (BPF_LD OR BPF_B OR BPF_IND) 0 0 v"

definition ldh_ind :: "u32 \<Rightarrow> insn" where
  "ldh_ind v = mk_insn (BPF_LD OR BPF_H OR BPF_IND) 0 0 v"

definition ldx_msh :: "u32 \<Rightarrow> insn" where
  "ldx_msh v = mk_insn (BPF_LDX OR BPF_B OR BPF_MSH) 0 0 v"

definition ldx_imm :: "u32 \<Rightarrow> insn" where
  "ldx_imm v = mk_insn (BPF_LDX OR BPF_W OR BPF_IMM) 0 0 v"

definition ld_imm :: "u32 \<Rightarrow> insn" where
  "ld_imm v = mk_insn (BPF_LD OR BPF_IMM) 0 0 v"

definition and_k :: "u32 \<Rightarrow> insn" where
  "and_k v = mk_insn (BPF_ALU OR BPF_AND OR BPF_K) 0 0 v"

definition or_k :: "u32 \<Rightarrow> insn" where
  "or_k v = mk_insn (BPF_ALU OR BPF_OR OR BPF_K) 0 0 v"

definition rsh_k :: "u32 \<Rightarrow> insn" where
  "rsh_k v = mk_insn (BPF_ALU OR BPF_RSH OR BPF_K) 0 0 v"

definition add_k :: "u32 \<Rightarrow> insn" where
  "add_k v = mk_insn (BPF_ALU OR BPF_ADD OR BPF_K) 0 0 v"

definition sub_k :: "u32 \<Rightarrow> insn" where
  "sub_k v = mk_insn (BPF_ALU OR BPF_SUB OR BPF_K) 0 0 v"

definition mul_k :: "u32 \<Rightarrow> insn" where
  "mul_k v = mk_insn (BPF_ALU OR BPF_MUL OR BPF_K) 0 0 v"

definition div_k :: "u32 \<Rightarrow> insn" where
  "div_k v = mk_insn (BPF_ALU OR BPF_DIV OR BPF_K) 0 0 v"

definition lsh_k :: "u32 \<Rightarrow> insn" where
  "lsh_k v = mk_insn (BPF_ALU OR BPF_LSH OR BPF_K) 0 0 v"

definition xor_k :: "u32 \<Rightarrow> insn" where
  "xor_k v = mk_insn (BPF_ALU OR BPF_XOR OR BPF_K) 0 0 v"

definition jeq_k :: "u32 \<Rightarrow> u8 \<Rightarrow> u8 \<Rightarrow> insn" where
  "jeq_k v t f = mk_insn (BPF_JMP OR BPF_JEQ OR BPF_K) t f v"

definition jgt_k :: "u32 \<Rightarrow> u8 \<Rightarrow> u8 \<Rightarrow> insn" where
  "jgt_k v t f = mk_insn (BPF_JMP OR BPF_JGT OR BPF_K) t f v"

definition jge_k :: "u32 \<Rightarrow> u8 \<Rightarrow> u8 \<Rightarrow> insn" where
  "jge_k v t f = mk_insn (BPF_JMP OR BPF_JGE OR BPF_K) t f v"

definition jset_k :: "u32 \<Rightarrow> u8 \<Rightarrow> u8 \<Rightarrow> insn" where
  "jset_k v t f = mk_insn (BPF_JMP OR BPF_JSET OR BPF_K) t f v"

definition jeq_x :: "u8 \<Rightarrow> u8 \<Rightarrow> insn" where
  "jeq_x t f = mk_insn (BPF_JMP OR BPF_JEQ OR BPF_X) t f 0"

definition jgt_x :: "u8 \<Rightarrow> u8 \<Rightarrow> insn" where
  "jgt_x t f = mk_insn (BPF_JMP OR BPF_JGT OR BPF_X) t f 0"

definition jge_x :: "u8 \<Rightarrow> u8 \<Rightarrow> insn" where
  "jge_x t f = mk_insn (BPF_JMP OR BPF_JGE OR BPF_X) t f 0"

definition jset_x :: "u8 \<Rightarrow> u8 \<Rightarrow> insn" where
  "jset_x t f = mk_insn (BPF_JMP OR BPF_JSET OR BPF_X) t f 0"

definition tax :: insn where
  "tax = mk_insn (BPF_MISC OR BPF_TAX) 0 0 0"

definition st :: "u32 \<Rightarrow> insn" where
  "st v = mk_insn BPF_ST 0 0 v"

definition ldx_mem :: "u32 \<Rightarrow> insn" where
  "ldx_mem v = mk_insn (BPF_LDX OR BPF_W OR BPF_MEM) 0 0 v"

definition ja :: "u32 \<Rightarrow> insn" where
  "ja off = mk_insn (BPF_JMP OR BPF_JA) 0 0 off"

definition ret_k :: "u32 \<Rightarrow> insn" where
  "ret_k v = mk_insn (BPF_RET OR BPF_K) 0 0 v"

section \<open>Wire encoding\<close>

definition insn_to_le_bytes :: "insn \<Rightarrow> u8 list" where
  "insn_to_le_bytes i = le16_bytes (code i) @ [jt i, jf i] @ le32_bytes (k_field i)"

record program =
  insns :: "insn list"

definition program_new :: "insn list \<Rightarrow> program" where
  "program_new is = \<lparr>insns = is\<rparr>"

definition instructions :: "program \<Rightarrow> insn list" where
  "instructions p = insns p"

definition program_len :: "program \<Rightarrow> nat" where
  "program_len p = length (insns p)"

definition program_is_empty :: "program \<Rightarrow> bool" where
  "program_is_empty p \<longleftrightarrow> insns p = []"

text \<open>The loop of \<open>Program::to_le_bytes\<close>: \<open>out\<close> is extended instruction by instruction.\<close>

fun extend_le_bytes :: "u8 list \<Rightarrow> insn list \<Rightarrow> u8 list" where
  "extend_le_bytes out [] = out"
| "extend_le_bytes out (i # is) = extend_le_bytes (out @ insn_to_le_bytes i) is"

definition program_to_le_bytes :: "program \<Rightarrow> u8 list" where
  "program_to_le_bytes p = extend_le_bytes [] (insns p)"

text \<open>What the kernel does with the bytes: \<open>struct sock_filter\<close> is read back field by field.\<close>

fun insn_of_le_bytes :: "u8 list \<Rightarrow> insn option" where
  "insn_of_le_bytes [c0, c1, t, f, k0, k1, k2, k3] =
     Some (mk_insn (le16_of c0 c1) t f (le32_of k0 k1 k2 k3))"
| "insn_of_le_bytes _ = None"

section \<open>Fields of the constructors\<close>

lemma mk_insn_simps [simp]:
  "code (mk_insn c t f v) = c" "jt (mk_insn c t f v) = t" "jf (mk_insn c t f v) = f"
  "k_field (mk_insn c t f v) = v"
  by (simp_all add: mk_insn_def)

lemma mk_insn_inject [simp]:
  "mk_insn c t f v = mk_insn c' t' f' v' \<longleftrightarrow> c = c' \<and> t = t' \<and> f = f' \<and> v = v'"
  by (auto simp: mk_insn_def)

lemma mk_insn_fields [simp]: "mk_insn (code i) (jt i) (jf i) (k_field i) = i"
  by (simp add: mk_insn_def)

lemma mk_insn_updates [simp]:
  "mk_insn c t f v\<lparr>jt := t'\<rparr> = mk_insn c t' f v"
  "mk_insn c t f v\<lparr>jf := f'\<rparr> = mk_insn c t f' v"
  "mk_insn c t f v\<lparr>k_field := v'\<rparr> = mk_insn c t f v'"
  by (simp_all add: mk_insn_def)

lemmas insn_ctor_defs =
  ldw_abs_def ldh_abs_def ldb_abs_def ldw_ind_def ldb_ind_def ldh_ind_def
  ldx_msh_def ldx_imm_def ld_imm_def and_k_def or_k_def rsh_k_def
  add_k_def sub_k_def mul_k_def div_k_def lsh_k_def xor_k_def
  st_def ldx_mem_def ja_def ret_k_def jeq_k_def jgt_k_def
  jge_k_def jset_k_def jeq_x_def jgt_x_def jge_x_def jset_x_def
  tax_def

lemma code_ctors [simp, insn_decode]:
  "code (ldw_abs v) = 0x20" "code (ldh_abs v) = 0x28" "code (ldb_abs v) = 0x30"
  "code (ldw_ind v) = 0x40" "code (ldb_ind v) = 0x50" "code (ldh_ind v) = 0x48"
  "code (ldx_msh v) = 0xb1" "code (ldx_imm v) = 0x1" "code (ld_imm v) = 0x0"
  "code (and_k v) = 0x54" "code (or_k v) = 0x44" "code (rsh_k v) = 0x74"
  "code (add_k v) = 0x4" "code (sub_k v) = 0x14" "code (mul_k v) = 0x24"
  "code (div_k v) = 0x34" "code (lsh_k v) = 0x64" "code (xor_k v) = 0xa4"
  "code (st v) = 0x2" "code (ldx_mem v) = 0x61" "code (ja v) = 0x5"
  "code (ret_k v) = 0x6" "code (jeq_k v t f) = 0x15" "code (jgt_k v t f) = 0x25"
  "code (jge_k v t f) = 0x35" "code (jset_k v t f) = 0x45" "code (jeq_x t f) = 0x1d"
  "code (jgt_x t f) = 0x2d" "code (jge_x t f) = 0x3d" "code (jset_x t f) = 0x4d"
  "code tax = 0x07"
  by (simp_all add: insn_ctor_defs bpf_defs)

lemma field_ctors [simp, insn_decode]:
  "k_field (ldw_abs v) = v" "k_field (ldh_abs v) = v" "k_field (ldb_abs v) = v"
  "k_field (ldw_ind v) = v" "k_field (ldb_ind v) = v" "k_field (ldh_ind v) = v"
  "k_field (ldx_msh v) = v" "k_field (ldx_imm v) = v" "k_field (ld_imm v) = v"
  "k_field (and_k v) = v" "k_field (or_k v) = v" "k_field (rsh_k v) = v"
  "k_field (add_k v) = v" "k_field (sub_k v) = v" "k_field (mul_k v) = v"
  "k_field (div_k v) = v" "k_field (lsh_k v) = v" "k_field (xor_k v) = v"
  "k_field (st v) = v" "k_field (ldx_mem v) = v" "k_field (ja v) = v"
  "k_field (ret_k v) = v" "k_field (jeq_k v t f) = v" "k_field (jgt_k v t f) = v"
  "k_field (jge_k v t f) = v" "k_field (jset_k v t f) = v" "jt (jeq_k v t f) = t"
  "jf (jeq_k v t f) = f" "jt (jgt_k v t f) = t" "jf (jgt_k v t f) = f"
  "jt (jge_k v t f) = t" "jf (jge_k v t f) = f" "jt (jset_k v t f) = t"
  "jf (jset_k v t f) = f" "jt (jeq_x t f) = t" "jf (jeq_x t f) = f"
  "jt (jgt_x t f) = t" "jf (jgt_x t f) = f" "jt (jge_x t f) = t"
  "jf (jge_x t f) = f" "jt (jset_x t f) = t" "jf (jset_x t f) = f"
  by (simp_all add: insn_ctor_defs)

lemma update_ctors [simp, insn_decode]:
  "jeq_k v t f\<lparr>jt := t'\<rparr> = jeq_k v t' f" "jeq_k v t f\<lparr>jf := f'\<rparr> = jeq_k v t f'"
  "jgt_k v t f\<lparr>jt := t'\<rparr> = jgt_k v t' f" "jgt_k v t f\<lparr>jf := f'\<rparr> = jgt_k v t f'"
  "jge_k v t f\<lparr>jt := t'\<rparr> = jge_k v t' f" "jge_k v t f\<lparr>jf := f'\<rparr> = jge_k v t f'"
  "jset_k v t f\<lparr>jt := t'\<rparr> = jset_k v t' f" "jset_k v t f\<lparr>jf := f'\<rparr> = jset_k v t f'"
  "jeq_x t f\<lparr>jt := t'\<rparr> = jeq_x t' f" "jeq_x t f\<lparr>jf := f'\<rparr> = jeq_x t f'"
  "jgt_x t f\<lparr>jt := t'\<rparr> = jgt_x t' f" "jgt_x t f\<lparr>jf := f'\<rparr> = jgt_x t f'"
  "jge_x t f\<lparr>jt := t'\<rparr> = jge_x t' f" "jge_x t f\<lparr>jf := f'\<rparr> = jge_x t f'"
  "jset_x t f\<lparr>jt := t'\<rparr> = jset_x t' f" "jset_x t f\<lparr>jf := f'\<rparr> = jset_x t f'"
  "ja v\<lparr>k_field := v'\<rparr> = ja v'"
  by (simp_all add: insn_ctor_defs)

section \<open>Encoding round trip\<close>

text \<open>
  A fixed-width wire format: every item takes \<open>w\<close> bytes and reads back as itself. Both
  instruction sets have one; the whole-program facts are proved once here.
\<close>

function parse_run :: "(u8 list \<Rightarrow> 'i option) \<Rightarrow> nat \<Rightarrow> u8 list \<Rightarrow> 'i list option" where
  "parse_run dec w bs =
     (if bs = [] then Some []
      else if w = 0 \<or> length bs < w then None
      else case dec (take w bs) of
             None \<Rightarrow> None
           | Some i \<Rightarrow> map_option ((#) i) (parse_run dec w (drop w bs)))"
  by pat_completeness auto
termination
  by (relation "measure (\<lambda>(dec, w, bs). length bs)") auto

declare parse_run.simps [simp del]

locale wire_format =
  fixes enc :: "'i \<Rightarrow> u8 list"
    and dec :: "u8 list \<Rightarrow> 'i option"
    and w :: nat
  assumes width_pos: "0 < w"
    and enc_width: "length (enc i) = w"
    and dec_enc: "dec (enc i) = Some i"
begin

lemma stream_length: "length (concat (map enc is)) = w * length is"
  by (induction "is") (simp_all add: enc_width)

lemma parse_stream: "parse_run dec w (concat (map enc is)) = Some is"
proof (induction "is")
  case Nil
  show ?case by (simp add: parse_run.simps)
next
  case (Cons i "is")
  have ne: "enc i \<noteq> []" using enc_width [of i] width_pos by auto
  show ?case
    using Cons ne width_pos
    by (subst parse_run.simps) (simp add: enc_width dec_enc)
qed

lemma stream_inject: "concat (map enc is) = concat (map enc js) \<longleftrightarrow> is = js"
  by (metis parse_stream option.inject)

end

interpretation cbpf_wire: wire_format insn_to_le_bytes insn_of_le_bytes 8
  by unfold_locales (simp_all add: insn_to_le_bytes_def le16_bytes_def le32_bytes_def)

lemma extend_le_bytes_eq: "extend_le_bytes out is = out @ concat (map insn_to_le_bytes is)"
  by (induction out "is" rule: extend_le_bytes.induct) simp_all

lemma program_to_le_bytes_eq:
  "program_to_le_bytes p = concat (map insn_to_le_bytes (insns p))"
  by (simp add: program_to_le_bytes_def extend_le_bytes_eq)

text \<open>
  C30: the wire form of a program has eight bytes per instruction, and reading it back as
  \<^verbatim>\<open>struct sock_filter\<close> records gives the instructions in order.
\<close>

theorem program_bytes_roundtrip:
  "length (program_to_le_bytes p) = 8 * program_len p \<and>
   parse_run insn_of_le_bytes 8 (program_to_le_bytes p) = Some (instructions p)"
  using cbpf_wire.stream_length cbpf_wire.parse_stream
  by (simp add: program_to_le_bytes_eq program_len_def instructions_def)

end
