(* ===== verification/Error.thy ===== *)
theory Error
  imports Prelude
begin

text \<open>
  \<^verbatim>\<open>pktbaffle/src/error.rs\<close>: the errors of the pipeline. \<open>Panic\<close> is a value of the model only: it
  stands for the \<open>expect\<close>s, \<open>unwrap\<close>s and out-of-range indexings of the sources, so that their
  absence can be stated. The formatting functions give the numbers in error messages.
\<close>

datatype error =
  LexError nat nat
| ParseError string
| CodegenError string
| Panic string

definition digit_char :: "nat \<Rightarrow> char" where
  "digit_char d = (''0123456789abcdef'' ! (d mod 16))"

fun show_base :: "nat \<Rightarrow> nat \<Rightarrow> string" where
  "show_base b n =
     (if b < 2 \<or> n < b then [digit_char n] else show_base b (n div b) @ [digit_char (n mod b)])"

declare show_base.simps [simp del]

definition pad_left :: "nat \<Rightarrow> char \<Rightarrow> string \<Rightarrow> string" where
  "pad_left n c s = replicate (n - length s) c @ s"

definition show_nat :: "nat \<Rightarrow> string" where
  "show_nat n = show_base 10 n"

text \<open>The format \<^verbatim>\<open>{:04x}\<close>.\<close>

definition show_hex4 :: "u32 \<Rightarrow> string" where
  "show_hex4 w = pad_left 4 (CHR ''0'') (show_base 16 (unat w))"

end
