(* ===== verification/Bpf_Display.thy ===== *)
theory Bpf_Display
  imports Bpf Error
begin

text \<open>
  The listing of programs in \<^verbatim>\<open>pktbaffle/src/bpf.rs\<close>: \<open>fmt_insn\<close> and the \<open>Display\<close> of instructions and programs. The \<open>unreachable!\<close> of
  the code is an error value, which is shown not to occur.
\<close>

text \<open>The formats \<^verbatim>\<open>{:<n}\<close> and \<^verbatim>\<open>#0x{:x}\<close>.\<close>

definition pad_right :: "nat \<Rightarrow> string \<Rightarrow> string" where
  "pad_right n s = s @ replicate (n - length s) (CHR '' '')"

definition show_imm :: "u32 \<Rightarrow> string" where
  "show_imm k = ''#0x'' @ show_base 16 (unat k)"

definition show_mode :: "u16 \<Rightarrow> string" where
  "show_mode m = ''?mode=0x'' @ show_base 16 (unat m)"

definition show_cell :: "u32 \<Rightarrow> string" where
  "show_cell k = ''M['' @ show_nat (unat k) @ '']''"

text \<open>A mnemonic in a column of eight, and its operand.\<close>

definition columns :: "string \<Rightarrow> string \<Rightarrow> string" where
  "columns mnem operand = pad_right 8 mnem @ '' '' @ operand"

section \<open>One instruction\<close>

definition fmt_ld :: "insn \<Rightarrow> string" where
  "fmt_ld i =
     (let size = code i AND 0x18; mode = code i AND 0xe0; k = k_field i;
          mnem = (if size = BPF_W then ''ld'' else if size = BPF_H then ''ldh'' else if size = BPF_B then ''ldb'' else ''ld?'')
      in columns mnem
           (if mode = BPF_ABS then ''['' @ show_nat (unat k) @ '']''
            else if mode = BPF_IND then ''[x + '' @ show_nat (unat k) @ '']''
            else if mode = BPF_MEM then show_cell k
            else if mode = BPF_LEN then ''#pktlen''
            else if mode = BPF_IMM then show_imm k
            else show_mode mode))"

definition fmt_ldx :: "insn \<Rightarrow> string" where
  "fmt_ldx i =
     (let size = code i AND 0x18; mode = code i AND 0xe0; k = k_field i
      in if size = BPF_B \<and> mode = BPF_MSH then columns ''ldxb'' (''4*(['' @ show_nat (unat k) @ '']&0xf)'')
         else if mode = BPF_IMM then columns ''ldx'' (show_imm k)
         else if mode = BPF_MEM then columns ''ldx'' (show_cell k)
         else if mode = BPF_LEN then columns ''ldx'' ''#pktlen''
         else columns ''ldx'' (show_mode mode))"

definition alu_mnemonic :: "u16 \<Rightarrow> string" where
  "alu_mnemonic op =
     (if op = BPF_ADD then ''add'' else if op = BPF_SUB then ''sub'' else if op = BPF_MUL then ''mul''
      else if op = BPF_DIV then ''div'' else if op = BPF_OR then ''or'' else if op = BPF_AND then ''and''
      else if op = BPF_LSH then ''lsh'' else if op = BPF_RSH then ''rsh'' else if op = BPF_XOR then ''xor'' else ''alu?'')"

definition fmt_alu :: "insn \<Rightarrow> string" where
  "fmt_alu i =
     (let op = code i AND 0xf0; source = code i AND 0x08
      in if op = BPF_NEG then ''neg''
         else if source = BPF_X then columns (alu_mnemonic op) ''x''
         else columns (alu_mnemonic op) (show_imm (k_field i)))"

definition jmp_mnemonic :: "u16 \<Rightarrow> string" where
  "jmp_mnemonic op =
     (if op = BPF_JEQ then ''jeq'' else if op = BPF_JGT then ''jgt'' else if op = BPF_JGE then ''jge''
      else if op = BPF_JSET then ''jset'' else ''jmp?'')"

text \<open>The target of a conditional jump: with a program counter its index, otherwise the stored offset.\<close>

definition shown_target :: "nat option \<Rightarrow> u8 \<Rightarrow> nat" where
  "shown_target pc off = (case pc of None \<Rightarrow> unat off | Some i \<Rightarrow> i + 1 + unat off)"

definition fmt_jmp :: "insn \<Rightarrow> nat option \<Rightarrow> string" where
  "fmt_jmp i pc =
     (let op = code i AND 0xf0; source = code i AND 0x08;
          operand = (if source = BPF_X then ''x'' else show_imm (k_field i))
      in if op = BPF_JA then columns ''ja'' (show_nat (unat (k_field i)))
         else columns (jmp_mnemonic op)
           (pad_right 16 operand @ '' jt '' @ pad_right 5 (show_nat (shown_target pc (jt i))) @ '' jf '' @
            show_nat (shown_target pc (jf i))))"

definition fmt_insn :: "insn \<Rightarrow> nat option \<Rightarrow> error + string" where
  "fmt_insn i pc =
     (let insn_class = code i AND 0x07
      in if insn_class = BPF_LD then Inr (fmt_ld i)
         else if insn_class = BPF_LDX then Inr (fmt_ldx i)
         else if insn_class = BPF_ST then Inr (columns ''st'' (show_cell (k_field i)))
         else if insn_class = BPF_STX then Inr (columns ''stx'' (show_cell (k_field i)))
         else if insn_class = BPF_ALU then Inr (fmt_alu i)
         else if insn_class = BPF_JMP then Inr (fmt_jmp i pc)
         else if insn_class = BPF_RET then
           Inr (if code i AND 0x10 \<noteq> 0 then columns ''ret'' ''a'' else columns ''ret'' (show_imm (k_field i)))
         else if insn_class = BPF_MISC then Inr (if code i AND 0xf8 = 0x80 then ''txa'' else ''tax'')
         else Inl (Panic ''class is low 3 bits of code, always 0-7''))"

definition insn_display :: "insn \<Rightarrow> error + string" where
  "insn_display i = fmt_insn i None"

section \<open>Programs\<close>

fun display_from :: "nat \<Rightarrow> insn list \<Rightarrow> error + string" where
  "display_from n [] = Inr []"
| "display_from n (i # insns') =
     rbind (fmt_insn i (Some n)) (\<lambda>text.
     rbind (display_from (n + 1) insns') (\<lambda>rest.
       Inr (''('' @ pad_left 3 (CHR ''0'') (show_nat n) @ '') '' @ text @ [CHR 0x0A] @ rest)))"

definition program_display :: "program \<Rightarrow> error + string" where
  "program_display p = display_from 0 (insns p)"

section \<open>Lemmas\<close>

text \<open>The class is one of the eight, so the listing of every instruction and program exists.\<close>

lemma class_cases: "(w :: u16) AND 7 \<in> {0, 1, 2, 3, 4, 5, 6, 7}"
proof -
  have "w AND 7 = take_bit 3 w" by (simp add: take_bit_eq_mask mask_eq_exp_minus_1)
  then have "unat (w AND 7) = unat w mod 8" by (simp add: unsigned_take_bit_eq take_bit_eq_mod unat_mod)
  then have "unat (w AND 7) < 8" by simp
  then have "unat (w AND 7) \<in> {0, 1, 2, 3, 4, 5, 6, 7}" by auto
  moreover have "w AND 7 = of_nat n" if "unat (w AND 7) = n" for n using that by (metis of_nat_unat ucast_id)
  ultimately show ?thesis by (elim insertE) fastforce+
qed

lemma fmt_insn_total: "\<exists>text. fmt_insn i pc = Inr text"
  using class_cases [of "code i"] by (auto simp: fmt_insn_def Let_def bpf_class_defs)

lemma program_display_total: "\<exists>text. program_display p = Inr text"
proof -
  have "\<exists>text. display_from n insns' = Inr text" for n insns'
  proof (induction insns' arbitrary: n)
    case (Cons i insns')
    then show ?case using fmt_insn_total [of i "Some n"] by (metis display_from.simps(2) rbind_Inr)
  qed simp
  then show ?thesis by (simp add: program_display_def)
qed

text \<open>No text of an instruction holds a line feed, so a listing has one line per instruction.\<close>

definition one_line :: "string \<Rightarrow> bool" where
  "one_line s \<longleftrightarrow> CHR 0x0A \<notin> set s"

lemma one_line_digit: "CHR 0x0A \<noteq> digit_char m"
proof -
  have "digit_char m \<in> set ''0123456789abcdef''" unfolding digit_char_def by (rule nth_mem) simp
  then show ?thesis by auto
qed

lemma one_line_show [simp]: "CHR 0x0A \<notin> set (show_base b n)"
  by (induction b n rule: show_base.induct) (subst show_base.simps, auto simp: one_line_digit)

lemma one_line_columns [simp]: "one_line (columns mnem operand) \<longleftrightarrow> one_line mnem \<and> one_line operand"
  by (auto simp: one_line_def columns_def pad_right_def)

lemmas one_line_texts = one_line_def show_imm_def show_mode_def show_cell_def show_nat_def pad_right_def

lemma one_line_insn: "fmt_insn i pc = Inr text \<Longrightarrow> one_line text"
  by (auto simp: fmt_insn_def Let_def fmt_ld_def fmt_ldx_def fmt_alu_def fmt_jmp_def alu_mnemonic_def jmp_mnemonic_def
      split: if_splits) (auto simp: one_line_texts)

lemma display_from_lines:
  "display_from n insns' = Inr out \<Longrightarrow> length (filter (\<lambda>c. c = CHR 0x0A) out) = length insns'"
proof (induction insns' arbitrary: n out)
  case (Cons i insns')
  have z: "one_line s \<Longrightarrow> filter (\<lambda>c. c = CHR 0x0A) s = []" for s by (auto simp: one_line_def filter_empty_conv)
  have "one_line (pad_left 3 (CHR ''0'') (show_nat n))" by (auto simp: one_line_texts pad_left_def)
  then show ?case using Cons one_line_insn [of i "Some n"] by (auto simp: rbind_eq_Inr z)
qed simp

lemma program_display_lines:
  "program_display p = Inr text \<Longrightarrow> length (filter (\<lambda>c. c = CHR 0x0A) text) = program_len p"
  by (simp add: program_display_def program_len_def display_from_lines)

text \<open>Two listings of the tests of the crate.\<close>

lemma display_samples:
  "insn_display (jeq_k 0x800 1 14) = Inr ''jeq      #0x800           jt 1     jf 14''"
  "program_display (program_new [ldh_abs 12, jeq_k 0x800 1 13]) =
     Inr (''(000) ldh      [12]'' @ [CHR 0x0A] @ ''(001) jeq      #0x800           jt 3     jf 15'' @ [CHR 0x0A])"
  by code_simp+

end
