(* ===== verification/Vm.thy ===== *)
theory Vm
  imports Bpf
begin

text \<open>
  \<^verbatim>\<open>pktbaffle/src/vm.rs\<close>: the software interpreter. One turn of the loop of \<open>inner\<close> is
  \<open>vm_step\<close>; the loop itself is \<open>vm_loop\<close>, total because every turn moves the program
  counter forward. \<open>usize\<close> is 64 bits wide here: an offset read from a 32-bit field plus a
  position in a slice never wraps (\<open>pc_add_no_wrap\<close>), so program counters are naturals.
\<close>

definition SCRATCH :: nat where
  "SCRATCH = 16"

record vm_state =
  pc :: nat
  a_reg :: u32
  x_reg :: u32
  scratch :: "u32 list"

definition uses_x :: "insn \<Rightarrow> bool" where
  "uses_x i \<longleftrightarrow> code i AND 0x08 = BPF_X"

definition sized_load :: "packet \<Rightarrow> u32 \<Rightarrow> u16 \<Rightarrow> u32 option" where
  "sized_load pkt off0 sz =
     (let off = unat off0 in
      if sz = BPF_W then
        (if off + 4 \<le> length pkt
         then Some (be32 (pkt ! off) (pkt ! (off + 1)) (pkt ! (off + 2)) (pkt ! (off + 3)))
         else None)
      else if sz = BPF_H then
        (if off + 2 \<le> length pkt then Some (be16 (pkt ! off) (pkt ! (off + 1))) else None)
      else if sz = BPF_B then map_option ucast (get_at pkt off)
      else None)"

text \<open>The value an \<open>LD\<close> instruction puts in the accumulator, \<open>None\<close> for the aborts.\<close>

definition ld_value :: "insn \<Rightarrow> packet \<Rightarrow> vm_state \<Rightarrow> u32 option" where
  "ld_value i pkt s =
     (let mode = code i AND 0xe0 in
      if mode = BPF_ABS then sized_load pkt (k_field i) (code i AND 0x18)
      else if mode = BPF_IND then sized_load pkt (x_reg s + k_field i) (code i AND 0x18)
      else if mode = BPF_LEN then Some (of_nat (length pkt))
      else if mode = BPF_IMM then Some (k_field i)
      else if mode = BPF_MEM then get_at (scratch s) (unat (k_field i))
      else None)"

definition ldx_value :: "insn \<Rightarrow> packet \<Rightarrow> vm_state \<Rightarrow> u32 option" where
  "ldx_value i pkt s =
     (let sz = code i AND 0x18; mode = code i AND 0xe0 in
      if sz = BPF_B \<and> mode = BPF_MSH
      then map_option (\<lambda>b. 4 * (ucast b AND 0xf)) (get_at pkt (unat (k_field i)))
      else if mode = BPF_IMM then Some (k_field i)
      else if mode = BPF_MEM then get_at (scratch s) (unat (k_field i))
      else if mode = BPF_LEN then Some (of_nat (length pkt))
      else None)"

definition alu_value :: "u16 \<Rightarrow> u32 \<Rightarrow> u32 \<Rightarrow> u32 option" where
  "alu_value oper a v =
     (if oper = BPF_ADD then Some (a + v)
      else if oper = BPF_SUB then Some (a - v)
      else if oper = BPF_MUL then Some (a * v)
      else if oper = BPF_DIV then (if v = 0 then None else Some (a div v))
      else if oper = BPF_OR then Some (a OR v)
      else if oper = BPF_AND then Some (a AND v)
      else if oper = BPF_LSH then Some (push_bit (unat (v AND 31)) a)
      else if oper = BPF_RSH then Some (drop_bit (unat (v AND 31)) a)
      else if oper = BPF_NEG then Some (- a)
      else if oper = BPF_XOR then Some (a XOR v)
      else None)"

definition jmp_taken :: "u16 \<Rightarrow> u32 \<Rightarrow> u32 \<Rightarrow> bool option" where
  "jmp_taken oper a v =
     (if oper = BPF_JEQ then Some (a = v)
      else if oper = BPF_JGT then Some (v < a)
      else if oper = BPF_JGE then Some (v \<le> a)
      else if oper = BPF_JSET then Some (a AND v \<noteq> 0)
      else None)"

datatype vm_outcome = Abort | Return bool | Continue vm_state

text \<open>One turn of the loop, after the fetch; \<open>s\<close> is the state before \<open>pc += 1\<close>.\<close>

definition vm_step :: "insn \<Rightarrow> packet \<Rightarrow> vm_state \<Rightarrow> vm_outcome" where
  "vm_step i pkt s0 =
     (let s = s0\<lparr>pc := pc s0 + 1\<rparr>; cls = code i AND 0x07 in
      if cls = BPF_LD then
        (case ld_value i pkt s of None \<Rightarrow> Abort | Some v \<Rightarrow> Continue (s\<lparr>a_reg := v\<rparr>))
      else if cls = BPF_LDX then
        (case ldx_value i pkt s of None \<Rightarrow> Abort | Some v \<Rightarrow> Continue (s\<lparr>x_reg := v\<rparr>))
      else if cls = BPF_ST then
        (if unat (k_field i) < length (scratch s)
         then Continue (s\<lparr>scratch := (scratch s)[unat (k_field i) := a_reg s]\<rparr>) else Abort)
      else if cls = BPF_STX then
        (if unat (k_field i) < length (scratch s)
         then Continue (s\<lparr>scratch := (scratch s)[unat (k_field i) := x_reg s]\<rparr>) else Abort)
      else if cls = BPF_ALU then
        (case alu_value (code i AND 0xf0) (a_reg s) (if uses_x i then x_reg s else k_field i) of
           None \<Rightarrow> Abort
         | Some v \<Rightarrow> Continue (s\<lparr>a_reg := v\<rparr>))
      else if cls = BPF_JMP then
        (if code i AND 0xf0 = BPF_JA then Continue (s\<lparr>pc := pc s + unat (k_field i)\<rparr>)
         else case jmp_taken (code i AND 0xf0) (a_reg s)
                     (if uses_x i then x_reg s else k_field i) of
                None \<Rightarrow> Abort
              | Some taken \<Rightarrow>
                  Continue (s\<lparr>pc := pc s + (if taken then unat (jt i) else unat (jf i))\<rparr>))
      else if cls = BPF_RET then
        Return ((if code i AND 0x10 \<noteq> 0 then a_reg s else k_field i) \<noteq> 0)
      else if cls = BPF_MISC then
        (if code i AND 0x80 \<noteq> 0 then Continue (s\<lparr>a_reg := x_reg s\<rparr>)
         else Continue (s\<lparr>x_reg := a_reg s\<rparr>))
      else Abort)"

lemma vm_step_forward: "vm_step i pkt s = Continue s' \<Longrightarrow> pc s < pc s'"
  by (auto simp: vm_step_def Let_def split: if_splits option.splits)

function vm_loop :: "insn list \<Rightarrow> packet \<Rightarrow> vm_state \<Rightarrow> bool option" where
  "vm_loop prog pkt s =
     (case get_at prog (pc s) of
        None \<Rightarrow> None
      | Some i \<Rightarrow>
          (case vm_step i pkt s of
             Abort \<Rightarrow> None
           | Return b \<Rightarrow> Some b
           | Continue s' \<Rightarrow> vm_loop prog pkt s'))"
  by pat_completeness auto
termination
proof (relation "measure (\<lambda>(prog, pkt, s). length prog - pc s)", goal_cases)
  case 1
  show ?case by simp
next
  case (2 prog pkt s i s')
  then have "pc s < length prog" "pc s < pc s'"
    by (auto simp: get_at_Some_iff dest: vm_step_forward)
  then show ?case by simp
qed

declare vm_loop.simps [simp del]

definition vm_init :: vm_state where
  "vm_init = \<lparr>pc = 0, a_reg = 0, x_reg = 0, scratch = replicate SCRATCH 0\<rparr>"

definition vm_inner :: "insn list \<Rightarrow> packet \<Rightarrow> bool option" where
  "vm_inner prog pkt = vm_loop prog pkt vm_init"

definition vm_run :: "insn list \<Rightarrow> packet \<Rightarrow> bool" where
  "vm_run prog pkt = (case vm_inner prog pkt of None \<Rightarrow> False | Some b \<Rightarrow> b)"

definition program_matches :: "program \<Rightarrow> packet \<Rightarrow> bool" where
  "program_matches p pkt = vm_run (insns p) pkt"

section \<open>Loads\<close>

text \<open>Bytes a load of the given size code reads; 0 for the size code no load has.\<close>

definition load_width :: "u16 \<Rightarrow> nat" where
  "load_width sz = (if sz = BPF_W then 4 else if sz = BPF_H then 2 else if sz = BPF_B then 1 else 0)"

lemma sized_load_None_iff:
  "sized_load pkt off sz = None \<longleftrightarrow> load_width sz = 0 \<or> length pkt < unat off + load_width sz"
  by (auto simp: sized_load_def load_width_def Let_def bpf_mode_defs)

lemma unat_be16: "unat (be16 b0 b1) = 256 * unat b0 + unat b1"
proof -
  have "be16 b0 b1 = push_bit 8 (ucast b0) + ucast b1"
    unfolding be16_def
    by (rule disjunctive_add [symmetric]) (auto simp: bit_simps dest: bit_imp_le_length)
  moreover have "unat b0 < 256" "unat b1 < 256"
    by (rule unat_u8_less)+
  ultimately show ?thesis
    by (simp add: push_bit_eq_mult unat_word_ariths)
qed

lemma unat_be16_less: "unat (be16 b0 b1) < 65536"
  using unat_u8_less [of b0] unat_u8_less [of b1] by (simp add: unat_be16)

section \<open>The machine as a transition system\<close>

inductive vm_trans :: "insn list \<Rightarrow> packet \<Rightarrow> vm_state \<Rightarrow> vm_state \<Rightarrow> bool"
  for prog :: "insn list" and pkt :: packet where
  turn: "get_at prog (pc s) = Some i \<Longrightarrow> vm_step i pkt s = Continue s' \<Longrightarrow> vm_trans prog pkt s s'"

inductive_cases vm_transE: "vm_trans prog pkt s s'"

text \<open>A machine whose counter only moves forward inside a program of fixed length.\<close>

locale forward_machine =
  fixes trans :: "'s \<Rightarrow> 's \<Rightarrow> bool" and counter :: "'s \<Rightarrow> nat" and bound :: nat
  assumes forward: "trans s s' \<Longrightarrow> counter s < counter s'"
    and inside: "trans s s' \<Longrightarrow> counter s < bound"
begin

lemma turns_counter: "(trans ^^ n) s s' \<Longrightarrow> counter s + n \<le> counter s'"
proof (induction n arbitrary: s')
  case (Suc n)
  then obtain t where "(trans ^^ n) s t" "trans t s'" by auto
  with Suc.IH [of t] forward [of t s'] show ?case by simp
qed simp

lemma turns_bounded: "(trans ^^ n) s s' \<Longrightarrow> counter s + n \<le> max bound (counter s)"
proof (cases n)
  case (Suc m)
  assume "(trans ^^ n) s s'"
  then obtain t where t: "(trans ^^ m) s t" "trans t s'" using Suc by auto
  with turns_counter [of m s t] inside [of t s'] Suc show ?thesis by simp
qed simp

end

interpretation vm: forward_machine "vm_trans prog pkt" pc "length prog" for prog pkt
  by unfold_locales (auto elim!: vm_transE simp: get_at_Some_iff dest: vm_step_forward)

lemma vm_step_scratch: "vm_step i pkt s = Continue s' \<Longrightarrow> length (scratch s') = length (scratch s)"
  by (auto simp: vm_step_def Let_def split: if_splits option.splits)

definition vm_reachable :: "insn list \<Rightarrow> packet \<Rightarrow> vm_state \<Rightarrow> bool" where
  "vm_reachable prog pkt s \<longleftrightarrow> (vm_trans prog pkt)\<^sup>*\<^sup>* vm_init s"

lemma vm_reachable_scratch: "vm_reachable prog pkt s \<Longrightarrow> length (scratch s) = SCRATCH"
  unfolding vm_reachable_def
proof (induction rule: rtranclp_induct)
  case (step s t)
  then show ?case by (auto elim!: vm_transE dest: vm_step_scratch)
qed (simp add: vm_init_def)

lemma vm_loop_trans: "vm_trans prog pkt s s' \<Longrightarrow> vm_loop prog pkt s = vm_loop prog pkt s'"
  by (auto elim!: vm_transE simp: vm_loop.simps [of prog pkt s])

lemma vm_loop_star: "(vm_trans prog pkt)\<^sup>*\<^sup>* s s' \<Longrightarrow> vm_loop prog pkt s = vm_loop prog pkt s'"
  by (induction rule: rtranclp_induct) (auto simp: vm_loop_trans)

lemma vm_loop_stops:
  "\<exists>s'. (vm_trans prog pkt)\<^sup>*\<^sup>* s s' \<and>
     (case get_at prog (pc s') of
        None \<Rightarrow> vm_loop prog pkt s = None
      | Some i \<Rightarrow> (vm_step i pkt s' = Abort \<and> vm_loop prog pkt s = None) \<or>
                 (\<exists>b. vm_step i pkt s' = Return b \<and> vm_loop prog pkt s = Some b))"
proof (induction prog pkt s rule: vm_loop.induct)
  case (1 prog pkt s)
  show ?case
  proof (cases "\<exists>i s'. get_at prog (pc s) = Some i \<and> vm_step i pkt s = Continue s'")
    case True
    then obtain i s' where i: "get_at prog (pc s) = Some i" "vm_step i pkt s = Continue s'"
      by blast
    then have "vm_trans prog pkt s s'" by (rule turn)
    then have eq: "vm_loop prog pkt s = vm_loop prog pkt s'"
      and star: "\<And>t. (vm_trans prog pkt)\<^sup>*\<^sup>* s' t \<Longrightarrow> (vm_trans prog pkt)\<^sup>*\<^sup>* s t"
      by (auto intro: vm_loop_trans converse_rtranclp_into_rtranclp)
    from "1.IH" [OF i] show ?thesis unfolding eq using star by blast
  next
    case False
    have "(vm_trans prog pkt)\<^sup>*\<^sup>* s s" by simp
    moreover have "case get_at prog (pc s) of
        None \<Rightarrow> vm_loop prog pkt s = None
      | Some i \<Rightarrow> (vm_step i pkt s = Abort \<and> vm_loop prog pkt s = None) \<or>
                 (\<exists>b. vm_step i pkt s = Return b \<and> vm_loop prog pkt s = Some b)"
      using False
      by (cases "get_at prog (pc s)"; cases "vm_step (prog ! pc s) pkt s")
         (auto simp: vm_loop.simps [of prog pkt s] get_at_Some_iff)
    ultimately show ?thesis by blast
  qed
qed

section \<open>Properties of the interpreter\<close>

lemma pc_add_no_wrap:
  assumes "n \<le> length prog" "length prog < 2 ^ 63"
  shows "(n + unat (k_field i)) mod 2 ^ 64 = n + unat (k_field i)"
  using assms unat_u32_less [of "k_field i"] by simp

lemma star_count: "r\<^sup>*\<^sup>* s s' \<Longrightarrow> \<exists>n. (r ^^ n) s s'"
  by (simp add: rtranclp_power)


text \<open>
  A packet load of the interpreter succeeds exactly when all the bytes it reads are inside
  the packet (a size code no load has never does), and a half-word has a 16-bit value.
\<close>

lemma sized_load_in_bounds:
  "(sized_load pkt off sz \<noteq> None \<longleftrightarrow> load_width sz \<noteq> 0 \<and> unat off + load_width sz \<le> length pkt) \<and>
   (\<forall>v. sized_load pkt off BPF_H = Some v \<longrightarrow> unat v < 2 ^ 16)"
  using sized_load_None_iff [of pkt off sz] unat_be16_less
  by (auto simp: sized_load_def bpf_mode_defs Let_def split: if_splits)

end
