(* ===== verification/Flow.thy ===== *)
theory Flow
  imports Vm
begin

text \<open>
  The instruction predicates of \<^verbatim>\<open>pktbaffle/src/optimizer.rs\<close> (\<open>is_ja\<close>, \<open>is_cond_jump\<close>,
  \<open>is_ld_abs\<close>, \<open>writes_a\<close>) and a control-flow view of the virtual machine built on them:
  \<open>vm_at prog pkt n s\<close> runs from position \<open>n\<close> with the registers of \<open>s\<close>, and
  \<open>vm_at_unfold\<close> says what one turn does, by kind of instruction. The optimizer and the code
  generator proofs use the machine through this view only.
\<close>

section \<open>Instruction predicates\<close>

definition is_ja :: "insn \<Rightarrow> bool" where
  "is_ja i \<longleftrightarrow> code i AND 0x07 = BPF_JMP \<and> code i AND 0xf0 = BPF_JA"

definition is_cond_jump :: "insn \<Rightarrow> bool" where
  "is_cond_jump i \<longleftrightarrow> code i AND 0x07 = BPF_JMP \<and> code i AND 0xf0 \<noteq> BPF_JA"

definition is_ld_abs :: "insn \<Rightarrow> bool" where
  "is_ld_abs i \<longleftrightarrow> code i AND 0xe7 = BPF_LD OR BPF_ABS"

definition writes_a :: "insn \<Rightarrow> bool" where
  "writes_a i \<longleftrightarrow>
     (let cls = code i AND 0x07 in
      cls = BPF_LD \<or> cls = BPF_ALU \<or> (cls = BPF_MISC \<and> code i AND 0xf8 = BPF_TXA))"

definition is_ret :: "insn \<Rightarrow> bool" where
  "is_ret i \<longleftrightarrow> code i AND 0x07 = BPF_RET"

lemma is_ja_not_cond [simp]: "is_ja i \<Longrightarrow> \<not> is_cond_jump i"
  by (simp add: is_ja_def is_cond_jump_def)

lemma is_ret_not_jump: "is_ret i \<Longrightarrow> \<not> is_ja i \<and> \<not> is_cond_jump i"
  by (simp add: is_ja_def is_cond_jump_def is_ret_def bpf_defs)

lemma kind_update [simp]:
  "is_ja (i\<lparr>jt := t\<rparr>) = is_ja i" "is_ja (i\<lparr>jf := t\<rparr>) = is_ja i" "is_ja (i\<lparr>k_field := v\<rparr>) = is_ja i"
  "is_cond_jump (i\<lparr>jt := t\<rparr>) = is_cond_jump i" "is_cond_jump (i\<lparr>jf := t\<rparr>) = is_cond_jump i"
  "is_cond_jump (i\<lparr>k_field := v\<rparr>) = is_cond_jump i"
  by (simp_all add: is_ja_def is_cond_jump_def)

section \<open>Runs from a position\<close>

definition vm_at :: "insn list \<Rightarrow> packet \<Rightarrow> nat \<Rightarrow> vm_state \<Rightarrow> bool option" where
  "vm_at prog pkt n s = vm_loop prog pkt (s\<lparr>pc := n\<rparr>)"

text \<open>The branch a conditional jump takes, \<open>None\<close> for an undefined comparison.\<close>

definition cond_taken :: "insn \<Rightarrow> vm_state \<Rightarrow> bool option" where
  "cond_taken i s =
     jmp_taken (code i AND 0xf0) (a_reg s) (if uses_x i then x_reg s else k_field i)"

text \<open>The effect of an instruction that is no jump on the registers (the counter is reset).\<close>

definition reg_step :: "insn \<Rightarrow> packet \<Rightarrow> vm_state \<Rightarrow> vm_outcome" where
  "reg_step i pkt s = vm_step i pkt (s\<lparr>pc := 0\<rparr>)"

lemma ld_value_pc [simp]: "ld_value i pkt (s\<lparr>pc := n\<rparr>) = ld_value i pkt s"
  by (simp add: ld_value_def Let_def)

lemma ldx_value_pc [simp]: "ldx_value i pkt (s\<lparr>pc := n\<rparr>) = ldx_value i pkt s"
  by (simp add: ldx_value_def Let_def)

lemma vm_step_ja: "is_ja i \<Longrightarrow> vm_step i pkt s = Continue (s\<lparr>pc := pc s + 1 + unat (k_field i)\<rparr>)"
  by (simp add: vm_step_def is_ja_def bpf_class_defs)

lemma vm_step_cond:
  "is_cond_jump i \<Longrightarrow>
   vm_step i pkt s =
     (case cond_taken i s of
        None \<Rightarrow> Abort
      | Some t \<Rightarrow> Continue (s\<lparr>pc := pc s + 1 + (if t then unat (jt i) else unat (jf i))\<rparr>))"
  by (simp add: vm_step_def is_cond_jump_def cond_taken_def bpf_class_defs split: option.splits)

lemma vm_step_other:
  assumes "\<not> is_ja i" "\<not> is_cond_jump i"
  shows "vm_step i pkt (s\<lparr>pc := n\<rparr>) =
    (case reg_step i pkt s of
       Abort \<Rightarrow> Abort | Return b \<Rightarrow> Return b | Continue s' \<Rightarrow> Continue (s'\<lparr>pc := n + 1\<rparr>))"
proof -
  have nj: "code i AND 7 \<noteq> BPF_JMP"
    using assms by (auto simp: is_ja_def is_cond_jump_def)
  show ?thesis
    using nj by (simp add: vm_step_def reg_step_def Let_def split: option.splits)
qed

lemma vm_at_unfold:
  "vm_at prog pkt n s =
     (if n < length prog then
        (let i = prog ! n in
         if is_ja i then vm_at prog pkt (n + 1 + unat (k_field i)) s
         else if is_cond_jump i then
           (case cond_taken i s of
              None \<Rightarrow> None
            | Some t \<Rightarrow> vm_at prog pkt (n + 1 + (if t then unat (jt i) else unat (jf i))) s)
         else
           (case reg_step i pkt s of
              Abort \<Rightarrow> None
            | Return b \<Rightarrow> Some b
            | Continue s' \<Rightarrow> vm_at prog pkt (n + 1) s'))
      else None)"
proof (cases "n < length prog")
  case False
  then show ?thesis by (simp add: vm_at_def vm_loop.simps)
next
  case True
  define i where "i = prog ! n"
  have fetch: "get_at prog n = Some i" using True by (simp add: i_def)
  show ?thesis
  proof (cases "is_ja i \<or> is_cond_jump i")
    case False
    then show ?thesis
      using True fetch vm_step_other [where i = i and pkt = pkt and s = s and n = n]
      by (simp add: vm_at_def vm_loop.simps [of prog pkt "s\<lparr>pc := n\<rparr>"] i_def [symmetric]
          split: vm_outcome.splits)
  next
    case jump: True
    have taken: "cond_taken i (s\<lparr>pc := n\<rparr>) = cond_taken i s" by (simp add: cond_taken_def)
    from jump show ?thesis
      using True fetch taken
      by (auto simp: vm_at_def vm_loop.simps [of prog pkt "s\<lparr>pc := n\<rparr>"] i_def [symmetric]
          vm_step_ja vm_step_cond Let_def split: option.splits)
  qed
qed

lemma vm_at_out: "length prog \<le> n \<Longrightarrow> vm_at prog pkt n s = None"
  by (subst vm_at_unfold) simp

lemma vm_inner_at: "vm_inner prog pkt = vm_at prog pkt 0 vm_init"
  by (simp add: vm_inner_def vm_at_def vm_init_def)

lemma vm_at_pc [simp]: "vm_at prog pkt n (s\<lparr>pc := m\<rparr>) = vm_at prog pkt n s"
  by (simp add: vm_at_def)

lemma reg_step_forget_pc [simp]: "reg_step i pkt (s\<lparr>pc := m\<rparr>) = reg_step i pkt s"
  by (simp add: reg_step_def)

section \<open>What the predicates say about execution\<close>

lemma ld_abs_bits: "is_ld_abs i \<Longrightarrow> code i AND 7 = BPF_LD \<and> code i AND 0xe0 = BPF_ABS"
  using and_and_mask [of "code i" "0xe7" _ 7] and_and_mask [of "code i" "0xe7" _ "0xe0"]
  by (simp add: is_ld_abs_def bpf_defs)

lemma ld_abs_not_jump: "is_ld_abs i \<Longrightarrow> \<not> is_ja i \<and> \<not> is_cond_jump i \<and> \<not> is_ret i"
  by (auto dest!: ld_abs_bits simp: is_ja_def is_cond_jump_def is_ret_def bpf_defs)

text \<open>The value of an absolute load, by its code and offset only.\<close>

definition abs_load :: "packet \<Rightarrow> u16 \<Rightarrow> u32 \<Rightarrow> u32 option" where
  "abs_load pkt c off = sized_load pkt off (c AND 0x18)"

lemma reg_step_ld_abs:
  "is_ld_abs i \<Longrightarrow>
   reg_step i pkt s =
     (case abs_load pkt (code i) (k_field i) of
        None \<Rightarrow> Abort | Some v \<Rightarrow> Continue (s\<lparr>pc := 1, a_reg := v\<rparr>))"
  by (drule ld_abs_bits) (simp add: reg_step_def vm_step_def ld_value_def abs_load_def Let_def
      split: option.splits)

text \<open>
  The virtual machine takes every \<open>MISC\<close> opcode with bit 7 set for \<open>TXA\<close>, the optimizer only
  \<open>0x80\<close> under the mask \<open>0xf8\<close>; the two agree on the opcodes that exist.
\<close>

definition misc_ok :: "insn \<Rightarrow> bool" where
  "misc_ok i \<longleftrightarrow> (code i AND 0x07 = BPF_MISC \<longrightarrow> code i AND 0x80 \<noteq> 0 \<longrightarrow> code i AND 0xf8 = BPF_TXA)"

lemma reg_step_keeps_a:
  assumes "\<not> writes_a i" "misc_ok i" "\<not> is_ja i" "\<not> is_cond_jump i" "reg_step i pkt s = Continue s'"
  shows "a_reg s' = a_reg s"
  using assms
  by (auto simp: reg_step_def vm_step_def writes_a_def misc_ok_def Let_def split: if_splits option.splits)

lemma reg_step_ret: "\<not> is_ja i \<Longrightarrow> \<not> is_cond_jump i \<Longrightarrow> is_ret i \<Longrightarrow> reg_step i pkt s \<noteq> Continue s'"
  by (simp add: reg_step_def vm_step_def is_ret_def bpf_class_defs)

end
