(* ===== verification/Optimizer.thy ===== *)
theory Optimizer
  imports Flow
begin

text \<open>
  \<^verbatim>\<open>pktbaffle/src/optimizer.rs\<close>: jump threading, redundant-load marking, reachability and the
  removal of the instructions that are not kept. The loops are modelled as folds over the index
  range (threading, marking), as a worklist recursion (reachability) and as recursion on the
  instruction list (removal).
\<close>

section \<open>Jump threading\<close>

text \<open>Index \<open>i\<close> of the backward sweep that fills \<open>fin\<close>.\<close>

definition fin_step :: "insn list \<Rightarrow> nat list \<Rightarrow> nat \<Rightarrow> nat list" where
  "fin_step p fin i =
     (if is_ja (p ! i)
      then let t = i + 1 + unat (k_field (p ! i))
           in fin[i := (if t < length p then fin ! t else t)]
      else fin)"

definition compute_fin :: "insn list \<Rightarrow> nat list" where
  "compute_fin p = foldl (fin_step p) [0..<length p] (rev [0..<length p])"

definition final_target :: "nat \<Rightarrow> nat list \<Rightarrow> nat \<Rightarrow> nat" where
  "final_target n fin t = (if t < n then fin ! t else t)"

definition thread_insn :: "nat \<Rightarrow> nat list \<Rightarrow> nat \<Rightarrow> insn \<Rightarrow> insn" where
  "thread_insn n fin i ins =
     (if is_ja ins then
        (let t = final_target n fin (i + 1 + unat (k_field ins))
         in ins\<lparr>k_field := of_nat (t - i - 1)\<rparr>)
      else if is_cond_jump ins then
        (let jt_target = final_target n fin (i + 1 + unat (jt ins));
             ins1 = (if jt_target - i - 1 \<le> 255
                     then ins\<lparr>jt := of_nat (jt_target - i - 1)\<rparr> else ins);
             jf_target = final_target n fin (i + 1 + unat (jf ins1))
         in if jf_target - i - 1 \<le> 255 then ins1\<lparr>jf := of_nat (jf_target - i - 1)\<rparr> else ins1)
      else ins)"

definition thread_jumps :: "insn list \<Rightarrow> insn list" where
  "thread_jumps p =
     (let n = length p; fin = compute_fin p
      in map (\<lambda>i. thread_insn n fin i (p ! i)) [0..<n])"

section \<open>Redundant loads\<close>

datatype astate = Unknown | Load u16 u32

definition meet_slot :: "astate option \<Rightarrow> astate \<Rightarrow> astate option" where
  "meet_slot slot incoming =
     (case slot of
        None \<Rightarrow> Some incoming
      | Some prev \<Rightarrow> if prev = incoming then Some incoming else Some Unknown)"

definition meet_at :: "nat \<Rightarrow> astate \<Rightarrow> astate option list \<Rightarrow> astate option list" where
  "meet_at t out ist = (if t < length ist then ist[t := meet_slot (ist ! t) out] else ist)"

definition out_state :: "insn \<Rightarrow> astate \<Rightarrow> astate" where
  "out_state ins state =
     (if is_ld_abs ins then Load (code ins) (k_field ins)
      else if writes_a ins then Unknown else state)"

definition mark_step ::
  "insn list \<Rightarrow> astate option list \<times> bool list \<Rightarrow> nat \<Rightarrow> astate option list \<times> bool list" where
  "mark_step p = (\<lambda>(ist, marks) i.
     (case ist ! i of
        None \<Rightarrow> (ist, marks)
      | Some state \<Rightarrow>
          (let ins = p ! i;
               marks' = (if is_ld_abs ins \<and> state = Load (code ins) (k_field ins)
                         then marks[i := True] else marks);
               out = out_state ins state
           in (if code ins AND 0x07 = BPF_RET then ist
               else if is_ja ins then meet_at (i + 1 + unat (k_field ins)) out ist
               else if is_cond_jump ins then
                 meet_at (i + 1 + unat (jf ins)) out (meet_at (i + 1 + unat (jt ins)) out ist)
               else meet_at (i + 1) out ist,
               marks'))))"

definition mark_sweep :: "insn list \<Rightarrow> astate option list \<times> bool list" where
  "mark_sweep p =
     foldl (mark_step p)
       ((replicate (length p) None)[0 := Some Unknown], replicate (length p) False)
       [0..<length p]"

definition redundant_load_marks :: "insn list \<Rightarrow> bool list" where
  "redundant_load_marks p = (if p = [] then [] else snd (mark_sweep p))"

section \<open>Reachability\<close>

text \<open>The positions control can go to from \<open>i\<close>, in the order they are pushed.\<close>

definition push_succs :: "nat \<Rightarrow> insn \<Rightarrow> nat list" where
  "push_succs i ins =
     (if code ins AND 0x07 = BPF_RET then []
      else if is_ja ins then [i + 1 + unat (k_field ins)]
      else if is_cond_jump ins then [i + 1 + unat (jf ins), i + 1 + unat (jt ins)]
      else [i + 1])"

lemma count_list_update_less:
  "i < length xs \<Longrightarrow> \<not> xs ! i \<Longrightarrow> length (filter Not (xs[i := True])) < length (filter Not xs)"
proof (induction xs arbitrary: i)
  case (Cons x xs)
  then show ?case by (cases i) auto
qed simp

function reach_loop :: "insn list \<Rightarrow> nat list \<Rightarrow> bool list \<Rightarrow> bool list" where
  "reach_loop p [] reachable = reachable"
| "reach_loop p (i # stack) reachable =
     (if i < length p \<and> i < length reachable \<and> \<not> reachable ! i
      then reach_loop p (push_succs i (p ! i) @ stack) (reachable[i := True])
      else reach_loop p stack reachable)"
  by pat_completeness auto

termination
proof (relation "measures [\<lambda>(p, stack, r). length (filter Not r), \<lambda>(p, stack, r). length stack]",
    goal_cases)
  case (2 p i stack reachable)
  then show ?case by (simp add: count_list_update_less)
qed simp_all

definition reachable_marks :: "insn list \<Rightarrow> bool list" where
  "reachable_marks p = reach_loop p [0] (replicate (length p) False)"

section \<open>Removal\<close>

fun new_index_from :: "nat \<Rightarrow> bool list \<Rightarrow> nat list" where
  "new_index_from count [] = [count]"
| "new_index_from count (b # bs) = count # new_index_from (count + (if b then 1 else 0)) bs"

definition renumber :: "nat list \<Rightarrow> nat \<Rightarrow> insn \<Rightarrow> insn" where
  "renumber ni i ins =
     (if is_ja ins then
        (let t = min (i + 1 + unat (k_field ins)) (length ni - 1)
         in ins\<lparr>k_field := of_nat (ni ! t - ni ! i - 1)\<rparr>)
      else if is_cond_jump ins then
        (let t = min (i + 1 + unat (jt ins)) (length ni - 1);
             f = min (i + 1 + unat (jf ins)) (length ni - 1)
         in ins\<lparr>jt := of_nat (ni ! t - ni ! i - 1), jf := of_nat (ni ! f - ni ! i - 1)\<rparr>)
      else ins)"

fun keep_loop :: "bool list \<Rightarrow> nat list \<Rightarrow> nat \<Rightarrow> insn list \<Rightarrow> insn list" where
  "keep_loop keep ni i [] = []"
| "keep_loop keep ni i (ins # rest) =
     (if keep ! i then renumber ni i ins # keep_loop keep ni (i + 1) rest
      else keep_loop keep ni (i + 1) rest)"

definition remove_unkept :: "insn list \<Rightarrow> bool list \<Rightarrow> insn list" where
  "remove_unkept p keep =
     (if list_all (\<lambda>b. b) keep then p else keep_loop keep (new_index_from 0 keep) 0 p)"

section \<open>The passes together\<close>

definition keep_marks :: "insn list \<Rightarrow> bool list" where
  "keep_marks p =
     (let redundant = redundant_load_marks p; reachable = reachable_marks p
      in map (\<lambda>i. reachable ! i \<and> \<not> redundant ! i \<and> \<not> (is_ja (p ! i) \<and> k_field (p ! i) = 0))
           [0..<length p])"

definition optimize :: "insn list \<Rightarrow> insn list" where
  "optimize p = (let p1 = thread_jumps p in remove_unkept p1 (keep_marks p1))"

section \<open>Adjacent duplicate loads\<close>

definition adjust_insn :: "nat \<Rightarrow> nat \<Rightarrow> insn \<Rightarrow> insn" where
  "adjust_insn removed src ins =
     (if code ins AND 0x07 \<noteq> BPF_JMP then ins
      else if src \<ge> removed then ins
      else if code ins AND 0xf0 = BPF_JA then
        (if src + 1 + unat (k_field ins) \<ge> removed then ins\<lparr>k_field := k_field ins - 1\<rparr> else ins)
      else
        (let adj = (\<lambda>field. if src + 1 + unat field \<ge> removed \<and> field > 0 then field - 1 else field)
         in ins\<lparr>jt := adj (jt ins), jf := adj (jf ins)\<rparr>))"

definition adjust_jumps :: "insn list \<Rightarrow> nat \<Rightarrow> insn list" where
  "adjust_jumps p removed = map (\<lambda>i. adjust_insn removed i (p ! i)) [0..<length p]"

definition remove_at :: "nat \<Rightarrow> 'a list \<Rightarrow> 'a list" where
  "remove_at i xs = take i xs @ drop (i + 1) xs"

function dedup_from :: "nat \<Rightarrow> insn list \<Rightarrow> insn list" where
  "dedup_from i p =
     (if i + 1 < length p
      then let cur = p ! i; nxt = p ! (i + 1)
           in if is_ld_abs cur \<and> is_ld_abs nxt \<and> code cur = code nxt \<and> k_field cur = k_field nxt
              then dedup_from i (adjust_jumps (remove_at (i + 1) p) (i + 1))
              else dedup_from (i + 1) p
      else p)"
  by pat_completeness auto
termination
  by (relation "measure (\<lambda>(i, p). length p - i)") (auto simp: adjust_jumps_def remove_at_def)

declare dedup_from.simps [simp del]

definition dedup_loads :: "insn list \<Rightarrow> insn list" where
  "dedup_loads p = (if p = [] then p else dedup_from 0 p)"

end
