(* ===== verification/Optimizer_Correct.thy ===== *)
theory Optimizer_Correct
  imports Optimizer
begin

text \<open>
  The optimizer preserves what a program does: every pass gives the same outcome (accept, drop or
  abort) on every packet. \<open>wf_prog\<close> is what the passes rely on: \<open>ja\<close> targets inside the
  program, fewer than \<open>2 ^ 32\<close> instructions and no undefined \<open>MISC\<close> opcode.
\<close>

definition ja_inside :: "insn list \<Rightarrow> nat \<Rightarrow> insn \<Rightarrow> bool" where
  "ja_inside p i ins \<longleftrightarrow> (is_ja ins \<longrightarrow> i + 1 + unat (k_field ins) \<le> length p)"

definition wf_prog :: "insn list \<Rightarrow> bool" where
  "wf_prog p \<longleftrightarrow>
     length p < 2 ^ 32 \<and>
     (\<forall>i < length p. ja_inside p i (p ! i)) \<and>
     (\<forall>i \<in> set p. misc_ok i)"

section \<open>A pass that preserves behaviour\<close>

locale vm_pass =
  fixes pass :: "insn list \<Rightarrow> insn list" and ok :: "insn list \<Rightarrow> bool"
  assumes preserves: "ok p \<Longrightarrow> vm_inner (pass p) pkt = vm_inner p pkt"
begin

lemma pass_run: "ok p \<Longrightarrow> vm_run (pass p) pkt = vm_run p pkt"
  by (simp add: vm_run_def preserves)

lemma pass_accepts: "ok p \<Longrightarrow> {pkt. vm_run (pass p) pkt} = {pkt. vm_run p pkt}"
  by (simp add: pass_run)

end

section \<open>Jump threading\<close>

definition fin_ok :: "insn list \<Rightarrow> nat \<Rightarrow> nat list \<Rightarrow> bool" where
  "fin_ok p m fin \<longleftrightarrow> length fin = length p \<and>
     (\<forall>i < length p.
        fin ! i =
          (if m \<le> i \<and> is_ja (p ! i)
           then final_target (length p) fin (i + 1 + unat (k_field (p ! i))) else i))"

lemma fin_ok_step:
  assumes "fin_ok p (Suc m) fin" "m < length p"
  shows "fin_ok p m (fin_step p fin m)"
proof -
  let ?g = "fin_step p fin m"
  have len: "length fin = length p"
    and old: "\<And>i. i < length p \<Longrightarrow> fin ! i = (if Suc m \<le> i \<and> is_ja (p ! i)
           then final_target (length p) fin (i + 1 + unat (k_field (p ! i))) else i)"
    using assms(1) unfolding fin_ok_def by blast+
  have keep: "?g ! i = fin ! i" if "i \<noteq> m" for i
    using that by (simp add: fin_step_def Let_def)
  have tgt: "final_target (length p) ?g t = final_target (length p) fin t" if "m < t" for t
    using that by (simp add: final_target_def keep)
  have new: "?g ! m = (if is_ja (p ! m)
      then final_target (length p) fin (m + 1 + unat (k_field (p ! m))) else m)"
    using assms(2) len old [of m] by (simp add: fin_step_def final_target_def Let_def)
  have "?g ! i = (if m \<le> i \<and> is_ja (p ! i)
      then final_target (length p) ?g (i + 1 + unat (k_field (p ! i))) else i)" if "i < length p" for i
    using new keep [of i] old [OF that] tgt [of "i + 1 + unat (k_field (p ! i))"]
    by (cases "i = m") auto
  moreover have "length ?g = length p" using len by (simp add: fin_step_def Let_def)
  ultimately show ?thesis unfolding fin_ok_def by blast
qed

lemma fin_ok_fold: "fin_ok p m fin \<Longrightarrow> m \<le> length p \<Longrightarrow> fin_ok p 0 (foldl (fin_step p) fin (rev [0..<m]))"
  by (induction m arbitrary: fin) (auto dest: fin_ok_step)

lemma compute_fin_ok: "fin_ok p 0 (compute_fin p)"
  unfolding compute_fin_def by (rule fin_ok_fold) (auto simp: fin_ok_def)

lemma final_target_unfold:
  "final_target (length p) (compute_fin p) t =
     (if t < length p \<and> is_ja (p ! t)
      then final_target (length p) (compute_fin p) (t + 1 + unat (k_field (p ! t))) else t)"
  using compute_fin_ok [of p] by (simp add: fin_ok_def final_target_def)

lemma final_target_ge: "t \<le> final_target (length p) (compute_fin p) t"
proof (induction "length p - t" arbitrary: t rule: less_induct)
  case less
  show ?case
  proof (cases "t < length p \<and> is_ja (p ! t)")
    case True
    then have "length p - (t + 1 + unat (k_field (p ! t))) < length p - t" by auto
    from less [OF this] True show ?thesis
      by (subst final_target_unfold) simp
  next
    case False
    then show ?thesis by (subst final_target_unfold) auto
  qed
qed

lemma final_target_le:
  assumes "wf_prog p" "t \<le> length p"
  shows "final_target (length p) (compute_fin p) t \<le> length p"
  using assms(2)
proof (induction "length p - t" arbitrary: t rule: less_induct)
  case less
  show ?case
  proof (cases "t < length p \<and> is_ja (p ! t)")
    case True
    with assms(1) have "t + 1 + unat (k_field (p ! t)) \<le> length p"
      by (simp add: wf_prog_def ja_inside_def)
    with True less.hyps show ?thesis
      by (subst final_target_unfold) simp
  next
    case False
    with less.prems show ?thesis by (subst final_target_unfold) auto
  qed
qed

lemma vm_at_ja: "t < length p \<Longrightarrow> is_ja (p ! t) \<Longrightarrow>
    vm_at p pkt t s = vm_at p pkt (t + 1 + unat (k_field (p ! t))) s"
  by (subst vm_at_unfold) (simp add: Let_def)

lemma vm_at_final_target: "vm_at p pkt (final_target (length p) (compute_fin p) t) s = vm_at p pkt t s"
proof (induction "length p - t" arbitrary: t rule: less_induct)
  case less
  show ?case
  proof (cases "t < length p \<and> is_ja (p ! t)")
    case True
    then have "length p - (t + 1 + unat (k_field (p ! t))) < length p - t" by auto
    from less [OF this] True show ?thesis
      by (subst final_target_unfold) (simp add: vm_at_ja)
  next
    case False
    then show ?thesis by (subst final_target_unfold) auto
  qed
qed

lemma length_thread_jumps [simp]: "length (thread_jumps p) = length p"
  by (simp add: thread_jumps_def Let_def)

lemma nth_thread_jumps:
  "i < length p \<Longrightarrow> thread_jumps p ! i = thread_insn (length p) (compute_fin p) i (p ! i)"
  by (simp add: thread_jumps_def Let_def)

lemma thread_insn_code [simp]: "code (thread_insn n fin i ins) = code ins"
  by (simp add: thread_insn_def Let_def)

lemma thread_insn_kind [simp]:
  "is_ja (thread_insn n fin i ins) = is_ja ins"
  "is_cond_jump (thread_insn n fin i ins) = is_cond_jump ins"
  "misc_ok (thread_insn n fin i ins) = misc_ok ins"
  by (simp_all add: is_ja_def is_cond_jump_def misc_ok_def)

lemma thread_insn_other:
  "\<not> is_ja ins \<Longrightarrow> \<not> is_cond_jump ins \<Longrightarrow> thread_insn n fin i ins = ins"
  by (simp add: thread_insn_def)

lemma thread_insn_cond_taken:
  "is_cond_jump ins \<Longrightarrow> cond_taken (thread_insn n fin i ins) s = cond_taken ins s"
  by (auto simp: thread_insn_def cond_taken_def uses_x_def Let_def dest: is_ja_not_cond)

lemma thread_ja_target:
  assumes "wf_prog p" "i < length p" "is_ja (p ! i)"
  shows "i + 1 + unat (k_field (thread_insn (length p) (compute_fin p) i (p ! i))) =
    final_target (length p) (compute_fin p) (i + 1 + unat (k_field (p ! i)))"
proof -
  let ?src = "i + 1 + unat (k_field (p ! i))"
  let ?t = "final_target (length p) (compute_fin p) ?src"
  have t0: "?src \<le> length p" using assms by (simp add: wf_prog_def ja_inside_def)
  have "?src \<le> ?t" by (rule final_target_ge)
  moreover have "?t \<le> length p" by (rule final_target_le [OF assms(1) t0])
  moreover have "length p < 2 ^ 32" using assms(1) by (simp add: wf_prog_def)
  ultimately show ?thesis
    using assms(3) by (simp add: thread_insn_def Let_def unat_of_nat_u32 del: of_nat_diff)
qed

lemma thread_cond_target:
  assumes "is_cond_jump ins"
  shows
    "i + 1 + unat (jt (thread_insn (length p) (compute_fin p) i ins)) \<in>
       {final_target (length p) (compute_fin p) (i + 1 + unat (jt ins)), i + 1 + unat (jt ins)}"
    "i + 1 + unat (jf (thread_insn (length p) (compute_fin p) i ins)) \<in>
       {final_target (length p) (compute_fin p) (i + 1 + unat (jf ins)), i + 1 + unat (jf ins)}"
proof -
  have nja: "\<not> is_ja ins" using assms(1) by (auto simp: is_ja_def is_cond_jump_def)
  note ge = final_target_ge [of "i + 1 + unat (jt ins)" p] final_target_ge [of "i + 1 + unat (jf ins)" p]
  show "i + 1 + unat (jt (thread_insn (length p) (compute_fin p) i ins)) \<in>
       {final_target (length p) (compute_fin p) (i + 1 + unat (jt ins)), i + 1 + unat (jt ins)}"
    using assms(1) nja ge by (auto simp: thread_insn_def Let_def unat_of_nat_u8 simp del: of_nat_diff)
  show "i + 1 + unat (jf (thread_insn (length p) (compute_fin p) i ins)) \<in>
       {final_target (length p) (compute_fin p) (i + 1 + unat (jf ins)), i + 1 + unat (jf ins)}"
    using assms(1) nja ge by (auto simp: thread_insn_def Let_def unat_of_nat_u8 simp del: of_nat_diff)
qed

lemma thread_jumps_at:
  assumes "wf_prog p"
  shows "vm_at (thread_jumps p) pkt n s = vm_at p pkt n s"
proof (induction "length p - n" arbitrary: n s rule: less_induct)
  case less
  show ?case
  proof (cases "n < length p")
    case False
    then show ?thesis by (simp add: vm_at_out)
  next
    case True
    let ?i = "p ! n" and ?i' = "thread_insn (length p) (compute_fin p) n (p ! n)"
    have fetch: "thread_jumps p ! n = ?i'" using True by (simp add: nth_thread_jumps)
    have IH: "vm_at (thread_jumps p) pkt m s' = vm_at p pkt m s'" if "n < m" for m s'
      using less [of m] True that by simp
    consider "is_ja ?i" | "is_cond_jump ?i" | "\<not> is_ja ?i" "\<not> is_cond_jump ?i" by blast
    then show ?thesis
    proof cases
      case 1
      have "vm_at (thread_jumps p) pkt n s =
          vm_at p pkt (n + 1 + unat (k_field ?i')) s"
        using True 1 fetch by (subst vm_at_unfold) (simp add: IH Let_def)
      then show ?thesis
        using True 1 assms
        by (simp only: thread_ja_target vm_at_final_target) (simp add: vm_at_ja)
    next
      case 2
      have "vm_at p pkt (n + 1 + unat (jt ?i')) s' = vm_at p pkt (n + 1 + unat (jt ?i)) s'"
        "vm_at p pkt (n + 1 + unat (jf ?i')) s' = vm_at p pkt (n + 1 + unat (jf ?i)) s'" for s'
        using thread_cond_target [OF 2, of n p] vm_at_final_target by auto
      then show ?thesis
        using True 2 fetch
        by (subst (1 2) vm_at_unfold)
           (auto simp: IH Let_def thread_insn_cond_taken dest: is_ja_not_cond split: option.splits)
    next
      case 3
      then show ?thesis
        using True fetch
        by (subst (1 2) vm_at_unfold) (simp add: IH Let_def thread_insn_other split: vm_outcome.splits)
    qed
  qed
qed

lemma thread_jumps_wf: "wf_prog p \<Longrightarrow> wf_prog (thread_jumps p)"
proof -
  assume wf: "wf_prog p"
  have "ja_inside (thread_jumps p) i (thread_jumps p ! i)" if "i < length p" for i
  proof (cases "is_ja (p ! i)")
    case True
    then have "i + 1 + unat (k_field (p ! i)) \<le> length p"
      using wf that by (simp add: wf_prog_def ja_inside_def)
    then show ?thesis
      using thread_ja_target [OF wf that True] final_target_le [OF wf]
      by (simp add: ja_inside_def nth_thread_jumps that)
  qed (simp add: ja_inside_def nth_thread_jumps that)
  then show "wf_prog (thread_jumps p)"
    using wf by (auto simp: wf_prog_def in_set_conv_nth [of _ "thread_jumps p"] nth_thread_jumps)
qed

interpretation threading: vm_pass thread_jumps wf_prog
  by unfold_locales (simp add: vm_inner_at thread_jumps_at)

section \<open>Reachability\<close>

definition closed_under :: "insn list \<Rightarrow> bool list \<Rightarrow> nat list \<Rightarrow> bool" where
  "closed_under p r stack \<longleftrightarrow>
     (\<forall>i < length p. r ! i \<longrightarrow> (\<forall>t \<in> set (push_succs i (p ! i)). t < length p \<longrightarrow> r ! t \<or> t \<in> set stack))"

lemma length_reach_loop [simp]: "length (reach_loop p stack r) = length r"
  by (induction p stack r rule: reach_loop.induct) auto

lemma reach_loop_mono: "i < length r \<Longrightarrow> r ! i \<Longrightarrow> reach_loop p stack r ! i"
proof (induction p stack r rule: reach_loop.induct)
  case (2 p j stack r)
  then show ?case by (auto simp: nth_list_update)
qed simp

lemma reach_loop_head:
  "i < length p \<Longrightarrow> length r = length p \<Longrightarrow> i \<in> set stack \<Longrightarrow> reach_loop p stack r ! i"
proof (induction p stack r rule: reach_loop.induct)
  case (2 p j stack r)
  show ?case
  proof (cases "i = j")
    case True
    with "2.prems" show ?thesis by (auto intro!: reach_loop_mono)
  next
    case False
    with 2 show ?thesis by auto
  qed
qed simp

lemma reach_loop_closed:
  "length r = length p \<Longrightarrow> closed_under p r stack \<Longrightarrow> closed_under p (reach_loop p stack r) []"
proof (induction p stack r rule: reach_loop.induct)
  case (2 p i stack r)
  show ?case
  proof (cases "i < length p \<and> i < length r \<and> \<not> r ! i")
    case True
    then have "closed_under p (r[i := True]) (push_succs i (p ! i) @ stack)"
      using "2.prems" by (fastforce simp: closed_under_def nth_list_update)
    with True 2 show ?thesis by simp
  next
    case False
    then have "closed_under p r stack"
      using "2.prems" by (auto simp: closed_under_def)
    with False 2 show ?thesis by auto
  qed
qed simp

lemma reachable_marks_len [simp]: "length (reachable_marks p) = length p"
  by (simp add: reachable_marks_def)

lemma reachable_marks_start: "0 < length p \<Longrightarrow> reachable_marks p ! 0"
  unfolding reachable_marks_def by (rule reach_loop_head) simp_all

lemma reachable_marks_succ:
  assumes "i < length p" "reachable_marks p ! i" "t \<in> set (push_succs i (p ! i))" "t < length p"
  shows "reachable_marks p ! t"
proof -
  have "closed_under p (reachable_marks p) []"
    unfolding reachable_marks_def by (rule reach_loop_closed) (simp_all add: closed_under_def)
  then have "\<forall>t \<in> set (push_succs i (p ! i)). t < length p \<longrightarrow> reachable_marks p ! t \<or> t \<in> set []"
    using assms(1,2) unfolding closed_under_def by blast
  with assms(3,4) show ?thesis by simp
qed

section \<open>Redundant loads\<close>

text \<open>\<open>st\<close> covers the analysis state \<open>out\<close>: it claims nothing, or the same.\<close>

definition covers :: "astate option \<Rightarrow> astate \<Rightarrow> bool" where
  "covers slot out \<longleftrightarrow> slot = Some Unknown \<or> slot = Some out"

lemma meet_slot_covers: "covers (meet_slot slot out) out"
  by (auto simp: covers_def meet_slot_def split: option.splits)

lemma meet_slot_keeps: "covers slot out \<Longrightarrow> covers (meet_slot slot out') out"
  by (auto simp: covers_def meet_slot_def split: option.splits)

lemma length_meet_at [simp]: "length (meet_at t out ist) = length ist"
  by (simp add: meet_at_def)

lemma meet_at_other: "j \<noteq> t \<Longrightarrow> meet_at t out ist ! j = ist ! j"
  by (simp add: meet_at_def)

lemma meet_at_covers: "t < length ist \<Longrightarrow> covers (meet_at t out ist ! t) out"
  by (simp add: meet_at_def meet_slot_covers)

lemma meet_at_keeps: "covers (ist ! j) out \<Longrightarrow> covers (meet_at t out' ist ! j) out"
  by (cases "j = t") (auto simp: meet_at_def meet_slot_keeps nth_list_update)

text \<open>Everything the sweep wants of the positions before \<open>m\<close>.\<close>

definition sweep_ok :: "insn list \<Rightarrow> nat \<Rightarrow> astate option list \<Rightarrow> bool list \<Rightarrow> bool" where
  "sweep_ok p m ist marks \<longleftrightarrow>
     length ist = length p \<and> length marks = length p \<and>
     (0 < length p \<longrightarrow> ist ! 0 = Some Unknown) \<and>
     (\<forall>i < length p. marks ! i \<longrightarrow>
        i < m \<and> is_ld_abs (p ! i) \<and> ist ! i = Some (Load (code (p ! i)) (k_field (p ! i)))) \<and>
     (\<forall>i < m. \<forall>st0. ist ! i = Some st0 \<longrightarrow>
        (\<forall>t \<in> set (push_succs i (p ! i)). t < length p \<longrightarrow> covers (ist ! t) (out_state (p ! i) st0)))"

lemma push_succs_later: "t \<in> set (push_succs i ins) \<Longrightarrow> i < t"
  by (auto simp: push_succs_def split: if_splits)

text \<open>The new in-states of one step of the sweep, as one meet per successor.\<close>

definition meet_succs :: "nat list \<Rightarrow> astate \<Rightarrow> astate option list \<Rightarrow> astate option list" where
  "meet_succs ts out ist = foldr (\<lambda>t. meet_at t out) ts ist"

lemma meet_succs_props:
  "length (meet_succs ts out ist) = length ist"
  "j \<notin> set ts \<Longrightarrow> meet_succs ts out ist ! j = ist ! j"
  "covers (ist ! j) out' \<Longrightarrow> covers (meet_succs ts out ist ! j) out'"
  "t \<in> set ts \<Longrightarrow> t < length ist \<Longrightarrow> covers (meet_succs ts out ist ! t) out"
proof -
  show len: "length (meet_succs ts out ist) = length ist" for ts
    by (induction ts) (simp_all add: meet_succs_def)
  show "j \<notin> set ts \<Longrightarrow> meet_succs ts out ist ! j = ist ! j"
    by (induction ts) (simp_all add: meet_succs_def meet_at_other)
  show keeps: "covers (ist ! j) out' \<Longrightarrow> covers (meet_succs ts out ist ! j) out'" for ts j
    by (induction ts) (simp_all add: meet_succs_def meet_at_keeps)
  show "t \<in> set ts \<Longrightarrow> t < length ist \<Longrightarrow> covers (meet_succs ts out ist ! t) out"
  proof (induction ts)
    case (Cons u ts)
    have "covers (meet_at u out (meet_succs ts out ist) ! t) out"
    proof (cases "t = u")
      case True
      with Cons.prems show ?thesis by (simp add: meet_at_covers len)
    next
      case False
      with Cons show ?thesis by (auto intro: meet_at_keeps)
    qed
    then show ?case by (simp add: meet_succs_def)
  qed simp
qed

lemma mark_step_eq:
  "mark_step p (ist, marks) i =
     (case ist ! i of
        None \<Rightarrow> (ist, marks)
      | Some st0 \<Rightarrow>
          (meet_succs (push_succs i (p ! i)) (out_state (p ! i) st0) ist,
           if is_ld_abs (p ! i) \<and> st0 = Load (code (p ! i)) (k_field (p ! i))
           then marks[i := True] else marks))"
  by (simp add: mark_step_def meet_succs_def push_succs_def Let_def split: option.splits)

lemma sweep_ok_step:
  assumes ok: "sweep_ok p m ist marks" and m: "m < length p"
  shows "case mark_step p (ist, marks) m of (ist', marks') \<Rightarrow> sweep_ok p (Suc m) ist' marks'"
proof (cases "ist ! m")
  case None
  then show ?thesis
    using ok unfolding mark_step_eq sweep_ok_def by (auto simp: less_Suc_eq)
next
  case (Some st0)
  define ist' where "ist' = meet_succs (push_succs m (p ! m)) (out_state (p ! m) st0) ist"
  have early: "ist' ! j = ist ! j" if "j \<le> m" for j
    unfolding ist'_def using that push_succs_later [of j m "p ! m"]
    by (intro meet_succs_props(2)) fastforce
  have "covers (ist' ! t) (out_state (p ! i) s1)"
    if "i < Suc m" "ist' ! i = Some s1" "t \<in> set (push_succs i (p ! i))" "t < length p" for i s1 t
  proof (cases "i = m")
    case True
    with that Some early [of m] ok show ?thesis
      by (auto simp: ist'_def sweep_ok_def intro!: meet_succs_props(4))
  next
    case False
    with that early [of i] ok have "covers (ist ! t) (out_state (p ! i) s1)"
      by (auto simp: sweep_ok_def)
    then show ?thesis unfolding ist'_def by (rule meet_succs_props(3))
  qed
  note edges = this
  define marks' where "marks' = (if is_ld_abs (p ! m) \<and> st0 = Load (code (p ! m)) (k_field (p ! m))
    then marks[m := True] else marks)"
  have lens: "length ist' = length p" "length marks' = length p"
    using ok by (simp_all add: ist'_def marks'_def meet_succs_props sweep_ok_def)
  have marked: "i < Suc m \<and> is_ld_abs (p ! i) \<and>
      ist' ! i = Some (Load (code (p ! i)) (k_field (p ! i)))"
    if "i < length p" "marks' ! i" for i
  proof (cases "i = m")
    case True
    moreover have "\<not> marks ! m" using ok m unfolding sweep_ok_def by blast
    ultimately show ?thesis using that Some early [of m] by (auto simp: marks'_def split: if_splits)
  next
    case False
    then have "marks ! i" using that(2) by (auto simp: marks'_def split: if_splits)
    then have "i < m" "is_ld_abs (p ! i)" "ist ! i = Some (Load (code (p ! i)) (k_field (p ! i)))"
      using ok that(1) unfolding sweep_ok_def by blast+
    with early [of i] show ?thesis by simp
  qed
  have start: "0 < length p \<longrightarrow> ist' ! 0 = Some Unknown"
    using ok early [of 0] by (simp add: sweep_ok_def)
  have "sweep_ok p (Suc m) ist' marks'"
    unfolding sweep_ok_def using lens marked edges start by blast
  then show ?thesis
    using Some by (simp add: mark_step_eq ist'_def marks'_def)
qed

lemma sweep_ok_fold:
  assumes "sweep_ok p m ist marks" "m \<le> length p"
  shows "case foldl (mark_step p) (ist, marks) [m..<length p] of
      (ist', marks') \<Rightarrow> sweep_ok p (length p) ist' marks'"
  using assms
proof (induction "length p - m" arbitrary: m ist marks)
  case 0
  then show ?case by simp
next
  case (Suc d)
  then have m: "m < length p" by simp
  obtain ist' marks' where step: "mark_step p (ist, marks) m = (ist', marks')"
    by (cases "mark_step p (ist, marks) m")
  with sweep_ok_step [OF Suc.prems(1) m] have "sweep_ok p (Suc m) ist' marks'" by simp
  with Suc m step show ?case by (simp add: upt_conv_Cons)
qed

lemma mark_sweep_ok:
  assumes "p \<noteq> []"
  shows "sweep_ok p (length p) (fst (mark_sweep p)) (redundant_load_marks p)"
proof -
  have "sweep_ok p 0 ((replicate (length p) None)[0 := Some Unknown]) (replicate (length p) False)"
    using assms by (simp add: sweep_ok_def)
  from sweep_ok_fold [OF this] show ?thesis
    using assms by (simp add: mark_sweep_def redundant_load_marks_def split: prod.splits)
qed

section \<open>Removal\<close>

definition kept_before :: "bool list \<Rightarrow> nat \<Rightarrow> nat" where
  "kept_before keep i = length (filter (\<lambda>b. b) (take i keep))"

lemma length_new_index [simp]: "length (new_index_from c keep) = length keep + 1"
  by (induction c keep rule: new_index_from.induct) auto

lemma nth_new_index: "i \<le> length keep \<Longrightarrow> new_index_from c keep ! i = c + kept_before keep i"
proof (induction c keep arbitrary: i rule: new_index_from.induct)
  case (2 c b bs)
  then show ?case by (cases i) (auto simp: kept_before_def)
qed (simp add: kept_before_def)

lemma kept_before_Suc:
  "i < length keep \<Longrightarrow> kept_before keep (Suc i) = kept_before keep i + (if keep ! i then 1 else 0)"
  by (simp add: kept_before_def take_Suc_conv_app_nth)

lemma kept_before_mono: "i \<le> j \<Longrightarrow> kept_before keep i \<le> kept_before keep j"
proof -
  assume "i \<le> j"
  then have "take j keep = take i keep @ take (j - i) (drop i keep)"
    by (metis le_add_diff_inverse take_add)
  then show ?thesis by (simp add: kept_before_def)
qed

lemma kept_before_diff:
  "i \<le> j \<Longrightarrow> j \<le> length keep \<Longrightarrow> kept_before keep j - kept_before keep i \<le> j - i"
proof -
  assume ij: "i \<le> j" "j \<le> length keep"
  then have "take j keep = take i keep @ take (j - i) (drop i keep)"
    by (metis le_add_diff_inverse take_add)
  moreover have "length (filter (\<lambda>b. b) (take (j - i) (drop i keep))) \<le> j - i"
    by (rule order_trans [OF length_filter_le]) simp
  ultimately show ?thesis by (simp add: kept_before_def)
qed

lemma keep_loop_nth:
  assumes "length keep = j + length p"
  shows "length (keep_loop keep ni j p) = kept_before keep (j + length p) - kept_before keep j \<and>
    (\<forall>i. j \<le> i \<longrightarrow> i < j + length p \<longrightarrow> keep ! i \<longrightarrow>
       keep_loop keep ni j p ! (kept_before keep i - kept_before keep j) = renumber ni i (p ! (i - j)))"
  using assms
proof (induction keep ni j p rule: keep_loop.induct)
  case (2 keep ni j ins rest)
  have j: "j < length keep" using "2.prems" by simp
  note S = kept_before_Suc [OF j]
  have mono: "kept_before keep (Suc j) \<le> kept_before keep i" if "Suc j \<le> i" for i
    using that by (rule kept_before_mono)
  show ?case
  proof (cases "keep ! j")
    case True
    note IH = "2.IH"(1) [OF True]
    show ?thesis
    proof (intro conjI allI impI)
      show "length (keep_loop keep ni j (ins # rest)) =
          kept_before keep (j + length (ins # rest)) - kept_before keep j"
        using IH "2.prems" True S mono [of "j + length (ins # rest)"] by simp
    next
      fix i assume i: "j \<le> i" "i < j + length (ins # rest)" "keep ! i"
      show "keep_loop keep ni j (ins # rest) ! (kept_before keep i - kept_before keep j) =
          renumber ni i ((ins # rest) ! (i - j))"
      proof (cases "i = j")
        case False
        then have "Suc j \<le> i" using i by simp
        moreover from this have "kept_before keep i - kept_before keep j =
            Suc (kept_before keep i - kept_before keep (Suc j))"
          using mono [of i] S True by simp
        moreover have "i - j = Suc (i - Suc j)" using \<open>Suc j \<le> i\<close> by simp
        ultimately show ?thesis using IH "2.prems" i True by simp
      qed (simp add: True)
    qed
  next
    case False
    note IH = "2.IH"(2) [OF False]
    show ?thesis
    proof (intro conjI allI impI)
      show "length (keep_loop keep ni j (ins # rest)) =
          kept_before keep (j + length (ins # rest)) - kept_before keep j"
        using IH "2.prems" False S by simp
    next
      fix i assume i: "j \<le> i" "i < j + length (ins # rest)" "keep ! i"
      then have "Suc j \<le> i" using False by (metis Suc_leI le_neq_implies_less)
      moreover from this have "i - j = Suc (i - Suc j)" by simp
      ultimately show "keep_loop keep ni j (ins # rest) ! (kept_before keep i - kept_before keep j) =
          renumber ni i ((ins # rest) ! (i - j))"
        using IH "2.prems" i False S by simp
    qed
  qed
qed simp

lemma renumber_code [simp]: "code (renumber ni i ins) = code ins"
  by (simp add: renumber_def Let_def)

lemma renumber_kind [simp]:
  "is_ja (renumber ni i ins) = is_ja ins" "is_cond_jump (renumber ni i ins) = is_cond_jump ins"
  by (simp_all add: is_ja_def is_cond_jump_def)

lemma renumber_other: "\<not> is_ja ins \<Longrightarrow> \<not> is_cond_jump ins \<Longrightarrow> renumber ni i ins = ins"
  by (simp add: renumber_def)

lemma renumber_cond_taken: "is_cond_jump ins \<Longrightarrow> cond_taken (renumber ni i ins) s = cond_taken ins s"
  by (auto simp: renumber_def cond_taken_def uses_x_def Let_def dest: is_ja_not_cond)

lemma kept_later:
  assumes "i < length keep" "keep ! i" "i < t"
  shows "kept_before keep i < kept_before keep t"
  using kept_before_mono [of "Suc i" t keep] kept_before_Suc [OF assms(1)] assms by simp

lemma renumber_ja_target:
  assumes "is_ja ins" "i < length keep" "keep ! i" "length keep < 2 ^ 32"
  shows "kept_before keep i + 1 + unat (k_field (renumber (new_index_from 0 keep) i ins)) =
    kept_before keep (min (i + 1 + unat (k_field ins)) (length keep))"
proof -
  let ?t = "min (i + 1 + unat (k_field ins)) (length keep)"
  have lt: "kept_before keep i < kept_before keep ?t"
    using assms by (intro kept_later) auto
  have "kept_before keep ?t \<le> length keep"
    unfolding kept_before_def by (rule order_trans [OF length_filter_le]) simp
  with lt assms show ?thesis
    by (simp add: renumber_def Let_def nth_new_index unat_of_nat_u32 del: of_nat_diff)
qed

lemma renumber_cond_target:
  assumes "is_cond_jump ins" "i < length keep" "keep ! i"
  shows
    "kept_before keep i + 1 + unat (jt (renumber (new_index_from 0 keep) i ins)) =
       kept_before keep (min (i + 1 + unat (jt ins)) (length keep))"
    "kept_before keep i + 1 + unat (jf (renumber (new_index_from 0 keep) i ins)) =
       kept_before keep (min (i + 1 + unat (jf ins)) (length keep))"
proof -
  have nja: "\<not> is_ja ins" using assms(1) by (auto dest: is_ja_not_cond)
  have bound: "kept_before keep i < kept_before keep (min (i + 1 + unat (f :: u8)) (length keep)) \<and>
      kept_before keep (min (i + 1 + unat f) (length keep)) - kept_before keep i - 1 \<le> 255" for f
    using kept_later [OF assms(2,3), of "min (i + 1 + unat f) (length keep)"] assms(2)
      kept_before_diff [of i "min (i + 1 + unat f) (length keep)" keep] unat_u8_less [of f]
    by auto
  show "kept_before keep i + 1 + unat (jt (renumber (new_index_from 0 keep) i ins)) =
       kept_before keep (min (i + 1 + unat (jt ins)) (length keep))"
    "kept_before keep i + 1 + unat (jf (renumber (new_index_from 0 keep) i ins)) =
       kept_before keep (min (i + 1 + unat (jf ins)) (length keep))"
    using assms nja bound [of "jt ins"] bound [of "jf ins"]
    by (simp_all add: renumber_def Let_def nth_new_index unat_of_nat_u8 del: of_nat_diff)
qed

text \<open>
  What the removal relies on: \<open>live i s\<close> holds of every position and state execution comes
  to, and a dropped instruction does nothing but fall through there.
\<close>

locale skippable =
  fixes p :: "insn list" and keep :: "bool list" and pkt :: packet
    and live :: "nat \<Rightarrow> vm_state \<Rightarrow> bool"
  assumes keep_len: "length keep = length p"
    and live_small: "live i s \<Longrightarrow> length p < 2 ^ 32"
    and live_skip: "i < length p \<Longrightarrow> live i s \<Longrightarrow> \<not> keep ! i \<Longrightarrow>
      live (i + 1) s \<and> vm_at p pkt i s = vm_at p pkt (i + 1) s"
    and live_ja: "i < length p \<Longrightarrow> live i s \<Longrightarrow> is_ja (p ! i) \<Longrightarrow>
      live (i + 1 + unat (k_field (p ! i))) s"
    and live_cond: "i < length p \<Longrightarrow> live i s \<Longrightarrow> is_cond_jump (p ! i) \<Longrightarrow>
      live (i + 1 + unat (jt (p ! i))) s \<and> live (i + 1 + unat (jf (p ! i))) s"
    and live_reg: "i < length p \<Longrightarrow> live i s \<Longrightarrow> \<not> is_ja (p ! i) \<Longrightarrow> \<not> is_cond_jump (p ! i) \<Longrightarrow>
      reg_step (p ! i) pkt s = Continue s' \<Longrightarrow> live (i + 1) s'"
begin

lemma kept_loop_at:
  assumes "live i s"
  shows "vm_at (keep_loop keep (new_index_from 0 keep) 0 p) pkt (kept_before keep (min i (length p))) s =
    vm_at p pkt i s"
  using assms
proof (induction "length p - i" arbitrary: i s rule: less_induct)
  case less
  let ?new = "keep_loop keep (new_index_from 0 keep) 0 p"
  have new: "length ?new = kept_before keep (length p)"
    "\<And>i. i < length p \<Longrightarrow> keep ! i \<Longrightarrow> ?new ! kept_before keep i = renumber (new_index_from 0 keep) i (p ! i)"
    using keep_loop_nth [of keep 0 p "new_index_from 0 keep"] keep_len
    by (simp_all add: kept_before_def)
  have IH: "vm_at ?new pkt (kept_before keep (min m (length p))) s' = vm_at p pkt m s'"
    if "i < m" "i < length p" "live m s'" for m s'
    using less.hyps [of m s'] that by simp
  show ?case
  proof (cases "i < length p")
    case False
    then show ?thesis by (simp add: vm_at_out new)
  next
    case i: True
    show ?thesis
    proof (cases "keep ! i")
      case False
      then have "kept_before keep (min i (length p)) = kept_before keep (min (i + 1) (length p))"
        using i keep_len by (simp add: kept_before_Suc)
      with False i live_skip [OF i less.prems] IH [of "i + 1" s] show ?thesis by simp
    next
      case True
      let ?i = "p ! i" and ?j = "renumber (new_index_from 0 keep) i (p ! i)"
      have at: "kept_before keep (min i (length p)) = kept_before keep i" using i by simp
      have in_new: "kept_before keep i < length ?new"
        using kept_later [of i keep "length p"] i True keep_len by (simp add: new)
      have fetch: "?new ! kept_before keep i = ?j" using i True by (simp add: new)
      have ik: "i < length keep" using i keep_len by simp
      consider "is_ja ?i" | "is_cond_jump ?i" "\<not> is_ja ?i" | "\<not> is_ja ?i" "\<not> is_cond_jump ?i"
        by blast
      then show ?thesis
      proof cases
        case 1
        have "vm_at ?new pkt (kept_before keep i) s =
            vm_at ?new pkt (kept_before keep i + 1 + unat (k_field ?j)) s"
          using in_new fetch 1 by (subst vm_at_unfold) (simp add: Let_def)
        also have "\<dots> = vm_at p pkt (i + 1 + unat (k_field ?i)) s"
          using renumber_ja_target [OF 1 ik True] live_small [OF less.prems] keep_len
            IH [OF _ i live_ja [OF i less.prems 1]] by simp
        finally show ?thesis using i 1 at by (simp add: vm_at_ja)
      next
        case 2
        note IHt = IH [OF _ i conjunct1 [OF live_cond [OF i less.prems 2(1)]]]
        note IHf = IH [OF _ i conjunct2 [OF live_cond [OF i less.prems 2(1)]]]
        have "vm_at ?new pkt (kept_before keep i) s =
            (case cond_taken ?i s of None \<Rightarrow> None
             | Some t \<Rightarrow> vm_at ?new pkt
                 (if t then kept_before keep i + 1 + unat (jt ?j)
                  else kept_before keep i + 1 + unat (jf ?j)) s)"
          using in_new fetch 2
          by (subst vm_at_unfold) (simp add: Let_def renumber_cond_taken split: option.splits)
        also have "\<dots> = vm_at p pkt i s"
          using i 2 renumber_cond_target [OF 2(1) ik True] IHt IHf keep_len
          by (subst vm_at_unfold [of p pkt i s]) (simp add: Let_def split: option.splits)
        finally show ?thesis using at by simp
      next
        case 3
        have IHn: "vm_at ?new pkt (kept_before keep i + 1) s' = vm_at p pkt (i + 1) s'"
          if "reg_step ?i pkt s = Continue s'" for s'
          using IH [OF _ i live_reg [OF i less.prems 3 that]] ik True i
          by (simp add: kept_before_Suc)
        show ?thesis
          using in_new fetch 3 i at IHn
          by (subst (1 2) vm_at_unfold) (simp add: Let_def renumber_other split: vm_outcome.splits)
      qed
    qed
  qed
qed

lemma removal_preserves: "live 0 s \<Longrightarrow> vm_at (remove_unkept p keep) pkt 0 s = vm_at p pkt 0 s"
  using kept_loop_at [of 0 s] by (simp add: remove_unkept_def kept_before_def)

end

section \<open>The optimizer as a whole\<close>

text \<open>The accumulator agrees with what the analysis claims at this position.\<close>

definition a_matches :: "packet \<Rightarrow> astate \<Rightarrow> vm_state \<Rightarrow> bool" where
  "a_matches pkt st0 s \<longleftrightarrow> (\<forall>c off. st0 = Load c off \<longrightarrow> abs_load pkt c off = Some (a_reg s))"

definition opt_live :: "insn list \<Rightarrow> packet \<Rightarrow> nat \<Rightarrow> vm_state \<Rightarrow> bool" where
  "opt_live p pkt i s \<longleftrightarrow> wf_prog p \<and>
     (i < length p \<longrightarrow> reachable_marks p ! i \<and>
        (\<exists>st0. fst (mark_sweep p) ! i = Some st0 \<and> a_matches pkt st0 s))"

lemma sweep_edge:
  assumes "i < length p" "fst (mark_sweep p) ! i = Some st0"
    and "t \<in> set (push_succs i (p ! i))" "t < length p"
  shows "covers (fst (mark_sweep p) ! t) (out_state (p ! i) st0)"
proof -
  have "p \<noteq> []" using assms(1) by auto
  from mark_sweep_ok [OF this] show ?thesis
    using assms unfolding sweep_ok_def by blast
qed

lemma covers_matches:
  "covers slot out \<Longrightarrow> a_matches pkt out s \<Longrightarrow> \<exists>st0. slot = Some st0 \<and> a_matches pkt st0 s"
  by (auto simp: covers_def a_matches_def)

lemma opt_live_edge:
  assumes "opt_live p pkt i s" "i < length p" "t \<in> set (push_succs i (p ! i))"
    and out: "\<And>st0. a_matches pkt st0 s \<Longrightarrow> a_matches pkt (out_state (p ! i) st0) s'"
  shows "opt_live p pkt t s'"
proof -
  obtain st0 where st0: "fst (mark_sweep p) ! i = Some st0" "a_matches pkt st0 s"
    and r: "reachable_marks p ! i" and wf: "wf_prog p"
    using assms(1,2) unfolding opt_live_def by blast
  have "reachable_marks p ! t \<and> (\<exists>st1. fst (mark_sweep p) ! t = Some st1 \<and> a_matches pkt st1 s')"
    if "t < length p"
    using reachable_marks_succ [OF assms(2) r assms(3) that]
      covers_matches [OF sweep_edge [OF assms(2) st0(1) assms(3) that] out [OF st0(2)]] by blast
  with wf show ?thesis unfolding opt_live_def by blast
qed

lemma out_state_jump:
  "is_ja ins \<or> is_cond_jump ins \<Longrightarrow> out_state ins st0 = st0"
  by (auto simp: out_state_def writes_a_def is_ja_def is_cond_jump_def bpf_defs dest: ld_abs_bits)

lemma out_state_reg:
  assumes "reg_step ins pkt s = Continue s'" "misc_ok ins" "\<not> is_ja ins" "\<not> is_cond_jump ins"
    and "a_matches pkt st0 s"
  shows "a_matches pkt (out_state ins st0) s'"
proof (cases "is_ld_abs ins")
  case True
  then show ?thesis
    using assms(1) by (auto simp: out_state_def a_matches_def reg_step_ld_abs split: option.splits)
next
  case False
  then show ?thesis
    using assms reg_step_keeps_a [OF _ assms(2-4,1)] by (auto simp: out_state_def a_matches_def)
qed

lemma keep_marks_len [simp]: "length (keep_marks p) = length p"
  by (simp add: keep_marks_def Let_def)

lemma jump_succs:
  "is_ja ins \<Longrightarrow> push_succs i ins = [i + 1 + unat (k_field ins)]"
  "is_cond_jump ins \<Longrightarrow> push_succs i ins = [i + 1 + unat (jf ins), i + 1 + unat (jt ins)]"
  "\<not> is_ja ins \<Longrightarrow> \<not> is_cond_jump ins \<Longrightarrow> \<not> is_ret ins \<Longrightarrow> push_succs i ins = [i + 1]"
  by (auto simp: push_succs_def is_ja_def is_cond_jump_def is_ret_def bpf_defs)

lemma redundant_skip:
  assumes live: "opt_live p pkt i s" and i: "i < length p" and m: "redundant_load_marks p ! i"
  shows "opt_live p pkt (i + 1) s \<and> vm_at p pkt i s = vm_at p pkt (i + 1) s"
proof -
  have "p \<noteq> []" using i by auto
  from mark_sweep_ok [OF this] have ld: "is_ld_abs (p ! i)"
    and ist: "fst (mark_sweep p) ! i = Some (Load (code (p ! i)) (k_field (p ! i)))"
    using i m unfolding sweep_ok_def by blast+
  have val: "abs_load pkt (code (p ! i)) (k_field (p ! i)) = Some (a_reg s)"
    using live i ist by (auto simp: opt_live_def a_matches_def)
  have step: "reg_step (p ! i) pkt s = Continue (s\<lparr>pc := 1\<rparr>)"
    using ld val by (simp add: reg_step_ld_abs)
  have "push_succs i (p ! i) = [i + 1]"
    using ld_abs_not_jump [OF ld] by (simp add: jump_succs)
  then have "opt_live p pkt (i + 1) s"
    using val ld by (intro opt_live_edge [OF live i]) (auto simp: out_state_def a_matches_def)
  moreover have "vm_at p pkt i s = vm_at p pkt (i + 1) s"
    using i step ld_abs_not_jump [OF ld] by (subst vm_at_unfold) (simp add: Let_def)
  ultimately show ?thesis by simp
qed

lemma nop_ja_skip:
  assumes live: "opt_live p pkt i s" and i: "i < length p" and "is_ja (p ! i)" "k_field (p ! i) = 0"
  shows "opt_live p pkt (i + 1) s \<and> vm_at p pkt i s = vm_at p pkt (i + 1) s"
  using opt_live_edge [OF live i, of "i + 1" s] assms
  by (simp add: jump_succs out_state_jump vm_at_ja)

interpretation opt: skippable p "keep_marks p" pkt "opt_live p pkt" for p pkt
proof
  fix i s s'
  show "length (keep_marks p) = length p" by simp
  show "opt_live p pkt i s \<Longrightarrow> length p < 2 ^ 32" by (simp add: opt_live_def wf_prog_def)
  show "opt_live p pkt (i + 1) s \<and> vm_at p pkt i s = vm_at p pkt (i + 1) s"
    if "i < length p" "opt_live p pkt i s" "\<not> keep_marks p ! i"
    using that redundant_skip [of p pkt i s] nop_ja_skip [of p pkt i s]
    by (auto simp: keep_marks_def Let_def opt_live_def)
  show "opt_live p pkt (i + 1 + unat (k_field (p ! i))) s"
    if "i < length p" "opt_live p pkt i s" "is_ja (p ! i)"
    using that by (intro opt_live_edge [OF that(2,1)]) (simp_all add: jump_succs out_state_jump)
  show "opt_live p pkt (i + 1 + unat (jt (p ! i))) s \<and> opt_live p pkt (i + 1 + unat (jf (p ! i))) s"
    if "i < length p" "opt_live p pkt i s" "is_cond_jump (p ! i)"
    using that opt_live_edge [OF that(2,1), of _ s] by (simp add: jump_succs out_state_jump)
  show "opt_live p pkt (i + 1) s'"
    if "i < length p" "opt_live p pkt i s" "\<not> is_ja (p ! i)" "\<not> is_cond_jump (p ! i)"
      "reg_step (p ! i) pkt s = Continue s'"
  proof (rule opt_live_edge [OF that(2,1)])
    have "\<not> is_ret (p ! i)" using that reg_step_ret by blast
    with that show "i + 1 \<in> set (push_succs i (p ! i))" by (simp add: jump_succs)
    have "misc_ok (p ! i)" using that by (simp add: opt_live_def wf_prog_def)
    with that show "\<And>st0. a_matches pkt st0 s \<Longrightarrow> a_matches pkt (out_state (p ! i) st0) s'"
      by (simp add: out_state_reg)
  qed
qed

lemma opt_live_start: "wf_prog p \<Longrightarrow> opt_live p pkt 0 s"
  using mark_sweep_ok [of p] reachable_marks_start [of p]
  by (cases "p = []") (auto simp: opt_live_def sweep_ok_def a_matches_def)

lemma optimize_inner: "wf_prog p \<Longrightarrow> vm_inner (optimize p) pkt = vm_inner p pkt"
proof -
  assume wf: "wf_prog p"
  have "vm_inner (optimize p) pkt = vm_at (thread_jumps p) pkt 0 vm_init"
    unfolding vm_inner_at optimize_def Let_def
    by (rule opt.removal_preserves [OF opt_live_start [OF thread_jumps_wf [OF wf]]])
  also have "\<dots> = vm_inner p pkt" by (simp add: vm_inner_at thread_jumps_at [OF wf])
  finally show ?thesis .
qed

interpretation optimizing: vm_pass optimize wf_prog
  by unfold_locales (rule optimize_inner)

lemma keep_loop_length: "length (keep_loop keep ni i p) \<le> length p"
  by (induction p arbitrary: i) (auto intro: le_SucI)

section \<open>The properties of the passes\<close>

text \<open>A program with a trampoline, a repeated load and dead code, and a packet it accepts.\<close>

definition sample_prog :: "insn list" where
  "sample_prog =
     [ldh_abs 0, jeq_k 0x0800 0 2, ja 0, ldh_abs 0, jeq_k 0x0800 0 1, ret_k BPF_ACCEPT, ret_k BPF_DROP]"

lemma wf_prog_enum:
  "wf_prog p \<longleftrightarrow>
     length p < 2 ^ 32 \<and> list_all (\<lambda>(i, ins). ja_inside p i ins) (enumerate 0 p) \<and> list_all misc_ok p"
  by (auto simp: wf_prog_def list_all_iff in_set_enumerate_eq)

lemma sample_wf: "wf_prog sample_prog"
  by (simp add: wf_prog_enum sample_prog_def ja_inside_def misc_ok_def is_ja_def bpf_defs)

text \<open>
  C11: the optimizer keeps the outcome of every well-formed program on every packet: it accepts,
  drops or aborts exactly when the program it was given does.
\<close>

theorem optimize_preserves: "wf_prog p \<Longrightarrow> vm_inner (optimize p) pkt = vm_inner p pkt"
  by (rule optimizing.preserves)

theorem optimize_preserves_witness: "vm_inner (optimize sample_prog) [8, 0] = vm_inner sample_prog [8, 0]"
  by (rule optimize_preserves [OF sample_wf])

text \<open>
  Jump threading alone keeps the outcome of every well-formed program, keeps the number of
  instructions and leaves a well-formed program.
\<close>

lemma thread_jumps_preserves:
  "wf_prog p \<Longrightarrow>
   vm_inner (thread_jumps p) pkt = vm_inner p pkt \<and> length (thread_jumps p) = length p \<and>
   wf_prog (thread_jumps p)"
  using threading.preserves thread_jumps_wf by simp

text \<open>The optimizer never makes a program longer.\<close>

lemma optimize_shrinks: "length (optimize p) \<le> length p"
  using keep_loop_length [of _ _ _ "thread_jumps p"]
  by (simp add: optimize_def remove_unkept_def Let_def)

end
