(* ===== verification/Dedup_Correct.thy ===== *)
theory Dedup_Correct
  imports Optimizer_Correct
begin

text \<open>
  The stand-alone pass \<open>dedup_loads\<close> of \<^verbatim>\<open>pktbaffle/src/optimizer.rs\<close> keeps the outcome of
  every program: taking out the second of two equal absolute loads moves every later position up
  by one, and a jump to the removed load goes to its equal predecessor.
\<close>

section \<open>Adjacent duplicate loads\<close>

text \<open>Where a position goes when the instruction after position \<open>i\<close> is taken out.\<close>

definition dedup_pos :: "nat \<Rightarrow> nat \<Rightarrow> nat" where
  "dedup_pos i n = (if n \<le> i then n else n - 1)"

lemma length_dedup_step [simp]:
  "Suc i < length p \<Longrightarrow> length (adjust_jumps (remove_at (Suc i) p) (Suc i)) = length p - 1"
  by (simp add: adjust_jumps_def remove_at_def)

lemma nth_remove_at:
  "i < length p \<Longrightarrow> remove_at i p ! n = (if n < i then p ! n else p ! (n + 1))" if "n + 1 < length p"
  using that by (simp add: remove_at_def nth_append min_def)

lemma nth_dedup_step:
  assumes "i + 1 < length p" "n < length p" "n \<noteq> i + 1"
  shows "adjust_jumps (remove_at (i + 1) p) (i + 1) ! dedup_pos i n =
     adjust_insn (i + 1) (dedup_pos i n) (p ! n)"
proof -
  have len: "length (remove_at (i + 1) p) = length p - 1" using assms by (simp add: remove_at_def)
  have pos: "dedup_pos i n + 1 < length p" using assms by (auto simp: dedup_pos_def)
  have "remove_at (i + 1) p ! dedup_pos i n = p ! n"
    using assms nth_remove_at [OF pos, of "i + 1"] by (auto simp: dedup_pos_def)
  then show ?thesis using pos len by (simp add: adjust_jumps_def)
qed

lemma adjust_insn_code [simp]: "code (adjust_insn r src ins) = code ins"
  by (simp add: adjust_insn_def Let_def)

lemma adjust_insn_kind [simp]:
  "is_ja (adjust_insn r src ins) = is_ja ins"
  "is_cond_jump (adjust_insn r src ins) = is_cond_jump ins"
  by (simp_all add: is_ja_def is_cond_jump_def)

lemma adjust_insn_other: "\<not> is_ja ins \<Longrightarrow> \<not> is_cond_jump ins \<Longrightarrow> adjust_insn r src ins = ins"
  by (auto simp: adjust_insn_def is_ja_def is_cond_jump_def)

lemma adjust_insn_cond_taken:
  "is_cond_jump ins \<Longrightarrow> cond_taken (adjust_insn r src ins) s = cond_taken ins s"
  by (simp add: adjust_insn_def is_cond_jump_def cond_taken_def uses_x_def Let_def)

lemma unat_pred: "0 < unat (w :: 'a::len word) \<Longrightarrow> unat (w - 1) = unat w - 1"
  by (simp add: unat_sub word_le_nat_alt)

lemma adjust_ja_target:
  assumes "is_ja ins" "n \<noteq> i" "n \<noteq> i + 1"
  shows "dedup_pos i n + 1 + unat (k_field (adjust_insn (i + 1) (dedup_pos i n) ins)) =
    dedup_pos i (n + 1 + unat (k_field ins))"
  using assms unat_pred [of "k_field ins"]
  by (auto simp: adjust_insn_def is_ja_def dedup_pos_def split: if_splits)

lemma adjust_cond_target:
  assumes "is_cond_jump ins" "n \<noteq> i" "n \<noteq> i + 1"
  shows "dedup_pos i n + 1 + unat (jt (adjust_insn (i + 1) (dedup_pos i n) ins)) =
      dedup_pos i (n + 1 + unat (jt ins))"
    and "dedup_pos i n + 1 + unat (jf (adjust_insn (i + 1) (dedup_pos i n) ins)) =
      dedup_pos i (n + 1 + unat (jf ins))"
  using assms unat_pred [of "jt ins"] unat_pred [of "jf ins"]
  by (auto simp: adjust_insn_def is_cond_jump_def dedup_pos_def Let_def word_less_nat_alt)


lemma vm_at_ld_abs:
  assumes "n < length p" "is_ld_abs (p ! n)"
  shows "vm_at p pkt n s =
    (case abs_load pkt (code (p ! n)) (k_field (p ! n)) of
       None \<Rightarrow> None | Some v \<Rightarrow> vm_at p pkt (n + 1) (s\<lparr>a_reg := v\<rparr>))"
  using assms ld_abs_not_jump [OF assms(2)]
  by (subst vm_at_unfold) (simp add: Let_def reg_step_ld_abs vm_at_def split: option.splits)

lemma dedup_step_at:
  assumes i: "i + 1 < length p" and cur: "is_ld_abs (p ! i)"
    and same: "is_ld_abs (p ! (i + 1))" "code (p ! i) = code (p ! (i + 1))"
      "k_field (p ! i) = k_field (p ! (i + 1))"
  shows "vm_at (adjust_jumps (remove_at (i + 1) p) (i + 1)) pkt (dedup_pos i n) s = vm_at p pkt n s"
proof (induction "length p - n" arbitrary: n s rule: less_induct)
  case less
  let ?q = "adjust_jumps (remove_at (i + 1) p) (i + 1)"
  have len: "length ?q = length p - 1" using i by simp
  have IH: "vm_at ?q pkt (dedup_pos i m) s' = vm_at p pkt m s'" if "n < m" "n < length p" for m s'
    using less [of m s'] that by simp
  show ?case
  proof (cases "n < length p")
    case False
    then show ?thesis using i by (simp add: vm_at_out dedup_pos_def)
  next
    case n: True
    have ld: "vm_at ?q pkt i s = (case abs_load pkt (code (p ! i)) (k_field (p ! i)) of
        None \<Rightarrow> None | Some v \<Rightarrow> vm_at ?q pkt (i + 1) (s\<lparr>a_reg := v\<rparr>))"
      using vm_at_ld_abs [of i ?q pkt s] nth_dedup_step [of i p i] i cur
        adjust_insn_other [of "p ! i"] ld_abs_not_jump [OF cur] by (simp add: dedup_pos_def)
    have after: "vm_at ?q pkt (i + 1) s' = vm_at p pkt (i + 2) s'" if "n = i \<or> n = i + 1" for s'
      using IH [of "i + 2" s'] that n by (auto simp: dedup_pos_def)
    consider "n = i" | "n = i + 1" | "n \<noteq> i" "n \<noteq> i + 1" by blast
    then show ?thesis
    proof cases
      case 1
      then show ?thesis
        using ld after i cur same
        by (auto simp: vm_at_ld_abs dedup_pos_def split: option.splits)
    next
      case 2
      then show ?thesis
        using ld after i same vm_at_ld_abs [of "i + 1" p pkt s]
        by (auto simp: dedup_pos_def split: option.splits)
    next
      case 3
      let ?j = "adjust_insn (i + 1) (dedup_pos i n) (p ! n)"
      have fetch: "?q ! dedup_pos i n = ?j" "dedup_pos i n < length ?q"
        using nth_dedup_step [OF i n 3(2)] n 3 i by (auto simp: dedup_pos_def)
      have nxt: "dedup_pos i n + 1 = dedup_pos i (n + 1)" using 3 by (auto simp: dedup_pos_def)
      consider "is_ja (p ! n)" | "is_cond_jump (p ! n)" "\<not> is_ja (p ! n)"
        | "\<not> is_ja (p ! n)" "\<not> is_cond_jump (p ! n)" by blast
      then show ?thesis
      proof cases
        case 1
        then show ?thesis
          using n fetch IH [of "n + 1 + unat (k_field (p ! n))" s] adjust_ja_target [OF 1 3]
          by (subst (1 2) vm_at_unfold) (simp add: Let_def)
      next
        case 2
        then show ?thesis
          using n fetch IH [of "n + 1 + unat (jt (p ! n))" s] IH [of "n + 1 + unat (jf (p ! n))" s]
            adjust_cond_target [OF 2(1) 3]
          by (subst (1 2) vm_at_unfold) (simp add: Let_def adjust_insn_cond_taken split: option.splits)
      next
        case 4: 3
        then show ?thesis
          using n fetch nxt IH [of "n + 1"]
          by (subst (1 2) vm_at_unfold)
             (simp add: Let_def adjust_insn_other split: vm_outcome.splits)
      qed
    qed
  qed
qed

lemma dedup_from_at: "vm_at (dedup_from i p) pkt 0 s = vm_at p pkt 0 s"
proof (induction i p rule: dedup_from.induct)
  case (1 i p)
  show ?case
    using 1 dedup_step_at [of i p pkt 0 s]
    by (subst dedup_from.simps) (auto simp: Let_def dedup_pos_def)
qed

interpretation deduping: vm_pass dedup_loads "\<lambda>_. True"
  by unfold_locales (simp add: vm_inner_at dedup_loads_def dedup_from_at)

lemma dedup_from_length: "length (dedup_from i p) \<le> length p"
proof (induction i p rule: dedup_from.induct)
  case (1 i p)
  let ?q = "adjust_jumps (remove_at (i + 1) p) (i + 1)"
  have "i + 1 < length p \<Longrightarrow> length ?q \<le> length p" by simp
  with 1 show ?case
    by (subst dedup_from.simps) (fastforce simp: Let_def intro: order_trans)
qed

text \<open>
  C27: removing adjacent duplicate loads keeps the outcome of every program on every packet, with
  no condition on the program, and never makes it longer.
\<close>

theorem dedup_loads_preserves:
  "vm_inner (dedup_loads p) pkt = vm_inner p pkt \<and> length (dedup_loads p) \<le> length p"
  using deduping.preserves by (simp add: dedup_loads_def dedup_from_length)

end
