(* ===== verification/Ebpf.thy ===== *)
theory Ebpf
  imports Bpf
begin

text \<open>
  \<^verbatim>\<open>pktbaffle/src/ebpf.rs\<close>: the extended BPF instruction word, its constructors, its 8-byte
  little-endian wire form and the program type. Constants that share their name with one of
  \<^verbatim>\<open>bpf.rs\<close> get an \<open>E\<close> in front. An \<open>i16\<close> or \<open>i32\<close> is the word of its bits,
  read with \<open>sint\<close> and widened with \<open>scast\<close>.
\<close>

section \<open>Opcode constants\<close>

definition EBPF_LD :: u8 where "EBPF_LD = 0x00"
definition EBPF_LDX :: u8 where "EBPF_LDX = 0x01"
definition EBPF_ST :: u8 where "EBPF_ST = 0x02"
definition EBPF_STX :: u8 where "EBPF_STX = 0x03"
definition EBPF_ALU :: u8 where "EBPF_ALU = 0x04"
definition EBPF_JMP :: u8 where "EBPF_JMP = 0x05"
definition EBPF_JMP32 :: u8 where "EBPF_JMP32 = 0x06"
definition EBPF_ALU64 :: u8 where "EBPF_ALU64 = 0x07"

definition EBPF_W :: u8 where "EBPF_W = 0x00"
definition EBPF_H :: u8 where "EBPF_H = 0x08"
definition EBPF_B :: u8 where "EBPF_B = 0x10"
definition EBPF_DW :: u8 where "EBPF_DW = 0x18"

definition EBPF_MEM :: u8 where "EBPF_MEM = 0x60"

definition EBPF_K :: u8 where "EBPF_K = 0x00"
definition EBPF_X :: u8 where "EBPF_X = 0x08"

definition EBPF_ADD :: u8 where "EBPF_ADD = 0x00"
definition EBPF_SUB :: u8 where "EBPF_SUB = 0x10"
definition EBPF_MUL :: u8 where "EBPF_MUL = 0x20"
definition EBPF_DIV :: u8 where "EBPF_DIV = 0x30"
definition EBPF_OR :: u8 where "EBPF_OR = 0x40"
definition EBPF_AND :: u8 where "EBPF_AND = 0x50"
definition EBPF_LSH :: u8 where "EBPF_LSH = 0x60"
definition EBPF_RSH :: u8 where "EBPF_RSH = 0x70"
definition EBPF_XOR :: u8 where "EBPF_XOR = 0xa0"
definition EBPF_MOV :: u8 where "EBPF_MOV = 0xb0"
definition EBPF_END :: u8 where "EBPF_END = 0xd0"
definition EBPF_TO_LE :: u8 where "EBPF_TO_LE = 0x00"
definition EBPF_TO_BE :: u8 where "EBPF_TO_BE = 0x08"

definition EBPF_JA :: u8 where "EBPF_JA = 0x00"
definition EBPF_JEQ :: u8 where "EBPF_JEQ = 0x10"
definition EBPF_JGT :: u8 where "EBPF_JGT = 0x20"
definition EBPF_JGE :: u8 where "EBPF_JGE = 0x30"
definition EBPF_JSET :: u8 where "EBPF_JSET = 0x40"
definition EBPF_JNE :: u8 where "EBPF_JNE = 0x50"
definition EBPF_JLT :: u8 where "EBPF_JLT = 0xa0"
definition EBPF_JLE :: u8 where "EBPF_JLE = 0xb0"
definition EBPF_EXIT :: u8 where "EBPF_EXIT = 0x90"

definition R0 :: u8 where "R0 = 0"
definition R1 :: u8 where "R1 = 1"
definition R2 :: u8 where "R2 = 2"
definition R3 :: u8 where "R3 = 3"
definition R4 :: u8 where "R4 = 4"
definition R5 :: u8 where "R5 = 5"
definition R6 :: u8 where "R6 = 6"
definition R10 :: u8 where "R10 = 10"

definition XDP_DROP :: "32 word" where "XDP_DROP = 1"
definition XDP_PASS :: "32 word" where "XDP_PASS = 2"

lemmas ebpf_defs =
  EBPF_LD_def EBPF_LDX_def EBPF_ST_def EBPF_STX_def EBPF_ALU_def EBPF_JMP_def EBPF_JMP32_def
  EBPF_ALU64_def EBPF_W_def EBPF_H_def EBPF_B_def EBPF_DW_def EBPF_MEM_def EBPF_K_def EBPF_X_def
  EBPF_ADD_def EBPF_SUB_def EBPF_MUL_def EBPF_DIV_def EBPF_OR_def EBPF_AND_def EBPF_LSH_def
  EBPF_RSH_def EBPF_XOR_def EBPF_MOV_def EBPF_END_def EBPF_TO_LE_def EBPF_TO_BE_def EBPF_JA_def
  EBPF_JEQ_def EBPF_JGT_def EBPF_JGE_def EBPF_JSET_def EBPF_JNE_def EBPF_JLT_def EBPF_JLE_def
  EBPF_EXIT_def

lemmas reg_defs =
  R0_def R1_def R2_def R3_def R4_def R5_def R6_def R10_def

section \<open>Instructions\<close>

type_synonym i16 = "16 word"

record einsn =
  e_code :: u8
  e_regs :: u8
  e_off :: i16
  e_imm :: "32 word"

definition einsn_new :: "u8 \<Rightarrow> u8 \<Rightarrow> u8 \<Rightarrow> i16 \<Rightarrow> 32 word \<Rightarrow> einsn" where
  "einsn_new c d s off v =
     \<lparr>e_code = c, e_regs = (d AND 0xf) OR push_bit 4 (s AND 0xf), e_off = off, e_imm = v\<rparr>"

definition e_dst :: "einsn \<Rightarrow> u8" where
  "e_dst i = e_regs i AND 0xf"

definition e_src :: "einsn \<Rightarrow> u8" where
  "e_src i = drop_bit 4 (e_regs i) AND 0xf"

definition mov64_reg :: "u8 \<Rightarrow> u8 \<Rightarrow> einsn" where
  "mov64_reg d s = einsn_new (EBPF_ALU64 OR EBPF_MOV OR EBPF_X) d s 0 0"

definition mov64_imm :: "u8 \<Rightarrow> 32 word \<Rightarrow> einsn" where
  "mov64_imm d v = einsn_new (EBPF_ALU64 OR EBPF_MOV OR EBPF_K) d 0 0 v"

definition add64_reg :: "u8 \<Rightarrow> u8 \<Rightarrow> einsn" where
  "add64_reg d s = einsn_new (EBPF_ALU64 OR EBPF_ADD OR EBPF_X) d s 0 0"

definition add64_imm :: "u8 \<Rightarrow> 32 word \<Rightarrow> einsn" where
  "add64_imm d v = einsn_new (EBPF_ALU64 OR EBPF_ADD OR EBPF_K) d 0 0 v"

definition and32_imm :: "u8 \<Rightarrow> 32 word \<Rightarrow> einsn" where
  "and32_imm d v = einsn_new (EBPF_ALU OR EBPF_AND OR EBPF_K) d 0 0 v"

definition or32_imm :: "u8 \<Rightarrow> 32 word \<Rightarrow> einsn" where
  "or32_imm d v = einsn_new (EBPF_ALU OR EBPF_OR OR EBPF_K) d 0 0 v"

definition xor32_imm :: "u8 \<Rightarrow> 32 word \<Rightarrow> einsn" where
  "xor32_imm d v = einsn_new (EBPF_ALU OR EBPF_XOR OR EBPF_K) d 0 0 v"

definition add32_imm :: "u8 \<Rightarrow> 32 word \<Rightarrow> einsn" where
  "add32_imm d v = einsn_new (EBPF_ALU OR EBPF_ADD OR EBPF_K) d 0 0 v"

definition sub32_imm :: "u8 \<Rightarrow> 32 word \<Rightarrow> einsn" where
  "sub32_imm d v = einsn_new (EBPF_ALU OR EBPF_SUB OR EBPF_K) d 0 0 v"

definition mul32_imm :: "u8 \<Rightarrow> 32 word \<Rightarrow> einsn" where
  "mul32_imm d v = einsn_new (EBPF_ALU OR EBPF_MUL OR EBPF_K) d 0 0 v"

definition div32_imm :: "u8 \<Rightarrow> 32 word \<Rightarrow> einsn" where
  "div32_imm d v = einsn_new (EBPF_ALU OR EBPF_DIV OR EBPF_K) d 0 0 v"

definition rsh32_imm :: "u8 \<Rightarrow> 32 word \<Rightarrow> einsn" where
  "rsh32_imm d v = einsn_new (EBPF_ALU OR EBPF_RSH OR EBPF_K) d 0 0 v"

definition lsh32_imm :: "u8 \<Rightarrow> 32 word \<Rightarrow> einsn" where
  "lsh32_imm d v = einsn_new (EBPF_ALU OR EBPF_LSH OR EBPF_K) d 0 0 v"

definition to_be16 :: "u8 \<Rightarrow> einsn" where
  "to_be16 d = einsn_new (EBPF_ALU OR EBPF_END OR EBPF_TO_BE) d 0 0 16"

definition to_be32 :: "u8 \<Rightarrow> einsn" where
  "to_be32 d = einsn_new (EBPF_ALU OR EBPF_END OR EBPF_TO_BE) d 0 0 32"

definition ldx_b :: "u8 \<Rightarrow> u8 \<Rightarrow> i16 \<Rightarrow> einsn" where
  "ldx_b d s off = einsn_new (EBPF_LDX OR EBPF_MEM OR EBPF_B) d s off 0"

definition ldx_h :: "u8 \<Rightarrow> u8 \<Rightarrow> i16 \<Rightarrow> einsn" where
  "ldx_h d s off = einsn_new (EBPF_LDX OR EBPF_MEM OR EBPF_H) d s off 0"

definition ldx_w :: "u8 \<Rightarrow> u8 \<Rightarrow> i16 \<Rightarrow> einsn" where
  "ldx_w d s off = einsn_new (EBPF_LDX OR EBPF_MEM OR EBPF_W) d s off 0"

definition e_ja :: "i16 \<Rightarrow> einsn" where
  "e_ja off = einsn_new (EBPF_JMP OR EBPF_JA) 0 0 off 0"

definition jeq_imm :: "u8 \<Rightarrow> 32 word \<Rightarrow> i16 \<Rightarrow> einsn" where
  "jeq_imm d v off = einsn_new (EBPF_JMP OR EBPF_JEQ OR EBPF_K) d 0 off v"

definition jne_imm :: "u8 \<Rightarrow> 32 word \<Rightarrow> i16 \<Rightarrow> einsn" where
  "jne_imm d v off = einsn_new (EBPF_JMP OR EBPF_JNE OR EBPF_K) d 0 off v"

definition jgt_imm :: "u8 \<Rightarrow> 32 word \<Rightarrow> i16 \<Rightarrow> einsn" where
  "jgt_imm d v off = einsn_new (EBPF_JMP OR EBPF_JGT OR EBPF_K) d 0 off v"

definition jge_imm :: "u8 \<Rightarrow> 32 word \<Rightarrow> i16 \<Rightarrow> einsn" where
  "jge_imm d v off = einsn_new (EBPF_JMP OR EBPF_JGE OR EBPF_K) d 0 off v"

definition jlt_imm :: "u8 \<Rightarrow> 32 word \<Rightarrow> i16 \<Rightarrow> einsn" where
  "jlt_imm d v off = einsn_new (EBPF_JMP OR EBPF_JLT OR EBPF_K) d 0 off v"

definition jle_imm :: "u8 \<Rightarrow> 32 word \<Rightarrow> i16 \<Rightarrow> einsn" where
  "jle_imm d v off = einsn_new (EBPF_JMP OR EBPF_JLE OR EBPF_K) d 0 off v"

definition jset_imm :: "u8 \<Rightarrow> 32 word \<Rightarrow> i16 \<Rightarrow> einsn" where
  "jset_imm d v off = einsn_new (EBPF_JMP OR EBPF_JSET OR EBPF_K) d 0 off v"

definition jgt_reg :: "u8 \<Rightarrow> u8 \<Rightarrow> i16 \<Rightarrow> einsn" where
  "jgt_reg d s off = einsn_new (EBPF_JMP OR EBPF_JGT OR EBPF_X) d s off 0"

definition e_exit :: "einsn" where
  "e_exit = einsn_new (EBPF_JMP OR EBPF_EXIT) 0 0 0 0"

lemmas ector_defs =
  mov64_reg_def mov64_imm_def add64_reg_def add64_imm_def and32_imm_def or32_imm_def xor32_imm_def
  add32_imm_def sub32_imm_def mul32_imm_def div32_imm_def rsh32_imm_def lsh32_imm_def to_be16_def
  to_be32_def ldx_b_def ldx_h_def ldx_w_def e_ja_def jeq_imm_def jne_imm_def jgt_imm_def jge_imm_def
  jlt_imm_def jle_imm_def jset_imm_def jgt_reg_def e_exit_def

section \<open>Wire encoding\<close>

definition einsn_to_le_bytes :: "einsn \<Rightarrow> u8 list" where
  "einsn_to_le_bytes i = [e_code i, e_regs i] @ le16_bytes (e_off i) @ le32_bytes (e_imm i)"

record eprogram =
  einsns :: "einsn list"

definition eprogram_new :: "einsn list \<Rightarrow> eprogram" where
  "eprogram_new is = \<lparr>einsns = is\<rparr>"

definition einstructions :: "eprogram \<Rightarrow> einsn list" where
  "einstructions p = einsns p"

definition eprogram_len :: "eprogram \<Rightarrow> nat" where
  "eprogram_len p = length (einsns p)"

definition eprogram_is_empty :: "eprogram \<Rightarrow> bool" where
  "eprogram_is_empty p \<longleftrightarrow> einsns p = []"

fun extend_einsn_bytes :: "u8 list \<Rightarrow> einsn list \<Rightarrow> u8 list" where
  "extend_einsn_bytes out [] = out"
| "extend_einsn_bytes out (i # is) = extend_einsn_bytes (out @ einsn_to_le_bytes i) is"

definition eprogram_to_le_bytes :: "eprogram \<Rightarrow> u8 list" where
  "eprogram_to_le_bytes p = extend_einsn_bytes [] (einsns p)"

text \<open>What the kernel does with the bytes: \<open>struct bpf_insn\<close> is read back field by field.\<close>

fun einsn_of_le_bytes :: "u8 list \<Rightarrow> einsn option" where
  "einsn_of_le_bytes [c, r, o0, o1, v0, v1, v2, v3] =
     Some \<lparr>e_code = c, e_regs = r, e_off = le16_of o0 o1, e_imm = le32_of v0 v1 v2 v3\<rparr>"
| "einsn_of_le_bytes _ = None"

section \<open>Properties\<close>

lemma einsn_new_simps [simp]:
  "e_code (einsn_new c d s off v) = c" "e_off (einsn_new c d s off v) = off"
  "e_imm (einsn_new c d s off v) = v"
  by (simp_all add: einsn_new_def)

lemma nibbles:
  "((d AND 0xf) OR push_bit 4 (s AND 0xf)) AND 0xf = (d AND 0xf :: u8)"
  "drop_bit 4 ((d AND 0xf) OR push_bit 4 (s AND 0xf)) AND 0xf = (s AND 0xf :: u8)"
proof -
  have m: "(0xf :: u8) = mask 4" by (simp add: mask_eq_exp_minus_1)
  show "((d AND 0xf) OR push_bit 4 (s AND 0xf)) AND 0xf = (d AND 0xf :: u8)"
    unfolding m by (rule bit_word_eqI) (auto simp: bit_simps)
  show "drop_bit 4 ((d AND 0xf) OR push_bit 4 (s AND 0xf)) AND 0xf = (s AND 0xf :: u8)"
    unfolding m by (rule bit_word_eqI) (auto simp: bit_simps)
qed

lemma dst_new [simp]: "e_dst (einsn_new c d s off v) = d AND 0xf"
  and src_new [simp]: "e_src (einsn_new c d s off v) = s AND 0xf"
  unfolding e_dst_def e_src_def einsn_new_def by (simp_all only: einsn.simps nibbles)

lemma set_off_fields [simp]:
  "e_dst (i\<lparr>e_off := n\<rparr>) = e_dst i" "e_src (i\<lparr>e_off := n\<rparr>) = e_src i"
  by (simp_all add: e_dst_def e_src_def)

lemma einsn_new_off [simp]: "einsn_new c d s off v\<lparr>e_off := n\<rparr> = einsn_new c d s n v"
  by (simp add: einsn_new_def)

interpretation ebpf_wire: wire_format einsn_to_le_bytes einsn_of_le_bytes 8
  by unfold_locales (simp_all add: einsn_to_le_bytes_def le16_bytes_def le32_bytes_def)

lemma extend_einsn_bytes_eq: "extend_einsn_bytes out is = out @ concat (map einsn_to_le_bytes is)"
  by (induction out "is" rule: extend_einsn_bytes.induct) simp_all

lemma eprogram_to_le_bytes_eq:
  "eprogram_to_le_bytes p = concat (map einsn_to_le_bytes (einsns p))"
  by (simp add: eprogram_to_le_bytes_def extend_einsn_bytes_eq)

end
