(* ===== verification/Ebpf_Interp.thy ===== *)
theory Ebpf_Interp
  imports Ebpf
begin

text \<open>
  \<^verbatim>\<open>pktbaffle/tests/common/ebpf_interp.rs\<close>: the repository's reference interpreter for XDP programs, an
  independent decoder of the instruction words. It gives the generated programs their meaning. A
  register is \<open>None\<close> until an instruction writes it; every fault of the interpreter, which
  stands for a program the kernel's verifier would not load, is an error value.
\<close>

section \<open>Constants of its own\<close>

definition EBPF_NEG :: u8 where "EBPF_NEG = 0x80"
definition EBPF_MOD :: u8 where "EBPF_MOD = 0x90"
definition EBPF_ARSH :: u8 where "EBPF_ARSH = 0xc0"
definition EBPF_JSGT :: u8 where "EBPF_JSGT = 0x60"
definition EBPF_JSGE :: u8 where "EBPF_JSGE = 0x70"
definition EBPF_JSLT :: u8 where "EBPF_JSLT = 0xc0"
definition EBPF_JSLE :: u8 where "EBPF_JSLE = 0xd0"

definition ALU_OPS :: "u8 list" where
  "ALU_OPS =
     [EBPF_ADD, EBPF_SUB, EBPF_MUL, EBPF_DIV, EBPF_OR, EBPF_AND, EBPF_LSH, EBPF_RSH, EBPF_NEG, EBPF_MOD,
      EBPF_XOR, EBPF_MOV, EBPF_ARSH, EBPF_END]"

definition COND_OPS :: "u8 list" where
  "COND_OPS =
     [EBPF_JEQ, EBPF_JNE, EBPF_JGT, EBPF_JGE, EBPF_JLT, EBPF_JLE, EBPF_JSET, EBPF_JSGT, EBPF_JSGE, EBPF_JSLT,
      EBPF_JSLE]"

definition CTX_BASE :: u64 where "CTX_BASE = 0x20000000"
definition PKT_BASE :: u64 where "PKT_BASE = 0x10000002"
definition STEP_LIMIT :: nat where "STEP_LIMIT = 2 ^ 16"

lemmas interp_defs = ebpf_defs EBPF_NEG_def EBPF_MOD_def EBPF_ARSH_def EBPF_JSGT_def EBPF_JSGE_def
  EBPF_JSLT_def EBPF_JSLE_def ALU_OPS_def COND_OPS_def

section \<open>Host byte order\<close>

datatype endian = Little | Big

fun endian_read :: "endian \<Rightarrow> u8 list \<Rightarrow> u64" where
  "endian_read Little bytes = foldl (\<lambda>v b. push_bit 8 v OR ucast b) 0 (rev bytes)"
| "endian_read Big bytes = foldl (\<lambda>v b. push_bit 8 v OR ucast b) 0 bytes"

text \<open>\<open>swap_bytes\<close> of the low \<open>n\<close> bytes, widened to 64 bits.\<close>

definition swap_low :: "nat \<Rightarrow> u64 \<Rightarrow> u64" where
  "swap_low n v = foldl (\<lambda>acc i. push_bit 8 acc OR (drop_bit (8 * i) v AND 0xff)) 0 [0..<n]"

section \<open>Outcomes\<close>

datatype xdp_verdict = Match | NoMatch

datatype fault =
  UnknownOpcode nat u8
| BadRegister nat
| WriteToR10 nat
| UninitRegister nat nat
| OutOfBounds nat u64 nat
| BadCtxAccess nat u64 nat
| JumpOutOfRange nat
| PcOutOfRange nat
| DivByZero nat
| BadShift nat
| BadEndWidth nat "32 word"
| BadReturn u64
| StepLimit

section \<open>Registers\<close>

type_synonym eregs = "nat \<Rightarrow> u64 option"

definition rd :: "eregs \<Rightarrow> nat \<Rightarrow> nat \<Rightarrow> fault + u64" where
  "rd g r at = (case g r of Some v \<Rightarrow> Inr v | None \<Rightarrow> Inl (UninitRegister at r))"

definition wr :: "eregs \<Rightarrow> nat \<Rightarrow> u64 \<Rightarrow> nat \<Rightarrow> fault + eregs" where
  "wr g r v at = (if r = unat R10 then Inl (WriteToR10 at) else Inr (g(r \<mapsto> v)))"

section \<open>Memory\<close>

definition mem_load :: "u8 list \<Rightarrow> packet \<Rightarrow> u64 \<Rightarrow> nat \<Rightarrow> nat \<Rightarrow> fault + u8 list" where
  "mem_load ctx pkt addr width at =
     (if CTX_BASE \<le> addr \<and> addr < CTX_BASE + 8 then
        (let off = unat (addr - CTX_BASE) in
         if width \<noteq> 4 \<or> off mod 4 \<noteq> 0 then Inl (BadCtxAccess at addr width)
         else Inr (take 4 (drop off ctx)))
      else if PKT_BASE \<le> addr \<and> uint (addr - PKT_BASE) + int width < 2 ^ 64 \<and>
              uint (addr - PKT_BASE) + int width \<le> int (length pkt) then
        Inr (take width (drop (unat (addr - PKT_BASE)) pkt))
      else Inl (OutOfBounds at addr width))"

section \<open>One instruction\<close>

definition unknown :: "einsn \<Rightarrow> nat \<Rightarrow> fault" where
  "unknown i at = UnknownOpcode at (e_code i)"

definition ldx_size :: "u8 \<Rightarrow> nat option" where
  "ldx_size c =
     (if c = EBPF_B then Some 1 else if c = EBPF_H then Some 2 else if c = EBPF_W then Some 4
      else if c = EBPF_DW then Some 8 else None)"

definition step_ldx :: "einsn \<Rightarrow> u8 list \<Rightarrow> packet \<Rightarrow> endian \<Rightarrow> nat \<Rightarrow> eregs \<Rightarrow> fault + eregs" where
  "step_ldx i ctx pkt host at g =
     (if e_code i AND 0xe0 \<noteq> EBPF_MEM then Inl (unknown i at)
      else case ldx_size (e_code i AND 0x18) of
        None \<Rightarrow> Inl (unknown i at)
      | Some width \<Rightarrow>
          rbind (rd g (unat (e_src i)) at) (\<lambda>base.
          rbind (mem_load ctx pkt (base + scast (e_off i)) width at) (\<lambda>bytes.
            wr g (unat (e_dst i)) (endian_read host bytes) at)))"

definition step_end :: "einsn \<Rightarrow> endian \<Rightarrow> nat \<Rightarrow> eregs \<Rightarrow> fault + eregs" where
  "step_end i host at g =
     rbind (rd g (unat (e_dst i)) at) (\<lambda>v.
       let swap = (e_code i AND 0x08 = EBPF_TO_BE \<and> host = Little \<or> e_code i AND 0x08 = EBPF_TO_LE \<and> host = Big);
           out = (if e_imm i = 16 then Some (if swap then swap_low 2 v else v AND 0xffff)
                  else if e_imm i = 32 then Some (if swap then swap_low 4 v else v AND 0xffffffff)
                  else if e_imm i = 64 then Some (if swap then swap_low 8 v else v)
                  else None)
       in case out of None \<Rightarrow> Inl (BadEndWidth at (e_imm i)) | Some r \<Rightarrow> wr g (unat (e_dst i)) r at)"

definition eshift :: "bool \<Rightarrow> u64 \<Rightarrow> nat \<Rightarrow> fault + nat" where
  "eshift is64 s at = (if s < (if is64 then 64 else 32) then Inr (unat s) else Inl (BadShift at))"

definition alu_result :: "u8 \<Rightarrow> bool \<Rightarrow> u64 \<Rightarrow> u64 \<Rightarrow> einsn \<Rightarrow> nat \<Rightarrow> fault + u64" where
  "alu_result opr is64 d s i at =
     (if opr = EBPF_ADD then Inr (d + s)
      else if opr = EBPF_SUB then Inr (d - s)
      else if opr = EBPF_MUL then Inr (d * s)
      else if opr = EBPF_DIV then (if s = 0 then Inl (DivByZero at) else Inr (d div s))
      else if opr = EBPF_MOD then (if s = 0 then Inl (DivByZero at) else Inr (d mod s))
      else if opr = EBPF_OR then Inr (d OR s)
      else if opr = EBPF_AND then Inr (d AND s)
      else if opr = EBPF_XOR then Inr (d XOR s)
      else if opr = EBPF_LSH then rbind (eshift is64 s at) (\<lambda>n. Inr (push_bit n d))
      else if opr = EBPF_RSH then rbind (eshift is64 s at) (\<lambda>n. Inr (drop_bit n d))
      else if opr = EBPF_ARSH then
        rbind (eshift is64 s at) (\<lambda>n.
          Inr (if is64 then signed_drop_bit n d else ucast (signed_drop_bit n (ucast d :: u32))))
      else if opr = EBPF_NEG then Inr (- d)
      else if opr = EBPF_MOV then Inr s
      else Inl (unknown i at))"

definition step_alu :: "einsn \<Rightarrow> endian \<Rightarrow> nat \<Rightarrow> eregs \<Rightarrow> fault + eregs" where
  "step_alu i host at g =
     (let is64 = (e_code i AND 0x07 = EBPF_ALU64);
          opr = e_code i AND 0xf0
      in if opr \<notin> set ALU_OPS then Inl (unknown i at)
         else if opr = EBPF_END then
           (if is64 then Inl (unknown i at) else step_end i host at g)
         else
           rbind (if e_code i AND EBPF_X \<noteq> 0 then rd g (unat (e_src i)) at
                  else Inr (if is64 then scast (e_imm i) else ucast (e_imm i))) (\<lambda>s.
           rbind (if opr = EBPF_MOV then Inr 0 else rd g (unat (e_dst i)) at) (\<lambda>d.
             let m = (if is64 then NOT 0 else 0xffffffff)
             in rbind (alu_result opr is64 (d AND m) (s AND m) i at) (\<lambda>r.
                  wr g (unat (e_dst i)) (r AND m) at))))"

definition etaken :: "u8 \<Rightarrow> u64 \<Rightarrow> u64 \<Rightarrow> int \<Rightarrow> int \<Rightarrow> bool" where
  "etaken opr a b sa sb =
     (if opr = EBPF_JEQ then a = b
      else if opr = EBPF_JNE then a \<noteq> b
      else if opr = EBPF_JGT then b < a
      else if opr = EBPF_JGE then b \<le> a
      else if opr = EBPF_JLT then a < b
      else if opr = EBPF_JLE then a \<le> b
      else if opr = EBPF_JSET then a AND b \<noteq> 0
      else if opr = EBPF_JSGT then sb < sa
      else if opr = EBPF_JSGE then sb \<le> sa
      else if opr = EBPF_JSLT then sa < sb
      else sa \<le> sb)"

text \<open>Whether a jump is taken; \<open>JMP32\<close> compares the low halves.\<close>

definition jump_taken :: "einsn \<Rightarrow> nat \<Rightarrow> eregs \<Rightarrow> fault + bool" where
  "jump_taken i at g =
     (let is32 = (e_code i AND 0x07 = EBPF_JMP32);
          opr = e_code i AND 0xf0
      in if \<not> is32 \<and> opr = EBPF_JA then Inr True
         else
           rbind (rd g (unat (e_dst i)) at) (\<lambda>a.
           rbind (if e_code i AND EBPF_X \<noteq> 0 then rd g (unat (e_src i)) at
                  else Inr (scast (e_imm i))) (\<lambda>b.
             if is32
             then (let a = ucast a :: u32; b = ucast b :: u32
                   in Inr (etaken opr (ucast a) (ucast b) (sint a) (sint b)))
             else Inr (etaken opr a b (sint a) (sint b)))))"

datatype eoutcome = Go nat eregs | Stop u64

definition jump_target :: "einsn \<Rightarrow> nat \<Rightarrow> nat \<Rightarrow> fault + nat" where
  "jump_target i at len =
     (let t = int at + 1 + sint (e_off i)
      in if t < 0 \<or> int len \<le> t then Inl (JumpOutOfRange at) else Inr (nat t))"

definition step_jmp :: "einsn \<Rightarrow> nat \<Rightarrow> nat \<Rightarrow> eregs \<Rightarrow> fault + eoutcome" where
  "step_jmp i at len g =
     (let is32 = (e_code i AND 0x07 = EBPF_JMP32);
          opr = e_code i AND 0xf0
      in if \<not> (opr \<in> set COND_OPS \<or> \<not> is32 \<and> (opr = EBPF_JA \<or> opr = EBPF_EXIT)) then Inl (unknown i at)
         else if \<not> is32 \<and> opr = EBPF_EXIT then rbind (rd g 0 at) (\<lambda>r0. Inr (Stop r0))
         else rbind (jump_taken i at g) (\<lambda>t.
           if t then rbind (jump_target i at len) (\<lambda>n. Inr (Go n g)) else Inr (Go (at + 1) g)))"

definition estep :: "einsn list \<Rightarrow> u8 list \<Rightarrow> packet \<Rightarrow> endian \<Rightarrow> nat \<Rightarrow> eregs \<Rightarrow> fault + eoutcome" where
  "estep prog ctx pkt host at g =
     (case get_at prog at of
        None \<Rightarrow> Inl (PcOutOfRange at)
      | Some i \<Rightarrow>
          (let cls = e_code i AND 0x07
           in if 10 < e_dst i \<or> 10 < e_src i then Inl (BadRegister at)
              else if cls = EBPF_LDX then
                rbind (step_ldx i ctx pkt host at g) (\<lambda>g. Inr (Go (at + 1) g))
              else if cls = EBPF_ALU \<or> cls = EBPF_ALU64 then
                rbind (step_alu i host at g) (\<lambda>g. Inr (Go (at + 1) g))
              else if cls = EBPF_JMP \<or> cls = EBPF_JMP32 then step_jmp i at (length prog) g
              else Inl (unknown i at)))"

section \<open>Runs\<close>

fun eloop :: "nat \<Rightarrow> einsn list \<Rightarrow> u8 list \<Rightarrow> packet \<Rightarrow> endian \<Rightarrow> nat \<Rightarrow> eregs \<Rightarrow> fault + u64" where
  "eloop 0 prog ctx pkt host at g = Inl StepLimit"
| "eloop (Suc n) prog ctx pkt host at g =
     rbind (estep prog ctx pkt host at g) (\<lambda>r.
       case r of Stop v \<Rightarrow> Inr v | Go at g \<Rightarrow> eloop n prog ctx pkt host at g)"

text \<open>The context \<open>xdp_md\<close>: the addresses of the packet's start and end in host byte order.\<close>

definition host_bytes :: "endian \<Rightarrow> u32 \<Rightarrow> u8 list" where
  "host_bytes host w = (case host of Little \<Rightarrow> le32_bytes w | Big \<Rightarrow> rev (le32_bytes w))"

definition xdp_ctx :: "endian \<Rightarrow> packet \<Rightarrow> u8 list" where
  "xdp_ctx host pkt =
     host_bytes host (ucast PKT_BASE) @ host_bytes host (ucast (PKT_BASE + of_nat (length pkt)))"

definition eregs_init :: eregs where
  "eregs_init = Map.empty(unat R1 \<mapsto> CTX_BASE, unat R10 \<mapsto> 0)"

definition eexec :: "einsn list \<Rightarrow> packet \<Rightarrow> endian \<Rightarrow> fault + u64" where
  "eexec prog pkt host = eloop STEP_LIMIT prog (xdp_ctx host pkt) pkt host 0 eregs_init"

definition run_ebpf :: "einsn list \<Rightarrow> packet \<Rightarrow> endian \<Rightarrow> fault + xdp_verdict" where
  "run_ebpf prog pkt host =
     rbind (eexec prog pkt host) (\<lambda>r0.
       if r0 = scast XDP_PASS then Inr Match
       else if r0 = scast XDP_DROP then Inr NoMatch
       else Inl (BadReturn r0))"

end
