(* ===== verification/Ast.thy ===== *)
theory Ast
  imports Prelude
begin

text \<open>
  \<^verbatim>\<open>pktbaffle/src/ast.rs\<close>: the filter expression tree, and the comparison and cloning of
  expressions, which walk the tree with an explicit stack. Both are proved equal to what the derived
  implementations would give: structural equality and the identity.

  \<open>Ipv4Addr\<close> is its 32-bit value, \<open>Ipv6Addr\<close> its eight 16-bit segments; an \<open>i32\<close> is a
  32-bit word (read with \<open>sint\<close>), so that \<open>as u32\<close> is the identity on it.
\<close>

section \<open>Data\<close>

type_synonym i32 = "32 word"
type_synonym ipv4_addr = u32

datatype ipv6_addr = Ipv6Addr u16 u16 u16 u16 u16 u16 u16 u16

fun segments :: "ipv6_addr \<Rightarrow> u16 list" where
  "segments (Ipv6Addr a b c d e f g h) = [a, b, c, d, e, f, g, h]"

lemma length_segments [simp]: "length (segments a) = 8"
  by (cases a) simp

datatype ip_addr = V4 ipv4_addr | V6 ipv6_addr

datatype dir = SrcOrDst | Src | Dst | SrcAndDst

datatype addr_type = Unspecified | Host_Type | Net_Type | Port_Type | PortRange_Type | Ether_Type

record ip_net =
  net_addr :: ipv4_addr
  net_mask :: u32

record ipv6_net =
  net6_addr :: ipv6_addr
  prefix_len :: u8

text \<open>\<open>!0u32 << (32 - prefix_len)\<close>; the shift amount is taken modulo 32, as without overflow checks.\<close>

definition from_prefix :: "ipv4_addr \<Rightarrow> u8 \<Rightarrow> ip_net" where
  "from_prefix a n =
     \<lparr>net_addr = a,
      net_mask = (if n = 0 then 0 else push_bit (unat (32 - n) mod 32) (NOT 0))\<rparr>"

datatype mac_addr = MacAddr u8 u8 u8 u8 u8 u8

datatype proto =
  Ip | Ip6 | Arp | Rarp | Tcp | Udp | Icmp | Icmp6 | Igmp | Sctp | Num u8 | Ip6Proto u8

datatype arith_op = OpAdd | OpSub | OpMul | OpDiv | OpMod | OpAnd | OpOr | OpXor | OpShl | OpShr

datatype cmp_op = CmpEq | CmpNe | CmpLt | CmpLe | CmpGt | CmpGe | CmpBitAnd

datatype access_size = Byte | Half | Word_Size

datatype layer = Raw | Net_Layer | Trans

record byte_load =
  load_layer :: layer
  load_offset :: i32
  load_size :: access_size

datatype cmp_rhs = Const u32 | LoadRhs byte_load

record byte_access =
  ba_layer :: layer
  ba_offset :: i32
  ba_size :: access_size
  alu_ops :: "(arith_op \<times> u32) list"
  ba_op :: cmp_op
  ba_rhs :: cmp_rhs

datatype primitive =
  Host ip_addr dir
| Port u16 dir "proto option"
| PortRange u16 u16 dir "proto option"
| Net ip_net dir
| Net6 ipv6_net dir
| Proto proto
| EtherHost mac_addr dir
| EtherProto u16
| EtherMulticast
| IpBroadcast
| IpMulticast
| Ip6Multicast
| Vlan "u16 option"
| Mpls "u32 option"
| PppoeDiscovery
| PppoeSession "u16 option"
| IpProtoChain u8
| Ip6ProtoChain u8
| Len cmp_op u32
| Inbound
| Outbound
| ByteAccess byte_access

datatype expr = And expr expr | Or expr expr | Not expr | Primitive primitive

text \<open>The primitives of an expression, from left to right.\<close>

fun prims :: "expr \<Rightarrow> primitive list" where
  "prims (Primitive q) = [q]"
| "prims (And l r) = prims l @ prims r"
| "prims (Or l r) = prims l @ prims r"
| "prims (Not e) = prims e"

section \<open>Comparison with an explicit stack\<close>

function eq_loop :: "(expr \<times> expr) list \<Rightarrow> bool" where
  "eq_loop [] = True"
| "eq_loop ((And al ar, And bl br) # stack) = eq_loop ((al, bl) # (ar, br) # stack)"
| "eq_loop ((Or al ar, Or bl br) # stack) = eq_loop ((al, bl) # (ar, br) # stack)"
| "eq_loop ((Not a, Not b) # stack) = eq_loop ((a, b) # stack)"
| "eq_loop ((Primitive p, Primitive q) # stack) = (if p = q then eq_loop stack else False)"
| "eq_loop ((And a b, Or c d) # stack) = False"
| "eq_loop ((And a b, Not c) # stack) = False"
| "eq_loop ((And a b, Primitive p) # stack) = False"
| "eq_loop ((Or a b, And c d) # stack) = False"
| "eq_loop ((Or a b, Not c) # stack) = False"
| "eq_loop ((Or a b, Primitive p) # stack) = False"
| "eq_loop ((Not a, And b c) # stack) = False"
| "eq_loop ((Not a, Or b c) # stack) = False"
| "eq_loop ((Not a, Primitive p) # stack) = False"
| "eq_loop ((Primitive p, And a b) # stack) = False"
| "eq_loop ((Primitive p, Or a b) # stack) = False"
| "eq_loop ((Primitive p, Not a) # stack) = False"
  by pat_completeness auto
termination
  by (relation "measure (\<lambda>stack. sum_list (map (\<lambda>(a, b). Suc (2 * size a)) stack))") auto

definition expr_eq :: "expr \<Rightarrow> expr \<Rightarrow> bool" where
  "expr_eq a b = eq_loop [(a, b)]"

section \<open>Cloning with an explicit stack\<close>

text \<open>
  The \<open>&mut Expr\<close> slots on the stack of \<open>clone\<close> are positions in the tree under construction:
  the list of child numbers from the root, 0 for the left or only child and 1 for the right.
\<close>

type_synonym path = "nat list"

fun subtree :: "path \<Rightarrow> expr \<Rightarrow> expr option" where
  "subtree [] e = Some e"
| "subtree (c # p) (And l r) = (if c = 0 then subtree p l else if c = 1 then subtree p r else None)"
| "subtree (c # p) (Or l r) = (if c = 0 then subtree p l else if c = 1 then subtree p r else None)"
| "subtree (c # p) (Not e) = (if c = 0 then subtree p e else None)"
| "subtree (c # p) (Primitive _) = None"

fun assign :: "path \<Rightarrow> expr \<Rightarrow> expr \<Rightarrow> expr" where
  "assign [] new e = new"
| "assign (c # p) new (And l r) =
     (if c = 0 then And (assign p new l) r else if c = 1 then And l (assign p new r) else And l r)"
| "assign (c # p) new (Or l r) =
     (if c = 0 then Or (assign p new l) r else if c = 1 then Or l (assign p new r) else Or l r)"
| "assign (c # p) new (Not e) = (if c = 0 then Not (assign p new e) else Not e)"
| "assign (c # p) new (Primitive q) = Primitive q"

definition placeholder :: expr where
  "placeholder = Primitive IpBroadcast"

function clone_loop :: "(expr \<times> path) list \<Rightarrow> expr \<Rightarrow> expr" where
  "clone_loop [] root = root"
| "clone_loop ((And l r, dst) # stack) root =
     clone_loop ((l, dst @ [0]) # (r, dst @ [1]) # stack)
       (assign dst (And placeholder placeholder) root)"
| "clone_loop ((Or l r, dst) # stack) root =
     clone_loop ((l, dst @ [0]) # (r, dst @ [1]) # stack)
       (assign dst (Or placeholder placeholder) root)"
| "clone_loop ((Not e, dst) # stack) root =
     clone_loop ((e, dst @ [0]) # stack) (assign dst (Not placeholder) root)"
| "clone_loop ((Primitive p, dst) # stack) root =
     clone_loop stack (assign dst (Primitive p) root)"
  by pat_completeness auto
termination
  by (relation "measure (\<lambda>(stack, root). sum_list (map (\<lambda>(e, dst). Suc (2 * size e)) stack))") auto

definition clone :: "expr \<Rightarrow> expr" where
  "clone e = clone_loop [(e, [])] placeholder"

section \<open>Correctness of the walks\<close>

lemma eq_loop_iff: "eq_loop stack \<longleftrightarrow> (\<forall>(a, b) \<in> set stack. a = b)"
  by (induction stack rule: eq_loop.induct) auto

text \<open>Assigning at a path and then below it is assigning the finished subtree once.\<close>

lemma assign_assign:
  "subtree dst root \<noteq> None \<Longrightarrow> assign (dst @ p) new (assign dst e root) = assign dst (assign p new e) root"
  by (induction dst e root rule: assign.induct) (auto split: if_splits)

lemma subtree_assign:
  "subtree dst root \<noteq> None \<Longrightarrow> subtree (dst @ p) (assign dst e root) = subtree p e"
  by (induction dst e root rule: assign.induct) (auto split: if_splits)

lemma clone_loop_step:
  "subtree dst root \<noteq> None \<Longrightarrow> clone_loop ((e, dst) # stack) root = clone_loop stack (assign dst e root)"
proof (induction e arbitrary: dst root stack)
  case (And l r)
  then show ?case by (simp add: subtree_assign assign_assign)
next
  case (Or l r)
  then show ?case by (simp add: subtree_assign assign_assign)
next
  case (Not e)
  then show ?case by (simp add: subtree_assign assign_assign)
qed simp

text \<open>Contiguous masks: bit \<open>i\<close> of the mask of a prefix length is set exactly in the top \<open>n\<close> bits.\<close>

lemma bit_from_prefix:
  assumes "n \<le> 32"
  shows "bit (net_mask (from_prefix a n)) i \<longleftrightarrow> i < 32 \<and> 32 - unat n \<le> i"
proof (cases "n = 0")
  case False
  have "unat n \<le> 32" using assms by (simp add: word_le_nat_alt)
  moreover have "unat (32 - n) = 32 - unat n" using assms by (simp add: unat_sub)
  moreover have "0 < unat n" using False by (simp add: unat_gt_0)
  ultimately show ?thesis using False by (auto simp: from_prefix_def bit_simps)
qed (simp add: from_prefix_def)

text \<open>
  C29: comparing two expressions with the explicit stack of node pairs gives exactly structural
  equality, the result of a derived implementation.
\<close>

theorem expr_eq_structural: "expr_eq a b \<longleftrightarrow> a = b"
  by (simp add: expr_eq_def eq_loop_iff)

text \<open>
  Cloning with the explicit stack of source nodes and empty slots rebuilds the expression
  that was given, whatever its shape.
\<close>

lemma clone_identity: "clone e = e"
  by (simp add: clone_def clone_loop_step)

text \<open>
  The mask of a prefix of \<open>n \<le> 32\<close> bits has exactly the top \<open>n\<close> bits set, the length-0
  prefix included.
\<close>

lemma from_prefix_mask:
  "n \<le> 32 \<Longrightarrow> bit (net_mask (from_prefix a n)) i = (i < 32 \<and> 32 - unat n \<le> i) \<and> net_addr (from_prefix a n) = a"
  by (simp add: bit_from_prefix) (simp add: from_prefix_def)

end
