(* ===== verification/Codegen.thy ===== *)
theory Codegen
  imports Ast Error Optimizer
begin

text \<open>
  \<^verbatim>\<open>pktbaffle/src/codegen.rs\<close>: the classic BPF code generator. The compiler state is the record
  \<open>codegen\<close>, threaded through every emitter; a \<open>Result\<close> is a sum with the error on the left
  and \<open>?\<close> is \<open>rbind\<close>. Arithmetic on \<open>u32\<close> wraps, as in a build without overflow checks. The
  explicit work stacks of \<open>required_guards\<close> and \<open>emit_expr\<close> are lists with the top first; the
  address of an expression node, the key of the guard memo, is its path from the root.
\<close>

section \<open>Link types\<close>

datatype link_type = Ethernet | RawIp | LinuxSll

fun link_net_offset :: "link_type \<Rightarrow> u32" where
  "link_net_offset Ethernet = 14"
| "link_net_offset RawIp = 0"
| "link_net_offset LinuxSll = 16"

fun link_ether_proto_offset :: "link_type \<Rightarrow> u32 option" where
  "link_ether_proto_offset Ethernet = Some 12"
| "link_ether_proto_offset LinuxSll = Some 14"
| "link_ether_proto_offset RawIp = None"

section \<open>Patches\<close>

datatype patch = Jt nat | Jf nat | Ja nat

record patches =
  success :: "patch list"
  failure :: "patch list"

definition no_patches :: patches where
  "no_patches = \<lparr>success = [], failure = []\<rparr>"

definition concat_vec :: "'a list \<Rightarrow> 'a list \<Rightarrow> 'a list" where
  "concat_vec a b = (if length a < length b then b @ a else a @ b)"

section \<open>Protocol sets\<close>

datatype l4set = One u8 | TcpOrUdp

fun l4_contains :: "l4set \<Rightarrow> u8 \<Rightarrow> bool" where
  "l4_contains (One x) p = (x = p)"
| "l4_contains TcpOrUdp p = (p = 6 \<or> p = 17)"

fun l4_subset_of :: "l4set \<Rightarrow> l4set \<Rightarrow> bool" where
  "l4_subset_of (One a) oth = l4_contains oth a"
| "l4_subset_of TcpOrUdp TcpOrUdp = True"
| "l4_subset_of TcpOrUdp (One _) = False"

definition l4_join :: "l4set \<Rightarrow> l4set \<Rightarrow> l4set option" where
  "l4_join a b =
     (if a = b then Some a
      else if l4_subset_of a TcpOrUdp \<and> l4_subset_of b TcpOrUdp then Some TcpOrUdp
      else None)"

text \<open>The derived \<open>Debug\<close> of \<open>Proto\<close>, used in an error message.\<close>

fun debug_proto :: "proto \<Rightarrow> string" where
  "debug_proto Ip = ''Ip''"
| "debug_proto Ip6 = ''Ip6''"
| "debug_proto Arp = ''Arp''"
| "debug_proto Rarp = ''Rarp''"
| "debug_proto Tcp = ''Tcp''"
| "debug_proto Udp = ''Udp''"
| "debug_proto Icmp = ''Icmp''"
| "debug_proto Icmp6 = ''Icmp6''"
| "debug_proto Igmp = ''Igmp''"
| "debug_proto Sctp = ''Sctp''"
| "debug_proto (Num n) = ''Num('' @ show_nat (unat n) @ '')''"
| "debug_proto (Ip6Proto n) = ''Ip6Proto('' @ show_nat (unat n) @ '')''"

fun l4set_for :: "proto option \<Rightarrow> error + l4set" where
  "l4set_for None = Inr TcpOrUdp"
| "l4set_for (Some Tcp) = Inr (One 6)"
| "l4set_for (Some Udp) = Inr (One 17)"
| "l4set_for (Some Sctp) = Inr (One 132)"
| "l4set_for (Some pr) =
     Inl (CodegenError (''port filter with proto '' @ debug_proto pr @ '' is not supported''))"

section \<open>Path facts\<close>

record facts =
  ethertype :: "u32 option"
  ip4_proto :: "u8 option"
  ip6_nh :: "u8 option"
  ports_ready :: "l4set option"

definition no_facts :: facts where
  "no_facts = \<lparr>ethertype = None, ip4_proto = None, ip6_nh = None, ports_ready = None\<rparr>"

definition both :: "'a option \<Rightarrow> 'a option \<Rightarrow> 'a option" where
  "both x y =
     (case (x, y) of (Some p, Some q) \<Rightarrow> (if p = q then Some p else None) | _ \<Rightarrow> None)"

definition facts_meet :: "facts \<Rightarrow> facts \<Rightarrow> facts" where
  "facts_meet a b =
     \<lparr>ethertype = both (ethertype a) (ethertype b),
      ip4_proto = both (ip4_proto a) (ip4_proto b),
      ip6_nh = both (ip6_nh a) (ip6_nh b),
      ports_ready =
        (case (ports_ready a, ports_ready b) of
           (Some x, Some y) \<Rightarrow> l4_join x y
         | _ \<Rightarrow> None)\<rparr>"

section \<open>Required guards\<close>

record guard_set =
  g_ethertype :: "u32 option"
  g_ip4_proto :: "u8 option"
  g_ip6_nh :: "u8 option"
  port_prereqs :: "l4set option"

definition no_guards :: guard_set where
  "no_guards = \<lparr>g_ethertype = None, g_ip4_proto = None, g_ip6_nh = None, port_prereqs = None\<rparr>"

definition or_else :: "'a option \<Rightarrow> 'a option \<Rightarrow> 'a option" where
  "or_else x y = (case x of Some a \<Rightarrow> Some a | None \<Rightarrow> y)"

definition guards_union :: "guard_set \<Rightarrow> guard_set \<Rightarrow> guard_set" where
  "guards_union a b =
     \<lparr>g_ethertype = or_else (g_ethertype a) (g_ethertype b),
      g_ip4_proto = or_else (g_ip4_proto a) (g_ip4_proto b),
      g_ip6_nh = or_else (g_ip6_nh a) (g_ip6_nh b),
      port_prereqs = or_else (port_prereqs a) (port_prereqs b)\<rparr>"

definition guards_intersect :: "guard_set \<Rightarrow> guard_set \<Rightarrow> guard_set" where
  "guards_intersect a b =
     \<lparr>g_ethertype = both (g_ethertype a) (g_ethertype b),
      g_ip4_proto = both (g_ip4_proto a) (g_ip4_proto b),
      g_ip6_nh = both (g_ip6_nh a) (g_ip6_nh b),
      port_prereqs = both (port_prereqs a) (port_prereqs b)\<rparr>"

definition result_ok :: "error + 'a \<Rightarrow> 'a option" where
  "result_ok r = (case r of Inl _ \<Rightarrow> None | Inr v \<Rightarrow> Some v)"

fun proto_guards :: "proto \<Rightarrow> guard_set" where
  "proto_guards Ip = no_guards\<lparr>g_ethertype := Some 0x0800\<rparr>"
| "proto_guards Ip6 = no_guards\<lparr>g_ethertype := Some 0x86dd\<rparr>"
| "proto_guards Arp = no_guards\<lparr>g_ethertype := Some 0x0806\<rparr>"
| "proto_guards Rarp = no_guards\<lparr>g_ethertype := Some 0x8035\<rparr>"
| "proto_guards Tcp = no_guards\<lparr>g_ethertype := Some 0x0800, g_ip4_proto := Some 6\<rparr>"
| "proto_guards Udp = no_guards\<lparr>g_ethertype := Some 0x0800, g_ip4_proto := Some 17\<rparr>"
| "proto_guards Icmp = no_guards\<lparr>g_ethertype := Some 0x0800, g_ip4_proto := Some 1\<rparr>"
| "proto_guards Igmp = no_guards\<lparr>g_ethertype := Some 0x0800, g_ip4_proto := Some 2\<rparr>"
| "proto_guards Sctp = no_guards\<lparr>g_ethertype := Some 0x0800, g_ip4_proto := Some 132\<rparr>"
| "proto_guards (Num n) = no_guards\<lparr>g_ethertype := Some 0x0800, g_ip4_proto := Some n\<rparr>"
| "proto_guards Icmp6 = no_guards\<lparr>g_ethertype := Some 0x86dd, g_ip6_nh := Some 58\<rparr>"
| "proto_guards (Ip6Proto n) = no_guards\<lparr>g_ethertype := Some 0x86dd, g_ip6_nh := Some n\<rparr>"

fun primitive_guards :: "primitive \<Rightarrow> guard_set" where
  "primitive_guards (Proto p) = proto_guards p"
| "primitive_guards (Host (V4 _) _) = no_guards\<lparr>g_ethertype := Some 0x0800\<rparr>"
| "primitive_guards (Host (V6 _) _) = no_guards\<lparr>g_ethertype := Some 0x86dd\<rparr>"
| "primitive_guards (Net _ _) = no_guards\<lparr>g_ethertype := Some 0x0800\<rparr>"
| "primitive_guards IpBroadcast = no_guards\<lparr>g_ethertype := Some 0x0800\<rparr>"
| "primitive_guards IpMulticast = no_guards\<lparr>g_ethertype := Some 0x0800\<rparr>"
| "primitive_guards (Net6 _ _) = no_guards\<lparr>g_ethertype := Some 0x86dd\<rparr>"
| "primitive_guards Ip6Multicast = no_guards\<lparr>g_ethertype := Some 0x86dd\<rparr>"
| "primitive_guards (Port _ _ pr) = no_guards\<lparr>port_prereqs := result_ok (l4set_for pr)\<rparr>"
| "primitive_guards (PortRange _ _ _ pr) = no_guards\<lparr>port_prereqs := result_ok (l4set_for pr)\<rparr>"
| "primitive_guards (EtherProto et) = no_guards\<lparr>g_ethertype := Some (ucast et)\<rparr>"
| "primitive_guards (Vlan _) = no_guards\<lparr>g_ethertype := Some 0x8100\<rparr>"
| "primitive_guards PppoeDiscovery = no_guards\<lparr>g_ethertype := Some 0x8863\<rparr>"
| "primitive_guards (PppoeSession _) = no_guards\<lparr>g_ethertype := Some 0x8864\<rparr>"
| "primitive_guards (IpProtoChain n) = no_guards\<lparr>g_ethertype := Some 0x0800, g_ip4_proto := Some n\<rparr>"
| "primitive_guards (Ip6ProtoChain n) = no_guards\<lparr>g_ethertype := Some 0x86dd, g_ip6_nh := Some n\<rparr>"
| "primitive_guards (Mpls _) = no_guards"
| "primitive_guards (EtherHost _ _) = no_guards"
| "primitive_guards EtherMulticast = no_guards"
| "primitive_guards (Len _ _) = no_guards"
| "primitive_guards (ByteAccess _) = no_guards"
| "primitive_guards Inbound = no_guards"
| "primitive_guards Outbound = no_guards"

type_synonym guard_memo = "path \<Rightarrow> guard_set option"

datatype guard_step = Visit path expr | Combine path expr

fun combine_guards :: "expr \<Rightarrow> guard_set \<Rightarrow> guard_set \<Rightarrow> guard_set" where
  "combine_guards (And _ _) l r = guards_union l r"
| "combine_guards _ l r = guards_intersect l r"

fun step_weight :: "guard_step \<Rightarrow> nat" where
  "step_weight (Visit _ e) = 4 * size e + 2"
| "step_weight (Combine _ _) = 1"

function guards_loop ::
  "guard_step list \<Rightarrow> guard_set list \<Rightarrow> guard_memo \<Rightarrow> error + (guard_set \<times> guard_memo)" where
  "guards_loop [] done memo =
     (case done of [] \<Rightarrow> Inl (Panic ''one result'') | g # _ \<Rightarrow> Inr (g, memo))"
| "guards_loop (Visit at e # todo) done memo =
     (case memo at of
        Some g \<Rightarrow> guards_loop todo (g # done) memo
      | None \<Rightarrow>
          (case e of
             And l r \<Rightarrow> guards_loop (Visit (at @ [0]) l # Visit (at @ [1]) r # Combine at e # todo) done memo
           | Or l r \<Rightarrow> guards_loop (Visit (at @ [0]) l # Visit (at @ [1]) r # Combine at e # todo) done memo
           | Not _ \<Rightarrow> guards_loop todo (no_guards # done) memo
           | Primitive p \<Rightarrow> guards_loop todo (primitive_guards p # done) memo))"
| "guards_loop (Combine at e # todo) done memo =
     (case done of
        r # l # rest \<Rightarrow>
          (let g = combine_guards e l r in guards_loop todo (g # rest) (memo(at \<mapsto> g)))
      | [_] \<Rightarrow> Inl (Panic ''left operand'')
      | [] \<Rightarrow> Inl (Panic ''right operand''))"
  by pat_completeness auto
termination
  by (relation "measure (\<lambda>(todo, done, memo). sum_list (map step_weight todo))") auto

declare guards_loop.simps [simp del]

definition required_guards :: "path \<Rightarrow> expr \<Rightarrow> guard_memo \<Rightarrow> error + (guard_set \<times> guard_memo)" where
  "required_guards at e memo = guards_loop [Visit at e] [] memo"

section \<open>Compiler state\<close>

text \<open>\<open>x_writes\<close> is a 64-bit counter in the source; it grows by one per pushed instruction.\<close>

record codegen =
  cg_insns :: "insn list"
  cg_link :: link_type
  cg_facts :: facts
  x_writes :: nat
  vlan_depth :: u32

definition codegen_new :: "link_type \<Rightarrow> codegen" where
  "codegen_new link =
     \<lparr>cg_insns = [], cg_link = link,
      cg_facts = no_facts\<lparr>ethertype := (if link = RawIp then Some 0x0800 else None)\<rparr>,
      x_writes = 0, vlan_depth = 0\<rparr>"

definition net_offset :: "codegen \<Rightarrow> u32" where
  "net_offset cg = link_net_offset (cg_link cg) + vlan_depth cg * 4"

definition ether_proto_offset :: "codegen \<Rightarrow> u32 option" where
  "ether_proto_offset cg =
     map_option (\<lambda>off. off + vlan_depth cg * 4) (link_ether_proto_offset (cg_link cg))"

definition push :: "insn \<Rightarrow> codegen \<Rightarrow> nat \<times> codegen" where
  "push ins cg =
     (let cls = code ins AND 0x07;
          cg1 = (if cls = BPF_LDX \<or> code ins = BPF_MISC OR BPF_TAX
                 then cg\<lparr>x_writes := x_writes cg + 1,
                         cg_facts := (cg_facts cg)\<lparr>ports_ready := None\<rparr>\<rparr>
                 else cg);
          idx = length (cg_insns cg1)
      in (idx, cg1\<lparr>cg_insns := cg_insns cg1 @ [ins]\<rparr>))"

text \<open>A \<open>push\<close> whose index is not used.\<close>

definition put :: "insn \<Rightarrow> codegen \<Rightarrow> codegen" where
  "put ins cg = snd (push ins cg)"

definition too_complex :: error where
  "too_complex =
     CodegenError ''filter expression is too complex: BPF jump offset exceeds 255 instructions''"

text \<open>
  \<open>to - from - 1\<close> on \<open>usize\<close>: a distance of more than 255 is an error, and so is a backward one,
  which wraps to a huge value.
\<close>

definition jump_offset :: "nat \<Rightarrow> nat \<Rightarrow> error + u8" where
  "jump_offset from target =
     (if target \<le> from \<or> target - from - 1 > 255 then Inl too_complex
      else Inr (of_nat (target - from - 1)))"

definition set_insn :: "nat \<Rightarrow> (insn \<Rightarrow> insn) \<Rightarrow> codegen \<Rightarrow> error + codegen" where
  "set_insn i f cg =
     (if i < length (cg_insns cg)
      then Inr (cg\<lparr>cg_insns := (cg_insns cg)[i := f (cg_insns cg ! i)]\<rparr>)
      else Inl (Panic ''index out of bounds''))"

fun resolve :: "patch \<Rightarrow> nat \<Rightarrow> codegen \<Rightarrow> error + codegen" where
  "resolve (Jt i) target cg = rbind (jump_offset i target) (\<lambda>off. set_insn i (\<lambda>ins. ins\<lparr>jt := off\<rparr>) cg)"
| "resolve (Jf i) target cg = rbind (jump_offset i target) (\<lambda>off. set_insn i (\<lambda>ins. ins\<lparr>jf := off\<rparr>) cg)"
| "resolve (Ja i) target cg =
     rbind (jump_offset i target) (\<lambda>off. set_insn i (\<lambda>ins. ins\<lparr>k_field := ucast off\<rparr>) cg)"

fun resolve_all :: "patch list \<Rightarrow> nat \<Rightarrow> codegen \<Rightarrow> error + codegen" where
  "resolve_all [] target cg = Inr cg"
| "resolve_all (p # ps) target cg = rbind (resolve p target cg) (resolve_all ps target)"

section \<open>Checks\<close>

definition check_halfword :: "u32 \<Rightarrow> u32 \<Rightarrow> codegen \<Rightarrow> patches \<times> codegen" where
  "check_halfword off expected cg =
     (let cg = put (ldh_abs off) cg;
          (idx, cg) = push (jeq_k expected 0 0xff) cg
      in (\<lparr>success = [], failure = [Jf idx]\<rparr>, cg))"

definition check_byte :: "u32 \<Rightarrow> u32 \<Rightarrow> codegen \<Rightarrow> patches \<times> codegen" where
  "check_byte off expected cg =
     (let cg = put (ldb_abs off) cg;
          (idx, cg) = push (jeq_k expected 0 0xff) cg
      in (\<lparr>success = [], failure = [Jf idx]\<rparr>, cg))"

definition check_word :: "u32 \<Rightarrow> u32 \<Rightarrow> codegen \<Rightarrow> patches \<times> codegen" where
  "check_word off expected cg =
     (let cg = put (ldw_abs off) cg;
          (idx, cg) = push (jeq_k expected 0 0xff) cg
      in (\<lparr>success = [], failure = [Jf idx]\<rparr>, cg))"

definition emit_ethertype :: "u32 \<Rightarrow> codegen \<Rightarrow> error + (patches \<times> codegen)" where
  "emit_ethertype et cg =
     (case ether_proto_offset cg of
        Some off \<Rightarrow>
          if ethertype (cg_facts cg) = Some et then Inr (no_patches, cg)
          else
            (let (p, cg) = check_halfword off et cg
             in if ethertype (cg_facts cg) = None
                then Inr (p, cg\<lparr>cg_facts := (cg_facts cg)\<lparr>ethertype := Some et\<rparr>\<rparr>)
                else Inr (p, cg))
      | None \<Rightarrow>
          if et = 0x0800 then Inr (no_patches, cg)
          else Inl (CodegenError
                 (''ethertype 0x'' @ show_hex4 et @ '' cannot be matched on RawIp captures'')))"

definition ip4_guard :: "codegen \<Rightarrow> error + (patches \<times> codegen)" where
  "ip4_guard cg = emit_ethertype 0x0800 cg"

definition emit_ip4_l4 :: "u8 \<Rightarrow> codegen \<Rightarrow> error + (patches \<times> codegen)" where
  "emit_ip4_l4 proto_num cg =
     rbind (ip4_guard cg) (\<lambda>(p, cg).
       if ip4_proto (cg_facts cg) = Some proto_num then Inr (p, cg)
       else
         (let off = net_offset cg + 9;
              (q, cg) = check_byte off (ucast proto_num) cg;
              p = \<lparr>success = success p @ success q, failure = failure p @ failure q\<rparr>
          in if ip4_proto (cg_facts cg) = None
             then Inr (p, cg\<lparr>cg_facts := (cg_facts cg)\<lparr>ip4_proto := Some proto_num\<rparr>\<rparr>)
             else Inr (p, cg)))"

definition emit_ip6_l4 :: "u8 \<Rightarrow> codegen \<Rightarrow> error + (patches \<times> codegen)" where
  "emit_ip6_l4 next_hdr cg =
     rbind (emit_ethertype 0x86dd cg) (\<lambda>(p, cg).
       if ip6_nh (cg_facts cg) = Some next_hdr then Inr (p, cg)
       else
         (let off = net_offset cg + 6;
              (q, cg) = check_byte off (ucast next_hdr) cg;
              p = \<lparr>success = success p, failure = failure p @ failure q\<rparr>
          in if ip6_nh (cg_facts cg) = None
             then Inr (p, cg\<lparr>cg_facts := (cg_facts cg)\<lparr>ip6_nh := Some next_hdr\<rparr>\<rparr>)
             else Inr (p, cg)))"

fun emit_proto :: "proto \<Rightarrow> codegen \<Rightarrow> error + (patches \<times> codegen)" where
  "emit_proto Ip cg = emit_ethertype 0x0800 cg"
| "emit_proto Ip6 cg = emit_ethertype 0x86dd cg"
| "emit_proto Arp cg = emit_ethertype 0x0806 cg"
| "emit_proto Rarp cg = emit_ethertype 0x8035 cg"
| "emit_proto Tcp cg = emit_ip4_l4 6 cg"
| "emit_proto Udp cg = emit_ip4_l4 17 cg"
| "emit_proto Icmp cg = emit_ip4_l4 1 cg"
| "emit_proto Igmp cg = emit_ip4_l4 2 cg"
| "emit_proto Sctp cg = emit_ip4_l4 132 cg"
| "emit_proto Icmp6 cg = emit_ip6_l4 58 cg"
| "emit_proto (Num n) cg = emit_ip4_l4 n cg"
| "emit_proto (Ip6Proto n) cg = emit_ip6_l4 n cg"

section \<open>Hosts and networks\<close>

fun check_addr4 :: "u32 \<Rightarrow> u32 \<Rightarrow> u32 \<Rightarrow> dir \<Rightarrow> codegen \<Rightarrow> patches \<times> codegen" where
  "check_addr4 v src_off dst_off Src cg =
     (let cg = put (ldw_abs src_off) cg;
          (i, cg) = push (jeq_k v 0 0xff) cg
      in (\<lparr>success = [], failure = [Jf i]\<rparr>, cg))"
| "check_addr4 v src_off dst_off Dst cg =
     (let cg = put (ldw_abs dst_off) cg;
          (i, cg) = push (jeq_k v 0 0xff) cg
      in (\<lparr>success = [], failure = [Jf i]\<rparr>, cg))"
| "check_addr4 v src_off dst_off SrcAndDst cg =
     (let cg = put (ldw_abs src_off) cg;
          (i1, cg) = push (jeq_k v 0 0xff) cg;
          cg = put (ldw_abs dst_off) cg;
          (i2, cg) = push (jeq_k v 0 0xff) cg
      in (\<lparr>success = [], failure = [Jf i1, Jf i2]\<rparr>, cg))"
| "check_addr4 v src_off dst_off SrcOrDst cg =
     (let cg = put (ldw_abs src_off) cg;
          (i_src, cg) = push (jeq_k v 0xff 0) cg;
          cg = put (ldw_abs dst_off) cg;
          (i_dst, cg) = push (jeq_k v 0 0xff) cg
      in (\<lparr>success = [Jt i_src], failure = [Jf i_dst]\<rparr>, cg))"

definition emit_host4 :: "ipv4_addr \<Rightarrow> dir \<Rightarrow> codegen \<Rightarrow> error + (patches \<times> codegen)" where
  "emit_host4 addr d cg =
     rbind (ip4_guard cg) (\<lambda>(p, cg).
       let base = net_offset cg;
           src_off = base + 12;
           dst_off = base + 16;
           (q, cg) = check_addr4 addr src_off dst_off d cg
       in Inr (\<lparr>success = success p @ success q, failure = failure p @ failure q\<rparr>, cg))"

text \<open>
  The shape shared by the \<open>SrcOrDst\<close> branches of \<open>emit_host6\<close>, \<open>emit_net6\<close>, \<open>emit_portrange\<close>
  and \<open>emit_ether_host\<close>: a first check, a jump over the second one, the failures of the first
  resolved to the start of the second. \<open>chk off cg fail\<close> appends its failure patches to \<open>fail\<close>.
\<close>

type_synonym check = "u32 \<Rightarrow> codegen \<Rightarrow> patch list \<Rightarrow> patch list \<times> codegen"

definition either_check :: "check \<Rightarrow> u32 \<Rightarrow> u32 \<Rightarrow> patches \<Rightarrow> codegen \<Rightarrow> error + (patches \<times> codegen)" where
  "either_check chk off1 off2 p cg =
     (let (src_fails, cg) = chk off1 cg [];
          (ja_idx, cg) = push (ja 0) cg;
          dst_start = length (cg_insns cg)
      in rbind (resolve_all src_fails dst_start cg) (\<lambda>cg.
           let (fail, cg) = chk off2 cg (failure p)
           in Inr (\<lparr>success = success p @ [Ja ja_idx], failure = fail\<rparr>, cg)))"

text \<open>The \<open>match dir\<close> of those emitters: \<open>Src\<close>, \<open>Dst\<close> and both in order.\<close>

definition dir_check :: "check \<Rightarrow> u32 \<Rightarrow> u32 \<Rightarrow> dir \<Rightarrow> patches \<Rightarrow> codegen \<Rightarrow> error + (patches \<times> codegen)" where
  "dir_check chk src_off dst_off d p cg =
     (case d of
        Src \<Rightarrow> (let (fail, cg) = chk src_off cg (failure p) in Inr (p\<lparr>failure := fail\<rparr>, cg))
      | Dst \<Rightarrow> (let (fail, cg) = chk dst_off cg (failure p) in Inr (p\<lparr>failure := fail\<rparr>, cg))
      | SrcAndDst \<Rightarrow>
          (let (fail, cg) = chk src_off cg (failure p);
               (fail, cg) = chk dst_off cg fail
           in Inr (p\<lparr>failure := fail\<rparr>, cg))
      | SrcOrDst \<Rightarrow> either_check chk src_off dst_off p cg)"

fun check_ip6_addr :: "nat \<Rightarrow> u16 list \<Rightarrow> check" where
  "check_ip6_addr i [] off cg fail = (fail, cg)"
| "check_ip6_addr i (seg # segs) off cg fail =
     (let cg = put (ldh_abs (off + of_nat i * 2)) cg;
          (idx, cg) = push (jeq_k (ucast seg) 0 0xff) cg
      in check_ip6_addr (i + 1) segs off cg (fail @ [Jf idx]))"

definition emit_host6 :: "ipv6_addr \<Rightarrow> dir \<Rightarrow> codegen \<Rightarrow> error + (patches \<times> codegen)" where
  "emit_host6 addr d cg =
     rbind (emit_ethertype 0x86dd cg) (\<lambda>(p, cg).
       let base = net_offset cg
       in dir_check (check_ip6_addr 0 (segments addr)) (base + 8) (base + 24) d p cg)"

fun emit_host :: "ip_addr \<Rightarrow> dir \<Rightarrow> codegen \<Rightarrow> error + (patches \<times> codegen)" where
  "emit_host (V4 a) d cg = emit_host4 a d cg"
| "emit_host (V6 a) d cg = emit_host6 a d cg"

definition check_net4 :: "u32 \<Rightarrow> u32 \<Rightarrow> check" where
  "check_net4 msk masked off cg fail =
     (let cg = put (ldw_abs off) cg;
          cg = put (and_k msk) cg;
          (idx, cg) = push (jeq_k masked 0 0xff) cg
      in (fail @ [Jf idx], cg))"

definition emit_net :: "ip_net \<Rightarrow> dir \<Rightarrow> codegen \<Rightarrow> error + (patches \<times> codegen)" where
  "emit_net net d cg =
     rbind (ip4_guard cg) (\<lambda>(p, cg).
       let base = net_offset cg;
           src_off = base + 12;
           dst_off = base + 16;
           mask = net_mask net;
           masked = net_addr net AND mask
       in case d of
            SrcOrDst \<Rightarrow>
              (let cg = put (ldw_abs src_off) cg;
                   cg = put (and_k mask) cg;
                   (i_src, cg) = push (jeq_k masked 0xff 0) cg;
                   cg = put (ldw_abs dst_off) cg;
                   cg = put (and_k mask) cg;
                   (i_dst, cg) = push (jeq_k masked 0 0xff) cg
               in Inr (\<lparr>success = success p @ [Jt i_src], failure = failure p @ [Jf i_dst]\<rparr>, cg))
          | _ \<Rightarrow> dir_check (check_net4 mask masked) src_off dst_off d p cg)"

fun check_net6 :: "u8 \<Rightarrow> nat \<Rightarrow> u16 list \<Rightarrow> check" where
  "check_net6 plen i [] addr_off cg fail = (fail, cg)"
| "check_net6 plen i (seg # segs) addr_off cg fail =
     (let start_bit = of_nat i * 16 :: u32 in
      if start_bit \<ge> ucast plen then (fail, cg)
      else
        (let end_bit = start_bit + 16;
             off = addr_off + of_nat i * 2;
             cg = put (ldh_abs off) cg
         in if end_bit \<le> ucast plen then
              (let (idx, cg) = push (jeq_k (ucast seg) 0 0xff) cg
               in check_net6 plen (i + 1) segs addr_off cg (fail @ [Jf idx]))
            else
              (let bits = ucast plen - start_bit;
                   mask = push_bit (unat (16 - bits)) 0xffff AND 0xffff;
                   expected = ucast seg AND mask;
                   cg = put (and_k mask) cg;
                   (idx, cg) = push (jeq_k expected 0 0xff) cg
               in check_net6 plen (i + 1) segs addr_off cg (fail @ [Jf idx]))))"

definition emit_net6 :: "ipv6_net \<Rightarrow> dir \<Rightarrow> codegen \<Rightarrow> error + (patches \<times> codegen)" where
  "emit_net6 net d cg =
     rbind (emit_ethertype 0x86dd cg) (\<lambda>(p, cg).
       let base = net_offset cg
       in dir_check (check_net6 (prefix_len net) 0 (segments (net6_addr net))) (base + 8) (base + 24) d p cg)"

section \<open>Ports\<close>

fun emit_l4_set_check :: "l4set \<Rightarrow> patch list \<Rightarrow> codegen \<Rightarrow> error + (patch list \<times> codegen)" where
  "emit_l4_set_check (One n) fail cg =
     (let (i, cg) = push (jeq_k (ucast n) 0 0xff) cg in Inr (fail @ [Jf i], cg))"
| "emit_l4_set_check TcpOrUdp fail cg =
     (let (i_tcp, cg) = push (jeq_k 6 0xff 0) cg;
          (i_udp, cg) = push (jeq_k 17 0 0xff) cg;
          fail = fail @ [Jf i_udp];
          after = length (cg_insns cg)
      in rbind (resolve (Jt i_tcp) after cg) (\<lambda>cg. Inr (fail, cg)))"

text \<open>The two single-path branches of \<open>emit_port_prereqs_set\<close> and its dual path.\<close>

definition prereqs_v4 :: "l4set \<Rightarrow> codegen \<Rightarrow> error + (patches \<times> codegen)" where
  "prereqs_v4 want cg =
     (let net_off = net_offset cg;
          ip4_proto_off = net_off + 9;
          ip4_frag_off = net_off + 6;
          finish = (\<lambda>established fail cg.
            let f = cg_facts cg;
                f = (case established of
                       One n \<Rightarrow> if ip4_proto f = None then f\<lparr>ip4_proto := Some n\<rparr> else f
                     | TcpOrUdp \<Rightarrow> f)
            in Inr (\<lparr>success = [], failure = fail\<rparr>, cg\<lparr>cg_facts := f\<lparr>ports_ready := Some established\<rparr>\<rparr>));
          frag_msh = (\<lambda>established fail cg.
            let cg = put (ldh_abs ip4_frag_off) cg;
                (i_frag, cg) = push (jset_k 0x1fff 0xff 0) cg;
                cg = put (ldx_msh net_off) cg
            in finish established (fail @ [Jt i_frag]) cg)
      in if ports_ready (cg_facts cg) \<noteq> None then
           (let cg = put (ldb_abs ip4_proto_off) cg
            in rbind (emit_l4_set_check want [] cg) (\<lambda>(fail, cg). finish want fail cg))
         else
           (case ip4_proto (cg_facts cg) of
              Some n \<Rightarrow>
                if l4_contains want n then frag_msh (One n) [] cg
                else (let cg = put (ldb_abs ip4_proto_off) cg
                      in rbind (emit_l4_set_check want [] cg) (\<lambda>(fail, cg). frag_msh want fail cg))
            | None \<Rightarrow>
                (let cg = put (ldb_abs ip4_proto_off) cg
                 in rbind (emit_l4_set_check want [] cg) (\<lambda>(fail, cg). frag_msh want fail cg))))"

definition prereqs_v6 :: "l4set \<Rightarrow> codegen \<Rightarrow> error + (patches \<times> codegen)" where
  "prereqs_v6 want cg =
     (let ip6_nh_off = net_offset cg + 6;
          finish = (\<lambda>established fail cg.
            let f = cg_facts cg;
                f = (case established of
                       One n \<Rightarrow> if ip6_nh f = None then f\<lparr>ip6_nh := Some n\<rparr> else f
                     | TcpOrUdp \<Rightarrow> f)
            in Inr (\<lparr>success = [], failure = fail\<rparr>, cg\<lparr>cg_facts := f\<lparr>ports_ready := Some established\<rparr>\<rparr>));
          ldx40 = (\<lambda>established fail cg. finish established fail (put (ldx_imm 40) cg))
      in if ports_ready (cg_facts cg) \<noteq> None then
           (let cg = put (ldb_abs ip6_nh_off) cg
            in rbind (emit_l4_set_check want [] cg) (\<lambda>(fail, cg). finish want fail cg))
         else
           (case ip6_nh (cg_facts cg) of
              Some n \<Rightarrow>
                if l4_contains want n then ldx40 (One n) [] cg
                else (let cg = put (ldb_abs ip6_nh_off) cg
                      in rbind (emit_l4_set_check want [] cg) (\<lambda>(fail, cg). ldx40 want fail cg))
            | None \<Rightarrow>
                (let cg = put (ldb_abs ip6_nh_off) cg
                 in rbind (emit_l4_set_check want [] cg) (\<lambda>(fail, cg). ldx40 want fail cg))))"

definition prereqs_dual :: "l4set \<Rightarrow> codegen \<Rightarrow> error + (patches \<times> codegen)" where
  "prereqs_dual want cg =
     (let net_off = net_offset cg;
          ip4_proto_off = net_off + 9;
          ip4_frag_off = net_off + 6;
          ip6_nh_off = net_off + 6
      in case ether_proto_offset cg of
           None \<Rightarrow> Inl (Panic ''RawIp implies a known-IPv4 path'')
         | Some ether_off \<Rightarrow>
             (let cg = put (ldh_abs ether_off) cg;
                  (i_is_ip6, cg) = push (jeq_k 0x86dd 0xff 0) cg;
                  (i_is_ip4, cg) = push (jeq_k 0x0800 0 0xff) cg;
                  fail = [Jf i_is_ip4];
                  cg = put (ldb_abs ip4_proto_off) cg
              in rbind (emit_l4_set_check want fail cg) (\<lambda>(fail, cg).
                   let cg = put (ldh_abs ip4_frag_off) cg;
                       (i_frag, cg) = push (jset_k 0x1fff 0xff 0) cg;
                       fail = fail @ [Jt i_frag];
                       cg = put (ldx_msh net_off) cg;
                       (ja_skip_ip6, cg) = push (ja 0) cg;
                       ip6_start = length (cg_insns cg)
                   in rbind (resolve (Jt i_is_ip6) ip6_start cg) (\<lambda>cg.
                        let cg = put (ldb_abs ip6_nh_off) cg
                        in rbind (emit_l4_set_check want fail cg) (\<lambda>(fail, cg).
                             let cg = put (ldx_imm 40) cg;
                                 port_check_start = length (cg_insns cg)
                             in rbind (resolve (Ja ja_skip_ip6) port_check_start cg) (\<lambda>cg.
                                  Inr (\<lparr>success = [], failure = fail\<rparr>,
                                    cg\<lparr>cg_facts := (cg_facts cg)\<lparr>ports_ready := Some want\<rparr>\<rparr>)))))))"

definition emit_port_prereqs_set :: "l4set \<Rightarrow> codegen \<Rightarrow> error + (patches \<times> codegen)" where
  "emit_port_prereqs_set want cg =
     (if (case ports_ready (cg_facts cg) of Some have_set \<Rightarrow> l4_subset_of have_set want | None \<Rightarrow> False)
      then Inr (no_patches, cg)
      else if ethertype (cg_facts cg) = Some 0x0800 then prereqs_v4 want cg
      else if ethertype (cg_facts cg) = Some 0x86dd then prereqs_v6 want cg
      else prereqs_dual want cg)"

definition emit_port_prereqs :: "proto option \<Rightarrow> codegen \<Rightarrow> error + (patches \<times> codegen)" where
  "emit_port_prereqs pr cg = rbind (l4set_for pr) (\<lambda>want. emit_port_prereqs_set want cg)"

definition check_port :: "u32 \<Rightarrow> check" where
  "check_port v off cg fail =
     (let cg = put (ldh_ind off) cg;
          (i, cg) = push (jeq_k v 0 0xff) cg
      in (fail @ [Jf i], cg))"

definition emit_port :: "u16 \<Rightarrow> dir \<Rightarrow> proto option \<Rightarrow> codegen \<Rightarrow> error + (patches \<times> codegen)" where
  "emit_port port d pr cg =
     rbind (emit_port_prereqs pr cg) (\<lambda>(p, cg).
       let base = net_offset cg;
           src_port_off = base;
           dst_port_off = base + 2;
           v = ucast port
       in case d of
            SrcOrDst \<Rightarrow>
              (let cg = put (ldh_ind src_port_off) cg;
                   (i_src, cg) = push (jeq_k v 0xff 0) cg;
                   cg = put (ldh_ind dst_port_off) cg;
                   (i_dst, cg) = push (jeq_k v 0 0xff) cg
               in Inr (\<lparr>success = success p @ [Jt i_src], failure = failure p @ [Jf i_dst]\<rparr>, cg))
          | _ \<Rightarrow> dir_check (check_port v) src_port_off dst_port_off d p cg)"

definition check_range :: "u16 \<Rightarrow> u16 \<Rightarrow> check" where
  "check_range lo hi off cg fail =
     (let cg = put (ldh_ind off) cg;
          (i_lo, cg) = push (jge_k (ucast lo) 0 0xff) cg;
          (i_hi, cg) = push (jgt_k (ucast hi) 0xff 0) cg
      in (fail @ [Jf i_lo, Jt i_hi], cg))"

definition emit_portrange ::
  "u16 \<Rightarrow> u16 \<Rightarrow> dir \<Rightarrow> proto option \<Rightarrow> codegen \<Rightarrow> error + (patches \<times> codegen)" where
  "emit_portrange lo hi d pr cg =
     rbind (emit_port_prereqs pr cg) (\<lambda>(p, cg).
       let base = net_offset cg
       in dir_check (check_range lo hi) base (base + 2) d p cg)"

section \<open>Link layer\<close>

fun mac_word :: "mac_addr \<Rightarrow> u32" where
  "mac_word (MacAddr a b c d e f) = be32 a b c d"

fun mac_half :: "mac_addr \<Rightarrow> u32" where
  "mac_half (MacAddr a b c d e f) = be32 0 0 e f"

definition check_mac :: "mac_addr \<Rightarrow> check" where
  "check_mac addr off cg fail =
     (let cg = put (ldw_abs off) cg;
          (i1, cg) = push (jeq_k (mac_word addr) 0 0xff) cg;
          cg = put (ldh_abs (off + 4)) cg;
          (i2, cg) = push (jeq_k (mac_half addr) 0 0xff) cg
      in (fail @ [Jf i1, Jf i2], cg))"

definition emit_ether_host :: "mac_addr \<Rightarrow> dir \<Rightarrow> codegen \<Rightarrow> error + (patches \<times> codegen)" where
  "emit_ether_host addr d cg =
     (if cg_link cg = RawIp
      then Inl (CodegenError ''ether host cannot be used with RawIp link type'')
      else case d of
        Src \<Rightarrow> (let (fail, cg) = check_mac addr 6 cg [] in Inr (\<lparr>success = [], failure = fail\<rparr>, cg))
      | Dst \<Rightarrow> (let (fail, cg) = check_mac addr 0 cg [] in Inr (\<lparr>success = [], failure = fail\<rparr>, cg))
      | SrcAndDst \<Rightarrow>
          (let (fail, cg) = check_mac addr 0 cg [];
               (fail, cg) = check_mac addr 6 cg fail
           in Inr (\<lparr>success = [], failure = fail\<rparr>, cg))
      | SrcOrDst \<Rightarrow> either_check (check_mac addr) 0 6 no_patches cg)"

definition emit_ether_multicast :: "codegen \<Rightarrow> error + (patches \<times> codegen)" where
  "emit_ether_multicast cg =
     (if cg_link cg = RawIp
      then Inl (CodegenError ''ether multicast cannot be used with RawIp link type'')
      else
        (let cg = put (ldb_abs 0) cg;
             (idx, cg) = push (jset_k 0x01 0 0xff) cg
         in Inr (\<lparr>success = [], failure = [Jf idx]\<rparr>, cg)))"

definition emit_ip_broadcast :: "codegen \<Rightarrow> error + (patches \<times> codegen)" where
  "emit_ip_broadcast cg =
     rbind (ip4_guard cg) (\<lambda>(p, cg).
       let dst_off = net_offset cg + 16;
           (q, cg) = check_word dst_off 0xffffffff cg
       in Inr (p\<lparr>failure := failure p @ failure q\<rparr>, cg))"

definition emit_ip_multicast :: "codegen \<Rightarrow> error + (patches \<times> codegen)" where
  "emit_ip_multicast cg =
     rbind (ip4_guard cg) (\<lambda>(p, cg).
       let dst_off = net_offset cg + 16;
           cg = put (ldw_abs dst_off) cg;
           cg = put (and_k 0xf0000000) cg;
           (idx, cg) = push (jeq_k 0xe0000000 0 0xff) cg
       in Inr (p\<lparr>failure := failure p @ [Jf idx]\<rparr>, cg))"

definition emit_ip6_multicast :: "codegen \<Rightarrow> error + (patches \<times> codegen)" where
  "emit_ip6_multicast cg =
     rbind (emit_ethertype 0x86dd cg) (\<lambda>(p, cg).
       let dst_off = net_offset cg + 24;
           (q, cg) = check_byte dst_off 0xff cg
       in Inr (p\<lparr>failure := failure p @ failure q\<rparr>, cg))"

definition emit_vlan :: "u16 option \<Rightarrow> codegen \<Rightarrow> error + (patches \<times> codegen)" where
  "emit_vlan vid cg =
     rbind (emit_ethertype 0x8100 cg) (\<lambda>(p, cg).
       case vid of
         None \<Rightarrow> Inr (p, cg)
       | Some v \<Rightarrow>
           (let tci_off = (case ether_proto_offset cg of None \<Rightarrow> 14 | Some off \<Rightarrow> off) + 2;
                cg = put (ldh_abs tci_off) cg;
                cg = put (and_k 0x0fff) cg;
                (idx, cg) = push (jeq_k (ucast v) 0 0xff) cg
            in Inr (p\<lparr>failure := failure p @ [Jf idx]\<rparr>, cg)))"

definition emit_mpls :: "u32 option \<Rightarrow> codegen \<Rightarrow> error + (patches \<times> codegen)" where
  "emit_mpls lbl cg =
     (case ether_proto_offset cg of
        Some off \<Rightarrow>
          (let cg = put (ldh_abs off) cg;
               (i_unicast, cg) = push (jeq_k 0x8847 0xff 0) cg;
               (i_mcast, cg) = push (jeq_k 0x8848 0 0xff) cg;
               p = \<lparr>success = [Jt i_unicast], failure = [Jf i_mcast]\<rparr>
           in case lbl of
                None \<Rightarrow> Inr (p, cg)
              | Some l \<Rightarrow>
                  (let lse_off = off + 2;
                       cg = put (ldw_abs lse_off) cg;
                       cg = put (rsh_k 12) cg;
                       (idx, cg) = push (jeq_k l 0 0xff) cg
                   in Inr (p\<lparr>failure := failure p @ [Jf idx]\<rparr>, cg)))
      | None \<Rightarrow> Inl (CodegenError ''mpls cannot be matched on RawIp captures''))"

definition emit_pppoe_session :: "u16 option \<Rightarrow> codegen \<Rightarrow> error + (patches \<times> codegen)" where
  "emit_pppoe_session sid cg =
     rbind (emit_ethertype 0x8864 cg) (\<lambda>(p, cg).
       case sid of
         None \<Rightarrow> Inr (p, cg)
       | Some v \<Rightarrow>
           (let sid_off = (case ether_proto_offset cg of None \<Rightarrow> 12 | Some off \<Rightarrow> off) + 4;
                cg = put (ldh_abs sid_off) cg;
                (idx, cg) = push (jeq_k (ucast v) 0 0xff) cg
            in Inr (p\<lparr>failure := failure p @ [Jf idx]\<rparr>, cg)))"

section \<open>Length and byte access\<close>

datatype patch_field = FieldJt | FieldJf

fun cmp_insn :: "cmp_op \<Rightarrow> u32 \<Rightarrow> insn \<times> patch_field" where
  "cmp_insn CmpEq v = (jeq_k v 0 0xff, FieldJf)"
| "cmp_insn CmpNe v = (jeq_k v 0xff 0, FieldJt)"
| "cmp_insn CmpGt v = (jgt_k v 0 0xff, FieldJf)"
| "cmp_insn CmpGe v = (jge_k v 0 0xff, FieldJf)"
| "cmp_insn CmpLt v = (jge_k v 0xff 0, FieldJt)"
| "cmp_insn CmpLe v = (jgt_k v 0xff 0, FieldJt)"
| "cmp_insn CmpBitAnd v = (jset_k v 0 0xff, FieldJf)"

fun cmp_x_insn :: "cmp_op \<Rightarrow> insn \<times> patch_field" where
  "cmp_x_insn CmpEq = (jeq_x 0 0xff, FieldJf)"
| "cmp_x_insn CmpNe = (jeq_x 0xff 0, FieldJt)"
| "cmp_x_insn CmpLt = (jgt_x 0 0xff, FieldJf)"
| "cmp_x_insn CmpLe = (jge_x 0 0xff, FieldJf)"
| "cmp_x_insn CmpGt = (jge_x 0xff 0, FieldJt)"
| "cmp_x_insn CmpGe = (jgt_x 0xff 0, FieldJt)"
| "cmp_x_insn CmpBitAnd = (jset_x 0 0xff, FieldJf)"

definition field_patch :: "patch_field \<Rightarrow> nat \<Rightarrow> patch" where
  "field_patch fld idx = (case fld of FieldJt \<Rightarrow> Jt idx | FieldJf \<Rightarrow> Jf idx)"

definition emit_cmp :: "cmp_op \<Rightarrow> u32 \<Rightarrow> codegen \<Rightarrow> patches \<times> codegen" where
  "emit_cmp opr value cg =
     (let (ins, fail_field) = cmp_insn opr value;
          (idx, cg) = push ins cg
      in (\<lparr>success = [], failure = [field_patch fail_field idx]\<rparr>, cg))"

definition emit_cmp_x :: "cmp_op \<Rightarrow> codegen \<Rightarrow> patches \<times> codegen" where
  "emit_cmp_x opr cg =
     (let (ins, fail_field) = cmp_x_insn opr;
          (idx, cg) = push ins cg
      in (\<lparr>success = [], failure = [field_patch fail_field idx]\<rparr>, cg))"

definition ld_len :: insn where
  "ld_len = mk_insn (BPF_LD OR BPF_LEN) 0 0 0"

definition emit_len :: "cmp_op \<Rightarrow> u32 \<Rightarrow> codegen \<Rightarrow> patches \<times> codegen" where
  "emit_len opr value cg = emit_cmp opr value (put ld_len cg)"

fun sized_load_insn :: "u32 \<Rightarrow> access_size \<Rightarrow> bool \<Rightarrow> insn" where
  "sized_load_insn off Byte False = ldb_abs off"
| "sized_load_insn off Half False = ldh_abs off"
| "sized_load_insn off Word_Size False = ldw_abs off"
| "sized_load_insn off Byte True = ldb_ind off"
| "sized_load_insn off Half True = ldh_ind off"
| "sized_load_insn off Word_Size True = ldw_ind off"

definition load_sized :: "u32 \<Rightarrow> access_size \<Rightarrow> bool \<Rightarrow> codegen \<Rightarrow> codegen" where
  "load_sized off sz indirect cg = put (sized_load_insn off sz indirect) cg"

fun layer_offset :: "layer \<Rightarrow> u32 \<Rightarrow> codegen \<Rightarrow> u32" where
  "layer_offset Raw off cg = off"
| "layer_offset Net_Layer off cg = net_offset cg + off"
| "layer_offset Trans off cg = net_offset cg + off"

fun emit_alu_op :: "arith_op \<Rightarrow> u32 \<Rightarrow> codegen \<Rightarrow> error + codegen" where
  "emit_alu_op OpAnd v cg = Inr (put (and_k v) cg)"
| "emit_alu_op OpOr v cg = Inr (put (or_k v) cg)"
| "emit_alu_op OpXor v cg = Inr (put (xor_k v) cg)"
| "emit_alu_op OpAdd v cg = Inr (put (add_k v) cg)"
| "emit_alu_op OpSub v cg = Inr (put (sub_k v) cg)"
| "emit_alu_op OpMul v cg = Inr (put (mul_k v) cg)"
| "emit_alu_op OpDiv v cg =
     (if v = 0 then Inl (CodegenError ''division by zero in byte-access expression'')
      else Inr (put (div_k v) cg))"
| "emit_alu_op OpMod v cg =
     Inl (CodegenError ''modulo (%) is not supported in classic BPF byte-access expressions'')"
| "emit_alu_op OpShl v cg = Inr (put (lsh_k v) cg)"
| "emit_alu_op OpShr v cg = Inr (put (rsh_k v) cg)"

fun emit_alu_ops :: "(arith_op \<times> u32) list \<Rightarrow> codegen \<Rightarrow> error + codegen" where
  "emit_alu_ops [] cg = Inr cg"
| "emit_alu_ops ((aop, v) # ops) cg = rbind (emit_alu_op aop v cg) (emit_alu_ops ops)"

definition emit_byte_access_const :: "byte_access \<Rightarrow> u32 \<Rightarrow> codegen \<Rightarrow> error + (patches \<times> codegen)" where
  "emit_byte_access_const ba value cg =
     rbind
       (case ba_layer ba of
          Raw \<Rightarrow>
            if cg_link cg = RawIp
            then Inl (CodegenError ''raw link-layer byte access cannot be used with RawIp link type'')
            else Inr (load_sized (ba_offset ba) (ba_size ba) False cg)
        | Net_Layer \<Rightarrow> Inr (load_sized (net_offset cg + ba_offset ba) (ba_size ba) False cg)
        | Trans \<Rightarrow>
            (let cg = put (ldx_msh (net_offset cg)) cg
             in Inr (load_sized (net_offset cg + ba_offset ba) (ba_size ba) True cg)))
       (\<lambda>cg. rbind (emit_alu_ops (alu_ops ba) cg) (\<lambda>cg. Inr (emit_cmp (ba_op ba) value cg)))"

definition emit_byte_access_load :: "byte_access \<Rightarrow> byte_load \<Rightarrow> codegen \<Rightarrow> error + (patches \<times> codegen)" where
  "emit_byte_access_load ba rhs cg =
     (let net = net_offset cg;
          lhs_trans = (ba_layer ba = Trans);
          rhs_trans = (load_layer rhs = Trans)
      in if lhs_trans \<or> rhs_trans then
           (let cg = (if lhs_trans
                      then load_sized (net + ba_offset ba) (ba_size ba) True (put (ldx_msh net) cg)
                      else load_sized (layer_offset (ba_layer ba) (ba_offset ba) cg) (ba_size ba) False cg)
            in rbind (emit_alu_ops (alu_ops ba) cg) (\<lambda>cg.
                 let cg = put (st 0) cg;
                     cg = (if rhs_trans
                           then load_sized (net + load_offset rhs) (load_size rhs) True
                                  (if lhs_trans then cg else put (ldx_msh net) cg)
                           else load_sized (layer_offset (load_layer rhs) (load_offset rhs) cg)
                                  (load_size rhs) False cg);
                     cg = put (ldx_mem 0) cg
                 in Inr (emit_cmp_x (ba_op ba) cg)))
         else
           (let cg = load_sized (layer_offset (ba_layer ba) (ba_offset ba) cg) (ba_size ba) False cg
            in rbind (emit_alu_ops (alu_ops ba) cg) (\<lambda>cg.
                 let cg = put tax cg;
                     cg = load_sized (layer_offset (load_layer rhs) (load_offset rhs) cg) (load_size rhs) False cg
                 in Inr (emit_cmp_x (ba_op ba) cg))))"

definition emit_byte_access :: "byte_access \<Rightarrow> codegen \<Rightarrow> error + (patches \<times> codegen)" where
  "emit_byte_access ba cg =
     (case ba_rhs ba of
        Const value \<Rightarrow> emit_byte_access_const ba value cg
      | LoadRhs rhs \<Rightarrow> emit_byte_access_load ba rhs cg)"

section \<open>Expressions\<close>

definition direction_error :: error where
  "direction_error =
     CodegenError ''inbound/outbound direction cannot be expressed in standard BPF''"

fun emit_primitive :: "primitive \<Rightarrow> codegen \<Rightarrow> error + (patches \<times> codegen)" where
  "emit_primitive (Proto p) cg = emit_proto p cg"
| "emit_primitive (Host addr d) cg = emit_host addr d cg"
| "emit_primitive (Net net d) cg = emit_net net d cg"
| "emit_primitive (Net6 net d) cg = emit_net6 net d cg"
| "emit_primitive (Port port d pr) cg = emit_port port d pr cg"
| "emit_primitive (PortRange lo hi d pr) cg = emit_portrange lo hi d pr cg"
| "emit_primitive (EtherHost addr d) cg = emit_ether_host addr d cg"
| "emit_primitive (EtherProto et) cg = emit_ethertype (ucast et) cg"
| "emit_primitive EtherMulticast cg = emit_ether_multicast cg"
| "emit_primitive IpBroadcast cg = emit_ip_broadcast cg"
| "emit_primitive IpMulticast cg = emit_ip_multicast cg"
| "emit_primitive Ip6Multicast cg = emit_ip6_multicast cg"
| "emit_primitive (Vlan vid) cg = emit_vlan vid cg"
| "emit_primitive (Mpls lbl) cg = emit_mpls lbl cg"
| "emit_primitive PppoeDiscovery cg = emit_ethertype 0x8863 cg"
| "emit_primitive (PppoeSession sid) cg = emit_pppoe_session sid cg"
| "emit_primitive (IpProtoChain n) cg = emit_ip4_l4 n cg"
| "emit_primitive (Ip6ProtoChain n) cg = emit_ip6_l4 n cg"
| "emit_primitive (Len opr value) cg = Inr (emit_len opr value cg)"
| "emit_primitive Inbound cg = Inl direction_error"
| "emit_primitive Outbound cg = Inl direction_error"
| "emit_primitive (ByteAccess ba) cg = emit_byte_access ba cg"

definition hoist_one ::
  "('g \<Rightarrow> codegen \<Rightarrow> error + (patches \<times> codegen)) \<Rightarrow> 'g option \<Rightarrow> patch list \<times> codegen \<Rightarrow>
   error + (patch list \<times> codegen)" where
  "hoist_one emit g = (\<lambda>(fail, cg).
     case g of
       None \<Rightarrow> Inr (fail, cg)
     | Some v \<Rightarrow> rbind (emit v cg) (\<lambda>(p, cg). Inr (fail @ failure p, cg)))"

definition emit_or_hoist ::
  "path \<Rightarrow> expr \<Rightarrow> expr \<Rightarrow> guard_memo \<Rightarrow> codegen \<Rightarrow> error + (patch list \<times> guard_memo \<times> codegen)" where
  "emit_or_hoist at left right memo cg =
     rbind (required_guards (at @ [0]) left memo) (\<lambda>(gl, memo).
     rbind (required_guards (at @ [1]) right memo) (\<lambda>(gr, memo).
       let common = guards_intersect gl gr;
           et = (if link_ether_proto_offset (cg_link cg) \<noteq> None then g_ethertype common else None)
       in rbind (hoist_one emit_ethertype et ([], cg)) (\<lambda>acc.
          rbind (hoist_one emit_ip4_l4 (g_ip4_proto common) acc) (\<lambda>acc.
          rbind (hoist_one emit_ip6_l4 (g_ip6_nh common) acc) (\<lambda>acc.
          rbind (hoist_one emit_port_prereqs_set (port_prereqs common) acc) (\<lambda>(fail, cg).
            Inr (fail, memo, cg)))))))"

datatype work =
  Emit path expr
| AndRight path expr
| AndDone "patch list" bool
| OrRight path expr "patch list" facts nat
| OrDone "patch list" nat facts "patch list"
| NotDone facts nat

fun is_vlan :: "primitive \<Rightarrow> bool" where
  "is_vlan (Vlan _) = True"
| "is_vlan _ = False"

fun work_weight :: "work \<Rightarrow> nat" where
  "work_weight (Emit _ e) = 4 * size e + 1"
| "work_weight (AndRight _ r) = 4 * size r + 3"
| "work_weight (OrRight _ r _ _ _) = 4 * size r + 3"
| "work_weight (AndDone _ _) = 1"
| "work_weight (OrDone _ _ _ _) = 1"
| "work_weight (NotDone _ _) = 1"

text \<open>Restoring saved facts, without the transport offset when X was written since.\<close>

definition restore_facts :: "facts \<Rightarrow> nat \<Rightarrow> codegen \<Rightarrow> codegen" where
  "restore_facts f x_writes_before cg =
     cg\<lparr>cg_facts := (if x_writes cg \<noteq> x_writes_before then f\<lparr>ports_ready := None\<rparr> else f)\<rparr>"

function emit_loop ::
  "work list \<Rightarrow> (patches \<times> bool) list \<Rightarrow> guard_memo \<Rightarrow> codegen \<Rightarrow> error + (patches \<times> codegen)" where
  "emit_loop [] done memo cg =
     (case done of [] \<Rightarrow> Inl (Panic ''one result'') | (ps, _) # _ \<Rightarrow> Inr (ps, cg))"
| "emit_loop (Emit at (Primitive p) # work) done memo cg =
     rbind (emit_primitive p cg) (\<lambda>(ps, cg). emit_loop work ((ps, is_vlan p) # done) memo cg)"
| "emit_loop (Emit at (And l r) # work) done memo cg =
     emit_loop (Emit (at @ [0]) l # AndRight (at @ [1]) r # work) done memo cg"
| "emit_loop (Emit at (Or l r) # work) done memo cg =
     rbind (emit_or_hoist at l r memo cg) (\<lambda>(hoist_failure, memo, cg).
       emit_loop (Emit (at @ [0]) l # OrRight (at @ [1]) r hoist_failure (cg_facts cg) (x_writes cg) # work)
         done memo cg)"
| "emit_loop (Emit at (Not e) # work) done memo cg =
     emit_loop (Emit (at @ [0]) e # NotDone (cg_facts cg) (x_writes cg) # work) done memo cg"
| "emit_loop (AndRight at r # work) done memo cg =
     (case done of
        [] \<Rightarrow> Inl (Panic ''AND left operand'')
      | (left_p, vlan_bump) # done \<Rightarrow>
          (let right_start = length (cg_insns cg)
           in rbind (resolve_all (success left_p) right_start cg) (\<lambda>cg.
                let cg = (if vlan_bump then cg\<lparr>vlan_depth := vlan_depth cg + 1\<rparr> else cg)
                in emit_loop (Emit at r # AndDone (failure left_p) vlan_bump # work) done memo cg)))"
| "emit_loop (AndDone left_failure vlan_bump # work) done memo cg =
     (case done of
        [] \<Rightarrow> Inl (Panic ''AND right operand'')
      | (right_p, _) # done \<Rightarrow>
          (let cg = (if vlan_bump then cg\<lparr>vlan_depth := vlan_depth cg - 1\<rparr> else cg);
               ps = \<lparr>success = success right_p, failure = concat_vec left_failure (failure right_p)\<rparr>
           in emit_loop work ((ps, vlan_bump) # done) memo cg))"
| "emit_loop (OrRight at r hoist_failure branch_facts x_writes_before # work) done memo cg =
     (case done of
        [] \<Rightarrow> Inl (Panic ''OR left operand'')
      | (left_p, _) # done \<Rightarrow>
          (let left_facts = cg_facts cg;
               cg = restore_facts branch_facts x_writes_before cg;
               (ja_idx, cg) = push (ja 0) cg;
               right_start = length (cg_insns cg)
           in rbind (resolve_all (failure left_p) right_start cg) (\<lambda>cg.
                emit_loop (Emit at r # OrDone (success left_p) ja_idx left_facts hoist_failure # work)
                  done memo cg)))"
| "emit_loop (OrDone left_success ja_idx left_facts hoist_failure # work) done memo cg =
     (case done of
        [] \<Rightarrow> Inl (Panic ''OR right operand'')
      | (right_p, _) # done \<Rightarrow>
          (let cg = cg\<lparr>cg_facts := facts_meet left_facts (cg_facts cg)\<rparr>;
               ps = \<lparr>success = concat_vec (left_success @ [Ja ja_idx]) (success right_p),
                     failure = concat_vec (failure right_p) hoist_failure\<rparr>
           in emit_loop work ((ps, False) # done) memo cg))"
| "emit_loop (NotDone entry_facts x_writes_before # work) done memo cg =
     (case done of
        [] \<Rightarrow> Inl (Panic ''NOT operand'')
      | (inner_p, _) # done \<Rightarrow>
          (let cg = restore_facts entry_facts x_writes_before cg;
               (ja_idx, cg) = push (ja 0) cg;
               not_succ_start = length (cg_insns cg)
           in rbind (resolve_all (failure inner_p) not_succ_start cg) (\<lambda>cg.
                emit_loop work ((\<lparr>success = [], failure = success inner_p @ [Ja ja_idx]\<rparr>, False) # done)
                  memo cg)))"
  by pat_completeness auto
termination
  by (relation "measure (\<lambda>(work, done, memo, cg). sum_list (map work_weight work))") auto

declare emit_loop.simps [simp del]

definition emit_expr :: "expr \<Rightarrow> codegen \<Rightarrow> error + (patches \<times> codegen)" where
  "emit_expr e cg = emit_loop [Emit [] e] [] Map.empty cg"

definition compile_raw :: "expr \<Rightarrow> link_type \<Rightarrow> error + insn list" where
  "compile_raw e link =
     rbind (emit_expr e (codegen_new link)) (\<lambda>(ps, cg).
       let accept_idx = length (cg_insns cg);
           cg = put (ret_k BPF_ACCEPT) cg;
           drop_idx = length (cg_insns cg);
           cg = put (ret_k BPF_DROP) cg
       in rbind (resolve_all (success ps) accept_idx cg) (\<lambda>cg.
          rbind (resolve_all (failure ps) drop_idx cg) (\<lambda>cg. Inr (cg_insns cg))))"

definition codegen_compile :: "expr \<Rightarrow> link_type \<Rightarrow> error + program" where
  "codegen_compile e link = rbind (compile_raw e link) (\<lambda>is. Inr (program_new (optimize is)))"

end
