(* ===== verification/Ebpf_Codegen.thy ===== *)
theory Ebpf_Codegen
  imports Ebpf Codegen
begin

text \<open>
  \<^verbatim>\<open>pktbaffle/src/ebpf_codegen.rs\<close>: the extended BPF code generator for the XDP hook. The state is the
  record \<open>ecodegen\<close>, threaded through every emitter; a patch is the index of an instruction whose
  \<open>off\<close> field waits for its jump distance. Arithmetic on \<open>u32\<close> and \<open>i32\<close> wraps, as in a build without
  overflow checks, and \<open>as\<close> casts are \<open>ucast\<close> on the bits. The work stack is a list with the top first.
\<close>

section \<open>Compiler state\<close>

record epatches =
  e_success :: "nat list"
  e_failure :: "nat list"

definition no_epatches :: epatches where
  "no_epatches = \<lparr>e_success = [], e_failure = []\<rparr>"

record ecodegen =
  ecg_insns :: "einsn list"
  ecg_link :: link_type

definition ecodegen_new :: "link_type \<Rightarrow> ecodegen" where
  "ecodegen_new link = \<lparr>ecg_insns = [], ecg_link = link\<rparr>"

definition epush :: "einsn \<Rightarrow> ecodegen \<Rightarrow> nat \<times> ecodegen" where
  "epush ins cg = (let idx = length (ecg_insns cg) in (idx, cg\<lparr>ecg_insns := ecg_insns cg @ [ins]\<rparr>))"

text \<open>An \<open>epush\<close> whose index is not used.\<close>

definition eput :: "einsn \<Rightarrow> ecodegen \<Rightarrow> ecodegen" where
  "eput ins cg = snd (epush ins cg)"

definition ejump_overflow :: error where
  "ejump_overflow = CodegenError ''filter expression is too complex: eBPF jump offset overflow''"

text \<open>
  \<open>target_idx - from - 1\<close> on \<open>usize\<close>: more than \<open>i16::MAX\<close> is an error, and so is a backward jump, whose
  distance wraps to a huge value.
\<close>

definition eresolve :: "nat \<Rightarrow> nat \<Rightarrow> ecodegen \<Rightarrow> error + ecodegen" where
  "eresolve from target cg =
     (if target \<le> from \<or> int (target - from - 1) > 32767 then Inl ejump_overflow
      else if from < length (ecg_insns cg) then
        Inr (cg\<lparr>ecg_insns := (ecg_insns cg)[from := (ecg_insns cg ! from)\<lparr>e_off := of_nat (target - from - 1)\<rparr>]\<rparr>)
      else Inl (Panic ''index out of bounds''))"

fun eresolve_all :: "nat list \<Rightarrow> nat \<Rightarrow> ecodegen \<Rightarrow> error + ecodegen" where
  "eresolve_all [] target cg = Inr cg"
| "eresolve_all (p # ps) target cg = rbind (eresolve p target cg) (eresolve_all ps target)"

definition emit_prologue :: "ecodegen \<Rightarrow> ecodegen" where
  "emit_prologue cg = eput (ldx_w R3 R1 4) (eput (ldx_w R2 R1 0) cg)"

section \<open>Bounds check and packet load\<close>

definition push_ldx_h_be :: "u8 \<Rightarrow> u8 \<Rightarrow> i16 \<Rightarrow> ecodegen \<Rightarrow> ecodegen" where
  "push_ldx_h_be d s off cg = eput (to_be16 d) (eput (ldx_h d s off) cg)"

definition push_ldx_w_be :: "u8 \<Rightarrow> u8 \<Rightarrow> i16 \<Rightarrow> ecodegen \<Rightarrow> ecodegen" where
  "push_ldx_w_be d s off cg = eput (to_be32 d) (eput (ldx_w d s off) cg)"

definition emit_load_byte :: "u32 \<Rightarrow> ecodegen \<Rightarrow> nat \<times> ecodegen" where
  "emit_load_byte off cg =
     (let cg = eput (mov64_reg R5 R2) cg;
          cg = eput (add64_imm R5 (off + 1)) cg;
          (bc, cg) = epush (jgt_reg R5 R3 0) cg;
          cg = eput (ldx_b R4 R2 (ucast off)) cg
      in (bc, cg))"

definition emit_load_half :: "u32 \<Rightarrow> ecodegen \<Rightarrow> nat \<times> ecodegen" where
  "emit_load_half off cg =
     (let cg = eput (mov64_reg R5 R2) cg;
          cg = eput (add64_imm R5 (off + 2)) cg;
          (bc, cg) = epush (jgt_reg R5 R3 0) cg;
          cg = push_ldx_h_be R4 R2 (ucast off) cg
      in (bc, cg))"

definition emit_load_word :: "u32 \<Rightarrow> ecodegen \<Rightarrow> nat \<times> ecodegen" where
  "emit_load_word off cg =
     (let cg = eput (mov64_reg R5 R2) cg;
          cg = eput (add64_imm R5 (off + 4)) cg;
          (bc, cg) = epush (jgt_reg R5 R3 0) cg;
          cg = push_ldx_w_be R4 R2 (ucast off) cg
      in (bc, cg))"

definition echeck_half :: "u32 \<Rightarrow> u32 \<Rightarrow> ecodegen \<Rightarrow> epatches \<times> ecodegen" where
  "echeck_half off expected cg =
     (let (bc, cg) = emit_load_half off cg;
          (cmp, cg) = epush (jne_imm R4 expected 0) cg
      in (\<lparr>e_success = [], e_failure = [bc, cmp]\<rparr>, cg))"

definition echeck_byte :: "u32 \<Rightarrow> u32 \<Rightarrow> ecodegen \<Rightarrow> epatches \<times> ecodegen" where
  "echeck_byte off expected cg =
     (let (bc, cg) = emit_load_byte off cg;
          (cmp, cg) = epush (jne_imm R4 expected 0) cg
      in (\<lparr>e_success = [], e_failure = [bc, cmp]\<rparr>, cg))"

definition echeck_word :: "u32 \<Rightarrow> u32 \<Rightarrow> ecodegen \<Rightarrow> epatches \<times> ecodegen" where
  "echeck_word off expected cg =
     (let (bc, cg) = emit_load_word off cg;
          (cmp, cg) = epush (jne_imm R4 expected 0) cg
      in (\<lparr>e_success = [], e_failure = [bc, cmp]\<rparr>, cg))"

section \<open>Protocols\<close>

definition eemit_ethertype :: "u32 \<Rightarrow> ecodegen \<Rightarrow> error + (epatches \<times> ecodegen)" where
  "eemit_ethertype et cg =
     (case link_ether_proto_offset (ecg_link cg) of
        Some off \<Rightarrow> Inr (echeck_half off et cg)
      | None \<Rightarrow>
          if et = 0x0800 then Inr (no_epatches, cg)
          else Inl (CodegenError
                 (''ethertype 0x'' @ show_hex4 et @ '' cannot be matched on RawIp captures'')))"

definition eip4_guard :: "ecodegen \<Rightarrow> error + (epatches \<times> ecodegen)" where
  "eip4_guard cg = eemit_ethertype 0x0800 cg"

definition eemit_ip4_l4 :: "u8 \<Rightarrow> ecodegen \<Rightarrow> error + (epatches \<times> ecodegen)" where
  "eemit_ip4_l4 proto_num cg =
     rbind (eip4_guard cg) (\<lambda>(p, cg).
       let (q, cg) = echeck_byte (link_net_offset (ecg_link cg) + 9) (ucast proto_num) cg
       in Inr (p\<lparr>e_failure := e_failure p @ e_failure q\<rparr>, cg))"

definition eemit_ip6_l4 :: "u8 \<Rightarrow> ecodegen \<Rightarrow> error + (epatches \<times> ecodegen)" where
  "eemit_ip6_l4 next_hdr cg =
     rbind (eemit_ethertype 0x86dd cg) (\<lambda>(p, cg).
       let (q, cg) = echeck_byte (link_net_offset (ecg_link cg) + 6) (ucast next_hdr) cg
       in Inr (p\<lparr>e_failure := e_failure p @ e_failure q\<rparr>, cg))"

definition emit_dual_l4 :: "u8 \<Rightarrow> ecodegen \<Rightarrow> error + (epatches \<times> ecodegen)" where
  "emit_dual_l4 proto_num cg =
     (case link_ether_proto_offset (ecg_link cg) of
        None \<Rightarrow> eemit_ip4_l4 proto_num cg
      | Some ether_off \<Rightarrow>
          (let net_off = link_net_offset (ecg_link cg);
               (bc_et, cg) = emit_load_half ether_off cg;
               fail = [bc_et];
               (jmp_to_ipv4, cg) = epush (jeq_imm R4 0x0800 0) cg;
               (not_ipv6, cg) = epush (jne_imm R4 0x86dd 0) cg;
               fail = fail @ [not_ipv6];
               (q6, cg) = echeck_byte (net_off + 6) (ucast proto_num) cg;
               fail = fail @ e_failure q6;
               (ja_idx, cg) = epush (e_ja 0) cg;
               ipv4_start = length (ecg_insns cg)
           in rbind (eresolve jmp_to_ipv4 ipv4_start cg) (\<lambda>cg.
                let (q4, cg) = echeck_byte (net_off + 9) (ucast proto_num) cg;
                    fail = fail @ e_failure q4;
                    after = length (ecg_insns cg)
                in rbind (eresolve ja_idx after cg) (\<lambda>cg.
                     Inr (\<lparr>e_success = [], e_failure = fail\<rparr>, cg)))))"

fun eemit_proto :: "proto \<Rightarrow> ecodegen \<Rightarrow> error + (epatches \<times> ecodegen)" where
  "eemit_proto Ip cg = eemit_ethertype 0x0800 cg"
| "eemit_proto Ip6 cg = eemit_ethertype 0x86dd cg"
| "eemit_proto Arp cg = eemit_ethertype 0x0806 cg"
| "eemit_proto Rarp cg = eemit_ethertype 0x8035 cg"
| "eemit_proto Tcp cg = emit_dual_l4 6 cg"
| "eemit_proto Udp cg = emit_dual_l4 17 cg"
| "eemit_proto Sctp cg = emit_dual_l4 132 cg"
| "eemit_proto Icmp cg = eemit_ip4_l4 1 cg"
| "eemit_proto Igmp cg = eemit_ip4_l4 2 cg"
| "eemit_proto Icmp6 cg = eemit_ip6_l4 58 cg"
| "eemit_proto (Num n) cg = eemit_ip4_l4 n cg"
| "eemit_proto (Ip6Proto n) cg = eemit_ip6_l4 n cg"

section \<open>Hosts and networks\<close>

fun echeck_addr4 :: "u32 \<Rightarrow> u32 \<Rightarrow> u32 \<Rightarrow> dir \<Rightarrow> ecodegen \<Rightarrow> epatches \<times> ecodegen" where
  "echeck_addr4 v src_off dst_off Src cg =
     (let (bc, cg) = emit_load_word src_off cg;
          (cmp, cg) = epush (jne_imm R4 v 0) cg
      in (\<lparr>e_success = [], e_failure = [bc, cmp]\<rparr>, cg))"
| "echeck_addr4 v src_off dst_off Dst cg =
     (let (bc, cg) = emit_load_word dst_off cg;
          (cmp, cg) = epush (jne_imm R4 v 0) cg
      in (\<lparr>e_success = [], e_failure = [bc, cmp]\<rparr>, cg))"
| "echeck_addr4 v src_off dst_off SrcAndDst cg =
     (let (bc1, cg) = emit_load_word src_off cg;
          (cmp1, cg) = epush (jne_imm R4 v 0) cg;
          (bc2, cg) = emit_load_word dst_off cg;
          (cmp2, cg) = epush (jne_imm R4 v 0) cg
      in (\<lparr>e_success = [], e_failure = [bc1, cmp1, bc2, cmp2]\<rparr>, cg))"
| "echeck_addr4 v src_off dst_off SrcOrDst cg =
     (let (bc1, cg) = emit_load_word src_off cg;
          (eq_src, cg) = epush (jeq_imm R4 v 0) cg;
          (bc2, cg) = emit_load_word dst_off cg;
          (cmp2, cg) = epush (jne_imm R4 v 0) cg
      in (\<lparr>e_success = [eq_src], e_failure = [bc1, bc2, cmp2]\<rparr>, cg))"

definition eemit_host4 :: "ipv4_addr \<Rightarrow> dir \<Rightarrow> ecodegen \<Rightarrow> error + (epatches \<times> ecodegen)" where
  "eemit_host4 addr d cg =
     rbind (eip4_guard cg) (\<lambda>(p, cg).
       let base = link_net_offset (ecg_link cg);
           (q, cg) = echeck_addr4 addr (base + 12) (base + 16) d cg
       in Inr (\<lparr>e_success = e_success p @ e_success q, e_failure = e_failure p @ e_failure q\<rparr>, cg))"

text \<open>
  The \<open>match dir\<close> shared by the emitters that test a source and a destination field with a closure
  \<open>chk\<close>, which appends its failure patches to a list. \<open>first\<close> and \<open>second\<close> are the places in the order in
  which the two are tested when both are. For \<open>SrcOrDst\<close> a jump leads over the second check and
  the failures of the first one are resolved to its start.
\<close>

definition edir_check ::
  "('o \<Rightarrow> ecodegen \<Rightarrow> nat list \<Rightarrow> nat list \<times> ecodegen) \<Rightarrow> 'o \<Rightarrow> 'o \<Rightarrow> 'o \<Rightarrow> 'o \<Rightarrow> dir \<Rightarrow> epatches \<Rightarrow> ecodegen \<Rightarrow>
   error + (epatches \<times> ecodegen)" where
  "edir_check chk src_at dst_at first second d p cg =
     (case d of
        Src \<Rightarrow> (let (fail, cg) = chk src_at cg (e_failure p) in Inr (p\<lparr>e_failure := fail\<rparr>, cg))
      | Dst \<Rightarrow> (let (fail, cg) = chk dst_at cg (e_failure p) in Inr (p\<lparr>e_failure := fail\<rparr>, cg))
      | SrcAndDst \<Rightarrow>
          (let (fail, cg) = chk first cg (e_failure p);
               (fail, cg) = chk second cg fail
           in Inr (p\<lparr>e_failure := fail\<rparr>, cg))
      | SrcOrDst \<Rightarrow>
          (let (src_fails, cg) = chk first cg [];
               (ja_idx, cg) = epush (e_ja 0) cg;
               dst_start = length (ecg_insns cg)
           in rbind (eresolve_all src_fails dst_start cg) (\<lambda>cg.
                let (fail, cg) = chk second cg (e_failure p)
                in Inr (\<lparr>e_success = e_success p @ [ja_idx], e_failure = fail\<rparr>, cg))))"

fun echeck_ip6 :: "nat \<Rightarrow> u16 list \<Rightarrow> u32 \<Rightarrow> ecodegen \<Rightarrow> nat list \<Rightarrow> nat list \<times> ecodegen" where
  "echeck_ip6 i [] off cg fail = (fail, cg)"
| "echeck_ip6 i (seg # segs) off cg fail =
     (let (bc, cg) = emit_load_half (off + of_nat i * 2) cg;
          (cmp, cg) = epush (jne_imm R4 (ucast seg) 0) cg
      in echeck_ip6 (i + 1) segs off cg (fail @ [bc, cmp]))"

definition eemit_host6 :: "ipv6_addr \<Rightarrow> dir \<Rightarrow> ecodegen \<Rightarrow> error + (epatches \<times> ecodegen)" where
  "eemit_host6 addr d cg =
     rbind (eemit_ethertype 0x86dd cg) (\<lambda>(p, cg).
       let base = link_net_offset (ecg_link cg);
           src_off = base + 8;
           dst_off = base + 24
       in edir_check (echeck_ip6 0 (segments addr)) src_off dst_off src_off dst_off d p cg)"

fun eemit_host :: "ip_addr \<Rightarrow> dir \<Rightarrow> ecodegen \<Rightarrow> error + (epatches \<times> ecodegen)" where
  "eemit_host (V4 a) d cg = eemit_host4 a d cg"
| "eemit_host (V6 a) d cg = eemit_host6 a d cg"

definition echeck_net4 :: "u32 \<Rightarrow> u32 \<Rightarrow> u32 \<Rightarrow> ecodegen \<Rightarrow> nat list \<Rightarrow> nat list \<times> ecodegen" where
  "echeck_net4 msk masked off cg fail =
     (let (bc, cg) = emit_load_word off cg;
          cg = eput (and32_imm R4 msk) cg;
          (cmp, cg) = epush (jne_imm R4 masked 0) cg
      in (fail @ [bc, cmp], cg))"

definition eemit_net :: "ip_net \<Rightarrow> dir \<Rightarrow> ecodegen \<Rightarrow> error + (epatches \<times> ecodegen)" where
  "eemit_net net d cg =
     rbind (eip4_guard cg) (\<lambda>(p, cg).
       let base = link_net_offset (ecg_link cg);
           src_off = base + 12;
           dst_off = base + 16;
           msk = net_mask net;
           masked = net_addr net AND net_mask net
       in case d of
            SrcOrDst \<Rightarrow>
              (let (bc, cg) = emit_load_word src_off cg;
                   cg = eput (and32_imm R4 msk) cg;
                   (eq_src, cg) = epush (jeq_imm R4 masked 0) cg;
                   (bc2, cg) = emit_load_word dst_off cg;
                   cg = eput (and32_imm R4 msk) cg;
                   (cmp2, cg) = epush (jne_imm R4 masked 0) cg
               in Inr (\<lparr>e_success = e_success p @ [eq_src], e_failure = e_failure p @ [bc, bc2, cmp2]\<rparr>, cg))
          | _ \<Rightarrow> edir_check (echeck_net4 msk masked) src_off dst_off src_off dst_off d p cg)"

fun echeck_net6 :: "u8 \<Rightarrow> nat \<Rightarrow> u16 list \<Rightarrow> u32 \<Rightarrow> ecodegen \<Rightarrow> nat list \<Rightarrow> nat list \<times> ecodegen" where
  "echeck_net6 plen i [] addr_off cg fail = (fail, cg)"
| "echeck_net6 plen i (seg # segs) addr_off cg fail =
     (let start_bit = of_nat i * 16 :: u32 in
      if start_bit \<ge> ucast plen then (fail, cg)
      else
        (let end_bit = start_bit + 16;
             off = addr_off + of_nat i * 2;
             (bc, cg) = emit_load_half off cg;
             fail = fail @ [bc]
         in if end_bit \<le> ucast plen then
              (let (cmp, cg) = epush (jne_imm R4 (ucast seg) 0) cg
               in echeck_net6 plen (i + 1) segs addr_off cg (fail @ [cmp]))
            else
              (let bits = ucast plen - start_bit;
                   msk = push_bit (unat (16 - bits)) 0xffff AND 0xffff;
                   expected = ucast seg AND msk;
                   cg = eput (and32_imm R4 msk) cg;
                   (cmp, cg) = epush (jne_imm R4 expected 0) cg
               in echeck_net6 plen (i + 1) segs addr_off cg (fail @ [cmp]))))"

definition eemit_net6 :: "ipv6_net \<Rightarrow> dir \<Rightarrow> ecodegen \<Rightarrow> error + (epatches \<times> ecodegen)" where
  "eemit_net6 net d cg =
     rbind (eemit_ethertype 0x86dd cg) (\<lambda>(p, cg).
       let base = link_net_offset (ecg_link cg);
           src_off = base + 8;
           dst_off = base + 24
       in edir_check (echeck_net6 (prefix_len net) 0 (segments (net6_addr net)))
            src_off dst_off src_off dst_off d p cg)"

section \<open>Ports\<close>

fun emit_l4_proto_check :: "u32 \<Rightarrow> proto option \<Rightarrow> epatches \<Rightarrow> ecodegen \<Rightarrow> error + (epatches \<times> ecodegen)" where
  "emit_l4_proto_check proto_off (Some Tcp) p cg =
     (let (q, cg) = echeck_byte proto_off 6 cg in Inr (p\<lparr>e_failure := e_failure p @ e_failure q\<rparr>, cg))"
| "emit_l4_proto_check proto_off (Some Udp) p cg =
     (let (q, cg) = echeck_byte proto_off 17 cg in Inr (p\<lparr>e_failure := e_failure p @ e_failure q\<rparr>, cg))"
| "emit_l4_proto_check proto_off (Some Sctp) p cg =
     (let (q, cg) = echeck_byte proto_off 132 cg in Inr (p\<lparr>e_failure := e_failure p @ e_failure q\<rparr>, cg))"
| "emit_l4_proto_check proto_off None p cg =
     (let (bc, cg) = emit_load_byte proto_off cg;
          (eq_tcp, cg) = epush (jeq_imm R4 6 0) cg;
          (cmp_udp, cg) = epush (jne_imm R4 17 0) cg;
          p = p\<lparr>e_failure := e_failure p @ [bc, cmp_udp]\<rparr>;
          after_udp = length (ecg_insns cg)
      in rbind (eresolve eq_tcp after_udp cg) (\<lambda>cg. Inr (p, cg)))"
| "emit_l4_proto_check proto_off (Some pr) p cg =
     Inl (CodegenError (''port filter with proto '' @ debug_proto pr @ '' is not supported''))"

text \<open>\<open>R6 = R2 + net_off + 4 * IHL\<close>, from the byte the caller loads, and the check for both ports.\<close>

definition push_ihl_ptr :: "u32 \<Rightarrow> ecodegen \<Rightarrow> ecodegen" where
  "push_ihl_ptr net_off cg =
     (let cg = eput (and32_imm R4 0x0f) cg;
          cg = eput (lsh32_imm R4 2) cg;
          cg = eput (mov64_reg R6 R2) cg;
          cg = eput (add64_imm R6 net_off) cg
      in eput (add64_reg R6 R4) cg)"

definition push_ptr_check :: "32 word \<Rightarrow> ecodegen \<Rightarrow> nat \<times> ecodegen" where
  "push_ptr_check end_off cg =
     (let cg = eput (mov64_reg R5 R6) cg;
          cg = eput (add64_imm R5 end_off) cg
      in epush (jgt_reg R5 R3 0) cg)"

definition emit_port_prereqs_ipv4_only :: "proto option \<Rightarrow> ecodegen \<Rightarrow> error + (epatches \<times> ecodegen)" where
  "emit_port_prereqs_ipv4_only pr cg =
     rbind (eip4_guard cg) (\<lambda>(p, cg).
       let net_off = link_net_offset (ecg_link cg)
       in rbind (emit_l4_proto_check (net_off + 9) pr p cg) (\<lambda>(p, cg).
            let (bc_ihl, cg) = emit_load_byte net_off cg;
                p = p\<lparr>e_failure := e_failure p @ [bc_ihl]\<rparr>;
                cg = push_ihl_ptr net_off cg;
                (bc_trans, cg) = push_ptr_check 4 cg
            in Inr (p\<lparr>e_failure := e_failure p @ [bc_trans]\<rparr>, cg)))"

definition eemit_port_prereqs :: "proto option \<Rightarrow> ecodegen \<Rightarrow> error + (epatches \<times> ecodegen)" where
  "eemit_port_prereqs pr cg =
     (case link_ether_proto_offset (ecg_link cg) of
        None \<Rightarrow> emit_port_prereqs_ipv4_only pr cg
      | Some ether_off \<Rightarrow>
          (let net_off = link_net_offset (ecg_link cg);
               p = no_epatches;
               (bc_et, cg) = emit_load_half ether_off cg;
               p = p\<lparr>e_failure := e_failure p @ [bc_et]\<rparr>;
               (jmp_to_ipv4, cg) = epush (jeq_imm R4 0x0800 0) cg;
               (not_ipv6, cg) = epush (jne_imm R4 0x86dd 0) cg;
               p = p\<lparr>e_failure := e_failure p @ [not_ipv6]\<rparr>
           in rbind (emit_l4_proto_check (net_off + 6) pr p cg) (\<lambda>(p, cg).
                let cg = eput (mov64_reg R6 R2) cg;
                    cg = eput (add64_imm R6 (net_off + 40)) cg;
                    (bc_v6, cg) = push_ptr_check 4 cg;
                    p = p\<lparr>e_failure := e_failure p @ [bc_v6]\<rparr>;
                    (ja_skip_v4, cg) = epush (e_ja 0) cg;
                    ipv4_start = length (ecg_insns cg)
                in rbind (eresolve jmp_to_ipv4 ipv4_start cg) (\<lambda>cg.
                   rbind (emit_l4_proto_check (net_off + 9) pr p cg) (\<lambda>(p, cg).
                     let (bc_ihl, cg) = emit_load_byte net_off cg;
                         p = p\<lparr>e_failure := e_failure p @ [bc_ihl]\<rparr>;
                         cg = push_ihl_ptr net_off cg;
                         (bc_v4, cg) = push_ptr_check 4 cg;
                         p = p\<lparr>e_failure := e_failure p @ [bc_v4]\<rparr>;
                         port_check_start = length (ecg_insns cg)
                     in rbind (eresolve ja_skip_v4 port_check_start cg) (\<lambda>cg. Inr (p, cg)))))))"

definition eemit_port :: "u16 \<Rightarrow> dir \<Rightarrow> proto option \<Rightarrow> ecodegen \<Rightarrow> error + (epatches \<times> ecodegen)" where
  "eemit_port port d pr cg =
     rbind (eemit_port_prereqs pr cg) (\<lambda>(p, cg).
       let v = ucast port
       in case d of
            Src \<Rightarrow>
              (let cg = push_ldx_h_be R4 R6 0 cg;
                   (cmp, cg) = epush (jne_imm R4 v 0) cg
               in Inr (p\<lparr>e_failure := e_failure p @ [cmp]\<rparr>, cg))
          | Dst \<Rightarrow>
              (let cg = push_ldx_h_be R4 R6 2 cg;
                   (cmp, cg) = epush (jne_imm R4 v 0) cg
               in Inr (p\<lparr>e_failure := e_failure p @ [cmp]\<rparr>, cg))
          | SrcAndDst \<Rightarrow>
              (let cg = push_ldx_h_be R4 R6 0 cg;
                   (cmp1, cg) = epush (jne_imm R4 v 0) cg;
                   cg = push_ldx_h_be R4 R6 2 cg;
                   (cmp2, cg) = epush (jne_imm R4 v 0) cg
               in Inr (p\<lparr>e_failure := e_failure p @ [cmp1, cmp2]\<rparr>, cg))
          | SrcOrDst \<Rightarrow>
              (let cg = push_ldx_h_be R4 R6 0 cg;
                   (eq_src, cg) = epush (jeq_imm R4 v 0) cg;
                   cg = push_ldx_h_be R4 R6 2 cg;
                   (cmp_dst, cg) = epush (jne_imm R4 v 0) cg
               in Inr (\<lparr>e_success = e_success p @ [eq_src], e_failure = e_failure p @ [cmp_dst]\<rparr>, cg)))"

definition echeck_range :: "32 word \<Rightarrow> 32 word \<Rightarrow> i16 \<Rightarrow> ecodegen \<Rightarrow> nat list \<Rightarrow> nat list \<times> ecodegen" where
  "echeck_range lo hi off cg fail =
     (let cg = push_ldx_h_be R4 R6 off cg;
          (i_lo, cg) = epush (jlt_imm R4 lo 0) cg;
          fail = fail @ [i_lo];
          (i_hi, cg) = epush (jgt_imm R4 hi 0) cg
      in (fail @ [i_hi], cg))"

definition eemit_portrange ::
  "u16 \<Rightarrow> u16 \<Rightarrow> dir \<Rightarrow> proto option \<Rightarrow> ecodegen \<Rightarrow> error + (epatches \<times> ecodegen)" where
  "eemit_portrange lo hi d pr cg =
     rbind (eemit_port_prereqs pr cg) (\<lambda>(p, cg).
       edir_check (echeck_range (ucast lo) (ucast hi)) 0 2 0 2 d p cg)"

section \<open>Link layer\<close>

definition echeck_mac :: "32 word \<Rightarrow> 32 word \<Rightarrow> u32 \<Rightarrow> ecodegen \<Rightarrow> nat list \<Rightarrow> nat list \<times> ecodegen" where
  "echeck_mac word half off cg fail =
     (let (bc1, cg) = emit_load_word off cg;
          (cmp1, cg) = epush (jne_imm R4 word 0) cg;
          fail = fail @ [bc1, cmp1];
          (bc2, cg) = emit_load_half (off + 4) cg;
          (cmp2, cg) = epush (jne_imm R4 half 0) cg
      in (fail @ [bc2, cmp2], cg))"

fun eemit_ether_host :: "mac_addr \<Rightarrow> dir \<Rightarrow> ecodegen \<Rightarrow> error + (epatches \<times> ecodegen)" where
  "eemit_ether_host (MacAddr a0 a1 a2 a3 a4 a5) d cg =
     (if ecg_link cg = RawIp
      then Inl (CodegenError ''ether host cannot be used with RawIp link type'')
      else edir_check (echeck_mac (be32 a0 a1 a2 a3) (be32 0 0 a4 a5)) 6 0 0 6 d no_epatches cg)"

definition eemit_ether_multicast :: "ecodegen \<Rightarrow> error + (epatches \<times> ecodegen)" where
  "eemit_ether_multicast cg =
     (if ecg_link cg = RawIp
      then Inl (CodegenError ''ether multicast cannot be used with RawIp link type'')
      else
        (let (bc, cg) = emit_load_byte 0 cg;
             (cmp, cg) = epush (jset_imm R4 0x01 0) cg;
             (ja_fail, cg) = epush (e_ja 0) cg;
             after = length (ecg_insns cg)
         in rbind (eresolve cmp after cg) (\<lambda>cg.
              Inr (\<lparr>e_success = [], e_failure = [bc, ja_fail]\<rparr>, cg))))"

section \<open>Broadcast and multicast\<close>

definition eemit_ip_broadcast :: "ecodegen \<Rightarrow> error + (epatches \<times> ecodegen)" where
  "eemit_ip_broadcast cg =
     rbind (eip4_guard cg) (\<lambda>(p, cg).
       let (q, cg) = echeck_word (link_net_offset (ecg_link cg) + 16) 0xffffffff cg
       in Inr (p\<lparr>e_failure := e_failure p @ e_failure q\<rparr>, cg))"

definition eemit_ip_multicast :: "ecodegen \<Rightarrow> error + (epatches \<times> ecodegen)" where
  "eemit_ip_multicast cg =
     rbind (eip4_guard cg) (\<lambda>(p, cg).
       let (bc, cg) = emit_load_word (link_net_offset (ecg_link cg) + 16) cg;
           cg = eput (and32_imm R4 0xf0000000) cg;
           (cmp, cg) = epush (jne_imm R4 0xe0000000 0) cg
       in Inr (p\<lparr>e_failure := e_failure p @ [bc, cmp]\<rparr>, cg))"

definition eemit_ip6_multicast :: "ecodegen \<Rightarrow> error + (epatches \<times> ecodegen)" where
  "eemit_ip6_multicast cg =
     rbind (eemit_ethertype 0x86dd cg) (\<lambda>(p, cg).
       let (q, cg) = echeck_byte (link_net_offset (ecg_link cg) + 24) 0xff cg
       in Inr (p\<lparr>e_failure := e_failure p @ e_failure q\<rparr>, cg))"

section \<open>VLAN, MPLS, PPPoE\<close>

definition unwrap_or :: "'a \<Rightarrow> 'a option \<Rightarrow> 'a" where
  "unwrap_or d x = (case x of Some v \<Rightarrow> v | None \<Rightarrow> d)"

definition eemit_vlan :: "u16 option \<Rightarrow> ecodegen \<Rightarrow> error + (epatches \<times> ecodegen)" where
  "eemit_vlan vid cg =
     rbind (eemit_ethertype 0x8100 cg) (\<lambda>(p, cg).
       case vid of
         None \<Rightarrow> Inr (p, cg)
       | Some v \<Rightarrow>
           (let tci_off = unwrap_or 14 (link_ether_proto_offset (ecg_link cg)) + 2;
                (bc, cg) = emit_load_half tci_off cg;
                cg = eput (and32_imm R4 0x0fff) cg;
                (cmp, cg) = epush (jne_imm R4 (ucast v) 0) cg
            in Inr (p\<lparr>e_failure := e_failure p @ [bc, cmp]\<rparr>, cg)))"

definition eemit_mpls :: "u32 option \<Rightarrow> ecodegen \<Rightarrow> error + (epatches \<times> ecodegen)" where
  "eemit_mpls lbl cg =
     (case link_ether_proto_offset (ecg_link cg) of
        None \<Rightarrow> Inl (CodegenError ''mpls cannot be matched on RawIp captures'')
      | Some off \<Rightarrow>
          (let (bc, cg) = emit_load_half off cg;
               (eq_uni, cg) = epush (jeq_imm R4 0x8847 0) cg;
               (cmp_mc, cg) = epush (jne_imm R4 0x8848 0) cg;
               after_et = length (ecg_insns cg)
           in rbind (eresolve eq_uni after_et cg) (\<lambda>cg.
                let p = \<lparr>e_success = [], e_failure = [bc, cmp_mc]\<rparr>
                in case lbl of
                     None \<Rightarrow> Inr (p, cg)
                   | Some l \<Rightarrow>
                       (let lse_off = off + 2;
                            (bc2, cg) = emit_load_word lse_off cg;
                            cg = eput (rsh32_imm R4 12) cg;
                            (cmp2, cg) = epush (jne_imm R4 l 0) cg
                        in Inr (p\<lparr>e_failure := e_failure p @ [bc2, cmp2]\<rparr>, cg)))))"

definition eemit_pppoe_session :: "u16 option \<Rightarrow> ecodegen \<Rightarrow> error + (epatches \<times> ecodegen)" where
  "eemit_pppoe_session sid cg =
     rbind (eemit_ethertype 0x8864 cg) (\<lambda>(p, cg).
       case sid of
         None \<Rightarrow> Inr (p, cg)
       | Some v \<Rightarrow>
           (let sid_off = unwrap_or 12 (link_ether_proto_offset (ecg_link cg)) + 4;
                (bc, cg) = emit_load_half sid_off cg;
                (cmp, cg) = epush (jne_imm R4 (ucast v) 0) cg
            in Inr (p\<lparr>e_failure := e_failure p @ [bc, cmp]\<rparr>, cg)))"

section \<open>Lengths and byte accesses\<close>

fun eemit_cmp :: "cmp_op \<Rightarrow> u32 \<Rightarrow> ecodegen \<Rightarrow> error + (epatches \<times> ecodegen)" where
  "eemit_cmp CmpBitAnd v cg =
     (let (jset, cg) = epush (jset_imm R4 v 0) cg;
          (ja_fail, cg) = epush (e_ja 0) cg;
          after = length (ecg_insns cg)
      in rbind (eresolve jset after cg) (\<lambda>cg. Inr (\<lparr>e_success = [], e_failure = [ja_fail]\<rparr>, cg)))"
| "eemit_cmp opr v cg =
     (let (idx, cg) =
        (case opr of
           CmpEq \<Rightarrow> epush (jne_imm R4 v 0) cg
         | CmpNe \<Rightarrow> epush (jeq_imm R4 v 0) cg
         | CmpGt \<Rightarrow> epush (jle_imm R4 v 0) cg
         | CmpGe \<Rightarrow> epush (jlt_imm R4 v 0) cg
         | CmpLt \<Rightarrow> epush (jge_imm R4 v 0) cg
         | _ \<Rightarrow> epush (jgt_imm R4 v 0) cg)
      in Inr (\<lparr>e_success = [], e_failure = [idx]\<rparr>, cg))"

definition sub64_reg :: "u8 \<Rightarrow> u8 \<Rightarrow> einsn" where
  "sub64_reg d s = einsn_new (EBPF_ALU64 OR EBPF_SUB OR EBPF_X) d s 0 0"

definition eemit_len :: "cmp_op \<Rightarrow> u32 \<Rightarrow> ecodegen \<Rightarrow> error + (epatches \<times> ecodegen)" where
  "eemit_len opr value cg =
     (let cg = eput (mov64_reg R4 R3) cg;
          cg = eput (sub64_reg R4 R2) cg
      in eemit_cmp opr value cg)"

fun ebpf_alu32 :: "arith_op \<Rightarrow> u8 \<Rightarrow> 32 word \<Rightarrow> error + einsn" where
  "ebpf_alu32 OpAnd d v = Inr (and32_imm d v)"
| "ebpf_alu32 OpOr d v = Inr (or32_imm d v)"
| "ebpf_alu32 OpXor d v = Inr (xor32_imm d v)"
| "ebpf_alu32 OpAdd d v = Inr (add32_imm d v)"
| "ebpf_alu32 OpSub d v = Inr (sub32_imm d v)"
| "ebpf_alu32 OpMul d v = Inr (mul32_imm d v)"
| "ebpf_alu32 OpDiv d v =
     (if v = 0 then Inl (CodegenError ''division by zero in byte-access expression'')
      else Inr (div32_imm d v))"
| "ebpf_alu32 OpMod d v =
     Inl (CodegenError ''modulo (%) is not supported in eBPF byte-access expressions'')"
| "ebpf_alu32 OpShl d v = Inr (lsh32_imm d v)"
| "ebpf_alu32 OpShr d v = Inr (rsh32_imm d v)"

fun eemit_alu_ops :: "(arith_op \<times> u32) list \<Rightarrow> ecodegen \<Rightarrow> error + ecodegen" where
  "eemit_alu_ops [] cg = Inr cg"
| "eemit_alu_ops ((aop, v) # ops) cg =
     rbind (ebpf_alu32 aop R4 v) (\<lambda>ins. eemit_alu_ops ops (eput ins cg))"

fun emit_load_sized :: "access_size \<Rightarrow> u32 \<Rightarrow> ecodegen \<Rightarrow> nat \<times> ecodegen" where
  "emit_load_sized Byte off cg = emit_load_byte off cg"
| "emit_load_sized Half off cg = emit_load_half off cg"
| "emit_load_sized Word_Size off cg = emit_load_word off cg"

fun push_ldx_sized :: "access_size \<Rightarrow> i16 \<Rightarrow> ecodegen \<Rightarrow> ecodegen" where
  "push_ldx_sized Byte off cg = eput (ldx_b R4 R6 off) cg"
| "push_ldx_sized Half off cg = push_ldx_h_be R4 R6 off cg"
| "push_ldx_sized Word_Size off cg = push_ldx_w_be R4 R6 off cg"

fun esize_bytes :: "access_size \<Rightarrow> i32" where
  "esize_bytes Byte = 1"
| "esize_bytes Half = 2"
| "esize_bytes Word_Size = 4"

definition emit_trans_byte_access :: "byte_access \<Rightarrow> u32 \<Rightarrow> ecodegen \<Rightarrow> error + (epatches \<times> ecodegen)" where
  "emit_trans_byte_access ba value cg =
     (let net_off = link_net_offset (ecg_link cg);
          (bc_ihl, cg) = emit_load_byte net_off cg;
          cg = push_ihl_ptr net_off cg;
          end_off = ba_offset ba + esize_bytes (ba_size ba);
          (bc_trans, cg) = push_ptr_check end_off cg;
          cg = push_ldx_sized (ba_size ba) (ucast (ba_offset ba)) cg
      in rbind (eemit_alu_ops (alu_ops ba) cg) (\<lambda>cg.
         rbind (eemit_cmp (ba_op ba) value cg) (\<lambda>(p, cg).
           Inr (p\<lparr>e_failure := e_failure p @ [bc_ihl, bc_trans]\<rparr>, cg))))"

definition eemit_byte_access :: "byte_access \<Rightarrow> ecodegen \<Rightarrow> error + (epatches \<times> ecodegen)" where
  "eemit_byte_access ba cg =
     (case ba_rhs ba of
        LoadRhs _ \<Rightarrow>
          Inl (CodegenError ''expr-vs-expr byte-access comparison is not yet supported for eBPF targets'')
      | Const value \<Rightarrow>
          (let at_offset = (\<lambda>base_off.
             let off = base_off + ba_offset ba;
                 (bc, cg) = emit_load_sized (ba_size ba) off cg
             in rbind (eemit_alu_ops (alu_ops ba) cg) (\<lambda>cg.
                rbind (eemit_cmp (ba_op ba) value cg) (\<lambda>(p, cg).
                  Inr (p\<lparr>e_failure := bc # e_failure p\<rparr>, cg))))
           in case ba_layer ba of
                Raw \<Rightarrow> at_offset 0
              | Net_Layer \<Rightarrow> at_offset (link_net_offset (ecg_link cg))
              | Trans \<Rightarrow> emit_trans_byte_access ba value cg))"

section \<open>Expressions\<close>

definition edirection_error :: error where
  "edirection_error = CodegenError ''inbound/outbound direction cannot be expressed in eBPF''"

fun eemit_primitive :: "primitive \<Rightarrow> ecodegen \<Rightarrow> error + (epatches \<times> ecodegen)" where
  "eemit_primitive (Proto p) cg = eemit_proto p cg"
| "eemit_primitive (Host addr d) cg = eemit_host addr d cg"
| "eemit_primitive (Net net d) cg = eemit_net net d cg"
| "eemit_primitive (Net6 net d) cg = eemit_net6 net d cg"
| "eemit_primitive (Port port d pr) cg = eemit_port port d pr cg"
| "eemit_primitive (PortRange lo hi d pr) cg = eemit_portrange lo hi d pr cg"
| "eemit_primitive (EtherHost addr d) cg = eemit_ether_host addr d cg"
| "eemit_primitive (EtherProto et) cg = eemit_ethertype (ucast et) cg"
| "eemit_primitive EtherMulticast cg = eemit_ether_multicast cg"
| "eemit_primitive IpBroadcast cg = eemit_ip_broadcast cg"
| "eemit_primitive IpMulticast cg = eemit_ip_multicast cg"
| "eemit_primitive Ip6Multicast cg = eemit_ip6_multicast cg"
| "eemit_primitive (Vlan vid) cg = eemit_vlan vid cg"
| "eemit_primitive (Mpls lbl) cg = eemit_mpls lbl cg"
| "eemit_primitive PppoeDiscovery cg = eemit_ethertype 0x8863 cg"
| "eemit_primitive (PppoeSession sid) cg = eemit_pppoe_session sid cg"
| "eemit_primitive (IpProtoChain n) cg = eemit_ip4_l4 n cg"
| "eemit_primitive (Ip6ProtoChain n) cg = eemit_ip6_l4 n cg"
| "eemit_primitive (Len opr value) cg = eemit_len opr value cg"
| "eemit_primitive Inbound cg = Inl edirection_error"
| "eemit_primitive Outbound cg = Inl edirection_error"
| "eemit_primitive (ByteAccess ba) cg = eemit_byte_access ba cg"

datatype ework =
  EEmit expr
| EAndRight expr
| EAndDone "nat list"
| EOrRight expr
| EOrDone "nat list" nat
| ENotDone

fun ework_weight :: "ework \<Rightarrow> nat" where
  "ework_weight (EEmit e) = 4 * size e + 1"
| "ework_weight (EAndRight r) = 4 * size r + 3"
| "ework_weight (EOrRight r) = 4 * size r + 3"
| "ework_weight (EAndDone _) = 1"
| "ework_weight (EOrDone _ _) = 1"
| "ework_weight ENotDone = 1"

function eemit_loop :: "ework list \<Rightarrow> epatches list \<Rightarrow> ecodegen \<Rightarrow> error + (epatches \<times> ecodegen)" where
  "eemit_loop [] done cg =
     (case done of [] \<Rightarrow> Inl (Panic ''one result'') | ps # _ \<Rightarrow> Inr (ps, cg))"
| "eemit_loop (EEmit (Primitive p) # work) done cg =
     rbind (eemit_primitive p cg) (\<lambda>(ps, cg). eemit_loop work (ps # done) cg)"
| "eemit_loop (EEmit (And l r) # work) done cg = eemit_loop (EEmit l # EAndRight r # work) done cg"
| "eemit_loop (EEmit (Or l r) # work) done cg = eemit_loop (EEmit l # EOrRight r # work) done cg"
| "eemit_loop (EEmit (Not e) # work) done cg = eemit_loop (EEmit e # ENotDone # work) done cg"
| "eemit_loop (EAndRight r # work) done cg =
     (case done of
        [] \<Rightarrow> Inl (Panic ''AND left operand'')
      | left_p # done \<Rightarrow>
          (let right_start = length (ecg_insns cg)
           in rbind (eresolve_all (e_success left_p) right_start cg) (\<lambda>cg.
                eemit_loop (EEmit r # EAndDone (e_failure left_p) # work) done cg)))"
| "eemit_loop (EAndDone left_failure # work) done cg =
     (case done of
        [] \<Rightarrow> Inl (Panic ''AND right operand'')
      | right_p # done \<Rightarrow>
          eemit_loop work
            (\<lparr>e_success = e_success right_p, e_failure = concat_vec left_failure (e_failure right_p)\<rparr> # done) cg)"
| "eemit_loop (EOrRight r # work) done cg =
     (case done of
        [] \<Rightarrow> Inl (Panic ''OR left operand'')
      | left_p # done \<Rightarrow>
          (let (ja_idx, cg) = epush (e_ja 0) cg;
               right_start = length (ecg_insns cg)
           in rbind (eresolve_all (e_failure left_p) right_start cg) (\<lambda>cg.
                eemit_loop (EEmit r # EOrDone (e_success left_p) ja_idx # work) done cg)))"
| "eemit_loop (EOrDone left_success ja_idx # work) done cg =
     (case done of
        [] \<Rightarrow> Inl (Panic ''OR right operand'')
      | right_p # done \<Rightarrow>
          eemit_loop work
            (\<lparr>e_success = concat_vec (left_success @ [ja_idx]) (e_success right_p),
              e_failure = e_failure right_p\<rparr> # done) cg)"
| "eemit_loop (ENotDone # work) done cg =
     (case done of
        [] \<Rightarrow> Inl (Panic ''NOT operand'')
      | inner_p # done \<Rightarrow>
          (let (ja_idx, cg) = epush (e_ja 0) cg;
               not_succ_start = length (ecg_insns cg)
           in rbind (eresolve_all (e_failure inner_p) not_succ_start cg) (\<lambda>cg.
                eemit_loop work (\<lparr>e_success = [], e_failure = e_success inner_p @ [ja_idx]\<rparr> # done) cg)))"
  by pat_completeness auto
termination
  by (relation "measure (\<lambda>(work, done, cg). sum_list (map ework_weight work))") auto

declare eemit_loop.simps [simp del]

definition eemit_expr :: "expr \<Rightarrow> ecodegen \<Rightarrow> error + (epatches \<times> ecodegen)" where
  "eemit_expr e cg = eemit_loop [EEmit e] [] cg"

definition ebpf_compile :: "expr \<Rightarrow> link_type \<Rightarrow> error + eprogram" where
  "ebpf_compile e link =
     (let cg = ecodegen_new link;
          cg = emit_prologue cg
      in rbind (eemit_expr e cg) (\<lambda>(ps, cg).
           let accept_idx = length (ecg_insns cg);
               cg = eput (mov64_imm R0 XDP_PASS) cg;
               cg = eput e_exit cg;
               drop_idx = length (ecg_insns cg);
               cg = eput (mov64_imm R0 XDP_DROP) cg;
               cg = eput e_exit cg
           in rbind (eresolve_all (e_success ps) accept_idx cg) (\<lambda>cg.
              rbind (eresolve_all (e_failure ps) drop_idx cg) (\<lambda>cg.
                Inr (eprogram_new (ecg_insns cg))))))"

end
