(* ===== verification/Tap_Base.thy ===== *)
theory Tap_Base
  imports Ebpf_Interp Ebpf_Codegen "HOL-Library.Monad_Syntax"
begin

text \<open>
  The data of the crate \<^verbatim>\<open>pkttap\<close>: errors (\<^verbatim>\<open>error.rs\<close>), packets with their timestamps (\<^verbatim>\<open>packet.rs\<close>), statistics,
  timestamp modes, the configuration of the ring (\<^verbatim>\<open>ring.rs\<close>), and the operations on \<open>usize\<close> and \<open>Duration\<close> these
  files use. A \<open>usize\<close> is a natural number below \<open>2 ^ 64\<close>; unchecked operations wrap, as they do in
  a release build. \<open>drain\<close> is the loop \<^verbatim>\<open>while let Some(pkt) = cap.next()?\<close> of the crate's users, with the
  interface of a packet source it relies on.
\<close>

unbundle bit_operations_syntax

section \<open>Machine sizes\<close>

definition usize_add :: "nat \<Rightarrow> nat \<Rightarrow> nat" where
  "usize_add a b = (a + b) mod 2 ^ 64"

definition usize_sub :: "nat \<Rightarrow> nat \<Rightarrow> nat" where
  "usize_sub a b = (a + 2 ^ 64 - b) mod 2 ^ 64"

definition usize_mul :: "nat \<Rightarrow> nat \<Rightarrow> nat" where
  "usize_mul a b = (a * b) mod 2 ^ 64"

definition checked_add :: "nat \<Rightarrow> nat \<Rightarrow> nat option" where
  "checked_add a b = (if a + b < 2 ^ 64 then Some (a + b) else None)"

definition checked_mul :: "nat \<Rightarrow> nat \<Rightarrow> nat option" where
  "checked_mul a b = (if a * b < 2 ^ 64 then Some (a * b) else None)"

definition saturating_add :: "nat \<Rightarrow> nat \<Rightarrow> nat" where
  "saturating_add a b = min (a + b) (2 ^ 64 - 1)"

definition usize_and :: "nat \<Rightarrow> nat \<Rightarrow> nat" where
  "usize_and a b = unat ((of_nat a :: u64) AND of_nat b)"

definition usize_not :: "nat \<Rightarrow> nat" where
  "usize_not a = unat (NOT (of_nat a :: u64))"

lemma usize_add_small [simp]: "a + b < 2 ^ 64 \<Longrightarrow> usize_add a b = a + b"
  by (simp add: usize_add_def)

lemma usize_mul_small [simp]: "a * b < 2 ^ 64 \<Longrightarrow> usize_mul a b = a * b"
  by (simp add: usize_mul_def)

lemma usize_sub_small [simp]: "b \<le> a \<Longrightarrow> a < 2 ^ 64 \<Longrightarrow> usize_sub a b = a - b"
  by (simp add: usize_sub_def mod_if)

lemma checked_add_Some: "checked_add a b = Some c \<longleftrightarrow> c = a + b \<and> a + b < 2 ^ 64"
  by (auto simp: checked_add_def)

lemma checked_mul_Some: "checked_mul a b = Some c \<longleftrightarrow> c = a * b \<and> a * b < 2 ^ 64"
  by (auto simp: checked_mul_def)

lemma and_not_mask: "(x :: u64) AND NOT (mask k) = push_bit k (drop_bit k x)"
  by (rule bit_word_eqI) (auto simp: bit_simps)

lemma unat_push_drop: "unat (push_bit k (drop_bit k (x :: u64))) = unat x - unat x mod 2 ^ k"
proof -
  have l: "unat x < 2 ^ 64" using unsigned_less [of x] by simp
  then have "unat (push_bit k (drop_bit k x)) = take_bit 64 (push_bit k (drop_bit k (unat x)))"
    by (simp add: unsigned_push_bit_eq unsigned_drop_bit_eq take_bit_nat_eq_self)
  also have "\<dots> = take_bit 64 (unat x - unat x mod 2 ^ k)"
    by (simp add: push_bit_eq_mult drop_bit_eq_div minus_mod_eq_mult_div mult.commute)
  finally show ?thesis using l by (simp add: take_bit_nat_eq_self)
qed

text \<open>Clearing the low bits with \<open>& !(2 ^ k - 1)\<close> rounds down.\<close>

lemma usize_align:
  assumes "a < 2 ^ 64" and "(of_nat m :: u64) = mask k"
  shows "usize_and a (usize_not m) = a - a mod 2 ^ k"
proof -
  have "unat (of_nat a :: u64) = a" using assms(1) by (simp add: unat_of_nat take_bit_nat_eq_self)
  moreover have "usize_and a (usize_not m) = unat ((of_nat a :: u64) AND NOT (mask k))"
    by (simp only: usize_and_def usize_not_def assms(2) of_nat_unat ucast_id)
  ultimately show ?thesis by (simp only: and_not_mask unat_push_drop)
qed

lemma usize_align_16: "a < 2 ^ 64 \<Longrightarrow> usize_and a (usize_not 15) = a - a mod 16"
  using usize_align [of a 15 4] by (simp add: mask_eq_exp_minus_1)

lemma usize_align_4: "a < 2 ^ 64 \<Longrightarrow> usize_and a (usize_not 3) = a - a mod 4"
  using usize_align [of a 3 2] by (simp add: mask_eq_exp_minus_1)

section \<open>Structures in memory\<close>

text \<open>A field of a structure in memory, in the byte order of the machine.\<close>

definition field_u64 :: "endian \<Rightarrow> u8 list \<Rightarrow> nat \<Rightarrow> u64" where
  "field_u64 host bytes off = endian_read host (take 8 (drop off bytes))"

definition field_u32 :: "endian \<Rightarrow> u8 list \<Rightarrow> nat \<Rightarrow> u32" where
  "field_u32 host bytes off = ucast (endian_read host (take 4 (drop off bytes)))"

definition field_u16 :: "endian \<Rightarrow> u8 list \<Rightarrow> nat \<Rightarrow> u16" where
  "field_u16 host bytes off = ucast (endian_read host (take 2 (drop off bytes)))"

section \<open>Errors\<close>

text \<open>The kinds of \<open>std::io::Error\<close> the crate distinguishes; the others carry their system code.\<close>

datatype io_error = Interrupted | WouldBlockKind | PermissionDeniedKind | OtherIo nat

text \<open>
  \<open>pkttap::Error\<close>. The errors of the \<^verbatim>\<open>pcap-file\<close> crate are a type parameter. \<open>TapPanic\<close> is a value of the model only.
\<close>

datatype 'p tap_error =
  Io io_error
| Filter error
| Pcap 'p
| Platform string
| PermissionDenied
| WouldBlock
| TapPanic string

fun from_io :: "io_error \<Rightarrow> 'p tap_error" where
  "from_io PermissionDeniedKind = PermissionDenied"
| "from_io e = Io e"

section \<open>Time\<close>

record duration =
  dur_secs :: u64
  dur_nanos :: u32

definition NANOS_PER_SEC :: nat where "NANOS_PER_SEC = 1000000000"

definition duration_new :: "u64 \<Rightarrow> u32 \<Rightarrow> 'p tap_error + duration" where
  "duration_new s n =
     (if unat n < NANOS_PER_SEC then Inr \<lparr>dur_secs = s, dur_nanos = n\<rparr>
      else if unat s + unat n div NANOS_PER_SEC < 2 ^ 64
      then Inr \<lparr>dur_secs = s + of_nat (unat n div NANOS_PER_SEC), dur_nanos = of_nat (unat n mod NANOS_PER_SEC)\<rparr>
      else Inl (TapPanic ''overflow in Duration::new''))"

definition duration_default :: duration where
  "duration_default = \<lparr>dur_secs = 0, dur_nanos = 0\<rparr>"

text \<open>\<open>SystemTime\<close> on Unix: signed seconds since the epoch and nanoseconds.\<close>

record system_time =
  st_secs :: int
  st_nanos :: u32

definition epoch_plus :: "duration \<Rightarrow> 'p tap_error + system_time" where
  "epoch_plus d =
     (if unat (dur_secs d) < 2 ^ 63 then Inr \<lparr>st_secs = uint (dur_secs d), st_nanos = dur_nanos d\<rparr>
      else Inl (TapPanic ''overflow when adding duration to instant''))"

definition duration_since_epoch :: "system_time \<Rightarrow> duration option" where
  "duration_since_epoch t =
     (if 0 \<le> st_secs t then Some \<lparr>dur_secs = word_of_int (st_secs t), dur_nanos = st_nanos t\<rparr> else None)"

section \<open>Packets\<close>

record packet_ref =
  pr_data :: "u8 list"
  pr_timestamp :: system_time
  pr_orig_len :: u32
  pr_link_type :: link_type

definition packet_ref_new :: "u8 list \<Rightarrow> u64 \<Rightarrow> u32 \<Rightarrow> u32 \<Rightarrow> link_type \<Rightarrow> 'p tap_error + packet_ref" where
  "packet_ref_new dat ts_sec ts_nsec orig_len lt =
     rbind (duration_new ts_sec ts_nsec) (\<lambda>d. rbind (epoch_plus d) (\<lambda>t.
       Inr \<lparr>pr_data = dat, pr_timestamp = t, pr_orig_len = orig_len, pr_link_type = lt\<rparr>))"

definition is_truncated :: "packet_ref \<Rightarrow> bool" where
  "is_truncated p \<longleftrightarrow> length (pr_data p) < unat (pr_orig_len p)"

record owned_packet =
  pk_data :: "u8 list"
  pk_timestamp :: system_time
  pk_orig_len :: u32
  pk_link_type :: link_type

definition to_owned :: "packet_ref \<Rightarrow> owned_packet" where
  "to_owned p = \<lparr>pk_data = pr_data p, pk_timestamp = pr_timestamp p, pk_orig_len = pr_orig_len p,
     pk_link_type = pr_link_type p\<rparr>"

definition packet_new :: "u8 list \<Rightarrow> system_time \<Rightarrow> u32 \<Rightarrow> link_type \<Rightarrow> owned_packet" where
  "packet_new dat t orig_len lt = \<lparr>pk_data = dat, pk_timestamp = t, pk_orig_len = orig_len, pk_link_type = lt\<rparr>"

definition packet_as_ref :: "owned_packet \<Rightarrow> packet_ref" where
  "packet_as_ref p = \<lparr>pr_data = pk_data p, pr_timestamp = pk_timestamp p, pr_orig_len = pk_orig_len p,
     pr_link_type = pk_link_type p\<rparr>"

definition into_data :: "owned_packet \<Rightarrow> u8 list" where
  "into_data p = pk_data p"

lemma as_ref_to_owned [simp]: "packet_as_ref (to_owned p) = p"
  by (simp add: packet_as_ref_def to_owned_def)

section \<open>Statistics and modes\<close>

record capture_stats =
  cs_received :: u64
  cs_dropped :: u64
  cs_if_dropped :: u64

definition capture_stats_default :: capture_stats where
  "capture_stats_default = \<lparr>cs_received = 0, cs_dropped = 0, cs_if_dropped = 0\<rparr>"

datatype timestamp_mode = Software | Hardware

section \<open>Ring configuration\<close>

record ring_config =
  rc_block_size :: nat
  rc_block_count :: nat
  rc_retire_timeout :: duration

definition DEFAULT_BLOCK_SIZE :: nat where "DEFAULT_BLOCK_SIZE = 256 * 1024"
definition DEFAULT_BLOCK_COUNT :: nat where "DEFAULT_BLOCK_COUNT = 16"
definition DEFAULT_RETIRE_TIMEOUT :: duration where
  "DEFAULT_RETIRE_TIMEOUT = \<lparr>dur_secs = 0, dur_nanos = 100000000\<rparr>"

definition ring_config_new :: ring_config where
  "ring_config_new = \<lparr>rc_block_size = DEFAULT_BLOCK_SIZE, rc_block_count = DEFAULT_BLOCK_COUNT,
     rc_retire_timeout = DEFAULT_RETIRE_TIMEOUT\<rparr>"

definition with_block_size :: "nat \<Rightarrow> ring_config \<Rightarrow> ring_config" where
  "with_block_size bytes c = c\<lparr>rc_block_size := bytes\<rparr>"

definition with_block_count :: "nat \<Rightarrow> ring_config \<Rightarrow> ring_config" where
  "with_block_count n c = c\<lparr>rc_block_count := n\<rparr>"

definition with_retire_timeout :: "duration \<Rightarrow> ring_config \<Rightarrow> ring_config" where
  "with_retire_timeout d c = c\<lparr>rc_retire_timeout := d\<rparr>"

section \<open>Packet sources\<close>

text \<open>
  The loop \<^verbatim>\<open>while let Some(pkt) = cap.next()?\<close> of a user of the crate: the packets it sees, or the error that ends it.
\<close>

partial_function (option) drain :: "('s \<Rightarrow> (('e + 'p option) \<times> 's) option) \<Rightarrow> 's \<Rightarrow> (('e + 'p list) \<times> 's) option" where
  "drain nxt s =
     Option.bind (nxt s) (\<lambda>(res, s').
       case res of
         Inl e \<Rightarrow> Some (Inl e, s')
       | Inr None \<Rightarrow> Some (Inr [], s')
       | Inr (Some p) \<Rightarrow> Option.bind (drain nxt s') (\<lambda>(res', s''). Some (rbind res' (\<lambda>ps. Inr (p # ps)), s'')))"

text \<open>
  What a source promises: in a state that holds \<open>ps\<close>, the next call returns the first of them and leaves a state that holds
  the others, or returns \<open>None\<close> when there is none.
\<close>

locale packet_source =
  fixes nxt :: "'s \<Rightarrow> (('e + 'p option) \<times> 's) option"
    and holds :: "'s \<Rightarrow> 'p list \<Rightarrow> bool"
  assumes next_none: "holds s [] \<Longrightarrow> \<exists>s'. nxt s = Some (Inr None, s')"
    and next_some: "holds s (p # ps) \<Longrightarrow> \<exists>s'. nxt s = Some (Inr (Some p), s') \<and> holds s' ps"
begin

lemma drain_all: "holds s ps \<Longrightarrow> \<exists>s'. drain nxt s = Some (Inr ps, s')"
proof (induction ps arbitrary: s)
  case Nil
  then obtain s' where "nxt s = Some (Inr None, s')" using next_none by blast
  then show ?case by (simp add: drain.simps [of nxt s])
next
  case (Cons p ps)
  obtain s1 where s1: "nxt s = Some (Inr (Some p), s1)" "holds s1 ps" using next_some [OF Cons.prems] by blast
  then show ?case using Cons.IH [OF s1(2)] by (auto simp: drain.simps [of nxt s])
qed

end

end
