(* ===== verification/Tap_Ring.thy ===== *)
theory Tap_Ring
  imports Tap_Base
begin

text \<open>
  \<^verbatim>\<open>pkttap/src/live/linux_ring.rs\<close>: the \<^verbatim>\<open>TPACKET_V3\<close> ring shared with the kernel. The mapping is a list of bytes, its
  structures are read from the bytes in the byte order of the machine, and the ring reads and writes nothing
  else. What the system calls answer is an argument of the operations that make them; the kernel, which
  writes to the mapping at any moment, is the step relation of \<^verbatim>\<open>Tap_Ring_Correct\<close>.
\<close>

section \<open>Kernel ABI\<close>

definition PACKET_RX_RING :: nat where "PACKET_RX_RING = 5"
definition TPACKET_V3 :: nat where "TPACKET_V3 = 2"
definition TP_STATUS_USER :: u32 where "TP_STATUS_USER = 1"
definition TP_STATUS_KERNEL :: u32 where "TP_STATUS_KERNEL = 0"
definition TPACKET_ALIGNMENT :: nat where "TPACKET_ALIGNMENT = 16"

definition tpacket_align :: "nat \<Rightarrow> nat" where
  "tpacket_align n =
     usize_and (usize_sub (usize_add n TPACKET_ALIGNMENT) 1) (usize_not (usize_sub TPACKET_ALIGNMENT 1))"

record tpacket_req3 =
  tp_block_size :: u32
  tp_block_nr :: u32
  tp_frame_size :: u32
  tp_frame_nr :: u32
  tp_retire_blk_tov :: u32
  tp_sizeof_priv :: u32
  tp_feature_req_word :: u32

record tpacket_bd_ts =
  bd_sec :: u32
  bd_frac :: u32

record tpacket_hdr_v1 =
  h1_block_status :: u32
  h1_num_pkts :: u32
  h1_offset_to_first_pkt :: u32
  h1_blk_len :: u32
  h1_seq_num :: u64
  h1_ts_first_pkt :: tpacket_bd_ts
  h1_ts_last_pkt :: tpacket_bd_ts

record tpacket_block_desc =
  bd_version :: u32
  bd_offset_to_priv :: u32
  bd_hdr :: tpacket_hdr_v1

definition BLOCK_STATUS_OFFSET :: nat where "BLOCK_STATUS_OFFSET = 8"

record tpacket3_hdr =
  tp_next_offset :: u32
  tp_sec :: u32
  tp_nsec :: u32
  tp_snaplen :: u32
  tp_len :: u32
  tp_status :: u32
  tp_mac :: u16
  tp_net :: u16

text \<open>The sizes of the two structures and of \<open>sockaddr_ll\<close>.\<close>

definition BLOCK_DESC_SIZE :: nat where "BLOCK_DESC_SIZE = 48"
definition TPACKET3_HDR_SIZE :: nat where "TPACKET3_HDR_SIZE = 48"
definition SOCKADDR_LL_SIZE :: nat where "SOCKADDR_LL_SIZE = 20"

definition tpacket3_hdrlen :: nat where
  "tpacket3_hdrlen = usize_add (tpacket_align TPACKET3_HDR_SIZE) SOCKADDR_LL_SIZE"

definition read_bd_ts :: "endian \<Rightarrow> u8 list \<Rightarrow> nat \<Rightarrow> tpacket_bd_ts" where
  "read_bd_ts host b off = \<lparr>bd_sec = field_u32 host b off, bd_frac = field_u32 host b (off + 4)\<rparr>"

definition read_block_desc :: "endian \<Rightarrow> u8 list \<Rightarrow> tpacket_block_desc" where
  "read_block_desc host b =
     \<lparr>bd_version = field_u32 host b 0, bd_offset_to_priv = field_u32 host b 4,
      bd_hdr = \<lparr>h1_block_status = field_u32 host b BLOCK_STATUS_OFFSET, h1_num_pkts = field_u32 host b 12,
        h1_offset_to_first_pkt = field_u32 host b 16, h1_blk_len = field_u32 host b 20,
        h1_seq_num = field_u64 host b 24, h1_ts_first_pkt = read_bd_ts host b 32,
        h1_ts_last_pkt = read_bd_ts host b 40\<rparr>\<rparr>"

definition read_tpacket3_hdr :: "endian \<Rightarrow> u8 list \<Rightarrow> nat \<Rightarrow> tpacket3_hdr" where
  "read_tpacket3_hdr host b off =
     \<lparr>tp_next_offset = field_u32 host b off, tp_sec = field_u32 host b (off + 4), tp_nsec = field_u32 host b (off + 8),
      tp_snaplen = field_u32 host b (off + 12), tp_len = field_u32 host b (off + 16),
      tp_status = field_u32 host b (off + 20), tp_mac = field_u16 host b (off + 24), tp_net = field_u16 host b (off + 26)\<rparr>"

section \<open>Ring geometry\<close>

record geometry =
  g_block_size :: nat
  g_block_count :: nat
  g_frame_size :: nat
  g_frame_count :: nat
  g_map_len :: nat

definition MIN_FRAME_SIZE :: nat where "MIN_FRAME_SIZE = 2048"

definition round_up :: "nat \<Rightarrow> nat \<Rightarrow> nat" where
  "round_up n multiple = usize_mul ((n + (multiple - 1)) div multiple) multiple"

definition ok_or_else :: "'a option \<Rightarrow> 'e \<Rightarrow> 'e + 'a" where
  "ok_or_else x e = (case x of Some v \<Rightarrow> Inr v | None \<Rightarrow> Inl e)"

definition ring_geometry :: "ring_config \<Rightarrow> nat \<Rightarrow> nat \<Rightarrow> 'p tap_error + geometry" where
  "ring_geometry cfg snaplen page_size =
     (if rc_block_count cfg = 0 then Inl (Platform ''ring block_count must be at least 1'')
      else if rc_block_size cfg = 0 then Inl (Platform ''ring block_size must be non-zero'')
      else
        let frame_size = max (tpacket_align (saturating_add snaplen tpacket3_hdrlen)) MIN_FRAME_SIZE;
            block_size = round_up (max (rc_block_size cfg) frame_size) page_size;
            frames_per_block = block_size div frame_size
        in rbind (ok_or_else (checked_mul frames_per_block (rc_block_count cfg))
                    (Platform ''ring frame count overflows'')) (\<lambda>frame_count.
           rbind (ok_or_else (checked_mul block_size (rc_block_count cfg))
                    (Platform ''ring size overflows'')) (\<lambda>map_len.
             if 2 ^ 32 \<le> block_size \<or> 2 ^ 32 \<le> rc_block_count cfg \<or> 2 ^ 32 \<le> frame_count
             then Inl (Platform (''ring geometry too large: '' @ show_nat (rc_block_count cfg) @ '' blocks of '' @
                    show_nat block_size @ '' bytes''))
             else Inr \<lparr>g_block_size = block_size, g_block_count = rc_block_count cfg, g_frame_size = frame_size,
                    g_frame_count = frame_count, g_map_len = map_len\<rparr>)))"

definition page_size :: "int \<Rightarrow> nat" where
  "page_size sysconf = (if 0 < sysconf then nat sysconf else 4096)"

definition as_millis :: "duration \<Rightarrow> nat" where
  "as_millis d = unat (dur_secs d) * 1000 + unat (dur_nanos d) div 1000000"

definition retire_tov_ms :: "ring_config \<Rightarrow> u32" where
  "retire_tov_ms cfg =
     (let ms = as_millis (rc_retire_timeout cfg)
      in if ms = 0 then (if rc_retire_timeout cfg = duration_default then 0 else 1)
         else of_nat (min ms (2 ^ 32 - 1)))"

section \<open>Walking the frames of a block\<close>

record frame_meta =
  fm_offset :: nat
  fm_len :: nat
  fm_ts_sec :: u64
  fm_ts_nsec :: u32
  fm_orig_len :: u32

definition parse_block_desc :: "endian \<Rightarrow> u8 list \<Rightarrow> tpacket_block_desc option" where
  "parse_block_desc host block =
     (if length block < BLOCK_DESC_SIZE then None else Some (read_block_desc host block))"

definition parse_frame :: "endian \<Rightarrow> u8 list \<Rightarrow> nat \<Rightarrow> nat \<Rightarrow> (frame_meta \<times> nat option) option" where
  "parse_frame host block offset snaplen =
     Option.bind (checked_add offset TPACKET3_HDR_SIZE) (\<lambda>hdr_end.
       if length block < hdr_end then None
       else
         let hdr = read_tpacket3_hdr host block offset
         in Option.bind (checked_add offset (unat (tp_mac hdr))) (\<lambda>data_start.
              let stored = unat (tp_snaplen hdr)
              in Option.bind (checked_add data_start stored) (\<lambda>data_end.
                   if length block < data_end then None
                   else Option.bind
                     (if tp_next_offset hdr = 0 then Some None
                      else map_option Some (checked_add offset (unat (tp_next_offset hdr)))) (\<lambda>nxt.
                     Some (\<lparr>fm_offset = data_start, fm_len = min stored snaplen, fm_ts_sec = ucast (tp_sec hdr),
                            fm_ts_nsec = tp_nsec hdr, fm_orig_len = tp_len hdr\<rparr>, nxt)))))"

section \<open>The ring\<close>

record walk =
  wk_offset :: nat
  wk_remaining :: u32

record ring =
  rg_map :: "u8 list"
  rg_map_len :: nat
  rg_geom :: geometry
  rg_cur_block :: nat
  rg_walk :: "walk option"
  rg_snaplen :: nat
  rg_nonblocking :: bool

text \<open>
  \<open>Ring::open\<close>. The answers of the system are arguments: of \<open>setsockopt\<close> for the version and for the ring,
  of \<open>sysconf\<close> and \<open>mmap\<close>, and the text of an I/O error.
\<close>

definition ring_open ::
  "(io_error \<Rightarrow> string) \<Rightarrow> io_error option \<Rightarrow> int \<Rightarrow> (tpacket_req3 \<Rightarrow> io_error option) \<Rightarrow>
   (nat \<Rightarrow> io_error + u8 list) \<Rightarrow> ring_config \<Rightarrow> nat \<Rightarrow> 'p tap_error + ring" where
  "ring_open show_io set_version sysconf set_ring mmap cfg snaplen =
     (case set_version of
        Some e \<Rightarrow> Inl (Platform
          (''TPACKET_V3 ring capture is unavailable on this kernel (requires Linux 3.2+): '' @ show_io e))
      | None \<Rightarrow>
          rbind (ring_geometry cfg snaplen (page_size sysconf)) (\<lambda>geom.
            let req = \<lparr>tp_block_size = of_nat (g_block_size geom), tp_block_nr = of_nat (g_block_count geom),
                       tp_frame_size = of_nat (g_frame_size geom), tp_frame_nr = of_nat (g_frame_count geom),
                       tp_retire_blk_tov = retire_tov_ms cfg, tp_sizeof_priv = 0, tp_feature_req_word = 0\<rparr>
            in case set_ring req of
                 Some e \<Rightarrow> Inl (Platform (''failed to allocate a '' @ show_nat (g_block_count geom) @
                   [CHR 0xC3, CHR 0x97] @ show_nat (g_block_size geom) @ '' byte TPACKET_V3 ring: '' @ show_io e))
               | None \<Rightarrow>
                   (case mmap (g_map_len geom) of
                      Inl e \<Rightarrow> Inl (from_io e)
                    | Inr bytes \<Rightarrow> Inr \<lparr>rg_map = bytes, rg_map_len = g_map_len geom, rg_geom = geom, rg_cur_block = 0,
                        rg_walk = None, rg_snaplen = snaplen, rg_nonblocking = False\<rparr>)))"

definition set_nonblocking :: "bool \<Rightarrow> ring \<Rightarrow> ring" where
  "set_nonblocking nb r = r\<lparr>rg_nonblocking := nb\<rparr>"

definition block_start :: "ring \<Rightarrow> nat \<Rightarrow> nat" where
  "block_start r i = usize_mul i (g_block_size (rg_geom r))"

definition ring_block :: "ring \<Rightarrow> nat \<Rightarrow> u8 list" where
  "ring_block r i = take (g_block_size (rg_geom r)) (drop (block_start r i) (rg_map r))"

definition status_word :: "ring \<Rightarrow> nat \<Rightarrow> nat" where
  "status_word r i = usize_add (block_start r i) BLOCK_STATUS_OFFSET"

definition block_status :: "endian \<Rightarrow> ring \<Rightarrow> nat \<Rightarrow> u32" where
  "block_status host r i = field_u32 host (rg_map r) (status_word r i)"

text \<open>Writing bytes to a place of the mapping.\<close>

definition store_bytes :: "u8 list \<Rightarrow> nat \<Rightarrow> u8 list \<Rightarrow> u8 list" where
  "store_bytes bytes at new = take at bytes @ new @ drop (at + length new) bytes"

definition release_block :: "endian \<Rightarrow> ring \<Rightarrow> ring" where
  "release_block host r =
     r\<lparr>rg_map := store_bytes (rg_map r) (status_word r (rg_cur_block r)) (host_bytes host TP_STATUS_KERNEL),
       rg_cur_block := usize_add (rg_cur_block r) 1 mod g_block_count (rg_geom r), rg_walk := None\<rparr>"

text \<open>One turn of the loop of \<open>next_frame\<close>: it goes on, waits for the kernel, or returns.\<close>

datatype turn_result = Continue | Wait | Return "frame_meta option"

definition take_block :: "endian \<Rightarrow> ring \<Rightarrow> ring" where
  "take_block host r =
     (let (offset, remaining) =
        (case parse_block_desc host (ring_block r (rg_cur_block r)) of
           Some desc \<Rightarrow> (unat (h1_offset_to_first_pkt (bd_hdr desc)), h1_num_pkts (bd_hdr desc))
         | None \<Rightarrow> (0, 0))
      in r\<lparr>rg_walk := Some \<lparr>wk_offset = offset, wk_remaining = remaining\<rparr>\<rparr>)"

definition next_walk :: "nat option \<Rightarrow> u32 \<Rightarrow> walk" where
  "next_walk nxt remaining =
     (case nxt of
        Some offset \<Rightarrow>
          if 1 < remaining then \<lparr>wk_offset = offset, wk_remaining = remaining - 1\<rparr>
          else \<lparr>wk_offset = 0, wk_remaining = 0\<rparr>
      | None \<Rightarrow> \<lparr>wk_offset = 0, wk_remaining = 0\<rparr>)"

definition ring_turn :: "endian \<Rightarrow> ring \<Rightarrow> turn_result \<times> ring" where
  "ring_turn host r =
     (case rg_walk r of
        None \<Rightarrow>
          if block_status host r (rg_cur_block r) AND TP_STATUS_USER = 0
          then (if rg_nonblocking r then (Return None, r) else (Wait, r))
          else (Continue, take_block host r)
      | Some walk \<Rightarrow>
          if wk_remaining walk = 0 then (Continue, release_block host r)
          else
            (case parse_frame host (ring_block r (rg_cur_block r)) (wk_offset walk) (rg_snaplen r) of
               None \<Rightarrow> (Continue, release_block host r)
             | Some (meta, nxt) \<Rightarrow>
                 (Return (Some (meta\<lparr>fm_offset := usize_add (block_start r (rg_cur_block r)) (fm_offset meta)\<rparr>)),
                  r\<lparr>rg_walk := Some (next_walk nxt (wk_remaining walk))\<rparr>)))"

text \<open>
  \<open>wait\<close>: what \<open>poll\<close> answers is an argument. \<open>Interrupted\<close> is not an error.
\<close>

fun ring_wait :: "io_error option \<Rightarrow> 'p tap_error option" where
  "ring_wait None = None"
| "ring_wait (Some Interrupted) = None"
| "ring_wait (Some e) = Some (from_io e)"

text \<open>
  The loop of \<open>next_frame\<close>. \<open>poll k bytes\<close> is the answer of the system call and the mapping as the kernel has left it
  when the call returns, \<open>k\<close> what it depends on.
\<close>

partial_function (option) next_frame ::
  "('k \<Rightarrow> u8 list \<Rightarrow> io_error option \<times> u8 list \<times> 'k) \<Rightarrow> endian \<Rightarrow> 'k \<Rightarrow> ring \<Rightarrow>
   (('p tap_error + frame_meta option) \<times> 'k \<times> ring) option" where
  "next_frame poll host k r =
     (case ring_turn host r of
        (Return m, r') \<Rightarrow> Some (Inr m, k, r')
      | (Continue, r') \<Rightarrow> next_frame poll host k r'
      | (Wait, r') \<Rightarrow>
          (case poll k (rg_map r') of
             (ans, bytes, k') \<Rightarrow>
               (case ring_wait ans of
                  Some e \<Rightarrow> Some (Inl e, k', r'\<lparr>rg_map := bytes\<rparr>)
                | None \<Rightarrow> next_frame poll host k' (r'\<lparr>rg_map := bytes\<rparr>))))"

text \<open>\<open>Ring::next_packet\<close>: the bytes of the frame, borrowed from the mapping.\<close>

definition frame_bytes :: "ring \<Rightarrow> frame_meta \<Rightarrow> u8 list" where
  "frame_bytes r m = take (fm_len m) (drop (fm_offset m) (rg_map r))"

definition ring_next_packet ::
  "('k \<Rightarrow> u8 list \<Rightarrow> io_error option \<times> u8 list \<times> 'k) \<Rightarrow> endian \<Rightarrow> link_type \<Rightarrow> 'k \<Rightarrow> ring \<Rightarrow>
   (('p tap_error + packet_ref option) \<times> 'k \<times> ring) option" where
  "ring_next_packet poll host lt k r =
     map_option (\<lambda>(res, k', r').
       (rbind res (\<lambda>m. case m of
            None \<Rightarrow> Inr None
          | Some meta \<Rightarrow> rbind (packet_ref_new (frame_bytes r' meta) (fm_ts_sec meta) (fm_ts_nsec meta)
                           (fm_orig_len meta) lt) (\<lambda>p. Inr (Some p))), k', r'))
       (next_frame poll host k r)"

end
