(* ===== verification/Tap_Ring_Correct.thy ===== *)
theory Tap_Ring_Correct
  imports Tap_Ring
begin

text \<open>
  The ring of \<^verbatim>\<open>linux_ring.rs\<close> beside a kernel that writes to the blocks it owns at any moment. The abstract ring is
  a queue of frames, \<open>pending\<close>: what is left of the block in hand and the frames of the blocks
  the kernel has handed over, in the order of the ring. Every turn of the loop takes the head of the queue or keeps it,
  and the kernel appends to it.
\<close>

section \<open>Geometry\<close>

lemma tpacket_align_eq: "n + 16 < 2 ^ 64 \<Longrightarrow> tpacket_align n = 16 * ((n + 15) div 16)"
  by (simp add: tpacket_align_def TPACKET_ALIGNMENT_def usize_align_16 minus_mod_eq_mult_div)

lemma tpacket3_hdrlen_eq: "tpacket3_hdrlen = 68"
  by (simp add: tpacket3_hdrlen_def tpacket_align_eq TPACKET3_HDR_SIZE_def SOCKADDR_LL_SIZE_def)

lemma round_up_props:
  assumes "0 < m" "n + m \<le> 2 ^ 64" "m < 2 ^ 63"
  shows "m dvd round_up n m" "n \<le> round_up n m" "round_up n m < n + m"
proof -
  have b: "(n + (m - 1)) div m * m \<le> n + (m - 1)" "n \<le> (n + (m - 1)) div m * m"
    using div_mult_mod_eq [of "n + (m - 1)" m] mod_less_divisor [OF assms(1), of "n + (m - 1)"] by linarith+
  then have "(n + (m - 1)) div m * m < 2 ^ 64" using assms by linarith
  then have e: "round_up n m = (n + (m - 1)) div m * m" by (simp only: round_up_def usize_mul_small)
  have "(n + (m - 1)) div m * m < n + m" using b(1) assms(1) by linarith
  then show "m dvd round_up n m" "n \<le> round_up n m" "round_up n m < n + m" using b(2) by (simp_all only: e dvd_triv_right)
qed


lemma ring_geometry_Inr:
  assumes "ring_geometry cfg snap page = Inr g"
    and "F = max (tpacket_align (saturating_add snap tpacket3_hdrlen)) MIN_FRAME_SIZE"
    and "B = round_up (max (rc_block_size cfg) F) page"
  shows "g = \<lparr>g_block_size = B, g_block_count = rc_block_count cfg, g_frame_size = F,
      g_frame_count = B div F * rc_block_count cfg, g_map_len = B * rc_block_count cfg\<rparr>"
    and "0 < rc_block_count cfg" "B < 2 ^ 32" "rc_block_count cfg < 2 ^ 32" "B div F * rc_block_count cfg < 2 ^ 32"
  using assms(1) unfolding ring_geometry_def Let_def assms(2,3) [symmetric]
  by (auto simp: rbind_eq_Inr ok_or_else_def checked_mul_Some not_le split: if_splits option.splits)

lemma ring_geometry_counts:
  assumes "ring_geometry cfg snap page = Inr g"
  shows "g_frame_count g = g_block_size g div g_frame_size g * g_block_count g"
    "g_map_len g = g_block_size g * g_block_count g" "g_block_count g = rc_block_count cfg" "0 < g_block_count g"
    "g_block_size g < 2 ^ 32" "g_block_count g < 2 ^ 32" "g_frame_count g < 2 ^ 32"
proof -
  define F where "F = max (tpacket_align (saturating_add snap tpacket3_hdrlen)) MIN_FRAME_SIZE"
  define B where "B = round_up (max (rc_block_size cfg) F) page"
  show "g_frame_count g = g_block_size g div g_frame_size g * g_block_count g"
    "g_map_len g = g_block_size g * g_block_count g" "g_block_count g = rc_block_count cfg" "0 < g_block_count g"
    "g_block_size g < 2 ^ 32" "g_block_count g < 2 ^ 32" "g_frame_count g < 2 ^ 32"
    using ring_geometry_Inr [OF assms F_def B_def] by simp_all
qed

lemma frame_size_props:
  assumes "snap < 2 ^ 32" "F = max (tpacket_align (saturating_add snap tpacket3_hdrlen)) MIN_FRAME_SIZE"
  shows "snap + 68 \<le> F" "16 dvd F" "F < 2 ^ 33" "2048 \<le> F"
proof -
  have "saturating_add snap tpacket3_hdrlen = snap + 68" using assms(1) by (simp add: saturating_add_def tpacket3_hdrlen_eq)
  then have "tpacket_align (saturating_add snap tpacket3_hdrlen) = 16 * ((snap + 68 + 15) div 16)"
    using assms(1) tpacket_align_eq [of "snap + 68"] by simp
  moreover have "snap + 68 \<le> 16 * ((snap + 68 + 15) div 16)" "16 * ((snap + 68 + 15) div 16) \<le> snap + 83"
    by linarith+
  ultimately show "snap + 68 \<le> F" "16 dvd F" "F < 2 ^ 33" "2048 \<le> F"
    using assms by (auto simp: MIN_FRAME_SIZE_def max_def)
qed

lemma ring_geometry_dims:
  assumes "ring_geometry cfg snap page = Inr g" "snap < 2 ^ 32" "0 < page" "page < 2 ^ 32"
    and "rc_block_size cfg + page \<le> 2 ^ 64"
  shows "page dvd g_block_size g" "16 dvd g_frame_size g" "snap + tpacket3_hdrlen \<le> g_frame_size g"
    "g_frame_size g \<le> g_block_size g" "rc_block_size cfg \<le> g_block_size g" "2048 \<le> g_frame_size g"
proof -
  define F where "F = max (tpacket_align (saturating_add snap tpacket3_hdrlen)) MIN_FRAME_SIZE"
  define B where "B = round_up (max (rc_block_size cfg) F) page"
  note f = frame_size_props [OF assms(2) F_def]
  have "max (rc_block_size cfg) F + page \<le> 2 ^ 64" using assms(4,5) f(3) by simp
  then have "page dvd B" "max (rc_block_size cfg) F \<le> B"
    using round_up_props [OF assms(3), of "max (rc_block_size cfg) F"] assms(4) unfolding B_def by simp_all
  moreover have "g_block_size g = B" "g_frame_size g = F" using ring_geometry_Inr(1) [OF assms(1) F_def B_def] by simp_all
  ultimately show "page dvd g_block_size g" "16 dvd g_frame_size g" "snap + tpacket3_hdrlen \<le> g_frame_size g"
    "g_frame_size g \<le> g_block_size g" "rc_block_size cfg \<le> g_block_size g" "2048 \<le> g_frame_size g"
    using f by (simp_all add: tpacket3_hdrlen_eq)
qed

section \<open>Memory\<close>

lemma length_store [simp]: "at + length new \<le> length bytes \<Longrightarrow> length (store_bytes bytes at new) = length bytes"
  by (simp add: store_bytes_def)

lemma store_disjoint:
  assumes "at + length new \<le> length bytes" "p + n \<le> at \<or> at + length new \<le> p"
  shows "take n (drop p (store_bytes bytes at new)) = take n (drop p bytes)"
proof (rule nth_equalityI)
  fix k assume "k < length (take n (drop p (store_bytes bytes at new)))"
  then show "take n (drop p (store_bytes bytes at new)) ! k = take n (drop p bytes) ! k"
    using assms by (auto simp: store_bytes_def nth_append)
qed (use assms in simp)

lemma store_same: "at + length new \<le> length bytes \<Longrightarrow> take (length new) (drop at (store_bytes bytes at new)) = new"
  by (simp add: store_bytes_def)

lemma take_drop_take: "p + n \<le> k \<Longrightarrow> take n (drop p (take k xs)) = take n (drop p xs)"
  by (simp add: drop_take min_def)

lemma host_bytes_kernel: "host_bytes host TP_STATUS_KERNEL = [0, 0, 0, 0]"
  by (cases host) (simp_all add: host_bytes_def TP_STATUS_KERNEL_def le32_bytes_def)

section \<open>The invariant\<close>

definition owned :: "endian \<Rightarrow> ring \<Rightarrow> nat \<Rightarrow> bool" where
  "owned host r i \<longleftrightarrow> block_status host r i AND TP_STATUS_USER \<noteq> 0"

definition ring_ok :: "endian \<Rightarrow> ring \<Rightarrow> bool" where
  "ring_ok host r \<longleftrightarrow>
     12 \<le> g_block_size (rg_geom r) \<and> g_block_size (rg_geom r) * g_block_count (rg_geom r) < 2 ^ 64 \<and>
     length (rg_map r) = g_block_size (rg_geom r) * g_block_count (rg_geom r) \<and>
     rg_cur_block r < g_block_count (rg_geom r) \<and> g_block_count (rg_geom r) < 2 ^ 32 \<and>
     (rg_walk r \<noteq> None \<longrightarrow> owned host r (rg_cur_block r))"

lemma ring_okD:
  assumes "ring_ok host r"
  shows "12 \<le> g_block_size (rg_geom r)" "g_block_size (rg_geom r) * g_block_count (rg_geom r) < 2 ^ 64"
    "length (rg_map r) = g_block_size (rg_geom r) * g_block_count (rg_geom r)"
    "rg_cur_block r < g_block_count (rg_geom r)" "g_block_count (rg_geom r) < 2 ^ 32"
    "rg_walk r \<noteq> None \<Longrightarrow> owned host r (rg_cur_block r)"
  using assms by (auto simp: ring_ok_def)

lemma block_fits: "i < n \<Longrightarrow> i * b + b \<le> b * (n :: nat)"
  by (metis add.commute add_mult_distrib less_eq_Suc_le mult.commute mult_Suc mult_le_mono2)

lemma block_start_eq:
  assumes "ring_ok host r" "i < g_block_count (rg_geom r)"
  shows "block_start r i = i * g_block_size (rg_geom r)"
    "i * g_block_size (rg_geom r) + g_block_size (rg_geom r) \<le> length (rg_map r)"
proof -
  have f: "i * g_block_size (rg_geom r) + g_block_size (rg_geom r) \<le> g_block_size (rg_geom r) * g_block_count (rg_geom r)"
    using assms(2) by (rule block_fits)
  then show "i * g_block_size (rg_geom r) + g_block_size (rg_geom r) \<le> length (rg_map r)" using ring_okD(3) [OF assms(1)] by simp
  have "i * g_block_size (rg_geom r) < 2 ^ 64" using f ring_okD(2) [OF assms(1)] by linarith
  then show "block_start r i = i * g_block_size (rg_geom r)" by (simp add: block_start_def)
qed

lemma status_word_eq:
  assumes "ring_ok host r" "i < g_block_count (rg_geom r)"
  shows "status_word r i = i * g_block_size (rg_geom r) + 8"
    "i * g_block_size (rg_geom r) + 12 \<le> length (rg_map r)"
proof -
  have "i * g_block_size (rg_geom r) + 12 \<le> length (rg_map r)"
    using block_start_eq(2) [OF assms] ring_okD(1) [OF assms(1)] by linarith
  then show "status_word r i = i * g_block_size (rg_geom r) + 8" "i * g_block_size (rg_geom r) + 12 \<le> length (rg_map r)"
    using block_start_eq(1) [OF assms] ring_okD(2,3) [OF assms(1)] by (simp_all add: status_word_def BLOCK_STATUS_OFFSET_def)
qed

text \<open>The status of a block depends on its bytes only.\<close>

lemma block_status_block:
  assumes "ring_ok host r" "i < g_block_count (rg_geom r)"
  shows "block_status host r i = field_u32 host (ring_block r i) 8"
  using ring_okD(1) [OF assms(1)]
  by (simp add: block_status_def status_word_eq(1) [OF assms] field_u32_def ring_block_def block_start_eq(1) [OF assms]
      take_drop_take add.commute)

lemma length_ring_block:
  "ring_ok host r \<Longrightarrow> i < g_block_count (rg_geom r) \<Longrightarrow> length (ring_block r i) = g_block_size (rg_geom r)"
  using block_start_eq [of host r i] by (simp add: ring_block_def)

text \<open>A store inside one block leaves the others alone.\<close>

lemma other_block:
  assumes "ring_ok host r" "i < g_block_count (rg_geom r)" "j < g_block_count (rg_geom r)" "i \<noteq> j"
    and "i * g_block_size (rg_geom r) \<le> at" "at + length new \<le> i * g_block_size (rg_geom r) + g_block_size (rg_geom r)"
    and "rg_geom r' = rg_geom r" "rg_map r' = store_bytes (rg_map r) at new"
  shows "ring_block r' j = ring_block r j"
proof -
  let ?b = "g_block_size (rg_geom r)"
  have "j * ?b + ?b \<le> i * ?b \<or> i * ?b + ?b \<le> j * ?b"
    using assms(4) by (metis block_fits linorder_neqE_nat mult.commute)
  then have "j * ?b + ?b \<le> at \<or> at + length new \<le> j * ?b" using assms(5,6) by linarith
  moreover have "at + length new \<le> length (rg_map r)" using assms(6) block_start_eq(2) [OF assms(1,2)] by linarith
  moreover have "block_start r' j = block_start r j" by (simp add: block_start_def assms(7))
  ultimately show ?thesis
    by (simp add: ring_block_def assms(7,8) block_start_eq(1) [OF assms(1,3)] store_disjoint)
qed

section \<open>The queue of frames\<close>

fun walk_frames :: "endian \<Rightarrow> u8 list \<Rightarrow> nat \<Rightarrow> nat \<Rightarrow> nat \<Rightarrow> nat \<Rightarrow> frame_meta list" where
  "walk_frames host b base snap 0 off = []"
| "walk_frames host b base snap (Suc n) off =
     (case parse_frame host b off snap of
        None \<Rightarrow> []
      | Some (m, nxt) \<Rightarrow>
          m\<lparr>fm_offset := base + fm_offset m\<rparr> #
          (case nxt of None \<Rightarrow> [] | Some off' \<Rightarrow> walk_frames host b base snap n off'))"

definition in_hand :: "endian \<Rightarrow> ring \<Rightarrow> walk \<Rightarrow> frame_meta list" where
  "in_hand host r w = walk_frames host (ring_block r (rg_cur_block r)) (rg_cur_block r * g_block_size (rg_geom r))
     (rg_snaplen r) (unat (wk_remaining w)) (wk_offset w)"

definition block_frames :: "endian \<Rightarrow> ring \<Rightarrow> nat \<Rightarrow> frame_meta list" where
  "block_frames host r i =
     (case parse_block_desc host (ring_block r i) of
        None \<Rightarrow> []
      | Some d \<Rightarrow> walk_frames host (ring_block r i) (i * g_block_size (rg_geom r)) (rg_snaplen r)
          (unat (h1_num_pkts (bd_hdr d))) (unat (h1_offset_to_first_pkt (bd_hdr d))))"

definition ring_order :: "ring \<Rightarrow> nat list" where
  "ring_order r = map (\<lambda>k. (rg_cur_block r + k) mod g_block_count (rg_geom r)) [0..<g_block_count (rg_geom r)]"

definition handed_over :: "endian \<Rightarrow> ring \<Rightarrow> nat list \<Rightarrow> frame_meta list" where
  "handed_over host r is = concat (map (block_frames host r) (takeWhile (owned host r) is))"

definition pending :: "endian \<Rightarrow> ring \<Rightarrow> frame_meta list" where
  "pending host r =
     (case rg_walk r of
        None \<Rightarrow> handed_over host r (ring_order r)
      | Some w \<Rightarrow> in_hand host r w @ handed_over host r (tl (ring_order r)))"

lemma ring_order_hd:
  assumes "ring_ok host r"
  shows "ring_order r = rg_cur_block r # tl (ring_order r)"
proof -
  have "[0..<g_block_count (rg_geom r)] = 0 # [1..<g_block_count (rg_geom r)]"
    using ring_okD(4) [OF assms] by (simp add: upt_conv_Cons)
  then show ?thesis using ring_okD(4) [OF assms] by (simp add: ring_order_def)
qed

lemma ring_order_set: "ring_ok host r \<Longrightarrow> i \<in> set (ring_order r) \<Longrightarrow> i < g_block_count (rg_geom r)"
  using ring_okD(4) [of host r] by (auto simp: ring_order_def)

lemma handed_over_cong:
  assumes "\<And>i. i \<in> set is \<Longrightarrow> ring_block r' i = ring_block r i" "\<And>i. i \<in> set is \<Longrightarrow> owned host r' i = owned host r i"
    and "rg_geom r' = rg_geom r" "rg_snaplen r' = rg_snaplen r"
  shows "handed_over host r' is = handed_over host r is"
proof -
  have t: "takeWhile (owned host r') is = takeWhile (owned host r) is" using assms(2) by (intro takeWhile_cong) auto
  have "block_frames host r' i = block_frames host r i" if "i \<in> set (takeWhile (owned host r) is)" for i
    using set_takeWhileD [OF that] assms by (auto simp: block_frames_def split: option.splits)
  then have "map (block_frames host r') (takeWhile (owned host r) is) = map (block_frames host r) (takeWhile (owned host r) is)"
    by (intro map_cong) simp_all
  then show ?thesis unfolding handed_over_def t by (simp only:)
qed

text \<open>Taking a block into the hand keeps the queue.\<close>

lemma take_block_fields:
  "rg_map (take_block host r) = rg_map r" "rg_geom (take_block host r) = rg_geom r"
  "rg_cur_block (take_block host r) = rg_cur_block r" "rg_snaplen (take_block host r) = rg_snaplen r"
  "rg_nonblocking (take_block host r) = rg_nonblocking r" "rg_walk (take_block host r) \<noteq> None"
  by (auto simp: take_block_def split: option.splits)

lemma same_memory:
  assumes "rg_map r' = rg_map r" "rg_geom r' = rg_geom r"
  shows "ring_block r' i = ring_block r i" "owned host r' i = owned host r i"
  using assms by (simp_all add: ring_block_def block_start_def owned_def block_status_def status_word_def)

lemma take_block_ok:
  assumes "ring_ok host r" "owned host r (rg_cur_block r)"
  shows "ring_ok host (take_block host r)"
  using assms same_memory(2) [OF take_block_fields(1,2)] by (simp add: ring_ok_def take_block_fields)

lemma take_block_pending:
  assumes "ring_ok host r" "owned host r (rg_cur_block r)" "rg_walk r = None"
  shows "pending host (take_block host r) = pending host r"
proof -
  let ?r = "take_block host r"
  obtain w where w: "rg_walk ?r = Some w" using take_block_fields(6) by blast
  have "in_hand host ?r w = block_frames host r (rg_cur_block r)"
    using w by (auto simp: in_hand_def block_frames_def take_block_def ring_block_def block_start_def split: option.splits)
  moreover have "ring_order ?r = ring_order r" by (simp add: ring_order_def take_block_fields)
  moreover have "handed_over host ?r is = handed_over host r is" for "is"
    by (rule handed_over_cong) (simp_all add: same_memory [OF take_block_fields(1,2)] take_block_fields)
  moreover have "handed_over host r (ring_order r) =
      block_frames host r (rg_cur_block r) @ handed_over host r (tl (ring_order r))"
    by (subst ring_order_hd [OF assms(1)]) (simp add: handed_over_def assms(2))
  ultimately show ?thesis using w assms(3) by (simp add: pending_def)
qed

text \<open>Releasing an exhausted block keeps the queue.\<close>

lemma release_fields:
  "rg_geom (release_block host r) = rg_geom r" "rg_snaplen (release_block host r) = rg_snaplen r"
  "rg_nonblocking (release_block host r) = rg_nonblocking r" "rg_walk (release_block host r) = None"
  by (simp_all add: release_block_def)

lemma release_cur:
  "ring_ok host r \<Longrightarrow> rg_cur_block (release_block host r) = (rg_cur_block r + 1) mod g_block_count (rg_geom r)"
  using ring_okD(4,5) [of host r] by (simp add: release_block_def)

lemma release_ok:
  assumes "ring_ok host r"
  shows "ring_ok host (release_block host r)"
proof -
  have "length (rg_map (release_block host r)) = length (rg_map r)"
    using status_word_eq [OF assms ring_okD(4) [OF assms]] by (simp add: release_block_def host_bytes_kernel)
  moreover have "rg_cur_block (release_block host r) < g_block_count (rg_geom r)"
    using release_cur [OF assms] ring_okD(4) [OF assms] by simp
  ultimately show ?thesis using assms by (simp add: ring_ok_def release_fields)
qed

lemma release_other:
  assumes "ring_ok host r" "j < g_block_count (rg_geom r)" "j \<noteq> rg_cur_block r"
  shows "ring_block (release_block host r) j = ring_block r j"
proof (rule other_block [OF assms(1) ring_okD(4) [OF assms(1)] assms(2)])
  show "rg_map (release_block host r) = store_bytes (rg_map r) (status_word r (rg_cur_block r)) [0, 0, 0, 0]"
    by (simp add: release_block_def host_bytes_kernel)
qed (use assms(3) ring_okD(1) [OF assms(1)] in \<open>simp_all add: release_fields status_word_eq(1) [OF assms(1) ring_okD(4) [OF assms(1)]]\<close>)

lemma owned_block:
  assumes "ring_ok host r" "ring_ok host r'" "i < g_block_count (rg_geom r)" "rg_geom r' = rg_geom r"
    and "ring_block r' i = ring_block r i"
  shows "owned host r' i = owned host r i"
  using assms by (simp add: owned_def block_status_block)

lemma release_not_owned:
  assumes "ring_ok host r"
  shows "\<not> owned host (release_block host r) (rg_cur_block r)"
proof -
  let ?at = "status_word r (rg_cur_block r)"
  have "?at + length [0 :: u8, 0, 0, 0] \<le> length (rg_map r)"
    using status_word_eq [OF assms ring_okD(4) [OF assms]] by simp
  from store_same [OF this] have "take 4 (drop ?at (store_bytes (rg_map r) ?at [0, 0, 0, 0])) = [0, 0, 0, 0]"
    by (simp add: numeral_eq_Suc)
  moreover have "status_word (release_block host r) (rg_cur_block r) = ?at"
    by (simp add: status_word_def block_start_def release_fields)
  ultimately have "block_status host (release_block host r) (rg_cur_block r) = 0"
    by (cases host) (simp_all add: block_status_def field_u32_def release_block_def host_bytes_kernel)
  then show ?thesis by (simp add: owned_def)
qed

lemma ring_order_distinct:
  assumes "ring_ok host r"
  shows "distinct (ring_order r)"
proof -
  let ?n = "g_block_count (rg_geom r)"
  have "(rg_cur_block r + k) mod ?n = (if rg_cur_block r + k < ?n then rg_cur_block r + k else rg_cur_block r + k - ?n)"
    if "k < ?n" for k using that ring_okD(4) [OF assms] by (simp add: mod_if)
  then have "inj_on (\<lambda>k. (rg_cur_block r + k) mod ?n) {0..<?n}"
    using ring_okD(4) [OF assms] by (auto simp: inj_on_def split: if_splits)
  then show ?thesis by (simp add: ring_order_def distinct_map)
qed

lemma release_order:
  assumes "ring_ok host r"
  shows "ring_order (release_block host r) = tl (ring_order r) @ [rg_cur_block r]"
proof (rule nth_equalityI)
  let ?n = "g_block_count (rg_geom r)"
  show "length (ring_order (release_block host r)) = length (tl (ring_order r) @ [rg_cur_block r])"
    using ring_okD(4) [OF assms] by (simp add: ring_order_def release_fields)
  fix k assume "k < length (ring_order (release_block host r))"
  then have k: "k < ?n" by (simp add: ring_order_def release_fields)
  then have l: "ring_order (release_block host r) ! k = (rg_cur_block r + Suc k) mod ?n"
    by (simp add: ring_order_def release_fields release_cur [OF assms] mod_add_left_eq)
  show "ring_order (release_block host r) ! k = (tl (ring_order r) @ [rg_cur_block r]) ! k"
  proof (cases "Suc k < ?n")
    case True
    then show ?thesis unfolding l by (simp add: nth_append nth_tl ring_order_def less_diff_conv)
  next
    case False
    then have "Suc k = ?n" using k by simp
    moreover from this have "k = length (tl (ring_order r))" by (simp add: ring_order_def)
    then have "(tl (ring_order r) @ [rg_cur_block r]) ! k = rg_cur_block r" by (simp only: nth_append_length)
    ultimately show ?thesis unfolding l using ring_okD(4) [OF assms] by simp
  qed
qed

lemma release_pending:
  assumes "ring_ok host r" "rg_walk r = Some w" "in_hand host r w = []"
  shows "pending host (release_block host r) = pending host r"
proof -
  let ?r = "release_block host r" and ?o = "tl (ring_order r)"
  have d: "rg_cur_block r \<notin> set ?o" "set ?o \<subseteq> set (ring_order r)"
    using ring_order_distinct [OF assms(1)] ring_order_hd [OF assms(1)] by (metis distinct.simps(2), metis set_subset_Cons)
  have b: "ring_block ?r i = ring_block r i" "owned host ?r i = owned host r i" if "i \<in> set ?o" for i
  proof -
    have i: "i < g_block_count (rg_geom r)" "i \<noteq> rg_cur_block r"
      using that d ring_order_set [OF assms(1)] by auto
    then show "ring_block ?r i = ring_block r i" using release_other [OF assms(1)] by blast
    then show "owned host ?r i = owned host r i"
      using owned_block [OF assms(1) release_ok [OF assms(1)] i(1)] by (simp add: release_fields)
  qed
  have "handed_over host ?r (?o @ [rg_cur_block r]) = handed_over host ?r ?o"
    using release_not_owned [OF assms(1)] by (cases "\<forall>i \<in> set ?o. owned host ?r i") (auto simp: handed_over_def takeWhile_append takeWhile_eq_all_conv [THEN iffD2])
  also have "\<dots> = handed_over host r ?o"
    by (rule handed_over_cong) (simp_all add: b release_fields)
  finally show ?thesis using assms(2,3) by (simp add: pending_def release_fields release_order [OF assms(1)])
qed

section \<open>One turn\<close>

definition turn_measure :: "endian \<Rightarrow> ring \<Rightarrow> nat" where
  "turn_measure host r =
     2 * card {i. i < g_block_count (rg_geom r) \<and> owned host r i} + (if rg_walk r = None then 1 else 0)"

lemma release_measure:
  assumes "ring_ok host r" "rg_walk r \<noteq> None"
  shows "turn_measure host (release_block host r) < turn_measure host r"
proof -
  let ?n = "g_block_count (rg_geom r)" and ?r = "release_block host r"
  have "owned host ?r i = owned host r i" if "i < ?n" "i \<noteq> rg_cur_block r" for i
    using owned_block [OF assms(1) release_ok [OF assms(1)] that(1)] release_other [OF assms(1) that] by (simp add: release_fields)
  then have "{i. i < ?n \<and> owned host ?r i} = {i. i < ?n \<and> owned host r i} - {rg_cur_block r}"
    using release_not_owned [OF assms(1)] by auto
  moreover have "rg_cur_block r \<in> {i. i < ?n \<and> owned host r i}" using ring_okD(4,6) [OF assms(1)] assms(2) by blast
  moreover have "finite {i. i < ?n \<and> owned host r i}" by simp
  ultimately have "card {i. i < ?n \<and> owned host ?r i} < card {i. i < ?n \<and> owned host r i}"
    by (metis card_Diff1_less)
  then show ?thesis using assms(2) by (simp add: turn_measure_def release_fields)
qed

lemma take_block_measure: "rg_walk r = None \<Longrightarrow> turn_measure host (take_block host r) < turn_measure host r"
  using take_block_fields(6) [of host r]
  by (simp add: turn_measure_def same_memory [OF take_block_fields(1,2)] take_block_fields)

lemma parse_frame_bounds:
  assumes "parse_frame host b off snap = Some (m, nxt)"
  shows "fm_offset m + fm_len m \<le> length b"
  using assms by (auto simp: parse_frame_def Let_def checked_add_Some Option.bind_eq_Some_conv split: if_splits)

lemma next_walk_frames:
  assumes "0 < (rem :: u32)"
  shows "walk_frames host b base snap (unat (wk_remaining (next_walk nxt rem))) (wk_offset (next_walk nxt rem)) =
    (case nxt of None \<Rightarrow> [] | Some off \<Rightarrow> walk_frames host b base snap (unat rem - 1) off)"
proof (cases nxt)
  case (Some off)
  have "unat (rem - 1) = unat rem - 1" using assms by (simp add: unat_minus_one)
  moreover have "unat rem = 1" if "\<not> 1 < rem" using that assms
    by (metis One_nat_def less_one linorder_neqE unat_1 word_less_nat_alt unat_gt_0 gr_implies_not_zero less_Suc_eq)
  ultimately show ?thesis using Some by (auto simp: next_walk_def)
qed (simp add: next_walk_def)

lemma in_hand_step:
  assumes "wk_remaining w \<noteq> 0"
  shows "in_hand host r w =
    (case parse_frame host (ring_block r (rg_cur_block r)) (wk_offset w) (rg_snaplen r) of
       None \<Rightarrow> []
     | Some (m, nxt) \<Rightarrow> m\<lparr>fm_offset := rg_cur_block r * g_block_size (rg_geom r) + fm_offset m\<rparr> #
         in_hand host r (next_walk nxt (wk_remaining w)))"
proof -
  have "0 < wk_remaining w" using assms by (simp add: word_gt_0)
  moreover obtain n where "unat (wk_remaining w) = Suc n" using assms by (metis not0_implies_Suc unat_eq_zero)
  ultimately show ?thesis by (auto simp: in_hand_def next_walk_frames split: option.splits)
qed

lemma ring_turn_Continue:
  assumes "ring_ok host r" "ring_turn host r = (Continue, r')"
  shows "ring_ok host r' \<and> pending host r' = pending host r \<and> turn_measure host r' < turn_measure host r \<and>
    rg_geom r' = rg_geom r \<and> rg_nonblocking r' = rg_nonblocking r"
proof (cases "rg_walk r")
  case None
  then have "r' = take_block host r" "owned host r (rg_cur_block r)"
    using assms(2) by (auto simp: ring_turn_def owned_def split: if_splits)
  then show ?thesis using assms(1) None take_block_ok take_block_pending take_block_measure by (simp add: take_block_fields)
next
  case (Some w)
  then have "r' = release_block host r" "in_hand host r w = []"
    using assms(2) by (auto simp: ring_turn_def in_hand_step split: if_splits option.splits) (simp add: in_hand_def)
  then show ?thesis using assms(1) Some release_ok release_pending release_measure by (simp add: release_fields)
qed

lemma ring_turn_idle:
  assumes "ring_ok host r" "ring_turn host r = (Wait, r') \<or> ring_turn host r = (Return None, r')"
  shows "r' = r \<and> pending host r = []"
proof -
  have "r' = r" "rg_walk r = None" "\<not> owned host r (rg_cur_block r)"
    using assms(2) by (auto simp: ring_turn_def owned_def split: if_splits option.splits)
  then show ?thesis by (subst pending_def, subst ring_order_hd [OF assms(1)]) (simp add: handed_over_def)
qed

lemma ring_turn_Return:
  assumes "ring_ok host r" "ring_turn host r = (Return (Some m), r')"
  shows "ring_ok host r' \<and> pending host r = m # pending host r' \<and> rg_map r' = rg_map r \<and> rg_geom r' = rg_geom r \<and>
    rg_nonblocking r' = rg_nonblocking r \<and> rg_walk r' \<noteq> None \<and> rg_cur_block r' = rg_cur_block r \<and>
    rg_cur_block r * g_block_size (rg_geom r) \<le> fm_offset m \<and>
    fm_offset m + fm_len m \<le> rg_cur_block r * g_block_size (rg_geom r) + g_block_size (rg_geom r)"
proof -
  let ?c = "rg_cur_block r" let ?s = "?c * g_block_size (rg_geom r)"
  obtain w m0 nxt where w: "rg_walk r = Some w" "wk_remaining w \<noteq> 0"
    "parse_frame host (ring_block r ?c) (wk_offset w) (rg_snaplen r) = Some (m0, nxt)"
    "m = m0\<lparr>fm_offset := usize_add (block_start r ?c) (fm_offset m0)\<rparr>"
    and r': "r' = r\<lparr>rg_walk := Some (next_walk nxt (wk_remaining w))\<rparr>"
    using assms(2) by (auto simp: ring_turn_def split: if_splits option.splits)
  have b: "fm_offset m0 + fm_len m0 \<le> g_block_size (rg_geom r)"
    using parse_frame_bounds [OF w(3)] length_ring_block [OF assms(1) ring_okD(4) [OF assms(1)]] by simp
  then have "?s + fm_offset m0 < 2 ^ 64"
    using block_start_eq(2) [OF assms(1) ring_okD(4) [OF assms(1)]] ring_okD(2,3) [OF assms(1)] by linarith
  then have m: "m = m0\<lparr>fm_offset := ?s + fm_offset m0\<rparr>" using w(4) block_start_eq(1) [OF assms(1) ring_okD(4) [OF assms(1)]] by simp
  have mem: "rg_map r' = rg_map r" "rg_geom r' = rg_geom r" using r' by simp_all
  have "in_hand host r w = m # in_hand host r (next_walk nxt (wk_remaining w))" using in_hand_step [OF w(2)] w(3) m by simp
  moreover have "in_hand host r' v = in_hand host r v" for v
    using r' by (simp add: in_hand_def ring_block_def block_start_def)
  moreover have "handed_over host r' is = handed_over host r is" for "is"
    using r' by (intro handed_over_cong)
      (auto simp: ring_block_def block_start_def owned_def block_status_def status_word_def)
  moreover have "ring_order r' = ring_order r" using r' by (simp add: ring_order_def)
  ultimately have "pending host r = m # pending host r'" using w(1) r' by (simp add: pending_def)
  moreover have "ring_ok host r'" using assms(1) w(1) r' same_memory(2) [OF mem, of host] by (simp add: ring_ok_def)
  ultimately show ?thesis using r' m b by simp
qed

section \<open>The kernel\<close>

text \<open>The kernel writes anything to a block whose status word says that the block is its own.\<close>

inductive kernel_step :: "endian \<Rightarrow> ring \<Rightarrow> ring \<Rightarrow> bool" for host where
  kernel_writes: "i < g_block_count (rg_geom r) \<Longrightarrow> \<not> owned host r i \<Longrightarrow> length b = g_block_size (rg_geom r) \<Longrightarrow>
    kernel_step host r (r\<lparr>rg_map := store_bytes (rg_map r) (i * g_block_size (rg_geom r)) b\<rparr>)"

inductive_simps kernel_step_iff: "kernel_step host r r'"

text \<open>
  Interleavings of turns of the loop with writes of the kernel, with the frames delivered and their bytes.
\<close>

inductive ring_step :: "endian \<Rightarrow> ring \<Rightarrow> (frame_meta \<times> u8 list) list \<Rightarrow> ring \<Rightarrow> bool" for host where
  user_turn: "ring_turn host r = (t, r') \<Longrightarrow>
    ring_step host r (case t of Return (Some m) \<Rightarrow> [(m, frame_bytes r' m)] | _ \<Rightarrow> []) r'"
| kernel_turn: "kernel_step host r r' \<Longrightarrow> ring_step host r [] r'"

inductive ring_run :: "endian \<Rightarrow> ring \<Rightarrow> (frame_meta \<times> u8 list) list \<Rightarrow> ring \<Rightarrow> bool" for host where
  run_refl: "ring_run host r [] r"
| run_step: "ring_step host r ms r' \<Longrightarrow> ring_run host r' ms' r'' \<Longrightarrow> ring_run host r (ms @ ms') r''"

definition pending_data :: "endian \<Rightarrow> ring \<Rightarrow> (frame_meta \<times> u8 list) list" where
  "pending_data host r = map (\<lambda>m. (m, frame_bytes r m)) (pending host r)"

lemma walk_frames_in:
  "m \<in> set (walk_frames host b base snap n off) \<Longrightarrow> base \<le> fm_offset m \<and> fm_offset m + fm_len m \<le> base + length b"
proof (induction n arbitrary: off)
  case (Suc n)
  then show ?case by (auto dest: parse_frame_bounds parse_frame_bounds [OF sym] split: option.splits)
qed simp

lemma pending_in_owned:
  assumes "ring_ok host r" "m \<in> set (pending host r)"
  shows "\<exists>i < g_block_count (rg_geom r). owned host r i \<and> i * g_block_size (rg_geom r) \<le> fm_offset m \<and>
    fm_offset m + fm_len m \<le> i * g_block_size (rg_geom r) + g_block_size (rg_geom r)"
proof -
  have "\<exists>i < g_block_count (rg_geom r). owned host r i \<and>
      (\<exists>n off. m \<in> set (walk_frames host (ring_block r i) (i * g_block_size (rg_geom r)) (rg_snaplen r) n off))"
  proof (cases "\<exists>w. rg_walk r = Some w \<and> m \<in> set (in_hand host r w)")
    case True
    then show ?thesis using ring_okD(4,6) [OF assms(1)] by (auto simp: in_hand_def)
  next
    case False
    then obtain "is" where "m \<in> set (handed_over host r is)" "set is \<subseteq> set (ring_order r)"
      using assms(2) by (cases "ring_order r") (auto simp: pending_def split: option.splits)
    then obtain i where "i \<in> set (ring_order r)" "owned host r i" "m \<in> set (block_frames host r i)"
      by (auto simp: handed_over_def dest: set_takeWhileD)
    then show ?thesis using ring_order_set [OF assms(1)] by (auto simp: block_frames_def split: option.splits)
  qed
  then obtain i n off where i: "i < g_block_count (rg_geom r)" "owned host r i"
    "m \<in> set (walk_frames host (ring_block r i) (i * g_block_size (rg_geom r)) (rg_snaplen r) n off)" by blast
  then show ?thesis using walk_frames_in [OF i(3)] length_ring_block [OF assms(1) i(1)] by auto
qed

text \<open>The bytes of a frame are those of its block.\<close>

lemma frame_bytes_block:
  assumes "ring_ok host r" "i < g_block_count (rg_geom r)" "i * g_block_size (rg_geom r) \<le> fm_offset m"
    and "fm_offset m + fm_len m \<le> i * g_block_size (rg_geom r) + g_block_size (rg_geom r)"
  shows "frame_bytes r m = take (fm_len m) (drop (fm_offset m - i * g_block_size (rg_geom r)) (ring_block r i))"
proof -
  have "fm_offset m - i * g_block_size (rg_geom r) + fm_len m \<le> g_block_size (rg_geom r)" using assms(3,4) by linarith
  then show ?thesis
    using assms(3) by (simp add: frame_bytes_def ring_block_def block_start_eq(1) [OF assms(1,2)] take_drop_take)
qed

lemma frame_bytes_kept:
  assumes "ring_ok host r" "ring_ok host r'" "rg_geom r' = rg_geom r" "m \<in> set (pending host r)"
    and "\<And>i. i < g_block_count (rg_geom r) \<Longrightarrow> owned host r i \<Longrightarrow> ring_block r' i = ring_block r i"
  shows "frame_bytes r' m = frame_bytes r m"
proof -
  obtain i where i: "i < g_block_count (rg_geom r)" "owned host r i" "i * g_block_size (rg_geom r) \<le> fm_offset m"
    "fm_offset m + fm_len m \<le> i * g_block_size (rg_geom r) + g_block_size (rg_geom r)"
    using pending_in_owned [OF assms(1,4)] by blast
  then show ?thesis
    using frame_bytes_block [OF assms(1) i(1,3,4)] frame_bytes_block [OF assms(2), of i m] assms(3,5) by simp
qed

lemma kernel_fields:
  assumes "kernel_step host r r'" "ring_ok host r"
  shows "rg_geom r' = rg_geom r" "rg_cur_block r' = rg_cur_block r" "rg_walk r' = rg_walk r" "rg_snaplen r' = rg_snaplen r"
    "length (rg_map r') = length (rg_map r)"
proof -
  obtain i b where k: "i < g_block_count (rg_geom r)" "length b = g_block_size (rg_geom r)"
    and r': "r' = r\<lparr>rg_map := store_bytes (rg_map r) (i * g_block_size (rg_geom r)) b\<rparr>"
    using assms(1) by (auto simp: kernel_step_iff)
  then show "rg_geom r' = rg_geom r" "rg_cur_block r' = rg_cur_block r" "rg_walk r' = rg_walk r" "rg_snaplen r' = rg_snaplen r"
    by simp_all
  show "length (rg_map r') = length (rg_map r)" using block_start_eq(2) [OF assms(2) k(1)] k(2) r' by simp
qed

lemma kernel_keeps_block:
  assumes "kernel_step host r r'" "ring_ok host r" "j < g_block_count (rg_geom r)" "owned host r j"
  shows "ring_block r' j = ring_block r j"
proof -
  obtain i b where k: "i < g_block_count (rg_geom r)" "\<not> owned host r i" "length b = g_block_size (rg_geom r)"
    and r': "r' = r\<lparr>rg_map := store_bytes (rg_map r) (i * g_block_size (rg_geom r)) b\<rparr>"
    using assms(1) by (auto simp: kernel_step_iff)
  then show ?thesis by (intro other_block [OF assms(2) k(1) assms(3)]) (use assms(4) in auto)
qed

lemma ring_ok_parts:
  assumes "ring_ok host r" "rg_geom r' = rg_geom r" "rg_cur_block r' = rg_cur_block r" "rg_walk r' = rg_walk r"
    and "length (rg_map r') = length (rg_map r)" "rg_walk r \<noteq> None \<Longrightarrow> ring_block r' (rg_cur_block r) = ring_block r (rg_cur_block r)"
  shows "ring_ok host r'"
proof -
  have ok: "ring_ok host (s\<lparr>rg_walk := None\<rparr>) \<longleftrightarrow> ring_ok host s" if "rg_walk s = None" for s
    using that by (cases s) simp
  let ?r = "r'\<lparr>rg_walk := None\<rparr>"
  have n: "ring_ok host ?r" using assms(1-5) by (simp add: ring_ok_def)
  have "owned host r' (rg_cur_block r)" if "rg_walk r \<noteq> None"
  proof -
    have "ring_block ?r (rg_cur_block r) = ring_block r (rg_cur_block r)"
      using assms(6) [OF that] by (simp add: ring_block_def block_start_def)
    then have "owned host ?r (rg_cur_block r)"
      using owned_block [OF assms(1) n ring_okD(4) [OF assms(1)]] assms(2) ring_okD(6) [OF assms(1) that] by simp
    then show ?thesis by (simp add: owned_def block_status_def status_word_def block_start_def)
  qed
  then show ?thesis using assms by (simp add: ring_ok_def)
qed

lemma kernel_ok:
  assumes "kernel_step host r r'" "ring_ok host r"
  shows "ring_ok host r'"
  using kernel_keeps_block [OF assms ring_okD(4) [OF assms(2)]] ring_okD(6) [OF assms(2)]
  by (intro ring_ok_parts [OF assms(2)]) (simp_all add: kernel_fields [OF assms])

lemma takeWhile_mono:
  assumes "\<And>x. x \<in> set (takeWhile P xs) \<Longrightarrow> Q x"
  shows "\<exists>ys. takeWhile Q xs = takeWhile P xs @ ys"
  using assms by (induction xs) auto

lemma kernel_handed_over:
  assumes "kernel_step host r r'" "ring_ok host r" "\<And>i. i \<in> set is \<Longrightarrow> i < g_block_count (rg_geom r)"
  shows "\<exists>ms. handed_over host r' is = handed_over host r is @ ms"
proof -
  have b: "ring_block r' i = ring_block r i" "owned host r' i" if "i \<in> set (takeWhile (owned host r) is)" for i
  proof -
    have i: "i < g_block_count (rg_geom r)" "owned host r i" using set_takeWhileD [OF that] assms(3) by auto
    then show "ring_block r' i = ring_block r i" using kernel_keeps_block [OF assms(1,2)] by blast
    then show "owned host r' i"
      using i owned_block [OF assms(2) kernel_ok [OF assms(1,2)]] kernel_fields(1) [OF assms(1,2)] by blast
  qed
  obtain ys where ys: "takeWhile (owned host r') is = takeWhile (owned host r) is @ ys"
    using takeWhile_mono [of "owned host r" "is" "owned host r'"] b(2) by blast
  have "map (block_frames host r') (takeWhile (owned host r) is) = map (block_frames host r) (takeWhile (owned host r) is)"
    by (intro map_cong) (auto simp: block_frames_def b(1) kernel_fields [OF assms(1,2)] split: option.splits)
  then have "handed_over host r' is = handed_over host r is @ concat (map (block_frames host r') ys)"
    by (simp only: handed_over_def ys map_append concat_append)
  then show ?thesis by blast
qed

lemma kernel_pending:
  assumes "kernel_step host r r'" "ring_ok host r"
  shows "\<exists>ms. pending host r' = pending host r @ ms"
proof -
  note f = kernel_fields [OF assms]
  have o': "ring_order r' = ring_order r" by (simp add: ring_order_def f)
  have s: "\<And>i. i \<in> set (ring_order r) \<Longrightarrow> i < g_block_count (rg_geom r)" using ring_order_set [OF assms(2)] by blast
  then have "\<And>i. i \<in> set (tl (ring_order r)) \<Longrightarrow> i < g_block_count (rg_geom r)" by (cases "ring_order r") auto
  then show ?thesis
    using kernel_handed_over [OF assms s] kernel_handed_over [OF assms]
      kernel_keeps_block [OF assms ring_okD(4) [OF assms(2)]] ring_okD(6) [OF assms(2)]
    by (cases "rg_walk r") (auto simp: pending_def f o' in_hand_def)
qed

text \<open>The three kinds of turns and the kernel, on the queue with the bytes.\<close>

lemma data_Continue:
  assumes "ring_ok host r" "ring_turn host r = (Continue, r')"
  shows "pending_data host r' = pending_data host r"
proof -
  note c = ring_turn_Continue [OF assms]
  have "frame_bytes r m = frame_bytes r' m" if "m \<in> set (pending host r')" for m
  proof (rule frame_bytes_kept [OF _ assms(1) _ that])
    fix i assume "i < g_block_count (rg_geom r')" "owned host r' i"
    moreover from this have "i \<noteq> rg_cur_block r" if "r' = release_block host r" using that release_not_owned [OF assms(1)] by auto
    moreover have "r' = take_block host r \<or> r' = release_block host r"
      using assms(2) by (auto simp: ring_turn_def split: if_splits option.splits)
    ultimately show "ring_block r i = ring_block r' i"
      using release_other [OF assms(1), of i] same_memory(1) [OF take_block_fields(1,2)] c by auto
  qed (use c in auto)
  then show ?thesis using c by (simp add: pending_data_def)
qed

lemma data_Return:
  assumes "ring_ok host r" "ring_turn host r = (Return (Some m), r')"
  shows "pending_data host r = (m, frame_bytes r' m) # pending_data host r'"
  using ring_turn_Return [OF assms] by (simp add: pending_data_def frame_bytes_def)

lemma data_kernel:
  assumes "kernel_step host r r'" "ring_ok host r"
  shows "\<exists>new. pending_data host r' = pending_data host r @ new"
proof -
  have "frame_bytes r' m = frame_bytes r m" if "m \<in> set (pending host r)" for m
    using kernel_keeps_block [OF assms] by (intro frame_bytes_kept [OF assms(2) kernel_ok [OF assms] kernel_fields(1) [OF assms] that])
  then show ?thesis using kernel_pending [OF assms] by (auto simp: pending_data_def)
qed

lemma ring_step_fifo:
  assumes "ring_step host r ms r'" "ring_ok host r"
  shows "ring_ok host r' \<and> (\<exists>new. pending_data host r @ new = ms @ pending_data host r')"
  using assms(1)
proof cases
  case (user_turn t)
  show ?thesis
  proof (cases t)
    case Continue
    then have "ring_turn host r = (Continue, r')" "ms = []" using user_turn by simp_all
    then show ?thesis using ring_turn_Continue [OF assms(2)] data_Continue [OF assms(2)] by simp
  next
    case Wait
    then have "r' = r" "ms = []" using ring_turn_idle [OF assms(2)] user_turn by auto
    then show ?thesis using assms(2) by simp
  next
    case (Return x)
    show ?thesis
    proof (cases x)
      case None
      then have "r' = r" "ms = []" using ring_turn_idle [OF assms(2)] user_turn Return by auto
      then show ?thesis using assms(2) by simp
    next
      case (Some m)
      then have "ring_turn host r = (Return (Some m), r')" "ms = [(m, frame_bytes r' m)]" using user_turn Return by simp_all
      then show ?thesis using ring_turn_Return [OF assms(2)] data_Return [OF assms(2)] by simp
    qed
  qed
next
  case kernel_turn
  then show ?thesis using kernel_ok [OF _ assms(2)] data_kernel [OF _ assms(2)] by fastforce
qed

lemma ring_run_fifo:
  assumes "ring_run host r ms r'" "ring_ok host r"
  shows "ring_ok host r' \<and> (\<exists>new. pending_data host r @ new = ms @ pending_data host r')"
  using assms
proof induction
  case (run_step r ms r' ms' r'')
  obtain new where n: "pending_data host r @ new = ms @ pending_data host r'" and ok: "ring_ok host r'"
    using ring_step_fifo [OF run_step.hyps(1) run_step.prems] by blast
  obtain new' where "pending_data host r' @ new' = ms' @ pending_data host r''" and ok': "ring_ok host r''"
    using run_step.IH [OF ok] by blast
  then have "pending_data host r @ new @ new' = (ms @ ms') @ pending_data host r''"
    using n by (metis append.assoc)
  then show ?case using ok' by blast
qed auto

section \<open>The loop\<close>

lemma next_frame_turn:
  "ring_turn host r = (Continue, r') \<Longrightarrow> next_frame poll host k r = next_frame poll host k r'"
  "ring_turn host r = (Return m, r') \<Longrightarrow> next_frame poll host k r = Some (Inr m, k, r')"
  by (simp_all add: next_frame.simps)

lemma next_frame_takes:
  assumes "ring_ok host r" "pending_data host r = (m, bytes) # ds"
  shows "\<exists>r'. next_frame poll host k r = Some (Inr (Some m), k, r') \<and> frame_bytes r' m = bytes \<and> ring_ok host r' \<and>
    pending_data host r' = ds \<and> rg_nonblocking r' = rg_nonblocking r"
  using assms
proof (induction "turn_measure host r" arbitrary: r rule: less_induct)
  case less
  obtain t r' where t: "ring_turn host r = (t, r')" by (cases "ring_turn host r")
  show ?case
  proof (cases t)
    case Continue
    note c = t [unfolded Continue]
    show ?thesis
      unfolding next_frame_turn(1) [OF c]
      using less.hyps [of r'] less.prems ring_turn_Continue [OF less.prems(1) c] data_Continue [OF less.prems(1) c] by auto
  next
    case Wait
    then show ?thesis using ring_turn_idle [OF less.prems(1)] t less.prems(2) by (auto simp: pending_data_def)
  next
    case (Return x)
    then obtain m' where x: "x = Some m'"
      using ring_turn_idle [OF less.prems(1)] t less.prems(2) by (cases x) (auto simp: pending_data_def)
    note c = t [unfolded Return x]
    show ?thesis
      unfolding next_frame_turn(2) [OF c]
      using ring_turn_Return [OF less.prems(1) c] data_Return [OF less.prems(1) c] less.prems(2) by auto
  qed
qed

lemma next_frame_empty:
  assumes "ring_ok host r" "pending host r = []" "rg_nonblocking r"
  shows "\<exists>r'. next_frame poll host k r = Some (Inr None, k, r') \<and> ring_ok host r' \<and> pending host r' = [] \<and> rg_nonblocking r'"
  using assms
proof (induction "turn_measure host r" arbitrary: r rule: less_induct)
  case less
  obtain t r' where t: "ring_turn host r = (t, r')" by (cases "ring_turn host r")
  show ?case
  proof (cases t)
    case Continue
    then show ?thesis
      unfolding next_frame_turn(1) [OF t [unfolded Continue]]
      using less.hyps [of r'] less.prems ring_turn_Continue [OF less.prems(1) t [unfolded Continue]] by auto
  next
    case Wait
    then show ?thesis using t less.prems(3) by (auto simp: ring_turn_def split: if_splits option.splits)
  next
    case (Return x)
    then have x: "x = None" using ring_turn_Return [OF less.prems(1)] t less.prems(2) by (cases x) auto
    then show ?thesis
      unfolding next_frame_turn(2) [OF t [unfolded Return]]
      using ring_turn_idle [OF less.prems(1)] t Return less.prems by auto
  qed
qed

end
