(* ===== verification/Tap_Ring_Theorems.thy ===== *)
theory Tap_Ring_Theorems
  imports Tap_Ring_Correct
begin

text \<open>The properties of the ring, from \<open>Ring::open\<close> on.\<close>

lemma ring_open_ok:
  assumes "ring_open show_io v sysconf set_ring mmap cfg snap = (Inr r :: 'p tap_error + ring)" "\<And>n b. mmap n = Inr b \<Longrightarrow> length b = n"
    and "snap < 2 ^ 32" "sysconf < 2 ^ 32" "rc_block_size cfg + page_size sysconf \<le> 2 ^ 64"
  shows "ring_ok host r" "rg_walk r = None" "rg_snaplen r = snap"
    "ring_geometry cfg snap (page_size sysconf) = (Inr (rg_geom r) :: 'p tap_error + geometry)"
proof -
  obtain g b where g: "ring_geometry cfg snap (page_size sysconf) = (Inr g :: 'p tap_error + geometry)" "mmap (g_map_len g) = Inr b"
    and r: "r = \<lparr>rg_map = b, rg_map_len = g_map_len g, rg_geom = g, rg_cur_block = 0, rg_walk = None,
      rg_snaplen = snap, rg_nonblocking = False\<rparr>"
    using assms(1) by (auto simp: ring_open_def Let_def rbind_eq_Inr split: option.splits sum.splits)
  have p: "0 < page_size sysconf" "page_size sysconf < 2 ^ 32" using assms(4) by (auto simp: page_size_def)
  note d = ring_geometry_dims [OF g(1) assms(3) p assms(5)] and e = ring_geometry_counts [OF g(1)]
  have "g_block_size g * g_block_count g < 2 ^ 32 * 2 ^ 32" by (rule mult_strict_mono) (simp_all only: e(5,6) zero_less_power zero_less_numeral zero_le)
  then show "ring_ok host r" using d(4,6) e(2,4,6) assms(2) [OF g(2)] by (simp add: ring_ok_def r)
  show "rg_walk r = None" "rg_snaplen r = snap"
    "ring_geometry cfg snap (page_size sysconf) = (Inr (rg_geom r) :: 'p tap_error + geometry)" using r g(1) by simp_all
qed

lemma walk_frames_sec: "m \<in> set (walk_frames host b base snap n off) \<Longrightarrow> unat (fm_ts_sec m) < 2 ^ 32"
proof (induction n arbitrary: off)
  case (Suc n)
  have "unat (ucast (w :: u32) :: u64) < 2 ^ 32" for w
    using unat_u32_less [of w] by (simp add: unsigned_ucast_eq take_bit_nat_eq_self)
  then have f: "unat (fm_ts_sec m') < 2 ^ 32" if "parse_frame host b off snap = Some (m', nxt)" for m' nxt
    using that by (auto simp: parse_frame_def Let_def Option.bind_eq_Some_conv split: if_splits)
  show ?case using Suc by (auto dest: f f [OF sym] split: option.splits)
qed simp

lemma pending_sec: "m \<in> set (pending host r) \<Longrightarrow> unat (fm_ts_sec m) < 2 ^ 32"
  by (auto simp: pending_def in_hand_def handed_over_def block_frames_def dest: walk_frames_sec split: option.splits)

definition ring_packet :: "link_type \<Rightarrow> frame_meta \<times> u8 list \<Rightarrow> packet_ref" where
  "ring_packet lt = (\<lambda>(m, bytes).
     \<lparr>pr_data = bytes,
      pr_timestamp = \<lparr>st_secs = int (unat (fm_ts_sec m) + unat (fm_ts_nsec m) div NANOS_PER_SEC),
        st_nanos = of_nat (unat (fm_ts_nsec m) mod NANOS_PER_SEC)\<rparr>,
      pr_orig_len = fm_orig_len m, pr_link_type = lt\<rparr>)"

lemma packet_ref_new_ok:
  assumes "unat sec < 2 ^ 32"
  shows "packet_ref_new b sec nsec ol lt = Inr
    \<lparr>pr_data = b, pr_timestamp = \<lparr>st_secs = int (unat sec + unat nsec div NANOS_PER_SEC),
      st_nanos = of_nat (unat nsec mod NANOS_PER_SEC)\<rparr>, pr_orig_len = ol, pr_link_type = lt\<rparr>"
proof -
  let ?c = "unat nsec div NANOS_PER_SEC"
  have c: "?c \<le> 4" using unat_u32_less [of nsec] by (simp add: NANOS_PER_SEC_def)
  then have "unat (of_nat ?c :: u64) = ?c" by (simp add: unat_of_nat take_bit_nat_eq_self)
  moreover from this have "unat sec + unat (of_nat ?c :: u64) < 2 ^ LENGTH(64)" using assms c by simp
  ultimately have s: "unat (sec + of_nat ?c) = unat sec + ?c" using unat_add_lem by metis
  then have u: "uint (sec + of_nat ?c) = uint sec + int ?c" by (metis of_nat_add uint_nat)
  show ?thesis
  proof (cases "unat nsec < NANOS_PER_SEC")
    case True
    then show ?thesis using assms by (simp add: packet_ref_new_def duration_new_def epoch_plus_def)
  next
    case False
    then show ?thesis using assms c s u by (simp add: packet_ref_new_def duration_new_def epoch_plus_def)
  qed
qed

text \<open>A ring in non-blocking mode is a source of the packets in its queue.\<close>

definition ring_next :: "('k \<Rightarrow> u8 list \<Rightarrow> io_error option \<times> u8 list \<times> 'k) \<Rightarrow> endian \<Rightarrow> link_type \<Rightarrow> 'k \<times> ring \<Rightarrow>
    (('p tap_error + packet_ref option) \<times> 'k \<times> ring) option" where
  "ring_next poll host lt = (\<lambda>(k, r). ring_next_packet poll host lt k r)"

definition ring_holds :: "endian \<Rightarrow> link_type \<Rightarrow> 'k \<times> ring \<Rightarrow> packet_ref list \<Rightarrow> bool" where
  "ring_holds host lt = (\<lambda>(k, r) ps.
     ring_ok host r \<and> rg_nonblocking r \<and> ps = map (ring_packet lt) (pending_data host r))"

lemma ring_next_none:
  assumes "ring_holds host lt (k, r) []"
  shows "\<exists>s'. ring_next poll host lt (k, r) = Some (Inr None :: 'p tap_error + packet_ref option, s')"
proof -
  obtain r' where "next_frame poll host k r = Some (Inr None :: 'p tap_error + frame_meta option, k, r')"
    using next_frame_empty [of host r poll k] assms by (auto simp: ring_holds_def pending_data_def)
  then show ?thesis by (simp add: ring_next_def ring_next_packet_def)
qed

lemma ring_next_some:
  assumes "ring_holds host lt (k, r) (p # ps)"
  shows "\<exists>s'. ring_next poll host lt (k, r) = Some (Inr (Some p) :: 'p tap_error + packet_ref option, s') \<and> ring_holds host lt s' ps"
proof -
  obtain m b ds where d: "pending_data host r = (m, b) # ds" "p = ring_packet lt (m, b)" "ps = map (ring_packet lt) ds"
    using assms by (cases "pending_data host r") (auto simp: ring_holds_def)
  have "m \<in> set (pending host r)" using d(1) by (auto simp: pending_data_def)
  then have "packet_ref_new b (fm_ts_sec m) (fm_ts_nsec m) (fm_orig_len m) lt = (Inr p :: 'p tap_error + packet_ref)"
    using packet_ref_new_ok [OF pending_sec] d(2) by (simp add: ring_packet_def)
  moreover obtain r' where "next_frame poll host k r = Some (Inr (Some m) :: 'p tap_error + frame_meta option, k, r')"
    "frame_bytes r' m = b" "ring_ok host r'" "pending_data host r' = ds" "rg_nonblocking r'"
    using next_frame_takes [OF _ d(1), of poll k] assms by (auto simp: ring_holds_def)
  ultimately show ?thesis using d(3) by (simp add: ring_next_def ring_next_packet_def ring_holds_def)
qed

interpretation ring_source: packet_source "ring_next poll host lt" "ring_holds host lt" for poll host lt
proof (unfold_locales, goal_cases)
  case (1 s)
  then show ?case by (cases s) (simp only: ring_next_none)
next
  case (2 s p ps)
  then show ?case by (cases s) (simp only: ring_next_some)
qed

text \<open>While a block is in hand the kernel changes nothing of it.\<close>

lemma kernel_run_keeps:
  assumes "(kernel_step host)\<^sup>*\<^sup>* r r'" "ring_ok host r" "rg_walk r \<noteq> None"
  shows "ring_ok host r' \<and> rg_walk r' = rg_walk r \<and> rg_geom r' = rg_geom r \<and> rg_cur_block r' = rg_cur_block r \<and>
    ring_block r' (rg_cur_block r) = ring_block r (rg_cur_block r)"
  using assms(1)
proof induction
  case (step r1 r2)
  then have "ring_ok host r1" "rg_walk r1 \<noteq> None" using assms(3) by auto
  then show ?case
    using step.IH kernel_ok [OF step.hyps(2)] kernel_fields [OF step.hyps(2)] kernel_keeps_block [OF step.hyps(2)] ring_okD(4,6) [of host r1]
    by simp
qed (use assms in simp)

lemma set_nonblocking_block:
  "ring_block (set_nonblocking nb r) = ring_block r" "owned host (set_nonblocking nb r) = owned host r"
  by (simp_all add: fun_eq_iff set_nonblocking_def ring_block_def block_start_def owned_def block_status_def status_word_def)

lemma set_nonblocking_fields:
  "rg_map (set_nonblocking nb r) = rg_map r" "rg_geom (set_nonblocking nb r) = rg_geom r"
  "rg_cur_block (set_nonblocking nb r) = rg_cur_block r" "rg_walk (set_nonblocking nb r) = rg_walk r"
  "rg_snaplen (set_nonblocking nb r) = rg_snaplen r" "ring_order (set_nonblocking nb r) = ring_order r"
  by (simp_all add: set_nonblocking_def ring_order_def)

lemma set_nonblocking_queue:
  "ring_ok host (set_nonblocking nb r) = ring_ok host r" "pending_data host (set_nonblocking nb r) = pending_data host r"
proof -
  have bf: "block_frames host (set_nonblocking nb r) = block_frames host r"
    unfolding fun_eq_iff block_frames_def set_nonblocking_block set_nonblocking_fields by blast
  show "pending_data host (set_nonblocking nb r) = pending_data host r" "ring_ok host (set_nonblocking nb r) = ring_ok host r"
    unfolding pending_data_def pending_def handed_over_def in_hand_def ring_ok_def set_nonblocking_block set_nonblocking_fields
      frame_bytes_def bf by (rule refl)+
qed

section \<open>A small ring\<close>

text \<open>One block of 8192 bytes that the kernel has handed over with one frame of two bytes.\<close>

definition small_config :: ring_config where
  "small_config = with_block_count 1 (with_block_size 5000 ring_config_new)"

lemma small_block_size: "rc_block_size small_config = 5000"
  by (simp add: small_config_def with_block_count_def with_block_size_def)

lemma small_geometry: "ring_geometry small_config 100 4096 =
    Inr \<lparr>g_block_size = 8192, g_block_count = 1, g_frame_size = 2048, g_frame_count = 4, g_map_len = 8192\<rparr>"
proof -
  have "max (tpacket_align (saturating_add 100 tpacket3_hdrlen)) MIN_FRAME_SIZE = 2048"
    by (simp add: saturating_add_def tpacket3_hdrlen_eq tpacket_align_eq MIN_FRAME_SIZE_def)
  moreover have "round_up 5000 4096 = 8192" by (simp add: round_up_def)
  ultimately show ?thesis
    by (simp add: ring_geometry_def small_config_def with_block_count_def with_block_size_def ok_or_else_def checked_mul_def Let_def)
qed

definition one_frame :: "u8 list" where
  "one_frame =
     [2, 0, 0, 0, 0, 0, 0, 0, 1, 0, 0, 0, 1, 0, 0, 0, 48, 0, 0, 0] @ replicate 28 0 @
     [0, 0, 0, 0, 9, 0, 0, 0, 5, 0, 0, 0, 2, 0, 0, 0, 2, 0, 0, 0, 1, 0, 0, 0, 48, 0, 48, 0] @ replicate 20 0 @
     [7, 8] @ replicate 8094 0"

definition small_ring :: ring where
  "small_ring = \<lparr>rg_map = one_frame, rg_map_len = 8192,
     rg_geom = \<lparr>g_block_size = 8192, g_block_count = 1, g_frame_size = 2048, g_frame_count = 4, g_map_len = 8192\<rparr>,
     rg_cur_block = 0, rg_walk = None, rg_snaplen = 100, rg_nonblocking = False\<rparr>"

definition small_mmap :: "nat \<Rightarrow> io_error + u8 list" where
  "small_mmap n = (if n = 8192 then Inr one_frame else Inl Interrupted)"

definition small_frame :: frame_meta where
  "small_frame = \<lparr>fm_offset = 96, fm_len = 2, fm_ts_sec = 9, fm_ts_nsec = 5, fm_orig_len = 2\<rparr>"

lemma length_one_frame: "length one_frame = 8192"
  by (simp add: one_frame_def)

lemma small_opened:
  "ring_open (\<lambda>_. []) None 4096 (\<lambda>_. None) small_mmap small_config 100 = Inr small_ring"
  "small_mmap n = Inr b \<Longrightarrow> length b = n" "rc_block_size small_config + page_size 4096 \<le> 2 ^ 64"
  by (auto simp: ring_open_def small_geometry page_size_def small_mmap_def small_ring_def length_one_frame small_block_size split: if_splits)

lemma one_frame_fields:
  "field_u32 Little one_frame 8 = 1" "field_u32 Little one_frame 12 = 1" "field_u32 Little one_frame 16 = 48"
  "field_u32 Little one_frame 48 = 0" "field_u32 Little one_frame 52 = 9" "field_u32 Little one_frame 56 = 5"
  "field_u32 Little one_frame 60 = 2" "field_u32 Little one_frame 64 = 2" "field_u16 Little one_frame 72 = 48"
  by (simp_all add: field_u32_def field_u16_def one_frame_def)

lemma small_blocks:
  "ring_block (small_ring\<lparr>rg_walk := w\<rparr>) 0 = one_frame" "block_start (small_ring\<lparr>rg_walk := w\<rparr>) 0 = 0"
  "block_status Little (small_ring\<lparr>rg_walk := w\<rparr>) 0 = 1"
  by (simp_all add: ring_block_def small_ring_def block_start_def length_one_frame block_status_def status_word_def
      BLOCK_STATUS_OFFSET_def one_frame_fields)

lemma small_turns:
  "ring_turn Little (small_ring\<lparr>rg_walk := None\<rparr>) = (Continue, small_ring\<lparr>rg_walk := Some \<lparr>wk_offset = 48, wk_remaining = 1\<rparr>\<rparr>)"
  "ring_turn Little (small_ring\<lparr>rg_walk := Some \<lparr>wk_offset = 48, wk_remaining = 1\<rparr>\<rparr>) =
     (Return (Some small_frame), small_ring\<lparr>rg_walk := Some \<lparr>wk_offset = 0, wk_remaining = 0\<rparr>\<rparr>)"
proof -
  have c: "rg_cur_block small_ring = 0" "rg_snaplen small_ring = 100" by (simp_all add: small_ring_def)
  show "ring_turn Little (small_ring\<lparr>rg_walk := None\<rparr>) = (Continue, small_ring\<lparr>rg_walk := Some \<lparr>wk_offset = 48, wk_remaining = 1\<rparr>\<rparr>)"
    by (simp add: ring_turn_def c small_blocks TP_STATUS_USER_def take_block_def parse_block_desc_def length_one_frame
        BLOCK_DESC_SIZE_def read_block_desc_def one_frame_fields)
  have "parse_frame Little one_frame 48 100 = Some (small_frame, None)"
    by (simp add: parse_frame_def checked_add_def TPACKET3_HDR_SIZE_def length_one_frame read_tpacket3_hdr_def one_frame_fields
        small_frame_def)
  then show "ring_turn Little (small_ring\<lparr>rg_walk := Some \<lparr>wk_offset = 48, wk_remaining = 1\<rparr>\<rparr>) =
     (Return (Some small_frame), small_ring\<lparr>rg_walk := Some \<lparr>wk_offset = 0, wk_remaining = 0\<rparr>\<rparr>)"
    by (simp add: ring_turn_def c small_blocks next_walk_def small_frame_def)
qed

lemma small_run: "ring_run Little small_ring [] (small_ring\<lparr>rg_walk := Some \<lparr>wk_offset = 48, wk_remaining = 1\<rparr>\<rparr>)"
  using run_step [OF user_turn [OF small_turns(1)] run_refl] by (simp add: small_ring_def)

lemma small_delivery:
  "ring_run Little small_ring [(small_frame, [7, 8])] (small_ring\<lparr>rg_walk := Some \<lparr>wk_offset = 0, wk_remaining = 0\<rparr>\<rparr>)"
proof -
  have "frame_bytes (small_ring\<lparr>rg_walk := w\<rparr>) small_frame = [7, 8]" for w
    by (simp add: frame_bytes_def small_ring_def small_frame_def one_frame_def)
  then show ?thesis
    using run_step [OF user_turn [OF small_turns(1)] run_step [OF user_turn [OF small_turns(2)] run_refl]]
    by (simp add: small_ring_def)
qed

section \<open>Properties\<close>

text \<open>
  C22: the dimensions \<open>ring_geometry\<close> computes meet what the kernel asks of a ring: blocks are a multiple of
  the page size and of at least the requested size, frames are 16-byte aligned, hold the header and \<open>snaplen\<close> bytes and fit into a block,
  the frame count is exactly that of all blocks, the mapping covers all blocks, and every number fits its 32-bit field.
  It fails only for zero blocks, zero bytes, or dimensions that do not fit 32 bits.
\<close>

theorem ring_geometry_accepted:
  assumes "snap < 2 ^ 32" "0 < page" "page < 2 ^ 32" "rc_block_size cfg + page \<le> 2 ^ 64"
  shows "case (ring_geometry cfg snap page :: 'p tap_error + geometry) of
      Inr g \<Rightarrow>
        page dvd g_block_size g \<and> rc_block_size cfg \<le> g_block_size g \<and> 16 dvd g_frame_size g \<and>
        snap + tpacket3_hdrlen \<le> g_frame_size g \<and> g_frame_size g \<le> g_block_size g \<and>
        g_frame_count g = g_block_size g div g_frame_size g * g_block_count g \<and> g_block_count g = rc_block_count cfg \<and>
        g_map_len g = g_block_size g * g_block_count g \<and>
        g_block_size g < 2 ^ 32 \<and> g_block_count g < 2 ^ 32 \<and> g_frame_count g < 2 ^ 32
    | Inl e \<Rightarrow>
        let frame = max (tpacket_align (snap + tpacket3_hdrlen)) MIN_FRAME_SIZE;
            block = round_up (max (rc_block_size cfg) frame) page
        in rc_block_count cfg = 0 \<or> rc_block_size cfg = 0 \<or> 2 ^ 32 \<le> rc_block_count cfg \<or> 2 ^ 32 \<le> block \<or>
           2 ^ 32 \<le> block div frame * rc_block_count cfg"
proof (cases "ring_geometry cfg snap page :: 'p tap_error + geometry")
  case (Inr g)
  then show ?thesis using ring_geometry_dims [OF Inr assms] ring_geometry_counts [OF Inr] by simp
next
  case (Inl e)
  define F where "F = max (tpacket_align (snap + tpacket3_hdrlen)) MIN_FRAME_SIZE"
  define B where "B = round_up (max (rc_block_size cfg) F) page"
  have sat: "saturating_add snap tpacket3_hdrlen = snap + tpacket3_hdrlen"
    using assms(1) by (simp add: saturating_add_def tpacket3_hdrlen_eq)
  have "2 ^ 32 \<le> rc_block_count cfg \<or> 2 ^ 32 \<le> x" if "2 ^ 64 \<le> x * rc_block_count cfg" for x :: nat
    using that mult_strict_mono [of x "2 ^ 32" "rc_block_count cfg" "2 ^ 32"] by (auto simp: not_le [symmetric])
  then show ?thesis
    using Inl unfolding ring_geometry_def sat Let_def F_def [symmetric] B_def [symmetric]
    by (auto simp: rbind_eq_Inl ok_or_else_def checked_mul_def not_less split: if_splits option.splits)
qed

theorem ring_geometry_accepted_witness:
  "ring_geometry small_config 100 4096 = (Inr \<lparr>g_block_size = 8192, g_block_count = 1, g_frame_size = 2048,
     g_frame_count = 4, g_map_len = 8192\<rparr> :: nat tap_error + geometry) \<and> 4096 dvd (8192 :: nat) \<and> 100 + tpacket3_hdrlen \<le> 2048"
  using ring_geometry_accepted [of 100 4096 small_config, where 'p = nat] by (simp add: small_geometry small_block_size)



text \<open>
  C10: a frame that \<open>next_frame\<close> returns lies inside one block of the mapping, and as long as the caller does not call again, the
  block stays the caller's and its bytes stay what they were, whatever the kernel writes.
\<close>

theorem ring_frame_stays_valid:
  assumes "ring_open show_io v sysconf set_ring mmap cfg snap = (Inr r :: 'p tap_error + ring)"
    and "\<And>n b. mmap n = Inr b \<Longrightarrow> length b = n" "snap < 2 ^ 32" "sysconf < 2 ^ 32"
    and "rc_block_size cfg + page_size sysconf \<le> 2 ^ 64" "ring_run host r ms r1"
    and "ring_turn host r1 = (Return (Some m), r2)" "(kernel_step host)\<^sup>*\<^sup>* r2 r3"
  shows "\<exists>i < g_block_count (rg_geom r3). owned host r3 i \<and> i * g_block_size (rg_geom r3) \<le> fm_offset m \<and>
      fm_offset m + fm_len m \<le> i * g_block_size (rg_geom r3) + g_block_size (rg_geom r3) \<and>
      i * g_block_size (rg_geom r3) + g_block_size (rg_geom r3) \<le> length (rg_map r3) \<and>
      frame_bytes r3 m = frame_bytes r2 m \<and> length (frame_bytes r3 m) = fm_len m"
proof -
  have "ring_ok host r1" using ring_run_fifo [OF assms(6) ring_open_ok(1) [OF assms(1-5)]] by blast
  note t = ring_turn_Return [OF this assms(7)]
  then have ok: "ring_ok host r2" "rg_walk r2 \<noteq> None" by auto
  let ?i = "rg_cur_block r2"
  note k = kernel_run_keeps [OF assms(8) ok]
  have i: "?i < g_block_count (rg_geom r3)" using ring_okD(4) [OF ok(1)] k by simp
  have "frame_bytes r3 m = frame_bytes r2 m"
    using frame_bytes_block [of host r3 ?i m] frame_bytes_block [of host r2 ?i m] t k i by simp
  moreover have l: "?i * g_block_size (rg_geom r3) + g_block_size (rg_geom r3) \<le> length (rg_map r3)"
    using block_start_eq(2) [of host r3 ?i] k i by blast
  moreover have "fm_offset m + fm_len m \<le> length (rg_map r3)" using l t k by auto
  then have "length (frame_bytes r3 m) = fm_len m" by (simp add: frame_bytes_def)
  ultimately show ?thesis using i t k ring_okD(6) [of host r3] by (intro exI [of _ ?i]) auto
qed

theorem ring_frame_stays_valid_witness:
  "\<exists>i < g_block_count (rg_geom small_ring). owned Little (small_ring\<lparr>rg_walk := Some \<lparr>wk_offset = 0, wk_remaining = 0\<rparr>\<rparr>) i \<and>
     i * 8192 \<le> fm_offset small_frame \<and> fm_offset small_frame + fm_len small_frame \<le> i * 8192 + 8192 \<and>
     length (frame_bytes (small_ring\<lparr>rg_walk := Some \<lparr>wk_offset = 0, wk_remaining = 0\<rparr>\<rparr>) small_frame) = 2"
  using ring_frame_stays_valid [OF small_opened(1,2) _ _ small_opened(3) small_run small_turns(2) rtranclp.rtrancl_refl]
  by (simp add: small_frame_def) (simp add: small_ring_def)

text \<open>
  C20: reading ends. Whatever has happened since \<open>open\<close>, a caller that switches the ring to non-blocking mode and reads until
  \<open>None\<close> gets exactly the packets of the queue, in order, with their timestamps carried to whole seconds, and no error
  or panic.
\<close>

theorem ring_drains:
  assumes "ring_open show_io v sysconf set_ring mmap cfg snap = (Inr r :: 'p tap_error + ring)"
    and "\<And>n b. mmap n = Inr b \<Longrightarrow> length b = n" "snap < 2 ^ 32" "sysconf < 2 ^ 32"
    and "rc_block_size cfg + page_size sysconf \<le> 2 ^ 64" "ring_run host r ms r'"
  shows "\<exists>s'. drain (ring_next poll host lt) (k, set_nonblocking True r') =
    Some (Inr (map (ring_packet lt) (pending_data host r')) :: 'p tap_error + packet_ref list, s')"
proof (rule ring_source.drain_all)
  have "ring_ok host r'" using ring_run_fifo [OF assms(6) ring_open_ok(1) [OF assms(1-5)]] by blast
  then show "ring_holds host lt (k, set_nonblocking True r') (map (ring_packet lt) (pending_data host r'))"
    by (simp add: ring_holds_def set_nonblocking_queue) (simp add: set_nonblocking_def)
qed

theorem ring_drains_witness:
  "\<exists>s'. drain (ring_next (\<lambda>k bytes. (None, bytes, k)) Little Ethernet) (0 :: nat, set_nonblocking True small_ring) =
     Some (Inr (map (ring_packet Ethernet) (pending_data Little small_ring)) :: nat tap_error + packet_ref list, s')"
  using ring_drains [OF small_opened(1,2) _ _ small_opened(3) run_refl] by simp

text \<open>
  Without the bound on the block size the rounding wraps: a block of \<open>usize::MAX\<close> bytes becomes a ring of empty blocks
  instead of an error.
\<close>

lemma oversized_block_wraps:
  "ring_geometry (with_block_count 1 (with_block_size (2 ^ 64 - 1) ring_config_new)) 100 4096 =
     Inr \<lparr>g_block_size = 0, g_block_count = 1, g_frame_size = 2048, g_frame_count = 0, g_map_len = 0\<rparr>"
proof -
  have "max (tpacket_align (saturating_add 100 tpacket3_hdrlen)) MIN_FRAME_SIZE = 2048"
    by (simp add: saturating_add_def tpacket3_hdrlen_eq tpacket_align_eq MIN_FRAME_SIZE_def)
  moreover have "round_up (2 ^ 64 - 1) 4096 = 0" by (simp add: round_up_def usize_mul_def)
  ultimately show ?thesis
    by (simp add: ring_geometry_def with_block_count_def with_block_size_def ok_or_else_def checked_mul_def Let_def)
qed

end
