(* ===== verification/Emit_Logic.thy ===== *)
theory Emit_Logic
  imports Codegen Optimizer_Correct
begin

text \<open>
  A program logic for code under construction. A fragment is a list of instructions at a position,
  with a map from its open jump slots to the exit they wait for. \<open>frag\<close> says what a fragment
  does in every finished program that contains it: the open slots go wherever the program sends
  that exit, so gluing fragments, resolving slots and appending code are rules of the logic.
  The accumulator is never live between fragments; what a fragment passes on is X.
\<close>

section \<open>Slots and exits\<close>

datatype exit = ESucc | EFail | EAux

fun pidx :: "patch \<Rightarrow> nat" where
  "pidx (Jt i) = i"
| "pidx (Jf i) = i"
| "pidx (Ja i) = i"

type_synonym slots = "patch \<Rightarrow> exit option"

definition pend :: "patch list \<Rightarrow> patch list \<Rightarrow> slots" where
  "pend su fa p = (if p \<in> set su then Some ESucc else if p \<in> set fa then Some EFail else None)"

definition slot_target :: "(patch \<Rightarrow> nat option) \<Rightarrow> patch \<Rightarrow> nat \<Rightarrow> nat" where
  "slot_target \<tau> p t = (case \<tau> p of Some u \<Rightarrow> u | None \<Rightarrow> t)"

text \<open>Instruction \<open>i'\<close> at \<open>n\<close> is \<open>i\<close> up to the jump distances, and goes where \<open>\<tau>\<close> says.\<close>

definition insn_agrees :: "nat \<Rightarrow> (patch \<Rightarrow> nat option) \<Rightarrow> insn \<Rightarrow> insn \<Rightarrow> bool" where
  "insn_agrees n \<tau> i i' \<longleftrightarrow>
     code i' = code i \<and>
     (if is_ja i then n + 1 + unat (k_field i') = slot_target \<tau> (Ja n) (n + 1 + unat (k_field i))
      else k_field i' = k_field i) \<and>
     (is_cond_jump i \<longrightarrow>
        n + 1 + unat (jt i') = slot_target \<tau> (Jt n) (n + 1 + unat (jt i)) \<and>
        n + 1 + unat (jf i') = slot_target \<tau> (Jf n) (n + 1 + unat (jf i)))"

fun agree :: "insn list \<Rightarrow> nat \<Rightarrow> insn list \<Rightarrow> (patch \<Rightarrow> nat option) \<Rightarrow> bool" where
  "agree P n [] \<tau> \<longleftrightarrow> True"
| "agree P n (i # F) \<tau> \<longleftrightarrow> n < length P \<and> insn_agrees n \<tau> i (P ! n) \<and> agree P (n + 1) F \<tau>"

lemma agree_append: "agree P n (F @ G) \<tau> \<longleftrightarrow> agree P n F \<tau> \<and> agree P (n + length F) G \<tau>"
  by (induction F arbitrary: n) auto

lemma agree_drop: "agree P n F \<tau> \<Longrightarrow> k \<le> length F \<Longrightarrow> agree P (n + k) (drop k F) \<tau>"
  using agree_append [of P n "take k F" "drop k F"] by (simp add: min_absorb2)

lemma agree_nth:
  "agree P n F \<tau> \<longleftrightarrow> (\<forall>j < length F. n + j < length P \<and> insn_agrees (n + j) \<tau> (F ! j) (P ! (n + j)))"
proof (induction F arbitrary: n)
  case (Cons i F)
  then show ?case by (auto simp: less_Suc_eq_0_disj)
qed simp

lemma insn_agrees_cong:
  "(\<And>p. pidx p = n \<Longrightarrow> \<tau> p = \<tau>' p) \<Longrightarrow> insn_agrees n \<tau> i i' = insn_agrees n \<tau>' i i'"
  by (simp add: insn_agrees_def slot_target_def)

lemma agree_cong:
  "(\<And>p. n \<le> pidx p \<Longrightarrow> pidx p < n + length F \<Longrightarrow> \<tau> p = \<tau>' p) \<Longrightarrow> agree P n F \<tau> = agree P n F \<tau>'"
proof (induction F arbitrary: n)
  case (Cons i F)
  have "insn_agrees n \<tau> i (P ! n) = insn_agrees n \<tau>' i (P ! n)"
    by (rule insn_agrees_cong) (simp add: Cons.prems)
  moreover have "agree P (n + 1) F \<tau> = agree P (n + 1) F \<tau>'"
    by (rule Cons.IH) (simp add: Cons.prems)
  ultimately show ?case by simp
qed simp

section \<open>Shape of a fragment\<close>

definition in_range :: "nat \<Rightarrow> insn list \<Rightarrow> slots \<Rightarrow> bool" where
  "in_range lo F L \<longleftrightarrow> (\<forall>p. L p \<noteq> None \<longrightarrow> lo \<le> pidx p \<and> pidx p < lo + length F)"

text \<open>
  Open slots are of the kind of their instruction, jumps that are not open stay inside the fragment
  or go to its end, and no undefined \<open>MISC\<close> opcode occurs.
\<close>

fun shaped :: "nat \<Rightarrow> insn list \<Rightarrow> slots \<Rightarrow> bool" where
  "shaped n [] L \<longleftrightarrow> True"
| "shaped n (i # F) L \<longleftrightarrow>
     (L (Ja n) \<noteq> None \<longrightarrow> is_ja i) \<and>
     (L (Jt n) \<noteq> None \<longrightarrow> is_cond_jump i) \<and>
     (L (Jf n) \<noteq> None \<longrightarrow> is_cond_jump i) \<and>
     (is_ja i \<and> L (Ja n) = None \<longrightarrow> unat (k_field i) \<le> length F) \<and>
     (is_cond_jump i \<and> L (Jt n) = None \<longrightarrow> unat (jt i) \<le> length F) \<and>
     (is_cond_jump i \<and> L (Jf n) = None \<longrightarrow> unat (jf i) \<le> length F) \<and>
     misc_ok i \<and> shaped (n + 1) F L"

lemma shaped_append:
  "shaped n F L \<Longrightarrow> shaped (n + length F) G L \<Longrightarrow> shaped n (F @ G) L"
  by (induction F arbitrary: n) (auto intro: trans_le_add1)

lemma shaped_cong:
  "(\<And>p. n \<le> pidx p \<Longrightarrow> pidx p < n + length F \<Longrightarrow> L p = L' p) \<Longrightarrow> shaped n F L = shaped n F L'"
proof (induction F arbitrary: n)
  case (Cons i F)
  have "shaped (n + 1) F L = shaped (n + 1) F L'"
    by (rule Cons.IH) (simp add: Cons.prems)
  then show ?case using Cons.prems [of "Ja n"] Cons.prems [of "Jt n"] Cons.prems [of "Jf n"] by simp
qed simp

section \<open>What a fragment does\<close>

definition ready :: "vm_state \<Rightarrow> bool" where
  "ready s \<longleftrightarrow> length (scratch s) = SCRATCH"

text \<open>
  The outcome \<open>r\<close> of a run is an abort on a packet shorter than \<open>N\<close>, or it is the outcome of
  going on at \<open>hi\<close> (label \<open>None\<close>) or where the exit \<open>l\<close> is sent, from a state whose X satisfies
  the postcondition of that label.
\<close>

definition settles ::
  "insn list \<Rightarrow> packet \<Rightarrow> nat \<Rightarrow> (exit \<Rightarrow> nat) \<Rightarrow> nat \<Rightarrow> (exit option \<Rightarrow> u32 \<Rightarrow> bool) \<Rightarrow> bool option \<Rightarrow> bool" where
  "settles P pkt N T hi Q r \<longleftrightarrow>
     (r = None \<and> length pkt < N) \<or>
     (\<exists>s. ready s \<and> Q None (x_reg s) \<and> r = vm_at P pkt hi s) \<or>
     (\<exists>l s. ready s \<and> Q (Some l) (x_reg s) \<and> r = vm_at P pkt (T l) s)"

definition frag ::
  "nat \<Rightarrow> packet \<Rightarrow> nat \<Rightarrow> insn list \<Rightarrow> slots \<Rightarrow> (u32 \<Rightarrow> bool) \<Rightarrow> (exit option \<Rightarrow> u32 \<Rightarrow> bool) \<Rightarrow> bool" where
  "frag N pkt lo F L A Q \<longleftrightarrow>
     in_range lo F L \<and> shaped lo F L \<and>
     (\<forall>P T s. agree P lo F (map_option T \<circ> L) \<longrightarrow> ready s \<longrightarrow> A (x_reg s) \<longrightarrow>
        settles P pkt N T (lo + length F) Q (vm_at P pkt lo s))"

lemma settles_mono:
  "settles P pkt N T hi Q r \<Longrightarrow> (\<And>l x. Q l x \<Longrightarrow> Q' l x) \<Longrightarrow> settles P pkt N T hi Q' r"
  unfolding settles_def by blast

lemma frag_conseq:
  "frag N pkt lo F L A Q \<Longrightarrow> (\<And>x. A' x \<Longrightarrow> A x) \<Longrightarrow> (\<And>l x. Q l x \<Longrightarrow> Q' l x) \<Longrightarrow> frag N pkt lo F L A' Q'"
  unfolding frag_def by (blast intro: settles_mono)

lemma frag_Nil: "(\<And>x. A x \<Longrightarrow> Q None x) \<Longrightarrow> frag N pkt lo [] (\<lambda>_. None) A Q"
  by (auto simp: frag_def in_range_def settles_def)

lemma in_range_out: "in_range lo F L \<Longrightarrow> pidx p < lo \<or> lo + length F \<le> pidx p \<Longrightarrow> L p = None"
  by (force simp: in_range_def)

lemma frag_seq:
  assumes 1: "frag N pkt lo F L A Q1" and 2: "frag N pkt (lo + length F) G M B Q2"
    and mid: "\<And>x. Q1 None x \<Longrightarrow> B x"
    and out: "\<And>l x. Q1 (Some l) x \<Longrightarrow> Q (Some l) x" "\<And>l x. Q2 l x \<Longrightarrow> Q l x"
  shows "frag N pkt lo (F @ G) (L ++ M) A Q"
proof -
  have r1: "in_range lo F L" and r2: "in_range (lo + length F) G M"
    using 1 2 by (simp_all add: frag_def)
  have L: "(L ++ M) p = L p" if "lo \<le> pidx p" "pidx p < lo + length F" for p
    using in_range_out [OF r2] that by (simp add: map_add_def split: option.splits)
  have M: "(L ++ M) p = M p" if "lo + length F \<le> pidx p" for p
    using in_range_out [OF r1] that by (simp add: map_add_def split: option.splits)
  have rng: "in_range lo (F @ G) (L ++ M)"
    using r1 r2 by (force simp: in_range_def)
  have shp: "shaped lo (F @ G) (L ++ M)"
    using 1 2 by (intro shaped_append) (simp_all add: frag_def L M cong: shaped_cong)
  show ?thesis unfolding frag_def
  proof (intro conjI allI impI rng shp)
    fix P T s
    assume ag: "agree P lo (F @ G) (map_option T \<circ> (L ++ M))" and s: "ready s" "A (x_reg s)"
    have a1: "agree P lo F (map_option T \<circ> L)" and a2: "agree P (lo + length F) G (map_option T \<circ> M)"
      using ag by (simp_all add: agree_append L M cong: agree_cong)
    have "settles P pkt N T (lo + length F) Q1 (vm_at P pkt lo s)"
      using 1 a1 s by (simp add: frag_def)
    moreover have "settles P pkt N T (lo + length F + length G) Q2 (vm_at P pkt (lo + length F) t)"
      if "ready t" "Q1 None (x_reg t)" for t
      using 2 a2 that mid by (simp add: frag_def)
    ultimately show "settles P pkt N T (lo + length (F @ G)) Q (vm_at P pkt lo s)"
      using out unfolding settles_def by (simp add: add.assoc) metis
  qed
qed

section \<open>Exits renamed\<close>

lemma shaped_dom: "(\<And>p. (L p = None) = (L' p = None)) \<Longrightarrow> shaped n F L = shaped n F L'"
  by (induction F arbitrary: n) simp_all

lemma frag_relabel:
  assumes "frag N pkt lo F L A Q"
  shows "frag N pkt lo F (map_option f \<circ> L) A
    (\<lambda>l x. case l of None \<Rightarrow> Q None x | Some e \<Rightarrow> \<exists>d. f d = e \<and> Q (Some d) x)"
  unfolding frag_def
proof (intro conjI allI impI)
  show "in_range lo F (map_option f \<circ> L)" using assms by (simp add: frag_def in_range_def)
  show "shaped lo F (map_option f \<circ> L)"
    using assms shaped_dom [of L "map_option f \<circ> L"] by (simp add: frag_def)
  fix P T s
  assume "agree P lo F (map_option T \<circ> (map_option f \<circ> L))" "ready s" "A (x_reg s)"
  moreover have "map_option T \<circ> (map_option f \<circ> L) = map_option (T \<circ> f) \<circ> L"
    by (simp add: fun_eq_iff option.map_comp)
  ultimately have "settles P pkt N (T \<circ> f) (lo + length F) Q (vm_at P pkt lo s)"
    using assms by (simp add: frag_def)
  then show "settles P pkt N T (lo + length F)
      (\<lambda>l x. case l of None \<Rightarrow> Q None x | Some e \<Rightarrow> \<exists>d. f d = e \<and> Q (Some d) x) (vm_at P pkt lo s)"
    unfolding settles_def by auto
qed

section \<open>Slots resolved\<close>

fun set_slot :: "patch \<Rightarrow> u8 \<Rightarrow> insn \<Rightarrow> insn" where
  "set_slot (Jt _) off i = i\<lparr>jt := off\<rparr>"
| "set_slot (Jf _) off i = i\<lparr>jf := off\<rparr>"
| "set_slot (Ja _) off i = i\<lparr>k_field := ucast off\<rparr>"

fun slot_kind :: "patch \<Rightarrow> insn \<Rightarrow> bool" where
  "slot_kind (Jt _) i = is_cond_jump i"
| "slot_kind (Jf _) i = is_cond_jump i"
| "slot_kind (Ja _) i = is_ja i"

text \<open>\<open>C'\<close> is \<open>C\<close> with the slots \<open>ps\<close> sent to \<open>t\<close>, one after the other.\<close>

fun resolves :: "patch list \<Rightarrow> nat \<Rightarrow> insn list \<Rightarrow> insn list \<Rightarrow> bool" where
  "resolves [] t C C' \<longleftrightarrow> C' = C"
| "resolves (p # ps) t C C' \<longleftrightarrow>
     pidx p < length C \<and> pidx p < t \<and> t - pidx p - 1 \<le> 255 \<and>
     resolves ps t (C[pidx p := set_slot p (of_nat (t - pidx p - 1)) (C ! pidx p)]) C'"

lemma resolve_Inr:
  "resolve p t cg = Inr cg' \<longleftrightarrow>
     pidx p < length (cg_insns cg) \<and> pidx p < t \<and> t - pidx p - 1 \<le> 255 \<and>
     cg' = cg\<lparr>cg_insns := (cg_insns cg)[pidx p := set_slot p (of_nat (t - pidx p - 1)) (cg_insns cg ! pidx p)]\<rparr>"
  by (cases p) (auto simp: jump_offset_def set_insn_def)

lemma resolve_all_Inr:
  "resolve_all ps t cg = Inr cg' \<Longrightarrow> \<exists>C. resolves ps t (cg_insns cg) C \<and> cg' = cg\<lparr>cg_insns := C\<rparr>"
  by (induction ps arbitrary: cg) (force simp: rbind_eq_Inr resolve_Inr)+

lemma resolves_length: "resolves ps t C C' \<Longrightarrow> length C' = length C"
  by (induction ps arbitrary: C) force+

lemma resolves_prefix:
  "resolves ps t (C @ F) D \<Longrightarrow> (\<forall>p \<in> set ps. length C \<le> pidx p) \<Longrightarrow> \<exists>F'. D = C @ F' \<and> length F' = length F"
proof (induction ps arbitrary: F)
  case (Cons p ps)
  then show ?case by (fastforce simp: list_update_append nth_append)
qed simp

lemma slot_kind_set [simp]: "slot_kind q (set_slot p off i) = slot_kind q i"
  by (cases p; cases q) simp_all

lemma is_ja_set [simp]: "is_ja (set_slot p off i) = is_ja i" "is_cond_jump (set_slot p off i) = is_cond_jump i"
  "code (set_slot p off i) = code i" "misc_ok (set_slot p off i) = misc_ok i"
  by (cases p; simp add: misc_ok_def)+

lemma insn_agrees_slot:
  assumes "slot_kind p i" "pidx p < t" "t - pidx p - 1 \<le> 255" "\<tau> p = None"
    and "insn_agrees (pidx p) \<tau> (set_slot p (of_nat (t - pidx p - 1)) i) i'"
  shows "insn_agrees (pidx p) (\<tau>(p \<mapsto> t)) i i'"
proof (cases p)
  case (Ja n)
  have "unat (ucast (of_nat (t - n - 1) :: u8) :: u32) = t - n - 1"
    using assms Ja by (simp add: unat_of_nat_u8 del: of_nat_diff)
  then show ?thesis
    using assms Ja by (auto simp: insn_agrees_def slot_target_def simp del: of_nat_diff)
next
  case (Jt n)
  then show ?thesis
    using assms by (auto simp: insn_agrees_def slot_target_def unat_of_nat_u8 simp del: of_nat_diff)
next
  case (Jf n)
  then show ?thesis
    using assms by (auto simp: insn_agrees_def slot_target_def unat_of_nat_u8 simp del: of_nat_diff)
qed

lemma insn_agrees_upd_other: "pidx p \<noteq> n \<Longrightarrow> insn_agrees n (\<tau>(p \<mapsto> t)) i i' = insn_agrees n \<tau> i i'"
  by (rule insn_agrees_cong) auto

lemma insn_agrees_set_closed:
  "\<tau> p \<noteq> None \<Longrightarrow> slot_kind p i \<Longrightarrow> insn_agrees (pidx p) \<tau> (set_slot p off i) i' = insn_agrees (pidx p) \<tau> i i'"
  by (cases p) (auto simp: insn_agrees_def slot_target_def)

definition send :: "patch list \<Rightarrow> nat \<Rightarrow> (patch \<Rightarrow> nat option) \<Rightarrow> patch \<Rightarrow> nat option" where
  "send ps t \<tau> p = (if p \<in> set ps then Some t else \<tau> p)"

lemma resolves_agrees:
  "resolves ps t C C' \<Longrightarrow> (\<forall>p \<in> set ps. slot_kind p (C ! pidx p) \<and> \<tau> p = None) \<Longrightarrow>
   n < length C \<Longrightarrow> insn_agrees n \<tau> (C' ! n) i' \<Longrightarrow> insn_agrees n (send ps t \<tau>) (C ! n) i'"
proof (induction ps arbitrary: C)
  case Nil
  then show ?case by (simp add: send_def [abs_def])
next
  case (Cons p ps)
  let ?C = "C[pidx p := set_slot p (of_nat (t - pidx p - 1)) (C ! pidx p)]"
  have p: "pidx p < length C" "pidx p < t" "t - pidx p - 1 \<le> 255" "resolves ps t ?C C'"
    using Cons.prems(1) by (simp_all del: of_nat_diff)
  have "slot_kind q (?C ! pidx q)" if "q \<in> set ps" for q
    using Cons.prems(2) that p(1) by (cases "pidx q = pidx p") auto
  then have IH: "insn_agrees n (send ps t \<tau>) (?C ! n) i'"
    using Cons.prems by (intro Cons.IH [OF p(4)]) simp_all
  have eq: "send (p # ps) t \<tau> = (send ps t \<tau>)(p \<mapsto> t)" by (auto simp: send_def)
  have kind: "slot_kind p (C ! pidx p)" using Cons.prems(2) by simp
  consider "n \<noteq> pidx p" | "n = pidx p" "p \<in> set ps" | "n = pidx p" "p \<notin> set ps" by blast
  then show ?case
  proof cases
    case 1
    then show ?thesis using IH insn_agrees_upd_other [of p n "send ps t \<tau>"] by (simp only: eq) simp
  next
    case 2
    then have "send (p # ps) t \<tau> = send ps t \<tau>" by (auto simp: send_def)
    moreover have "send ps t \<tau> p \<noteq> None" using 2 by (simp add: send_def)
    ultimately show ?thesis
      using IH 2(1) p(1) kind by (simp add: insn_agrees_set_closed del: of_nat_diff)
  next
    case 3
    then have none: "send ps t \<tau> p = None" using Cons.prems(2) by (simp add: send_def)
    have "insn_agrees (pidx p) (send ps t \<tau>) (set_slot p (of_nat (t - pidx p - 1)) (C ! pidx p)) i'"
      using IH 3(1) p(1) by simp
    from insn_agrees_slot [where \<tau> = "send ps t \<tau>", OF kind p(2,3) none this]
    show ?thesis unfolding eq 3(1) .
  qed
qed

lemma resolves_agree:
  assumes "resolves ps t (C @ F) (C @ F')" "length F' = length F"
    and "\<forall>p \<in> set ps. length C \<le> pidx p \<and> slot_kind p ((C @ F) ! pidx p) \<and> \<tau> p = None"
    and "agree P (length C) F' \<tau>"
  shows "agree P (length C) F (send ps t \<tau>)"
  unfolding agree_nth
proof (intro allI impI conjI)
  fix j
  assume j: "j < length F"
  then have F': "length C + j < length P" "insn_agrees (length C + j) \<tau> (F' ! j) (P ! (length C + j))"
    using assms(2,4) by (simp_all add: agree_nth)
  then show "length C + j < length P" by simp
  show "insn_agrees (length C + j) (send ps t \<tau>) (F ! j) (P ! (length C + j))"
    using resolves_agrees [OF assms(1), of \<tau> "length C + j"] assms(3) F' j by simp
qed

text \<open>\<open>shaped\<close> position by position.\<close>

definition shape_at :: "nat \<Rightarrow> nat \<Rightarrow> slots \<Rightarrow> insn \<Rightarrow> bool" where
  "shape_at hi n L i \<longleftrightarrow>
     (\<forall>p. pidx p = n \<longrightarrow> L p \<noteq> None \<longrightarrow> slot_kind p i) \<and>
     (is_ja i \<and> L (Ja n) = None \<longrightarrow> n + 1 + unat (k_field i) \<le> hi) \<and>
     (is_cond_jump i \<and> L (Jt n) = None \<longrightarrow> n + 1 + unat (jt i) \<le> hi) \<and>
     (is_cond_jump i \<and> L (Jf n) = None \<longrightarrow> n + 1 + unat (jf i) \<le> hi) \<and> misc_ok i"

lemma slot_at: "(\<forall>p. pidx p = n \<longrightarrow> R p) \<longleftrightarrow> R (Ja n) \<and> R (Jt n) \<and> R (Jf n)"
proof
  assume "R (Ja n) \<and> R (Jt n) \<and> R (Jf n)"
  then show "\<forall>p. pidx p = n \<longrightarrow> R p" by (metis pidx.elims)
qed auto

lemma shaped_nth: "shaped lo F L \<longleftrightarrow> (\<forall>j < length F. shape_at (lo + length F) (lo + j) L (F ! j))"
proof (induction F arbitrary: lo)
  case (Cons i F)
  have "shaped lo (i # F) L \<longleftrightarrow> shape_at (lo + length (i # F)) lo L i \<and> shaped (lo + 1) F L"
    unfolding shape_at_def slot_at by auto
  also have "\<dots> \<longleftrightarrow> (\<forall>j < length (i # F). shape_at (lo + length (i # F)) (lo + j) L ((i # F) ! j))"
    using Cons.IH [of "lo + 1"] by (auto simp: less_Suc_eq_0_disj)
  finally show ?case .
qed simp

definition close :: "exit \<Rightarrow> slots \<Rightarrow> slots" where
  "close e L p = (if L p = Some e then None else L p)"

text \<open>Setting slot \<open>p\<close> to the end of the fragment keeps the shape.\<close>

lemma misc_ok_update [simp]:
  "misc_ok (i\<lparr>k_field := v\<rparr>) = misc_ok i" "misc_ok (i\<lparr>jt := t\<rparr>) = misc_ok i" "misc_ok (i\<lparr>jf := t\<rparr>) = misc_ok i"
  by (simp_all add: misc_ok_def)

lemma shape_at_set:
  assumes "shape_at hi n L i" "pidx p = n" "slot_kind p i" "pidx p < hi" "hi - pidx p - 1 \<le> 255"
    and "\<And>q. L' q = (if q = p then None else L q)"
  shows "shape_at hi n L' (set_slot p (of_nat (hi - pidx p - 1)) i)"
proof (cases p)
  case (Ja m)
  have "unat (ucast (of_nat (hi - n - 1) :: u8) :: u32) = hi - n - 1"
    using assms by (simp add: unat_of_nat_u8 del: of_nat_diff)
  then show ?thesis using assms Ja by (simp add: shape_at_def slot_at del: of_nat_diff)
next
  case (Jt m)
  then show ?thesis using assms by (simp add: shape_at_def slot_at unat_of_nat_u8 del: of_nat_diff)
next
  case (Jf m)
  then show ?thesis using assms by (simp add: shape_at_def slot_at unat_of_nat_u8 del: of_nat_diff)
qed

lemma shape_at_cong: "(\<And>p. pidx p = n \<Longrightarrow> L p = L' p) \<Longrightarrow> shape_at hi n L i = shape_at hi n L' i"
  by (simp add: shape_at_def slot_at)

lemma resolves_shape:
  "resolves ps hi C C' \<Longrightarrow> (\<forall>p \<in> set ps. slot_kind p (C ! pidx p)) \<Longrightarrow> n < length C \<Longrightarrow>
   shape_at hi n L (C ! n) \<Longrightarrow> shape_at hi n (\<lambda>p. if p \<in> set ps then None else L p) (C' ! n)"
proof (induction ps arbitrary: C L)
  case (Cons p ps)
  let ?C = "C[pidx p := set_slot p (of_nat (hi - pidx p - 1)) (C ! pidx p)]"
  let ?L = "\<lambda>q. if q = p then None else L q"
  have p: "pidx p < length C" "pidx p < hi" "hi - pidx p - 1 \<le> 255" "resolves ps hi ?C C'"
    using Cons.prems(1) by (simp_all del: of_nat_diff)
  have kinds: "\<forall>q \<in> set ps. slot_kind q (?C ! pidx q)"
  proof
    fix q
    assume "q \<in> set ps"
    then show "slot_kind q (?C ! pidx q)"
      using Cons.prems(2) p(1) by (cases "pidx q = pidx p") auto
  qed
  have "shape_at hi n ?L (?C ! n)"
  proof (cases "n = pidx p")
    case True
    have "shape_at hi n ?L (set_slot p (of_nat (hi - pidx p - 1)) (C ! n))"
      by (rule shape_at_set [OF Cons.prems(4) True [symmetric] _ p(2,3)])
         (use Cons.prems(2) True in simp_all)
    then show ?thesis using True p(1) by simp
  next
    case False
    then have "shape_at hi n ?L (C ! n) = shape_at hi n L (C ! n)"
      by (intro shape_at_cong) auto
    then show ?thesis using Cons.prems(4) False by simp
  qed
  then have "shape_at hi n (\<lambda>q. if q \<in> set ps then None else ?L q) (C' ! n)"
    using Cons.prems by (intro Cons.IH [OF p(4) kinds]) simp_all
  moreover have "(\<lambda>q. if q \<in> set ps then None else ?L q) = (\<lambda>q. if q \<in> set (p # ps) then None else L q)"
    by auto
  ultimately show ?case by simp
qed simp

lemma frag_resolve:
  assumes frag: "frag N pkt (length C) F L A Q"
    and res: "resolves ps (length C + length F) (C @ F) (C @ F')"
    and ps: "\<And>p. p \<in> set ps \<longleftrightarrow> L p = Some e"
  shows "frag N pkt (length C) F' (close e L) A
    (\<lambda>l x. case l of None \<Rightarrow> Q None x \<or> Q (Some e) x | Some d \<Rightarrow> d \<noteq> e \<and> Q (Some d) x)"
  unfolding frag_def
proof (intro conjI allI impI)
  have len: "length F' = length F" using resolves_length [OF res] by simp
  have rng: "in_range (length C) F L" and shp: "shaped (length C) F L"
    using frag by (simp_all add: frag_def)
  show "in_range (length C) F' (close e L)"
    using rng len by (simp add: in_range_def close_def)
  have kind: "length C \<le> pidx p \<and> slot_kind p ((C @ F) ! pidx p)" if "p \<in> set ps" for p
  proof -
    have "length C \<le> pidx p" "pidx p < length C + length F" "L p \<noteq> None"
      using that ps [of p] rng by (auto simp: in_range_def)
    moreover from this have "shape_at (length C + length F) (pidx p) L (F ! (pidx p - length C))"
      using shp [unfolded shaped_nth, rule_format, of "pidx p - length C"] by simp
    ultimately show ?thesis by (simp add: shape_at_def nth_append)
  qed
  have close: "(\<lambda>p. if p \<in> set ps then None else L p) = close e L"
    by (auto simp: close_def ps)
  show "shaped (length C) F' (close e L)" unfolding shaped_nth
  proof (intro allI impI)
    fix j
    assume j: "j < length F'"
    then have "shape_at (length C + length F) (length C + j) L ((C @ F) ! (length C + j))"
      using shp len by (simp add: shaped_nth)
    then show "shape_at (length C + length F') (length C + j) (close e L) (F' ! j)"
      using resolves_shape [OF res, of "length C + j" L] kind j len by (simp add: close)
  qed
  fix P T s
  assume ag: "agree P (length C) F' (map_option T \<circ> close e L)" and s: "ready s" "A (x_reg s)"
  let ?T = "T(e := length C + length F)"
  have "\<forall>p \<in> set ps. length C \<le> pidx p \<and> slot_kind p ((C @ F) ! pidx p) \<and> (map_option T \<circ> close e L) p = None"
    using kind ps by (simp add: close_def)
  then have "agree P (length C) F (send ps (length C + length F) (map_option T \<circ> close e L))"
    by (rule resolves_agree [OF res len _ ag])
  moreover have "send ps (length C + length F) (map_option T \<circ> close e L) = map_option ?T \<circ> L"
  proof
    fix p show "send ps (length C + length F) (map_option T \<circ> close e L) p = (map_option ?T \<circ> L) p"
      using ps [of p] by (cases "L p") (auto simp: send_def close_def)
  qed
  ultimately have "settles P pkt N ?T (length C + length F) Q (vm_at P pkt (length C) s)"
    using frag s by (simp add: frag_def)
  then show "settles P pkt N T (length C + length F')
      (\<lambda>l x. case l of None \<Rightarrow> Q None x \<or> Q (Some e) x | Some d \<Rightarrow> d \<noteq> e \<and> Q (Some d) x)
      (vm_at P pkt (length C) s)"
    unfolding settles_def len by (auto split: if_splits)
qed

section \<open>Computing what a closed list of instructions does\<close>

fun wp :: "nat \<Rightarrow> packet \<Rightarrow> nat \<Rightarrow> insn list \<Rightarrow> slots \<Rightarrow> (exit option \<Rightarrow> u32 \<Rightarrow> bool) \<Rightarrow> vm_state \<Rightarrow> bool" where
  "wp N pkt lo [] L Q s \<longleftrightarrow> Q None (x_reg s)"
| "wp N pkt lo (i # F) L Q s \<longleftrightarrow>
     (if is_ja i then
        (case L (Ja lo) of
           Some e \<Rightarrow> Q (Some e) (x_reg s)
         | None \<Rightarrow> unat (k_field i) \<le> length F \<and>
             wp N pkt (lo + 1 + unat (k_field i)) (drop (unat (k_field i)) F) L Q s)
      else if is_cond_jump i then
        (case cond_taken i s of
           None \<Rightarrow> False
         | Some t \<Rightarrow>
             if t then
               (case L (Jt lo) of
                  Some e \<Rightarrow> Q (Some e) (x_reg s)
                | None \<Rightarrow> unat (jt i) \<le> length F \<and>
                    wp N pkt (lo + 1 + unat (jt i)) (drop (unat (jt i)) F) L Q s)
             else
               (case L (Jf lo) of
                  Some e \<Rightarrow> Q (Some e) (x_reg s)
                | None \<Rightarrow> unat (jf i) \<le> length F \<and>
                    wp N pkt (lo + 1 + unat (jf i)) (drop (unat (jf i)) F) L Q s))
      else
        (case reg_step i pkt s of
           Abort \<Rightarrow> length pkt < N
         | Return b \<Rightarrow> False
         | Continue s' \<Rightarrow> wp N pkt (lo + 1) F L Q s'))"

lemma reg_step_cong: "code i' = code i \<Longrightarrow> k_field i' = k_field i \<Longrightarrow> reg_step i' pkt s = reg_step i pkt s"
  if "\<not> is_cond_jump i" "\<not> is_ja i"
proof -
  assume eq: "code i' = code i" "k_field i' = k_field i"
  have "code i AND 7 \<noteq> BPF_JMP" using that by (auto simp: is_ja_def is_cond_jump_def)
  then show ?thesis
    by (simp only: reg_step_def vm_step_def ld_value_def ldx_value_def uses_x_def eq Let_def if_False)
qed

lemma is_ja_cong: "code i' = code i \<Longrightarrow> is_ja i' = is_ja i" "code i' = code i \<Longrightarrow> is_cond_jump i' = is_cond_jump i"
  by (simp_all add: is_ja_def is_cond_jump_def)

lemma cond_taken_cong: "code i' = code i \<Longrightarrow> k_field i' = k_field i \<Longrightarrow> cond_taken i' s = cond_taken i s"
  by (simp add: cond_taken_def uses_x_def)

lemma reg_step_ready: "reg_step i pkt s = Continue s' \<Longrightarrow> ready s \<Longrightarrow> ready s'"
  by (auto simp: reg_step_def ready_def dest: vm_step_scratch)

lemma wp_sound:
  "wp N pkt lo F L Q s \<Longrightarrow> agree P lo F (map_option T \<circ> L) \<Longrightarrow> ready s \<Longrightarrow>
   settles P pkt N T (lo + length F) Q (vm_at P pkt lo s)"
proof (induction "length F" arbitrary: lo F s rule: less_induct)
  case less
  show ?case
  proof (cases F)
    case Nil
    then show ?thesis using less.prems by (auto simp: settles_def)
  next
    case (Cons i G)
    let ?i = "P ! lo" and ?\<tau> = "map_option T \<circ> L"
    have lo: "lo < length P" and ag: "insn_agrees lo ?\<tau> i ?i" and rest: "agree P (lo + 1) G ?\<tau>"
      using less.prems(2) Cons by simp_all
    have jump: "settles P pkt N T (lo + length F) Q (vm_at P pkt (lo + 1 + k) s')"
      if "k \<le> length G" "wp N pkt (lo + 1 + k) (drop k G) L Q s'" "ready s'" for k s'
    proof -
      have "length (drop k G) < length F" and end_eq: "lo + 1 + k + length (drop k G) = lo + length F"
        using that(1) Cons by simp_all
      from less.hyps [OF this(1) that(2) agree_drop [OF rest that(1)] that(3)] show ?thesis
        by (simp only: end_eq)
    qed
    have exit: "settles P pkt N T (lo + length F) Q (vm_at P pkt (T e) s)" if "Q (Some e) (x_reg s)" for e
      using that less.prems(3) by (auto simp: settles_def)
    have "code ?i = code i" using ag by (simp add: insn_agrees_def)
    note same = is_ja_cong [OF this]
    consider "is_ja i" | "is_cond_jump i" "\<not> is_ja i" | "\<not> is_ja i" "\<not> is_cond_jump i" by blast
    then show ?thesis
    proof cases
      case 1
      have "vm_at P pkt lo s = vm_at P pkt (slot_target ?\<tau> (Ja lo) (lo + 1 + unat (k_field i))) s"
        using lo 1 same ag by (subst vm_at_unfold) (simp add: insn_agrees_def Let_def)
      then show ?thesis
        using 1 less.prems jump [of "unat (k_field i)" s] exit Cons
        by (cases "L (Ja lo)") (simp_all add: slot_target_def)
    next
      case 2
      have "vm_at P pkt lo s = (case cond_taken i s of None \<Rightarrow> None
          | Some t \<Rightarrow> vm_at P pkt (if t then slot_target ?\<tau> (Jt lo) (lo + 1 + unat (jt i))
                         else slot_target ?\<tau> (Jf lo) (lo + 1 + unat (jf i))) s)"
        using lo 2 same ag cond_taken_cong [of ?i i s]
        by (subst vm_at_unfold) (auto simp: insn_agrees_def Let_def split: option.splits)
      then show ?thesis
        using 2 less.prems jump [of "unat (jt i)" s] jump [of "unat (jf i)" s] exit Cons
        by (auto simp: slot_target_def split: option.splits if_splits)
    next
      case 3
      have "vm_at P pkt lo s = (case reg_step i pkt s of Abort \<Rightarrow> None | Return b \<Rightarrow> Some b
          | Continue s' \<Rightarrow> vm_at P pkt (lo + 1) s')"
        using lo 3 same ag reg_step_cong [OF 3(2,1), of ?i pkt s]
        by (subst vm_at_unfold) (simp add: insn_agrees_def Let_def)
      then show ?thesis
        using 3 less.prems jump [of 0] reg_step_ready [of i pkt s] Cons
        by (auto simp: settles_def split: vm_outcome.splits)
    qed
  qed
qed

lemma frag_wp:
  "in_range lo F L \<Longrightarrow> shaped lo F L \<Longrightarrow>
   (\<And>s. ready s \<Longrightarrow> A (x_reg s) \<Longrightarrow> wp N pkt lo F L Q s) \<Longrightarrow> frag N pkt lo F L A Q"
  unfolding frag_def by (blast intro: wp_sound)

section \<open>The instructions the generator emits\<close>

lemma kind_ctors [simp]:
  "\<not> is_ja (ldw_abs v)" "\<not> is_cond_jump (ldw_abs v)" "misc_ok (ldw_abs v)" "\<not> is_ret (ldw_abs v)"
  "\<not> is_ja (ldh_abs v)" "\<not> is_cond_jump (ldh_abs v)" "misc_ok (ldh_abs v)" "\<not> is_ret (ldh_abs v)"
  "\<not> is_ja (ldb_abs v)" "\<not> is_cond_jump (ldb_abs v)" "misc_ok (ldb_abs v)" "\<not> is_ret (ldb_abs v)"
  "\<not> is_ja (ldw_ind v)" "\<not> is_cond_jump (ldw_ind v)" "misc_ok (ldw_ind v)" "\<not> is_ret (ldw_ind v)"
  "\<not> is_ja (ldb_ind v)" "\<not> is_cond_jump (ldb_ind v)" "misc_ok (ldb_ind v)" "\<not> is_ret (ldb_ind v)"
  "\<not> is_ja (ldh_ind v)" "\<not> is_cond_jump (ldh_ind v)" "misc_ok (ldh_ind v)" "\<not> is_ret (ldh_ind v)"
  "\<not> is_ja (ldx_msh v)" "\<not> is_cond_jump (ldx_msh v)" "misc_ok (ldx_msh v)" "\<not> is_ret (ldx_msh v)"
  "\<not> is_ja (ldx_imm v)" "\<not> is_cond_jump (ldx_imm v)" "misc_ok (ldx_imm v)" "\<not> is_ret (ldx_imm v)"
  "\<not> is_ja (ld_imm v)" "\<not> is_cond_jump (ld_imm v)" "misc_ok (ld_imm v)" "\<not> is_ret (ld_imm v)"
  "\<not> is_ja (and_k v)" "\<not> is_cond_jump (and_k v)" "misc_ok (and_k v)" "\<not> is_ret (and_k v)"
  "\<not> is_ja (or_k v)" "\<not> is_cond_jump (or_k v)" "misc_ok (or_k v)" "\<not> is_ret (or_k v)"
  "\<not> is_ja (rsh_k v)" "\<not> is_cond_jump (rsh_k v)" "misc_ok (rsh_k v)" "\<not> is_ret (rsh_k v)"
  "\<not> is_ja (add_k v)" "\<not> is_cond_jump (add_k v)" "misc_ok (add_k v)" "\<not> is_ret (add_k v)"
  "\<not> is_ja (sub_k v)" "\<not> is_cond_jump (sub_k v)" "misc_ok (sub_k v)" "\<not> is_ret (sub_k v)"
  "\<not> is_ja (mul_k v)" "\<not> is_cond_jump (mul_k v)" "misc_ok (mul_k v)" "\<not> is_ret (mul_k v)"
  "\<not> is_ja (div_k v)" "\<not> is_cond_jump (div_k v)" "misc_ok (div_k v)" "\<not> is_ret (div_k v)"
  "\<not> is_ja (lsh_k v)" "\<not> is_cond_jump (lsh_k v)" "misc_ok (lsh_k v)" "\<not> is_ret (lsh_k v)"
  "\<not> is_ja (xor_k v)" "\<not> is_cond_jump (xor_k v)" "misc_ok (xor_k v)" "\<not> is_ret (xor_k v)"
  "\<not> is_ja (st v)" "\<not> is_cond_jump (st v)" "misc_ok (st v)" "\<not> is_ret (st v)"
  "\<not> is_ja (ldx_mem v)" "\<not> is_cond_jump (ldx_mem v)" "misc_ok (ldx_mem v)" "\<not> is_ret (ldx_mem v)"
  "\<not> is_ja tax" "\<not> is_cond_jump tax" "misc_ok tax" "\<not> is_ret tax"
  "\<not> is_ja ld_len" "\<not> is_cond_jump ld_len" "misc_ok ld_len" "\<not> is_ret ld_len"
  "is_ja (ja v)" "misc_ok (ja v)" "is_ret (ret_k v)" "\<not> is_ja (ret_k v)" "\<not> is_cond_jump (ret_k v)" "misc_ok (ret_k v)"
  "\<not> is_ja (jeq_k v t f)" "is_cond_jump (jeq_k v t f)" "misc_ok (jeq_k v t f)"
  "\<not> is_ja (jgt_k v t f)" "is_cond_jump (jgt_k v t f)" "misc_ok (jgt_k v t f)"
  "\<not> is_ja (jge_k v t f)" "is_cond_jump (jge_k v t f)" "misc_ok (jge_k v t f)"
  "\<not> is_ja (jset_k v t f)" "is_cond_jump (jset_k v t f)" "misc_ok (jset_k v t f)"
  "\<not> is_ja (jeq_x t f)" "is_cond_jump (jeq_x t f)" "misc_ok (jeq_x t f)"
  "\<not> is_ja (jgt_x t f)" "is_cond_jump (jgt_x t f)" "misc_ok (jgt_x t f)"
  "\<not> is_ja (jge_x t f)" "is_cond_jump (jge_x t f)" "misc_ok (jge_x t f)"
  "\<not> is_ja (jset_x t f)" "is_cond_jump (jset_x t f)" "misc_ok (jset_x t f)"
  by (simp_all add: is_ja_def is_cond_jump_def is_ret_def misc_ok_def ld_len_def bpf_defs)

lemma cond_taken_ctors [simp]:
  "cond_taken (jeq_k v t f) s = Some (a_reg s = v)"
  "cond_taken (jgt_k v t f) s = Some (v < a_reg s)"
  "cond_taken (jge_k v t f) s = Some (v \<le> a_reg s)"
  "cond_taken (jset_k v t f) s = Some (a_reg s AND v \<noteq> 0)"
  "cond_taken (jeq_x t f) s = Some (a_reg s = x_reg s)"
  "cond_taken (jgt_x t f) s = Some (x_reg s < a_reg s)"
  "cond_taken (jge_x t f) s = Some (x_reg s \<le> a_reg s)"
  "cond_taken (jset_x t f) s = Some (a_reg s AND x_reg s \<noteq> 0)"
  by (simp_all add: cond_taken_def jmp_taken_def uses_x_def bpf_defs)

text \<open>Loads that give 0 outside the packet, and what the machine's loads have to do with them.\<close>

definition pkt_byte :: "packet \<Rightarrow> nat \<Rightarrow> u8" where
  "pkt_byte pkt n = (if n < length pkt then pkt ! n else 0)"

definition ldb :: "packet \<Rightarrow> nat \<Rightarrow> u32" where
  "ldb pkt n = ucast (pkt_byte pkt n)"

definition ldh :: "packet \<Rightarrow> nat \<Rightarrow> u32" where
  "ldh pkt n = be16 (pkt_byte pkt n) (pkt_byte pkt (n + 1))"

definition ldw :: "packet \<Rightarrow> nat \<Rightarrow> u32" where
  "ldw pkt n = be32 (pkt_byte pkt n) (pkt_byte pkt (n + 1)) (pkt_byte pkt (n + 2)) (pkt_byte pkt (n + 3))"

lemma sized_load_total:
  "sized_load pkt off BPF_B = (if unat off + 1 \<le> length pkt then Some (ldb pkt (unat off)) else None)"
  "sized_load pkt off BPF_H = (if unat off + 2 \<le> length pkt then Some (ldh pkt (unat off)) else None)"
  "sized_load pkt off BPF_W = (if unat off + 4 \<le> length pkt then Some (ldw pkt (unat off)) else None)"
  by (simp_all add: sized_load_def ldb_def ldh_def ldw_def pkt_byte_def bpf_mode_defs Let_def)

definition fetch :: "nat \<Rightarrow> packet \<Rightarrow> u32 \<Rightarrow> nat \<Rightarrow> vm_state \<Rightarrow> vm_outcome" where
  "fetch w pkt v off s = (if off + w \<le> length pkt then Continue (s\<lparr>pc := 1, a_reg := v\<rparr>) else Abort)"

lemmas vm_defs = reg_step_def vm_step_def ld_value_def ldx_value_def alu_value_def uses_x_def Let_def

lemma reg_step_abs [simp]:
  "reg_step (ldb_abs off) pkt s = fetch 1 pkt (ldb pkt (unat off)) (unat off) s"
  "reg_step (ldh_abs off) pkt s = fetch 2 pkt (ldh pkt (unat off)) (unat off) s"
  "reg_step (ldw_abs off) pkt s = fetch 4 pkt (ldw pkt (unat off)) (unat off) s"
  using sized_load_total [of pkt off]
  by (simp_all add: vm_defs bpf_defs fetch_def)

lemma reg_step_ind [simp]:
  "reg_step (ldb_ind off) pkt s =
     fetch 1 pkt (ldb pkt (unat (x_reg s + off))) (unat (x_reg s + off)) s"
  "reg_step (ldh_ind off) pkt s =
     fetch 2 pkt (ldh pkt (unat (x_reg s + off))) (unat (x_reg s + off)) s"
  "reg_step (ldw_ind off) pkt s =
     fetch 4 pkt (ldw pkt (unat (x_reg s + off))) (unat (x_reg s + off)) s"
  using sized_load_total [of pkt "x_reg s + off"]
  by (simp_all add: vm_defs bpf_defs fetch_def)

lemma reg_step_other [simp]:
  "reg_step (ldx_msh v) pkt s =
     (if unat v < length pkt then Continue (s\<lparr>pc := 1, x_reg := 4 * (ldb pkt (unat v) AND 0xf)\<rparr>) else Abort)"
  "reg_step (ldx_imm v) pkt s = Continue (s\<lparr>pc := 1, x_reg := v\<rparr>)"
  "reg_step tax pkt s = Continue (s\<lparr>pc := 1, x_reg := a_reg s\<rparr>)"
  "reg_step ld_len pkt s = Continue (s\<lparr>pc := 1, a_reg := of_nat (length pkt)\<rparr>)"
  by (simp_all add: vm_defs bpf_defs ldb_def pkt_byte_def ld_len_def)

lemma reg_step_alu [simp]:
  "reg_step (and_k v) pkt s = Continue (s\<lparr>pc := 1, a_reg := a_reg s AND v\<rparr>)"
  "reg_step (or_k v) pkt s = Continue (s\<lparr>pc := 1, a_reg := a_reg s OR v\<rparr>)"
  "reg_step (xor_k v) pkt s = Continue (s\<lparr>pc := 1, a_reg := a_reg s XOR v\<rparr>)"
  "reg_step (add_k v) pkt s = Continue (s\<lparr>pc := 1, a_reg := a_reg s + v\<rparr>)"
  "reg_step (sub_k v) pkt s = Continue (s\<lparr>pc := 1, a_reg := a_reg s - v\<rparr>)"
  "reg_step (mul_k v) pkt s = Continue (s\<lparr>pc := 1, a_reg := a_reg s * v\<rparr>)"
  "v \<noteq> 0 \<Longrightarrow> reg_step (div_k v) pkt s = Continue (s\<lparr>pc := 1, a_reg := a_reg s div v\<rparr>)"
  "reg_step (lsh_k v) pkt s = Continue (s\<lparr>pc := 1, a_reg := push_bit (unat (v AND 31)) (a_reg s)\<rparr>)"
  "reg_step (rsh_k v) pkt s = Continue (s\<lparr>pc := 1, a_reg := drop_bit (unat (v AND 31)) (a_reg s)\<rparr>)"
  by (simp_all add: vm_defs bpf_defs)

lemma reg_step_scratch [simp]:
  "ready s \<Longrightarrow> reg_step (st 0) pkt s = Continue (s\<lparr>pc := 1, scratch := (scratch s)[0 := a_reg s]\<rparr>)"
  "ready s \<Longrightarrow> reg_step (ldx_mem 0) pkt s = Continue (s\<lparr>pc := 1, x_reg := scratch s ! 0\<rparr>)"
  by (auto simp: vm_defs bpf_defs ready_def SCRATCH_def)

end
