(* ===== verification/Codegen_Spec.thy ===== *)
theory Codegen_Spec
  imports Emit_Logic
begin

text \<open>
  What a filter expression means for a packet, independently of the code generator. \<open>sem link d e
  pkt\<close> is the truth of \<open>e\<close> for \<open>pkt\<close> when \<open>d\<close> VLAN tags have been stepped over; bytes
  outside the packet read as 0, and \<open>need\<close> is a length from which on no test looks outside.
\<close>

section \<open>Fields\<close>

definition net_off :: "link_type \<Rightarrow> nat \<Rightarrow> nat" where
  "net_off link d = unat (link_net_offset link) + 4 * d"

definition ether_off :: "link_type \<Rightarrow> nat \<Rightarrow> nat" where
  "ether_off link d =
     (case link_ether_proto_offset link of None \<Rightarrow> 0 | Some off \<Rightarrow> unat off) + 4 * d"

text \<open>The link-layer protocol of a frame; raw IP captures are IPv4 by definition.\<close>

definition et_of :: "link_type \<Rightarrow> nat \<Rightarrow> packet \<Rightarrow> u32" where
  "et_of link d pkt = (if link = RawIp then 0x0800 else ldh pkt (ether_off link d))"

definition is_v4 :: "link_type \<Rightarrow> nat \<Rightarrow> packet \<Rightarrow> bool" where
  "is_v4 link d pkt \<longleftrightarrow> et_of link d pkt = 0x0800"

definition is_v6 :: "link_type \<Rightarrow> nat \<Rightarrow> packet \<Rightarrow> bool" where
  "is_v6 link d pkt \<longleftrightarrow> et_of link d pkt = 0x86dd"

definition proto4 :: "link_type \<Rightarrow> nat \<Rightarrow> packet \<Rightarrow> u8" where
  "proto4 link d pkt = pkt_byte pkt (net_off link d + 9)"

definition proto6 :: "link_type \<Rightarrow> nat \<Rightarrow> packet \<Rightarrow> u8" where
  "proto6 link d pkt = pkt_byte pkt (net_off link d + 6)"

definition ihl_bytes :: "link_type \<Rightarrow> nat \<Rightarrow> packet \<Rightarrow> u32" where
  "ihl_bytes link d pkt = 4 * (ldb pkt (net_off link d) AND 0xf)"

definition later_fragment :: "link_type \<Rightarrow> nat \<Rightarrow> packet \<Rightarrow> bool" where
  "later_fragment link d pkt \<longleftrightarrow> ldh pkt (net_off link d + 6) AND 0x1fff \<noteq> 0"

fun dir_sem :: "dir \<Rightarrow> bool \<Rightarrow> bool \<Rightarrow> bool" where
  "dir_sem Src s t = s"
| "dir_sem Dst s t = t"
| "dir_sem SrcAndDst s t = (s \<and> t)"
| "dir_sem SrcOrDst s t = (s \<or> t)"

fun cmp_sem :: "cmp_op \<Rightarrow> u32 \<Rightarrow> u32 \<Rightarrow> bool" where
  "cmp_sem CmpEq a b = (a = b)"
| "cmp_sem CmpNe a b = (a \<noteq> b)"
| "cmp_sem CmpLt a b = (a < b)"
| "cmp_sem CmpLe a b = (a \<le> b)"
| "cmp_sem CmpGt a b = (b < a)"
| "cmp_sem CmpGe a b = (b \<le> a)"
| "cmp_sem CmpBitAnd a b = (a AND b \<noteq> 0)"

fun arith_sem :: "arith_op \<Rightarrow> u32 \<Rightarrow> u32 \<Rightarrow> u32" where
  "arith_sem OpAdd a b = a + b"
| "arith_sem OpSub a b = a - b"
| "arith_sem OpMul a b = a * b"
| "arith_sem OpDiv a b = a div b"
| "arith_sem OpMod a b = a mod b"
| "arith_sem OpAnd a b = a AND b"
| "arith_sem OpOr a b = a OR b"
| "arith_sem OpXor a b = a XOR b"
| "arith_sem OpShl a b = push_bit (unat (b AND 31)) a"
| "arith_sem OpShr a b = drop_bit (unat (b AND 31)) a"

section \<open>Tests\<close>

definition addr6_at :: "packet \<Rightarrow> nat \<Rightarrow> ipv6_addr \<Rightarrow> bool" where
  "addr6_at pkt off a \<longleftrightarrow> (\<forall>i < 8. ldh pkt (off + 2 * i) = ucast (segments a ! i))"

text \<open>Bit \<open>b\<close> of a 16-bit segment sequence, counted from the most significant bit of the first.\<close>

definition prefix6_at :: "packet \<Rightarrow> nat \<Rightarrow> ipv6_addr \<Rightarrow> nat \<Rightarrow> bool" where
  "prefix6_at pkt off a n \<longleftrightarrow>
     (\<forall>b < min n 128.
        bit (ldh pkt (off + 2 * (b div 16))) (15 - b mod 16) = bit (segments a ! (b div 16)) (15 - b mod 16))"

fun mac_at :: "packet \<Rightarrow> nat \<Rightarrow> mac_addr \<Rightarrow> bool" where
  "mac_at pkt off (MacAddr a b c d e f) \<longleftrightarrow>
     pkt_byte pkt off = a \<and> pkt_byte pkt (off + 1) = b \<and> pkt_byte pkt (off + 2) = c \<and>
     pkt_byte pkt (off + 3) = d \<and> pkt_byte pkt (off + 4) = e \<and> pkt_byte pkt (off + 5) = f"

definition l4_sem :: "link_type \<Rightarrow> nat \<Rightarrow> l4set \<Rightarrow> packet \<Rightarrow> bool" where
  "l4_sem link d want pkt \<longleftrightarrow>
     (is_v4 link d pkt \<and> l4_contains want (proto4 link d pkt) \<and> \<not> later_fragment link d pkt) \<or>
     (is_v6 link d pkt \<and> l4_contains want (proto6 link d pkt))"

text \<open>Offset of the transport header from the network header.\<close>

definition l4_off :: "link_type \<Rightarrow> nat \<Rightarrow> packet \<Rightarrow> u32" where
  "l4_off link d pkt = (if is_v4 link d pkt then ihl_bytes link d pkt else 40)"

definition src_port :: "link_type \<Rightarrow> nat \<Rightarrow> packet \<Rightarrow> u32" where
  "src_port link d pkt = ldh pkt (net_off link d + unat (l4_off link d pkt))"

definition dst_port :: "link_type \<Rightarrow> nat \<Rightarrow> packet \<Rightarrow> u32" where
  "dst_port link d pkt = ldh pkt (net_off link d + unat (l4_off link d pkt) + 2)"

definition ports_sem :: "link_type \<Rightarrow> nat \<Rightarrow> (u32 \<Rightarrow> bool) \<Rightarrow> dir \<Rightarrow> proto option \<Rightarrow> packet \<Rightarrow> bool" where
  "ports_sem link d R dr pr pkt \<longleftrightarrow>
     (case l4set_for pr of
        Inl _ \<Rightarrow> False
      | Inr want \<Rightarrow>
          l4_sem link d want pkt \<and> dir_sem dr (R (src_port link d pkt)) (R (dst_port link d pkt)))"

fun proto_sem :: "link_type \<Rightarrow> nat \<Rightarrow> proto \<Rightarrow> packet \<Rightarrow> bool" where
  "proto_sem link d Ip pkt = is_v4 link d pkt"
| "proto_sem link d Ip6 pkt = is_v6 link d pkt"
| "proto_sem link d Arp pkt = (et_of link d pkt = 0x0806)"
| "proto_sem link d Rarp pkt = (et_of link d pkt = 0x8035)"
| "proto_sem link d Tcp pkt = (is_v4 link d pkt \<and> proto4 link d pkt = 6)"
| "proto_sem link d Udp pkt = (is_v4 link d pkt \<and> proto4 link d pkt = 17)"
| "proto_sem link d Icmp pkt = (is_v4 link d pkt \<and> proto4 link d pkt = 1)"
| "proto_sem link d Igmp pkt = (is_v4 link d pkt \<and> proto4 link d pkt = 2)"
| "proto_sem link d Sctp pkt = (is_v4 link d pkt \<and> proto4 link d pkt = 132)"
| "proto_sem link d (Num n) pkt = (is_v4 link d pkt \<and> proto4 link d pkt = n)"
| "proto_sem link d Icmp6 pkt = (is_v6 link d pkt \<and> proto6 link d pkt = 58)"
| "proto_sem link d (Ip6Proto n) pkt = (is_v6 link d pkt \<and> proto6 link d pkt = n)"

text \<open>Raw accesses wrap their offsets at 32 bits, like the machine's index arithmetic.\<close>

fun layer_addr :: "link_type \<Rightarrow> nat \<Rightarrow> packet \<Rightarrow> layer \<Rightarrow> u32 \<Rightarrow> nat" where
  "layer_addr link d pkt Raw off = unat off"
| "layer_addr link d pkt Net_Layer off = unat (of_nat (net_off link d) + off)"
| "layer_addr link d pkt Trans off = unat (ihl_bytes link d pkt + (of_nat (net_off link d) + off))"

fun sized :: "packet \<Rightarrow> access_size \<Rightarrow> nat \<Rightarrow> u32" where
  "sized pkt Byte n = ldb pkt n"
| "sized pkt Half n = ldh pkt n"
| "sized pkt Word_Size n = ldw pkt n"

definition ba_sem :: "link_type \<Rightarrow> nat \<Rightarrow> byte_access \<Rightarrow> packet \<Rightarrow> bool" where
  "ba_sem link d ba pkt \<longleftrightarrow>
     cmp_sem (ba_op ba)
       (foldl (\<lambda>a (opr, v). arith_sem opr a v)
          (sized pkt (ba_size ba) (layer_addr link d pkt (ba_layer ba) (ba_offset ba))) (alu_ops ba))
       (case ba_rhs ba of
          Const v \<Rightarrow> v
        | LoadRhs r \<Rightarrow> sized pkt (load_size r) (layer_addr link d pkt (load_layer r) (load_offset r)))"

fun prim_sem :: "link_type \<Rightarrow> nat \<Rightarrow> primitive \<Rightarrow> packet \<Rightarrow> bool" where
  "prim_sem link d (Proto p) pkt = proto_sem link d p pkt"
| "prim_sem link d (Host (V4 a) dr) pkt =
     (is_v4 link d pkt \<and>
      dir_sem dr (ldw pkt (net_off link d + 12) = a) (ldw pkt (net_off link d + 16) = a))"
| "prim_sem link d (Host (V6 a) dr) pkt =
     (is_v6 link d pkt \<and>
      dir_sem dr (addr6_at pkt (net_off link d + 8) a) (addr6_at pkt (net_off link d + 24) a))"
| "prim_sem link d (Net net dr) pkt =
     (is_v4 link d pkt \<and>
      dir_sem dr
        (ldw pkt (net_off link d + 12) AND net_mask net = net_addr net AND net_mask net)
        (ldw pkt (net_off link d + 16) AND net_mask net = net_addr net AND net_mask net))"
| "prim_sem link d (Net6 net dr) pkt =
     (is_v6 link d pkt \<and>
      dir_sem dr
        (prefix6_at pkt (net_off link d + 8) (net6_addr net) (unat (prefix_len net)))
        (prefix6_at pkt (net_off link d + 24) (net6_addr net) (unat (prefix_len net))))"
| "prim_sem link d (Port port dr pr) pkt = ports_sem link d (\<lambda>v. v = ucast port) dr pr pkt"
| "prim_sem link d (PortRange lo hi dr pr) pkt =
     ports_sem link d (\<lambda>v. ucast lo \<le> v \<and> v \<le> ucast hi) dr pr pkt"
| "prim_sem link d (EtherHost m dr) pkt = dir_sem dr (mac_at pkt 6 m) (mac_at pkt 0 m)"
| "prim_sem link d (EtherProto et) pkt = (et_of link d pkt = ucast et)"
| "prim_sem link d EtherMulticast pkt = bit (pkt_byte pkt 0) 0"
| "prim_sem link d IpBroadcast pkt = (is_v4 link d pkt \<and> ldw pkt (net_off link d + 16) = 0xffffffff)"
| "prim_sem link d IpMulticast pkt =
     (is_v4 link d pkt \<and>
      ldw pkt (net_off link d + 16) AND net_mask (from_prefix 0xe0000000 4) = 0xe0000000)"
| "prim_sem link d Ip6Multicast pkt = (is_v6 link d pkt \<and> pkt_byte pkt (net_off link d + 24) = 0xff)"
| "prim_sem link d (Vlan vid) pkt =
     (et_of link d pkt = 0x8100 \<and>
      (case vid of None \<Rightarrow> True | Some v \<Rightarrow> ldh pkt (ether_off link d + 2) AND 0x0fff = ucast v))"
| "prim_sem link d (Mpls lbl) pkt =
     ((et_of link d pkt = 0x8847 \<or> et_of link d pkt = 0x8848) \<and>
      (case lbl of None \<Rightarrow> True | Some l \<Rightarrow> drop_bit 12 (ldw pkt (ether_off link d + 2)) = l))"
| "prim_sem link d PppoeDiscovery pkt = (et_of link d pkt = 0x8863)"
| "prim_sem link d (PppoeSession sid) pkt =
     (et_of link d pkt = 0x8864 \<and>
      (case sid of None \<Rightarrow> True | Some v \<Rightarrow> ldh pkt (ether_off link d + 4) = ucast v))"
| "prim_sem link d (IpProtoChain n) pkt = (is_v4 link d pkt \<and> proto4 link d pkt = n)"
| "prim_sem link d (Ip6ProtoChain n) pkt = (is_v6 link d pkt \<and> proto6 link d pkt = n)"
| "prim_sem link d (Len opr v) pkt = cmp_sem opr (of_nat (length pkt)) v"
| "prim_sem link d Inbound pkt = False"
| "prim_sem link d Outbound pkt = False"
| "prim_sem link d (ByteAccess ba) pkt = ba_sem link d ba pkt"

section \<open>Expressions\<close>

text \<open>A \<open>vlan\<close> test at the head of an AND chain moves the headers its right parts look at.\<close>

fun leading_vlan :: "expr \<Rightarrow> bool" where
  "leading_vlan (Primitive p) = is_vlan p"
| "leading_vlan (And l r) = leading_vlan l"
| "leading_vlan (Or l r) = False"
| "leading_vlan (Not e) = False"

fun sem :: "link_type \<Rightarrow> nat \<Rightarrow> expr \<Rightarrow> packet \<Rightarrow> bool" where
  "sem link d (Primitive p) pkt = prim_sem link d p pkt"
| "sem link d (And l r) pkt =
     (sem link d l pkt \<and> sem link (if leading_vlan l then d + 1 else d) r pkt)"
| "sem link d (Or l r) pkt = (sem link d l pkt \<or> sem link d r pkt)"
| "sem link d (Not e) pkt = (\<not> sem link d e pkt)"

section \<open>Lengths that are enough\<close>

fun size_bytes :: "access_size \<Rightarrow> nat" where
  "size_bytes Byte = 1"
| "size_bytes Half = 2"
| "size_bytes Word_Size = 4"

fun layer_end :: "link_type \<Rightarrow> nat \<Rightarrow> layer \<Rightarrow> u32 \<Rightarrow> access_size \<Rightarrow> nat" where
  "layer_end link d Raw off sz = unat off + size_bytes sz"
| "layer_end link d Net_Layer off sz = unat (of_nat (net_off link d) + off) + size_bytes sz"
| "layer_end link d Trans off sz = 60 + unat (of_nat (net_off link d) + off) + size_bytes sz"

fun prim_need :: "link_type \<Rightarrow> nat \<Rightarrow> primitive \<Rightarrow> nat" where
  "prim_need link d (ByteAccess ba) =
     max (net_off link d + 64)
       (max (layer_end link d (ba_layer ba) (ba_offset ba) (ba_size ba))
          (case ba_rhs ba of
             Const _ \<Rightarrow> 0
           | LoadRhs r \<Rightarrow> layer_end link d (load_layer r) (load_offset r) (load_size r)))"
| "prim_need link d _ = net_off link d + 64"

fun need :: "link_type \<Rightarrow> nat \<Rightarrow> expr \<Rightarrow> nat" where
  "need link d (Primitive p) = prim_need link d p"
| "need link d (And l r) = max (need link d l) (need link (if leading_vlan l then d + 1 else d) r)"
| "need link d (Or l r) = max (need link d l) (need link d r)"
| "need link d (Not e) = need link d e"

section \<open>The expressions the generator is right for\<close>

text \<open>
  \<open>plain\<close>: no AND chain starts with a \<open>vlan\<close> test, so that all headers are looked for at one
  depth, and no MPLS label is asked for. \<open>inner\<close> adds that the tag ethertype itself is not tested
  again. A supported expression is plain, or an AND chain that starts with a \<open>vlan\<close> test and whose
  other parts are inner.
\<close>

fun plain_prim :: "primitive \<Rightarrow> bool" where
  "plain_prim (Mpls (Some _)) = False"
| "plain_prim _ = True"

fun plain :: "expr \<Rightarrow> bool" where
  "plain (Primitive p) = plain_prim p"
| "plain (And l r) = (\<not> leading_vlan l \<and> plain l \<and> plain r)"
| "plain (Or l r) = (plain l \<and> plain r)"
| "plain (Not e) = plain e"

fun tag_prim :: "primitive \<Rightarrow> bool" where
  "tag_prim (Vlan _) = True"
| "tag_prim (EtherProto et) = (et = 0x8100)"
| "tag_prim _ = False"

fun no_tag :: "expr \<Rightarrow> bool" where
  "no_tag (Primitive p) = (\<not> tag_prim p)"
| "no_tag (And l r) = (no_tag l \<and> no_tag r)"
| "no_tag (Or l r) = (no_tag l \<and> no_tag r)"
| "no_tag (Not e) = no_tag e"

fun vlan_chain :: "expr \<Rightarrow> bool" where
  "vlan_chain (Primitive p) = is_vlan p"
| "vlan_chain (And l r) = (vlan_chain l \<and> plain r \<and> no_tag r)"
| "vlan_chain _ = False"

definition supported :: "expr \<Rightarrow> bool" where
  "supported e \<longleftrightarrow> plain e \<or> vlan_chain e"

end
