(* ===== verification/Ebpf_Logic.thy ===== *)
theory Ebpf_Logic
  imports Ebpf_Interp Ebpf_Codegen Codegen_Spec
begin

text \<open>
  A program logic for extended BPF code under construction. A fragment is a list of instructions at a
  position, with a map from its open jumps to the exit they wait for. \<open>efrag\<close> says what a fragment does in
  every finished program that contains it, without a fault and in at most as many turns as it has
  instructions; gluing fragments and resolving jumps are rules of the logic, and \<open>ewp\<close> computes the weakest
  precondition of a closed list of instructions.
\<close>

section \<open>Fragments in a program\<close>

type_synonym eslots = "nat \<Rightarrow> exit option"

definition epend :: "nat list \<Rightarrow> nat list \<Rightarrow> eslots" where
  "epend su fl p = (if p \<in> set su then Some ESucc else if p \<in> set fl then Some EFail else None)"

definition slot_agrees :: "nat \<Rightarrow> (exit \<Rightarrow> nat) \<Rightarrow> exit option \<Rightarrow> nat \<Rightarrow> einsn \<Rightarrow> einsn \<Rightarrow> bool" where
  "slot_agrees len T l n i i' \<longleftrightarrow>
     (case l of
        None \<Rightarrow> i' = i
      | Some e \<Rightarrow> T e < len \<and> (\<exists>off. i' = i\<lparr>e_off := off\<rparr> \<and> int n + 1 + sint off = int (T e)))"

definition eagree :: "einsn list \<Rightarrow> nat \<Rightarrow> einsn list \<Rightarrow> (exit \<Rightarrow> nat) \<Rightarrow> eslots \<Rightarrow> bool" where
  "eagree P lo F T L \<longleftrightarrow>
     lo + length F < length P \<and>
     (\<forall>j < length F. slot_agrees (length P) T (L (lo + j)) (lo + j) (F ! j) (P ! (lo + j)))"

lemma eagree_append:
  "eagree P lo (F @ G) T L \<longleftrightarrow> eagree P lo F T L \<and> eagree P (lo + length F) G T L"
proof
  assume *: "eagree P lo (F @ G) T L"
  have "slot_agrees (length P) T (L (lo + j)) (lo + j) ((F @ G) ! j) (P ! (lo + j))"
    if "j < length F + length G" for j
    using * that by (simp add: eagree_def)
  note each = this
  have "slot_agrees (length P) T (L (lo + j)) (lo + j) (F ! j) (P ! (lo + j))" if "j < length F" for j
    using each [of j] that by (simp add: nth_append)
  moreover have "slot_agrees (length P) T (L (lo + length F + j)) (lo + length F + j) (G ! j) (P ! (lo + length F + j))"
    if "j < length G" for j
    using each [of "length F + j"] that by (simp add: add.assoc)
  ultimately show "eagree P lo F T L \<and> eagree P (lo + length F) G T L"
    using * by (simp add: eagree_def)
next
  assume *: "eagree P lo F T L \<and> eagree P (lo + length F) G T L"
  have "slot_agrees (length P) T (L (lo + j)) (lo + j) ((F @ G) ! j) (P ! (lo + j))"
    if "j < length F + length G" for j
  proof (cases "j < length F")
    case False
    with * that show ?thesis
      using add_diff_inverse_nat [OF False]
      by (auto simp: eagree_def nth_append add.assoc dest!: spec [of _ "j - length F"])
  qed (use * in \<open>simp add: eagree_def nth_append\<close>)
  with * show "eagree P lo (F @ G) T L" by (simp add: eagree_def add.assoc)
qed

lemma eagree_drop: "eagree P lo F T L \<Longrightarrow> k \<le> length F \<Longrightarrow> eagree P (lo + k) (drop k F) T L"
  using eagree_append [of P lo "take k F" "drop k F"] by (simp add: min_absorb2)

lemma eagree_cong:
  "(\<And>p. lo \<le> p \<Longrightarrow> p < lo + length F \<Longrightarrow> map_option T (L p) = map_option T' (L' p)) \<Longrightarrow>
   eagree P lo F T L = eagree P lo F T' L'"
proof -
  assume *: "\<And>p. lo \<le> p \<Longrightarrow> p < lo + length F \<Longrightarrow> map_option T (L p) = map_option T' (L' p)"
  have "slot_agrees n T (L (lo + j)) = slot_agrees n T' (L' (lo + j))" if "j < length F" for n j
    using * [of "lo + j"] that by (cases "L (lo + j)"; cases "L' (lo + j)") (simp_all add: slot_agrees_def fun_eq_iff)
  then show ?thesis by (simp add: eagree_def)
qed

section \<open>What a fragment does\<close>

type_synonym epost = "exit option \<Rightarrow> eregs \<Rightarrow> bool"

definition exit_pc :: "(exit \<Rightarrow> nat) \<Rightarrow> nat \<Rightarrow> exit option \<Rightarrow> nat" where
  "exit_pc T hi l = (case l of None \<Rightarrow> hi | Some e \<Rightarrow> T e)"

text \<open>
  From \<open>lo\<close> with the registers \<open>g\<close>, every run comes after at most \<open>n\<close> turns to the end of the fragment or to
  where an exit is sent, with registers that satisfy the postcondition of that exit.
\<close>

definition esettles ::
  "einsn list \<Rightarrow> packet \<Rightarrow> endian \<Rightarrow> (exit \<Rightarrow> nat) \<Rightarrow> nat \<Rightarrow> nat \<Rightarrow> epost \<Rightarrow> nat \<Rightarrow> eregs \<Rightarrow> bool" where
  "esettles P pkt host T n hi Q lo g \<longleftrightarrow>
     (\<exists>k \<le> n. \<exists>l g'. Q l g' \<and>
        (\<forall>fuel ctx. eloop (k + fuel) P ctx pkt host lo g = eloop fuel P ctx pkt host (exit_pc T hi l) g'))"

definition efrag ::
  "packet \<Rightarrow> endian \<Rightarrow> nat \<Rightarrow> einsn list \<Rightarrow> eslots \<Rightarrow> (eregs \<Rightarrow> bool) \<Rightarrow> epost \<Rightarrow> bool" where
  "efrag pkt host lo F L A Q \<longleftrightarrow>
     (\<forall>p. L p \<noteq> None \<longrightarrow> lo \<le> p \<and> p < lo + length F) \<and>
     (\<forall>P T g. eagree P lo F T L \<longrightarrow> A g \<longrightarrow> esettles P pkt host T (length F) (lo + length F) Q lo g)"

lemma esettles_mono: "esettles P pkt host T n hi Q lo g \<Longrightarrow> (\<And>l g. Q l g \<Longrightarrow> Q' l g) \<Longrightarrow> esettles P pkt host T n hi Q' lo g"
  unfolding esettles_def by blast

lemma efrag_conseq:
  "efrag pkt host lo F L A Q \<Longrightarrow> (\<And>g. A' g \<Longrightarrow> A g) \<Longrightarrow> (\<And>l g. Q l g \<Longrightarrow> Q' l g) \<Longrightarrow> efrag pkt host lo F L A' Q'"
  unfolding efrag_def by (blast intro: esettles_mono)

lemma efrag_range: "efrag pkt host lo F L A Q \<Longrightarrow> L p \<noteq> None \<Longrightarrow> lo \<le> p \<and> p < lo + length F"
  by (simp add: efrag_def)

lemma efrag_out: "efrag pkt host lo F L A Q \<Longrightarrow> p < lo \<or> lo + length F \<le> p \<Longrightarrow> L p = None"
  using efrag_range [of pkt host lo F L A Q p] by force

lemma efrag_Nil: "(\<And>g. A g \<Longrightarrow> Q None g) \<Longrightarrow> efrag pkt host lo [] (\<lambda>_. None) A Q"
  unfolding efrag_def esettles_def by (fastforce simp: exit_pc_def)

lemma esettles_step:
  assumes "esettles P pkt host T n hi Q lo' g'"
    and "\<And>fuel ctx. eloop (k + fuel) P ctx pkt host lo g = eloop fuel P ctx pkt host lo' g'" "k + n \<le> m"
  shows "esettles P pkt host T m hi Q lo g"
proof -
  obtain j l h where j: "j \<le> n" "Q l h"
    "\<And>fuel ctx. eloop (j + fuel) P ctx pkt host lo' g' = eloop fuel P ctx pkt host (exit_pc T hi l) h"
    using assms(1) unfolding esettles_def by blast
  have "eloop (k + j + fuel) P ctx pkt host lo g = eloop fuel P ctx pkt host (exit_pc T hi l) h" for fuel ctx
    using assms(2) [of "j + fuel" ctx] j(3) by (simp add: add.assoc)
  moreover have "k + j \<le> m" using j(1) assms(3) by simp
  ultimately show ?thesis unfolding esettles_def using j(2) by blast
qed

lemma efrag_seq:
  assumes 1: "efrag pkt host lo F L A Q1" and 2: "efrag pkt host (lo + length F) G M B Q2"
    and mid: "\<And>g. Q1 None g \<Longrightarrow> B g"
    and out: "\<And>l g. Q1 (Some l) g \<Longrightarrow> Q (Some l) g" "\<And>l g. Q2 l g \<Longrightarrow> Q l g"
  shows "efrag pkt host lo (F @ G) (L ++ M) A Q"
  unfolding efrag_def
proof (intro conjI allI impI)
  fix p assume "(L ++ M) p \<noteq> None"
  then have "L p \<noteq> None \<or> M p \<noteq> None" by (auto simp: map_add_def split: option.splits)
  then show "lo \<le> p" "p < lo + length (F @ G)"
    using efrag_range [OF 1, of p] efrag_range [OF 2, of p] by auto
next
  fix P T g assume ag: "eagree P lo (F @ G) T (L ++ M)" and g: "A g"
  have "(L ++ M) p = L p" if "p < lo + length F" for p
    using efrag_out [OF 2, of p] that by (simp add: map_add_def)
  moreover have "(L ++ M) p = M p" if "lo + length F \<le> p" for p
    using efrag_out [OF 1, of p] that by (simp add: map_add_def split: option.split)
  ultimately have ag1: "eagree P lo F T L" and ag2: "eagree P (lo + length F) G T M"
    using ag eagree_cong [of lo F T "L ++ M" T L P] eagree_cong [of "lo + length F" G T "L ++ M" T M P]
    by (simp_all add: eagree_append)
  obtain k l h where k: "k \<le> length F" "Q1 l h"
    "\<And>fuel ctx. eloop (k + fuel) P ctx pkt host lo g = eloop fuel P ctx pkt host (exit_pc T (lo + length F) l) h"
    using 1 ag1 g unfolding efrag_def esettles_def by blast
  show "esettles P pkt host T (length (F @ G)) (lo + length (F @ G)) Q lo g"
  proof (cases l)
    case None
    then have "esettles P pkt host T (length G) (lo + length F + length G) Q2 (lo + length F) h"
      using 2 ag2 mid k(2) unfolding efrag_def by blast
    then have "esettles P pkt host T (length G) (lo + length (F @ G)) Q (lo + length F) h"
      using out(2) by (auto intro: esettles_mono simp: add.assoc)
    then show ?thesis by (rule esettles_step) (use k None in \<open>auto simp: exit_pc_def\<close>)
  next
    case (Some e)
    then show ?thesis
      unfolding esettles_def using k out(1)
      by (intro exI [of _ k] conjI exI [of _ l] exI [of _ h]) (auto simp: exit_pc_def)
  qed
qed

section \<open>Jumps resolved\<close>

definition eset :: "nat \<Rightarrow> nat \<Rightarrow> einsn \<Rightarrow> einsn" where
  "eset from target i = i\<lparr>e_off := of_nat (target - from - 1)\<rparr>"

fun eresolves :: "nat list \<Rightarrow> nat \<Rightarrow> einsn list \<Rightarrow> einsn list \<Rightarrow> bool" where
  "eresolves [] t C C' \<longleftrightarrow> C' = C"
| "eresolves (p # ps) t C C' \<longleftrightarrow>
     p < length C \<and> p < t \<and> t - p - 1 \<le> 32767 \<and> eresolves ps t (C[p := eset p t (C ! p)]) C'"

lemma eresolve_Inr:
  "eresolve p t cg = Inr cg' \<longleftrightarrow>
     p < length (ecg_insns cg) \<and> p < t \<and> t - p - 1 \<le> 32767 \<and>
     cg' = cg\<lparr>ecg_insns := (ecg_insns cg)[p := eset p t (ecg_insns cg ! p)]\<rparr>"
  by (auto simp: eresolve_def eset_def)

lemma eresolve_all_Inr:
  "eresolve_all ps t cg = Inr cg' \<Longrightarrow> \<exists>C. eresolves ps t (ecg_insns cg) C \<and> cg' = cg\<lparr>ecg_insns := C\<rparr>"
  by (induction ps arbitrary: cg) (force simp: rbind_eq_Inr eresolve_Inr)+

lemma eresolves_length: "eresolves ps t C C' \<Longrightarrow> length C' = length C"
  by (induction ps arbitrary: C) force+

lemma eresolves_prefix:
  "eresolves ps t (C @ F) D \<Longrightarrow> (\<forall>p \<in> set ps. length C \<le> p) \<Longrightarrow> \<exists>F'. D = C @ F' \<and> length F' = length F"
proof (induction ps arbitrary: F)
  case (Cons p ps)
  then show ?case by (fastforce simp: list_update_append)
qed simp

text \<open>What resolving did to an instruction: nothing, or its offset leads to the target.\<close>

lemma sint_off: "n \<le> 32767 \<Longrightarrow> sint (of_nat n :: i16) = int n"
  by (simp add: signed_of_nat signed_take_bit_int_eq_self)

lemma eresolves_nth:
  "eresolves ps t C C' \<Longrightarrow> n < length C \<Longrightarrow>
   (if n \<in> set ps then \<exists>off. C' ! n = (C ! n)\<lparr>e_off := off\<rparr> \<and> int n + 1 + sint off = int t \<and> n < t else C' ! n = C ! n)"
proof (induction ps arbitrary: C)
  case (Cons p ps)
  let ?C = "C[p := eset p t (C ! p)]"
  have p: "p < length C" "p < t" "t - p - 1 \<le> 32767" and r: "eresolves ps t ?C C'" using Cons.prems by simp_all
  have IH: "if n \<in> set ps then \<exists>off. C' ! n = (?C ! n)\<lparr>e_off := off\<rparr> \<and> int n + 1 + sint off = int t \<and> n < t else C' ! n = ?C ! n"
    using Cons.IH [OF r] Cons.prems(2) by simp
  have "int p + 1 + sint (of_nat (t - p - 1) :: i16) = int t"
    using p sint_off [OF p(3)] by (simp del: of_nat_diff)
  then show ?case using IH p by (cases "n = p") (auto simp: eset_def simp del: of_nat_diff split: if_splits)
qed simp

definition eclose :: "exit \<Rightarrow> eslots \<Rightarrow> eslots" where
  "eclose e L p = (if L p = Some e then None else L p)"

lemma efrag_resolve:
  assumes frag: "efrag pkt host (length C) F L A Q"
    and res: "eresolves ps (length C + length F) (C @ F) (C @ F')"
    and ps: "\<And>p. p \<in> set ps \<longleftrightarrow> L p = Some e"
  shows "efrag pkt host (length C) F' (eclose e L) A
    (\<lambda>l g. case l of None \<Rightarrow> Q None g \<or> Q (Some e) g | Some d \<Rightarrow> d \<noteq> e \<and> Q (Some d) g)"
    (is "efrag _ _ ?lo _ _ _ ?Q")
  unfolding efrag_def
proof (intro conjI allI impI)
  have len: "length F' = length F" using eresolves_length [OF res] by simp
  fix p assume "eclose e L p \<noteq> None"
  then show "?lo \<le> p" "p < ?lo + length F'"
    using efrag_range [OF frag, of p] len by (auto simp: eclose_def split: if_splits)
next
  have len: "length F' = length F" using eresolves_length [OF res] by simp
  fix P T g assume ag: "eagree P ?lo F' T (eclose e L)" and g: "A g"
  let ?T = "T(e := ?lo + length F)"
  have "slot_agrees (length P) ?T (L (?lo + j)) (?lo + j) (F ! j) (P ! (?lo + j))" if j: "j < length F" for j
  proof -
    have *: "slot_agrees (length P) T (eclose e L (?lo + j)) (?lo + j) (F' ! j) (P ! (?lo + j))"
      using ag j len by (simp add: eagree_def)
    have "?lo + length F < length P" using ag len by (simp add: eagree_def)
    then show ?thesis
      using * eresolves_nth [OF res, of "?lo + j"] ps [of "?lo + j"] j
      by (cases "L (?lo + j)") (auto simp: slot_agrees_def eclose_def split: if_splits)
  qed
  then have "eagree P ?lo F ?T L" using ag len by (simp add: eagree_def)
  then have "esettles P pkt host ?T (length F) (?lo + length F) Q ?lo g"
    using frag g by (simp add: efrag_def)
  then obtain k l h where k: "k \<le> length F" "Q l h"
    "\<And>fuel ctx. eloop (k + fuel) P ctx pkt host ?lo g = eloop fuel P ctx pkt host (exit_pc ?T (?lo + length F) l) h"
    unfolding esettles_def by blast
  show "esettles P pkt host T (length F') (?lo + length F') ?Q ?lo g"
  proof (cases "l = None \<or> l = Some e")
    case True
    then show ?thesis unfolding esettles_def len using k
      by (intro exI [of _ k] conjI exI [of _ None] exI [of _ h]) (auto simp: exit_pc_def)
  next
    case False
    then obtain d where "l = Some d" "d \<noteq> e" by (cases l) auto
    then show ?thesis unfolding esettles_def len using k
      by (intro exI [of _ k] conjI exI [of _ l] exI [of _ h]) (auto simp: exit_pc_def)
  qed
qed

lemma efrag_relabel:
  assumes "efrag pkt host lo F L A Q"
  shows "efrag pkt host lo F (map_option f \<circ> L) A
    (\<lambda>l g. case l of None \<Rightarrow> Q None g | Some e \<Rightarrow> \<exists>d. f d = e \<and> Q (Some d) g)" (is "efrag _ _ _ _ _ _ ?Q")
  unfolding efrag_def
proof (intro conjI allI impI)
  fix p assume "(map_option f \<circ> L) p \<noteq> None"
  then show "lo \<le> p" "p < lo + length F" using efrag_range [OF assms, of p] by auto
next
  fix P T g assume "eagree P lo F T (map_option f \<circ> L)" and g: "A g"
  then have "eagree P lo F (T \<circ> f) L"
    using eagree_cong [of lo F T "map_option f \<circ> L" "T \<circ> f" L P] by (simp add: option.map_comp)
  then obtain k l h where k: "k \<le> length F" "Q l h"
    "\<And>fuel ctx. eloop (k + fuel) P ctx pkt host lo g = eloop fuel P ctx pkt host (exit_pc (T \<circ> f) (lo + length F) l) h"
    using assms g unfolding efrag_def esettles_def by blast
  then show "esettles P pkt host T (length F) (lo + length F) ?Q lo g"
    unfolding esettles_def
    by (intro exI [of _ k] conjI exI [of _ "map_option f l"] exI [of _ h]) (auto simp: exit_pc_def split: option.splits)
qed

section \<open>Weakest preconditions\<close>

definition is_jmp :: "einsn \<Rightarrow> bool" where
  "is_jmp i \<longleftrightarrow> e_code i AND 0x07 = EBPF_JMP"

definition ok_regs :: "einsn \<Rightarrow> bool" where
  "ok_regs i \<longleftrightarrow> e_dst i \<le> 10 \<and> e_src i \<le> 10"

definition in_ctx :: "u64 \<Rightarrow> bool" where
  "in_ctx addr \<longleftrightarrow> CTX_BASE \<le> addr \<and> addr < CTX_BASE + 8"

definition ok_val :: "'e + 'a \<Rightarrow> 'a option" where
  "ok_val r = (case r of Inl _ \<Rightarrow> None | Inr v \<Rightarrow> Some v)"

lemma ok_val_Some: "ok_val r = Some v \<longleftrightarrow> r = Inr v"
  by (auto simp: ok_val_def split: sum.splits)

text \<open>The effect of an instruction that is no jump and does not read the context.\<close>

definition eff :: "einsn \<Rightarrow> packet \<Rightarrow> endian \<Rightarrow> eregs \<Rightarrow> eregs option" where
  "eff i pkt host g =
     (let cls = e_code i AND 0x07 in
      if \<not> ok_regs i then None
      else if cls = EBPF_LDX then
        (case g (unat (e_src i)) of
           None \<Rightarrow> None
         | Some base \<Rightarrow> if in_ctx (base + scast (e_off i)) then None else ok_val (step_ldx i [] pkt host 0 g))
      else if cls = EBPF_ALU \<or> cls = EBPF_ALU64 then ok_val (step_alu i host 0 g)
      else None)"

text \<open>Whether a jump is taken.\<close>

definition branch :: "einsn \<Rightarrow> eregs \<Rightarrow> bool option" where
  "branch i g =
     (if ok_regs i \<and> (e_code i AND 0xf0 \<in> set COND_OPS \<or> e_code i AND 0xf0 = EBPF_JA)
      then ok_val (jump_taken i 0 g) else None)"

lemma rd_Inr: "rd g r at = Inr v \<longleftrightarrow> g r = Some v"
  by (simp add: rd_def split: option.splits)

lemma wr_Inr: "wr g r v at = Inr g' \<longleftrightarrow> r \<noteq> unat R10 \<and> g' = g(r \<mapsto> v)"
  by (auto simp: wr_def)

lemma mem_load_Inr: "\<not> in_ctx addr \<Longrightarrow> mem_load ctx pkt addr w at = Inr bs \<longleftrightarrow> mem_load [] pkt addr w 0 = Inr bs"
  unfolding mem_load_def in_ctx_def by (simp only: if_False) auto

lemma eshift_Inr: "eshift b s at = Inr n \<longleftrightarrow> eshift b s 0 = Inr n"
  by (simp add: eshift_def)

lemma alu_result_Inr: "alu_result opr b d s i at = Inr r \<longleftrightarrow> alu_result opr b d s i 0 = Inr r"
  by (simp add: alu_result_def rbind_eq_Inr eshift_Inr [of b s at])

lemma step_end_Inr: "step_end i host at g = Inr g' \<longleftrightarrow> step_end i host 0 g = Inr g'"
  by (simp add: step_end_def rbind_eq_Inr rd_Inr wr_Inr Let_def split: option.splits)

lemma step_alu_Inr: "step_alu i host at g = Inr g' \<longleftrightarrow> step_alu i host 0 g = Inr g'"
  by (simp add: step_alu_def Let_def step_end_Inr [of i host at] rbind_eq_Inr rd_Inr wr_Inr
      alu_result_Inr [of _ _ _ _ i at])

lemma step_ldx_Inr:
  assumes "g (unat (e_src i)) = Some base" "\<not> in_ctx (base + scast (e_off i))"
  shows "step_ldx i ctx pkt host at g = Inr g' \<longleftrightarrow> step_ldx i [] pkt host 0 g = Inr g'"
  using assms by (simp add: step_ldx_def rbind_eq_Inr rd_Inr wr_Inr mem_load_Inr [of _ ctx _ _ at] split: option.splits)

lemma jump_taken_Inr: "jump_taken i at g = Inr b \<longleftrightarrow> jump_taken i 0 g = Inr b"
  by (simp add: jump_taken_def Let_def rbind_eq_Inr rd_Inr)

lemma estep_eff:
  assumes "get_at P at = Some i" "eff i pkt host g = Some g'"
  shows "estep P ctx pkt host at g = Inr (Go (at + 1) g')"
proof -
  have ok: "\<not> (10 < e_dst i \<or> 10 < e_src i)"
    using assms(2) by (auto simp: eff_def ok_regs_def Let_def not_less split: if_splits)
  consider base where "e_code i AND 7 = EBPF_LDX" "g (unat (e_src i)) = Some base" "\<not> in_ctx (base + scast (e_off i))"
      "step_ldx i [] pkt host 0 g = Inr g'"
    | "e_code i AND 7 \<noteq> EBPF_LDX" "e_code i AND 7 = EBPF_ALU \<or> e_code i AND 7 = EBPF_ALU64" "step_alu i host 0 g = Inr g'"
    using assms(2) by (auto simp: eff_def Let_def ok_val_Some split: if_splits option.splits)
  then show ?thesis
  proof cases
    case 1
    then show ?thesis
      using assms(1) ok step_ldx_Inr [of g i base ctx pkt host at g'] by (simp add: estep_def Let_def)
  next
    case 2
    then show ?thesis
      using assms(1) ok step_alu_Inr [of i host at g g'] by (simp add: estep_def Let_def)
  qed
qed

lemma estep_jmp:
  assumes "get_at P at = Some i" "is_jmp i" "branch i g = Some b"
  shows "estep P ctx pkt host at g =
    (if b then rbind (jump_target i at (length P)) (\<lambda>n. Inr (Go n g)) else Inr (Go (at + 1) g))"
proof -
  have ok: "\<not> (10 < e_dst i \<or> 10 < e_src i)" and opr: "e_code i AND 0xf0 \<in> set COND_OPS \<or> e_code i AND 0xf0 = EBPF_JA"
    and t: "jump_taken i 0 g = Inr b"
    using assms(3) by (auto simp: branch_def ok_regs_def not_less ok_val_Some split: if_splits)
  have "e_code i AND 0xf0 \<noteq> EBPF_EXIT" using opr by (auto simp: interp_defs)
  moreover have "EBPF_JMP \<noteq> EBPF_LDX" "EBPF_JMP \<noteq> EBPF_ALU" "EBPF_JMP \<noteq> EBPF_ALU64" "EBPF_JMP \<noteq> EBPF_JMP32"
    by (simp_all add: ebpf_defs)
  ultimately show ?thesis
    using assms(1,2) ok opr jump_taken_Inr [of i at g b] t
    by (auto simp: estep_def step_jmp_def is_jmp_def Let_def)
qed

text \<open>The weakest precondition; a jump that is not open stays inside the fragment or goes to its end.\<close>

fun ewp :: "packet \<Rightarrow> endian \<Rightarrow> nat \<Rightarrow> einsn list \<Rightarrow> eslots \<Rightarrow> epost \<Rightarrow> eregs \<Rightarrow> bool" where
  "ewp pkt host lo [] L Q g \<longleftrightarrow> Q None g"
| "ewp pkt host lo (i # F) L Q g \<longleftrightarrow>
     (if is_jmp i then
        (case branch i g of
           None \<Rightarrow> False
         | Some taken \<Rightarrow>
             if taken then
               (case L lo of
                  Some e \<Rightarrow> Q (Some e) g
                | None \<Rightarrow> unat (e_off i) \<le> length F \<and> unat (e_off i) \<le> 32767 \<and>
                    ewp pkt host (lo + 1 + unat (e_off i)) (drop (unat (e_off i)) F) L Q g)
             else ewp pkt host (lo + 1) F L Q g)
      else L lo = None \<and>
        (case eff i pkt host g of None \<Rightarrow> False | Some g' \<Rightarrow> ewp pkt host (lo + 1) F L Q g'))"

lemma sint_unat: "unat (off :: i16) \<le> 32767 \<Longrightarrow> sint off = int (unat off)"
  using sint_off [of "unat off"] by simp

lemma jump_target_sint: "int at + 1 + sint (e_off i) = int t \<Longrightarrow> t < len \<Longrightarrow> jump_target i at len = Inr t"
  by (simp add: jump_target_def Let_def)

lemma branch_off [simp]: "branch (i\<lparr>e_off := n\<rparr>) g = branch i g"
proof -
  have "e_code (i\<lparr>e_off := n\<rparr>) = e_code i" "e_imm (i\<lparr>e_off := n\<rparr>) = e_imm i" by simp_all
  then have "jump_taken (i\<lparr>e_off := n\<rparr>) 0 g = jump_taken i 0 g" by (simp only: jump_taken_def set_off_fields)
  then show ?thesis by (auto simp: branch_def ok_regs_def)
qed

lemma is_jmp_off [simp]: "is_jmp (i\<lparr>e_off := n\<rparr>) = is_jmp i"
  by (simp add: is_jmp_def)

lemma eloop_go: "estep P ctx pkt host at g = Inr (Go t g') \<Longrightarrow> eloop (1 + n) P ctx pkt host at g = eloop n P ctx pkt host t g'"
  by simp

lemma ewp_sound:
  "ewp pkt host lo F L Q g \<Longrightarrow> eagree P lo F T L \<Longrightarrow> esettles P pkt host T (length F) (lo + length F) Q lo g"
proof (induction "length F" arbitrary: lo F g rule: less_induct)
  case less
  show ?case
  proof (cases F)
    case Nil
    then show ?thesis using less.prems(1) by (fastforce simp: esettles_def exit_pc_def)
  next
    case (Cons i G)
    let ?i = "P ! lo"
    have ag: "slot_agrees (length P) T (L lo) lo i ?i" "lo < length P" and hi: "lo + length F < length P"
      using less.prems(2) Cons by (auto simp: eagree_def)
    have at: "get_at P lo = Some ?i" using ag(2) by simp
    have rest: "esettles P pkt host T (length F) (lo + length F) Q lo g"
      if "k \<le> length G" "ewp pkt host (lo + 1 + k) (drop k G) L Q g'"
        "\<And>ctx. estep P ctx pkt host lo g = Inr (Go (lo + 1 + k) g')" for k g'
    proof -
      have "length (drop k G) < length F" "eagree P (lo + 1 + k) (drop k G) T L"
        using eagree_drop [OF less.prems(2), of "1 + k"] that(1) Cons by simp_all
      from less.hyps [OF this(1) that(2) this(2)]
      have "esettles P pkt host T (length (drop k G)) (lo + length F) Q (lo + 1 + k) g'"
        using that(1) Cons by simp
      then show ?thesis by (rule esettles_step [where k = 1]) (use that(1) Cons eloop_go [OF that(3)] in simp_all)
    qed
    show ?thesis
    proof (cases "is_jmp i")
      case True
      then obtain b where b: "branch i g = Some b" using less.prems(1) Cons by (auto split: option.splits)
      have j: "is_jmp ?i" "branch ?i g = Some b"
        using True b ag(1) by (auto simp: slot_agrees_def split: option.splits)
      note st = estep_jmp [OF at j, of _ pkt host]
      show ?thesis
      proof (cases b)
        case False
        then show ?thesis using less.prems(1) Cons True b rest [of 0 g] st by simp
      next
        case taken: True
        show ?thesis
        proof (cases "L lo")
          case None
          let ?k = "unat (e_off i)"
          have k: "?k \<le> length G" "?k \<le> 32767" "ewp pkt host (lo + 1 + ?k) (drop ?k G) L Q g"
            using less.prems(1) Cons True b taken None by simp_all
          have "?i = i" using ag(1) None by (simp add: slot_agrees_def)
          then have "jump_target ?i lo (length P) = Inr (lo + 1 + ?k)"
            using k(1,2) sint_unat [OF k(2)] hi Cons by (intro jump_target_sint) simp_all
          then show ?thesis using rest [OF k(1,3)] st taken by simp
        next
          case (Some e)
          then have Q: "Q (Some e) g" using less.prems(1) Cons True b taken by simp
          have "jump_target ?i lo (length P) = Inr (T e)"
            using ag(1) Some by (intro jump_target_sint) (auto simp: slot_agrees_def)
          then have "estep P ctx pkt host lo g = Inr (Go (T e) g)" for ctx using st taken by simp
          from eloop_go [OF this] show ?thesis
            unfolding esettles_def using Q Cons
            by (intro exI [of _ 1] conjI exI [of _ "Some e"] exI [of _ g]) (auto simp: exit_pc_def)
        qed
      qed
    next
      case False
      then obtain g' where g': "eff i pkt host g = Some g'" "ewp pkt host (lo + 1) G L Q g'" and none: "L lo = None"
        using less.prems(1) Cons by (auto split: option.splits)
      have "?i = i" using ag(1) none by (simp add: slot_agrees_def)
      then show ?thesis using rest [of 0 g'] g'(2) estep_eff [OF at, of pkt host g g'] g'(1) by simp
    qed
  qed
qed

lemma efrag_ewp:
  "(\<And>p. L p \<noteq> None \<Longrightarrow> lo \<le> p \<and> p < lo + length F) \<Longrightarrow> (\<And>g. A g \<Longrightarrow> ewp pkt host lo F L Q g) \<Longrightarrow>
   efrag pkt host lo F L A Q"
  unfolding efrag_def by (blast intro: ewp_sound)

end
