(* ===== verification/Ebpf_Step.thy ===== *)
theory Ebpf_Step
  imports Ebpf_Logic
begin

text \<open>
  What the instructions of the generator do, on the registers it uses: R2 and R3 hold the bounds of the
  packet, R4 a loaded value, R5 the end of an access, R6 the transport header.
\<close>

definition fits_xdp :: "packet \<Rightarrow> bool" where
  "fits_xdp pkt \<longleftrightarrow> int (length pkt) \<le> 0x0ffffffe"

definition bounds_set :: "packet \<Rightarrow> eregs \<Rightarrow> bool" where
  "bounds_set pkt g \<longleftrightarrow> g 2 = Some PKT_BASE \<and> g 3 = Some (PKT_BASE + of_nat (length pkt))"

named_theorems ebpf_eval "effects of the instructions the generator emits"

lemma jmp_class [ebpf_eval]:
  "\<not> is_jmp (mov64_reg d s)" "\<not> is_jmp (add64_imm d v)" "\<not> is_jmp (add64_reg d s)" "\<not> is_jmp (sub64_reg d s)"
  "\<not> is_jmp (and32_imm d v)" "\<not> is_jmp (or32_imm d v)" "\<not> is_jmp (xor32_imm d v)" "\<not> is_jmp (add32_imm d v)"
  "\<not> is_jmp (sub32_imm d v)" "\<not> is_jmp (mul32_imm d v)" "\<not> is_jmp (div32_imm d v)" "\<not> is_jmp (lsh32_imm d v)"
  "\<not> is_jmp (rsh32_imm d v)" "\<not> is_jmp (to_be16 d)" "\<not> is_jmp (to_be32 d)" "\<not> is_jmp (ldx_b d s off)"
  "\<not> is_jmp (ldx_h d s off)" "\<not> is_jmp (ldx_w d s off)"
  "is_jmp (e_ja off)" "is_jmp (jeq_imm d v off)" "is_jmp (jne_imm d v off)" "is_jmp (jgt_imm d v off)"
  "is_jmp (jge_imm d v off)" "is_jmp (jlt_imm d v off)" "is_jmp (jle_imm d v off)" "is_jmp (jset_imm d v off)"
  "is_jmp (jgt_reg d s off)"
  by (simp_all add: is_jmp_def ector_defs sub64_reg_def ebpf_defs)

lemma off_ctors [ebpf_eval]:
  "e_off (e_ja off) = off" "e_off (jeq_imm d v off) = off" "e_off (jne_imm d v off) = off"
  "e_off (jset_imm d v off) = off" "e_off (jgt_reg d s off) = off"
  by (simp_all add: ector_defs)

lemma eset_ctors [ebpf_eval]:
  "eset p t (e_ja off) = e_ja (of_nat (t - p - 1))"
  "eset p t (jeq_imm d v off) = jeq_imm d v (of_nat (t - p - 1))"
  "eset p t (jset_imm d v off) = jset_imm d v (of_nat (t - p - 1))"
  unfolding eset_def ector_defs by (simp_all only: einsn_new_off)

section \<open>Jumps\<close>

lemmas branch_defs = branch_def ok_regs_def jump_taken_def etaken_def rd_def ector_defs interp_defs reg_defs ok_val_def

lemma branch_ctors [ebpf_eval]:
  "branch (e_ja off) g = Some True"
  "branch (jeq_imm R4 v off) g = map_option (\<lambda>a. a = scast v) (g 4)"
  "branch (jne_imm R4 v off) g = map_option (\<lambda>a. a \<noteq> scast v) (g 4)"
  "branch (jgt_imm R4 v off) g = map_option (\<lambda>a. scast v < a) (g 4)"
  "branch (jge_imm R4 v off) g = map_option (\<lambda>a. scast v \<le> a) (g 4)"
  "branch (jlt_imm R4 v off) g = map_option (\<lambda>a. a < scast v) (g 4)"
  "branch (jle_imm R4 v off) g = map_option (\<lambda>a. a \<le> scast v) (g 4)"
  "branch (jset_imm R4 v off) g = map_option (\<lambda>a. a AND scast v \<noteq> 0) (g 4)"
  "branch (jgt_reg R5 R3 off) g = (case (g 5, g 3) of (Some a, Some b) \<Rightarrow> Some (b < a) | _ \<Rightarrow> None)"
  by (simp_all add: branch_defs split: option.splits)

section \<open>Arithmetic\<close>

lemmas alu_defs = eff_def ok_regs_def step_alu_def alu_result_def rd_def wr_def ector_defs sub64_reg_def interp_defs
  reg_defs ok_val_def Let_def

lemma eff_alu64 [ebpf_eval]:
  "eff (mov64_reg R5 R2) pkt host g = map_option (\<lambda>v. g(5 \<mapsto> v)) (g 2)"
  "eff (mov64_reg R5 R6) pkt host g = map_option (\<lambda>v. g(5 \<mapsto> v)) (g 6)"
  "eff (mov64_reg R6 R2) pkt host g = map_option (\<lambda>v. g(6 \<mapsto> v)) (g 2)"
  "eff (mov64_reg R4 R3) pkt host g = map_option (\<lambda>v. g(4 \<mapsto> v)) (g 3)"
  "eff (add64_imm R5 k) pkt host g = map_option (\<lambda>v. g(5 \<mapsto> v + scast k)) (g 5)"
  "eff (add64_imm R6 k) pkt host g = map_option (\<lambda>v. g(6 \<mapsto> v + scast k)) (g 6)"
  "eff (add64_reg R6 R4) pkt host g = (case (g 4, g 6) of (Some a, Some v) \<Rightarrow> Some (g(6 \<mapsto> v + a)) | _ \<Rightarrow> None)"
  "eff (sub64_reg R4 R2) pkt host g = (case (g 2, g 4) of (Some a, Some v) \<Rightarrow> Some (g(4 \<mapsto> v - a)) | _ \<Rightarrow> None)"
  by (simp_all add: alu_defs split: option.splits)

abbreviation wide :: "u32 \<Rightarrow> u64" where
  "wide v \<equiv> ucast v"

lemma mask32: "(x :: u64) AND 0xffffffff = wide (ucast x)"
proof -
  have "(0xffffffff :: u64) = mask 32" by (simp add: mask_eq_exp_minus_1)
  then have "x AND 0xffffffff = x AND mask 32" by (simp only:)
  also have "\<dots> = wide (ucast x)" by (rule bit_word_eqI) (auto simp: bit_simps)
  finally show ?thesis .
qed

lemma narrow_wide [simp]: "ucast (wide v) = v"
  by (rule bit_word_eqI) (auto simp: bit_simps)

lemma wide_inject [simp]: "wide a = wide b \<longleftrightarrow> a = b"
  using narrow_wide by metis

lemma unat_wide [simp]: "unat (wide v) = unat v"
  using unat_u32_less [of v] by (simp add: unsigned_ucast_eq take_bit_nat_eq_self)

lemma uint_wide [simp]: "uint (wide v) = uint v"
  by (simp only: uint_nat unat_wide)

lemma bit_u32: "bit (a :: u32) n \<Longrightarrow> n < 32"
  using bit_imp_le_length by fastforce

lemma narrow_ops:
  "ucast (wide a + wide b) = a + b" "ucast (wide a - wide b) = a - b" "ucast (wide a * wide b) = a * b"
  "ucast (wide a div wide b) = a div b"
  "ucast (wide a AND wide b) = a AND b" "ucast (wide a OR wide b) = a OR b" "ucast (wide a XOR wide b) = a XOR b"
  "ucast (push_bit n (wide a)) = push_bit n a" "ucast (drop_bit n (wide a)) = drop_bit n a"
proof -
  show "ucast (wide a + wide b) = a + b" "ucast (wide a - wide b) = a - b" "ucast (wide a * wide b) = a * b"
    by (simp_all add: word_uint_eq_iff unsigned_ucast_eq uint_word_ariths take_bit_eq_mod mod_mod_cancel)
  have "unat a div unat b < 2 ^ 32"
    using le_less_trans [OF div_le_dividend [of "unat a" "unat b"] unat_u32_less [of a]] by simp
  then show "ucast (wide a div wide b) = a div b"
    by (simp add: word_unat_eq_iff unat_div unsigned_ucast_eq take_bit_nat_eq_self)
  show "ucast (wide a AND wide b) = a AND b" "ucast (wide a OR wide b) = a OR b" "ucast (wide a XOR wide b) = a XOR b"
    "ucast (push_bit n (wide a)) = push_bit n a"
    by (auto intro!: bit_word_eqI simp: bit_simps)
  show "ucast (drop_bit n (wide a)) = drop_bit n a"
  proof (rule bit_word_eqI)
    fix k show "bit (ucast (drop_bit n (wide a)) :: u32) k = bit (drop_bit n a) k" if "k < LENGTH(32)"
      using bit_u32 [of a "n + k"] that by (auto simp: bit_simps)
  qed
qed

lemma shifted_mask:
  "push_bit n (wide a) AND push_bit n 0xffffffff = push_bit n (wide a)"
  "drop_bit n (wide a) AND drop_bit n 0xffffffff = drop_bit n (wide a)"
  by (simp_all only: push_bit_and [symmetric] drop_bit_and [symmetric] mask32 narrow_wide)

lemma eff_alu32 [ebpf_eval]:
  assumes "g 4 = Some (wide a)"
  shows "eff (and32_imm R4 k) pkt host g = Some (g(4 \<mapsto> wide (a AND k)))"
    and "eff (or32_imm R4 k) pkt host g = Some (g(4 \<mapsto> wide (a OR k)))"
    and "eff (xor32_imm R4 k) pkt host g = Some (g(4 \<mapsto> wide (a XOR k)))"
    and "eff (add32_imm R4 k) pkt host g = Some (g(4 \<mapsto> wide (a + k)))"
    and "eff (sub32_imm R4 k) pkt host g = Some (g(4 \<mapsto> wide (a - k)))"
    and "eff (mul32_imm R4 k) pkt host g = Some (g(4 \<mapsto> wide (a * k)))"
    and "k \<noteq> 0 \<Longrightarrow> eff (div32_imm R4 k) pkt host g = Some (g(4 \<mapsto> wide (a div k)))"
    and "k < 32 \<Longrightarrow> eff (lsh32_imm R4 k) pkt host g = Some (g(4 \<mapsto> wide (push_bit (unat k) a)))"
    and "k < 32 \<Longrightarrow> eff (rsh32_imm R4 k) pkt host g = Some (g(4 \<mapsto> wide (drop_bit (unat k) a)))"
proof -
  have "wide k = 0 \<longleftrightarrow> k = 0" using wide_inject [of k 0] by simp
  moreover have "wide k < 32 \<longleftrightarrow> k < 32" by (simp add: word_less_nat_alt)
  ultimately show
    "eff (and32_imm R4 k) pkt host g = Some (g(4 \<mapsto> wide (a AND k)))"
    "eff (or32_imm R4 k) pkt host g = Some (g(4 \<mapsto> wide (a OR k)))"
    "eff (xor32_imm R4 k) pkt host g = Some (g(4 \<mapsto> wide (a XOR k)))"
    "eff (add32_imm R4 k) pkt host g = Some (g(4 \<mapsto> wide (a + k)))"
    "eff (sub32_imm R4 k) pkt host g = Some (g(4 \<mapsto> wide (a - k)))"
    "eff (mul32_imm R4 k) pkt host g = Some (g(4 \<mapsto> wide (a * k)))"
    "k \<noteq> 0 \<Longrightarrow> eff (div32_imm R4 k) pkt host g = Some (g(4 \<mapsto> wide (a div k)))"
    "k < 32 \<Longrightarrow> eff (lsh32_imm R4 k) pkt host g = Some (g(4 \<mapsto> wide (push_bit (unat k) a)))"
    "k < 32 \<Longrightarrow> eff (rsh32_imm R4 k) pkt host g = Some (g(4 \<mapsto> wide (drop_bit (unat k) a)))"
    using assms by (simp_all add: alu_defs eshift_def mask32 narrow_ops shifted_mask)
qed

section \<open>Loads\<close>

lemma fits_addr:
  assumes "fits_xdp pkt" "n \<le> length pkt"
  shows "unat (PKT_BASE + of_nat n) = 0x10000002 + n"
proof -
  have "n \<le> 0x0ffffffe" using assms by (simp add: fits_xdp_def)
  then show ?thesis by (simp add: PKT_BASE_def unat_word_ariths unat_of_nat take_bit_nat_eq_self)
qed

lemma eff_ldx:
  assumes i: "i = ldx_b R4 s off \<and> w = 1 \<or> i = ldx_h R4 s off \<and> w = 2 \<or> i = ldx_w R4 s off \<and> w = 4"
    and s: "s = R2 \<or> s = R6"
    and base: "g (unat s) = Some base" "base + scast off = PKT_BASE + of_nat n"
    and n: "n + w \<le> length pkt" "fits_xdp pkt"
  shows "eff i pkt host g = Some (g(4 \<mapsto> endian_read host (take w (drop n pkt))))"
proof -
  have u: "unat (PKT_BASE + of_nat n :: u64) = 0x10000002 + n" using fits_addr [of pkt n] n by simp
  have len: "length pkt \<le> 0x0ffffffe" using n(2) by (simp add: fits_xdp_def)
  have ctx: "\<not> in_ctx (PKT_BASE + of_nat n)"
    using u n len i by (auto simp: in_ctx_def CTX_BASE_def word_le_nat_alt)
  have "PKT_BASE \<le> PKT_BASE + of_nat n" using u by (simp add: word_le_nat_alt) (simp add: PKT_BASE_def)
  moreover have "unat (of_nat n :: u64) = n" using n(1) len by (simp add: unat_of_nat take_bit_nat_eq_self)
  ultimately have m: "mem_load [] pkt (PKT_BASE + of_nat n) w 0 = Inr (take w (drop n pkt))"
    using ctx n(1) len by (auto simp: mem_load_def in_ctx_def uint_nat simp del: of_nat_add)
  show ?thesis
    using i s base ctx m
    by (auto simp: eff_def ok_regs_def step_ldx_def ldx_size_def rd_def wr_def ector_defs interp_defs reg_defs ok_val_def)
qed

section \<open>Byte order\<close>

lemma byte_masks: "(0xff :: u64) = mask 8" "(0xffff :: u64) = mask 16"
  by (simp_all add: mask_eq_exp_minus_1)

lemma swap_low_2: "swap_low 2 v = push_bit 8 (v AND mask 8) OR (drop_bit 8 v AND mask 8)"
  unfolding swap_low_def byte_masks by (simp add: upt_rec numeral_2_eq_2)

lemma swap_low_4:
  "swap_low 4 v =
     push_bit 8 (push_bit 8 (push_bit 8 (v AND mask 8) OR (drop_bit 8 v AND mask 8)) OR (drop_bit 16 v AND mask 8))
     OR (drop_bit 24 v AND mask 8)"
  unfolding swap_low_def byte_masks by (simp add: upt_rec)

lemma byte_bit: "bit (b :: u8) n \<Longrightarrow> n < 8"
  using bit_imp_le_length by fastforce

lemma eff_be16: "eff (to_be16 R4) pkt host (g(4 \<mapsto> endian_read host [b0, b1])) = Some (g(4 \<mapsto> wide (be16 b0 b1)))"
proof (cases host)
  case Little
  have "swap_low 2 (endian_read Little [b0, b1]) = wide (be16 b0 b1)"
    by (rule bit_word_eqI) (auto simp: swap_low_2 be16_def bit_simps dest: byte_bit)
  with Little show ?thesis by (simp add: alu_defs step_end_def)
next
  case Big
  have "endian_read Big [b0, b1] AND mask 16 = wide (be16 b0 b1)"
    by (rule bit_word_eqI) (auto simp: be16_def bit_simps dest: byte_bit)
  with Big show ?thesis by (simp add: alu_defs step_end_def byte_masks)
qed

lemma be32_read: "endian_read Big [b0, b1, b2, b3] = wide (be32 b0 b1 b2 b3)"
proof (rule bit_word_eqI)
  fix n :: nat
  consider "n < 8" | "8 \<le> n" "n < 16" | "16 \<le> n" "n < 24" | "24 \<le> n" "n < 32" | "32 \<le> n" by linarith
  then show "bit (endian_read Big [b0, b1, b2, b3]) n = bit (wide (be32 b0 b1 b2 b3)) n"
    by cases (auto simp: be32_def bit_simps dest: byte_bit)
qed

lemma little_bytes:
  fixes b0 b1 b2 b3 :: u8
  defines "v \<equiv> endian_read Little [b0, b1, b2, b3]"
  shows "v AND mask 8 = ucast b0" "drop_bit 8 v AND mask 8 = ucast b1" "drop_bit 16 v AND mask 8 = ucast b2"
    "drop_bit 24 v AND mask 8 = ucast b3"
proof -
  have high: "\<not> bit (b :: u8) n" if "8 \<le> n" for b n using byte_bit [of b n] that by auto
  have "bit (v AND mask 8) n = bit (ucast b0 :: u64) n" "bit (drop_bit 8 v AND mask 8) n = bit (ucast b1 :: u64) n"
    "bit (drop_bit 16 v AND mask 8) n = bit (ucast b2 :: u64) n" "bit (drop_bit 24 v AND mask 8) n = bit (ucast b3 :: u64) n" for n
    unfolding v_def by (cases "n < 8"; simp add: bit_simps high)+
  then show "v AND mask 8 = ucast b0" "drop_bit 8 v AND mask 8 = ucast b1" "drop_bit 16 v AND mask 8 = ucast b2"
    "drop_bit 24 v AND mask 8 = ucast b3"
    by (blast intro: bit_word_eqI)+
qed

lemma eff_be32:
  "eff (to_be32 R4) pkt host (g(4 \<mapsto> endian_read host [b0, b1, b2, b3])) = Some (g(4 \<mapsto> wide (be32 b0 b1 b2 b3)))"
proof (cases host)
  case Little
  have "swap_low 4 (endian_read Little [b0, b1, b2, b3]) = endian_read Big [b0, b1, b2, b3]"
    by (simp only: swap_low_4 little_bytes) simp
  with Little show ?thesis by (simp add: alu_defs step_end_def be32_read del: endian_read.simps)
next
  case Big
  then show ?thesis by (simp add: alu_defs step_end_def mask32 be32_read del: endian_read.simps)
qed

end
