(* ===== verification/Ebpf_Rules.thy ===== *)
theory Ebpf_Rules
  imports Ebpf_Step
begin

text \<open>
  Loads behind their bounds check, and the contract of the tests the generator emits: \<open>etests\<close> says that a
  fragment decides a condition, falls through or takes a success jump when it holds and a failure
  jump when it does not, and keeps the bounds of the packet and the transport pointer.
\<close>

section \<open>Checked loads\<close>

definition check_end :: "u32 \<Rightarrow> einsn list" where
  "check_end e = [mov64_reg R5 R2, add64_imm R5 e, jgt_reg R5 R3 0]"

lemma sint_of_nat32: "n < 0x80000000 \<Longrightarrow> sint (of_nat n :: u32) = int n"
  by (subst signed_of_nat, subst signed_take_bit_int_eq_self) simp_all

lemma scast_small: "unat (v :: u32) < 0x80000000 \<Longrightarrow> (scast v :: u64) = of_nat (unat v)"
  using sint_of_nat32 [of "unat v"] by (simp add: scast_eq)

lemma scast_off: "unat (off :: u32) < 32768 \<Longrightarrow> (scast (ucast off :: i16) :: u64) = of_nat (unat off)"
proof -
  assume "unat off < 32768"
  moreover from this have "unat (ucast off :: i16) = unat off" by (simp add: unsigned_ucast_eq take_bit_nat_eq_self)
  ultimately have "sint (ucast off :: i16) = int (unat off)" using sint_unat [of "ucast off"] by simp
  then show ?thesis by (simp add: scast_eq)
qed

lemma scast_end:
  assumes "unat (off :: u32) < 32768" "w \<le> 64"
  shows "(scast (off + of_nat w) :: u64) = of_nat (unat off + w)"
proof -
  have "unat (off + of_nat w) = unat off + w"
    using assms by (simp add: unat_word_ariths unat_of_nat take_bit_nat_eq_self)
  with assms scast_small [of "off + of_nat w"] show ?thesis by (simp del: of_nat_add)
qed

lemma past_end:
  assumes "fits_xdp pkt" "n \<le> 0x10000000"
  shows "PKT_BASE + of_nat (length pkt) < PKT_BASE + of_nat n \<longleftrightarrow> length pkt < n"
proof -
  have "unat (PKT_BASE + of_nat n) = 0x10000002 + n"
    using assms by (simp add: PKT_BASE_def unat_word_ariths unat_of_nat take_bit_nat_eq_self)
  with fits_addr [OF assms(1) order.refl] show ?thesis by (simp add: word_less_nat_alt)
qed

lemma ewp_check_end:
  assumes "fits_xdp pkt" "bounds_set pkt g" "scast e = (of_nat n :: u64)" "n \<le> 0x10000000"
    and "L lo = None" "L (lo + 1) = None" "L (lo + 2) = Some x"
  shows "ewp pkt host lo (check_end e @ F) L Q g \<longleftrightarrow>
    (let g' = g(5 \<mapsto> PKT_BASE + of_nat n) in if n \<le> length pkt then ewp pkt host (lo + 3) F L Q g' else Q (Some x) g')"
  using assms past_end [OF assms(1,4)]
  by (simp add: check_end_def ebpf_eval bounds_set_def Let_def numeral_3_eq_3)

lemma bytes_at:
  "n + 1 \<le> length pkt \<Longrightarrow> take 1 (drop n pkt) = [pkt_byte pkt n]"
  "n + 2 \<le> length pkt \<Longrightarrow> take 2 (drop n pkt) = [pkt_byte pkt n, pkt_byte pkt (n + 1)]"
  "n + 4 \<le> length pkt \<Longrightarrow> take 4 (drop n pkt) = [pkt_byte pkt n, pkt_byte pkt (n + 1), pkt_byte pkt (n + 2), pkt_byte pkt (n + 3)]"
proof -
  have "take k (drop n pkt) = map (pkt_byte pkt) [n..<n + k]" if "n + k \<le> length pkt" for k
    using that by (intro nth_equalityI) (simp_all add: pkt_byte_def)
  from this [of 1] this [of 2] this [of 4] show
    "n + 1 \<le> length pkt \<Longrightarrow> take 1 (drop n pkt) = [pkt_byte pkt n]"
    "n + 2 \<le> length pkt \<Longrightarrow> take 2 (drop n pkt) = [pkt_byte pkt n, pkt_byte pkt (n + 1)]"
    "n + 4 \<le> length pkt \<Longrightarrow> take 4 (drop n pkt) = [pkt_byte pkt n, pkt_byte pkt (n + 1), pkt_byte pkt (n + 2), pkt_byte pkt (n + 3)]"
    by (simp_all add: upt_rec numeral_eq_Suc)
qed

lemma wide_byte: "wide (ucast (b :: u8)) = ucast b"
  by (rule bit_word_eqI) (auto simp: bit_simps dest: byte_bit)

text \<open>The three loads from an address in a register, swapped to host order where they are wider than a byte.\<close>

fun load_at :: "access_size \<Rightarrow> u8 \<Rightarrow> i16 \<Rightarrow> einsn list" where
  "load_at Byte s off = [ldx_b R4 s off]"
| "load_at Half s off = [ldx_h R4 s off, to_be16 R4]"
| "load_at Word_Size s off = [ldx_w R4 s off, to_be32 R4]"

lemma ewp_load_at:
  assumes "fits_xdp pkt" "s = R2 \<or> s = R6" "g (unat s) = Some base" "base + scast off = PKT_BASE + of_nat n"
    and "n + size_bytes sz \<le> length pkt" and L: "\<And>j. j < length (load_at sz s off) \<Longrightarrow> L (lo + j) = None"
  shows "ewp pkt host lo (load_at sz s off @ F) L Q g \<longleftrightarrow>
    ewp pkt host (lo + length (load_at sz s off)) F L Q (g(4 \<mapsto> wide (sized pkt sz n)))"
proof (cases sz)
  case Byte
  have "eff (ldx_b R4 s off) pkt host g = Some (g(4 \<mapsto> wide (ldb pkt n)))"
    using eff_ldx [of "ldx_b R4 s off" s off 1 g base n pkt host] assms(1-5) bytes_at(1) [of n pkt] Byte
    by (cases host) (simp_all add: ldb_def wide_byte)
  then show ?thesis using Byte L [of 0] by (simp add: ebpf_eval)
next
  case Half
  have "eff (ldx_h R4 s off) pkt host g = Some (g(4 \<mapsto> endian_read host [pkt_byte pkt n, pkt_byte pkt (n + 1)]))"
    using eff_ldx [of "ldx_h R4 s off" s off 2 g base n pkt host] assms(1-5) bytes_at(2) [of n pkt] Half by simp
  then show ?thesis using Half L [of 0] L [of 1] by (simp add: ebpf_eval eff_be16 ldh_def)
next
  case Word_Size
  have "eff (ldx_w R4 s off) pkt host g = Some (g(4 \<mapsto>
      endian_read host [pkt_byte pkt n, pkt_byte pkt (n + 1), pkt_byte pkt (n + 2), pkt_byte pkt (n + 3)]))"
    using eff_ldx [of "ldx_w R4 s off" s off 4 g base n pkt host] assms(1-5) bytes_at(3) [of n pkt] Word_Size by simp
  then show ?thesis using Word_Size L [of 0] L [of 1] by (simp add: ebpf_eval eff_be32 ldw_def)
qed

definition eload_code :: "access_size \<Rightarrow> u32 \<Rightarrow> einsn list" where
  "eload_code sz off = check_end (off + esize_bytes sz) @ load_at sz R2 (ucast off)"

lemma length_load_at [simp]: "length (load_at sz s off) = (if sz = Byte then 1 else 2)"
  by (cases sz) simp_all

lemma length_load_code [simp]: "length (eload_code sz off) = (if sz = Byte then 4 else 5)"
  by (simp add: eload_code_def check_end_def)

lemma ewp_load:
  assumes "fits_xdp pkt" "bounds_set pkt g" "unat off < 32768"
    and L: "L lo = None" "L (lo + 1) = None" "L (lo + 2) = Some x" "L (lo + 3) = None" "sz \<noteq> Byte \<Longrightarrow> L (lo + 4) = None"
  shows "ewp pkt host lo (eload_code sz off @ F) L Q g \<longleftrightarrow>
    (let n = unat off + size_bytes sz; g' = g(5 \<mapsto> PKT_BASE + of_nat n)
     in if n \<le> length pkt
        then ewp pkt host (lo + length (eload_code sz off)) F L Q (g'(4 \<mapsto> wide (sized pkt sz (unat off))))
        else Q (Some x) g')"
proof -
  let ?n = "unat off + size_bytes sz"
  let ?g = "g(5 \<mapsto> PKT_BASE + of_nat ?n)"
  have e: "esize_bytes sz = of_nat (size_bytes sz)" "size_bytes sz \<le> 4" by (cases sz; simp)+
  have "scast (off + esize_bytes sz) = (of_nat ?n :: u64)" using scast_end [OF assms(3), of "size_bytes sz"] e by simp
  moreover have "?n \<le> 0x10000000" using assms(3) e(2) by simp
  ultimately have "ewp pkt host lo (eload_code sz off @ F) L Q g \<longleftrightarrow>
      (if ?n \<le> length pkt then ewp pkt host (lo + 3) (load_at sz R2 (ucast off) @ F) L Q ?g else Q (Some x) ?g)"
    using ewp_check_end [where L = L, OF assms(1,2) _ _ L(1-3)] by (simp add: eload_code_def Let_def)
  moreover have "ewp pkt host (lo + 3) (load_at sz R2 (ucast off) @ F) L Q ?g \<longleftrightarrow>
      ewp pkt host (lo + 3 + length (load_at sz R2 (ucast off))) F L Q (?g(4 \<mapsto> wide (sized pkt sz (unat off))))"
    if "?n \<le> length pkt"
  proof (rule ewp_load_at [OF assms(1)])
    show "?g (unat R2) = Some PKT_BASE" using assms(2) by (simp add: bounds_set_def R2_def)
    show "PKT_BASE + scast (ucast off :: i16) = PKT_BASE + of_nat (unat off)" by (simp add: scast_off [OF assms(3)])
    show "L (lo + 3 + j) = None" if "j < length (load_at sz R2 (ucast off))" for j
      using that L(4,5) by (cases sz) (auto simp: less_Suc_eq numeral_eq_Suc)
  qed (use that in simp_all)
  ultimately show ?thesis by (simp add: Let_def) (simp add: numeral_eq_Suc)
qed

section \<open>Tests\<close>

definition eready :: "packet \<Rightarrow> u64 option \<Rightarrow> eregs \<Rightarrow> bool" where
  "eready pkt r6 g \<longleftrightarrow> bounds_set pkt g \<and> g 6 = r6"

text \<open>
  \<open>I\<close> is what the test keeps of the registers: \<open>bounds_set pkt\<close>, or \<open>eready pkt r6\<close> with the transport pointer.
\<close>

definition everdict :: "nat list \<Rightarrow> (eregs \<Rightarrow> bool) \<Rightarrow> bool \<Rightarrow> epost" where
  "everdict su I t l g \<longleftrightarrow>
     I g \<and>
     (case l of None \<Rightarrow> t | Some ESucc \<Rightarrow> su \<noteq> [] \<and> t | Some EFail \<Rightarrow> \<not> t | Some EAux \<Rightarrow> False)"

lemma everdict_simps [simp]:
  "everdict su I t None g \<longleftrightarrow> I g \<and> t"
  "everdict su I t (Some ESucc) g \<longleftrightarrow> I g \<and> su \<noteq> [] \<and> t"
  "everdict su I t (Some EFail) g \<longleftrightarrow> I g \<and> \<not> t"
  "everdict su I t (Some EAux) g \<longleftrightarrow> False"
  by (auto simp: everdict_def)

definition etests :: "packet \<Rightarrow> endian \<Rightarrow> nat \<Rightarrow> einsn list \<Rightarrow> nat list \<Rightarrow> nat list \<Rightarrow> (eregs \<Rightarrow> bool) \<Rightarrow> bool \<Rightarrow> bool" where
  "etests pkt host lo F su fl I t \<longleftrightarrow>
     set su \<inter> set fl = {} \<and> efrag pkt host lo F (epend su fl) I (everdict su I t)"

lemma eready_upd [simp]:
  "eready pkt r6 (g(5 \<mapsto> v)) = eready pkt r6 g" "eready pkt r6 (g(4 \<mapsto> v)) = eready pkt r6 g"
  by (simp_all add: eready_def bounds_set_def)

lemma efrag_guard: "efrag pkt host lo F L A Q \<Longrightarrow> efrag pkt host lo F L (\<lambda>g. A g \<and> c) (\<lambda>l g. Q l g \<and> c)"
  by (cases c) (simp_all add: efrag_def)

lemma etests_range: "etests pkt host lo F su fl I t \<Longrightarrow> p \<in> set su \<union> set fl \<Longrightarrow> lo \<le> p \<and> p < lo + length F"
  unfolding etests_def by (rule efrag_range [of _ _ _ _ "epend su fl"]) (auto simp: epend_def)

lemma etests_wp:
  assumes "set su \<inter> set fl = {}" "\<And>p. p \<in> set su \<union> set fl \<Longrightarrow> lo \<le> p \<and> p < lo + length F"
    and "\<And>g. I g \<Longrightarrow> ewp pkt host lo F (epend su fl) (everdict su I t) g"
  shows "etests pkt host lo F su fl I t"
  unfolding etests_def
  by (intro conjI efrag_ewp assms(1,3)) (use assms(2) in \<open>auto simp: epend_def split: if_splits\<close>)

lemma etests_cong:
  "etests pkt host lo F su fl I t \<Longrightarrow> set su' = set su \<Longrightarrow> set fl' = set fl \<Longrightarrow> t' = t \<Longrightarrow>
   etests pkt host lo F su' fl' I t'"
proof -
  assume "etests pkt host lo F su fl I t" "set su' = set su" "set fl' = set fl" "t' = t"
  moreover from this have "epend su' fl' = epend su fl" "(su' = []) = (su = [])"
    by (auto simp: epend_def fun_eq_iff)
  moreover from this(2) have "everdict su' I t = everdict su I t"
    by (simp add: everdict_def fun_eq_iff split: option.split exit.split)
  ultimately show ?thesis by (simp add: etests_def)
qed

lemma etests_Nil: "etests pkt host lo [] [] [] I True"
  by (rule etests_wp) (simp_all)

lemma etests_and:
  assumes 1: "etests pkt host lo F [] fl1 I t1" and 2: "etests pkt host (lo + length F) G su fl2 I t2"
  shows "etests pkt host lo (F @ G) su (fl1 @ fl2) I (t1 \<and> t2)"
proof -
  have r1: "p < lo + length F" if "p \<in> set fl1" for p using etests_range [OF 1, of p] that by simp
  have r2: "lo + length F \<le> p" if "p \<in> set su \<union> set fl2" for p using etests_range [OF 2, of p] that by simp
  have add: "epend [] fl1 ++ epend su fl2 = epend su (fl1 @ fl2)"
    using r1 r2 2 by (fastforce simp: fun_eq_iff map_add_def epend_def etests_def)
  have "efrag pkt host lo (F @ G) (epend [] fl1 ++ epend su fl2) I (everdict su I (t1 \<and> t2))"
  proof (rule efrag_seq)
    show "efrag pkt host lo F (epend [] fl1) I (everdict [] I t1)" using 1 by (simp add: etests_def)
    show "efrag pkt host (lo + length F) G (epend su fl2) (\<lambda>g. I g \<and> t1) (\<lambda>l g. everdict su I t2 l g \<and> t1)"
      using 2 by (simp add: etests_def efrag_guard)
  qed (auto simp: everdict_def split: option.splits exit.splits)
  with 1 2 r1 r2 show ?thesis unfolding etests_def add by force
qed

text \<open>A test whose failure goes on behind a jump to success: the first half of an OR, and of a NOT.\<close>

lemma eturn:
  assumes 1: "etests pkt host (length C) F su fl I t"
    and res: "eresolves fl (length C + length F + 1) (C @ F @ [e_ja 0]) (C @ H)"
  shows "efrag pkt host (length C) H (epend (su @ [length C + length F]) []) I
    (\<lambda>l g. I g \<and> (case l of None \<Rightarrow> \<not> t | Some ESucc \<Rightarrow> t | Some EFail \<Rightarrow> False | Some EAux \<Rightarrow> False))"
proof -
  let ?ja = "length C + length F" and ?M = "\<lambda>p. if p = length C + length F then Some ESucc else None"
  let ?Q = "\<lambda>l g. I g \<and> (case l of None \<Rightarrow> False | Some ESucc \<Rightarrow> t | Some EFail \<Rightarrow> \<not> t | Some EAux \<Rightarrow> False)"
  have ja: "efrag pkt host ?ja [e_ja 0] ?M (\<lambda>g. I g \<and> t) (\<lambda>l g. l = Some ESucc \<and> I g \<and> t)"
    by (rule efrag_ewp) (auto simp: ebpf_eval split: if_splits)
  have "efrag pkt host (length C) (F @ [e_ja 0]) (epend su fl ++ ?M) I ?Q"
    by (rule efrag_seq [OF _ ja, where ?Q1.0 = "everdict su I t"])
      (use 1 in \<open>auto simp: etests_def everdict_def split: option.splits exit.splits\<close>)
  moreover have "p \<in> set fl \<longleftrightarrow> (epend su fl ++ ?M) p = Some EFail" for p
    using 1 etests_range [OF 1, of p] by (auto simp: etests_def epend_def map_add_def)
  ultimately have "efrag pkt host (length C) H (eclose EFail (epend su fl ++ ?M)) I
      (\<lambda>l g. case l of None \<Rightarrow> ?Q None g \<or> ?Q (Some EFail) g | Some d \<Rightarrow> d \<noteq> EFail \<and> ?Q (Some d) g)"
    using efrag_resolve [of pkt host C "F @ [e_ja 0]" "epend su fl ++ ?M" I ?Q fl H EFail] res by simp
  moreover have "eclose EFail (epend su fl ++ ?M) = epend (su @ [?ja]) []"
    by (auto simp: fun_eq_iff eclose_def epend_def map_add_def)
  ultimately have f: "efrag pkt host (length C) H (epend (su @ [?ja]) []) I
      (\<lambda>l g. case l of None \<Rightarrow> ?Q None g \<or> ?Q (Some EFail) g | Some d \<Rightarrow> d \<noteq> EFail \<and> ?Q (Some d) g)"
    by (simp only:)
  show ?thesis
    by (rule efrag_conseq [OF f], assumption) (auto split: option.splits exit.splits exit.split_asm)
qed

lemma etests_or:
  assumes 1: "etests pkt host (length C) F su1 fl1 I t1"
    and 2: "etests pkt host (length C + length F + 1) G su2 fl2 I t2"
    and res: "eresolves fl1 (length C + length F + 1) (C @ F @ [e_ja 0]) (C @ H)"
  shows "etests pkt host (length C) (H @ G) (su1 @ [length C + length F] @ su2) fl2 I (t1 \<or> t2)"
proof -
  let ?ja = "length C + length F" and ?su = "su1 @ [length C + length F] @ su2"
  have len: "length H = length F + 1" using eresolves_length [OF res] by simp
  have r1: "p \<le> ?ja" if "p \<in> set (su1 @ [?ja])" for p using etests_range [OF 1, of p] that by auto
  have r2: "?ja < p" if "p \<in> set su2 \<union> set fl2" for p using etests_range [OF 2, of p] that by simp
  have add: "epend (su1 @ [?ja]) [] ++ epend su2 fl2 = epend ?su fl2"
    using r1 r2 2 by (fastforce simp: fun_eq_iff map_add_def epend_def etests_def)
  have "efrag pkt host (length C) (H @ G) (epend (su1 @ [?ja]) [] ++ epend su2 fl2) I (everdict ?su I (t1 \<or> t2))"
  proof (rule efrag_seq [OF eturn [OF 1 res]])
    show "efrag pkt host (length C + length H) G (epend su2 fl2) (\<lambda>g. I g \<and> \<not> t1) (\<lambda>l g. everdict su2 I t2 l g \<and> \<not> t1)"
      using 2 len efrag_guard [of pkt host "length C + length H" G "epend su2 fl2" I "everdict su2 I t2" "\<not> t1"]
      by (simp add: etests_def)
  qed (auto simp: everdict_def split: option.splits exit.splits)
  moreover have "set ?su \<inter> set fl2 = {}" using r1 r2 2 by (fastforce simp: etests_def)
  ultimately show ?thesis unfolding etests_def add by simp
qed

lemma etests_not:
  assumes 1: "etests pkt host (length C) F su fl I t"
    and res: "eresolves fl (length C + length F + 1) (C @ F @ [e_ja 0]) (C @ H)"
  shows "etests pkt host (length C) H [] (su @ [length C + length F]) I (\<not> t)"
proof -
  have "map_option (\<lambda>_. EFail) \<circ> epend (su @ [length C + length F]) [] = epend [] (su @ [length C + length F])"
    by (auto simp: fun_eq_iff epend_def)
  with efrag_relabel [OF eturn [OF 1 res], of "\<lambda>_. EFail"]
  have "efrag pkt host (length C) H (epend [] (su @ [length C + length F])) I
      (\<lambda>l g. case l of None \<Rightarrow> I g \<and> \<not> t | Some e \<Rightarrow> \<exists>d. EFail = e \<and> I g \<and> (case d of ESucc \<Rightarrow> t | _ \<Rightarrow> False))"
    by (simp cong: option.case_cong)
  then have "efrag pkt host (length C) H (epend [] (su @ [length C + length F])) I (everdict [] I (\<not> t))"
    by (rule efrag_conseq) (auto simp: everdict_def split: option.splits exit.splits)
  then show ?thesis by (simp add: etests_def)
qed

lemma etests_resolved:
  assumes 1: "etests pkt host (length C) F su fl I t"
    and res: "eresolves su (length C + length F) (C @ F) (C @ H)"
  shows "etests pkt host (length C) H [] fl I t"
proof -
  have "p \<in> set su \<longleftrightarrow> epend su fl p = Some ESucc" for p by (simp add: epend_def)
  from efrag_resolve [OF _ res this, of pkt host I "everdict su I t"] 1
  have "efrag pkt host (length C) H (eclose ESucc (epend su fl)) I
      (\<lambda>l g. case l of None \<Rightarrow> everdict su I t None g \<or> everdict su I t (Some ESucc) g
        | Some d \<Rightarrow> d \<noteq> ESucc \<and> everdict su I t (Some d) g)"
    by (simp add: etests_def)
  moreover have "eclose ESucc (epend su fl) = epend [] fl"
    using 1 by (auto simp: fun_eq_iff eclose_def epend_def etests_def)
  ultimately show ?thesis
    by (auto simp: etests_def everdict_def elim!: efrag_conseq split: option.splits exit.splits)
qed

lemma etests_all:
  assumes "\<And>r6. etests pkt host lo F su fl (eready pkt r6) t"
  shows "etests pkt host lo F su fl (bounds_set pkt) t"
proof -
  have f: "efrag pkt host lo F (epend su fl) (eready pkt r6) (everdict su (eready pkt r6) t)" for r6
    using assms by (simp add: etests_def)
  have "esettles P pkt host T (length F) (lo + length F) (everdict su (bounds_set pkt) t) lo g"
    if "eagree P lo F T (epend su fl)" "bounds_set pkt g" for P T g
  proof -
    have "esettles P pkt host T (length F) (lo + length F) (everdict su (eready pkt (g 6)) t) lo g"
      using f [of "g 6"] that by (simp add: efrag_def eready_def)
    then show ?thesis by (rule esettles_mono) (auto simp: everdict_def eready_def)
  qed
  with f [of None] assms [of None] show ?thesis by (simp add: etests_def efrag_def)
qed

end
