(* ===== verification/Ebpf_Spec.thy ===== *)
theory Ebpf_Spec
  imports Codegen_Spec
begin

text \<open>
  What a filter means on the extended BPF target. A test of a field that does not lie inside the packet
  is false, where the classic program gives up; constants are compared as the machine does it, a
  zero-extended value against a sign-extended constant; no VLAN tag is stepped over and fragments are
  not told apart.
\<close>

definition eq64 :: "u32 \<Rightarrow> u32 \<Rightarrow> bool" where
  "eq64 v k \<longleftrightarrow> (ucast v :: u64) = scast k"

definition field :: "packet \<Rightarrow> access_size \<Rightarrow> nat \<Rightarrow> (u32 \<Rightarrow> bool) \<Rightarrow> bool" where
  "field pkt sz n R \<longleftrightarrow> n + size_bytes sz \<le> length pkt \<and> R (sized pkt sz n)"

definition ether_is :: "link_type \<Rightarrow> u32 \<Rightarrow> packet \<Rightarrow> bool" where
  "ether_is link et pkt \<longleftrightarrow>
     (if link = RawIp then et = 0x0800 else field pkt Half (ether_off link 0) (\<lambda>v. eq64 v et))"

definition v4_proto :: "link_type \<Rightarrow> (u8 \<Rightarrow> bool) \<Rightarrow> packet \<Rightarrow> bool" where
  "v4_proto link R pkt \<longleftrightarrow>
     ether_is link 0x0800 pkt \<and> net_off link 0 + 10 \<le> length pkt \<and> R (proto4 link 0 pkt)"

definition v6_proto :: "link_type \<Rightarrow> (u8 \<Rightarrow> bool) \<Rightarrow> packet \<Rightarrow> bool" where
  "v6_proto link R pkt \<longleftrightarrow>
     ether_is link 0x86dd pkt \<and> net_off link 0 + 7 \<le> length pkt \<and> R (proto6 link 0 pkt)"

fun eproto_sem :: "link_type \<Rightarrow> proto \<Rightarrow> packet \<Rightarrow> bool" where
  "eproto_sem link Ip pkt = ether_is link 0x0800 pkt"
| "eproto_sem link Ip6 pkt = ether_is link 0x86dd pkt"
| "eproto_sem link Arp pkt = ether_is link 0x0806 pkt"
| "eproto_sem link Rarp pkt = ether_is link 0x8035 pkt"
| "eproto_sem link Tcp pkt = (v4_proto link ((=) 6) pkt \<or> v6_proto link ((=) 6) pkt)"
| "eproto_sem link Udp pkt = (v4_proto link ((=) 17) pkt \<or> v6_proto link ((=) 17) pkt)"
| "eproto_sem link Sctp pkt = (v4_proto link ((=) 132) pkt \<or> v6_proto link ((=) 132) pkt)"
| "eproto_sem link Icmp pkt = v4_proto link ((=) 1) pkt"
| "eproto_sem link Igmp pkt = v4_proto link ((=) 2) pkt"
| "eproto_sem link Icmp6 pkt = v6_proto link ((=) 58) pkt"
| "eproto_sem link (Num n) pkt = v4_proto link ((=) n) pkt"
| "eproto_sem link (Ip6Proto n) pkt = v6_proto link ((=) n) pkt"

definition ports_at :: "packet \<Rightarrow> nat \<Rightarrow> (u32 \<Rightarrow> bool) \<Rightarrow> dir \<Rightarrow> bool" where
  "ports_at pkt h R d \<longleftrightarrow> h + 4 \<le> length pkt \<and> dir_sem d (R (ldh pkt h)) (R (ldh pkt (h + 2)))"

definition eports_sem :: "link_type \<Rightarrow> (u32 \<Rightarrow> bool) \<Rightarrow> dir \<Rightarrow> proto option \<Rightarrow> packet \<Rightarrow> bool" where
  "eports_sem link R d pr pkt \<longleftrightarrow>
     (case l4set_for pr of
        Inl _ \<Rightarrow> False
      | Inr want \<Rightarrow>
          (v4_proto link (l4_contains want) pkt \<and>
           ports_at pkt (net_off link 0 + unat (ihl_bytes link 0 pkt)) R d) \<or>
          (v6_proto link (l4_contains want) pkt \<and> ports_at pkt (net_off link 0 + 40) R d))"

definition addr6_in :: "packet \<Rightarrow> nat \<Rightarrow> ipv6_addr \<Rightarrow> bool" where
  "addr6_in pkt off a \<longleftrightarrow> off + 16 \<le> length pkt \<and> addr6_at pkt off a"

definition prefix6_in :: "packet \<Rightarrow> nat \<Rightarrow> ipv6_addr \<Rightarrow> nat \<Rightarrow> bool" where
  "prefix6_in pkt off a n \<longleftrightarrow>
     (\<forall>b < min n 128. off + 2 * (b div 16) + 2 \<le> length pkt) \<and> prefix6_at pkt off a n"

fun mac_in :: "packet \<Rightarrow> nat \<Rightarrow> mac_addr \<Rightarrow> bool" where
  "mac_in pkt off (MacAddr a b c d e f) \<longleftrightarrow>
     field pkt Word_Size off (\<lambda>v. eq64 v (be32 a b c d)) \<and>
     field pkt Half (off + 4) (\<lambda>v. eq64 v (be32 0 0 e f))"

fun ecmp_sem :: "cmp_op \<Rightarrow> u64 \<Rightarrow> u64 \<Rightarrow> bool" where
  "ecmp_sem CmpEq a b = (a = b)"
| "ecmp_sem CmpNe a b = (a \<noteq> b)"
| "ecmp_sem CmpLt a b = (a < b)"
| "ecmp_sem CmpLe a b = (a \<le> b)"
| "ecmp_sem CmpGt a b = (b < a)"
| "ecmp_sem CmpGe a b = (b \<le> a)"
| "ecmp_sem CmpBitAnd a b = (a AND b \<noteq> 0)"

definition eba_test :: "byte_access \<Rightarrow> u32 \<Rightarrow> u32 \<Rightarrow> bool" where
  "eba_test ba value v \<longleftrightarrow>
     ecmp_sem (ba_op ba) (ucast (foldl (\<lambda>a (opr, k). arith_sem opr a k) v (alu_ops ba))) (scast value)"

definition eba_sem :: "link_type \<Rightarrow> byte_access \<Rightarrow> packet \<Rightarrow> bool" where
  "eba_sem link ba pkt \<longleftrightarrow>
     (case ba_rhs ba of
        LoadRhs _ \<Rightarrow> False
      | Const value \<Rightarrow>
          (case ba_layer ba of
             Raw \<Rightarrow> field pkt (ba_size ba) (unat (ba_offset ba)) (eba_test ba value)
           | Net_Layer \<Rightarrow> field pkt (ba_size ba) (net_off link 0 + unat (ba_offset ba)) (eba_test ba value)
           | Trans \<Rightarrow>
               net_off link 0 < length pkt \<and>
               field pkt (ba_size ba) (net_off link 0 + unat (ihl_bytes link 0 pkt) + unat (ba_offset ba))
                 (eba_test ba value)))"

fun eprim_sem :: "link_type \<Rightarrow> primitive \<Rightarrow> packet \<Rightarrow> bool" where
  "eprim_sem link (Proto p) pkt = eproto_sem link p pkt"
| "eprim_sem link (Host (V4 a) d) pkt =
     (ether_is link 0x0800 pkt \<and>
      dir_sem d (field pkt Word_Size (net_off link 0 + 12) (\<lambda>v. eq64 v a))
        (field pkt Word_Size (net_off link 0 + 16) (\<lambda>v. eq64 v a)))"
| "eprim_sem link (Host (V6 a) d) pkt =
     (ether_is link 0x86dd pkt \<and>
      dir_sem d (addr6_in pkt (net_off link 0 + 8) a) (addr6_in pkt (net_off link 0 + 24) a))"
| "eprim_sem link (Net net d) pkt =
     (ether_is link 0x0800 pkt \<and>
      dir_sem d
        (field pkt Word_Size (net_off link 0 + 12) (\<lambda>v. eq64 (v AND net_mask net) (net_addr net AND net_mask net)))
        (field pkt Word_Size (net_off link 0 + 16) (\<lambda>v. eq64 (v AND net_mask net) (net_addr net AND net_mask net))))"
| "eprim_sem link (Net6 net d) pkt =
     (ether_is link 0x86dd pkt \<and>
      dir_sem d
        (prefix6_in pkt (net_off link 0 + 8) (net6_addr net) (unat (prefix_len net)))
        (prefix6_in pkt (net_off link 0 + 24) (net6_addr net) (unat (prefix_len net))))"
| "eprim_sem link (Port port d pr) pkt = eports_sem link (\<lambda>v. v = ucast port) d pr pkt"
| "eprim_sem link (PortRange lo hi d pr) pkt = eports_sem link (\<lambda>v. ucast lo \<le> v \<and> v \<le> ucast hi) d pr pkt"
| "eprim_sem link (EtherHost m d) pkt = dir_sem d (mac_in pkt 6 m) (mac_in pkt 0 m)"
| "eprim_sem link (EtherProto et) pkt = ether_is link (ucast et) pkt"
| "eprim_sem link EtherMulticast pkt = (pkt \<noteq> [] \<and> bit (pkt_byte pkt 0) 0)"
| "eprim_sem link IpBroadcast pkt =
     (ether_is link 0x0800 pkt \<and> field pkt Word_Size (net_off link 0 + 16) (\<lambda>v. eq64 v 0xffffffff))"
| "eprim_sem link IpMulticast pkt =
     (ether_is link 0x0800 pkt \<and>
      field pkt Word_Size (net_off link 0 + 16) (\<lambda>v. eq64 (v AND 0xf0000000) 0xe0000000))"
| "eprim_sem link Ip6Multicast pkt =
     (ether_is link 0x86dd pkt \<and> field pkt Byte (net_off link 0 + 24) (\<lambda>v. eq64 v 0xff))"
| "eprim_sem link (Vlan vid) pkt =
     (ether_is link 0x8100 pkt \<and>
      (case vid of
         None \<Rightarrow> True
       | Some v \<Rightarrow> field pkt Half (ether_off link 0 + 2) (\<lambda>x. eq64 (x AND 0x0fff) (ucast v))))"
| "eprim_sem link (Mpls lbl) pkt =
     (field pkt Half (ether_off link 0) (\<lambda>v. eq64 v 0x8847 \<or> eq64 v 0x8848) \<and>
      (case lbl of
         None \<Rightarrow> True
       | Some l \<Rightarrow> field pkt Word_Size (ether_off link 0 + 2) (\<lambda>v. eq64 (drop_bit 12 v) l)))"
| "eprim_sem link PppoeDiscovery pkt = ether_is link 0x8863 pkt"
| "eprim_sem link (PppoeSession sid) pkt =
     (ether_is link 0x8864 pkt \<and>
      (case sid of None \<Rightarrow> True | Some v \<Rightarrow> field pkt Half (ether_off link 0 + 4) (\<lambda>x. eq64 x (ucast v))))"
| "eprim_sem link (IpProtoChain n) pkt = v4_proto link ((=) n) pkt"
| "eprim_sem link (Ip6ProtoChain n) pkt = v6_proto link ((=) n) pkt"
| "eprim_sem link (Len opr v) pkt = ecmp_sem opr (of_nat (length pkt)) (scast v)"
| "eprim_sem link Inbound pkt = False"
| "eprim_sem link Outbound pkt = False"
| "eprim_sem link (ByteAccess ba) pkt = eba_sem link ba pkt"

fun esem :: "link_type \<Rightarrow> expr \<Rightarrow> packet \<Rightarrow> bool" where
  "esem link (Primitive p) pkt = eprim_sem link p pkt"
| "esem link (And l r) pkt = (esem link l pkt \<and> esem link r pkt)"
| "esem link (Or l r) pkt = (esem link l pkt \<or> esem link r pkt)"
| "esem link (Not e) pkt = (\<not> esem link e pkt)"

text \<open>
  Byte accesses whose offset fits the 16-bit signed offset of a load, and shifts by less than the width:
  the generator does not check either, and the machine refuses what it emits for the others.
\<close>

fun shift_ok :: "arith_op \<times> u32 \<Rightarrow> bool" where
  "shift_ok (OpShl, k) = (k < 32)"
| "shift_ok (OpShr, k) = (k < 32)"
| "shift_ok _ = True"

fun encodable :: "link_type \<Rightarrow> primitive \<Rightarrow> bool" where
  "encodable link (ByteAccess ba) =
     (list_all shift_ok (alu_ops ba) \<and>
      (case ba_layer ba of
         Net_Layer \<Rightarrow> uint (ba_offset ba) + int (net_off link 0) < 32768
       | _ \<Rightarrow> uint (ba_offset ba) < 32768))"
| "encodable link _ = True"

end
