(* ===== verification/Ebpf_Prims.thy ===== *)
theory Ebpf_Prims
  imports Ebpf_Rules Ebpf_Spec
begin

text \<open>The emitters of header-field tests decide the conditions of \<open>Ebpf_Spec\<close>.\<close>

section \<open>Pushed code\<close>

abbreviation here :: "ecodegen \<Rightarrow> nat" where
  "here cg \<equiv> length (ecg_insns cg)"

definition with_code :: "ecodegen \<Rightarrow> einsn list \<Rightarrow> ecodegen" where
  "with_code cg F = cg\<lparr>ecg_insns := ecg_insns cg @ F\<rparr>"

lemma with_code_simps [simp]:
  "ecg_insns (with_code cg F) = ecg_insns cg @ F" "ecg_link (with_code cg F) = ecg_link cg"
  "with_code (with_code cg F) G = with_code cg (F @ G)"
  by (simp_all add: with_code_def)

lemma with_code_Nil: "with_code cg [] = cg"
  by (simp add: with_code_def)

lemma epush_code [simp]: "epush i cg = (here cg, with_code cg [i])" "eput i cg = with_code cg [i]"
  by (simp_all add: eput_def epush_def with_code_def)

lemma emit_load_code [simp]:
  "emit_load_byte off cg = (here cg + 2, with_code cg (eload_code Byte off))"
  "emit_load_half off cg = (here cg + 2, with_code cg (eload_code Half off))"
  "emit_load_word off cg = (here cg + 2, with_code cg (eload_code Word_Size off))"
  by (simp_all add: emit_load_byte_def emit_load_half_def emit_load_word_def push_ldx_h_be_def push_ldx_w_be_def
      eload_code_def check_end_def)

text \<open>A load, some arithmetic and a jump to failure unless the value is \<open>k\<close>.\<close>

definition test_code :: "access_size \<Rightarrow> u32 \<Rightarrow> einsn list \<Rightarrow> u32 \<Rightarrow> einsn list" where
  "test_code sz off mid k = eload_code sz off @ mid @ [jne_imm R4 k 0]"

definition test_slots :: "access_size \<Rightarrow> einsn list \<Rightarrow> nat \<Rightarrow> nat list" where
  "test_slots sz mid lo = [lo + 2, lo + (if sz = Byte then 4 else 5) + length mid]"

lemma length_test_code [simp]: "length (test_code sz off mid k) = (if sz = Byte then 5 else 6) + length mid"
  by (simp add: test_code_def)

definition computes :: "packet \<Rightarrow> einsn list \<Rightarrow> (u32 \<Rightarrow> u32) \<Rightarrow> bool" where
  "computes pkt mid f \<longleftrightarrow>
     (\<forall>host lo L Q g F a. g 4 = Some (wide a) \<longrightarrow> (\<forall>j < length mid. L (lo + j) = None) \<longrightarrow>
        ewp pkt host lo (mid @ F) L Q g = ewp pkt host (lo + length mid) F L Q (g(4 \<mapsto> wide (f a))))"

lemma computes_Nil: "computes pkt [] id"
  by (simp add: computes_def map_upd_triv)

lemma computes_step:
  assumes "\<not> is_jmp i" "\<And>g a. g 4 = Some (wide a) \<Longrightarrow> \<forall>host. eff i pkt host g = Some (g(4 \<mapsto> wide (f a)))"
    and "computes pkt is h"
  shows "computes pkt (i # is) (h \<circ> f)"
  unfolding computes_def
proof (intro allI impI)
  fix host lo and L :: eslots and Q F a and g :: eregs
  assume g: "g 4 = Some (wide a)" and L: "\<forall>j < length (i # is). L (lo + j) = None"
  have "\<forall>j < length is. L (lo + 1 + j) = None" using L by (auto dest: spec [of _ "Suc _"])
  then show "ewp pkt host lo ((i # is) @ F) L Q g = ewp pkt host (lo + length (i # is)) F L Q (g(4 \<mapsto> wide ((h \<circ> f) a)))"
    using assms g L [rule_format, of 0] by (simp add: computes_def)
qed

lemma computes_one:
  "\<not> is_jmp i \<Longrightarrow> (\<And>g a. g 4 = Some (wide a) \<Longrightarrow> \<forall>host. eff i pkt host g = Some (g(4 \<mapsto> wide (f a)))) \<Longrightarrow>
   computes pkt [i] f"
  using computes_step [OF _ _ computes_Nil, of i pkt f] by simp

lemma computes_ops:
  "computes pkt [and32_imm R4 m] (\<lambda>v. v AND m)" "n < 32 \<Longrightarrow> computes pkt [rsh32_imm R4 n] (drop_bit (unat n))"
  by (rule computes_one; simp add: ebpf_eval)+

lemma ewp_load_mid:
  assumes "fits_xdp pkt" "unat off < 32768" "computes pkt mid f" "eready pkt r6 g"
    and L: "L lo = None" "L (lo + 1) = None" "L (lo + 2) = Some x" "L (lo + 3) = None" "sz \<noteq> Byte \<Longrightarrow> L (lo + 4) = None"
      "\<forall>j < length mid. L (lo + length (eload_code sz off) + j) = None"
    and in_pkt: "\<And>h. unat off + size_bytes sz \<le> length pkt \<Longrightarrow> h 4 = Some (wide (f (sized pkt sz (unat off)))) \<Longrightarrow>
        eready pkt r6 h \<Longrightarrow> ewp pkt host (lo + length (eload_code sz off) + length mid) F L Q h"
    and out: "\<And>h. length pkt < unat off + size_bytes sz \<Longrightarrow> eready pkt r6 h \<Longrightarrow> Q (Some x) h"
  shows "ewp pkt host lo (eload_code sz off @ mid @ F) L Q g"
proof -
  define m where "m = lo + length (eload_code sz off)"
  have mid: "ewp pkt host m (mid @ F) L Q h \<longleftrightarrow> ewp pkt host (m + length mid) F L Q (h(4 \<mapsto> wide (f a)))"
    if "h 4 = Some (wide a)" for h a
    using assms(3) that L(6) unfolding computes_def m_def by blast
  have b: "bounds_set pkt g" using assms(4) by (simp add: eready_def)
  show ?thesis
    using in_pkt out assms(4)
    by (simp add: ewp_load [where L = L and lo = lo and sz = sz, OF assms(1) b assms(2) L(1-5)] mid
        Let_def not_le flip: m_def del: ewp.simps length_load_code)
qed

lemma test_load:
  assumes "fits_xdp pkt" "unat off < 32768" "computes pkt mid f"
  shows "etests pkt host lo (test_code sz off mid k) [] (test_slots sz mid lo) (eready pkt r6)
    (field pkt sz (unat off) (\<lambda>v. eq64 (f v) k))"
proof (rule etests_wp)
  fix g assume g: "eready pkt r6 g"
  show "ewp pkt host lo (test_code sz off mid k) (epend [] (test_slots sz mid lo))
      (everdict [] (eready pkt r6) (field pkt sz (unat off) (\<lambda>v. eq64 (f v) k))) g"
    unfolding test_code_def
    by (rule ewp_load_mid [OF assms g])
      (auto simp: epend_def test_slots_def field_def eq64_def ebpf_eval)
qed (auto simp: test_slots_def)

text \<open>A test that succeeds when the first of two words has the wanted value and goes on to the second otherwise.\<close>

definition either_code :: "u32 \<Rightarrow> u32 \<Rightarrow> einsn list \<Rightarrow> u32 \<Rightarrow> einsn list" where
  "either_code off1 off2 mid k = (eload_code Word_Size off1 @ mid @ [jeq_imm R4 k 0]) @ test_code Word_Size off2 mid k"

lemma test_either:
  assumes "fits_xdp pkt" "unat off1 < 32768" "unat off1 \<le> unat off2" "unat off2 < 32768" "computes pkt mid f"
  shows "etests pkt host lo (either_code off1 off2 mid k) [lo + 5 + length mid]
    ((lo + 2) # test_slots Word_Size mid (lo + 6 + length mid)) (eready pkt r6)
    (field pkt Word_Size (unat off1) (\<lambda>v. eq64 (f v) k) \<or> field pkt Word_Size (unat off2) (\<lambda>v. eq64 (f v) k))"
proof -
  let ?F = "eload_code Word_Size off1 @ mid @ [jeq_imm R4 k 0]"
  let ?su = "[lo + 5 + length mid]" and ?fl = "test_slots Word_Size mid (lo + 6 + length mid)"
  let ?in = "unat off1 + 4 \<le> length pkt" and ?t1 = "eq64 (f (ldw pkt (unat off1))) k"
    and ?t2 = "field pkt Word_Size (unat off2) (\<lambda>v. eq64 (f v) k)"
  have 1: "efrag pkt host lo ?F (epend ?su [lo + 2]) (eready pkt r6)
    (\<lambda>l g. eready pkt r6 g \<and> (case l of None \<Rightarrow> ?in \<and> \<not> ?t1 | Some ESucc \<Rightarrow> ?in \<and> ?t1 | Some EFail \<Rightarrow> \<not> ?in | Some EAux \<Rightarrow> False))"
  proof (rule efrag_ewp)
    fix g assume g: "eready pkt r6 g"
    show "ewp pkt host lo ?F (epend ?su [lo + 2]) (\<lambda>l g. eready pkt r6 g \<and>
        (case l of None \<Rightarrow> ?in \<and> \<not> ?t1 | Some ESucc \<Rightarrow> ?in \<and> ?t1 | Some EFail \<Rightarrow> \<not> ?in | Some EAux \<Rightarrow> False)) g"
      by (rule ewp_load_mid [OF assms(1,2,5) g]) (auto simp: epend_def eq64_def ebpf_eval)
  qed (auto simp: epend_def split: if_splits)
  have 2: "efrag pkt host (lo + length ?F) (test_code Word_Size off2 mid k) (epend [] ?fl)
      (\<lambda>g. eready pkt r6 g \<and> (?in \<and> \<not> ?t1)) (\<lambda>l g. everdict [] (eready pkt r6) ?t2 l g \<and> (?in \<and> \<not> ?t1))"
    by (rule efrag_guard) (use test_load [OF assms(1,4,5), of host "lo + length ?F" Word_Size k r6] in \<open>simp add: etests_def add.assoc\<close>)
  have "epend ?su [lo + 2] ++ epend [] ?fl = epend ?su ((lo + 2) # ?fl)"
    by (auto simp: fun_eq_iff map_add_def epend_def test_slots_def)
  moreover have "?t2 \<Longrightarrow> ?in" using assms(3) by (simp add: field_def)
  moreover have "efrag pkt host lo (either_code off1 off2 mid k) (epend ?su [lo + 2] ++ epend [] ?fl) (eready pkt r6)
      (everdict ?su (eready pkt r6) (field pkt Word_Size (unat off1) (\<lambda>v. eq64 (f v) k) \<or> ?t2))"
    unfolding either_code_def
    by (rule efrag_seq [OF 1 2])
      (use calculation(2) in \<open>auto simp: everdict_def field_def [of _ _ "unat off1"] split: option.splits exit.splits\<close>)
  ultimately have "efrag pkt host lo (either_code off1 off2 mid k) (epend ?su ((lo + 2) # ?fl)) (eready pkt r6)
      (everdict ?su (eready pkt r6) (field pkt Word_Size (unat off1) (\<lambda>v. eq64 (f v) k) \<or> ?t2))"
    by (simp only:)
  then show ?thesis by (auto simp: etests_def test_slots_def)
qed

section \<open>The contract of an emitter\<close>

definition eemits ::
  "packet \<Rightarrow> endian \<Rightarrow> ecodegen \<Rightarrow> epatches \<Rightarrow> ecodegen \<Rightarrow> (eregs \<Rightarrow> bool) \<Rightarrow> bool \<Rightarrow> bool" where
  "eemits pkt host cg p cg' I t \<longleftrightarrow>
     (\<exists>F. cg' = with_code cg F \<and> etests pkt host (here cg) F (e_success p) (e_failure p) I t)"

lemma eemitsI:
  "cg' = with_code cg F \<Longrightarrow> etests pkt host (here cg) F (e_success p) (e_failure p) I t \<Longrightarrow> eemits pkt host cg p cg' I t"
  by (auto simp: eemits_def)

lemma eemits_link: "eemits pkt host cg p cg' I t \<Longrightarrow> ecg_link cg' = ecg_link cg"
  by (auto simp: eemits_def)

lemma eemits_skip: "eemits pkt host cg no_epatches cg I True"
  by (rule eemitsI [of _ _ "[]"]) (simp_all add: with_code_Nil no_epatches_def etests_Nil)

lemma eemits_seq:
  assumes "eemits pkt host cg p cg1 I t1" "e_success p = []" "eemits pkt host cg1 q cg2 I t2"
    and "e_success r = e_success q" "e_failure r = e_failure p @ e_failure q"
  shows "eemits pkt host cg r cg2 I (t1 \<and> t2)"
proof -
  obtain F G where F: "cg1 = with_code cg F" "etests pkt host (here cg) F [] (e_failure p) I t1"
    and G: "cg2 = with_code cg1 G" "etests pkt host (here cg1) G (e_success q) (e_failure q) I t2"
    using assms(1,2,3) by (auto simp: eemits_def)
  have "etests pkt host (here cg) (F @ G) (e_success q) (e_failure p @ e_failure q) I (t1 \<and> t2)"
    using etests_and [OF F(2)] G(2) F(1) by simp
  then show ?thesis using F(1) G(1) assms(4,5) by (intro eemitsI [of _ _ "F @ G"]) simp_all
qed

lemma eemits_test:
  assumes "fits_xdp pkt" "unat off < 32768" "computes pkt mid f"
  shows "eemits pkt host cg \<lparr>e_success = [], e_failure = test_slots sz mid (here cg)\<rparr>
    (with_code cg (test_code sz off mid k)) (eready pkt r6) (field pkt sz (unat off) (\<lambda>v. eq64 (f v) k))"
  by (rule eemitsI [OF refl]) (simp add: test_load [OF assms])

lemma check_codes [simp]:
  "echeck_byte off k cg = (\<lparr>e_success = [], e_failure = test_slots Byte [] (here cg)\<rparr>, with_code cg (test_code Byte off [] k))"
  "echeck_half off k cg = (\<lparr>e_success = [], e_failure = test_slots Half [] (here cg)\<rparr>, with_code cg (test_code Half off [] k))"
  "echeck_word off k cg =
     (\<lparr>e_success = [], e_failure = test_slots Word_Size [] (here cg)\<rparr>, with_code cg (test_code Word_Size off [] k))"
  by (simp_all add: echeck_byte_def echeck_half_def echeck_word_def test_slots_def test_code_def)

section \<open>Places of the headers\<close>

lemma net_at:
  "unat (link_net_offset link) = net_off link 0"
  "n \<le> 100 \<Longrightarrow> unat (link_net_offset link + of_nat n) = net_off link 0 + n"
  "net_off link 0 \<le> 16"
  by (cases link; simp add: net_off_def unat_word_ariths unat_of_nat take_bit_nat_eq_self)+

lemma net_at_numeral:
  "(numeral w :: nat) \<le> 100 \<Longrightarrow> unat (link_net_offset link + numeral w) = net_off link 0 + numeral w"
  using net_at(2) [of "numeral w" link] by simp

lemma ether_at:
  assumes "link_ether_proto_offset link = Some off"
  shows "unat off = ether_off link 0" "unat (off + 2) = ether_off link 0 + 2" "unat (off + 4) = ether_off link 0 + 4"
    "ether_off link 0 \<le> 14" "link \<noteq> RawIp"
  using assms by (cases link; auto simp: ether_off_def)+

lemma ether_some: "link_ether_proto_offset link = None \<longleftrightarrow> link = RawIp"
  by (cases link) simp_all

section \<open>Protocols\<close>

lemma eemit_ethertype_ok:
  assumes "eemit_ethertype et cg = Inr (p, cg')" "fits_xdp pkt"
  shows "e_success p = [] \<and> eemits pkt host cg p cg' (eready pkt r6) (ether_is (ecg_link cg) et pkt)"
proof (cases "link_ether_proto_offset (ecg_link cg)")
  case None
  then show ?thesis
    using assms(1) eemits_skip
    by (auto simp: eemit_ethertype_def ether_is_def ether_some no_epatches_def split: if_splits)
next
  case (Some off)
  have "eemits pkt host cg \<lparr>e_success = [], e_failure = test_slots Half [] (here cg)\<rparr>
      (with_code cg (test_code Half off [] et)) (eready pkt r6) (field pkt Half (unat off) (\<lambda>v. eq64 (id v) et))"
    by (rule eemits_test [OF assms(2) _ computes_Nil]) (use ether_at [OF Some] in simp)
  with Some assms(1) ether_at [OF Some] show ?thesis by (auto simp: eemit_ethertype_def ether_is_def)
qed

lemma ldb_eq64: "eq64 (ldb pkt n) (ucast k) \<longleftrightarrow> k = pkt_byte pkt n"
proof -
  have "unat (ucast k :: u32) < 0x80000000" using unat_u8_less [of k] by simp
  from scast_small [OF this] have "scast (ucast k :: u32) = (of_nat (unat k) :: u64)" by simp
  moreover have "(ucast (ldb pkt n) :: u64) = of_nat (unat (pkt_byte pkt n))"
    by (simp add: ldb_def wide_byte)
  moreover have "unat (of_nat (unat b) :: u64) = unat b" for b :: u8
    using unat_u8_less [of b] by (simp add: unsigned_ucast_eq take_bit_nat_eq_self)
  ultimately show ?thesis unfolding eq64_def by (metis word_unat_eq_iff)
qed

lemma eemits_iff: "eemits pkt host cg p cg' I t \<Longrightarrow> t = t' \<Longrightarrow> eemits pkt host cg p cg' I t'"
  by simp

lemma eguarded:
  assumes "eemit_ethertype et cg = Inr (q, cg1)" "fits_xdp pkt"
    and "ecg_link cg1 = ecg_link cg \<Longrightarrow> eemits pkt host cg1 r cg2 (eready pkt r6) t"
    and "e_success p = e_success r" "e_failure p = e_failure q @ e_failure r" "t' = (ether_is (ecg_link cg) et pkt \<and> t)"
  shows "eemits pkt host cg p cg2 (eready pkt r6) t'"
proof -
  note e = eemit_ethertype_ok [OF assms(1,2), of host r6]
  have "ecg_link cg1 = ecg_link cg" using e eemits_link by blast
  from eemits_seq [OF conjunct2 [OF e] conjunct1 [OF e] assms(3) [OF this] assms(4,5)] show ?thesis by (simp add: assms(6))
qed

lemma guard_success: "eemit_ethertype et cg = Inr (q, cg1) \<Longrightarrow> e_success q = []"
  by (auto simp: eemit_ethertype_def no_epatches_def split: option.splits if_splits)

lemma guard_link: "eemit_ethertype et cg = Inr (q, cg1) \<Longrightarrow> ecg_link cg1 = ecg_link cg"
  by (auto simp: eemit_ethertype_def split: option.splits if_splits)

lemma eemits_net_test:
  assumes "fits_xdp pkt" "(numeral w :: nat) \<le> 100" "computes pkt mid f"
  shows "eemits pkt host cg \<lparr>e_success = [], e_failure = test_slots sz mid (here cg)\<rparr>
    (with_code cg (test_code sz (link_net_offset link + numeral w) mid k)) (eready pkt r6)
    (field pkt sz (net_off link 0 + numeral w) (\<lambda>v. eq64 (f v) k))"
proof -
  have "unat (link_net_offset link + numeral w) = net_off link 0 + numeral w" by (rule net_at_numeral [OF assms(2)])
  moreover from this have "unat (link_net_offset link + numeral w) < 32768" using net_at(3) [of link] assms(2) by linarith
  ultimately show ?thesis using eemits_test [OF assms(1) _ assms(3)] by metis
qed

lemma eemit_ip4_l4_ok:
  assumes "eemit_ip4_l4 n cg = Inr (p, cg')" "fits_xdp pkt"
  shows "eemits pkt host cg p cg' (eready pkt r6) (v4_proto (ecg_link cg) ((=) n) pkt)"
proof -
  obtain q cg1 where q: "eemit_ethertype 0x0800 cg = Inr (q, cg1)"
    and p: "p = q\<lparr>e_failure := e_failure q @ test_slots Byte [] (here cg1)\<rparr>"
      "cg' = with_code cg1 (test_code Byte (link_net_offset (ecg_link cg1) + 9) [] (ucast n))"
    using assms(1) by (auto simp: eemit_ip4_l4_def eip4_guard_def rbind_eq_Inr)
  show ?thesis unfolding p(2)
    by (rule eguarded [OF q assms(2) eemits_net_test [OF assms(2) _ computes_Nil]])
      (simp_all add: p(1) guard_success [OF q] guard_link [OF q] v4_proto_def field_def proto4_def ldb_eq64 add.commute)
qed

lemma eemit_ip6_l4_ok:
  assumes "eemit_ip6_l4 n cg = Inr (p, cg')" "fits_xdp pkt"
  shows "eemits pkt host cg p cg' (eready pkt r6) (v6_proto (ecg_link cg) ((=) n) pkt)"
proof -
  obtain q cg1 where q: "eemit_ethertype 0x86dd cg = Inr (q, cg1)"
    and p: "p = q\<lparr>e_failure := e_failure q @ test_slots Byte [] (here cg1)\<rparr>"
      "cg' = with_code cg1 (test_code Byte (link_net_offset (ecg_link cg1) + 6) [] (ucast n))"
    using assms(1) by (auto simp: eemit_ip6_l4_def rbind_eq_Inr)
  show ?thesis unfolding p(2)
    by (rule eguarded [OF q assms(2) eemits_net_test [OF assms(2) _ computes_Nil]])
      (simp_all add: p(1) guard_success [OF q] guard_link [OF q] v6_proto_def field_def proto6_def ldb_eq64 add.commute)
qed

end
