(* ===== verification/Emit_Rules.thy ===== *)
theory Emit_Rules
  imports Codegen_Spec
begin

text \<open>
  The contract of an emitter, \<open>emit_ok\<close>: it appends a fragment that tests one condition of the
  packet, falls through or takes a success slot when it holds and takes a failure slot when it does
  not; the path facts it leaves are true on every success path; and when the counter of X writes did
  not move, neither did X. The rules combine emitters the way the generator does.
\<close>

section \<open>Fragments with success and failure slots\<close>

lemma pend_range: "in_range lo F (pend su fl) \<longleftrightarrow>
   (\<forall>p \<in> set su \<union> set fl. lo \<le> pidx p \<and> pidx p < lo + length F)"
  by (auto simp: in_range_def pend_def)

lemma pend_cong: "set su = set su' \<Longrightarrow> set fl = set fl' \<Longrightarrow> pend su fl = pend su' fl'"
  by (simp add: pend_def fun_eq_iff)

lemma pend_Nil [simp]: "pend [] [] = (\<lambda>_. None)"
  by (simp add: pend_def fun_eq_iff)

lemma frag_range: "frag N pkt lo F L A Q \<Longrightarrow> in_range lo F L"
  by (simp add: frag_def)

lemma pend_add:
  assumes "in_range lo F (pend su1 fl1)" "in_range (lo + length F) G (pend su2 fl2)"
    and "set su = set su1 \<union> set su2" "set fl = set fl1 \<union> set fl2"
  shows "pend su1 fl1 ++ pend su2 fl2 = pend su fl"
proof
  fix p
  have "p \<notin> set su1 \<union> set fl1 \<or> p \<notin> set su2 \<union> set fl2"
    using assms(1,2) by (force simp: pend_range)
  then show "(pend su1 fl1 ++ pend su2 fl2) p = pend su fl p"
    using assms(3,4) by (auto simp: pend_def map_add_def)
qed

lemma frag_pend_seq:
  assumes "frag N pkt lo F (pend su1 fl1) A Q1" "frag N pkt (lo + length F) G (pend su2 fl2) B Q2"
    and "\<And>x. Q1 None x \<Longrightarrow> B x"
    and "\<And>l x. Q1 (Some l) x \<Longrightarrow> Q (Some l) x" "\<And>l x. Q2 l x \<Longrightarrow> Q l x"
    and "set su = set su1 \<union> set su2" "set fl = set fl1 \<union> set fl2"
  shows "frag N pkt lo (F @ G) (pend su fl) A Q"
  using frag_seq [where Q = Q, OF assms(1-5)] pend_add [OF frag_range [OF assms(1)] frag_range [OF assms(2)] assms(6,7)]
  by simp

lemma frag_all:
  assumes "\<And>x1. frag N pkt lo F L (\<lambda>x. x = x1 \<and> B x) (Q x1)"
  shows "frag N pkt lo F L (\<lambda>x. B x \<and> R x) (\<lambda>l x. \<exists>x1. R x1 \<and> B x1 \<and> Q x1 l x)"
  unfolding frag_def
proof (intro conjI allI impI)
  show "in_range lo F L" "shaped lo F L" using assms [of 0] by (simp_all add: frag_def)
  fix P T s
  assume *: "agree P lo F (map_option T \<circ> L)" "ready s" "B (x_reg s) \<and> R (x_reg s)"
  then have "settles P pkt N T (lo + length F) (Q (x_reg s)) (vm_at P pkt lo s)"
    using assms [of "x_reg s"] by (simp add: frag_def)
  then show "settles P pkt N T (lo + length F) (\<lambda>l x. \<exists>x1. R x1 \<and> B x1 \<and> Q x1 l x) (vm_at P pkt lo s)"
    by (rule settles_mono) (use * in blast)
qed

text \<open>A condition that does not depend on the state is known after the fragment if before.\<close>

lemma frag_const:
  "frag N pkt lo F L A Q \<Longrightarrow> (\<And>x. A x \<Longrightarrow> c) \<Longrightarrow> frag N pkt lo F L A (\<lambda>l x. c \<and> Q l x)"
  by (cases c) (auto simp: frag_def)

section \<open>Tests that leave X alone\<close>

definition verdict :: "patch list \<Rightarrow> (u32 \<Rightarrow> bool) \<Rightarrow> (u32 \<Rightarrow> bool) \<Rightarrow> exit option \<Rightarrow> u32 \<Rightarrow> bool" where
  "verdict su A t l x \<longleftrightarrow>
     A x \<and> (case l of None \<Rightarrow> t x | Some ESucc \<Rightarrow> su \<noteq> [] \<and> t x | Some EFail \<Rightarrow> \<not> t x | Some EAux \<Rightarrow> False)"

lemma verdict_simps [simp]:
  "verdict su A t None x \<longleftrightarrow> A x \<and> t x"
  "verdict su A t (Some ESucc) x \<longleftrightarrow> A x \<and> su \<noteq> [] \<and> t x"
  "verdict su A t (Some EFail) x \<longleftrightarrow> A x \<and> \<not> t x"
  "verdict su A t (Some EAux) x \<longleftrightarrow> False"
  by (auto simp: verdict_def)

text \<open>
  \<open>F\<close> at \<open>lo\<close>, with slots \<open>su\<close> and \<open>fl\<close>, tests \<open>t\<close> wherever its loads fit.
\<close>

definition tests ::
  "nat \<Rightarrow> packet \<Rightarrow> nat \<Rightarrow> insn list \<Rightarrow> patch list \<Rightarrow> patch list \<Rightarrow> (u32 \<Rightarrow> bool) \<Rightarrow> (u32 \<Rightarrow> bool) \<Rightarrow> bool" where
  "tests N pkt lo F su fl fits t \<longleftrightarrow>
     set su \<inter> set fl = {} \<and>
     (\<forall>A. (\<forall>x. A x \<longrightarrow> fits x) \<longrightarrow> frag N pkt lo F (pend su fl) A (verdict su A t))"

lemma testsD: "tests N pkt lo F su fl fits t \<Longrightarrow> (\<And>x. A x \<Longrightarrow> fits x) \<Longrightarrow>
    frag N pkt lo F (pend su fl) A (verdict su A t)"
  by (simp add: tests_def)

lemma tests_range: "tests N pkt lo F su fl fits t \<Longrightarrow> in_range lo F (pend su fl)"
  using testsD [of N pkt lo F su fl fits t "\<lambda>_. False"] by (simp add: frag_def)

lemma disjoint_slots:
  assumes "in_range lo F (pend su1 fl1)" "in_range (lo + length F) G (pend su2 fl2)"
    "set su1 \<inter> set fl1 = {}" "set su2 \<inter> set fl2 = {}"
  shows "(set su1 \<union> set su2) \<inter> (set fl1 \<union> set fl2) = {}"
proof -
  have "pidx p < lo + length F" if "p \<in> set su1 \<union> set fl1" for p
    using assms(1) that by (simp add: pend_range)
  moreover have "lo + length F \<le> pidx p" if "p \<in> set su2 \<union> set fl2" for p
    using assms(2) that by (simp add: pend_range)
  ultimately have "(set su1 \<union> set fl1) \<inter> (set su2 \<union> set fl2) = {}" by (meson disjoint_iff leD)
  with assms(3,4) show ?thesis by auto
qed

lemma tests_and:
  assumes "tests N pkt lo F [] fl1 f1 t1" "tests N pkt (lo + length F) G su fl2 f2 t2"
  shows "tests N pkt lo (F @ G) su (fl1 @ fl2) (\<lambda>x. f1 x \<and> f2 x) (\<lambda>x. t1 x \<and> t2 x)"
  unfolding tests_def
proof (intro conjI allI impI)
  show "set su \<inter> set (fl1 @ fl2) = {}"
    using disjoint_slots [OF tests_range [OF assms(1)] tests_range [OF assms(2)]] assms
    by (simp add: tests_def)
  fix A :: "u32 \<Rightarrow> bool"
  assume fits: "\<forall>x. A x \<longrightarrow> f1 x \<and> f2 x"
  show "frag N pkt lo (F @ G) (pend su (fl1 @ fl2)) A (verdict su A (\<lambda>x. t1 x \<and> t2 x))"
    by (rule frag_pend_seq [OF testsD [OF assms(1), of A] testsD [OF assms(2), of "\<lambda>x. A x \<and> t1 x"]])
       (use fits in \<open>auto simp: verdict_def split: option.splits exit.splits\<close>)
qed

text \<open>A first test whose failure goes on to a second one behind a jump to success.\<close>

lemma frag_ja: "frag N pkt lo [ja v] (\<lambda>p. if p = Ja lo then Some e else None) A (\<lambda>l x. l = Some e \<and> A x)"
  by (rule frag_wp) (auto simp: in_range_def)

lemma frag_or:
  assumes 1: "frag N pkt (length C) F (pend su1 fl1) A Q1"
    and 2: "frag N pkt (length C + length F + 1) G (pend su2 fl2) B Q2"
    and disj: "set su1 \<inter> set fl1 = {}"
    and res: "resolves fl1 (length C + length F + 1) (C @ F @ [ja 0]) (C @ H)"
    and mid: "\<And>x. Q1 (Some EFail) x \<Longrightarrow> B x"
    and out: "\<And>x. Q1 None x \<Longrightarrow> Q (Some ESucc) x" "\<And>x. Q1 (Some ESucc) x \<Longrightarrow> Q (Some ESucc) x"
      "\<And>x. Q1 (Some EAux) x \<Longrightarrow> Q (Some EAux) x" "\<And>l x. Q2 l x \<Longrightarrow> Q l x"
    and su: "set su = insert (Ja (length C + length F)) (set su1 \<union> set su2)" and fl: "set fl = set fl2"
  shows "frag N pkt (length C) (H @ G) (pend su fl) A Q"
proof -
  let ?lo = "length C"
  let ?j = "\<lambda>p. if p = Ja (?lo + length F) then Some ESucc else None"
  let ?M = "pend su1 fl1 ++ ?j"
  define Qj where "Qj = (\<lambda>l x. (l = Some ESucc \<and> (Q1 None x \<or> Q1 l x)) \<or> (l \<noteq> Some ESucc \<and> l \<noteq> None \<and> Q1 l x))"
  have jump: "frag N pkt ?lo (F @ [ja 0]) ?M A Qj"
    by (rule frag_seq [OF 1 frag_ja [where A = "Q1 None" and e = ESucc]])
       (auto simp: Qj_def)
  have own: "Ja (?lo + length F) \<notin> set su1 \<union> set fl1"
    using frag_range [OF 1] by (force simp: pend_range)
  have slot: "p \<in> set fl1 \<longleftrightarrow> ?M p = Some EFail" for p
    using disj own by (auto simp: pend_def map_add_def)
  have len: "length H = length F + 1" using resolves_length [OF res] by simp
  have closed: "frag N pkt ?lo H (close EFail ?M) A
      (\<lambda>l x. case l of None \<Rightarrow> Qj None x \<or> Qj (Some EFail) x | Some d \<Rightarrow> d \<noteq> EFail \<and> Qj (Some d) x)"
    using frag_resolve [OF jump _ slot, of H] res by simp
  have cl: "close EFail ?M = pend (Ja (?lo + length F) # su1) []"
    using disj own by (auto simp: fun_eq_iff close_def pend_def map_add_def)
  show ?thesis
  proof (rule frag_pend_seq [OF closed [unfolded cl], where B = B and ?su2.0 = su2 and ?fl2.0 = fl2 and ?Q2.0 = Q2])
    show "frag N pkt (?lo + length H) G (pend su2 fl2) B Q2" using 2 by (simp add: len add.assoc)
    show "B x" if "case None of None \<Rightarrow> Qj None x \<or> Qj (Some EFail) x | Some d \<Rightarrow> d \<noteq> EFail \<and> Qj (Some d) x" for x
      using that mid by (simp add: Qj_def)
    show "Q (Some l) x" if "case Some l of None \<Rightarrow> Qj None x \<or> Qj (Some EFail) x | Some d \<Rightarrow> d \<noteq> EFail \<and> Qj (Some d) x" for l x
      using that out(1-3) by (cases l) (auto simp: Qj_def)
  qed (use out(4) su fl in auto)
qed

lemma tests_or:
  assumes "tests N pkt (length C) F [] fl1 f1 t1"
    and "tests N pkt (length C + length F + 1) G [] fl2 f2 t2"
    and res: "resolves fl1 (length C + length F + 1) (C @ F @ [ja 0]) (C @ H)"
  shows "tests N pkt (length C) (H @ G) [Ja (length C + length F)] fl2
    (\<lambda>x. f1 x \<and> f2 x) (\<lambda>x. t1 x \<or> t2 x)"
  unfolding tests_def
proof (intro conjI allI impI)
  show "set [Ja (length C + length F)] \<inter> set fl2 = {}"
    using tests_range [OF assms(2)] by (force simp: pend_range)
  fix A :: "u32 \<Rightarrow> bool"
  assume fits: "\<forall>x. A x \<longrightarrow> f1 x \<and> f2 x"
  show "frag N pkt (length C) (H @ G) (pend [Ja (length C + length F)] fl2) A
      (verdict [Ja (length C + length F)] A (\<lambda>x. t1 x \<or> t2 x))"
    by (rule frag_or [OF testsD [OF assms(1), of A] testsD [OF assms(2), of "\<lambda>x. A x \<and> \<not> t1 x"] _ res])
       (use fits in \<open>auto simp: verdict_def split: option.splits exit.splits\<close>)
qed

lemma tests_wp:
  assumes "in_range lo F (pend su fl)" "shaped lo F (pend su fl)" "set su \<inter> set fl = {}"
    and "\<And>A s. ready s \<Longrightarrow> A (x_reg s) \<Longrightarrow> fits (x_reg s) \<Longrightarrow> wp N pkt lo F (pend su fl) (verdict su A t) s"
  shows "tests N pkt lo F su fl fits t"
  unfolding tests_def using assms by (auto intro: frag_wp)

lemma tests_mono:
  assumes "tests N pkt lo F su fl f t" "\<And>x. f' x \<Longrightarrow> f x" "\<And>x. f' x \<Longrightarrow> t' x = t x"
  shows "tests N pkt lo F su fl f' t'"
  unfolding tests_def
proof (intro conjI allI impI)
  show "set su \<inter> set fl = {}" using assms(1) by (simp add: tests_def)
  fix A :: "u32 \<Rightarrow> bool"
  assume fits: "\<forall>x. A x \<longrightarrow> f' x"
  then have "frag N pkt lo F (pend su fl) A (verdict su A t)"
    using assms(2) by (intro testsD [OF assms(1)]) blast
  then show "frag N pkt lo F (pend su fl) A (verdict su A t')"
    by (rule frag_conseq) (use fits assms(3) in \<open>auto simp: verdict_def split: option.splits exit.splits\<close>)
qed

lemma tests_Nil: "tests N pkt lo [] [] [] f (\<lambda>_. True)"
  using frag_Nil by (simp add: tests_def)

section \<open>Single checks\<close>

lemmas wp_eval = pend_def in_range_def fetch_def

lemma test_half: "tests N pkt lo [ldh_abs off, jeq_k v 0 0xff] [] [Jf (lo + 1)]
    (\<lambda>_. unat off + 2 \<le> N) (\<lambda>_. ldh pkt (unat off) = v)"
  by (rule tests_wp) (auto simp: wp_eval)

lemma test_byte: "tests N pkt lo [ldb_abs off, jeq_k v 0 0xff] [] [Jf (lo + 1)]
    (\<lambda>_. unat off + 1 \<le> N) (\<lambda>_. ldb pkt (unat off) = v)"
  by (rule tests_wp) (auto simp: wp_eval)

lemma test_word: "tests N pkt lo [ldw_abs off, jeq_k v 0 0xff] [] [Jf (lo + 1)]
    (\<lambda>_. unat off + 4 \<le> N) (\<lambda>_. ldw pkt (unat off) = v)"
  by (rule tests_wp) (auto simp: wp_eval)

section \<open>Pushing\<close>

lemma push_plain [simp]:
  "code i AND 7 \<noteq> 1 \<Longrightarrow> code i \<noteq> 7 \<Longrightarrow>
   push i cg = (length (cg_insns cg), cg\<lparr>cg_insns := cg_insns cg @ [i]\<rparr>)"
  "code i AND 7 \<noteq> 1 \<Longrightarrow> code i \<noteq> 7 \<Longrightarrow> put i cg = cg\<lparr>cg_insns := cg_insns cg @ [i]\<rparr>"
  by (simp_all add: push_def put_def bpf_defs Let_def)

lemma push_x [simp]:
  "code i AND 7 = 1 \<or> code i = 7 \<Longrightarrow>
   put i cg = cg\<lparr>cg_insns := cg_insns cg @ [i], x_writes := x_writes cg + 1,
     cg_facts := (cg_facts cg)\<lparr>ports_ready := None\<rparr>\<rparr>"
  by (auto simp: push_def put_def bpf_defs Let_def)

lemma code_ld_len [simp]: "code ld_len = 0x80"
  by (simp add: ld_len_def bpf_defs)

section \<open>Path facts\<close>

definition l4_ready :: "link_type \<Rightarrow> nat \<Rightarrow> packet \<Rightarrow> l4set \<Rightarrow> u32 \<Rightarrow> bool" where
  "l4_ready link d pkt S x \<longleftrightarrow> l4_sem link d S pkt \<and> x = l4_off link d pkt"

text \<open>
  The facts are true of the packet at depth \<open>d\<close>. Behind a tag the ethertype fact is stuck at the
  tag's own ethertype, which says nothing about the inner one.
\<close>

definition facts_ok :: "link_type \<Rightarrow> nat \<Rightarrow> packet \<Rightarrow> facts \<Rightarrow> u32 \<Rightarrow> bool" where
  "facts_ok link d pkt f x \<longleftrightarrow>
     (if d = 0 then \<forall>v. ethertype f = Some v \<longrightarrow> et_of link d pkt = v else ethertype f = Some 0x8100) \<and>
     (\<forall>n. ip4_proto f = Some n \<longrightarrow> proto4 link d pkt = n) \<and>
     (\<forall>n. ip6_nh f = Some n \<longrightarrow> proto6 link d pkt = n) \<and>
     (\<forall>S. ports_ready f = Some S \<longrightarrow> l4_ready link d pkt S x)"

lemma facts_ok_x: "ports_ready f = None \<Longrightarrow> facts_ok link d pkt f x = facts_ok link d pkt f y"
  by (simp add: facts_ok_def)

lemma facts_ok_drop: "facts_ok link d pkt f x \<Longrightarrow> facts_ok link d pkt (f\<lparr>ports_ready := None\<rparr>) y"
  by (auto simp: facts_ok_def)

section \<open>The contract of an emitter\<close>

definition kept :: "codegen \<Rightarrow> codegen \<Rightarrow> u32 \<Rightarrow> u32 \<Rightarrow> bool" where
  "kept cg cg' x0 x \<longleftrightarrow> (x_writes cg' = x_writes cg \<longrightarrow> x = x0)"

definition outcome :: "patches \<Rightarrow> bool \<Rightarrow> (u32 \<Rightarrow> bool) \<Rightarrow> exit option \<Rightarrow> u32 \<Rightarrow> bool" where
  "outcome ps t B l x \<longleftrightarrow>
     (case l of None \<Rightarrow> t \<and> B x | Some ESucc \<Rightarrow> success ps \<noteq> [] \<and> t \<and> B x | Some EFail \<Rightarrow> \<not> t
      | Some EAux \<Rightarrow> False)"

lemma outcome_simps [simp]:
  "outcome ps t B None x \<longleftrightarrow> t \<and> B x"
  "outcome ps t B (Some ESucc) x \<longleftrightarrow> success ps \<noteq> [] \<and> t \<and> B x"
  "outcome ps t B (Some EFail) x \<longleftrightarrow> \<not> t"
  "outcome ps t B (Some EAux) x \<longleftrightarrow> False"
  by (simp_all add: outcome_def)

abbreviation knows :: "nat \<Rightarrow> packet \<Rightarrow> codegen \<Rightarrow> u32 \<Rightarrow> bool" where
  "knows d pkt cg x \<equiv> facts_ok (cg_link cg) d pkt (cg_facts cg) x"

text \<open>
  \<open>ok\<close> collects what the semantic part relies on; the structural part holds without it.
\<close>

definition emit_ok ::
  "nat \<Rightarrow> packet \<Rightarrow> nat \<Rightarrow> bool \<Rightarrow> codegen \<Rightarrow> patches \<Rightarrow> codegen \<Rightarrow> bool \<Rightarrow> bool" where
  "emit_ok N pkt d ok cg ps cg' t \<longleftrightarrow>
     cg_link cg' = cg_link cg \<and> vlan_depth cg' = vlan_depth cg \<and> x_writes cg \<le> x_writes cg' \<and>
     (ethertype (cg_facts cg) \<noteq> None \<longrightarrow> ethertype (cg_facts cg') = ethertype (cg_facts cg)) \<and>
     set (success ps) \<inter> set (failure ps) = {} \<and>
     (\<exists>F. cg_insns cg' = cg_insns cg @ F \<and>
        (\<forall>x0. frag N pkt (length (cg_insns cg)) F (pend (success ps) (failure ps))
           (\<lambda>x. x = x0 \<and> ok \<and> knows d pkt cg x)
           (\<lambda>l x. kept cg cg' x0 x \<and> outcome ps t (knows d pkt cg') l x)))"

lemma emit_ok_skip: "emit_ok N pkt d ok cg no_patches cg t"
  if "\<And>x. ok \<Longrightarrow> knows d pkt cg x \<Longrightarrow> t"
  using that by (auto simp: emit_ok_def no_patches_def kept_def intro!: frag_Nil)

text \<open>Weaker preconditions, more facts: the state may be refined where it holds the same code.\<close>

lemma emit_ok_weaken:
  assumes "emit_ok N pkt d ok cg ps cg' t"
    and "cg'' = cg'\<lparr>cg_facts := f\<rparr>"
    and "ethertype (cg_facts cg') \<noteq> None \<longrightarrow> ethertype f = ethertype (cg_facts cg')"
    and "ok' \<Longrightarrow> ok" and "\<And>x. ok' \<Longrightarrow> knows d pkt cg x \<Longrightarrow> t' = t"
    and "\<And>x. ok' \<Longrightarrow> t \<Longrightarrow> knows d pkt cg' x \<Longrightarrow> knows d pkt cg'' x"
  shows "emit_ok N pkt d ok' cg ps cg'' t'"
proof -
  from assms(1) obtain F where F: "cg_insns cg' = cg_insns cg @ F"
    and fr: "\<And>x0. frag N pkt (length (cg_insns cg)) F (pend (success ps) (failure ps))
           (\<lambda>x. x = x0 \<and> ok \<and> knows d pkt cg x)
           (\<lambda>l x. kept cg cg' x0 x \<and> outcome ps t (knows d pkt cg') l x)"
    by (auto simp: emit_ok_def)
  have "frag N pkt (length (cg_insns cg)) F (pend (success ps) (failure ps))
         (\<lambda>x. x = x0 \<and> ok' \<and> knows d pkt cg x)
         (\<lambda>l x. kept cg cg'' x0 x \<and> outcome ps t' (knows d pkt cg'') l x)" for x0
  proof (cases "ok' \<and> knows d pkt cg x0")
    case True
    show ?thesis
      by (rule frag_conseq [OF fr [of x0]])
         (use True assms(2,4,5,6) in \<open>auto simp: kept_def outcome_def split: option.splits exit.splits\<close>)
  next
    case False
    then show ?thesis
      using fr [of x0] by (auto simp: frag_def)
  qed
  then show ?thesis
    using assms F unfolding emit_ok_def by auto
qed

lemma emit_ok_tests:
  assumes "cg' = cg\<lparr>cg_insns := cg_insns cg @ F\<rparr>"
    and "tests N pkt (length (cg_insns cg)) F (success ps) (failure ps) fits t"
    and "\<And>x. ok \<Longrightarrow> knows d pkt cg x \<Longrightarrow> fits x \<and> t x = t'"
  shows "emit_ok N pkt d ok cg ps cg' t'"
proof -
  have "frag N pkt (length (cg_insns cg)) F (pend (success ps) (failure ps))
         (\<lambda>x. x = x0 \<and> ok \<and> knows d pkt cg x)
         (\<lambda>l x. kept cg cg' x0 x \<and> outcome ps t' (knows d pkt cg') l x)" for x0
    by (rule frag_conseq [OF testsD [OF assms(2), where A = "\<lambda>x. x = x0 \<and> ok \<and> knows d pkt cg x"]])
       (use assms(1,3) in \<open>auto simp: kept_def verdict_def outcome_def split: option.splits exit.splits\<close>)
  then show ?thesis
    using assms by (auto simp: emit_ok_def tests_def)
qed

lemma emit_ok_seq:
  assumes 1: "emit_ok N pkt d ok cg ps1 cg1 t1" and 2: "emit_ok N pkt d ok cg1 ps2 cg2 t2"
    and ps: "success ps1 = []" "success ps = success ps2" "set (failure ps) = set (failure ps1) \<union> set (failure ps2)"
  shows "emit_ok N pkt d ok cg ps cg2 (t1 \<and> t2)"
proof -
  from 1 obtain F where F: "cg_insns cg1 = cg_insns cg @ F"
    and f: "\<And>x0. frag N pkt (length (cg_insns cg)) F (pend (success ps1) (failure ps1))
           (\<lambda>x. x = x0 \<and> ok \<and> knows d pkt cg x)
           (\<lambda>l x. kept cg cg1 x0 x \<and> outcome ps1 t1 (knows d pkt cg1) l x)"
    by (auto simp: emit_ok_def)
  from 2 obtain G where G: "cg_insns cg2 = cg_insns cg1 @ G"
    and g: "\<And>x0. frag N pkt (length (cg_insns cg1)) G (pend (success ps2) (failure ps2))
           (\<lambda>x. x = x0 \<and> ok \<and> knows d pkt cg1 x)
           (\<lambda>l x. kept cg1 cg2 x0 x \<and> outcome ps2 t2 (knows d pkt cg2) l x)"
    by (auto simp: emit_ok_def)
  have mono: "x_writes cg \<le> x_writes cg1" "x_writes cg1 \<le> x_writes cg2"
    using 1 2 by (simp_all add: emit_ok_def)
  have g': "frag N pkt (length (cg_insns cg) + length F) G (pend (success ps2) (failure ps2))
      (\<lambda>x. (ok \<and> knows d pkt cg1 x) \<and> kept cg cg1 x0 x \<and> t1)
      (\<lambda>l x. \<exists>x1. (kept cg cg1 x0 x1 \<and> t1) \<and> (ok \<and> knows d pkt cg1 x1) \<and>
         kept cg1 cg2 x1 x \<and> outcome ps2 t2 (knows d pkt cg2) l x)" for x0
    using frag_all [OF g, of "\<lambda>x. kept cg cg1 x0 x \<and> t1"] F by simp
  have seq: "frag N pkt (length (cg_insns cg)) (F @ G) (pend (success ps) (failure ps))
      (\<lambda>x. x = x0 \<and> ok \<and> knows d pkt cg x)
      (\<lambda>l x. kept cg cg2 x0 x \<and> outcome ps (t1 \<and> t2) (knows d pkt cg2) l x)" for x0
    by (rule frag_pend_seq [OF frag_const [OF f [of x0], of ok] g' [of x0]])
       (use ps mono in \<open>auto simp: kept_def outcome_def split: option.splits exit.splits\<close>)
  have "set (success ps) \<inter> set (failure ps) = {}"
    using disjoint_slots [OF frag_range [OF f [of 0]] frag_range [OF g' [of 0]]] 1 2 ps
    by (simp add: emit_ok_def)
  with 1 2 F G seq mono show ?thesis unfolding emit_ok_def by (auto intro!: exI [of _ "F @ G"])
qed

end
