(* ===== verification/Emit_Prims.thy ===== *)
theory Emit_Prims
  imports Emit_Rules
begin

text \<open>
  The emitters of \<open>codegen.rs\<close> keep the contract \<open>emit_ok\<close>, primitive by primitive. The checks
  that \<open>dir_check\<close> and \<open>either_check\<close> repeat for source and destination are instances of one
  interface, \<open>field_check\<close>.
\<close>

lemma patches_upd: "p\<lparr>failure := f\<rparr> = \<lparr>success = success p, failure = f\<rparr>"
  by simp

section \<open>Checks of a source and a destination field\<close>

locale field_check =
  fixes chk :: check
    and fits :: "nat \<Rightarrow> u32 \<Rightarrow> u32 \<Rightarrow> bool"
    and holds :: "packet \<Rightarrow> u32 \<Rightarrow> u32 \<Rightarrow> bool"
  assumes chk: "\<exists>F fl. chk off cg fail = (fail @ fl, cg\<lparr>cg_insns := cg_insns cg @ F\<rparr>) \<and>
    tests N pkt (length (cg_insns cg)) F [] fl (fits N off) (holds pkt off)"
begin

lemma either:
  assumes "either_check chk off1 off2 p cg = Inr (p', cg')"
  shows "\<exists>F su fl. p' = \<lparr>success = success p @ su, failure = failure p @ fl\<rparr> \<and>
    cg' = cg\<lparr>cg_insns := cg_insns cg @ F\<rparr> \<and>
    tests N pkt (length (cg_insns cg)) F su fl (\<lambda>x. fits N off1 x \<and> fits N off2 x)
      (\<lambda>x. holds pkt off1 x \<or> holds pkt off2 x)"
proof -
  let ?C = "cg_insns cg"
  obtain F fl1 where 1: "chk off1 cg [] = (fl1, cg\<lparr>cg_insns := ?C @ F\<rparr>)"
    and t1: "tests N pkt (length ?C) F [] fl1 (fits N off1) (holds pkt off1)"
    using chk [of off1 cg "[]" N pkt] by auto
  let ?cg = "cg\<lparr>cg_insns := ?C @ F @ [ja 0]\<rparr>"
  from assms 1 obtain cg1 where res: "resolve_all fl1 (length ?C + length F + 1) ?cg = Inr cg1"
    and rest: "(case chk off2 cg1 (failure p) of (fail, cg) \<Rightarrow>
        Inr (\<lparr>success = success p @ [Ja (length ?C + length F)], failure = fail\<rparr>, cg)) =
        (Inr (p', cg') :: error + patches \<times> codegen)"
    by (auto simp: either_check_def rbind_eq_Inr)
  obtain D where D: "resolves fl1 (length ?C + length F + 1) (?C @ F @ [ja 0]) D"
    and cg1: "cg1 = cg\<lparr>cg_insns := D\<rparr>"
    using resolve_all_Inr [OF res] by auto
  have "\<forall>p \<in> set fl1. length ?C \<le> pidx p" using tests_range [OF t1] by (auto simp: pend_range)
  then obtain H where H: "D = ?C @ H" "length H = length F + 1"
    using resolves_prefix [OF D] by auto
  obtain G fl2 where 2: "chk off2 cg1 (failure p) = (failure p @ fl2, cg1\<lparr>cg_insns := D @ G\<rparr>)"
    and t2: "tests N pkt (length D) G [] fl2 (fits N off2) (holds pkt off2)"
    using chk [of off2 cg1 "failure p" N pkt] cg1 by auto
  have "tests N pkt (length ?C) (H @ G) [Ja (length ?C + length F)] fl2
      (\<lambda>x. fits N off1 x \<and> fits N off2 x) (\<lambda>x. holds pkt off1 x \<or> holds pkt off2 x)"
    using tests_or [OF t1 _ D [unfolded H(1)]] t2 H by (simp add: add.assoc)
  with rest 2 cg1 H show ?thesis by auto
qed

lemma both_in_order:
  assumes "chk off1 cg fail = (fail1, cg1)" "chk off2 cg1 fail1 = (fail2, cg2)"
  shows "\<exists>F fl. fail2 = fail @ fl \<and> cg2 = cg\<lparr>cg_insns := cg_insns cg @ F\<rparr> \<and>
    tests N pkt (length (cg_insns cg)) F [] fl (\<lambda>x. fits N off1 x \<and> fits N off2 x)
      (\<lambda>x. holds pkt off1 x \<and> holds pkt off2 x)"
proof -
  obtain F fl1 where 1: "fail1 = fail @ fl1" "cg1 = cg\<lparr>cg_insns := cg_insns cg @ F\<rparr>"
    and t1: "tests N pkt (length (cg_insns cg)) F [] fl1 (fits N off1) (holds pkt off1)"
    using chk [of off1 cg fail N pkt] assms(1) by auto
  obtain G fl2 where 2: "fail2 = fail1 @ fl2" "cg2 = cg1\<lparr>cg_insns := cg_insns cg1 @ G\<rparr>"
    and t2: "tests N pkt (length (cg_insns cg1)) G [] fl2 (fits N off2) (holds pkt off2)"
    using chk [of off2 cg1 fail1 N pkt] assms(2) by auto
  from tests_and [OF t1, of G "[]" fl2] t2 1 2 show ?thesis by auto
qed

lemma directions:
  assumes "dir_check chk src dst dr p cg = Inr (p', cg')"
  shows "\<exists>F su fl. p' = \<lparr>success = success p @ su, failure = failure p @ fl\<rparr> \<and>
    cg' = cg\<lparr>cg_insns := cg_insns cg @ F\<rparr> \<and>
    tests N pkt (length (cg_insns cg)) F su fl (\<lambda>x. fits N src x \<and> fits N dst x)
      (\<lambda>x. dir_sem dr (holds pkt src x) (holds pkt dst x))"
proof (cases dr)
  case Src
  obtain F fl where "chk src cg (failure p) = (failure p @ fl, cg\<lparr>cg_insns := cg_insns cg @ F\<rparr>)"
    and "tests N pkt (length (cg_insns cg)) F [] fl (fits N src) (holds pkt src)"
    using chk [of src cg "failure p" N pkt] by auto
  with assms Src show ?thesis
    by (intro exI [of _ F] exI [of _ "[]"] exI [of _ fl])
       (auto simp: dir_check_def patches_upd elim: tests_mono)
next
  case Dst
  obtain F fl where "chk dst cg (failure p) = (failure p @ fl, cg\<lparr>cg_insns := cg_insns cg @ F\<rparr>)"
    and "tests N pkt (length (cg_insns cg)) F [] fl (fits N dst) (holds pkt dst)"
    using chk [of dst cg "failure p" N pkt] by auto
  with assms Dst show ?thesis
    by (intro exI [of _ F] exI [of _ "[]"] exI [of _ fl])
       (auto simp: dir_check_def patches_upd elim: tests_mono)
next
  case SrcAndDst
  obtain f1 c1 f2 c2 where c: "chk src cg (failure p) = (f1, c1)" "chk dst c1 f1 = (f2, c2)"
    by (metis prod.exhaust)
  from both_in_order [OF c, of N pkt] assms SrcAndDst c show ?thesis
    by (force simp: dir_check_def patches_upd)
next
  case SrcOrDst
  with either [of src dst p cg p' cg' N pkt] assms show ?thesis by (simp add: dir_check_def)
qed

end

section \<open>The checks of the generator\<close>

lemma check_port_ok: "\<exists>F fl. check_port v off cg fail = (fail @ fl, cg\<lparr>cg_insns := cg_insns cg @ F\<rparr>) \<and>
    tests N pkt (length (cg_insns cg)) F [] fl (\<lambda>x. unat (x + off) + 2 \<le> N) (\<lambda>x. ldh pkt (unat (x + off)) = v)"
  by (intro exI [of _ "[ldh_ind off, jeq_k v 0 0xff]"] exI [of _ "[Jf (length (cg_insns cg) + 1)]"] conjI tests_wp)
     (auto simp: check_port_def wp_eval)

interpretation port_check: field_check "check_port v" "\<lambda>N off x. unat (x + off) + 2 \<le> N"
  "\<lambda>pkt off x. ldh pkt (unat (x + off)) = v" for v
  by unfold_locales (rule check_port_ok)

lemma check_range_ok: "\<exists>F fl. check_range lo hi off cg fail = (fail @ fl, cg\<lparr>cg_insns := cg_insns cg @ F\<rparr>) \<and>
    tests N pkt (length (cg_insns cg)) F [] fl (\<lambda>x. unat (x + off) + 2 \<le> N)
      (\<lambda>x. ucast lo \<le> ldh pkt (unat (x + off)) \<and> ldh pkt (unat (x + off)) \<le> ucast hi)"
  by (intro exI [of _ "[ldh_ind off, jge_k (ucast lo) 0 0xff, jgt_k (ucast hi) 0xff 0]"]
        exI [of _ "[Jf (length (cg_insns cg) + 1), Jt (length (cg_insns cg) + 2)]"] conjI tests_wp)
     (auto simp: check_range_def wp_eval)

interpretation range_check: field_check "check_range lo hi" "\<lambda>N off x. unat (x + off) + 2 \<le> N"
  "\<lambda>pkt off x. ucast lo \<le> ldh pkt (unat (x + off)) \<and> ldh pkt (unat (x + off)) \<le> ucast hi" for lo hi
  by unfold_locales (rule check_range_ok)

lemma check_mac_ok: "\<exists>F fl. check_mac m off cg fail = (fail @ fl, cg\<lparr>cg_insns := cg_insns cg @ F\<rparr>) \<and>
    tests N pkt (length (cg_insns cg)) F [] fl (\<lambda>x. unat off + 4 \<le> N \<and> unat (off + 4) + 2 \<le> N)
      (\<lambda>x. ldw pkt (unat off) = mac_word m \<and> ldh pkt (unat (off + 4)) = mac_half m)"
  by (intro exI [of _ "[ldw_abs off, jeq_k (mac_word m) 0 0xff, ldh_abs (off + 4), jeq_k (mac_half m) 0 0xff]"]
        exI [of _ "[Jf (length (cg_insns cg) + 1), Jf (length (cg_insns cg) + 3)]"] conjI tests_wp)
     (auto simp: check_mac_def wp_eval)

interpretation mac_check: field_check "check_mac m" "\<lambda>N off x. unat off + 4 \<le> N \<and> unat (off + 4) + 2 \<le> N"
  "\<lambda>pkt off x. ldw pkt (unat off) = mac_word m \<and> ldh pkt (unat (off + 4)) = mac_half m" for m
  by unfold_locales (rule check_mac_ok)

lemma check_net4_ok: "\<exists>F fl. check_net4 m v off cg fail = (fail @ fl, cg\<lparr>cg_insns := cg_insns cg @ F\<rparr>) \<and>
    tests N pkt (length (cg_insns cg)) F [] fl (\<lambda>x. unat off + 4 \<le> N) (\<lambda>x. ldw pkt (unat off) AND m = v)"
  by (intro exI [of _ "[ldw_abs off, and_k m, jeq_k v 0 0xff]"] exI [of _ "[Jf (length (cg_insns cg) + 2)]"]
        conjI tests_wp)
     (auto simp: check_net4_def wp_eval)

interpretation net4_check: field_check "check_net4 m v" "\<lambda>N off x. unat off + 4 \<le> N"
  "\<lambda>pkt off x. ldw pkt (unat off) AND m = v" for m v
  by unfold_locales (rule check_net4_ok)

definition seg_off :: "u32 \<Rightarrow> nat \<Rightarrow> u32" where
  "seg_off off j = off + of_nat j * 2"

lemma check_ip6_addr_ok:
  "\<exists>F fl. check_ip6_addr i segs off cg fail = (fail @ fl, cg\<lparr>cg_insns := cg_insns cg @ F\<rparr>) \<and>
    tests N pkt (length (cg_insns cg)) F [] fl
      (\<lambda>x. \<forall>j < length segs. unat (seg_off off (i + j)) + 2 \<le> N)
      (\<lambda>x. \<forall>j < length segs. ldh pkt (unat (seg_off off (i + j))) = ucast (segs ! j))"
proof (induction segs arbitrary: i cg fail)
  case Nil
  show ?case by (auto intro!: exI [of _ "[]"] simp: tests_Nil)
next
  case (Cons seg segs)
  let ?F = "[ldh_abs (seg_off off i), jeq_k (ucast seg) 0 0xff]" and ?n = "length (cg_insns cg)"
  let ?cg = "cg\<lparr>cg_insns := cg_insns cg @ ?F\<rparr>"
  obtain F fl where F: "check_ip6_addr (i + 1) segs off ?cg (fail @ [Jf (?n + 1)]) =
      ((fail @ [Jf (?n + 1)]) @ fl, ?cg\<lparr>cg_insns := cg_insns ?cg @ F\<rparr>)"
    and t: "tests N pkt (length (cg_insns ?cg)) F [] fl
      (\<lambda>x. \<forall>j < length segs. unat (seg_off off (i + 1 + j)) + 2 \<le> N)
      (\<lambda>x. \<forall>j < length segs. ldh pkt (unat (seg_off off (i + 1 + j))) = ucast (segs ! j))"
    using Cons.IH [of "i + 1" ?cg "fail @ [Jf (?n + 1)]"] by blast
  have "tests N pkt (?n + length ?F) F [] fl
      (\<lambda>x. \<forall>j < length segs. unat (seg_off off (i + 1 + j)) + 2 \<le> N)
      (\<lambda>x. \<forall>j < length segs. ldh pkt (unat (seg_off off (i + 1 + j))) = ucast (segs ! j))"
    using t by simp
  from tests_and [OF test_half this]
  have "tests N pkt ?n (?F @ F) [] ([Jf (?n + 1)] @ fl)
      (\<lambda>x. \<forall>j < length (seg # segs). unat (seg_off off (i + j)) + 2 \<le> N)
      (\<lambda>x. \<forall>j < length (seg # segs). ldh pkt (unat (seg_off off (i + j))) = ucast ((seg # segs) ! j))"
    by (rule tests_mono) (auto simp: All_less_Suc2)
  moreover have "check_ip6_addr i (seg # segs) off cg fail =
      (fail @ [Jf (?n + 1)] @ fl, cg\<lparr>cg_insns := cg_insns cg @ ?F @ F\<rparr>)"
    using F by (simp add: seg_off_def)
  ultimately show ?case by blast
qed

interpretation addr6_check: field_check "check_ip6_addr 0 segs"
  "\<lambda>N off x. \<forall>j < length segs. unat (seg_off off j) + 2 \<le> N"
  "\<lambda>pkt off x. \<forall>j < length segs. ldh pkt (unat (seg_off off j)) = ucast (segs ! j)" for segs
  using check_ip6_addr_ok [where i = 0] by unfold_locales simp

text \<open>Segment \<open>j\<close> of an address of prefix length \<open>n\<close>: whole, cut by a mask, or not looked at.\<close>

definition seg_matches :: "nat \<Rightarrow> nat \<Rightarrow> u32 \<Rightarrow> u16 \<Rightarrow> bool" where
  "seg_matches n j v seg \<longleftrightarrow>
     (if n \<le> 16 * j then True
      else if 16 * j + 16 \<le> n then v = ucast seg
      else v AND (push_bit (16 * j + 16 - n) 0xffff AND 0xffff) =
           ucast seg AND (push_bit (16 * j + 16 - n) 0xffff AND 0xffff))"

lemma test_half_mask: "tests N pkt lo [ldh_abs off, and_k m, jeq_k v 0 0xff] [] [Jf (lo + 2)]
    (\<lambda>_. unat off + 2 \<le> N) (\<lambda>_. ldh pkt (unat off) AND m = v)"
  by (rule tests_wp) (auto simp: wp_eval)

lemma net6_bits:
  assumes "i < 8"
  shows "(of_nat i * 16 :: u32) \<ge> ucast (plen :: u8) \<longleftrightarrow> unat plen \<le> 16 * i"
    and "(of_nat i * 16 + 16 :: u32) \<le> ucast plen \<longleftrightarrow> 16 * i + 16 \<le> unat plen"
    and "16 * i < unat plen \<Longrightarrow> unat plen < 16 * i + 16 \<Longrightarrow>
      unat (16 - (ucast plen - of_nat i * 16 :: u32)) = 16 * i + 16 - unat plen"
proof -
  have i: "unat (of_nat i * 16 :: u32) = 16 * i" "unat (of_nat i * 16 + 16 :: u32) = 16 * i + 16"
    using assms by (simp_all add: unat_word_ariths unat_of_nat)
  have p: "unat (ucast plen :: u32) = unat plen" by (simp add: unat_ucast_u8_u32)
  show "(of_nat i * 16 :: u32) \<ge> ucast plen \<longleftrightarrow> unat plen \<le> 16 * i"
    "(of_nat i * 16 + 16 :: u32) \<le> ucast plen \<longleftrightarrow> 16 * i + 16 \<le> unat plen"
    by (simp_all add: word_le_nat_alt i p)
  assume *: "16 * i < unat plen" "unat plen < 16 * i + 16"
  have "unat (ucast plen - of_nat i * 16 :: u32) = unat plen - 16 * i"
    using * by (simp add: unat_sub word_le_nat_alt i p)
  then show "unat (16 - (ucast plen - of_nat i * 16 :: u32)) = 16 * i + 16 - unat plen"
    using * by (simp add: unat_sub word_le_nat_alt)
qed

lemma check_net6_ok:
  "i + length segs \<le> 8 \<Longrightarrow>
   \<exists>F fl. check_net6 plen i segs off cg fail = (fail @ fl, cg\<lparr>cg_insns := cg_insns cg @ F\<rparr>) \<and>
    tests N pkt (length (cg_insns cg)) F [] fl
      (\<lambda>x. \<forall>j < length segs. unat (seg_off off (i + j)) + 2 \<le> N)
      (\<lambda>x. \<forall>j < length segs. seg_matches (unat plen) (i + j) (ldh pkt (unat (seg_off off (i + j)))) (segs ! j))"
proof (induction segs arbitrary: i cg fail)
  case Nil
  show ?case by (auto intro!: exI [of _ "[]"] simp: tests_Nil)
next
  case (Cons seg segs)
  let ?n = "length (cg_insns cg)"
  let ?fits = "\<lambda>i segs x. \<forall>j < length segs. unat (seg_off off (i + j)) + 2 \<le> N"
  let ?holds = "\<lambda>i segs x. \<forall>j < length segs.
    seg_matches (unat plen) (i + j) (ldh pkt (unat (seg_off off (i + j)))) (segs ! j)"
  have i: "i < 8" "i + 1 + length segs \<le> 8" using Cons.prems by simp_all
  show ?case
  proof (cases "unat plen \<le> 16 * i")
    case True
    then have "check_net6 plen i (seg # segs) off cg fail = (fail, cg)"
      by (simp add: net6_bits [OF i(1)])
    moreover have "?holds i (seg # segs) x" for x using True by (simp add: seg_matches_def)
    ultimately show ?thesis
      by (intro exI [of _ "[]"] conjI tests_mono [OF tests_Nil]) simp_all
  next
    case False
    let ?m = "push_bit (unat (16 - (ucast plen - of_nat i * 16 :: u32))) 0xffff AND 0xffff :: u32"
    define G where "G = (if 16 * i + 16 \<le> unat plen then [ldh_abs (seg_off off i), jeq_k (ucast seg) 0 0xff]
      else [ldh_abs (seg_off off i), and_k ?m, jeq_k (ucast seg AND ?m) 0 0xff])"
    let ?p = "Jf (?n + length G - 1)"
    let ?cg = "cg\<lparr>cg_insns := cg_insns cg @ G\<rparr>"
    have first: "tests N pkt ?n G [] [?p] (\<lambda>x. unat (seg_off off i) + 2 \<le> N)
        (\<lambda>x. seg_matches (unat plen) i (ldh pkt (unat (seg_off off i))) seg)"
      using test_half [of N pkt ?n "seg_off off i" "ucast seg"] False
        test_half_mask [of N pkt ?n "seg_off off i" ?m "ucast seg AND ?m"] net6_bits(3) [OF i(1), of plen]
      by (auto simp: G_def seg_matches_def elim!: tests_mono)
    obtain F fl where F: "check_net6 plen (i + 1) segs off ?cg (fail @ [?p]) =
        ((fail @ [?p]) @ fl, ?cg\<lparr>cg_insns := cg_insns ?cg @ F\<rparr>)"
      and t: "tests N pkt (?n + length G) F [] fl (?fits (i + 1) segs) (?holds (i + 1) segs)"
      using Cons.IH [OF i(2), of ?cg "fail @ [?p]"] by auto
    have "tests N pkt ?n (G @ F) [] ([?p] @ fl) (?fits i (seg # segs)) (?holds i (seg # segs))"
      by (rule tests_mono [OF tests_and [OF first t]]) (auto simp: All_less_Suc2)
    moreover have "check_net6 plen i (seg # segs) off cg fail =
        (fail @ [?p] @ fl, cg\<lparr>cg_insns := cg_insns cg @ G @ F\<rparr>)"
      using F False net6_bits(1,2) [OF i(1), of plen] by (auto simp: G_def seg_off_def Let_def)
    ultimately show ?thesis by blast
  qed
qed

interpretation net6_check: field_check "check_net6 plen 0 (segments a)"
  "\<lambda>N off x. \<forall>j < 8. unat (seg_off off j) + 2 \<le> N"
  "\<lambda>pkt off x. \<forall>j < 8. seg_matches (unat plen) j (ldh pkt (unat (seg_off off j))) (segments a ! j)" for plen a
  using check_net6_ok [of 0 "segments a"] by unfold_locales simp

text \<open>The masked segments together compare exactly the first bits of the address.\<close>

lemma bit_ldh: "bit (ldh pkt n) k \<Longrightarrow> k < 16"
proof (rule ccontr)
  assume b: "bit (ldh pkt n) k" and k: "\<not> k < 16"
  have "unat (ldh pkt n) < 2 ^ 16" using unat_be16_less by (simp add: ldh_def)
  then have "take_bit 16 (ldh pkt n) = ldh pkt n" by (simp add: take_bit_eq_mod word_unat_eq_iff unat_mod)
  with b k show False by (metis bit_take_bit_iff)
qed

lemma seg_matches_bits:
  assumes v: "v = ldh pkt n"
  shows "seg_matches plen j v seg \<longleftrightarrow> (\<forall>k < 16. 16 * j + (15 - k) < plen \<longrightarrow> bit v k = bit seg k)"
proof -
  have high: "bit v k \<Longrightarrow> k < 16" "bit seg k \<Longrightarrow> k < 16" for k
    using bit_ldh v bit_imp_le_length [of seg k] by auto
  have eq: "v = ucast seg \<longleftrightarrow> (\<forall>k < 16. bit v k = bit seg k)"
  proof
    assume same: "\<forall>k < 16. bit v k = bit seg k"
    show "v = ucast seg"
    proof (rule bit_eqI)
      fix k
      show "bit v k \<longleftrightarrow> bit (ucast seg :: u32) k"
        using same high(1) [of k] high(2) [of k] by (cases "k < 16") (auto simp: bit_ucast_iff)
    qed
  qed (auto simp: bit_ucast_iff)
  have ff: "bit (0xffff :: int) k \<longleftrightarrow> k < 16" for k
    using bit_mask_iff [of 16 k, where 'a = int] by (auto simp: mask_eq_exp_minus_1)
  have m: "bit (push_bit c 0xffff AND 0xffff :: u32) k \<longleftrightarrow> c \<le> k \<and> k < 16" for c k
    by (auto simp: bit_simps ff)
  have cut: "v AND (push_bit c 0xffff AND 0xffff) = ucast seg AND (push_bit c 0xffff AND 0xffff) \<longleftrightarrow>
      (\<forall>k < 16. c \<le> k \<longrightarrow> bit v k = bit seg k)" for c
  proof -
    have "v AND M = ucast seg AND M \<longleftrightarrow> (\<forall>k < 16. c \<le> k \<longrightarrow> bit v k = bit seg k)"
      if M: "\<And>k. bit M k \<longleftrightarrow> c \<le> k \<and> k < 16" for M
    proof
      assume eq: "v AND M = ucast seg AND M"
      have "bit v k = bit seg k" if "k < 16" "c \<le> k" for k
      proof -
        have "bit (v AND M) k = bit (ucast seg AND M :: u32) k" using eq by simp
        with that show ?thesis by (simp add: bit_and_iff bit_ucast_iff M)
      qed
      then show "\<forall>k < 16. c \<le> k \<longrightarrow> bit v k = bit seg k" by blast
    qed (auto simp: bit_eq_iff bit_and_iff bit_ucast_iff M)
    from this [OF m] show ?thesis .
  qed
  show ?thesis unfolding seg_matches_def cut eq by (auto split: if_splits)
qed

lemma prefix6_segments:
  "(\<forall>j < 8. seg_matches n j (ldh pkt (off + 2 * j)) (segments a ! j)) \<longleftrightarrow> prefix6_at pkt off a n"
proof
  assume segs: "\<forall>j < 8. seg_matches n j (ldh pkt (off + 2 * j)) (segments a ! j)"
  show "prefix6_at pkt off a n" unfolding prefix6_at_def
  proof (intro allI impI)
    fix b
    assume b: "b < min n 128"
    then have "b div 16 < 8" by auto
    with segs have "seg_matches n (b div 16) (ldh pkt (off + 2 * (b div 16))) (segments a ! (b div 16))"
      by blast
    moreover have "16 * (b div 16) + (15 - (15 - b mod 16)) < n" using b by simp
    ultimately show "bit (ldh pkt (off + 2 * (b div 16))) (15 - b mod 16) =
        bit (segments a ! (b div 16)) (15 - b mod 16)"
      by (simp add: seg_matches_bits [OF refl])
  qed
next
  assume pre: "prefix6_at pkt off a n"
  show "\<forall>j < 8. seg_matches n j (ldh pkt (off + 2 * j)) (segments a ! j)"
    unfolding seg_matches_bits [OF refl]
  proof (intro allI impI)
    fix j k :: nat
    assume jk: "j < 8" "k < 16" "16 * j + (15 - k) < n"
    define r where "r = 15 - k"
    have "(16 * j + r) div 16 = j" "15 - (16 * j + r) mod 16 = k" "16 * j + r < min n 128"
      using jk by (simp_all add: r_def [symmetric]) (simp_all add: r_def)
    then show "bit (ldh pkt (off + 2 * j)) k = bit (segments a ! j) k"
      using pre [unfolded prefix6_at_def, rule_format, of "16 * j + r"] by simp
  qed
qed

lemma be32_inject: "be32 a b c d = be32 a' b' c' d' \<longleftrightarrow> a = a' \<and> b = b' \<and> c = c' \<and> d = d'"
proof
  assume eq: "be32 a b c d = be32 a' b' c' d'"
  have bits: "bit (be32 a b c d) (k + 24) = bit a k" "bit (be32 a b c d) (k + 16) = bit b k"
    "bit (be32 a b c d) (k + 8) = bit c k" "bit (be32 a b c d) k = bit d k" if "k < 8" for a b c d k
  proof -
    have "\<not> bit w n" if "8 \<le> n" for w :: u8 and n
      using that bit_imp_le_length [of w n] by auto
    then show "bit (be32 a b c d) (k + 24) = bit a k" "bit (be32 a b c d) (k + 16) = bit b k"
      "bit (be32 a b c d) (k + 8) = bit c k" "bit (be32 a b c d) k = bit d k"
      using that by (simp_all add: be32_def bit_simps)
  qed
  show "a = a' \<and> b = b' \<and> c = c' \<and> d = d'"
    using bits [of _ a b c d] bits [of _ a' b' c' d'] unfolding eq
    by (auto intro!: bit_word_eqI)
qed simp

lemma be32_half: "be32 0 0 e f = be16 e f"
  by (simp add: be32_def be16_def)

lemma mac_fields: "ldw pkt off = mac_word m \<and> ldh pkt (off + 4) = mac_half m \<longleftrightarrow> mac_at pkt off m"
proof (cases m)
  case (MacAddr a b c d e f)
  have "ldh pkt (off + 4) = mac_half m \<longleftrightarrow> be32 0 0 (pkt_byte pkt (off + 4)) (pkt_byte pkt (off + 5)) = be32 0 0 e f"
    by (simp add: MacAddr ldh_def be32_half add.commute)
  then show ?thesis by (simp add: MacAddr ldw_def be32_inject)
qed

end
