(* ===== verification/Ebpf_Fields.thy ===== *)
theory Ebpf_Fields
  imports Ebpf_Prims Emit_Prims
begin

text \<open>The emitters that test addresses, networks and the fields behind the ethertype.\<close>

section \<open>IPv4 addresses and networks\<close>

lemma either_net:
  assumes "fits_xdp pkt" "computes pkt mid f"
  shows "eemits pkt host cg
    \<lparr>e_success = [here cg + 5 + length mid], e_failure = (here cg + 2) # test_slots Word_Size mid (here cg + 6 + length mid)\<rparr>
    (with_code cg (either_code (link_net_offset link + 12) (link_net_offset link + 16) mid k)) (eready pkt r6)
    (field pkt Word_Size (net_off link 0 + 12) (\<lambda>v. eq64 (f v) k) \<or>
     field pkt Word_Size (net_off link 0 + 16) (\<lambda>v. eq64 (f v) k))"
proof -
  have "unat (link_net_offset link + 12) = net_off link 0 + 12" "unat (link_net_offset link + 16) = net_off link 0 + 16"
    "net_off link 0 \<le> 16"
    by (simp_all add: net_at_numeral net_at(3))
  then show ?thesis
    using test_either [OF assms(1) _ _ _ assms(2), of "link_net_offset link + 12" "link_net_offset link + 16" host "here cg" k r6]
    by (intro eemitsI [OF refl]) simp
qed

lemma net_small: "(n :: nat) \<le> 100 \<Longrightarrow> net_off link 0 + n < 32768"
  using net_at(3) [of link] by simp

lemmas net_places = net_at_numeral net_small net_at(1)

lemma echeck_addr4_ok:
  assumes "fits_xdp pkt"
  shows "eemits pkt host cg (fst (echeck_addr4 k (link_net_offset link + 12) (link_net_offset link + 16) d cg))
    (snd (echeck_addr4 k (link_net_offset link + 12) (link_net_offset link + 16) d cg)) (eready pkt r6)
    (dir_sem d (field pkt Word_Size (net_off link 0 + 12) (\<lambda>v. eq64 v k))
       (field pkt Word_Size (net_off link 0 + 16) (\<lambda>v. eq64 v k)))"
proof -
  note t = eemits_test [OF assms _ computes_Nil, where sz = Word_Size and k = k and ?r6.0 = r6 and host = host]
  have src: "eemits pkt host c \<lparr>e_success = [], e_failure = [here c + 2, here c + 5]\<rparr>
      (with_code c (test_code Word_Size (link_net_offset link + 12) [] k)) (eready pkt r6)
      (field pkt Word_Size (net_off link 0 + 12) (\<lambda>v. eq64 v k))" for c
    using t [of "link_net_offset link + 12" c] by (simp add: net_places test_slots_def)
  have dst: "eemits pkt host c \<lparr>e_success = [], e_failure = [here c + 2, here c + 5]\<rparr>
      (with_code c (test_code Word_Size (link_net_offset link + 16) [] k)) (eready pkt r6)
      (field pkt Word_Size (net_off link 0 + 16) (\<lambda>v. eq64 v k))" for c
    using t [of "link_net_offset link + 16" c] by (simp add: net_places test_slots_def)
  show ?thesis
  proof (cases d)
    case SrcOrDst
    then show ?thesis
      using either_net [OF assms computes_Nil, of host cg link k r6]
      by (simp add: test_slots_def test_code_def either_code_def ac_simps)
  next
    case SrcAndDst
    then show ?thesis
      using eemits_seq [OF src _ dst, of cg "\<lparr>e_success = [], e_failure = [here cg + 2, here cg + 5, here cg + 8, here cg + 11]\<rparr>"]
      by (simp add: test_code_def ac_simps)
  qed (use src [of cg] dst [of cg] in \<open>simp_all add: test_code_def\<close>)
qed

lemma eq64_small: "unat k < 0x80000000 \<Longrightarrow> eq64 v k \<longleftrightarrow> v = k"
proof -
  assume "unat k < 0x80000000"
  from scast_small [OF this] have "scast k = wide k" by simp
  then show ?thesis by (simp add: eq64_def)
qed

section \<open>Tests of a source and a destination field\<close>

locale echeck =
  fixes chk :: "'o \<Rightarrow> ecodegen \<Rightarrow> nat list \<Rightarrow> nat list \<times> ecodegen"
    and keeps :: "packet \<Rightarrow> eregs \<Rightarrow> bool"
    and holds :: "packet \<Rightarrow> 'o \<Rightarrow> bool"
    and inside :: "'o \<Rightarrow> bool"
  assumes chk_tests: "fits_xdp pkt \<Longrightarrow> inside a \<Longrightarrow>
    \<exists>F fl. (\<forall>fail. chk a cg fail = (fail @ fl, with_code cg F)) \<and>
      etests pkt host (here cg) F [] fl (keeps pkt) (holds pkt a)"
begin

text \<open>What \<open>edir_check\<close> adds to the patches \<open>p\<close> of a guard.\<close>

lemma dir_check_tests:
  assumes "edir_check chk s t first second d p cg = Inr (q, cg')" "fits_xdp pkt" "inside s" "inside t"
    and order: "first = s \<and> second = t \<or> first = t \<and> second = s" and "e_success p = []"
  shows "\<exists>r. e_success q = e_success r \<and> e_failure q = e_failure p @ e_failure r \<and>
    eemits pkt host cg r cg' (keeps pkt) (dir_sem d (holds pkt s) (holds pkt t))"
proof -
  have ok: "inside first" "inside second" using assms(3,4) order by auto
  note one = chk_tests [OF assms(2), of _ _ host]
  have single: "\<exists>r. e_success q = e_success r \<and> e_failure q = e_failure p @ e_failure r \<and>
      eemits pkt host cg r cg' (keeps pkt) (holds pkt a)"
    if a: "inside a" and q: "(let (fail, cg) = chk a cg (e_failure p) in Inr (p\<lparr>e_failure := fail\<rparr>, cg)) = Inr (q, cg')" for a
  proof -
    obtain F fl where F: "\<And>fail. chk a cg fail = (fail @ fl, with_code cg F)"
      "etests pkt host (here cg) F [] fl (keeps pkt) (holds pkt a)" using one [OF a, of cg] by metis
    then show ?thesis using q assms(6)
      by (intro exI [of _ "\<lparr>e_success = [], e_failure = fl\<rparr>"]) (auto intro!: eemitsI)
  qed
  obtain F fl where F: "\<And>fail. chk first cg fail = (fail @ fl, with_code cg F)"
    "etests pkt host (here cg) F [] fl (keeps pkt) (holds pkt first)" using one [OF ok(1), of cg] by metis
  show ?thesis
  proof (cases d)
    case SrcAndDst
    obtain G gl where G: "\<And>fail. chk second (with_code cg F) fail = (fail @ gl, with_code cg (F @ G))"
      "etests pkt host (here cg + length F) G [] gl (keeps pkt) (holds pkt second)"
      using one [OF ok(2), of "with_code cg F"] by auto
    have "etests pkt host (here cg) (F @ G) [] (fl @ gl) (keeps pkt) (dir_sem d (holds pkt s) (holds pkt t))"
      using etests_and [OF F(2) G(2)] order SrcAndDst by (auto simp: conj_commute)
    then show ?thesis using assms(1,6) SrcAndDst F(1) G(1)
      by (intro exI [of _ "\<lparr>e_success = [], e_failure = fl @ gl\<rparr>"]) (auto simp: edir_check_def intro!: eemitsI)
  next
    case SrcOrDst
    then obtain cg1 where cg1: "eresolve_all fl (here cg + length F + 1) (with_code cg (F @ [e_ja 0])) = Inr cg1"
      and q: "q = \<lparr>e_success = [here cg + length F], e_failure = fst (chk second cg1 (e_failure p))\<rparr>"
        "cg' = snd (chk second cg1 (e_failure p))"
      using assms(1,6) F(1) by (auto simp: edir_check_def rbind_eq_Inr case_prod_beta)
    obtain H where H: "eresolves fl (here cg + length F + 1) (ecg_insns cg @ F @ [e_ja 0]) (ecg_insns cg @ H)"
      "cg1 = with_code cg H" "length H = length F + 1"
      using eresolve_all_Inr [OF cg1] etests_range [OF F(2)] eresolves_prefix [of fl _ "ecg_insns cg"]
      by (fastforce simp: with_code_def)
    obtain G gl where G: "\<And>fail. chk second cg1 fail = (fail @ gl, with_code cg (H @ G))"
      "etests pkt host (here cg + length F + 1) G [] gl (keeps pkt) (holds pkt second)"
      using one [OF ok(2), of cg1] H(2,3) by auto
    have "etests pkt host (here cg) (H @ G) [here cg + length F] gl (keeps pkt) (dir_sem d (holds pkt s) (holds pkt t))"
      using etests_or [OF F(2) G(2) H(1)] order SrcOrDst by (auto simp: disj_commute)
    then show ?thesis using q G(1) assms(6)
      by (intro exI [of _ "\<lparr>e_success = [here cg + length F], e_failure = gl\<rparr>"]) (auto intro!: eemitsI)
  qed (use single assms(1,3,4) in \<open>auto simp: edir_check_def\<close>)
qed

end

subsection \<open>IPv4\<close>

lemma eemit_host4_ok:
  assumes "eemit_host4 a d cg = Inr (p, cg')" "fits_xdp pkt"
  shows "eemits pkt host cg p cg' (eready pkt r6) (eprim_sem (ecg_link cg) (Host (V4 a) d) pkt)"
proof -
  obtain q cg1 where q: "eemit_ethertype 0x0800 cg = Inr (q, cg1)"
    using assms(1) by (auto simp: eemit_host4_def eip4_guard_def rbind_eq_Inr)
  let ?r = "echeck_addr4 a (link_net_offset (ecg_link cg) + 12) (link_net_offset (ecg_link cg) + 16) d cg1"
  have p: "e_success p = e_success (fst ?r)" "e_failure p = e_failure q @ e_failure (fst ?r)" "cg' = snd ?r"
    using assms(1) q guard_link [OF q] guard_success [OF q]
    by (auto simp: eemit_host4_def eip4_guard_def rbind_eq_Inr Let_def split: prod.splits)
  show ?thesis unfolding p(3)
    by (rule eguarded [OF q assms(2) echeck_addr4_ok [OF assms(2)] p(1,2)]) simp
qed

interpretation net4_check: echeck "echeck_net4 m k" "\<lambda>pkt. eready pkt r6"
  "\<lambda>pkt off. field pkt Word_Size (unat off) (\<lambda>v. eq64 (v AND m) k)" "\<lambda>off. unat off < 32768" for m k r6
proof
  fix pkt and off :: u32 and cg host
  assume "fits_xdp pkt" "unat off < 32768"
  then have "etests pkt host (here cg) (test_code Word_Size off [and32_imm R4 m] k) []
      (test_slots Word_Size [and32_imm R4 m] (here cg)) (eready pkt r6)
      (field pkt Word_Size (unat off) (\<lambda>v. eq64 (v AND m) k))"
    using test_load [OF _ _ computes_ops(1)] by blast
  then show "\<exists>F fl. (\<forall>fail. echeck_net4 m k off cg fail = (fail @ fl, with_code cg F)) \<and>
      etests pkt host (here cg) F [] fl (eready pkt r6) (field pkt Word_Size (unat off) (\<lambda>v. eq64 (v AND m) k))"
    by (intro exI conjI) (auto simp: echeck_net4_def test_code_def test_slots_def)
qed

lemma eemit_net_ok:
  assumes "eemit_net net d cg = Inr (p, cg')" "fits_xdp pkt"
  shows "eemits pkt host cg p cg' (eready pkt r6) (eprim_sem (ecg_link cg) (Net net d) pkt)"
proof -
  let ?k = "net_addr net AND net_mask net" and ?o = "link_net_offset (ecg_link cg)" and ?i = "and32_imm R4 (net_mask net)"
  obtain q cg1 where q: "eemit_ethertype 0x0800 cg = Inr (q, cg1)"
    using assms(1) by (auto simp: eemit_net_def eip4_guard_def rbind_eq_Inr)
  note link = guard_link [OF q] and su = guard_success [OF q]
  show ?thesis
  proof (cases "d = SrcOrDst")
    case True
    have "cg' = with_code cg1 (either_code (?o + 12) (?o + 16) [?i] ?k)"
      "p = \<lparr>e_success = [here cg1 + 6], e_failure = e_failure q @ [here cg1 + 2, here cg1 + 9, here cg1 + 13]\<rparr>"
      using assms(1) q True link su
      by (auto simp: eemit_net_def eip4_guard_def rbind_eq_Inr either_code_def test_code_def Let_def add.commute [of _ "here cg1"])
    then show ?thesis
      using True by (auto intro!: eguarded [OF q assms(2) either_net [OF assms(2) computes_ops(1)]] simp: test_slots_def)
  next
    case False
    then have "edir_check (echeck_net4 (net_mask net) ?k) (?o + 12) (?o + 16) (?o + 12) (?o + 16) d q cg1 = Inr (p, cg')"
      using assms(1) q link by (cases d) (auto simp: eemit_net_def eip4_guard_def rbind_eq_Inr Let_def)
    from net4_check.dir_check_tests [OF this assms(2) _ _ _ su, of host r6]
    obtain r where r: "e_success p = e_success r" "e_failure p = e_failure q @ e_failure r"
      "eemits pkt host cg1 r cg' (eready pkt r6) (dir_sem d
        (field pkt Word_Size (net_off (ecg_link cg) 0 + 12) (\<lambda>v. eq64 (v AND net_mask net) ?k))
        (field pkt Word_Size (net_off (ecg_link cg) 0 + 16) (\<lambda>v. eq64 (v AND net_mask net) ?k)))"
      by (auto simp: net_places)
    show ?thesis by (rule eguarded [OF q assms(2) r(3,1,2)]) simp
  qed
qed

subsection \<open>IPv6\<close>

lemma eq64_consts [simp]:
  "eq64 v (ucast (b :: u8)) \<longleftrightarrow> v = ucast b" "eq64 v (ucast (h :: u16)) \<longleftrightarrow> v = ucast h"
  "eq64 v (ucast (h :: u16) AND x) \<longleftrightarrow> v = ucast h AND x"
proof -
  have h: "unat (ucast h :: u32) < 65536"
    using unat_u16_less [of h] by (simp add: unsigned_ucast_eq take_bit_nat_eq_self)
  moreover have "unat (ucast h AND x :: u32) \<le> unat (ucast h :: u32)" by (simp add: word_and_le2 flip: word_le_nat_alt)
  moreover have "unat (ucast b :: u32) < 256" using unat_u8_less [of b] by (simp add: unat_ucast_u8_u32)
  ultimately show "eq64 v (ucast b) \<longleftrightarrow> v = ucast b" "eq64 v (ucast h) \<longleftrightarrow> v = ucast h"
    "eq64 v (ucast h AND x) \<longleftrightarrow> v = ucast h AND x"
    by (simp_all add: eq64_small)
qed

lemma echeck_ip6_ok:
  assumes "fits_xdp pkt" "unat off \<le> 100" "i + length segs \<le> 8"
  shows "\<exists>F fl. (\<forall>fail. echeck_ip6 i segs off cg fail = (fail @ fl, with_code cg F)) \<and>
    etests pkt host (here cg) F [] fl (eready pkt r6)
      (\<forall>j < length segs. field pkt Half (unat off + 2 * (i + j)) (\<lambda>v. v = ucast (segs ! j)))"
  using assms(3)
proof (induction segs arbitrary: i cg)
  case Nil
  show ?case by (auto intro!: exI [of _ "[]"] simp: etests_Nil with_code_Nil)
next
  case (Cons seg segs)
  let ?off = "off + of_nat i * 2" and ?F = "test_code Half (off + of_nat i * 2) [] (ucast seg)"
  have at: "unat ?off = unat off + 2 * i"
    using assms(2) Cons.prems by (simp add: unat_word_ariths unat_of_nat)
  obtain G gl where G: "\<And>fail. echeck_ip6 (i + 1) segs off (with_code cg ?F) fail = (fail @ gl, with_code cg (?F @ G))"
    "etests pkt host (here cg + length ?F) G [] gl (eready pkt r6)
      (\<forall>j < length segs. field pkt Half (unat off + 2 * (i + 1 + j)) (\<lambda>v. v = ucast (segs ! j)))"
    using Cons.IH [of "i + 1" "with_code cg ?F"] Cons.prems by auto
  have "etests pkt host (here cg) ?F [] (test_slots Half [] (here cg)) (eready pkt r6)
      (field pkt Half (unat ?off) (\<lambda>v. eq64 (id v) (ucast seg)))"
    by (rule test_load [OF assms(1) _ computes_Nil]) (use at assms(2) Cons.prems in simp)
  from etests_and [OF this G(2)] show ?case
    using G(1) by (intro exI [of _ "?F @ G"] exI [of _ "test_slots Half [] (here cg) @ gl"])
      (simp add: test_code_def test_slots_def All_less_Suc2 at)
qed

interpretation addr6_check: echeck "echeck_ip6 0 (segments a)" "\<lambda>pkt. eready pkt r6"
  "\<lambda>pkt off. addr6_in pkt (unat off) a" "\<lambda>off. unat off \<le> 100" for a r6
proof
  fix pkt and off :: u32 and cg host
  assume "fits_xdp pkt" "unat off \<le> 100"
  moreover have "addr6_in pkt (unat off) a \<longleftrightarrow>
      (\<forall>j < length (segments a). field pkt Half (unat off + 2 * j) (\<lambda>v. v = ucast (segments a ! j)))"
    unfolding addr6_in_def addr6_at_def field_def by (auto simp: All_less_Suc2 numeral_eq_Suc)
  ultimately show "\<exists>F fl. (\<forall>fail. echeck_ip6 0 (segments a) off cg fail = (fail @ fl, with_code cg F)) \<and>
      etests pkt host (here cg) F [] fl (eready pkt r6) (addr6_in pkt (unat off) a)"
    using echeck_ip6_ok [of pkt off 0 "segments a" cg host r6] by simp
qed

lemma eguarded6:
  assumes "echeck chk (\<lambda>pkt. eready pkt r6) (\<lambda>pkt off. R pkt (unat off)) (\<lambda>off. unat off \<le> 100)"
    and "rbind (eemit_ethertype 0x86dd cg) (\<lambda>(p, cg).
       let base = link_net_offset (ecg_link cg); src_off = base + 8; dst_off = base + 24
       in edir_check chk src_off dst_off src_off dst_off d p cg) = Inr (p, cg')"
    and "fits_xdp pkt"
  shows "eemits pkt host cg p cg' (eready pkt r6) (ether_is (ecg_link cg) 0x86dd pkt \<and>
    dir_sem d (R pkt (net_off (ecg_link cg) 0 + 8)) (R pkt (net_off (ecg_link cg) 0 + 24)))"
proof -
  obtain q cg1 where q: "eemit_ethertype 0x86dd cg = Inr (q, cg1)"
    and c: "edir_check chk (link_net_offset (ecg_link cg1) + 8) (link_net_offset (ecg_link cg1) + 24)
      (link_net_offset (ecg_link cg1) + 8) (link_net_offset (ecg_link cg1) + 24) d q cg1 = Inr (p, cg')"
    using assms(2) by (auto simp: rbind_eq_Inr Let_def)
  from net_at(3) [of "ecg_link cg"] echeck.dir_check_tests [OF assms(1) c assms(3) _ _ _ guard_success [OF q], of host]
  obtain r where r: "e_success p = e_success r" "e_failure p = e_failure q @ e_failure r"
    "eemits pkt host cg1 r cg' (eready pkt r6)
      (dir_sem d (R pkt (net_off (ecg_link cg) 0 + 8)) (R pkt (net_off (ecg_link cg) 0 + 24)))"
    by (auto simp: net_places guard_link [OF q])
  show ?thesis by (rule eguarded [OF q assms(3) r(3,1,2)]) simp
qed

lemma eemit_host6_ok:
  assumes "eemit_host6 a d cg = Inr (p, cg')" "fits_xdp pkt"
  shows "eemits pkt host cg p cg' (eready pkt r6) (eprim_sem (ecg_link cg) (Host (V6 a) d) pkt)"
  using eguarded6 [where R = "\<lambda>pkt off. addr6_in pkt off a", OF addr6_check.echeck_axioms] assms
  by (simp add: eemit_host6_def)

text \<open>Segment \<open>j\<close> under a prefix: looked at only when the prefix reaches it.\<close>

definition seg_in :: "packet \<Rightarrow> nat \<Rightarrow> nat \<Rightarrow> nat \<Rightarrow> u16 \<Rightarrow> bool" where
  "seg_in pkt n j off seg \<longleftrightarrow>
     n \<le> 16 * j \<or> field pkt Half (off + 2 * j) (\<lambda>v. seg_matches n j v seg)"

lemma echeck_net6_ok:
  assumes "fits_xdp pkt" "unat off \<le> 100" "i + length segs \<le> 8"
  shows "\<exists>F fl. (\<forall>fail. echeck_net6 plen i segs off cg fail = (fail @ fl, with_code cg F)) \<and>
    etests pkt host (here cg) F [] fl (eready pkt r6) (\<forall>j < length segs. seg_in pkt (unat plen) (i + j) (unat off) (segs ! j))"
  using assms(3)
proof (induction segs arbitrary: i cg)
  case Nil
  show ?case by (auto intro!: exI [of _ "[]"] simp: etests_Nil with_code_Nil)
next
  case (Cons seg segs)
  have i: "i < 8" "i + 1 + length segs \<le> 8" using Cons.prems by simp_all
  show ?case
  proof (cases "unat plen \<le> 16 * i")
    case True
    then have "\<forall>fail. echeck_net6 plen i (seg # segs) off cg fail = (fail @ [], with_code cg [])"
      by (simp add: net6_bits [OF i(1)] with_code_Nil)
    moreover have "etests pkt host (here cg) [] [] [] (eready pkt r6)
        (\<forall>j < length (seg # segs). seg_in pkt (unat plen) (i + j) (unat off) ((seg # segs) ! j))"
      by (rule etests_cong [OF etests_Nil]) (use True in \<open>simp_all add: seg_in_def\<close>)
    ultimately show ?thesis by blast
  next
    case False
    let ?off = "off + of_nat i * 2"
    define m where "m = (push_bit (unat (16 - (ucast plen - of_nat i * 16 :: u32))) 0xffff AND 0xffff :: u32)"
    define mid where "mid = (if 16 * i + 16 \<le> unat plen then [] else [and32_imm R4 m])"
    define k where "k = (if 16 * i + 16 \<le> unat plen then ucast seg else ucast seg AND m)"
    let ?f = "if 16 * i + 16 \<le> unat plen then id else (\<lambda>v. v AND m)" and ?F = "test_code Half ?off mid k"
    have at: "unat ?off = unat off + 2 * i"
      using assms(2) i(1) by (simp add: unat_word_ariths unat_of_nat)
    have f: "computes pkt mid ?f" using computes_Nil computes_ops(1) by (simp add: mid_def)
    have "etests pkt host (here cg) ?F [] (test_slots Half mid (here cg)) (eready pkt r6)
        (field pkt Half (unat ?off) (\<lambda>v. eq64 (?f v) k))"
      by (rule test_load [OF assms(1) _ f]) (use at assms(2) i(1) in simp)
    moreover have "field pkt Half (unat ?off) (\<lambda>v. eq64 (?f v) k) = seg_in pkt (unat plen) i (unat off) seg"
      using False net6_bits(3) [OF i(1), of plen] unfolding at seg_in_def by (auto simp: field_def k_def m_def seg_matches_def)
    ultimately have 1: "etests pkt host (here cg) ?F [] (test_slots Half mid (here cg)) (eready pkt r6)
        (seg_in pkt (unat plen) i (unat off) seg)" by (simp only:)
    obtain G gl where G: "\<And>fail. echeck_net6 plen (i + 1) segs off (with_code cg ?F) fail = (fail @ gl, with_code cg (?F @ G))"
      "etests pkt host (here cg + length ?F) G [] gl (eready pkt r6)
        (\<forall>j < length segs. seg_in pkt (unat plen) (i + 1 + j) (unat off) (segs ! j))"
      using Cons.IH [OF i(2), of "with_code cg ?F"] unfolding with_code_simps length_append by blast
    have "echeck_net6 plen i (seg # segs) off cg fail =
        (fail @ test_slots Half mid (here cg) @ gl, with_code cg (?F @ G))" for fail
    proof (cases "16 * i + 16 \<le> unat plen")
      case True
      then have "?F = eload_code Half ?off @ [jne_imm R4 (ucast seg) 0]" "mid = []" by (simp_all add: mid_def k_def test_code_def)
      then show ?thesis
        using G(1) False net6_bits(1,2) [OF i(1), of plen] True by (simp add: test_slots_def Let_def)
    next
      case cut: False
      then have "?F = eload_code Half ?off @ [and32_imm R4 m, jne_imm R4 (ucast seg AND m) 0]" "mid = [and32_imm R4 m]"
        by (simp_all add: mid_def k_def test_code_def)
      then show ?thesis
        using G(1) False net6_bits(1,2) [OF i(1), of plen] cut by (simp add: test_slots_def Let_def flip: m_def)
    qed
    moreover from etests_and [OF 1 G(2)] have "etests pkt host (here cg) (?F @ G) [] (test_slots Half mid (here cg) @ gl)
        (eready pkt r6) (\<forall>j < length (seg # segs). seg_in pkt (unat plen) (i + j) (unat off) ((seg # segs) ! j))"
      by (simp add: All_less_Suc2)
    ultimately show ?thesis by blast
  qed
qed

lemma prefix6_segs:
  "prefix6_in pkt off a n \<longleftrightarrow> (\<forall>j < length (segments a). seg_in pkt n j off (segments a ! j))"
proof -
  have "(\<forall>b < min n 128. off + 2 * (b div 16) + 2 \<le> length pkt) \<longleftrightarrow>
      (\<forall>j < 8. n \<le> 16 * j \<or> off + 2 * j + 2 \<le> length pkt)" (is "?bits \<longleftrightarrow> ?segs")
  proof
    assume ?bits
    show ?segs
    proof (intro allI impI disjCI)
      fix j :: nat assume "j < 8" "\<not> off + 2 * j + 2 \<le> length pkt"
      then show "n \<le> 16 * j" using \<open>?bits\<close> [rule_format, of "16 * j"] by (cases "n \<le> 16 * j") auto
    qed
  next
    assume ?segs
    show ?bits
    proof (intro allI impI)
      fix b assume b: "b < min n 128"
      then have "b div 16 < 8" "16 * (b div 16) < n" by auto
      then show "off + 2 * (b div 16) + 2 \<le> length pkt" using \<open>?segs\<close> [rule_format, of "b div 16"] by auto
    qed
  qed
  moreover have "seg_in pkt n j off seg \<longleftrightarrow> (n \<le> 16 * j \<or> off + 2 * j + 2 \<le> length pkt) \<and> seg_matches n j (ldh pkt (off + 2 * j)) seg"
    for j seg by (auto simp: seg_in_def field_def seg_matches_def)
  ultimately show ?thesis
    by (auto simp: prefix6_in_def simp flip: prefix6_segments)
qed

interpretation prefix6_check: echeck "echeck_net6 plen 0 (segments a)" "\<lambda>pkt. eready pkt r6"
  "\<lambda>pkt off. prefix6_in pkt (unat off) a (unat plen)" "\<lambda>off. unat off \<le> 100" for plen a r6
  using echeck_net6_ok [of _ _ 0 "segments a"] by unfold_locales (simp add: prefix6_segs)

lemma eemit_net6_ok:
  assumes "eemit_net6 net d cg = Inr (p, cg')" "fits_xdp pkt"
  shows "eemits pkt host cg p cg' (eready pkt r6) (eprim_sem (ecg_link cg) (Net6 net d) pkt)"
  using eguarded6 [where R = "\<lambda>pkt off. prefix6_in pkt off (net6_addr net) (unat (prefix_len net))",
      OF prefix6_check.echeck_axioms] assms
  by (simp add: eemit_net6_def)

section \<open>Hardware addresses\<close>

interpretation mac_check: echeck "echeck_mac w h" "\<lambda>pkt. eready pkt r6"
  "\<lambda>pkt off. field pkt Word_Size (unat off) (\<lambda>v. eq64 v w) \<and> field pkt Half (unat off + 4) (\<lambda>v. eq64 v h)"
  "\<lambda>off. unat off \<le> 100" for w h r6
proof
  fix pkt and off :: u32 and cg host
  assume pkt: "fits_xdp pkt" and off: "unat off \<le> 100"
  have at: "unat (off + 4) = unat off + 4" using off by (simp add: unat_word_ariths)
  note t = test_load [OF pkt _ computes_Nil, where host = host and ?r6.0 = r6]
  have "etests pkt host (here cg) (test_code Word_Size off [] w @ test_code Half (off + 4) [] h) []
      (test_slots Word_Size [] (here cg) @ test_slots Half [] (here cg + 6)) (eready pkt r6)
      (field pkt Word_Size (unat off) (\<lambda>v. eq64 v w) \<and> field pkt Half (unat off + 4) (\<lambda>v. eq64 v h))"
    using t [of off "here cg" Word_Size w] t [of "off + 4" "here cg + 6" Half h] off at by (intro etests_and) simp_all
  then show "\<exists>F fl. (\<forall>fail. echeck_mac w h off cg fail = (fail @ fl, with_code cg F)) \<and>
      etests pkt host (here cg) F [] fl (eready pkt r6)
        (field pkt Word_Size (unat off) (\<lambda>v. eq64 v w) \<and> field pkt Half (unat off + 4) (\<lambda>v. eq64 v h))"
    by (intro exI conjI) (auto simp: echeck_mac_def test_code_def test_slots_def add.commute [of _ "here cg"])
qed

lemma eemit_ether_host_ok:
  assumes "eemit_ether_host m d cg = Inr (p, cg')" "fits_xdp pkt"
  shows "eemits pkt host cg p cg' (eready pkt r6) (eprim_sem (ecg_link cg) (EtherHost m d) pkt)"
proof (cases m)
  case (MacAddr a b c a' b' c')
  then have "edir_check (echeck_mac (be32 a b c a') (be32 0 0 b' c')) 6 0 0 6 d no_epatches cg = Inr (p, cg')"
    using assms(1) by (simp split: if_splits)
  from mac_check.dir_check_tests [OF this assms(2), of host r6] show ?thesis
    by (auto simp: MacAddr no_epatches_def eemits_def)
qed

section \<open>Single fields behind an ethertype\<close>

lemma eresolve_code:
  "p = here cg + length A \<Longrightarrow>
   eresolve p t (with_code cg (A @ i # B)) = Inr cg' \<longleftrightarrow>
     p < t \<and> t - p - 1 \<le> 32767 \<and> cg' = with_code cg (A @ eset p t i # B)"
  unfolding eresolve_Inr by (auto simp: with_code_def nth_append list_update_append)

lemma eguarded_test:
  assumes "eemit_ethertype et cg = Inr (q, cg1)" "fits_xdp pkt" "unat off < 32768" "computes pkt mid f"
    and "p = q\<lparr>e_failure := e_failure q @ test_slots sz mid (here cg1)\<rparr>" "cg' = with_code cg1 (test_code sz off mid k)"
    and "t = (ether_is (ecg_link cg) et pkt \<and> field pkt sz (unat off) (\<lambda>v. eq64 (f v) k))"
  shows "eemits pkt host cg p cg' (eready pkt r6) t"
  unfolding assms(6)
  by (rule eguarded [OF assms(1,2) eemits_test [OF assms(2-4)]]) (simp_all add: assms(5,7) guard_success [OF assms(1)])

lemma eemit_ip_broadcast_ok:
  assumes "eemit_ip_broadcast cg = Inr (p, cg')" "fits_xdp pkt"
  shows "eemits pkt host cg p cg' (eready pkt r6) (eprim_sem (ecg_link cg) IpBroadcast pkt)"
proof -
  obtain q cg1 where q: "eemit_ethertype 0x0800 cg = Inr (q, cg1)"
    using assms(1) by (auto simp: eemit_ip_broadcast_def eip4_guard_def rbind_eq_Inr)
  show ?thesis
    by (rule eguarded_test [OF q assms(2) _ computes_Nil, where off = "link_net_offset (ecg_link cg) + 16"])
      (use assms(1) q in \<open>auto simp: eemit_ip_broadcast_def eip4_guard_def rbind_eq_Inr guard_link [OF q] net_places\<close>)
qed

lemma eemit_ip_multicast_ok:
  assumes "eemit_ip_multicast cg = Inr (p, cg')" "fits_xdp pkt"
  shows "eemits pkt host cg p cg' (eready pkt r6) (eprim_sem (ecg_link cg) IpMulticast pkt)"
proof -
  obtain q cg1 where q: "eemit_ethertype 0x0800 cg = Inr (q, cg1)"
    using assms(1) by (auto simp: eemit_ip_multicast_def eip4_guard_def rbind_eq_Inr)
  show ?thesis
    by (rule eguarded_test [OF q assms(2) _ computes_ops(1), where off = "link_net_offset (ecg_link cg) + 16"])
      (use assms(1) q in \<open>auto simp: eemit_ip_multicast_def eip4_guard_def rbind_eq_Inr guard_link [OF q] net_places
        test_slots_def test_code_def\<close>)
qed

lemma eemit_ip6_multicast_ok:
  assumes "eemit_ip6_multicast cg = Inr (p, cg')" "fits_xdp pkt"
  shows "eemits pkt host cg p cg' (eready pkt r6) (eprim_sem (ecg_link cg) Ip6Multicast pkt)"
proof -
  obtain q cg1 where q: "eemit_ethertype 0x86dd cg = Inr (q, cg1)"
    using assms(1) by (auto simp: eemit_ip6_multicast_def rbind_eq_Inr)
  show ?thesis
    by (rule eguarded_test [OF q assms(2) _ computes_Nil, where off = "link_net_offset (ecg_link cg) + 24"])
      (use assms(1) q in \<open>auto simp: eemit_ip6_multicast_def rbind_eq_Inr guard_link [OF q] net_places\<close>)
qed

text \<open>An ethertype other than IPv4 is refused where there is no link layer, so its offset is there.\<close>

lemma guard_ether:
  assumes "eemit_ethertype et cg = Inr (q, cg1)" "et \<noteq> 0x0800"
  obtains off where "link_ether_proto_offset (ecg_link cg) = Some off"
  using assms by (cases "link_ether_proto_offset (ecg_link cg)") (auto simp: eemit_ethertype_def)

lemma eemit_vlan_ok:
  assumes "eemit_vlan vid cg = Inr (p, cg')" "fits_xdp pkt"
  shows "eemits pkt host cg p cg' (eready pkt r6) (eprim_sem (ecg_link cg) (Vlan vid) pkt)"
proof -
  obtain q cg1 where q: "eemit_ethertype 0x8100 cg = Inr (q, cg1)"
    using assms(1) by (auto simp: eemit_vlan_def rbind_eq_Inr)
  obtain off where off: "link_ether_proto_offset (ecg_link cg) = Some off" using guard_ether [OF q] by auto
  show ?thesis
  proof (cases vid)
    case None
    then show ?thesis
      using assms(1) q eemit_ethertype_ok [OF q assms(2)] by (auto simp: eemit_vlan_def)
  next
    case (Some v)
    show ?thesis
      by (rule eguarded_test [OF q assms(2) _ computes_ops(1), where off = "off + 2" and sz = Half and k = "ucast v" and m1 = "0x0fff"])
        (use assms(1) q ether_at [OF off] in \<open>auto simp: eemit_vlan_def rbind_eq_Inr guard_link [OF q] off Some unwrap_or_def
          test_slots_def test_code_def\<close>)
  qed
qed

lemma eemit_pppoe_session_ok:
  assumes "eemit_pppoe_session sid cg = Inr (p, cg')" "fits_xdp pkt"
  shows "eemits pkt host cg p cg' (eready pkt r6) (eprim_sem (ecg_link cg) (PppoeSession sid) pkt)"
proof -
  obtain q cg1 where q: "eemit_ethertype 0x8864 cg = Inr (q, cg1)"
    using assms(1) by (auto simp: eemit_pppoe_session_def rbind_eq_Inr)
  obtain off where off: "link_ether_proto_offset (ecg_link cg) = Some off" using guard_ether [OF q] by auto
  show ?thesis
  proof (cases sid)
    case None
    then show ?thesis
      using assms(1) q eemit_ethertype_ok [OF q assms(2)] by (auto simp: eemit_pppoe_session_def)
  next
    case (Some v)
    show ?thesis
      by (rule eguarded_test [OF q assms(2) _ computes_Nil, where off = "off + 4" and sz = Half and k = "ucast v"])
        (use assms(1) q ether_at [OF off] in \<open>auto simp: eemit_pppoe_session_def rbind_eq_Inr guard_link [OF q] off Some
          unwrap_or_def test_slots_def test_code_def\<close>)
  qed
qed

text \<open>A field that has one of two values: the first is taken over the second test.\<close>

lemma test_two:
  assumes "fits_xdp pkt" "unat off < 32768"
  shows "etests pkt host lo (eload_code sz off @ [jeq_imm R4 a 1, jne_imm R4 b 0]) []
    [lo + 2, lo + length (eload_code sz off) + 1] (eready pkt r6)
    (field pkt sz (unat off) (\<lambda>v. eq64 v a \<or> eq64 v b))"
proof (rule etests_wp)
  fix g assume g: "eready pkt r6 g"
  show "ewp pkt host lo (eload_code sz off @ [jeq_imm R4 a 1, jne_imm R4 b 0])
      (epend [] [lo + 2, lo + length (eload_code sz off) + 1])
      (everdict [] (eready pkt r6) (field pkt sz (unat off) (\<lambda>v. eq64 v a \<or> eq64 v b))) g"
    using ewp_load_mid [OF assms computes_Nil g, where F = "[jeq_imm R4 a 1, jne_imm R4 b 0]" and sz = sz and lo = lo]
    by (simp add: epend_def field_def eq64_def ebpf_eval)
qed auto

lemma eemit_mpls_ok:
  assumes "eemit_mpls lbl cg = Inr (p, cg')" "fits_xdp pkt"
  shows "eemits pkt host cg p cg' (eready pkt r6) (eprim_sem (ecg_link cg) (Mpls lbl) pkt)"
proof -
  obtain off where off: "link_ether_proto_offset (ecg_link cg) = Some off"
    using assms(1) by (auto simp: eemit_mpls_def split: option.splits)
  let ?cg = "with_code cg (eload_code Half off @ [jeq_imm R4 0x8847 1, jne_imm R4 0x8848 0])"
  let ?q = "\<lparr>e_success = [], e_failure = [here cg + 2, here cg + 6]\<rparr>"
  have 1: "eemits pkt host cg ?q ?cg (eready pkt r6)
      (field pkt Half (ether_off (ecg_link cg) 0) (\<lambda>v. eq64 v 0x8847 \<or> eq64 v 0x8848))"
    by (rule eemitsI [OF refl]) (use test_two [OF assms(2), of off host "here cg" Half "0x8847" "0x8848" r6] ether_at [OF off] in \<open>simp add: add.commute [of 6]\<close>)
  have res: "eresolve (here cg + 5) (here cg + 7) (with_code cg (eload_code Half off @ [jeq_imm R4 0x8847 0, jne_imm R4 0x8848 0])) =
      Inr c \<longleftrightarrow> c = ?cg" for c
    by (subst eresolve_code) (auto simp: ebpf_eval)
  show ?thesis
  proof (cases lbl)
    case None
    then show ?thesis using assms(1) 1 res by (auto simp: eemit_mpls_def off rbind_eq_Inr add.commute [of _ "here cg"])
  next
    case (Some l)
    have 2: "eemits pkt host ?cg \<lparr>e_success = [], e_failure = test_slots Word_Size [rsh32_imm R4 12] (here ?cg)\<rparr>
        (with_code ?cg (test_code Word_Size (off + 2) [rsh32_imm R4 12] l)) (eready pkt r6)
        (field pkt Word_Size (ether_off (ecg_link cg) 0 + 2) (\<lambda>v. eq64 (drop_bit 12 v) l))"
      using eemits_test [OF assms(2) _ computes_ops(2), of "off + 2" 12 host ?cg Word_Size l r6] ether_at [OF off] by simp
    show ?thesis
      using eemits_seq [OF 1 _ 2, of p] assms(1) Some res
      by (auto simp: eemit_mpls_def off rbind_eq_Inr test_code_def test_slots_def add.commute [of _ "here cg"])
  qed
qed

end
