(* ===== verification/Ebpf_Bytes.thy ===== *)
theory Ebpf_Bytes
  imports Ebpf_Fields
begin

text \<open>
  Comparisons of the value in R4, packet lengths and byte accesses, and accesses through the transport
  pointer in R6.
\<close>

section \<open>Comparisons\<close>

fun cmp_code :: "cmp_op \<Rightarrow> u32 \<Rightarrow> einsn list" where
  "cmp_code CmpEq v = [jne_imm R4 v 0]"
| "cmp_code CmpNe v = [jeq_imm R4 v 0]"
| "cmp_code CmpGt v = [jle_imm R4 v 0]"
| "cmp_code CmpGe v = [jlt_imm R4 v 0]"
| "cmp_code CmpLt v = [jge_imm R4 v 0]"
| "cmp_code CmpLe v = [jgt_imm R4 v 0]"
| "cmp_code CmpBitAnd v = [jset_imm R4 v 1, e_ja 0]"

text \<open>The last instruction of a comparison is its failure jump.\<close>

lemma eemit_cmp_code:
  "eemit_cmp opr v cg = Inr (p, cg') \<longleftrightarrow>
     p = \<lparr>e_success = [], e_failure = [here cg + length (cmp_code opr v) - 1]\<rparr> \<and> cg' = with_code cg (cmp_code opr v)"
proof (cases "opr = CmpBitAnd")
  case True
  have "eresolve (here cg) (here cg + 2) (with_code cg ([] @ jset_imm R4 v 0 # [e_ja 0])) = Inr c \<longleftrightarrow>
      c = with_code cg [jset_imm R4 v 1, e_ja 0]" for c
    by (subst eresolve_code) (auto simp: ebpf_eval)
  then show ?thesis using True by (auto simp: rbind_eq_Inr)
qed (cases opr; auto)

lemma ewp_cmp:
  assumes "g 4 = Some a" "L (lo + length (cmp_code opr v) - 1) = Some EFail" "opr = CmpBitAnd \<Longrightarrow> L lo = None"
  shows "ewp pkt host lo (cmp_code opr v) L (everdict [] I t) g \<longleftrightarrow> I g \<and> t = ecmp_sem opr a (scast v)"
  using assms by (cases opr) (auto simp: ebpf_eval not_less not_le)

section \<open>Lengths\<close>

lemma eemit_len_ok:
  assumes "eemit_len opr v cg = Inr (p, cg')" "fits_xdp pkt"
  shows "eemits pkt host cg p cg' (eready pkt r6) (eprim_sem (ecg_link cg) (Len opr v) pkt)"
proof -
  let ?F = "[mov64_reg R4 R3, sub64_reg R4 R2] @ cmp_code opr v"
  let ?fl = "[here cg + 2 + length (cmp_code opr v) - 1]"
  have "cg' = with_code cg ?F" "e_success p = []" "e_failure p = ?fl"
    using assms(1) by (auto simp: eemit_len_def eemit_cmp_code)
  moreover have "etests pkt host (here cg) ?F [] ?fl (eready pkt r6) (ecmp_sem opr (of_nat (length pkt)) (scast v))"
  proof (rule etests_wp)
    fix g assume g: "eready pkt r6 g"
    have len: "length (cmp_code opr v) \<ge> 1" "opr = CmpBitAnd \<Longrightarrow> length (cmp_code opr v) = 2" by (cases opr; simp)+
    show "ewp pkt host (here cg) ?F (epend [] ?fl) (everdict [] (eready pkt r6) (ecmp_sem opr (of_nat (length pkt)) (scast v))) g"
      using g len by (auto simp: ewp_cmp epend_def ebpf_eval eready_def bounds_set_def)
  qed (simp, cases opr, auto)
  ultimately show ?thesis by (intro eemitsI) simp_all
qed

section \<open>Arithmetic\<close>

lemma computes_append:
  assumes "computes pkt as f" "computes pkt bs h"
  shows "computes pkt (as @ bs) (h \<circ> f)"
  unfolding computes_def
proof (intro allI impI)
  fix host lo and L :: eslots and Q F a and g :: eregs
  assume g: "g 4 = Some (wide a)" and L: "\<forall>j < length (as @ bs). L (lo + j) = None"
  have "\<forall>j < length as. L (lo + j) = None" "\<forall>j < length bs. L (lo + length as + j) = None"
    using L by (auto simp: add.assoc)
  then show "ewp pkt host lo ((as @ bs) @ F) L Q g =
      ewp pkt host (lo + length (as @ bs)) F L Q (g(4 \<mapsto> wide ((h \<circ> f) a)))"
    using assms g by (simp add: computes_def add.assoc)
qed

lemma ebpf_alu32_computes:
  assumes "ebpf_alu32 opr R4 v = Inr i" "shift_ok (opr, v)"
  shows "computes pkt [i] (\<lambda>a. arith_sem opr a v)"
proof -
  have "v AND 31 = v" if "v < 32"
  proof -
    have "(31 :: u32) = mask 5" by (simp add: mask_eq_exp_minus_1)
    moreover have "v AND mask 5 = v" using that by (intro less_mask_eq) simp
    ultimately show ?thesis by (simp only:)
  qed
  with assms show ?thesis
    by (cases opr) (auto intro!: computes_one simp: ebpf_eval split: if_splits)
qed

lemma eemit_alu_ops_code:
  "eemit_alu_ops ops cg = Inr cg' \<Longrightarrow>
   \<exists>mid. cg' = with_code cg mid \<and>
     (list_all shift_ok ops \<longrightarrow> computes pkt mid (\<lambda>v. foldl (\<lambda>a (opr, k). arith_sem opr a k) v ops))"
proof (induction ops arbitrary: cg)
  case Nil
  then show ?case using computes_Nil by (intro exI [of _ "[]"]) (simp add: with_code_Nil id_def)
next
  case (Cons op ops)
  obtain opr v i where op: "op = (opr, v)" and i: "ebpf_alu32 opr R4 v = Inr i"
    and rest: "eemit_alu_ops ops (with_code cg [i]) = Inr cg'"
    using Cons.prems by (cases op) (auto simp: rbind_eq_Inr)
  obtain mid where mid: "cg' = with_code cg (i # mid)"
    "list_all shift_ok ops \<longrightarrow> computes pkt mid (\<lambda>v. foldl (\<lambda>a (opr, k). arith_sem opr a k) v ops)"
    using Cons.IH [OF rest] by auto
  have "computes pkt ([i] @ mid) ((\<lambda>v. foldl (\<lambda>a (opr, k). arith_sem opr a k) v ops) \<circ> (\<lambda>a. arith_sem opr a v))"
    if "list_all shift_ok (op # ops)"
    using computes_append [OF ebpf_alu32_computes [OF i]] mid(2) that op by simp
  with mid(1) show ?case by (intro exI [of _ "i # mid"]) (simp add: op comp_def)
qed

section \<open>Byte accesses at a fixed offset\<close>

lemma cmp_last: "0 < length (cmp_code opr v)" "opr = CmpBitAnd \<Longrightarrow> length (cmp_code opr v) = 2"
  by (cases opr; simp)+

lemma test_bytes:
  assumes "fits_xdp pkt" "unat off < 32768" "computes pkt mid f"
  shows "etests pkt host lo (eload_code sz off @ mid @ cmp_code opr v) []
    [lo + 2, lo + length (eload_code sz off @ mid @ cmp_code opr v) - 1] (eready pkt r6)
    (field pkt sz (unat off) (\<lambda>x. ecmp_sem opr (wide (f x)) (scast v)))"
    (is "etests _ _ _ ?F [] ?fl _ ?t")
proof (rule etests_wp)
  fix g assume g: "eready pkt r6 g"
  show "ewp pkt host lo ?F (epend [] ?fl) (everdict [] (eready pkt r6) ?t) g"
  proof (rule ewp_load_mid [OF assms g, where x = EFail])
    fix h assume h: "unat off + size_bytes sz \<le> length pkt" "h 4 = Some (wide (f (sized pkt sz (unat off))))" "eready pkt r6 h"
    have "lo + length (eload_code sz off) + length mid + length (cmp_code opr v) - 1 =
        lo + length (eload_code sz off @ mid @ cmp_code opr v) - 1" by simp
    then show "ewp pkt host (lo + length (eload_code sz off) + length mid) (cmp_code opr v) (epend [] ?fl)
        (everdict [] (eready pkt r6) ?t) h"
      using cmp_last(2) [of opr v] h by (subst ewp_cmp) (auto simp: epend_def field_def)
  qed (cases opr; auto simp: epend_def field_def)+
qed (use cmp_last(1) [of opr v] in auto)

lemma emit_load_sized_code: "emit_load_sized sz off cg = (here cg + 2, with_code cg (eload_code sz off))"
  by (cases sz) simp_all

lemma fixed_access_ok:
  assumes "rbind (eemit_alu_ops (alu_ops ba) (with_code cg (eload_code (ba_size ba) off))) (\<lambda>cg1.
       rbind (eemit_cmp (ba_op ba) v cg1) (\<lambda>(p, cg2). Inr (p\<lparr>e_failure := (here cg + 2) # e_failure p\<rparr>, cg2))) = Inr (p, cg')"
    and "fits_xdp pkt" "unat off < 32768" "list_all shift_ok (alu_ops ba)"
  shows "eemits pkt host cg p cg' (eready pkt r6) (field pkt (ba_size ba) (unat off) (eba_test ba v))"
proof -
  obtain mid where mid: "eemit_alu_ops (alu_ops ba) (with_code cg (eload_code (ba_size ba) off)) =
      Inr (with_code cg (eload_code (ba_size ba) off @ mid))"
    "computes pkt mid (\<lambda>v. foldl (\<lambda>a (opr, k). arith_sem opr a k) v (alu_ops ba))"
    using assms(1,4) eemit_alu_ops_code [where pkt = pkt] by (force simp: rbind_eq_Inr)
  let ?F = "eload_code (ba_size ba) off @ mid @ cmp_code (ba_op ba) v"
  have "cg' = with_code cg ?F" "e_success p = []" "e_failure p = [here cg + 2, here cg + length ?F - 1]"
    using assms(1) mid(1) by (auto simp: rbind_eq_Inr eemit_cmp_code add.assoc simp del: length_load_code)
  moreover have "field pkt (ba_size ba) (unat off) (eba_test ba v) =
      field pkt (ba_size ba) (unat off) (\<lambda>x. ecmp_sem (ba_op ba)
        (wide (foldl (\<lambda>a (opr, k). arith_sem opr a k) x (alu_ops ba))) (scast v))"
    by (simp add: field_def eba_test_def)
  ultimately show ?thesis
    using test_bytes [OF assms(2,3) mid(2), of host "here cg" "ba_size ba" "ba_op ba" v r6]
    by (intro eemitsI [of _ _ ?F]) (simp_all only:)
qed

section \<open>Accesses through the transport pointer\<close>

definition ihl_code :: "u32 \<Rightarrow> einsn list" where
  "ihl_code off = [and32_imm R4 0x0f, lsh32_imm R4 2, mov64_reg R6 R2, add64_imm R6 off, add64_reg R6 R4]"

definition ptr_check :: "u32 \<Rightarrow> einsn list" where
  "ptr_check e = [mov64_reg R5 R6, add64_imm R5 e, jgt_reg R5 R3 0]"

lemma push_ptr_codes [simp]:
  "push_ihl_ptr off cg = with_code cg (ihl_code off)"
  "push_ptr_check e cg = (here cg + 2, with_code cg (ptr_check e))"
  by (simp_all add: push_ihl_ptr_def push_ptr_check_def ihl_code_def ptr_check_def)

abbreviation at_pkt :: "nat \<Rightarrow> u64" where
  "at_pkt n \<equiv> PKT_BASE + of_nat n"

lemma ewp_ihl:
  assumes "bounds_set pkt g" "g 4 = Some (wide a)" "unat off < 32768" "\<forall>j < 5. L (lo + j) = None"
  shows "ewp pkt host lo (ihl_code off @ F) L Q g \<longleftrightarrow>
    ewp pkt host (lo + 5) F L Q (g(4 \<mapsto> wide (4 * (a AND 0xf)), 6 \<mapsto> at_pkt (unat off + unat (4 * (a AND 0xf)))))"
proof -
  have "(scast off :: u64) = of_nat (unat off)" using assms(3) by (intro scast_small) simp
  moreover have "push_bit 2 (a AND 15) = 4 * (a AND 15)" by (simp add: push_bit_eq_mult)
  moreover have "L lo = None" "L (lo + 1) = None" "L (lo + 2) = None" "L (lo + 3) = None" "L (lo + 4) = None"
    using assms(4) by (simp_all add: numeral_eq_Suc All_less_Suc2)
  ultimately show ?thesis
    using assms(1,2) by (simp add: ihl_code_def ebpf_eval bounds_set_def add.assoc) (simp add: numeral_eq_Suc)
qed

lemma ewp_ptr_check:
  assumes "fits_xdp pkt" "g 3 = Some (at_pkt (length pkt))" "g 6 = Some (at_pkt h)" "scast e = (of_nat n :: u64)"
    and "h + n \<le> 0x10000000" "L lo = None" "L (lo + 1) = None" "L (lo + 2) = Some x"
  shows "ewp pkt host lo (ptr_check e @ F) L Q g \<longleftrightarrow>
    (let g' = g(5 \<mapsto> at_pkt (h + n)) in if h + n \<le> length pkt then ewp pkt host (lo + 3) F L Q g' else Q (Some x) g')"
  using assms past_end [OF assms(1,5)]
  by (simp add: ptr_check_def ebpf_eval Let_def numeral_3_eq_3 add.assoc)

lemma nibble_bound: "unat (4 * (a AND 0xf) :: u32) \<le> 60"
proof -
  have "unat (a AND 0xf) \<le> 15" using word_and_le1 [of a "0xf"] by (simp add: word_le_nat_alt)
  then show ?thesis by (simp add: unat_word_ariths)
qed

definition v4_ptr :: "u32 \<Rightarrow> u32 \<Rightarrow> einsn list" where
  "v4_ptr off e = eload_code Byte off @ ihl_code off @ ptr_check e"

lemma length_v4_ptr [simp]: "length (v4_ptr off e) = 12"
  by (simp add: v4_ptr_def ihl_code_def ptr_check_def)

lemma ewp_v4_ptr:
  assumes "fits_xdp pkt" "bounds_set pkt g" "unat off < 32768" "scast e = (of_nat n :: u64)" "n \<le> 40000"
    and L: "\<And>j. j < 12 \<Longrightarrow> L (lo + j) = (if j = 2 \<or> j = 11 then Some EFail else None)"
    and h: "h = unat off + unat (4 * (ldb pkt (unat off) AND 0xf))"
    and in_pkt: "\<And>g'. unat off < length pkt \<Longrightarrow> h + n \<le> length pkt \<Longrightarrow> bounds_set pkt g' \<Longrightarrow> g' 6 = Some (at_pkt h) \<Longrightarrow>
      ewp pkt host (lo + 12) F L Q g'"
    and out: "\<And>g'. \<not> (unat off < length pkt \<and> h + n \<le> length pkt) \<Longrightarrow> bounds_set pkt g' \<Longrightarrow> Q (Some EFail) g'"
  shows "ewp pkt host lo (v4_ptr off e @ F) L Q g"
proof -
  let ?a = "ldb pkt (unat off)"
  let ?g1 = "g(5 \<mapsto> at_pkt (unat off + 1), 4 \<mapsto> wide ?a)"
  let ?g2 = "?g1(4 \<mapsto> wide (4 * (?a AND 0xf)), 6 \<mapsto> at_pkt h)"
  have keep: "bounds_set pkt (g'(5 \<mapsto> a))" "bounds_set pkt (g'(4 \<mapsto> a))" "bounds_set pkt (g'(6 \<mapsto> a))"
    if "bounds_set pkt g'" for g' a using that by (simp_all add: bounds_set_def)
  have b: "bounds_set pkt ?g1" "bounds_set pkt ?g2" using assms(2) by (simp_all add: keep)
  have L': "L lo = None" "L (lo + 1) = None" "L (lo + 2) = Some EFail" "L (lo + 3) = None" using L [of 0] L [of 1] L [of 2] L [of 3] by simp_all
  have 1: "ewp pkt host lo (v4_ptr off e @ F) L Q g \<longleftrightarrow>
      (if unat off + 1 \<le> length pkt then ewp pkt host (lo + 4) (ihl_code off @ ptr_check e @ F) L Q ?g1
       else Q (Some EFail) (g(5 \<mapsto> at_pkt (unat off + 1))))"
    unfolding v4_ptr_def append_assoc
    by (subst ewp_load [OF assms(1-3), where L = L, OF L']) (simp_all add: Let_def)
  have "\<forall>j < 5. L (lo + 4 + j) = None" using L by (simp add: add.assoc)
  then have 2: "ewp pkt host (lo + 4) (ihl_code off @ ptr_check e @ F) L Q ?g1 \<longleftrightarrow>
      ewp pkt host (lo + 9) (ptr_check e @ F) L Q ?g2"
    using ewp_ihl [OF b(1), of ?a off L "lo + 4"] assms(3) by (simp add: h add.assoc)
  have "h + n \<le> 0x10000000" using assms(3,5) nibble_bound [of ?a] by (simp add: h)
  moreover have "?g2 3 = Some (at_pkt (length pkt))" "?g2 6 = Some (at_pkt h)" using b(2) by (simp_all add: bounds_set_def)
  moreover have "L (lo + 9) = None" "L (lo + 9 + 1) = None" "L (lo + 9 + 2) = Some EFail" using L [of 9] L [of 10] L [of 11]
    by (simp_all add: add.assoc add.commute [of _ lo])
  ultimately have 3: "ewp pkt host (lo + 9) (ptr_check e @ F) L Q ?g2 \<longleftrightarrow>
      (if h + n \<le> length pkt then ewp pkt host (lo + 9 + 3) F L Q (?g2(5 \<mapsto> at_pkt (h + n)))
       else Q (Some EFail) (?g2(5 \<mapsto> at_pkt (h + n))))"
    using ewp_ptr_check [OF assms(1) _ _ assms(4), where L = L and lo = "lo + 9"] by (simp only: Let_def)
  have "ewp pkt host (lo + 9 + 3) F L Q (?g2(5 \<mapsto> at_pkt (h + n)))" if "unat off < length pkt" "h + n \<le> length pkt"
    using in_pkt [OF that keep(1) [OF b(2)]] by (simp add: add.assoc)
  then show ?thesis
    unfolding 1 2 3 using out keep(1) [OF assms(2)] keep(1) [OF b(2)] by auto
qed

lemma wide_end: "unat (off :: u32) < 32768 \<Longrightarrow> (scast (off + esize_bytes sz) :: u64) = of_nat (unat off + size_bytes sz)"
  using scast_end [of off "size_bytes sz"] by (cases sz) simp_all

definition trans_code :: "u32 \<Rightarrow> u32 \<Rightarrow> access_size \<Rightarrow> einsn list \<Rightarrow> cmp_op \<Rightarrow> u32 \<Rightarrow> einsn list" where
  "trans_code off rel sz mid opr v = v4_ptr off (rel + esize_bytes sz) @ load_at sz R6 (ucast rel) @ mid @ cmp_code opr v"

lemma test_trans_bytes:
  fixes opr v sz
  assumes "fits_xdp pkt" "unat off < 32768" "unat rel < 32768" "computes pkt mid f"
  defines "F \<equiv> trans_code off rel sz mid opr v"
  shows "etests pkt host lo F [] [lo + length F - 1, lo + 2, lo + 11] (bounds_set pkt)
    (unat off < length pkt \<and>
     field pkt sz (unat off + unat (4 * (ldb pkt (unat off) AND 0xf)) + unat rel) (\<lambda>x. ecmp_sem opr (wide (f x)) (scast v)))"
    (is "etests _ _ _ _ [] ?fl _ ?t")
proof (rule etests_wp)
  let ?L = "epend [] ?fl" and ?h = "unat off + unat (4 * (ldb pkt (unat off) AND 0xf))"
  have F_eq: "F = v4_ptr off (rel + esize_bytes sz) @ load_at sz R6 (ucast rel) @ mid @ cmp_code opr v"
    by (simp add: F_def trans_code_def)
  then have len: "lo + 12 + length (load_at sz R6 (ucast rel)) + length mid + length (cmp_code opr v) = lo + length F"
    by simp
  have last: "lo + length F - 1 \<noteq> lo + j" if "j < 12 + length (load_at sz R6 (ucast rel)) + length mid" for j
    using that len cmp_last(1) [of opr v] by linarith
  fix g assume g: "bounds_set pkt g"
  show "ewp pkt host lo F ?L (everdict [] (bounds_set pkt) ?t) g"
  proof (subst F_eq, rule ewp_v4_ptr [OF assms(1) g assms(2) wide_end [OF assms(3)]])
    show "?L (lo + j) = (if j = 2 \<or> j = 11 then Some EFail else None)" if "j < 12" for j
      using last [of j] that by (auto simp: epend_def)
    fix g' assume b: "unat off < length pkt" "?h + (unat rel + size_bytes sz) \<le> length pkt" "bounds_set pkt g'" "g' 6 = Some (at_pkt ?h)"
    let ?v = "sized pkt sz (?h + unat rel)" and ?lo = "lo + 12 + length (load_at sz R6 (ucast rel))"
    have "at_pkt ?h + scast (ucast rel :: i16) = at_pkt (?h + unat rel)" by (simp add: scast_off [OF assms(3)])
    moreover have "?L (lo + 12 + j) = None" if "j < length (load_at sz R6 (ucast rel))" for j
      using last [of "12 + j"] that by (auto simp: epend_def)
    ultimately have "ewp pkt host (lo + 12) (load_at sz R6 (ucast rel) @ mid @ cmp_code opr v) ?L (everdict [] (bounds_set pkt) ?t) g' \<longleftrightarrow>
        ewp pkt host ?lo (mid @ cmp_code opr v) ?L (everdict [] (bounds_set pkt) ?t) (g'(4 \<mapsto> wide ?v))"
      using b by (intro ewp_load_at [OF assms(1)]) (simp_all add: R6_def add.assoc)
    also have "\<dots> \<longleftrightarrow> ewp pkt host (?lo + length mid) (cmp_code opr v) ?L (everdict [] (bounds_set pkt) ?t) (g'(4 \<mapsto> wide (f ?v)))"
    proof -
      have "?L (?lo + j) = None" if "j < length mid" for j
        using last [of "12 + length (load_at sz R6 (ucast rel)) + j", THEN not_sym] that
        by (auto simp: epend_def add.assoc simp del: length_load_at)
      then show ?thesis using assms(4) by (simp add: computes_def)
    qed
    also have "\<dots>"
    proof (subst ewp_cmp)
      show "?L (?lo + length mid + length (cmp_code opr v) - 1) = Some EFail"
        unfolding len by (simp add: epend_def)
      show "?L (?lo + length mid) = None" if "opr = CmpBitAnd"
        using len cmp_last(2) [OF that, of v] by (auto simp: epend_def)
    qed (use b in \<open>simp_all add: bounds_set_def field_def add.assoc\<close>)
    finally show "ewp pkt host (lo + 12) (load_at sz R6 (ucast rel) @ mid @ cmp_code opr v) ?L (everdict [] (bounds_set pkt) ?t) g'" .
  qed (use assms(3) in \<open>cases sz; auto simp: field_def add.assoc\<close>)+
qed (use cmp_last(1) [of opr v] in \<open>auto simp: F_def trans_code_def\<close>)

section \<open>Byte accesses\<close>

lemma push_ldx_codes [simp]: "push_ldx_sized sz off cg = with_code cg (load_at sz R6 off)"
  by (cases sz) (simp_all add: push_ldx_h_be_def push_ldx_w_be_def)

lemma trans_access_ok:
  assumes "emit_trans_byte_access ba v cg = Inr (p, cg')" "fits_xdp pkt" "unat (ba_offset ba) < 32768"
    and "list_all shift_ok (alu_ops ba)"
  shows "eemits pkt host cg p cg' (bounds_set pkt) (net_off (ecg_link cg) 0 < length pkt \<and>
    field pkt (ba_size ba) (net_off (ecg_link cg) 0 + unat (ihl_bytes (ecg_link cg) 0 pkt) + unat (ba_offset ba)) (eba_test ba v))"
proof -
  let ?off = "link_net_offset (ecg_link cg)" and ?rel = "ba_offset ba"
  let ?A = "v4_ptr ?off (?rel + esize_bytes (ba_size ba)) @ load_at (ba_size ba) R6 (ucast ?rel)"
  let ?f = "\<lambda>v. foldl (\<lambda>a (opr, k). arith_sem opr a k) v (alu_ops ba)"
  obtain c where c: "eemit_alu_ops (alu_ops ba) (with_code cg ?A) = Inr c"
    using assms(1) by (auto simp: emit_trans_byte_access_def rbind_eq_Inr v4_ptr_def Let_def)
  then obtain mid where mid: "eemit_alu_ops (alu_ops ba) (with_code cg ?A) = Inr (with_code cg (?A @ mid))" "computes pkt mid ?f"
    using assms(4) eemit_alu_ops_code [OF c, of pkt] by auto
  let ?F = "trans_code ?off ?rel (ba_size ba) mid (ba_op ba) v"
  have "length (ihl_code ?off) = 5" by (simp add: ihl_code_def)
  then obtain q where q: "eemit_cmp (ba_op ba) v (with_code cg (?A @ mid)) = Inr (q, cg')"
    "p = q\<lparr>e_failure := e_failure q @ [here cg + 2, here cg + 11]\<rparr>"
    using assms(1) mid(1) by (auto simp: emit_trans_byte_access_def rbind_eq_Inr v4_ptr_def Let_def add.commute [of _ "here cg"])
  then have F: "cg' = with_code cg ?F" "e_success p = []" "e_failure p = [here cg + length ?F - 1, here cg + 2, here cg + 11]"
    by (simp_all add: eemit_cmp_code trans_code_def add.assoc)
  have "unat ?off < 32768" using net_at(1,3) [of "ecg_link cg"] by simp
  from test_trans_bytes [OF assms(2) this assms(3) mid(2), of host "here cg" "ba_size ba" "ba_op ba" v]
  show ?thesis using F by (intro eemitsI [of _ _ ?F]) (simp_all add: net_at(1) ihl_bytes_def field_def eba_test_def)
qed

lemma with_code_inject: "with_code cg F = with_code cg G \<longleftrightarrow> F = G"
  by (metis with_code_simps(1) same_append_eq)

lemma eemits_all:
  assumes "\<And>r6. eemits pkt host cg p cg' (eready pkt r6) t"
  shows "eemits pkt host cg p cg' (bounds_set pkt) t"
proof -
  obtain F where F: "cg' = with_code cg F" using assms by (auto simp: eemits_def)
  have "etests pkt host (here cg) F (e_success p) (e_failure p) (eready pkt r6) t" for r6
    using assms [of r6] F by (auto simp: eemits_def with_code_inject)
  then show ?thesis using F etests_all by (auto intro: eemitsI)
qed

lemma uint_small:
  "uint (w :: u32) < 32768 \<longleftrightarrow> unat w < 32768" "uint w + int n < 32768 \<longleftrightarrow> unat w + n < 32768"
  unfolding uint_nat by (simp_all only: of_nat_add [symmetric] of_nat_less_iff [where 'a = int, symmetric] of_nat_numeral)

lemma eemit_byte_access_ok:
  assumes "eemit_byte_access ba cg = Inr (p, cg')" "fits_xdp pkt" "encodable (ecg_link cg) (ByteAccess ba)"
  shows "eemits pkt host cg p cg' (bounds_set pkt) (eprim_sem (ecg_link cg) (ByteAccess ba) pkt)"
proof -
  obtain v where v: "ba_rhs ba = Const v"
    using assms(1) by (cases "ba_rhs ba") (simp_all add: eemit_byte_access_def)
  note fixed = fixed_access_ok [where ba = ba and cg = cg and v = v, OF _ assms(2)]
  show ?thesis
  proof (cases "ba_layer ba")
    case Raw
    show ?thesis
      using assms(1,3) Raw v fixed [of "ba_offset ba" p cg' host]
      by (intro eemits_all) (simp add: eemit_byte_access_def emit_load_sized_code eba_sem_def uint_small)
  next
    case Net_Layer
    have "unat (link_net_offset (ecg_link cg) + ba_offset ba) = net_off (ecg_link cg) 0 + unat (ba_offset ba)"
      "unat (link_net_offset (ecg_link cg) + ba_offset ba) < 32768"
      using assms(3) Net_Layer net_at(1) [of "ecg_link cg"] by (simp_all add: unat_word_ariths uint_small)
    then show ?thesis
      using assms(1,3) Net_Layer v fixed [of "link_net_offset (ecg_link cg) + ba_offset ba" p cg' host]
      by (intro eemits_all) (simp add: eemit_byte_access_def emit_load_sized_code eba_sem_def)
  next
    case Trans
    then show ?thesis
      using assms v trans_access_ok [of ba v cg p cg' pkt host] by (simp add: eemit_byte_access_def eba_sem_def uint_small)
  qed
qed

lemma eemit_ether_multicast_ok:
  assumes "eemit_ether_multicast cg = Inr (p, cg')" "fits_xdp pkt"
  shows "eemits pkt host cg p cg' (eready pkt r6) (eprim_sem (ecg_link cg) EtherMulticast pkt)"
proof -
  let ?F = "eload_code Byte 0 @ cmp_code CmpBitAnd 1"
  have "eresolve (here cg + 4) (here cg + 6) (with_code cg (eload_code Byte 0 @ [jset_imm R4 1 0, e_ja 0])) = Inr c \<longleftrightarrow>
      c = with_code cg ?F" for c
    by (subst eresolve_code) (auto simp: ebpf_eval)
  then have p: "cg' = with_code cg ?F" "e_success p = []" "e_failure p = [here cg + 2, here cg + 5]"
    using assms(1) by (auto simp: eemit_ether_multicast_def rbind_eq_Inr add.commute [of _ "here cg"] split: if_splits)
  have "field pkt Byte 0 (\<lambda>x. ecmp_sem CmpBitAnd (wide x) (scast (1 :: u32))) \<longleftrightarrow> pkt \<noteq> [] \<and> bit (pkt_byte pkt 0) 0"
  proof -
    have "odd (ucast b :: u64) \<longleftrightarrow> bit b 0" for b :: u8 by (simp add: bit_simps flip: bit_0)
    then show ?thesis by (auto simp: field_def ldb_def wide_byte Suc_le_eq and_one_eq simp flip: odd_iff_mod_2_eq_one)
  qed
  with test_bytes [OF assms(2) _ computes_Nil, of 0 host "here cg" Byte CmpBitAnd 1 r6] p show ?thesis
    by (intro eemitsI [OF p(1)]) (simp add: add.commute [of _ "here cg"])
qed

end
