(* ===== verification/Ebpf_Ports.thy ===== *)
theory Ebpf_Ports
  imports Ebpf_Bytes
begin

text \<open>
  Transport protocols over IPv4 and IPv6 and the port tests behind them. The generated code forks on the
  ethertype and joins again; the ports are read through the transport pointer the prerequisites leave in R6.
\<close>

section \<open>Fragments that prepare registers\<close>

text \<open>Falls through with \<open>J\<close> when the condition holds, and fails with \<open>I\<close> otherwise.\<close>

definition eleads :: "packet \<Rightarrow> endian \<Rightarrow> nat \<Rightarrow> einsn list \<Rightarrow> nat list \<Rightarrow> (eregs \<Rightarrow> bool) \<Rightarrow> (eregs \<Rightarrow> bool) \<Rightarrow> bool \<Rightarrow> bool" where
  "eleads pkt host lo F fl I J t \<longleftrightarrow>
     efrag pkt host lo F (epend [] fl) I
       (\<lambda>l g. case l of None \<Rightarrow> t \<and> J g | Some EFail \<Rightarrow> \<not> t \<and> I g | Some ESucc \<Rightarrow> False | Some EAux \<Rightarrow> False)"

lemma eleads_etests: "eleads pkt host lo F fl I I t \<longleftrightarrow> etests pkt host lo F [] fl I t"
proof -
  have "(\<lambda>l g. case l of None \<Rightarrow> t \<and> I g | Some EFail \<Rightarrow> \<not> t \<and> I g | Some ESucc \<Rightarrow> False | Some EAux \<Rightarrow> False) =
      everdict [] I t"
    by (auto simp: fun_eq_iff everdict_def split: option.split exit.split)
  then show ?thesis by (simp add: eleads_def etests_def)
qed

lemma eleads_range: "eleads pkt host lo F fl I J t \<Longrightarrow> p \<in> set fl \<Longrightarrow> lo \<le> p \<and> p < lo + length F"
  unfolding eleads_def by (rule efrag_range [of _ _ _ _ "epend [] fl"]) (auto simp: epend_def)

lemma epend_append:
  "(\<And>p. p \<in> set fl \<Longrightarrow> p < m) \<Longrightarrow> (\<And>p. p \<in> set su \<union> set gl \<Longrightarrow> m \<le> p) \<Longrightarrow>
   epend [] fl ++ epend su gl = epend su (fl @ gl)"
  by (fastforce simp: fun_eq_iff map_add_def epend_def)

lemma eleads_then:
  assumes 1: "eleads pkt host lo F fl I J t" and 2: "eleads pkt host (lo + length F) G gl J K u"
    and J: "\<And>g. J g \<Longrightarrow> I g"
  shows "eleads pkt host lo (F @ G) (fl @ gl) I K (t \<and> u)"
proof -
  have add: "epend [] fl ++ epend [] gl = epend [] (fl @ gl)"
    by (rule epend_append [of _ "lo + length F"]) (use eleads_range [OF 1] eleads_range [OF 2] in auto)
  show ?thesis unfolding eleads_def add [symmetric]
    by (rule efrag_seq [OF 1 [unfolded eleads_def] efrag_guard [OF 2 [unfolded eleads_def], of t]])
      (auto split: option.splits exit.splits intro: J)
qed

lemma eleads_tests:
  assumes 1: "eleads pkt host lo F fl I J t" and 2: "etests pkt host (lo + length F) G su gl J u"
    and J: "\<And>g. J g \<Longrightarrow> I g"
  shows "etests pkt host lo (F @ G) su (fl @ gl) I (t \<and> u)"
proof -
  note r = eleads_range [OF 1] etests_range [OF 2]
  have add: "epend [] fl ++ epend su gl = epend su (fl @ gl)"
    by (rule epend_append [of _ "lo + length F"]) (use r in auto)
  have "efrag pkt host lo (F @ G) (epend [] fl ++ epend su gl) I (everdict su I (t \<and> u))"
    by (rule efrag_seq [OF 1 [unfolded eleads_def] efrag_guard [of pkt host "lo + length F" G "epend su gl" J "everdict su J u" t]])
      (use 2 J in \<open>auto simp: etests_def everdict_def split: option.splits exit.splits\<close>)
  moreover have "set su \<inter> set (fl @ gl) = {}" using 2 r by (force simp: etests_def)
  ultimately show ?thesis by (simp add: etests_def add)
qed

section \<open>A fork and its join\<close>

lemma efork:
  assumes A: "efrag pkt host (length C) A (\<lambda>p. if p = j then Some EAux else epend [] fa p) I
      (\<lambda>l g. I g \<and> (case l of None \<Rightarrow> c6 \<and> \<not> c4 | Some EAux \<Rightarrow> c4 \<and> \<not> c6 | Some EFail \<Rightarrow> \<not> c4 \<and> \<not> c6 | Some ESucc \<Rightarrow> False))"
    and B: "eleads pkt host (length C + length A) B fb I J6 t6"
    and r1: "eresolves [j] (length C + length A + length B + 1) (C @ A @ B @ [e_ja 0]) (C @ H)"
    and D: "eleads pkt host (length C + length H) D fd I J4 t4"
    and r2: "eresolves [length C + length A + length B] (length C + length H + length D) (C @ H @ D) (C @ K)"
    and j: "j \<notin> set fa" and J: "\<And>g. c6 \<Longrightarrow> \<not> c4 \<Longrightarrow> J6 g \<Longrightarrow> J g" "\<And>g. c4 \<Longrightarrow> \<not> c6 \<Longrightarrow> J4 g \<Longrightarrow> J g"
  shows "eleads pkt host (length C) K (fa @ fb @ fd) I J (c6 \<and> t6 \<or> c4 \<and> t4)"
proof -
  let ?LA = "\<lambda>p. if p = j then Some EAux else epend [] fa p" and ?ja = "length C + length A + length B"
  let ?LJ = "\<lambda>p. if p = length C + length A + length B then Some ESucc else None"
  have lenH: "length H = length A + length B + 1" using eresolves_length [OF r1] by simp
  have ra: "length C \<le> p \<and> p < length C + length A" if "p \<in> set fa \<or> p = j" for p
    using efrag_range [OF A, of p] that by (auto simp: epend_def)
  have rb: "length C + length A \<le> p \<and> p < ?ja" if "p \<in> set fb" for p using eleads_range [OF B] that by blast
  have rd: "length C + length H \<le> p" if "p \<in> set fd" for p using eleads_range [OF D] that by blast
  let ?Q1 = "\<lambda>l g. case l of None \<Rightarrow> False | Some ESucc \<Rightarrow> c6 \<and> \<not> c4 \<and> t6 \<and> J6 g
    | Some EFail \<Rightarrow> \<not> (c6 \<and> t6 \<or> c4 \<and> t4) \<and> I g | Some EAux \<Rightarrow> c4 \<and> \<not> c6 \<and> I g"
  have ja: "efrag pkt host ?ja [e_ja 0] ?LJ (\<lambda>g. c6 \<and> \<not> c4 \<and> t6 \<and> J6 g) (\<lambda>l g. l = Some ESucc \<and> c6 \<and> \<not> c4 \<and> t6 \<and> J6 g)"
    by (rule efrag_ewp) (auto simp: ebpf_eval split: if_splits)
  have AB: "efrag pkt host (length C) (A @ B) (?LA ++ epend [] fb) I
      (\<lambda>l g. case l of None \<Rightarrow> c6 \<and> \<not> c4 \<and> t6 \<and> J6 g | Some d \<Rightarrow> ?Q1 (Some d) g)"
    by (rule efrag_seq [OF A efrag_guard [OF B [unfolded eleads_def], of "c6 \<and> \<not> c4"]])
      (auto split: option.splits exit.splits)
  have "efrag pkt host (length C) ((A @ B) @ [e_ja 0]) ((?LA ++ epend [] fb) ++ ?LJ) I ?Q1"
    by (rule efrag_seq [OF AB, of "[e_ja 0]" ?LJ "\<lambda>g. c6 \<and> \<not> c4 \<and> t6 \<and> J6 g" "\<lambda>l g. l = Some ESucc \<and> c6 \<and> \<not> c4 \<and> t6 \<and> J6 g"])
      (use ja in \<open>auto simp: add.assoc\<close>)
  moreover have "((?LA ++ epend [] fb) ++ ?LJ) =
      (\<lambda>p. if p = j then Some EAux else if p = ?ja then Some ESucc else epend [] (fa @ fb) p)" (is "_ = ?L1")
    using ra [of j] ra [of ?ja] rb [of ?ja] rb [of j] by (auto simp: fun_eq_iff map_add_def epend_def dest: rb)
  ultimately have 1: "efrag pkt host (length C) (A @ B @ [e_ja 0]) ?L1 I ?Q1" by simp
  have "p \<in> set [j] \<longleftrightarrow> ?L1 p = Some EAux" for p by (auto simp: epend_def)
  from efrag_resolve [OF 1 _ this, of H] r1 have "efrag pkt host (length C) H (eclose EAux ?L1) I
      (\<lambda>l g. case l of None \<Rightarrow> ?Q1 None g \<or> ?Q1 (Some EAux) g | Some d \<Rightarrow> d \<noteq> EAux \<and> ?Q1 (Some d) g)"
    by (simp add: add.assoc)
  moreover have "eclose EAux ?L1 = epend [?ja] (fa @ fb)"
    using ra [of ?ja] rb [of ?ja] ra [of j] rb [of j] j by (auto simp: fun_eq_iff eclose_def epend_def)
  ultimately have 2: "efrag pkt host (length C) H (epend [?ja] (fa @ fb)) I
      (\<lambda>l g. case l of None \<Rightarrow> ?Q1 None g \<or> ?Q1 (Some EAux) g | Some d \<Rightarrow> d \<noteq> EAux \<and> ?Q1 (Some d) g)"
    by (simp only:)
  let ?Q3 = "\<lambda>l g. case l of None \<Rightarrow> c4 \<and> \<not> c6 \<and> t4 \<and> J4 g | Some ESucc \<Rightarrow> c6 \<and> \<not> c4 \<and> t6 \<and> J6 g
    | Some EFail \<Rightarrow> \<not> (c6 \<and> t6 \<or> c4 \<and> t4) \<and> I g | Some EAux \<Rightarrow> False"
  have "efrag pkt host (length C) (H @ D) (epend [?ja] (fa @ fb) ++ epend [] fd) I ?Q3"
    by (rule efrag_seq [OF 2 efrag_guard [OF D [unfolded eleads_def], of "c4 \<and> \<not> c6"]])
      (auto split: option.splits exit.splits)
  moreover have "epend [?ja] (fa @ fb) ++ epend [] fd = epend [?ja] (fa @ fb @ fd)"
    using ra rb rd lenH by (fastforce simp: fun_eq_iff map_add_def epend_def)
  ultimately have 3: "efrag pkt host (length C) (H @ D) (epend [?ja] (fa @ fb @ fd)) I ?Q3" by (simp only:)
  have "p \<in> set [?ja] \<longleftrightarrow> epend [?ja] (fa @ fb @ fd) p = Some ESucc" for p by (auto simp: epend_def)
  from efrag_resolve [OF 3 _ this, of K] r2
  have "efrag pkt host (length C) K (eclose ESucc (epend [?ja] (fa @ fb @ fd))) I
      (\<lambda>l g. case l of None \<Rightarrow> ?Q3 None g \<or> ?Q3 (Some ESucc) g | Some d \<Rightarrow> d \<noteq> ESucc \<and> ?Q3 (Some d) g)"
    by (simp add: add.assoc)
  moreover have "eclose ESucc (epend [?ja] (fa @ fb @ fd)) = epend [] (fa @ fb @ fd)"
    using ra [of ?ja] rb [of ?ja] rd [of ?ja] lenH by (auto simp: fun_eq_iff eclose_def epend_def)
  ultimately show ?thesis
    unfolding eleads_def using J by (auto elim!: efrag_conseq split: option.splits exit.splits)
qed

lemma eresolve_one:
  assumes "eresolve p t (with_code cg F) = Inr c" "here cg \<le> p"
  obtains H where "c = with_code cg H" "eresolves [p] t (ecg_insns cg @ F) (ecg_insns cg @ H)" "length H = length F"
proof -
  let ?D = "(ecg_insns cg @ F)[p := eset p t ((ecg_insns cg @ F) ! p)]"
  have c: "eresolves [p] t (ecg_insns cg @ F) ?D" "c = cg\<lparr>ecg_insns := ?D\<rparr>"
    using assms(1) by (auto simp: eresolve_Inr with_code_def)
  from eresolves_prefix [OF c(1)] assms(2) obtain H where "?D = ecg_insns cg @ H" "length H = length F" by auto
  with c that show thesis by (simp add: with_code_def)
qed

lemma fork_test:
  assumes "fits_xdp pkt" "unat off < 32768"
  shows "efrag pkt host lo (eload_code Half off @ [jeq_imm R4 0x0800 0, jne_imm R4 0x86dd 0])
    (\<lambda>p. if p = lo + 5 then Some EAux else epend [] [lo + 2, lo + 6] p) (bounds_set pkt)
    (\<lambda>l g. bounds_set pkt g \<and>
      (case l of None \<Rightarrow> field pkt Half (unat off) (\<lambda>v. eq64 v 0x86dd) \<and> \<not> field pkt Half (unat off) (\<lambda>v. eq64 v 0x0800)
       | Some EAux \<Rightarrow> field pkt Half (unat off) (\<lambda>v. eq64 v 0x0800) \<and> \<not> field pkt Half (unat off) (\<lambda>v. eq64 v 0x86dd)
       | Some EFail \<Rightarrow> \<not> field pkt Half (unat off) (\<lambda>v. eq64 v 0x0800) \<and> \<not> field pkt Half (unat off) (\<lambda>v. eq64 v 0x86dd)
       | Some ESucc \<Rightarrow> False))" (is "efrag _ _ _ ?F ?L _ ?Q")
proof (rule efrag_ewp)
  fix g assume g: "bounds_set pkt g"
  have "ewp pkt host lo ?F ?L ?Q g \<longleftrightarrow>
      (let n = unat off + size_bytes Half; g' = g(5 \<mapsto> at_pkt n)
       in if n \<le> length pkt
          then ewp pkt host (lo + length (eload_code Half off)) [jeq_imm R4 0x0800 0, jne_imm R4 0x86dd 0] ?L ?Q
            (g'(4 \<mapsto> wide (sized pkt Half (unat off))))
          else ?Q (Some EFail) g')"
    by (rule ewp_load [OF assms(1) g assms(2)]) (auto simp: epend_def)
  then show "ewp pkt host lo ?F ?L ?Q g"
    using g by (auto simp: Let_def epend_def field_def eq64_def eq64_small bounds_set_def ebpf_eval)
qed (auto simp: epend_def split: if_splits)

lemma test_all:
  assumes "fits_xdp pkt" "unat off < 32768" "computes pkt mid f"
  shows "etests pkt host lo (test_code sz off mid k) [] (test_slots sz mid lo) (bounds_set pkt)
    (field pkt sz (unat off) (\<lambda>v. eq64 (f v) k))"
  using etests_all [OF test_load [OF assms]] .

lemma emit_dual_l4_ok:
  assumes "emit_dual_l4 n cg = Inr (p, cg')" "fits_xdp pkt"
  shows "eemits pkt host cg p cg' (bounds_set pkt) (v4_proto (ecg_link cg) ((=) n) pkt \<or> v6_proto (ecg_link cg) ((=) n) pkt)"
proof (cases "link_ether_proto_offset (ecg_link cg)")
  case None
  then show ?thesis
    using assms eemits_all [OF eemit_ip4_l4_ok [OF _ assms(2)], of n cg p cg' host] by (auto simp: emit_dual_l4_def v6_proto_def ether_is_def ether_some)
next
  case (Some off)
  let ?net = "link_net_offset (ecg_link cg)" and ?n = "here cg"
  let ?A = "eload_code Half off @ [jeq_imm R4 0x0800 0, jne_imm R4 0x86dd 0]"
  let ?B = "test_code Byte (?net + 6) [] (ucast n)" and ?D = "test_code Byte (?net + 9) [] (ucast n)"
  have off: "unat off < 32768" "unat (?net + 6) < 32768" "unat (?net + 9) < 32768"
    using ether_at [OF Some] by (simp_all add: net_places)
  obtain c1 c2 where c1: "eresolve (?n + 5) (?n + 13) (with_code cg (?A @ ?B @ [e_ja 0])) = Inr c1"
    and c2: "eresolve (?n + 12) (here c1 + 5) (with_code c1 ?D) = Inr c2" "cg' = c2"
    and p: "p = \<lparr>e_success = [], e_failure = [?n + 2, ?n + 6] @ test_slots Byte [] (?n + 7) @ test_slots Byte [] (here c1)\<rparr>"
    using assms(1) Some by (auto simp: emit_dual_l4_def rbind_eq_Inr Let_def test_slots_def ac_simps)
  obtain H where H: "c1 = with_code cg H" "eresolves [?n + 5] (?n + 13) (ecg_insns cg @ ?A @ ?B @ [e_ja 0]) (ecg_insns cg @ H)"
    "length H = 13"
    using eresolve_one [OF c1] by auto
  have "eresolve (?n + 12) (?n + 18) (with_code cg (H @ ?D)) = Inr c2"
    using c2(1) H(1,3) by (simp add: add.commute [of _ ?n])
  from eresolve_one [OF this] obtain K where K: "c2 = with_code cg K"
    "eresolves [?n + 12] (?n + 18) (ecg_insns cg @ H @ ?D) (ecg_insns cg @ K)" by auto
  let ?c = "\<lambda>et. field pkt Half (unat off) (\<lambda>v. eq64 v et)"
  let ?t = "\<lambda>i. field pkt Byte (unat (?net + i)) (\<lambda>v. eq64 v (ucast n))"
  have "eleads pkt host ?n K ([?n + 2, ?n + 6] @ test_slots Byte [] (?n + 7) @ test_slots Byte [] (?n + 13))
      (bounds_set pkt) (bounds_set pkt) (?c 0x86dd \<and> ?t 6 \<or> ?c 0x0800 \<and> ?t 9)"
    by (rule efork [OF fork_test [OF assms(2) off(1)] _ _ _ _, where B = ?B and H = H and D = ?D])
      (use H K test_all [OF assms(2) off(2) computes_Nil, of host "?n + 7" Byte "ucast n"]
        test_all [OF assms(2) off(3) computes_Nil, of host "?n + 13" Byte "ucast n"]
        in \<open>simp_all add: eleads_etests add.assoc add.commute [of _ "here cg"] del: eresolves.simps\<close>)
  moreover have "(?c 0x86dd \<and> ?t 6 \<or> ?c 0x0800 \<and> ?t 9) \<longleftrightarrow>
      v4_proto (ecg_link cg) ((=) n) pkt \<or> v6_proto (ecg_link cg) ((=) n) pkt"
    using Some ether_at [OF Some]
    by (auto simp: v4_proto_def v6_proto_def ether_is_def field_def net_places proto4_def proto6_def ldb_eq64 add.commute simp del: eq64_consts)
  ultimately show ?thesis
    using K(1) c2(2) p H(1,3) by (intro eemitsI [of _ _ K]) (simp_all add: eleads_etests)
qed

section \<open>Transport protocols of a port test\<close>

lemma emit_l4_proto_check_ok:
  assumes "emit_l4_proto_check off pr p cg = Inr (q, cg')" "unat off < 32768"
  obtains want F fl where "l4set_for pr = Inr want" "cg' = with_code cg F" "q = p\<lparr>e_failure := e_failure p @ fl\<rparr>"
    "\<And>pkt host. fits_xdp pkt \<Longrightarrow> etests pkt host (here cg) F [] fl (bounds_set pkt)
       (unat off < length pkt \<and> l4_contains want (pkt_byte pkt (unat off)))"
proof -
  have known: "eq64 (ldb pkt m) 6 \<longleftrightarrow> 6 = pkt_byte pkt m" "eq64 (ldb pkt m) 17 \<longleftrightarrow> 17 = pkt_byte pkt m"
    "eq64 (ldb pkt m) 132 \<longleftrightarrow> 132 = pkt_byte pkt m" for pkt m
    using ldb_eq64 [of pkt m 6] ldb_eq64 [of pkt m 17] ldb_eq64 [of pkt m 132] by simp_all
  have one: "etests pkt host (here cg) (test_code Byte off [] k) [] (test_slots Byte [] (here cg)) (bounds_set pkt)
      (unat off < length pkt \<and> eq64 (ldb pkt (unat off)) k)" if "fits_xdp pkt" for k pkt host
    using test_all [OF that assms(2) computes_Nil, of host "here cg" Byte k] by (simp add: field_def Suc_le_eq)
  show thesis
  proof (cases pr)
    case None
    let ?F = "eload_code Byte off @ [jeq_imm R4 6 1, jne_imm R4 17 0]" and ?fl = "[here cg + 2, here cg + 5]"
    have "eresolve (here cg + 4) (here cg + 6) (with_code cg (eload_code Byte off @ [jeq_imm R4 6 0, jne_imm R4 17 0])) = Inr c \<longleftrightarrow>
        c = with_code cg ?F" for c
      by (subst eresolve_code) (auto simp: ebpf_eval)
    then have "cg' = with_code cg ?F" "q = p\<lparr>e_failure := e_failure p @ ?fl\<rparr>"
      using assms(1) None by (auto simp: rbind_eq_Inr add.commute [of _ "here cg"])
    moreover have "etests pkt host (here cg) ?F [] ?fl (bounds_set pkt)
        (unat off < length pkt \<and> l4_contains TcpOrUdp (pkt_byte pkt (unat off)))" if "fits_xdp pkt" for pkt host
      using etests_all [OF test_two [OF that assms(2), of host "here cg" Byte 6 17]]
      by (auto simp: field_def known Suc_le_eq eq_commute [of "6 :: u8"] eq_commute [of "17 :: u8"] add.commute [of _ "here cg"])
    ultimately show thesis using that None by simp
  next
    case (Some pr')
    then show thesis
      using assms(1) that one [of _ _ 6] one [of _ _ 17] one [of _ _ 132] by (cases pr') (auto simp: known)
  qed
qed

section \<open>The transport pointer\<close>

definition pointed :: "packet \<Rightarrow> nat \<Rightarrow> eregs \<Rightarrow> bool" where
  "pointed pkt h g \<longleftrightarrow> bounds_set pkt g \<and> g 6 = Some (at_pkt h) \<and> h + 4 \<le> length pkt"

lemma lead_v6:
  assumes "fits_xdp pkt" "unat off < 32768"
  shows "eleads pkt host lo ([mov64_reg R6 R2, add64_imm R6 off] @ ptr_check 4) [lo + 4] (bounds_set pkt)
    (pointed pkt (unat off)) (unat off + 4 \<le> length pkt)"
  unfolding eleads_def
proof (rule efrag_ewp)
  fix g assume g: "bounds_set pkt g"
  let ?Q = "\<lambda>l g. case l of None \<Rightarrow> unat off + 4 \<le> length pkt \<and> pointed pkt (unat off) g
    | Some EFail \<Rightarrow> \<not> unat off + 4 \<le> length pkt \<and> bounds_set pkt g | Some ESucc \<Rightarrow> False | Some EAux \<Rightarrow> False"
  let ?g = "g(6 \<mapsto> at_pkt (unat off))" and ?L = "epend [] [lo + 4]"
  have "(scast off :: u64) = of_nat (unat off)" using assms(2) by (intro scast_small) simp
  moreover have "ewp pkt host (lo + 2) (ptr_check 4 @ []) ?L ?Q ?g \<longleftrightarrow>
      (let g' = ?g(5 \<mapsto> at_pkt (unat off + 4)) in if unat off + 4 \<le> length pkt then ewp pkt host (lo + 2 + 3) [] ?L ?Q g' else ?Q (Some EFail) g')"
    by (rule ewp_ptr_check [OF assms(1)]) (use g assms(2) in \<open>auto simp: bounds_set_def epend_def\<close>)
  ultimately show "ewp pkt host lo ([mov64_reg R6 R2, add64_imm R6 off] @ ptr_check 4) ?L ?Q g"
    using g by (simp add: ebpf_eval bounds_set_def epend_def pointed_def Let_def)
qed (auto simp: epend_def ptr_check_def split: if_splits)

lemma lead_v4:
  assumes "fits_xdp pkt" "unat off < 32768" "h = unat off + unat (4 * (ldb pkt (unat off) AND 0xf))"
  shows "eleads pkt host lo (v4_ptr off 4) [lo + 2, lo + 11] (bounds_set pkt) (pointed pkt h)
    (unat off < length pkt \<and> h + 4 \<le> length pkt)"
  unfolding eleads_def
proof (rule efrag_ewp)
  fix g assume g: "bounds_set pkt g"
  let ?Q = "\<lambda>l g. case l of None \<Rightarrow> (unat off < length pkt \<and> h + 4 \<le> length pkt) \<and> pointed pkt h g
    | Some EFail \<Rightarrow> \<not> (unat off < length pkt \<and> h + 4 \<le> length pkt) \<and> bounds_set pkt g | Some ESucc \<Rightarrow> False | Some EAux \<Rightarrow> False"
  have "ewp pkt host lo (v4_ptr off 4 @ []) (epend [] [lo + 2, lo + 11]) ?Q g"
    by (rule ewp_v4_ptr [OF assms(1) g assms(2), where n = 4 and h = h])
      (auto simp: epend_def pointed_def assms(3))
  then show "ewp pkt host lo (v4_ptr off 4) (epend [] [lo + 2, lo + 11]) ?Q g" by simp
qed (auto simp: epend_def split: if_splits)

section \<open>Prerequisites\<close>

text \<open>Where the transport header starts, and what the prerequisites establish.\<close>

definition trans_at :: "link_type \<Rightarrow> packet \<Rightarrow> nat" where
  "trans_at link pkt = net_off link 0 + (if ether_is link 0x0800 pkt then unat (ihl_bytes link 0 pkt) else 40)"

definition ports_there :: "link_type \<Rightarrow> l4set \<Rightarrow> packet \<Rightarrow> bool" where
  "ports_there link want pkt \<longleftrightarrow>
     v4_proto link (l4_contains want) pkt \<and> net_off link 0 + unat (ihl_bytes link 0 pkt) + 4 \<le> length pkt \<or>
     v6_proto link (l4_contains want) pkt \<and> net_off link 0 + 40 + 4 \<le> length pkt"

definition prepares :: "packet \<Rightarrow> endian \<Rightarrow> ecodegen \<Rightarrow> epatches \<Rightarrow> ecodegen \<Rightarrow> l4set \<Rightarrow> bool" where
  "prepares pkt host cg p cg' want \<longleftrightarrow>
     e_success p = [] \<and>
     (\<exists>F. cg' = with_code cg F \<and>
       eleads pkt host (here cg) F (e_failure p) (bounds_set pkt) (pointed pkt (trans_at (ecg_link cg) pkt))
         (ports_there (ecg_link cg) want pkt))"

lemma ether_exclusive: "ether_is link 0x0800 pkt \<Longrightarrow> \<not> ether_is link 0x86dd pkt"
  by (auto simp: ether_is_def field_def eq64_small split: if_splits)

lemma v4_part:
  assumes "emit_l4_proto_check (link_net_offset link + 9) pr p cg = Inr (q, cg')"
  obtains want F fl where "l4set_for pr = Inr want" "cg' = with_code cg F" "q = p\<lparr>e_failure := e_failure p @ fl\<rparr>"
    "\<And>pkt host. fits_xdp pkt \<Longrightarrow>
       eleads pkt host (here cg) (F @ v4_ptr (link_net_offset link) 4) (fl @ [here cg + length F + 2, here cg + length F + 11])
         (bounds_set pkt) (pointed pkt (net_off link 0 + unat (ihl_bytes link 0 pkt)))
         (net_off link 0 + 10 \<le> length pkt \<and> l4_contains want (proto4 link 0 pkt) \<and>
          net_off link 0 + unat (ihl_bytes link 0 pkt) + 4 \<le> length pkt)"
proof -
  have off: "unat (link_net_offset link) < 32768" "unat (link_net_offset link + 9) < 32768"
    using net_at(3) [of link] by (simp_all add: net_places)
  obtain want F fl where F: "l4set_for pr = Inr want" "cg' = with_code cg F" "q = p\<lparr>e_failure := e_failure p @ fl\<rparr>"
    "\<And>pkt host. fits_xdp pkt \<Longrightarrow> etests pkt host (here cg) F [] fl (bounds_set pkt)
       (unat (link_net_offset link + 9) < length pkt \<and> l4_contains want (pkt_byte pkt (unat (link_net_offset link + 9))))"
    using emit_l4_proto_check_ok [OF assms off(2)] by metis
  have "eleads pkt host (here cg) (F @ v4_ptr (link_net_offset link) 4) (fl @ [here cg + length F + 2, here cg + length F + 11])
      (bounds_set pkt) (pointed pkt (net_off link 0 + unat (ihl_bytes link 0 pkt)))
      (net_off link 0 + 10 \<le> length pkt \<and> l4_contains want (proto4 link 0 pkt) \<and>
       net_off link 0 + unat (ihl_bytes link 0 pkt) + 4 \<le> length pkt)" if "fits_xdp pkt" for pkt host
  proof -
    let ?h = "net_off link 0 + unat (ihl_bytes link 0 pkt)"
    let ?t = "(unat (link_net_offset link + 9) < length pkt \<and> l4_contains want (pkt_byte pkt (unat (link_net_offset link + 9)))) \<and>
      unat (link_net_offset link) < length pkt \<and> ?h + 4 \<le> length pkt"
    have "eleads pkt host (here cg) (F @ v4_ptr (link_net_offset link) 4) (fl @ [here cg + length F + 2, here cg + length F + 11])
        (bounds_set pkt) (pointed pkt ?h) ?t"
      using F(4) [OF that, of host] lead_v4 [OF that off(1)]
      by (intro eleads_then [where J = "bounds_set pkt"]) (simp_all add: eleads_etests net_at(1) ihl_bytes_def)
    moreover have "?t \<longleftrightarrow> net_off link 0 + 10 \<le> length pkt \<and> l4_contains want (proto4 link 0 pkt) \<and> ?h + 4 \<le> length pkt"
      by (auto simp: net_places proto4_def)
    ultimately show ?thesis by (simp only:)
  qed
  with F(1-3) that show thesis by blast
qed

lemma v6_part:
  assumes "emit_l4_proto_check (link_net_offset link + 6) pr p cg = Inr (q, cg')"
  obtains want F fl where "l4set_for pr = Inr want" "cg' = with_code cg F" "q = p\<lparr>e_failure := e_failure p @ fl\<rparr>"
    "\<And>pkt host. fits_xdp pkt \<Longrightarrow>
       eleads pkt host (here cg) (F @ [mov64_reg R6 R2, add64_imm R6 (link_net_offset link + 40)] @ ptr_check 4)
         (fl @ [here cg + length F + 4]) (bounds_set pkt) (pointed pkt (net_off link 0 + 40))
         (net_off link 0 + 7 \<le> length pkt \<and> l4_contains want (proto6 link 0 pkt) \<and> net_off link 0 + 40 + 4 \<le> length pkt)"
proof -
  have off: "unat (link_net_offset link + 40) < 32768" "unat (link_net_offset link + 6) < 32768"
    using net_at(3) [of link] by (simp_all add: net_places)
  obtain want F fl where F: "l4set_for pr = Inr want" "cg' = with_code cg F" "q = p\<lparr>e_failure := e_failure p @ fl\<rparr>"
    "\<And>pkt host. fits_xdp pkt \<Longrightarrow> etests pkt host (here cg) F [] fl (bounds_set pkt)
       (unat (link_net_offset link + 6) < length pkt \<and> l4_contains want (pkt_byte pkt (unat (link_net_offset link + 6))))"
    using emit_l4_proto_check_ok [OF assms off(2)] by metis
  have "eleads pkt host (here cg) (F @ [mov64_reg R6 R2, add64_imm R6 (link_net_offset link + 40)] @ ptr_check 4)
      (fl @ [here cg + length F + 4]) (bounds_set pkt) (pointed pkt (net_off link 0 + 40))
      (net_off link 0 + 7 \<le> length pkt \<and> l4_contains want (proto6 link 0 pkt) \<and> net_off link 0 + 40 + 4 \<le> length pkt)"
    if "fits_xdp pkt" for pkt host
  proof -
    let ?t = "(unat (link_net_offset link + 6) < length pkt \<and> l4_contains want (pkt_byte pkt (unat (link_net_offset link + 6)))) \<and>
      unat (link_net_offset link + 40) + 4 \<le> length pkt"
    have "eleads pkt host (here cg) (F @ [mov64_reg R6 R2, add64_imm R6 (link_net_offset link + 40)] @ ptr_check 4)
        (fl @ [here cg + length F + 4]) (bounds_set pkt) (pointed pkt (unat (link_net_offset link + 40))) ?t"
      using F(4) [OF that, of host] lead_v6 [OF that off(1)]
      by (intro eleads_then [where J = "bounds_set pkt"]) (simp_all add: eleads_etests)
    moreover have "?t \<longleftrightarrow> net_off link 0 + 7 \<le> length pkt \<and> l4_contains want (proto6 link 0 pkt) \<and> net_off link 0 + 40 + 4 \<le> length pkt"
      by (auto simp: net_places proto6_def)
    ultimately show ?thesis by (simp only: net_at_numeral)
  qed
  with F(1-3) that show thesis by blast
qed

lemma emit_port_prereqs_ipv4_only_ok:
  assumes "emit_port_prereqs_ipv4_only pr cg = Inr (p, cg')" "ecg_link cg = RawIp"
  obtains want where "l4set_for pr = Inr want" "\<And>pkt host. fits_xdp pkt \<Longrightarrow> prepares pkt host cg p cg' want"
proof -
  let ?net = "link_net_offset RawIp"
  obtain q c where c: "emit_l4_proto_check (?net + 9) pr no_epatches cg = Inr (q, c)"
    and p: "p = q\<lparr>e_failure := e_failure q @ [here c + 2, here c + 11]\<rparr>" "cg' = with_code c (v4_ptr ?net 4)"
    using assms
    by (auto simp: emit_port_prereqs_ipv4_only_def eip4_guard_def eemit_ethertype_def rbind_eq_Inr Let_def v4_ptr_def ihl_code_def
        add.commute [of _ "here _"])
  obtain want F fl where F: "l4set_for pr = Inr want" "c = with_code cg F" "q = no_epatches\<lparr>e_failure := e_failure no_epatches @ fl\<rparr>"
    and lead: "\<And>pkt host. fits_xdp pkt \<Longrightarrow>
       eleads pkt host (here cg) (F @ v4_ptr ?net 4) (fl @ [here cg + length F + 2, here cg + length F + 11])
         (bounds_set pkt) (pointed pkt (net_off RawIp 0 + unat (ihl_bytes RawIp 0 pkt)))
         (net_off RawIp 0 + 10 \<le> length pkt \<and> l4_contains want (proto4 RawIp 0 pkt) \<and>
          net_off RawIp 0 + unat (ihl_bytes RawIp 0 pkt) + 4 \<le> length pkt)"
    using v4_part [OF c] by metis
  have "prepares pkt host cg p cg' want" if "fits_xdp pkt" for pkt host
    using lead [OF that, of host] F p assms(2)
    by (auto intro!: exI [of _ "F @ v4_ptr ?net 4"]
        simp: prepares_def no_epatches_def trans_at_def ports_there_def v4_proto_def v6_proto_def ether_is_def)
  with F(1) that show thesis by blast
qed

lemma emit_port_prereqs_ok:
  assumes "eemit_port_prereqs pr cg = Inr (p, cg')"
  obtains want where "l4set_for pr = Inr want" "\<And>pkt host. fits_xdp pkt \<Longrightarrow> prepares pkt host cg p cg' want"
proof (cases "link_ether_proto_offset (ecg_link cg)")
  case None
  then have "ecg_link cg = RawIp" by (simp add: ether_some)
  then show thesis
    using emit_port_prereqs_ipv4_only_ok [of pr cg p cg'] assms that None by (auto simp: eemit_port_prereqs_def)
next
  case (Some off)
  let ?link = "ecg_link cg" and ?n = "here cg"
  let ?net = "link_net_offset ?link"
  let ?A = "eload_code Half off @ [jeq_imm R4 0x0800 0, jne_imm R4 0x86dd 0]"
  let ?P = "[mov64_reg R6 R2, add64_imm R6 (?net + 40)] @ ptr_check 4"
  let ?p0 = "\<lparr>e_success = [], e_failure = [?n + 2, ?n + 6]\<rparr>"
  obtain p1 c1 c2 p3 c3 c4 where c1: "emit_l4_proto_check (?net + 6) pr ?p0 (with_code cg ?A) = Inr (p1, c1)"
    and c2: "eresolve (?n + 5) (here c1 + 6) (with_code c1 (?P @ [e_ja 0])) = Inr c2"
    and c3: "emit_l4_proto_check (?net + 9) pr (p1\<lparr>e_failure := e_failure p1 @ [here c1 + 4]\<rparr>) c2 = Inr (p3, c3)"
    and c4: "eresolve (here c1 + 5) (here c3 + 12) (with_code c3 (v4_ptr ?net 4)) = Inr c4"
    and p: "p = p3\<lparr>e_failure := e_failure p3 @ [here c3 + 2, here c3 + 11]\<rparr>" "cg' = c4"
    using assms Some
    by (auto simp: eemit_port_prereqs_def rbind_eq_Inr Let_def no_epatches_def v4_ptr_def ihl_code_def ptr_check_def
        numeral_eq_Suc)
  obtain want B fb where B: "l4set_for pr = Inr want" "c1 = with_code cg (?A @ B)" "e_failure p1 = [?n + 2, ?n + 6] @ fb" "e_success p1 = []"
    and leadB: "\<And>pkt host. fits_xdp pkt \<Longrightarrow>
       eleads pkt host (?n + 7) (B @ ?P) (fb @ [?n + 7 + length B + 4]) (bounds_set pkt) (pointed pkt (net_off ?link 0 + 40))
         (net_off ?link 0 + 7 \<le> length pkt \<and> l4_contains want (proto6 ?link 0 pkt) \<and> net_off ?link 0 + 40 + 4 \<le> length pkt)"
    by (rule v6_part [OF c1]) simp
  have "eresolve (?n + 5) (?n + 13 + length B) (with_code cg (?A @ (B @ ?P) @ [e_ja 0])) = Inr c2"
    using c2 B(2) by (simp add: ac_simps)
  then obtain H where H: "c2 = with_code cg H" "length H = 13 + length B"
    "eresolves [?n + 5] (?n + 13 + length B) (ecg_insns cg @ ?A @ (B @ ?P) @ [e_ja 0]) (ecg_insns cg @ H)"
    by (rule eresolve_one) (auto simp: ptr_check_def)
  obtain want' D fd where D: "l4set_for pr = Inr want'" "c3 = with_code cg (H @ D)" "e_failure p3 = e_failure p1 @ [here c1 + 4] @ fd" "e_success p3 = []"
    and leadD: "\<And>pkt host. fits_xdp pkt \<Longrightarrow>
       eleads pkt host (?n + length H) (D @ v4_ptr ?net 4) (fd @ [?n + length H + length D + 2, ?n + length H + length D + 11])
         (bounds_set pkt) (pointed pkt (net_off ?link 0 + unat (ihl_bytes ?link 0 pkt)))
         (net_off ?link 0 + 10 \<le> length pkt \<and> l4_contains want' (proto4 ?link 0 pkt) \<and>
          net_off ?link 0 + unat (ihl_bytes ?link 0 pkt) + 4 \<le> length pkt)"
    by (rule v4_part [OF c3]) (simp add: H(1) B(4) add.assoc)
  have want: "want' = want" using B(1) D(1) by simp
  have "eresolve (?n + 12 + length B) (?n + length H + length (D @ v4_ptr ?net 4)) (with_code cg (H @ D @ v4_ptr ?net 4)) = Inr c4"
    using c4 B(2) D(2) by (simp add: ac_simps)
  then obtain K where K: "c4 = with_code cg K"
    "eresolves [?n + 12 + length B] (?n + length H + length (D @ v4_ptr ?net 4)) (ecg_insns cg @ H @ D @ v4_ptr ?net 4) (ecg_insns cg @ K)"
    by (rule eresolve_one) auto
  have "prepares pkt host cg p cg' want" if "fits_xdp pkt" for pkt host
  proof -
    have off: "unat off < 32768" using ether_at [OF Some] by simp
    have ether: "field pkt Half (unat off) (\<lambda>v. eq64 v et) = ether_is ?link et pkt" for et
      using ether_at [OF Some] by (simp add: ether_is_def)
    have "eleads pkt host ?n K ([?n + 2, ?n + 6] @ (fb @ [?n + 7 + length B + 4]) @
        (fd @ [?n + length H + length D + 2, ?n + length H + length D + 11]))
        (bounds_set pkt) (pointed pkt (trans_at ?link pkt))
        (ether_is ?link 0x86dd pkt \<and>
          (net_off ?link 0 + 7 \<le> length pkt \<and> l4_contains want (proto6 ?link 0 pkt) \<and> net_off ?link 0 + 40 + 4 \<le> length pkt) \<or>
         ether_is ?link 0x0800 pkt \<and>
          (net_off ?link 0 + 10 \<le> length pkt \<and> l4_contains want' (proto4 ?link 0 pkt) \<and>
           net_off ?link 0 + unat (ihl_bytes ?link 0 pkt) + 4 \<le> length pkt))"
      by (rule efork [OF fork_test [OF that off, of host ?n, unfolded ether], where B = "B @ ?P" and H = H
            and D = "D @ v4_ptr ?net 4" and ?J6.0 = "pointed pkt (net_off ?link 0 + 40)"
            and ?J4.0 = "pointed pkt (net_off ?link 0 + unat (ihl_bytes ?link 0 pkt))"])
        (use H(2,3) K(2) leadB [OF that, of host] leadD [OF that, of host]
          in \<open>simp_all add: trans_at_def ptr_check_def add.assoc add.commute add.left_commute del: eresolves.simps\<close>)
    then show ?thesis
      using K(1) p B(2,3) D(2-4) H(2)
      by (intro prepares_def [THEN iffD2] conjI exI [of _ K])
        (simp_all add: ports_there_def v4_proto_def v6_proto_def want disj_commute ac_simps)
  qed
  with B(1) that show thesis by blast
qed

section \<open>Ports\<close>

lemma ewp_port:
  assumes "fits_xdp pkt" "pointed pkt h g" "k = 0 \<or> k = 2" "L lo = None" "L (lo + 1) = None"
  shows "ewp pkt host lo (load_at Half R6 (of_nat k) @ F) L Q g \<longleftrightarrow> ewp pkt host (lo + 2) F L Q (g(4 \<mapsto> wide (ldh pkt (h + k))))"
proof -
  have "ewp pkt host lo (load_at Half R6 (of_nat k) @ F) L Q g \<longleftrightarrow>
      ewp pkt host (lo + length (load_at Half R6 (of_nat k))) F L Q (g(4 \<mapsto> wide (sized pkt Half (h + k))))"
  proof (rule ewp_load_at [OF assms(1)])
    show "L (lo + j) = None" if "j < length (load_at Half R6 (of_nat k))" for j
      using that assms(4,5) by (auto simp: less_Suc_eq numeral_2_eq_2)
  qed (use assms(2,3) in \<open>auto simp: pointed_def R6_def\<close>)
  then show ?thesis by simp
qed

lemma pointed_upd [simp]: "pointed pkt h (g(4 \<mapsto> v)) = pointed pkt h g"
  by (simp add: pointed_def bounds_set_def)

fun port_code :: "u32 \<Rightarrow> dir \<Rightarrow> einsn list" where
  "port_code v Src = load_at Half R6 0 @ [jne_imm R4 v 0]"
| "port_code v Dst = load_at Half R6 2 @ [jne_imm R4 v 0]"
| "port_code v SrcAndDst = load_at Half R6 0 @ [jne_imm R4 v 0] @ load_at Half R6 2 @ [jne_imm R4 v 0]"
| "port_code v SrcOrDst = load_at Half R6 0 @ [jeq_imm R4 v 0] @ load_at Half R6 2 @ [jne_imm R4 v 0]"

fun port_success :: "nat \<Rightarrow> dir \<Rightarrow> nat list" where
  "port_success lo SrcOrDst = [lo + 2]"
| "port_success lo _ = []"

fun port_failure :: "nat \<Rightarrow> dir \<Rightarrow> nat list" where
  "port_failure lo Src = [lo + 2]"
| "port_failure lo Dst = [lo + 2]"
| "port_failure lo SrcAndDst = [lo + 2, lo + 5]"
| "port_failure lo SrcOrDst = [lo + 5]"

lemma test_ports:
  assumes "fits_xdp pkt"
  shows "etests pkt host lo (port_code v d) (port_success lo d) (port_failure lo d) (pointed pkt h)
    (dir_sem d (eq64 (ldh pkt h) v) (eq64 (ldh pkt (h + 2)) v))"
proof (rule etests_wp)
  fix g assume g: "pointed pkt h g"
  have at: "ewp pkt host n (load_at Half R6 0 @ F) L Q g' \<longleftrightarrow> ewp pkt host (n + 2) F L Q (g'(4 \<mapsto> wide (ldh pkt h)))"
    "ewp pkt host n (load_at Half R6 2 @ F) L Q g' \<longleftrightarrow> ewp pkt host (n + 2) F L Q (g'(4 \<mapsto> wide (ldh pkt (h + 2))))"
    if "pointed pkt h g'" "L n = None" "L (n + 1) = None" for n F L Q g'
    using ewp_port [where L = L and k = 0, OF assms that(1) _ that(2,3)] ewp_port [where L = L and k = 2, OF assms that(1) _ that(2,3)] by simp_all
  show "ewp pkt host lo (port_code v d) (epend (port_success lo d) (port_failure lo d))
      (everdict (port_success lo d) (pointed pkt h) (dir_sem d (eq64 (ldh pkt h) v) (eq64 (ldh pkt (h + 2)) v))) g"
    using g by (cases d) (auto simp: at ebpf_eval epend_def eq64_def simp del: load_at.simps)
qed (cases d; auto)+

lemma ports_sem_split:
  assumes "l4set_for pr = Inr want"
  shows "eports_sem link R d pr pkt \<longleftrightarrow>
    ports_there link want pkt \<and>
    dir_sem d (R (ldh pkt (trans_at link pkt))) (R (ldh pkt (trans_at link pkt + 2)))"
  using assms ether_exclusive [of link pkt]
  by (auto simp: eports_sem_def ports_at_def ports_there_def trans_at_def v4_proto_def v6_proto_def)

lemma prepares_then:
  assumes "prepares pkt host cg p cg1 want" "l4set_for pr = Inr want"
    and "eemits pkt host cg1 r cg' (pointed pkt (trans_at (ecg_link cg) pkt))
      (dir_sem d (R (ldh pkt (trans_at (ecg_link cg) pkt))) (R (ldh pkt (trans_at (ecg_link cg) pkt + 2))))"
    and "e_success q = e_success r" "e_failure q = e_failure p @ e_failure r"
  shows "eemits pkt host cg q cg' (bounds_set pkt) (eports_sem (ecg_link cg) R d pr pkt)"
proof -
  let ?h = "trans_at (ecg_link cg) pkt"
  obtain F G where F: "cg1 = with_code cg F" "eleads pkt host (here cg) F (e_failure p) (bounds_set pkt) (pointed pkt ?h)
      (ports_there (ecg_link cg) want pkt)"
    and G: "cg' = with_code cg (F @ G)" "etests pkt host (here cg + length F) G (e_success r) (e_failure r) (pointed pkt ?h)
      (dir_sem d (R (ldh pkt ?h)) (R (ldh pkt (?h + 2))))"
    using assms(1,3) by (auto simp: prepares_def eemits_def)
  show ?thesis
    by (rule eemitsI [OF G(1)])
      (use eleads_tests [OF F(2) G(2)] in \<open>auto simp: assms(4,5) ports_sem_split [OF assms(2)] pointed_def\<close>)
qed

lemma eemit_port_ok:
  assumes "eemit_port port d pr cg = Inr (q, cg')" "fits_xdp pkt"
  shows "eemits pkt host cg q cg' (bounds_set pkt) (eprim_sem (ecg_link cg) (Port port d pr) pkt)"
proof -
  obtain p c where c: "eemit_port_prereqs pr cg = Inr (p, c)"
    using assms(1) by (auto simp: eemit_port_def rbind_eq_Inr)
  obtain want where want: "l4set_for pr = Inr want" "prepares pkt host cg p c want"
    using emit_port_prereqs_ok [OF c] assms(2) by metis
  let ?h = "trans_at (ecg_link cg) pkt" and ?r = "\<lparr>e_success = port_success (here c) d, e_failure = port_failure (here c) d\<rparr>"
  have su: "e_success p = []" using want(2) by (simp add: prepares_def)
  have q: "cg' = with_code c (port_code (ucast port) d)" "e_success q = e_success ?r" "e_failure q = e_failure p @ e_failure ?r"
    using assms(1) c su by (cases d; auto simp: eemit_port_def push_ldx_h_be_def Let_def)+
  have "eemits pkt host c ?r cg' (pointed pkt ?h) (dir_sem d (ldh pkt ?h = ucast port) (ldh pkt (?h + 2) = ucast port))"
    using test_ports [OF assms(2), of host "here c" "ucast port" d ?h] by (intro eemitsI [OF q(1)]) simp
  from prepares_then [OF want(2,1) this q(2,3)] show ?thesis by simp
qed

lemma scast_wide: "unat k < 0x80000000 \<Longrightarrow> (scast k :: u64) = wide k"
  using scast_small [of k] by simp

interpretation range_check: echeck "echeck_range (ucast a) (ucast b)" "\<lambda>pkt. pointed pkt h"
  "\<lambda>pkt off. ucast a \<le> ldh pkt (h + unat off) \<and> ldh pkt (h + unat off) \<le> ucast b" "\<lambda>off. off = 0 \<or> off = 2"
  for a b :: u16 and h
proof
  fix pkt and off :: i16 and cg host
  assume pkt: "fits_xdp pkt" and off: "off = 0 \<or> off = 2"
  let ?v = "ldh pkt (h + unat off)"
  let ?F = "load_at Half R6 off @ [jlt_imm R4 (ucast a) 0, jgt_imm R4 (ucast b) 0]" and ?fl = "[here cg + 2, here cg + 3]"
  let ?t = "ucast a \<le> ?v \<and> ?v \<le> ucast b"
  have w: "(scast (ucast x :: u32) :: u64) = wide (ucast x)" for x :: u16
  proof (rule scast_wide)
    show "unat (ucast x :: u32) < 0x80000000" using unat_u16_less [of x] by (simp add: unsigned_ucast_eq take_bit_nat_eq_self)
  qed
  have lt: "wide x < wide y \<longleftrightarrow> x < y" for x y by (simp add: word_less_nat_alt)
  have "etests pkt host (here cg) ?F [] ?fl (pointed pkt h) ?t"
  proof (rule etests_wp)
    fix g assume g: "pointed pkt h g"
    have "ewp pkt host (here cg) ?F (epend [] ?fl) (everdict [] (pointed pkt h) ?t) g \<longleftrightarrow>
        ewp pkt host (here cg + 2) [jlt_imm R4 (ucast a) 0, jgt_imm R4 (ucast b) 0] (epend [] ?fl) (everdict [] (pointed pkt h) ?t)
          (g(4 \<mapsto> wide ?v))"
    proof -
      have k: "unat off = 0 \<or> unat off = 2" "(of_nat (unat off) :: i16) = off" using off by auto
      show ?thesis by (rule ewp_port [OF pkt g k(1), unfolded k(2)]) (auto simp: epend_def)
    qed
    then show "ewp pkt host (here cg) ?F (epend [] ?fl) (everdict [] (pointed pkt h) ?t) g"
      using g by (auto simp: ebpf_eval epend_def w lt not_less)
  qed auto
  then show "\<exists>F fl. (\<forall>fail. echeck_range (ucast a) (ucast b) off cg fail = (fail @ fl, with_code cg F)) \<and>
      etests pkt host (here cg) F [] fl (pointed pkt h) ?t"
    by (intro exI [of _ ?F] exI [of _ ?fl]) (simp add: echeck_range_def push_ldx_h_be_def)
qed

lemma eemit_portrange_ok:
  assumes "eemit_portrange a b d pr cg = Inr (q, cg')" "fits_xdp pkt"
  shows "eemits pkt host cg q cg' (bounds_set pkt) (eprim_sem (ecg_link cg) (PortRange a b d pr) pkt)"
proof -
  obtain p c where c: "eemit_port_prereqs pr cg = Inr (p, c)"
    and q: "edir_check (echeck_range (ucast a) (ucast b)) 0 2 0 2 d p c = Inr (q, cg')"
    using assms(1) by (auto simp: eemit_portrange_def rbind_eq_Inr)
  obtain want where want: "l4set_for pr = Inr want" "prepares pkt host cg p c want"
    using emit_port_prereqs_ok [OF c] assms(2) by metis
  let ?h = "trans_at (ecg_link cg) pkt"
  obtain r where r: "e_success q = e_success r" "e_failure q = e_failure p @ e_failure r"
    "eemits pkt host c r cg' (pointed pkt ?h) (dir_sem d (ucast a \<le> ldh pkt ?h \<and> ldh pkt ?h \<le> ucast b)
      (ucast a \<le> ldh pkt (?h + 2) \<and> ldh pkt (?h + 2) \<le> ucast b))"
    using range_check.dir_check_tests [OF q assms(2), of host ?h] want(2) by (auto simp: prepares_def)
  show ?thesis using prepares_then [OF want(2,1) r(3,1,2)] by simp
qed

end
