(* ===== verification/Ebpf_Correct.thy ===== *)
theory Ebpf_Correct
  imports Ebpf_Ports
begin

text \<open>
  A compiled extended BPF program, run as XDP runs it, passes exactly the packets the filter describes: it never
  faults, never leaves the packet and ends.
\<close>

section \<open>Primitives\<close>

lemmas ether = eemit_ethertype_ok [THEN conjunct2] and l4 = eemit_ip4_l4_ok eemit_ip6_l4_ok

lemma eemit_primitive_ok:
  assumes "eemit_primitive p cg = Inr (q, cg')" "fits_xdp pkt" "encodable (ecg_link cg) p"
  shows "eemits pkt host cg q cg' (bounds_set pkt) (eprim_sem (ecg_link cg) p pkt)"
proof (cases p)
  case (Proto pr)
  then show ?thesis
    using assms(1,2) by (cases pr) (auto intro: eemits_all [OF ether] eemits_all [OF l4(1)] eemits_all [OF l4(2)] emit_dual_l4_ok)
next
  case (Host a d)
  then show ?thesis
    using assms(1,2)
    by (cases a) (auto intro: eemits_all [OF eemit_host4_ok] eemits_all [OF eemit_host6_ok] simp del: eprim_sem.simps)
next
  case (EtherProto et)
  then show ?thesis using assms(1,2) by (auto intro: eemits_all [OF ether])
next
  case PppoeDiscovery
  then show ?thesis using assms(1,2) by (auto intro: eemits_all [OF ether])
next
  case (IpProtoChain n)
  then show ?thesis using assms(1,2) by (auto intro: eemits_all [OF l4(1)])
next
  case (Ip6ProtoChain n)
  then show ?thesis using assms(1,2) by (auto intro: eemits_all [OF l4(2)])
qed (use assms in \<open>auto intro: eemit_port_ok eemit_portrange_ok eemit_byte_access_ok eemits_all [OF eemit_net_ok]
      eemits_all [OF eemit_net6_ok] eemits_all [OF eemit_ether_host_ok] eemits_all [OF eemit_ether_multicast_ok]
      eemits_all [OF eemit_ip_broadcast_ok] eemits_all [OF eemit_ip_multicast_ok] eemits_all [OF eemit_ip6_multicast_ok]
      eemits_all [OF eemit_vlan_ok] eemits_all [OF eemit_mpls_ok] eemits_all [OF eemit_pppoe_session_ok]
      eemits_all [OF eemit_len_ok]
    simp del: encodable.simps eprim_sem.simps\<close>)

section \<open>Expressions\<close>

fun eemit_rec :: "expr \<Rightarrow> ecodegen \<Rightarrow> error + (epatches \<times> ecodegen)" where
  "eemit_rec (Primitive p) cg = eemit_primitive p cg"
| "eemit_rec (And l r) cg =
     rbind (eemit_rec l cg) (\<lambda>(lp, cg).
     rbind (eresolve_all (e_success lp) (here cg) cg) (\<lambda>cg.
     rbind (eemit_rec r cg) (\<lambda>(rp, cg).
       Inr (\<lparr>e_success = e_success rp, e_failure = concat_vec (e_failure lp) (e_failure rp)\<rparr>, cg))))"
| "eemit_rec (Or l r) cg =
     rbind (eemit_rec l cg) (\<lambda>(lp, cg).
       let ja = here cg
       in rbind (eresolve_all (e_failure lp) (ja + 1) (with_code cg [e_ja 0])) (\<lambda>cg.
          rbind (eemit_rec r cg) (\<lambda>(rp, cg).
            Inr (\<lparr>e_success = concat_vec (e_success lp @ [ja]) (e_success rp), e_failure = e_failure rp\<rparr>, cg))))"
| "eemit_rec (expr.Not e) cg =
     rbind (eemit_rec e cg) (\<lambda>(p, cg).
       let ja = here cg
       in rbind (eresolve_all (e_failure p) (ja + 1) (with_code cg [e_ja 0])) (\<lambda>cg.
            Inr (\<lparr>e_success = [], e_failure = e_success p @ [ja]\<rparr>, cg)))"

lemma eemit_loop_rec:
  "eemit_loop (EEmit e # work) done cg = rbind (eemit_rec e cg) (\<lambda>(p, cg). eemit_loop work (p # done) cg)"
proof (induction e arbitrary: work "done" cg)
  case (And l r)
  have "eemit_loop (EEmit r # w) d = (\<lambda>cg. rbind (eemit_rec r cg) (\<lambda>x. eemit_loop w (fst x # d) (snd x)))" for w d
    by (rule ext) (simp add: And.IH(2) case_prod_beta)
  then show ?case by (simp add: eemit_loop.simps And.IH(1) rbind_assoc case_prod_beta)
next
  case (Or l r)
  have "eemit_loop (EEmit r # w) d = (\<lambda>cg. rbind (eemit_rec r cg) (\<lambda>x. eemit_loop w (fst x # d) (snd x)))" for w d
    by (rule ext) (simp add: Or.IH(2) case_prod_beta)
  then show ?case by (simp add: eemit_loop.simps Or.IH(1) rbind_assoc case_prod_beta Let_def)
next
  case (Not e)
  show ?case by (simp add: eemit_loop.simps Not rbind_assoc case_prod_beta Let_def)
qed (simp add: eemit_loop.simps)

lemma eemit_expr_rec: "eemit_expr e cg = eemit_rec e cg"
  by (cases "eemit_rec e cg") (auto simp: eemit_expr_def eemit_loop_rec eemit_loop.simps)

lemma eresolve_all_code:
  assumes "eresolve_all ps t (with_code cg F) = Inr c" "\<forall>p \<in> set ps. here cg \<le> p"
  obtains H where "c = with_code cg H" "eresolves ps t (ecg_insns cg @ F) (ecg_insns cg @ H)" "length H = length F"
proof -
  obtain D where D: "eresolves ps t (ecg_insns cg @ F) D" "c = cg\<lparr>ecg_insns := D\<rparr>"
    using eresolve_all_Inr [OF assms(1)] by (auto simp: with_code_def)
  from eresolves_prefix [OF D(1) assms(2)] D that show thesis by (auto simp: with_code_def)
qed

lemma set_concat_vec [simp]: "set (concat_vec a b) = set a \<union> set b"
  by (auto simp: concat_vec_def)

lemma eemit_rec_ok:
  "eemit_rec e cg = Inr (p, cg') \<Longrightarrow> fits_xdp pkt \<Longrightarrow> list_all (encodable (ecg_link cg)) (prims e) \<Longrightarrow>
   eemits pkt host cg p cg' (bounds_set pkt) (esem (ecg_link cg) e pkt)"
proof (induction e arbitrary: cg p cg')
  case (Primitive q)
  then show ?case by (simp add: eemit_primitive_ok)
next
  case (And l r)
  obtain lp cg1 cg2 rp where l: "eemit_rec l cg = Inr (lp, cg1)"
    and res: "eresolve_all (e_success lp) (here cg1) cg1 = Inr cg2" and r: "eemit_rec r cg2 = Inr (rp, cg')"
    and p: "p = \<lparr>e_success = e_success rp, e_failure = concat_vec (e_failure lp) (e_failure rp)\<rparr>"
    using And.prems(1) by (auto simp: rbind_eq_Inr)
  obtain F where F: "cg1 = with_code cg F"
    "etests pkt host (here cg) F (e_success lp) (e_failure lp) (bounds_set pkt) (esem (ecg_link cg) l pkt)"
    using And.IH(1) [OF l] And.prems by (auto simp: eemits_def)
  obtain H where H: "cg2 = with_code cg H" "eresolves (e_success lp) (here cg + length F) (ecg_insns cg @ F) (ecg_insns cg @ H)"
    "length H = length F"
    by (rule eresolve_all_code [of "e_success lp" "here cg + length F" cg F cg2]) (use res F etests_range [OF F(2)] in auto)
  obtain G where G: "cg' = with_code cg (H @ G)" "etests pkt host (here cg + length H) G (e_success rp) (e_failure rp) (bounds_set pkt)
      (esem (ecg_link cg) r pkt)"
    using And.IH(2) [OF r] And.prems H(1) by (auto simp: eemits_def)
  from etests_and [OF etests_resolved [OF F(2) H(2)] G(2)] show ?case
    by (intro eemitsI [OF G(1)]) (auto simp: p elim: etests_cong)
next
  case (Or l r)
  obtain lp cg1 cg2 rp where l: "eemit_rec l cg = Inr (lp, cg1)"
    and res: "eresolve_all (e_failure lp) (here cg1 + 1) (with_code cg1 [e_ja 0]) = Inr cg2" and r: "eemit_rec r cg2 = Inr (rp, cg')"
    and p: "p = \<lparr>e_success = concat_vec (e_success lp @ [here cg1]) (e_success rp), e_failure = e_failure rp\<rparr>"
    using Or.prems(1) by (auto simp: rbind_eq_Inr Let_def)
  obtain F where F: "cg1 = with_code cg F"
    "etests pkt host (here cg) F (e_success lp) (e_failure lp) (bounds_set pkt) (esem (ecg_link cg) l pkt)"
    using Or.IH(1) [OF l] Or.prems by (auto simp: eemits_def)
  obtain H where H: "cg2 = with_code cg H" "eresolves (e_failure lp) (here cg + length F + 1) (ecg_insns cg @ F @ [e_ja 0]) (ecg_insns cg @ H)"
    "length H = length F + 1"
    by (rule eresolve_all_code [of "e_failure lp" "here cg + length F + 1" cg "F @ [e_ja 0]" cg2]) (use res F etests_range [OF F(2)] in auto)
  obtain G where G: "cg' = with_code cg (H @ G)" "etests pkt host (here cg + length F + 1) G (e_success rp) (e_failure rp) (bounds_set pkt)
      (esem (ecg_link cg) r pkt)"
    using Or.IH(2) [OF r] Or.prems H(1,3) by (auto simp: eemits_def)
  from etests_or [OF F(2) G(2) H(2)] show ?case
    by (intro eemitsI [OF G(1)]) (auto simp: p F(1) elim: etests_cong)
next
  case (Not e)
  obtain q cg1 where e: "eemit_rec e cg = Inr (q, cg1)"
    and res: "eresolve_all (e_failure q) (here cg1 + 1) (with_code cg1 [e_ja 0]) = Inr cg'"
    and p: "p = \<lparr>e_success = [], e_failure = e_success q @ [here cg1]\<rparr>"
    using Not.prems(1) by (auto simp: rbind_eq_Inr Let_def)
  obtain F where F: "cg1 = with_code cg F"
    "etests pkt host (here cg) F (e_success q) (e_failure q) (bounds_set pkt) (esem (ecg_link cg) e pkt)"
    using Not.IH [OF e] Not.prems by (auto simp: eemits_def)
  obtain H where H: "cg' = with_code cg H" "eresolves (e_failure q) (here cg + length F + 1) (ecg_insns cg @ F @ [e_ja 0]) (ecg_insns cg @ H)"
    by (rule eresolve_all_code [of "e_failure q" "here cg + length F + 1" cg "F @ [e_ja 0]" cg']) (use res F etests_range [OF F(2)] in auto)
  from etests_not [OF F(2) H(2)] show ?case by (intro eemitsI [OF H(1)]) (simp add: p F(1))
qed

section \<open>Entry and exit\<close>

lemma host_bytes_read: "endian_read host (host_bytes host w) = wide w"
proof -
  have "be32 (ucast (drop_bit 24 w)) (ucast (drop_bit 16 w)) (ucast (drop_bit 8 w)) (ucast w) = w"
  proof (rule bit_word_eqI)
    fix n assume "n < LENGTH(32)"
    then consider "n < 8" | "8 \<le> n" "n < 16" | "16 \<le> n" "n < 24" | "24 \<le> n" "n < 32" by fastforce
    then show "bit (be32 (ucast (drop_bit 24 w)) (ucast (drop_bit 16 w)) (ucast (drop_bit 8 w)) (ucast w)) n = bit w n"
      by cases (auto simp: be32_def bit_simps)
  qed
  moreover have "endian_read host (host_bytes host w) = endian_read Big (rev (le32_bytes w))"
    by (cases host) (simp_all add: host_bytes_def)
  ultimately show ?thesis by (simp add: le32_bytes_def be32_read del: endian_read.simps)
qed

lemma length_host_bytes [simp]: "length (host_bytes host w) = 4"
  by (cases host) (simp_all add: host_bytes_def le32_bytes_def)

lemma ctx_load:
  "mem_load (xdp_ctx host pkt) pkt CTX_BASE 4 at = Inr (host_bytes host (ucast PKT_BASE))"
  "mem_load (xdp_ctx host pkt) pkt (CTX_BASE + 4) 4 at = Inr (host_bytes host (ucast (at_pkt (length pkt))))"
  by (simp_all add: mem_load_def CTX_BASE_def xdp_ctx_def)

lemma prologue_runs:
  assumes "fits_xdp pkt" "get_at P 0 = Some (ldx_w R2 R1 0)" "get_at P 1 = Some (ldx_w R3 R1 4)"
  obtains g where "bounds_set pkt g"
    "\<And>n. eloop (2 + n) P (xdp_ctx host pkt) pkt host 0 eregs_init = eloop n P (xdp_ctx host pkt) pkt host 2 g"
proof -
  have narrow: "wide (ucast (at_pkt n)) = at_pkt n" if "n \<le> length pkt" for n
  proof -
    have "n \<le> 0x0ffffffe" using that assms(1) by (simp add: fits_xdp_def)
    with fits_addr [OF assms(1) that] show ?thesis
      by (simp add: word_unat_eq_iff unsigned_ucast_eq unsigned_take_bit_eq take_bit_nat_eq_self)
  qed
  let ?g1 = "eregs_init(2 \<mapsto> PKT_BASE)" and ?g2 = "eregs_init(2 \<mapsto> PKT_BASE, 3 \<mapsto> at_pkt (length pkt))"
  note sd = estep_def step_ldx_def ldx_size_def rd_def wr_def ector_defs interp_defs reg_defs eregs_init_def Let_def
  have "estep P (xdp_ctx host pkt) pkt host 0 eregs_init = Inr (Go 1 ?g1)"
    using assms(2) ctx_load(1) [of host pkt 0] host_bytes_read [of host "ucast PKT_BASE"] narrow [of 0] by (simp add: sd)
  moreover have "estep P (xdp_ctx host pkt) pkt host 1 ?g1 = Inr (Go 2 ?g2)"
    using assms(3) ctx_load(2) [of host pkt 1] host_bytes_read [of host "ucast (at_pkt (length pkt))"] narrow [of "length pkt"]
    by (simp add: sd fun_upd_twist)
  ultimately have "eloop (2 + n) P (xdp_ctx host pkt) pkt host 0 eregs_init = eloop n P (xdp_ctx host pkt) pkt host 2 ?g2" for n
    by (simp add: numeral_2_eq_2)
  moreover have "bounds_set pkt ?g2" by (simp add: bounds_set_def)
  ultimately show thesis using that by blast
qed

lemma epilogue_runs:
  assumes "get_at P a = Some (mov64_imm R0 v)" "get_at P (a + 1) = Some e_exit"
  shows "eloop (2 + n) P ctx pkt host a g = Inr (scast v)"
proof -
  have "estep P ctx pkt host a g = Inr (Go (a + 1) (g(0 \<mapsto> scast v)))"
    using assms(1) by (simp add: estep_def step_alu_def alu_result_def rd_def wr_def ector_defs interp_defs reg_defs)
  moreover have "estep P ctx pkt host (a + 1) (g(0 \<mapsto> scast v)) = Inr (Stop (scast v))"
    using assms(2) by (simp add: estep_def step_jmp_def rd_def ector_defs interp_defs reg_defs)
  ultimately show ?thesis by (simp add: numeral_2_eq_2)
qed

lemma eresolves_agree:
  assumes 1: "eresolves su a (C @ F @ E) D" and 2: "eresolves fl d D P"
    and "set su \<inter> set fl = {}" "E \<noteq> []" "\<And>p. p \<in> set su \<union> set fl \<Longrightarrow> length C \<le> p \<and> p < length C + length F"
    and "a < length P" "d < length P"
  shows "eagree P (length C) F (\<lambda>e. if e = ESucc then a else d) (epend su fl)"
proof -
  have len: "length P = length C + length F + length E" using eresolves_length [OF 1] eresolves_length [OF 2] by simp
  have "slot_agrees (length P) (\<lambda>e. if e = ESucc then a else d) (epend su fl (length C + j)) (length C + j) (F ! j) (P ! (length C + j))"
    if j: "j < length F" for j
  proof -
    have *: "(C @ F @ E) ! (length C + j) = F ! j" using j by (simp add: nth_append)
    note n1 = eresolves_nth [OF 1, of "length C + j", unfolded *] and n2 = eresolves_nth [OF 2, of "length C + j"]
    show ?thesis
      using n1 n2 j eresolves_length [OF 1] assms(3,6,7) by (auto simp: slot_agrees_def epend_def split: if_splits)
  qed
  then show ?thesis using len assms(4) by (simp add: eagree_def)
qed

lemma untouched:
  assumes "eresolves su a C D" "eresolves fl d D P" "p < length C" "p \<notin> set su \<union> set fl"
  shows "get_at P p = Some (C ! p)"
  using assms eresolves_nth [OF assms(1,3)] eresolves_nth [OF assms(2), of p] eresolves_length [OF assms(1)] eresolves_length [OF assms(2)]
  by auto

section \<open>Compiled programs\<close>

abbreviation prologue :: "einsn list" where
  "prologue \<equiv> [ldx_w R2 R1 0, ldx_w R3 R1 4]"

abbreviation epilogue :: "einsn list" where
  "epilogue \<equiv> [mov64_imm R0 XDP_PASS, e_exit, mov64_imm R0 XDP_DROP, e_exit]"

lemma ebpf_compile_layout:
  assumes "ebpf_compile e link = Inr prog"
  obtains cg cg1 ps D where "cg = \<lparr>ecg_insns = prologue, ecg_link = link\<rparr>" "eemit_rec e cg = Inr (ps, cg1)"
    "eresolves (e_success ps) (here cg1) (ecg_insns cg1 @ epilogue) D" "eresolves (e_failure ps) (here cg1 + 2) D (einsns prog)"
proof -
  let ?cg = "\<lparr>ecg_insns = prologue, ecg_link = link\<rparr>"
  have "emit_prologue (ecodegen_new link) = ?cg"
    by (simp add: emit_prologue_def ecodegen_new_def with_code_def)
  then obtain ps cg1 c2 c3 where r: "eemit_rec e ?cg = Inr (ps, cg1)"
    and c2: "eresolve_all (e_success ps) (here cg1) (with_code cg1 epilogue) = Inr c2"
    and c3: "eresolve_all (e_failure ps) (here cg1 + 2) c2 = Inr c3" and prog: "prog = eprogram_new (ecg_insns c3)"
    using assms by (auto simp: ebpf_compile_def rbind_eq_Inr eemit_expr_rec)
  obtain D where D: "eresolves (e_success ps) (here cg1) (ecg_insns cg1 @ epilogue) D" "ecg_insns c2 = D"
    using eresolve_all_Inr [OF c2] by auto
  moreover have "eresolves (e_failure ps) (here cg1 + 2) D (einsns prog)"
    using eresolve_all_Inr [OF c3] D(2) prog by (auto simp: eprogram_new_def)
  ultimately show thesis using that [OF refl r] by blast
qed

lemma ebpf_program_runs:
  assumes "ebpf_compile e link = Inr prog" "list_all (encodable link) (prims e)" "fits_xdp pkt" "length (einsns prog) \<le> fuel"
  shows "eloop fuel (einsns prog) (xdp_ctx host pkt) pkt host 0 eregs_init =
    Inr (scast (if esem link e pkt then XDP_PASS else XDP_DROP))"
proof -
  let ?P = "einsns prog" and ?ctx = "xdp_ctx host pkt" and ?t = "esem link e pkt"
  obtain cg cg1 ps D where cg: "cg = \<lparr>ecg_insns = prologue, ecg_link = link\<rparr>" and r: "eemit_rec e cg = Inr (ps, cg1)"
    and r1: "eresolves (e_success ps) (here cg1) (ecg_insns cg1 @ epilogue) D" and r2: "eresolves (e_failure ps) (here cg1 + 2) D ?P"
    using ebpf_compile_layout [OF assms(1)] .
  have link: "ecg_link cg = link" and two: "ecg_insns cg = prologue" using cg by simp_all
  obtain F where F: "cg1 = with_code cg F" and t: "etests pkt host 2 F (e_success ps) (e_failure ps) (bounds_set pkt) ?t"
    using eemit_rec_ok [OF r assms(3), of host] assms(2) link two by (auto simp: eemits_def numeral_2_eq_2)
  let ?C = "prologue @ F @ epilogue"
  have r1': "eresolves (e_success ps) (2 + length F) ?C D" and r2': "eresolves (e_failure ps) (4 + length F) D ?P"
    using r1 r2 two F by (simp_all add: numeral_eq_Suc)
  have len: "length ?P = length F + 6" using eresolves_length [OF r1'] eresolves_length [OF r2'] by simp
  have keep: "get_at ?P p = Some (?C ! p)" if "p < length ?C" "p < 2 \<or> 2 + length F \<le> p" for p
  proof (rule untouched [OF r1' r2' that(1)])
    show "p \<notin> set (e_success ps) \<union> set (e_failure ps)"
    proof
      assume "p \<in> set (e_success ps) \<union> set (e_failure ps)"
      from etests_range [OF t this] that(2) show False by simp
    qed
  qed
  have pro: "get_at ?P 0 = Some (ldx_w R2 R1 0)" "get_at ?P 1 = Some (ldx_w R3 R1 4)"
    using keep [of 0] keep [of 1] by simp_all
  have epi: "get_at ?P (2 + length F) = Some (mov64_imm R0 XDP_PASS)" "get_at ?P (2 + length F + 1) = Some e_exit"
    "get_at ?P (4 + length F) = Some (mov64_imm R0 XDP_DROP)" "get_at ?P (4 + length F + 1) = Some e_exit"
    using keep [of "2 + length F"] keep [of "3 + length F"] keep [of "4 + length F"] keep [of "5 + length F"]
    by (simp_all add: nth_append numeral_eq_Suc)
  let ?T = "\<lambda>x. if x = ESucc then 2 + length F else 4 + length F"
  have "eagree ?P (length prologue) F ?T (epend (e_success ps) (e_failure ps))"
  proof (rule eresolves_agree [OF r1' r2'])
    show "length prologue \<le> p \<and> p < length prologue + length F" if "p \<in> set (e_success ps) \<union> set (e_failure ps)" for p
      using etests_range [OF t that] by simp
  qed (use t len in \<open>simp_all add: etests_def\<close>)
  then have "eagree ?P 2 F ?T (epend (e_success ps) (e_failure ps))" by (simp add: numeral_2_eq_2)
  moreover obtain g where g: "bounds_set pkt g" "\<And>n. eloop (2 + n) ?P ?ctx pkt host 0 eregs_init = eloop n ?P ?ctx pkt host 2 g"
    using prologue_runs [OF assms(3) pro, of host] by metis
  ultimately have "esettles ?P pkt host ?T (length F) (2 + length F) (everdict (e_success ps) (bounds_set pkt) ?t) 2 g"
    using t by (simp add: etests_def efrag_def)
  then obtain k l h where k: "k \<le> length F" "everdict (e_success ps) (bounds_set pkt) ?t l h"
    "\<And>n ctx. eloop (k + n) ?P ctx pkt host 2 g = eloop n ?P ctx pkt host (exit_pc ?T (2 + length F) l) h"
    unfolding esettles_def by blast
  have "exit_pc ?T (2 + length F) l = (if ?t then 2 + length F else 4 + length F)"
    using k(2) by (auto simp: everdict_def exit_pc_def split: option.splits exit.splits)
  moreover obtain m where "fuel = 2 + (k + (2 + m))"
  proof -
    have "4 + k \<le> fuel" using assms(4) len k(1) by simp
    then show ?thesis using that [of "fuel - (4 + k)"] by simp
  qed
  ultimately show ?thesis
    by (cases ?t) (simp_all only: g(2) k(3) epilogue_runs [OF epi(1,2)] epilogue_runs [OF epi(3,4)] if_True if_False)
qed

end
