(* ===== verification/Ebpf_Errors.thy ===== *)
theory Ebpf_Errors
  imports Ebpf_Correct
begin

text \<open>
  When the extended generator answers with an error: exactly for the tests the target or the link type cannot
  express, always with a \<open>CodegenError\<close>, and for everything else only when a jump would be too far. No index,
  \<open>expect\<close> or stack pop of the generator can fail.
\<close>

definition port_proto :: "proto option \<Rightarrow> bool" where
  "port_proto pr \<longleftrightarrow> pr \<in> {None, Some Tcp, Some Udp, Some Sctp}"

fun eexpressible :: "link_type \<Rightarrow> primitive \<Rightarrow> bool" where
  "eexpressible link (Proto p) = (link \<noteq> RawIp \<or> p \<notin> {Ip6, Arp, Rarp, Icmp6} \<and> (\<forall>n. p \<noteq> Ip6Proto n))"
| "eexpressible link (Host (V6 _) _) = (link \<noteq> RawIp)"
| "eexpressible link (Net6 _ _) = (link \<noteq> RawIp)"
| "eexpressible link (Port _ _ pr) = port_proto pr"
| "eexpressible link (PortRange _ _ _ pr) = port_proto pr"
| "eexpressible link (EtherHost _ _) = (link \<noteq> RawIp)"
| "eexpressible link (EtherProto et) = (link \<noteq> RawIp \<or> et = 0x0800)"
| "eexpressible link EtherMulticast = (link \<noteq> RawIp)"
| "eexpressible link Ip6Multicast = (link \<noteq> RawIp)"
| "eexpressible link (Vlan _) = (link \<noteq> RawIp)"
| "eexpressible link (Mpls _) = (link \<noteq> RawIp)"
| "eexpressible link PppoeDiscovery = (link \<noteq> RawIp)"
| "eexpressible link (PppoeSession _) = (link \<noteq> RawIp)"
| "eexpressible link (Ip6ProtoChain _) = (link \<noteq> RawIp)"
| "eexpressible link Inbound = False"
| "eexpressible link Outbound = False"
| "eexpressible link (ByteAccess ba) =
     ((case ba_rhs ba of Const _ \<Rightarrow> True | LoadRhs _ \<Rightarrow> False) \<and>
      list_all (\<lambda>(opr, v). opr \<noteq> OpMod \<and> (opr = OpDiv \<longrightarrow> v \<noteq> 0)) (alu_ops ba))"
| "eexpressible link _ = True"

section \<open>Answers\<close>

definition answers :: "bool \<Rightarrow> error + 'a \<Rightarrow> bool" where
  "answers c r \<longleftrightarrow> (case r of Inr _ \<Rightarrow> c | Inl e \<Rightarrow> e = ejump_overflow \<or> \<not> c \<and> (\<exists>m. e = CodegenError m))"

lemma answers_simps [simp]: "answers c (Inr x) = c" "answers False (Inl (CodegenError m))"
  by (simp_all add: answers_def)

lemma answers_bind:
  "answers c r \<Longrightarrow> (\<And>x. c \<Longrightarrow> r = Inr x \<Longrightarrow> answers d (f x)) \<Longrightarrow> e = (c \<and> d) \<Longrightarrow> answers e (rbind r f)"
  by (cases r) (auto simp: answers_def split: sum.splits)

lemma answers_then: "answers c r \<Longrightarrow> (\<And>x. r = Inr x \<Longrightarrow> answers True (f x)) \<Longrightarrow> answers c (rbind r f)"
  by (rule answers_bind [where d = True]) auto

lemma answers_resolve: "p < here cg \<Longrightarrow> answers True (eresolve p t cg)"
  by (auto simp: answers_def eresolve_def)

lemma eresolve_length: "eresolve p t cg = Inr cg' \<Longrightarrow> here cg' = here cg \<and> ecg_link cg' = ecg_link cg"
  by (auto simp: eresolve_Inr)

lemma answers_resolve_then:
  "p < here cg \<Longrightarrow> (\<And>c. here c = here cg \<Longrightarrow> answers True (f c)) \<Longrightarrow> answers True (rbind (eresolve p t cg) f)"
  by (rule answers_then [OF answers_resolve]) (auto dest: eresolve_length)

lemma answers_resolve_all: "\<forall>p \<in> set ps. p < here cg \<Longrightarrow> answers True (eresolve_all ps t cg)"
proof (induction ps arbitrary: cg)
  case (Cons p ps)
  then show ?case by (auto intro!: answers_bind [OF answers_resolve [where t = t]] simp: eresolve_length)
qed simp

section \<open>Primitives\<close>

lemma answers_ethertype: "answers (ecg_link cg \<noteq> RawIp \<or> et = 0x0800) (eemit_ethertype et cg)"
  by (auto simp: eemit_ethertype_def ether_some [symmetric] answers_def split: option.splits)

lemma answers_dual: "answers True (emit_dual_l4 n cg)"
proof (cases "link_ether_proto_offset (ecg_link cg)")
  case None
  then have "answers True (eemit_ethertype 0x0800 cg)" using answers_ethertype [of cg "0x0800"] by simp
  then show ?thesis
    using None by (auto simp: emit_dual_l4_def eemit_ip4_l4_def eip4_guard_def intro!: answers_then)
next
  case (Some off)
  then show ?thesis
    by (auto simp: emit_dual_l4_def Let_def eresolve_length intro!: answers_then answers_resolve)
qed

context echeck
begin

lemma dir_check_answers: "inside first \<Longrightarrow> answers True (edir_check chk s t first second d p cg)"
proof -
  assume "inside first"
  then obtain F fl where F: "\<And>fail. chk first cg fail = (fail @ fl, with_code cg F)"
    and "etests [] Little (here cg) F [] fl (keeps []) (holds [] first)"
    using chk_tests [of "[]" first cg Little] by (auto simp: fits_xdp_def)
  then have "\<forall>p \<in> set fl. p < here cg + length F + 1" using etests_range by fastforce
  then show ?thesis
    by (cases d) (auto simp: edir_check_def F case_prod_beta intro!: answers_then answers_resolve_all)
qed

end

lemma answers_host: "answers (eexpressible (ecg_link cg) (Host a d)) (eemit_host a d cg)"
proof (cases a)
  case (V4 x)
  have "answers True (eemit_ethertype 0x0800 cg)" using answers_ethertype [of cg "0x0800"] by simp
  then show ?thesis
    by (auto simp: V4 eemit_host4_def eip4_guard_def Let_def case_prod_beta intro!: answers_then)
next
  case (V6 x)
  have "unat (link_net_offset link + 8) \<le> 100" for link using net_at(3) [of link] by (simp add: net_places)
  then show ?thesis
    using answers_ethertype [of cg "0x86dd"]
    by (auto simp: V6 eemit_host6_def Let_def intro!: answers_then addr6_check.dir_check_answers)
qed

lemma answers_net: "answers True (eemit_net net d cg)"
proof -
  have "answers True (eemit_ethertype 0x0800 cg)" using answers_ethertype [of cg "0x0800"] by simp
  moreover have "unat (link_net_offset link + 12) < 32768" for link using net_at(3) [of link] by (simp add: net_places)
  ultimately show ?thesis
    by (cases d) (auto simp: eemit_net_def eip4_guard_def Let_def intro!: answers_then net4_check.dir_check_answers)
qed

lemma answers_net6: "answers (ecg_link cg \<noteq> RawIp) (eemit_net6 net d cg)"
proof -
  have "unat (link_net_offset link + 8) \<le> 100" for link using net_at(3) [of link] by (simp add: net_places)
  then show ?thesis
    using answers_ethertype [of cg "0x86dd"]
    by (auto simp: eemit_net6_def Let_def intro!: answers_then prefix6_check.dir_check_answers)
qed

lemma answers_l4_check:
  "answers (port_proto pr) (emit_l4_proto_check off pr p cg)"
proof (cases pr)
  case None
  then show ?thesis by (auto simp: port_proto_def intro!: answers_then answers_resolve)
next
  case (Some q)
  then show ?thesis by (cases q) (simp_all add: port_proto_def)
qed

lemma l4_check_grows: "emit_l4_proto_check off pr p cg = Inr (q, cg') \<Longrightarrow> here cg < here cg'"
  by (cases "(off, pr, p, cg)" rule: emit_l4_proto_check.cases) (auto simp: rbind_eq_Inr dest!: eresolve_length)

lemma answers_prereqs: "answers (port_proto pr) (eemit_port_prereqs pr cg)"
proof (cases "link_ether_proto_offset (ecg_link cg)")
  case None
  then have guard: "answers True (eemit_ethertype 0x0800 cg)" using answers_ethertype [of cg "0x0800"] by simp
  have "answers (port_proto pr) (emit_port_prereqs_ipv4_only pr cg)"
    unfolding emit_port_prereqs_ipv4_only_def eip4_guard_def
    by (rule answers_bind [OF guard, where d = "port_proto pr"])
      (auto simp: Let_def simp del: emit_l4_proto_check.simps intro!: answers_then answers_l4_check)
  with None show ?thesis by (simp add: eemit_port_prereqs_def)
next
  case (Some off)
  have l4: "answers (port_proto pr) (rbind (emit_l4_proto_check off' pr p c) f)"
    if "\<And>q c'. port_proto pr \<Longrightarrow> here c < here c' \<Longrightarrow> answers True (f (q, c'))" for off' p c and f :: "epatches \<times> ecodegen \<Rightarrow> error + 'z"
    by (rule answers_bind [OF answers_l4_check, where d = True]) (use that l4_check_grows in auto)
  have again: "answers True (rbind (emit_l4_proto_check off' pr p c) f)"
    if "port_proto pr" "\<And>q c'. here c < here c' \<Longrightarrow> answers True (f (q, c'))" for off' p c and f :: "epatches \<times> ecodegen \<Rightarrow> error + 'z"
    using l4 [of c f off' p] that by simp
  show ?thesis
    using Some
    by (auto simp: eemit_port_prereqs_def Let_def no_epatches_def simp del: emit_l4_proto_check.simps
        intro!: l4 again answers_resolve_then)
qed

lemma answers_cmp: "answers True (eemit_cmp opr v cg)"
  by (cases opr) (auto simp: intro!: answers_then answers_resolve)

lemma answers_alu:
  "answers (list_all (\<lambda>(opr, v). opr \<noteq> OpMod \<and> (opr = OpDiv \<longrightarrow> v \<noteq> 0)) ops) (eemit_alu_ops ops cg)"
proof (induction ops arbitrary: cg)
  case (Cons x ops)
  obtain opr v where x: "x = (opr, v)" by (cases x)
  have "answers (opr \<noteq> OpMod \<and> (opr = OpDiv \<longrightarrow> v \<noteq> 0)) (ebpf_alu32 opr R4 v)" by (cases opr) simp_all
  then show ?case unfolding x eemit_alu_ops.simps by (rule answers_bind [OF _ Cons.IH]) simp
qed simp

lemma answers_byte_access: "answers (eexpressible (ecg_link cg) (ByteAccess ba)) (eemit_byte_access ba cg)"
proof (cases "ba_rhs ba")
  case (Const v)
  show ?thesis
    by (cases "ba_layer ba")
      (auto simp: Const eemit_byte_access_def emit_trans_byte_access_def emit_load_sized_code Let_def
        intro!: answers_bind [OF answers_alu answers_then [OF answers_cmp]])
qed (simp add: eemit_byte_access_def)

lemma answers_mpls: "answers (ecg_link cg \<noteq> RawIp) (eemit_mpls lbl cg)"
proof (cases "link_ether_proto_offset (ecg_link cg)")
  case (Some off)
  then have "ecg_link cg \<noteq> RawIp" using ether_at(5) by blast
  with Some show ?thesis
    by (auto simp: eemit_mpls_def Let_def split: option.split intro!: answers_resolve_then)
qed (simp add: eemit_mpls_def ether_some)

lemma answers_proto: "answers (eexpressible (ecg_link cg) (Proto p)) (eemit_proto p cg)"
  using answers_ethertype [of cg "0x0800"] answers_ethertype [of cg "0x86dd"] answers_ethertype [of cg "0x0806"]
    answers_ethertype [of cg "0x8035"] answers_dual [of _ cg]
  by (cases p) (auto simp: eemit_ip4_l4_def eemit_ip6_l4_def eip4_guard_def intro!: answers_then)

lemma answers_primitive: "answers (eexpressible (ecg_link cg) p) (eemit_primitive p cg)"
proof (cases p)
  case (Port port d pr)
  show ?thesis
    unfolding Port eexpressible.simps eemit_primitive.simps eemit_port_def
    by (rule answers_then [OF answers_prereqs]) (cases d; auto simp: Let_def)
next
  case (PortRange a b d pr)
  show ?thesis
    unfolding PortRange eexpressible.simps eemit_primitive.simps eemit_portrange_def
    by (rule answers_then [OF answers_prereqs]) (auto intro!: range_check.dir_check_answers)
next
  case (EtherHost m d)
  then show ?thesis by (cases m) (auto intro!: mac_check.dir_check_answers)
next
  case (ByteAccess ba)
  then show ?thesis using answers_byte_access by simp
next
  case (Len opr v)
  then show ?thesis using answers_cmp by (simp add: eemit_len_def Let_def)
next
  case (EtherProto et)
  have "(ucast (ucast et :: u32) :: u16) = et" by (rule bit_word_eqI) (auto simp: bit_simps)
  then have "(ucast et = (0x0800 :: u32)) = (et = 0x0800)" by (auto dest!: arg_cong [of _ _ "ucast :: u32 \<Rightarrow> u16"])
  with EtherProto show ?thesis using answers_ethertype [of cg "ucast et"] by simp
qed (use answers_proto answers_host answers_net answers_net6 answers_mpls answers_ethertype [of cg "0x0800"] answers_ethertype [of cg "0x86dd"]
      answers_ethertype [of cg "0x8100"] answers_ethertype [of cg "0x8863"] answers_ethertype [of cg "0x8864"]
    in \<open>auto simp: eemit_ether_multicast_def eemit_ip_broadcast_def eemit_ip_multicast_def eemit_ip6_multicast_def
      eemit_vlan_def eemit_pppoe_session_def eemit_ip4_l4_def eemit_ip6_l4_def eip4_guard_def edirection_error_def Let_def
      intro!: answers_then answers_resolve split: option.split\<close>)

section \<open>Expressions\<close>

text \<open>An emitter only appends code, and its open jumps are in the code it appended.\<close>

definition appends :: "ecodegen \<Rightarrow> epatches \<Rightarrow> ecodegen \<Rightarrow> bool" where
  "appends cg p cg' \<longleftrightarrow>
     (\<exists>F. cg' = with_code cg F) \<and> (\<forall>x \<in> set (e_success p) \<union> set (e_failure p). here cg \<le> x \<and> x < here cg')"

lemma eemits_appends: "eemits pkt host cg p cg' I t \<Longrightarrow> appends cg p cg'"
  using etests_range by (fastforce simp: eemits_def appends_def)

lemma byte_access_appends: "eemit_byte_access ba cg = Inr (p, cg') \<Longrightarrow> appends cg p cg'"
proof -
  assume r: "eemit_byte_access ba cg = Inr (p, cg')"
  obtain v where v: "ba_rhs ba = Const v" using r by (cases "ba_rhs ba") (simp_all add: eemit_byte_access_def)
  have "0 < length (cmp_code (ba_op ba) v)" by (rule cmp_last(1))
  then show ?thesis
    using r v
    by (cases "ba_layer ba")
      (auto simp: eemit_byte_access_def emit_trans_byte_access_def Let_def rbind_eq_Inr emit_load_sized_code eemit_cmp_code appends_def ptr_check_def
        dest!: eemit_alu_ops_code [where pkt = "[]"])
qed

lemma primitive_appends: "eemit_primitive p cg = Inr (q, cg') \<Longrightarrow> appends cg q cg'"
proof (cases "encodable (ecg_link cg) p")
  case True
  assume "eemit_primitive p cg = Inr (q, cg')"
  from eemit_primitive_ok [OF this _ True, of "[]" Little] show ?thesis by (simp add: fits_xdp_def eemits_appends)
next
  case False
  assume "eemit_primitive p cg = Inr (q, cg')"
  with False show ?thesis by (cases p) (auto intro: byte_access_appends)
qed

lemma appends_trans:
  assumes "appends cg p cg1" "eresolve_all ps t (with_code cg1 E) = Inr cg2" "\<forall>x \<in> set ps. here cg \<le> x"
  shows "\<exists>F. cg2 = with_code cg F" "here cg2 = here cg1 + length E" "ecg_link cg2 = ecg_link cg"
proof -
  obtain F where F: "cg1 = with_code cg F" using assms(1) by (auto simp: appends_def)
  with eresolve_all_code [of ps t cg "F @ E" cg2] assms(2,3) obtain H where "cg2 = with_code cg H" "length H = length (F @ E)"
    by auto
  then show "\<exists>F. cg2 = with_code cg F" "here cg2 = here cg1 + length E" "ecg_link cg2 = ecg_link cg"
    using F by auto
qed

lemma appends_range: "appends cg p cg' \<Longrightarrow> x \<in> set (e_success p) \<union> set (e_failure p) \<Longrightarrow> here cg \<le> x \<and> x < here cg'"
  by (simp add: appends_def)

lemma resolved_then:
  assumes "appends cg p cg1" "set ps \<subseteq> set (e_success p) \<union> set (e_failure p)"
    and "\<And>cg2. ecg_link cg2 = ecg_link cg \<Longrightarrow> answers d (f cg2)"
  shows "answers d (rbind (eresolve_all ps t (with_code cg1 E)) f)"
proof (rule answers_bind [OF answers_resolve_all])
  show "\<forall>x \<in> set ps. x < here (with_code cg1 E)" using assms(2) appends_range [OF assms(1)] by (auto intro: trans_less_add1)
  show "answers d (f cg2)" if "eresolve_all ps t (with_code cg1 E) = Inr cg2" for cg2
    using appends_trans(3) [OF assms(1) that] assms(2,3) appends_range [OF assms(1)] by blast
qed simp

lemma appends_resolved:
  assumes "appends cg p cg1" "set ps \<subseteq> set (e_success p) \<union> set (e_failure p)" "eresolve_all ps t (with_code cg1 E) = Inr cg2"
    and "appends cg2 q cg3" "set (e_success r) \<union> set (e_failure r) \<subseteq>
      set (e_success p) \<union> set (e_failure p) \<union> {here cg1..<here cg1 + length E} \<union> set (e_success q) \<union> set (e_failure q)"
  shows "appends cg r cg3"
proof -
  have "\<forall>x \<in> set ps. here cg \<le> x" using assms(1,2) by (auto simp: appends_def)
  note c = appends_trans [OF assms(1,3) this]
  obtain F G H where F: "cg1 = with_code cg F" "cg2 = with_code cg G" "cg3 = with_code cg (G @ H)"
    using assms(1,4) c(1) by (auto simp: appends_def)
  have "here cg \<le> x \<and> x < here cg3" if x: "x \<in> set (e_success r) \<union> set (e_failure r)" for x
  proof -
    consider "x \<in> set (e_success p) \<union> set (e_failure p)" | "here cg1 \<le> x" "x < here cg1 + length E"
      | "x \<in> set (e_success q) \<union> set (e_failure q)"
      using subsetD [OF assms(5) x] by auto
    then show ?thesis
      by cases (use appends_range [OF assms(1), of x] appends_range [OF assms(4), of x] c(2) F in auto)
  qed
  with F show ?thesis by (auto simp: appends_def)
qed

lemma appends_none: "appends cg \<lparr>e_success = [], e_failure = []\<rparr> cg"
  by (auto simp: appends_def with_code_Nil intro!: exI [of _ "[]"])

lemma rec_answers:
  "answers (list_all (eexpressible (ecg_link cg)) (prims e)) (eemit_rec e cg) \<and>
   (\<forall>p cg'. eemit_rec e cg = Inr (p, cg') \<longrightarrow> appends cg p cg')"
proof (induction e arbitrary: cg)
  case (Primitive p)
  then show ?case using answers_primitive primitive_appends by auto
next
  case (And l r)
  let ?ok = "\<lambda>e. list_all (eexpressible (ecg_link cg)) (prims e)"
  have l: "appends cg (fst x) (snd x)" if "eemit_rec l cg = Inr x" for x using And.IH(1) [of cg] that by (cases x) simp
  have r: "answers (?ok r) (rbind (eemit_rec r cg2) (\<lambda>x. Inr (g x)))" if "ecg_link cg2 = ecg_link cg"
    for cg2 and g :: "epatches \<times> ecodegen \<Rightarrow> epatches \<times> ecodegen"
    using And.IH(2) [of cg2] that by (auto intro!: answers_then)
  have "answers (?ok l \<and> ?ok r) (eemit_rec (And l r) cg)"
    unfolding eemit_rec.simps case_prod_beta
    by (rule answers_bind [OF conjunct1 [OF And.IH(1)] _ refl], rule resolved_then [where E = "[]", unfolded with_code_Nil, OF l])
      (auto intro: r)
  moreover have "appends cg p cg'" if rec: "eemit_rec (And l r) cg = Inr (p, cg')" for p cg'
  proof -
    obtain x cg2 rp where x: "eemit_rec l cg = Inr x" "eresolve_all (e_success (fst x)) (here (snd x)) (with_code (snd x) []) = Inr cg2"
      "eemit_rec r cg2 = Inr (rp, cg')" "p = \<lparr>e_success = e_success rp, e_failure = concat_vec (e_failure (fst x)) (e_failure rp)\<rparr>"
      using rec by (auto simp: rbind_eq_Inr with_code_Nil)
    show ?thesis using And.IH(2) [of cg2] x(3) by (intro appends_resolved [OF l [OF x(1)] _ x(2), of rp cg']) (auto simp: x(4))
  qed
  ultimately show ?case by simp
next
  case (Or l r)
  let ?ok = "\<lambda>e. list_all (eexpressible (ecg_link cg)) (prims e)"
  have l: "appends cg (fst x) (snd x)" if "eemit_rec l cg = Inr x" for x using Or.IH(1) [of cg] that by (cases x) simp
  have r: "answers (?ok r) (rbind (eemit_rec r cg2) (\<lambda>x. Inr (g x)))" if "ecg_link cg2 = ecg_link cg"
    for cg2 and g :: "epatches \<times> ecodegen \<Rightarrow> epatches \<times> ecodegen"
    using Or.IH(2) [of cg2] that by (auto intro!: answers_then)
  have "answers (?ok l \<and> ?ok r) (eemit_rec (Or l r) cg)"
    unfolding eemit_rec.simps case_prod_beta Let_def
    by (rule answers_bind [OF conjunct1 [OF Or.IH(1)] _ refl], rule resolved_then [OF l]) (auto intro: r)
  moreover have "appends cg p cg'" if rec: "eemit_rec (Or l r) cg = Inr (p, cg')" for p cg'
  proof -
    obtain x cg2 rp where x: "eemit_rec l cg = Inr x"
      "eresolve_all (e_failure (fst x)) (here (snd x) + 1) (with_code (snd x) [e_ja 0]) = Inr cg2" "eemit_rec r cg2 = Inr (rp, cg')"
      "p = \<lparr>e_success = concat_vec (e_success (fst x) @ [here (snd x)]) (e_success rp), e_failure = e_failure rp\<rparr>"
      using rec by (auto simp: rbind_eq_Inr Let_def)
    show ?thesis using Or.IH(2) [of cg2] x(3) by (intro appends_resolved [OF l [OF x(1)] _ x(2), of rp cg']) (auto simp: x(4))
  qed
  ultimately show ?case by simp
next
  case (Not e)
  have l: "appends cg (fst x) (snd x)" if "eemit_rec e cg = Inr x" for x using Not.IH [of cg] that by (cases x) simp
  have "answers (list_all (eexpressible (ecg_link cg)) (prims e)) (eemit_rec (expr.Not e) cg)"
    unfolding eemit_rec.simps case_prod_beta Let_def
    by (rule answers_then [OF conjunct1 [OF Not.IH]], rule resolved_then [OF l]) auto
  moreover have "appends cg p cg'" if rec: "eemit_rec (expr.Not e) cg = Inr (p, cg')" for p cg'
  proof -
    obtain x where x: "eemit_rec e cg = Inr x"
      "eresolve_all (e_failure (fst x)) (here (snd x) + 1) (with_code (snd x) [e_ja 0]) = Inr cg'"
      "p = \<lparr>e_success = [], e_failure = e_success (fst x) @ [here (snd x)]\<rparr>"
      using rec by (auto simp: rbind_eq_Inr Let_def)
    show ?thesis by (intro appends_resolved [OF l [OF x(1)] _ x(2) appends_none]) (auto simp: x(3))
  qed
  ultimately show ?case by simp
qed

text \<open>The whole generator.\<close>

lemma ebpf_compile_answers: "answers (list_all (eexpressible link) (prims e)) (ebpf_compile e link)"
proof -
  let ?cg = "\<lparr>ecg_insns = prologue, ecg_link = link\<rparr>"
  have cg: "emit_prologue (ecodegen_new link) = ?cg" by (simp add: emit_prologue_def ecodegen_new_def with_code_def)
  have "answers (list_all (eexpressible link) (prims e)) (eemit_rec e ?cg)" using rec_answers [of ?cg e] by simp
  moreover have "answers True (rbind (eresolve_all (e_success ps) t (with_code cg1 E)) (\<lambda>c.
      rbind (eresolve_all (e_failure ps) u c) (\<lambda>c. Inr (eprogram_new (ecg_insns c)))))"
    if "eemit_rec e ?cg = Inr (ps, cg1)" for ps cg1 t u E
  proof (rule answers_bind [OF answers_resolve_all answers_bind [OF answers_resolve_all]])
    have a: "appends ?cg ps cg1" using rec_answers [of ?cg e] that by blast
    then show "\<forall>p \<in> set (e_success ps). p < here (with_code cg1 E)" using appends_range [OF a] by (auto intro: trans_less_add1)
    show "\<forall>p \<in> set (e_failure ps). p < here c" if "eresolve_all (e_success ps) t (with_code cg1 E) = Inr c" for c
      using appends_trans(2) [OF a that] appends_range [OF a] by (auto intro: trans_less_add1)
  qed simp_all
  moreover have "ebpf_compile e link = rbind (eemit_rec e ?cg) (\<lambda>(ps, cg1).
      rbind (eresolve_all (e_success ps) (here cg1) (with_code cg1 epilogue)) (\<lambda>c.
      rbind (eresolve_all (e_failure ps) (here cg1 + 2) c) (\<lambda>c. Inr (eprogram_new (ecg_insns c)))))"
    by (simp add: ebpf_compile_def cg eemit_expr_rec case_prod_beta)
  ultimately show ?thesis by (auto intro: answers_then)
qed

end
