(* ===== verification/Prims_Correct.thy ===== *)
theory Prims_Correct
  imports Emit_Prims
begin

text \<open>
  Every primitive of \<open>emit_primitive\<close> emits code for \<open>prim_sem\<close>: the guards, the address and
  network tests, the port prologue with its path facts, the link-layer tests and raw byte access.
\<close>

section \<open>Offsets\<close>

text \<open>The generator stands at depth \<open>d\<close>, at most one tag deep, and every header load is below \<open>N\<close>.\<close>

definition placed :: "nat \<Rightarrow> nat \<Rightarrow> codegen \<Rightarrow> bool" where
  "placed N d cg \<longleftrightarrow> vlan_depth cg = of_nat d \<and> d \<le> 1 \<and> net_off (cg_link cg) d + 64 \<le> N"

lemma depth_cases: "placed N d cg \<Longrightarrow> (d = 0 \<and> vlan_depth cg = 0) \<or> (d = 1 \<and> vlan_depth cg = 1)"
  by (cases "d = 0") (auto simp: placed_def le_Suc_eq)

lemma net_offset_val: "placed N d cg \<Longrightarrow> unat (net_offset cg) = net_off (cg_link cg) d"
  by (drule depth_cases) (cases "cg_link cg"; auto simp: net_offset_def net_off_def)

lemma net_off_le: "placed N d cg \<Longrightarrow> net_off (cg_link cg) d \<le> 20"
  by (cases "cg_link cg") (auto simp: net_off_def placed_def)

lemma unat_add_small: "unat (a :: u32) + unat b < 2 ^ 32 \<Longrightarrow> unat (a + b) = unat a + unat b"
  by (simp add: unat_word_ariths)

lemma net_offset_add:
  "placed N d cg \<Longrightarrow> unat v \<le> 64 \<Longrightarrow> unat (net_offset cg + v) = net_off (cg_link cg) d + unat v"
  using net_off_le [of N d cg] by (subst unat_add_small) (simp_all add: net_offset_val)

lemma net_offset_word: "placed N d cg \<Longrightarrow> net_offset cg = of_nat (net_off (cg_link cg) d)"
  by (drule net_offset_val [symmetric]) simp

lemma ether_offset_val:
  assumes "placed N d cg" "ether_proto_offset cg = Some off"
  shows "cg_link cg \<noteq> RawIp" "unat off = ether_off (cg_link cg) d" "ether_off (cg_link cg) d \<le> 18"
    "ether_off (cg_link cg) d \<le> net_off (cg_link cg) d"
  using depth_cases [OF assms(1)] assms(2)
  by (cases "cg_link cg"; auto simp: ether_proto_offset_def ether_off_def net_off_def)+

lemma ether_offset_add:
  assumes "placed N d cg" "ether_proto_offset cg = Some off" "unat v \<le> 64"
  shows "unat (off + v) = ether_off (cg_link cg) d + unat v"
  using ether_offset_val [OF assms(1,2)] assms(3) by (subst unat_add_small) simp_all

lemma placed_cong: "cg_link cg' = cg_link cg \<Longrightarrow> vlan_depth cg' = vlan_depth cg \<Longrightarrow> placed N d cg' = placed N d cg"
  by (simp add: placed_def)

lemma emit_ok_placed: "emit_ok N pkt d ok cg ps cg' t \<Longrightarrow> placed N d cg' = placed N d cg"
  by (simp add: emit_ok_def placed_def)

lemma emit_ok_link: "emit_ok N pkt d ok cg ps cg' t \<Longrightarrow> cg_link cg' = cg_link cg"
  by (simp add: emit_ok_def)

section \<open>Guards\<close>

lemma no_patches_simps [simp]: "success no_patches = []" "failure no_patches = []"
  by (simp_all add: no_patches_def)

lemma emit_ethertype_ok:
  assumes "emit_ethertype et cg = Inr (ps, cg')"
    and pl: "ok \<longrightarrow> placed N d cg" "ok \<longrightarrow> d = 0 \<or> et \<noteq> 0x8100"
  shows "emit_ok N pkt d ok cg ps cg' (et_of (cg_link cg) d pkt = et) \<and> success ps = []"
proof (cases "ether_proto_offset cg")
  case None
  then have "cg_link cg = RawIp" by (cases "cg_link cg") (simp_all add: ether_proto_offset_def)
  with assms None show ?thesis
    by (auto simp: emit_ethertype_def et_of_def split: if_splits intro!: emit_ok_skip)
next
  case (Some off)
  show ?thesis
  proof (cases "ethertype (cg_facts cg) = Some et")
    case True
    then have "ps = no_patches" "cg' = cg" using assms(1) Some by (simp_all add: emit_ethertype_def)
    moreover have "et_of (cg_link cg) d pkt = et" if "ok" "knows d pkt cg x" for x
      using that True pl(2) by (auto simp: facts_ok_def split: if_splits)
    ultimately show ?thesis by (auto intro!: emit_ok_skip)
  next
    case False
    let ?F = "[ldh_abs off, jeq_k et 0 0xff]"
    let ?cg = "cg\<lparr>cg_insns := cg_insns cg @ ?F\<rparr>"
    define f where "f = (if ethertype (cg_facts cg) = None then (cg_facts cg)\<lparr>ethertype := Some et\<rparr> else cg_facts cg)"
    have out: "ps = \<lparr>success = [], failure = [Jf (length (cg_insns cg) + 1)]\<rparr>" "cg' = ?cg\<lparr>cg_facts := f\<rparr>"
      using assms(1) Some False
      by (auto simp: emit_ethertype_def check_halfword_def f_def split: if_splits)
    have "emit_ok N pkt d ok cg ps ?cg (et_of (cg_link cg) d pkt = et)"
    proof (rule emit_ok_tests [OF refl])
      show "tests N pkt (length (cg_insns cg)) ?F (success ps) (failure ps) (\<lambda>_. unat off + 2 \<le> N)
          (\<lambda>_. ldh pkt (unat off) = et)"
        using test_half by (simp add: out)
      show "unat off + 2 \<le> N \<and> (ldh pkt (unat off) = et) = (et_of (cg_link cg) d pkt = et)" if ok for x
        using ether_offset_val [OF mp [OF pl(1) that] Some] mp [OF pl(1) that]
        by (simp add: et_of_def placed_def)
    qed
    then have "emit_ok N pkt d ok cg ps cg' (et_of (cg_link cg) d pkt = et)"
      by (rule emit_ok_weaken [OF _ out(2)]) (auto simp: out f_def facts_ok_def)
    then show ?thesis by (simp add: out)
  qed
qed

text \<open>A guard followed by a test that leaves the facts alone.\<close>

lemma guarded:
  assumes g: "emit_ok N pkt d ok cg p cg1 g \<and> success p = []"
    and "cg2 = cg1\<lparr>cg_insns := cg_insns cg1 @ F\<rparr>"
    and "tests N pkt (length (cg_insns cg1)) F su fl fits t"
    and "\<And>x. ok \<Longrightarrow> knows d pkt cg1 x \<Longrightarrow> fits x \<and> t x = T"
    and "success ps = su" "failure ps = failure p @ fl"
  shows "emit_ok N pkt d ok cg ps cg2 (g \<and> T)"
proof -
  have "emit_ok N pkt d ok cg1 \<lparr>success = su, failure = fl\<rparr> cg2 T"
    by (rule emit_ok_tests [OF assms(2), where fits = fits and t = t]) (use assms(3,4) in simp_all)
  then show ?thesis by (rule emit_ok_seq [OF conjunct1 [OF g]]) (use g assms(5,6) in simp_all)
qed

lemma ldb_eq: "ldb pkt n = ucast v \<longleftrightarrow> pkt_byte pkt n = v"
proof
  assume "ldb pkt n = ucast v"
  then have "unat (ucast (pkt_byte pkt n) :: u32) = unat (ucast v :: u32)" by (simp add: ldb_def)
  then show "pkt_byte pkt n = v" by (simp add: unat_ucast_u8_u32 word_unat_eq_iff)
qed (simp add: ldb_def)

lemma emit_ip4_l4_ok:
  assumes "emit_ip4_l4 n cg = Inr (ps, cg')" and pl: "ok \<longrightarrow> placed N d cg"
  shows "emit_ok N pkt d ok cg ps cg' (is_v4 (cg_link cg) d pkt \<and> proto4 (cg_link cg) d pkt = n) \<and> success ps = []"
proof -
  obtain p cg1 where 1: "emit_ethertype 0x0800 cg = Inr (p, cg1)"
    using assms(1) by (auto simp: emit_ip4_l4_def ip4_guard_def rbind_eq_Inr)
  have g: "emit_ok N pkt d ok cg p cg1 (is_v4 (cg_link cg) d pkt) \<and> success p = []"
    using emit_ethertype_ok [OF 1 pl] by (simp add: is_v4_def)
  have link: "cg_link cg1 = cg_link cg" using g emit_ok_link by blast
  have pl1: "ok \<longrightarrow> placed N d cg1" using g pl emit_ok_placed by blast
  show ?thesis
  proof (cases "ip4_proto (cg_facts cg1) = Some n")
    case True
    then have out: "ps = p" "cg' = cg1" using assms(1) 1 by (simp_all add: emit_ip4_l4_def ip4_guard_def)
    have skip: "emit_ok N pkt d ok cg1 no_patches cg1 (proto4 (cg_link cg) d pkt = n)"
      by (rule emit_ok_skip) (use True link in \<open>auto simp: facts_ok_def\<close>)
    have "emit_ok N pkt d ok cg p cg1 (is_v4 (cg_link cg) d pkt \<and> proto4 (cg_link cg) d pkt = n)"
      by (rule emit_ok_seq [OF conjunct1 [OF g] skip]) (use g in \<open>simp_all add: no_patches_def\<close>)
    with g out show ?thesis by simp
  next
    case False
    let ?o = "net_offset cg1 + 9"
    let ?F = "[ldb_abs ?o, jeq_k (ucast n) 0 0xff]"
    let ?cg = "cg1\<lparr>cg_insns := cg_insns cg1 @ ?F\<rparr>"
    define f where "f = (if ip4_proto (cg_facts cg1) = None then (cg_facts cg1)\<lparr>ip4_proto := Some n\<rparr> else cg_facts cg1)"
    have out: "success ps = []" "failure ps = failure p @ [Jf (length (cg_insns cg1) + 1)]" "cg' = ?cg\<lparr>cg_facts := f\<rparr>"
      using assms(1) 1 False g
      by (auto simp: emit_ip4_l4_def ip4_guard_def check_byte_def f_def Let_def split: if_splits)
    have "emit_ok N pkt d ok cg ps ?cg (is_v4 (cg_link cg) d pkt \<and> proto4 (cg_link cg) d pkt = n)"
      by (rule guarded [OF g refl test_byte])
         (use out net_offset_add [of N d cg1 9] pl1 link in \<open>auto simp: placed_def ldb_eq proto4_def\<close>)
    then have "emit_ok N pkt d ok cg ps cg' (is_v4 (cg_link cg) d pkt \<and> proto4 (cg_link cg) d pkt = n)"
      by (rule emit_ok_weaken [OF _ out(3)]) (use link in \<open>auto simp: out f_def facts_ok_def\<close>)
    with out show ?thesis by simp
  qed
qed

lemma emit_ip6_l4_ok:
  assumes "emit_ip6_l4 n cg = Inr (ps, cg')" and pl: "ok \<longrightarrow> placed N d cg"
  shows "emit_ok N pkt d ok cg ps cg' (is_v6 (cg_link cg) d pkt \<and> proto6 (cg_link cg) d pkt = n) \<and> success ps = []"
proof -
  obtain p cg1 where 1: "emit_ethertype 0x86dd cg = Inr (p, cg1)"
    using assms(1) by (auto simp: emit_ip6_l4_def rbind_eq_Inr)
  have g: "emit_ok N pkt d ok cg p cg1 (is_v6 (cg_link cg) d pkt) \<and> success p = []"
    using emit_ethertype_ok [OF 1 pl] by (simp add: is_v6_def)
  have link: "cg_link cg1 = cg_link cg" using g emit_ok_link by blast
  have pl1: "ok \<longrightarrow> placed N d cg1" using g pl emit_ok_placed by blast
  show ?thesis
  proof (cases "ip6_nh (cg_facts cg1) = Some n")
    case True
    then have out: "ps = p" "cg' = cg1" using assms(1) 1 by (simp_all add: emit_ip6_l4_def)
    have skip: "emit_ok N pkt d ok cg1 no_patches cg1 (proto6 (cg_link cg) d pkt = n)"
      by (rule emit_ok_skip) (use True link in \<open>auto simp: facts_ok_def\<close>)
    have "emit_ok N pkt d ok cg p cg1 (is_v6 (cg_link cg) d pkt \<and> proto6 (cg_link cg) d pkt = n)"
      by (rule emit_ok_seq [OF conjunct1 [OF g] skip]) (use g in \<open>simp_all add: no_patches_def\<close>)
    with g out show ?thesis by simp
  next
    case False
    let ?o = "net_offset cg1 + 6"
    let ?F = "[ldb_abs ?o, jeq_k (ucast n) 0 0xff]"
    let ?cg = "cg1\<lparr>cg_insns := cg_insns cg1 @ ?F\<rparr>"
    define f where "f = (if ip6_nh (cg_facts cg1) = None then (cg_facts cg1)\<lparr>ip6_nh := Some n\<rparr> else cg_facts cg1)"
    have out: "success ps = []" "failure ps = failure p @ [Jf (length (cg_insns cg1) + 1)]" "cg' = ?cg\<lparr>cg_facts := f\<rparr>"
      using assms(1) 1 False g
      by (auto simp: emit_ip6_l4_def check_byte_def f_def Let_def split: if_splits)
    have "emit_ok N pkt d ok cg ps ?cg (is_v6 (cg_link cg) d pkt \<and> proto6 (cg_link cg) d pkt = n)"
      by (rule guarded [OF g refl test_byte])
         (use out net_offset_add [of N d cg1 6] pl1 link in \<open>auto simp: placed_def ldb_eq proto6_def\<close>)
    then have "emit_ok N pkt d ok cg ps cg' (is_v6 (cg_link cg) d pkt \<and> proto6 (cg_link cg) d pkt = n)"
      by (rule emit_ok_weaken [OF _ out(3)]) (use link in \<open>auto simp: out f_def facts_ok_def\<close>)
    with out show ?thesis by simp
  qed
qed

lemma emit_proto_ok:
  assumes "emit_proto pr cg = Inr (ps, cg')" and pl: "ok \<longrightarrow> placed N d cg"
  shows "emit_ok N pkt d ok cg ps cg' (proto_sem (cg_link cg) d pr pkt)"
  using assms(1) emit_ip4_l4_ok [OF _ pl] emit_ip6_l4_ok [OF _ pl] emit_ethertype_ok [OF _ pl]
  by (cases pr) (auto simp: is_v4_def is_v6_def)

section \<open>Hosts and networks\<close>

text \<open>Which code \<open>check_addr4\<close> and the inline \<open>SrcOrDst\<close> forms append, and what it tests.\<close>

lemma test_word_and: "tests N pkt lo [ldw_abs so, jeq_k v 0 0xff, ldw_abs de, jeq_k v 0 0xff] []
    [Jf (lo + 1), Jf (lo + 3)]
    (\<lambda>_. unat so + 4 \<le> N \<and> unat de + 4 \<le> N) (\<lambda>_. ldw pkt (unat so) = v \<and> ldw pkt (unat de) = v)"
  by (rule tests_wp) (auto simp: wp_eval)

lemma test_word_or: "tests N pkt lo [ldw_abs so, jeq_k v 0xff 0, ldw_abs de, jeq_k v 0 0xff] [Jt (lo + 1)]
    [Jf (lo + 3)]
    (\<lambda>_. unat so + 4 \<le> N \<and> unat de + 4 \<le> N) (\<lambda>_. ldw pkt (unat so) = v \<or> ldw pkt (unat de) = v)"
  by (rule tests_wp) (auto simp: wp_eval)

lemma check_addr4_ok:
  assumes "check_addr4 v so de dr cg = (q, cg')"
  shows "\<exists>F. cg' = cg\<lparr>cg_insns := cg_insns cg @ F\<rparr> \<and>
    tests N pkt (length (cg_insns cg)) F (success q) (failure q)
      (\<lambda>x. unat so + 4 \<le> N \<and> unat de + 4 \<le> N) (\<lambda>x. dir_sem dr (ldw pkt (unat so) = v) (ldw pkt (unat de) = v))"
proof -
  let ?n = "length (cg_insns cg)"
  note t = test_word [of N pkt ?n so v] test_word [of N pkt ?n de v]
    test_word_and [of N pkt ?n so v de] test_word_or [of N pkt ?n so v de]
  show ?thesis
  proof (cases dr)
    case Src
    with assms tests_mono [OF t(1)] show ?thesis by (intro exI [of _ "[ldw_abs so, jeq_k v 0 0xff]"]) force
  next
    case Dst
    with assms tests_mono [OF t(2)] show ?thesis by (intro exI [of _ "[ldw_abs de, jeq_k v 0 0xff]"]) force
  next
    case SrcAndDst
    with assms t(3) show ?thesis
      by (intro exI [of _ "[ldw_abs so, jeq_k v 0 0xff, ldw_abs de, jeq_k v 0 0xff]"])
         (auto simp: numeral_3_eq_3)
  next
    case SrcOrDst
    with assms t(4) show ?thesis
      by (intro exI [of _ "[ldw_abs so, jeq_k v 0xff 0, ldw_abs de, jeq_k v 0 0xff]"])
         (auto simp: numeral_3_eq_3)
  qed
qed

lemma test_net4_or: "tests N pkt lo
    [ldw_abs so, and_k m, jeq_k v 0xff 0, ldw_abs de, and_k m, jeq_k v 0 0xff] [Jt (lo + 2)] [Jf (lo + 5)]
    (\<lambda>_. unat so + 4 \<le> N \<and> unat de + 4 \<le> N) (\<lambda>_. ldw pkt (unat so) AND m = v \<or> ldw pkt (unat de) AND m = v)"
  by (rule tests_wp) (auto simp: wp_eval)

lemma test_port_or: "tests N pkt lo
    [ldh_ind so, jeq_k v 0xff 0, ldh_ind de, jeq_k v 0 0xff] [Jt (lo + 1)] [Jf (lo + 3)]
    (\<lambda>x. unat (x + so) + 2 \<le> N \<and> unat (x + de) + 2 \<le> N)
    (\<lambda>x. ldh pkt (unat (x + so)) = v \<or> ldh pkt (unat (x + de)) = v)"
  by (rule tests_wp) (auto simp: wp_eval)

text \<open>The IPv4 and IPv6 guards in front of an address test.\<close>

lemma v4_guard:
  assumes "ip4_guard cg = Inr (p, cg1)" and pl: "ok \<longrightarrow> placed N d cg"
  shows "emit_ok N pkt d ok cg p cg1 (is_v4 (cg_link cg) d pkt) \<and> success p = []"
    and "ok \<longrightarrow> placed N d cg1" and "cg_link cg1 = cg_link cg"
proof -
  show g: "emit_ok N pkt d ok cg p cg1 (is_v4 (cg_link cg) d pkt) \<and> success p = []"
    using emit_ethertype_ok [OF _ pl, of "0x0800"] assms(1) by (simp add: ip4_guard_def is_v4_def)
  show "ok \<longrightarrow> placed N d cg1" "cg_link cg1 = cg_link cg"
    using g pl emit_ok_placed emit_ok_link by blast+
qed

lemma v6_guard:
  assumes "emit_ethertype 0x86dd cg = Inr (p, cg1)" and pl: "ok \<longrightarrow> placed N d cg"
  shows "emit_ok N pkt d ok cg p cg1 (is_v6 (cg_link cg) d pkt) \<and> success p = []"
    and "ok \<longrightarrow> placed N d cg1" and "cg_link cg1 = cg_link cg"
proof -
  show g: "emit_ok N pkt d ok cg p cg1 (is_v6 (cg_link cg) d pkt) \<and> success p = []"
    using emit_ethertype_ok [OF assms(1) pl] by (simp add: is_v6_def)
  show "ok \<longrightarrow> placed N d cg1" "cg_link cg1 = cg_link cg"
    using g pl emit_ok_placed emit_ok_link by blast+
qed

lemma emit_host4_ok:
  assumes "emit_host4 a dr cg = Inr (ps, cg')" and pl: "ok \<longrightarrow> placed N d cg"
  shows "emit_ok N pkt d ok cg ps cg' (prim_sem (cg_link cg) d (Host (V4 a) dr) pkt)"
proof -
  obtain p cg1 where 1: "ip4_guard cg = Inr (p, cg1)"
    using assms(1) by (auto simp: emit_host4_def rbind_eq_Inr)
  obtain q cg2 where q: "check_addr4 a (net_offset cg1 + 12) (net_offset cg1 + 16) dr cg1 = (q, cg2)"
    by (metis prod.exhaust)
  have 2: "check_addr4 a (net_offset cg1 + 12) (net_offset cg1 + 16) dr cg1 = (q, cg')"
    and ps: "ps = \<lparr>success = success p @ success q, failure = failure p @ failure q\<rparr>"
    using assms(1) 1 q by (simp_all add: emit_host4_def)
  note g = v4_guard [OF 1 pl]
  obtain F where F: "cg' = cg1\<lparr>cg_insns := cg_insns cg1 @ F\<rparr>"
    and t: "tests N pkt (length (cg_insns cg1)) F (success q) (failure q)
      (\<lambda>x. unat (net_offset cg1 + 12) + 4 \<le> N \<and> unat (net_offset cg1 + 16) + 4 \<le> N)
      (\<lambda>x. dir_sem dr (ldw pkt (unat (net_offset cg1 + 12)) = a) (ldw pkt (unat (net_offset cg1 + 16)) = a))"
    using check_addr4_ok [OF 2] by blast
  have "emit_ok N pkt d ok cg ps cg' (is_v4 (cg_link cg) d pkt \<and>
      dir_sem dr (ldw pkt (net_off (cg_link cg) d + 12) = a) (ldw pkt (net_off (cg_link cg) d + 16) = a))"
    by (rule guarded [OF g(1) F t])
       (use g ps net_offset_add [of N d cg1 12] net_offset_add [of N d cg1 16] in \<open>auto simp: placed_def\<close>)
  then show ?thesis by simp
qed

lemma seg_off_val: "placed N d cg \<Longrightarrow> c \<le> 24 \<Longrightarrow> j < 8 \<Longrightarrow>
    unat (seg_off (net_offset cg + of_nat c) j) = net_off (cg_link cg) d + c + 2 * j"
proof -
  assume a: "placed N d cg" "c \<le> 24" "j < 8"
  have "seg_off (net_offset cg + of_nat c) j = net_offset cg + of_nat (c + 2 * j)"
    by (simp add: seg_off_def)
  moreover have "unat (of_nat (c + 2 * j) :: u32) = c + 2 * j"
    using a by (intro unat_of_nat_u32) simp
  ultimately show ?thesis using net_offset_add [OF a(1), of "of_nat (c + 2 * j)"] a by simp
qed

lemma emit_host6_ok:
  assumes "emit_host6 a dr cg = Inr (ps, cg')" and pl: "ok \<longrightarrow> placed N d cg"
  shows "emit_ok N pkt d ok cg ps cg' (prim_sem (cg_link cg) d (Host (V6 a) dr) pkt)"
proof -
  obtain p cg1 where 1: "emit_ethertype 0x86dd cg = Inr (p, cg1)"
    and 2: "dir_check (check_ip6_addr 0 (segments a)) (net_offset cg1 + 8) (net_offset cg1 + 24) dr p cg1 = Inr (ps, cg')"
    using assms(1) by (auto simp: emit_host6_def rbind_eq_Inr Let_def)
  note g = v6_guard [OF 1 pl]
  obtain F su fl where ps: "ps = \<lparr>success = success p @ su, failure = failure p @ fl\<rparr>"
    and F: "cg' = cg1\<lparr>cg_insns := cg_insns cg1 @ F\<rparr>"
    and t: "tests N pkt (length (cg_insns cg1)) F su fl
      (\<lambda>x. (\<forall>j < 8. unat (seg_off (net_offset cg1 + 8) j) + 2 \<le> N) \<and>
           (\<forall>j < 8. unat (seg_off (net_offset cg1 + 24) j) + 2 \<le> N))
      (\<lambda>x. dir_sem dr
         (\<forall>j < 8. ldh pkt (unat (seg_off (net_offset cg1 + 8) j)) = ucast (segments a ! j))
         (\<forall>j < 8. ldh pkt (unat (seg_off (net_offset cg1 + 24) j)) = ucast (segments a ! j)))"
    using addr6_check.directions [OF 2, of N pkt] by auto
  have "emit_ok N pkt d ok cg ps cg' (is_v6 (cg_link cg) d pkt \<and>
      dir_sem dr (addr6_at pkt (net_off (cg_link cg) d + 8) a) (addr6_at pkt (net_off (cg_link cg) d + 24) a))"
    by (rule guarded [OF g(1) F t])
       (use g ps seg_off_val [of N d cg1 8] seg_off_val [of N d cg1 24] in
         \<open>auto simp: placed_def addr6_at_def\<close>)
  then show ?thesis by simp
qed

lemma emit_net6_ok:
  assumes "emit_net6 net dr cg = Inr (ps, cg')" and pl: "ok \<longrightarrow> placed N d cg"
  shows "emit_ok N pkt d ok cg ps cg' (prim_sem (cg_link cg) d (Net6 net dr) pkt)"
proof -
  let ?m = "\<lambda>w j. seg_matches (unat (prefix_len net)) j (ldh pkt w) (segments (net6_addr net) ! j)"
  obtain p cg1 where 1: "emit_ethertype 0x86dd cg = Inr (p, cg1)"
    and 2: "dir_check (check_net6 (prefix_len net) 0 (segments (net6_addr net)))
      (net_offset cg1 + 8) (net_offset cg1 + 24) dr p cg1 = Inr (ps, cg')"
    using assms(1) by (auto simp: emit_net6_def rbind_eq_Inr Let_def)
  note g = v6_guard [OF 1 pl]
  obtain F su fl where ps: "ps = \<lparr>success = success p @ su, failure = failure p @ fl\<rparr>"
    and F: "cg' = cg1\<lparr>cg_insns := cg_insns cg1 @ F\<rparr>"
    and t: "tests N pkt (length (cg_insns cg1)) F su fl
      (\<lambda>x. (\<forall>j < 8. unat (seg_off (net_offset cg1 + 8) j) + 2 \<le> N) \<and>
           (\<forall>j < 8. unat (seg_off (net_offset cg1 + 24) j) + 2 \<le> N))
      (\<lambda>x. dir_sem dr (\<forall>j < 8. ?m (unat (seg_off (net_offset cg1 + 8) j)) j)
         (\<forall>j < 8. ?m (unat (seg_off (net_offset cg1 + 24) j)) j))"
    using net6_check.directions [OF 2, of N pkt] by auto
  have pre: "(\<forall>j < 8. ?m (unat (seg_off (net_offset cg1 + of_nat c) j)) j) =
      prefix6_at pkt (net_off (cg_link cg) d + c) (net6_addr net) (unat (prefix_len net))" if ok "c \<le> 24" for c
    using seg_off_val [OF mp [OF g(2) that(1)] that(2)] g(3)
    by (simp add: prefix6_segments [symmetric])
  have "emit_ok N pkt d ok cg ps cg' (is_v6 (cg_link cg) d pkt \<and>
      dir_sem dr (prefix6_at pkt (net_off (cg_link cg) d + 8) (net6_addr net) (unat (prefix_len net)))
        (prefix6_at pkt (net_off (cg_link cg) d + 24) (net6_addr net) (unat (prefix_len net))))"
    by (rule guarded [OF g(1) F t])
       (use g ps seg_off_val [of N d cg1 8] seg_off_val [of N d cg1 24] pre [of 8] pre [of 24] in
         \<open>auto simp: placed_def\<close>)
  then show ?thesis by simp
qed

lemma emit_net_ok:
  assumes "emit_net net dr cg = Inr (ps, cg')" and pl: "ok \<longrightarrow> placed N d cg"
  shows "emit_ok N pkt d ok cg ps cg' (prim_sem (cg_link cg) d (Net net dr) pkt)"
proof -
  let ?m = "net_mask net" and ?v = "net_addr net AND net_mask net"
  obtain p cg1 where 1: "ip4_guard cg = Inr (p, cg1)"
    using assms(1) by (auto simp: emit_net_def rbind_eq_Inr)
  note g = v4_guard [OF 1 pl]
  let ?so = "net_offset cg1 + 12" and ?de = "net_offset cg1 + 16"
  have "\<exists>F su fl. ps = \<lparr>success = success p @ su, failure = failure p @ fl\<rparr> \<and>
      cg' = cg1\<lparr>cg_insns := cg_insns cg1 @ F\<rparr> \<and>
      tests N pkt (length (cg_insns cg1)) F su fl (\<lambda>x. unat ?so + 4 \<le> N \<and> unat ?de + 4 \<le> N)
        (\<lambda>x. dir_sem dr (ldw pkt (unat ?so) AND ?m = ?v) (ldw pkt (unat ?de) AND ?m = ?v))"
  proof (cases "dr = SrcOrDst")
    case True
    with assms(1) 1 test_net4_or [of N pkt "length (cg_insns cg1)" ?so ?m ?v ?de] show ?thesis
      by (intro exI [of _ "[ldw_abs ?so, and_k ?m, jeq_k ?v 0xff 0, ldw_abs ?de, and_k ?m, jeq_k ?v 0 0xff]"]
            exI [of _ "[Jt (length (cg_insns cg1) + 2)]"] exI [of _ "[Jf (length (cg_insns cg1) + 5)]"])
         (auto simp: emit_net_def Let_def)
  next
    case False
    then have "dir_check (check_net4 ?m ?v) ?so ?de dr p cg1 = Inr (ps, cg')"
      using assms(1) 1 by (cases dr) (simp_all add: emit_net_def Let_def)
    from net4_check.directions [OF this, of N pkt] show ?thesis .
  qed
  then obtain F su fl where ps: "ps = \<lparr>success = success p @ su, failure = failure p @ fl\<rparr>"
    and F: "cg' = cg1\<lparr>cg_insns := cg_insns cg1 @ F\<rparr>"
    and t: "tests N pkt (length (cg_insns cg1)) F su fl (\<lambda>x. unat ?so + 4 \<le> N \<and> unat ?de + 4 \<le> N)
        (\<lambda>x. dir_sem dr (ldw pkt (unat ?so) AND ?m = ?v) (ldw pkt (unat ?de) AND ?m = ?v))" by blast
  have "emit_ok N pkt d ok cg ps cg' (is_v4 (cg_link cg) d pkt \<and>
      dir_sem dr (ldw pkt (net_off (cg_link cg) d + 12) AND ?m = ?v) (ldw pkt (net_off (cg_link cg) d + 16) AND ?m = ?v))"
    by (rule guarded [OF g(1) F t])
       (use g ps net_offset_add [of N d cg1 12] net_offset_add [of N d cg1 16] in \<open>auto simp: placed_def\<close>)
  then show ?thesis by simp
qed

lemma test_word_mask: "tests N pkt lo [ldw_abs off, and_k m, jeq_k v 0 0xff] [] [Jf (lo + 2)]
    (\<lambda>_. unat off + 4 \<le> N) (\<lambda>_. ldw pkt (unat off) AND m = v)"
  by (rule tests_wp) (auto simp: wp_eval)

lemma emit_ip_broadcast_ok:
  assumes "emit_ip_broadcast cg = Inr (ps, cg')" and pl: "ok \<longrightarrow> placed N d cg"
  shows "emit_ok N pkt d ok cg ps cg' (prim_sem (cg_link cg) d IpBroadcast pkt)"
proof -
  obtain p cg1 where 1: "ip4_guard cg = Inr (p, cg1)"
    using assms(1) by (auto simp: emit_ip_broadcast_def rbind_eq_Inr)
  note g = v4_guard [OF 1 pl]
  let ?F = "[ldw_abs (net_offset cg1 + 16), jeq_k 0xffffffff 0 0xff]"
  have out: "success ps = success p" "failure ps = failure p @ [Jf (length (cg_insns cg1) + 1)]"
    "cg' = cg1\<lparr>cg_insns := cg_insns cg1 @ ?F\<rparr>"
    using assms(1) 1 by (auto simp: emit_ip_broadcast_def check_word_def Let_def)
  have "emit_ok N pkt d ok cg ps cg' (is_v4 (cg_link cg) d pkt \<and> ldw pkt (net_off (cg_link cg) d + 16) = 0xffffffff)"
    by (rule guarded [OF g(1) out(3) test_word])
       (use g out net_offset_add [of N d cg1 16] in \<open>auto simp: placed_def\<close>)
  then show ?thesis by simp
qed

lemma multicast_mask: "net_mask (from_prefix 0xe0000000 4) = 0xf0000000"
  by (simp add: from_prefix_def mask_eq_exp_minus_1 not_eq_complement)

lemma emit_ip_multicast_ok:
  assumes "emit_ip_multicast cg = Inr (ps, cg')" and pl: "ok \<longrightarrow> placed N d cg"
  shows "emit_ok N pkt d ok cg ps cg' (prim_sem (cg_link cg) d IpMulticast pkt)"
proof -
  obtain p cg1 where 1: "ip4_guard cg = Inr (p, cg1)"
    using assms(1) by (auto simp: emit_ip_multicast_def rbind_eq_Inr)
  note g = v4_guard [OF 1 pl]
  let ?F = "[ldw_abs (net_offset cg1 + 16), and_k 0xf0000000, jeq_k 0xe0000000 0 0xff]"
  have out: "success ps = success p" "failure ps = failure p @ [Jf (length (cg_insns cg1) + 2)]"
    "cg' = cg1\<lparr>cg_insns := cg_insns cg1 @ ?F\<rparr>"
    using assms(1) 1 by (auto simp: emit_ip_multicast_def Let_def)
  have "emit_ok N pkt d ok cg ps cg' (is_v4 (cg_link cg) d pkt \<and>
      ldw pkt (net_off (cg_link cg) d + 16) AND 0xf0000000 = 0xe0000000)"
    by (rule guarded [OF g(1) out(3) test_word_mask])
       (use g out net_offset_add [of N d cg1 16] in \<open>auto simp: placed_def\<close>)
  then show ?thesis by (simp add: multicast_mask)
qed

lemma emit_ip6_multicast_ok:
  assumes "emit_ip6_multicast cg = Inr (ps, cg')" and pl: "ok \<longrightarrow> placed N d cg"
  shows "emit_ok N pkt d ok cg ps cg' (prim_sem (cg_link cg) d Ip6Multicast pkt)"
proof -
  obtain p cg1 where 1: "emit_ethertype 0x86dd cg = Inr (p, cg1)"
    using assms(1) by (auto simp: emit_ip6_multicast_def rbind_eq_Inr)
  note g = v6_guard [OF 1 pl]
  let ?F = "[ldb_abs (net_offset cg1 + 24), jeq_k 0xff 0 0xff]"
  have out: "success ps = success p" "failure ps = failure p @ [Jf (length (cg_insns cg1) + 1)]"
    "cg' = cg1\<lparr>cg_insns := cg_insns cg1 @ ?F\<rparr>"
    using assms(1) 1 by (auto simp: emit_ip6_multicast_def check_byte_def Let_def)
  have "emit_ok N pkt d ok cg ps cg' (is_v6 (cg_link cg) d pkt \<and> pkt_byte pkt (net_off (cg_link cg) d + 24) = 0xff)"
    by (rule guarded [OF g(1) out(3) test_byte])
       (use g out net_offset_add [of N d cg1 24] ldb_eq [of pkt _ "0xff"] in \<open>auto simp: placed_def\<close>)
  then show ?thesis by simp
qed

section \<open>The link layer\<close>

lemma emit_vlan_ok:
  assumes "emit_vlan vid cg = Inr (ps, cg')" and pl: "ok \<longrightarrow> placed N d cg" "ok \<longrightarrow> d = 0"
  shows "emit_ok N pkt d ok cg ps cg' (prim_sem (cg_link cg) d (Vlan vid) pkt) \<and> success ps = []"
proof -
  obtain p cg1 where 1: "emit_ethertype 0x8100 cg = Inr (p, cg1)"
    using assms(1) by (auto simp: emit_vlan_def rbind_eq_Inr)
  have g: "emit_ok N pkt d ok cg p cg1 (et_of (cg_link cg) d pkt = 0x8100) \<and> success p = []"
    using emit_ethertype_ok [OF 1 pl(1)] pl(2) by simp
  have link: "cg_link cg1 = cg_link cg" using g emit_ok_link by blast
  have pl1: "ok \<longrightarrow> placed N d cg1" using g pl emit_ok_placed by blast
  show ?thesis
  proof (cases vid)
    case None
    with assms(1) 1 g show ?thesis by (simp add: emit_vlan_def)
  next
    case (Some v)
    obtain off where off: "ether_proto_offset cg = Some off"
      using 1 by (cases "ether_proto_offset cg") (simp_all add: emit_ethertype_def)
    have "vlan_depth cg1 = vlan_depth cg" using g by (simp add: emit_ok_def)
    then have off1: "ether_proto_offset cg1 = Some off" using off link by (simp add: ether_proto_offset_def)
    let ?F = "[ldh_abs (off + 2), and_k 0x0fff, jeq_k (ucast v) 0 0xff]"
    have out: "success ps = []" "failure ps = failure p @ [Jf (length (cg_insns cg1) + 2)]"
      "cg' = cg1\<lparr>cg_insns := cg_insns cg1 @ ?F\<rparr>"
      using assms(1) 1 off1 g Some by (auto simp: emit_vlan_def Let_def)
    have "emit_ok N pkt d ok cg ps cg' (et_of (cg_link cg) d pkt = 0x8100 \<and>
        ldh pkt (ether_off (cg_link cg) d + 2) AND 0x0fff = ucast v)"
      by (rule guarded [OF g out(3) test_half_mask])
         (use pl1 link out ether_offset_add [of N d cg1 off 2] ether_offset_val [of N d cg1 off] off1 in
           \<open>auto simp: placed_def\<close>)
    then show ?thesis using out Some by simp
  qed
qed

lemma emit_pppoe_session_ok:
  assumes "emit_pppoe_session sid cg = Inr (ps, cg')" and pl: "ok \<longrightarrow> placed N d cg"
  shows "emit_ok N pkt d ok cg ps cg' (prim_sem (cg_link cg) d (PppoeSession sid) pkt)"
proof -
  obtain p cg1 where 1: "emit_ethertype 0x8864 cg = Inr (p, cg1)"
    using assms(1) by (auto simp: emit_pppoe_session_def rbind_eq_Inr)
  have g: "emit_ok N pkt d ok cg p cg1 (et_of (cg_link cg) d pkt = 0x8864) \<and> success p = []"
    using emit_ethertype_ok [OF 1 pl] by simp
  have link: "cg_link cg1 = cg_link cg" using g emit_ok_link by blast
  have pl1: "ok \<longrightarrow> placed N d cg1" using g pl emit_ok_placed by blast
  show ?thesis
  proof (cases sid)
    case None
    with assms(1) 1 g show ?thesis by (simp add: emit_pppoe_session_def)
  next
    case (Some v)
    obtain off where off: "ether_proto_offset cg = Some off"
      using 1 by (cases "ether_proto_offset cg") (simp_all add: emit_ethertype_def)
    have "vlan_depth cg1 = vlan_depth cg" using g by (simp add: emit_ok_def)
    then have off1: "ether_proto_offset cg1 = Some off" using off link by (simp add: ether_proto_offset_def)
    let ?F = "[ldh_abs (off + 4), jeq_k (ucast v) 0 0xff]"
    have out: "success ps = []" "failure ps = failure p @ [Jf (length (cg_insns cg1) + 1)]"
      "cg' = cg1\<lparr>cg_insns := cg_insns cg1 @ ?F\<rparr>"
      using assms(1) 1 off1 g Some by (auto simp: emit_pppoe_session_def Let_def)
    have "emit_ok N pkt d ok cg ps cg' (et_of (cg_link cg) d pkt = 0x8864 \<and>
        ldh pkt (ether_off (cg_link cg) d + 4) = ucast v)"
      by (rule guarded [OF g out(3) test_half])
         (use pl1 link out ether_offset_add [of N d cg1 off 4] ether_offset_val [of N d cg1 off] off1 in
           \<open>auto simp: placed_def\<close>)
    then show ?thesis using Some by simp
  qed
qed

text \<open>
  What the MPLS test really does: the unicast ethertype is accepted at once, whatever the label. So
  it is right for the test without a label only.
\<close>

lemma test_mpls: "tests N pkt lo [ldh_abs off, jeq_k 0x8847 0xff 0, jeq_k 0x8848 0 0xff] [Jt (lo + 1)] [Jf (lo + 2)]
    (\<lambda>_. unat off + 2 \<le> N) (\<lambda>_. ldh pkt (unat off) = 0x8847 \<or> ldh pkt (unat off) = 0x8848)"
  by (rule tests_wp) (auto simp: wp_eval)

lemma test_mpls_label: "tests N pkt lo
    [ldh_abs off, jeq_k 0x8847 0xff 0, jeq_k 0x8848 0 0xff, ldw_abs off2, rsh_k 12, jeq_k l 0 0xff]
    [Jt (lo + 1)] [Jf (lo + 2), Jf (lo + 5)]
    (\<lambda>_. unat off + 2 \<le> N \<and> unat off2 + 4 \<le> N)
    (\<lambda>_. ldh pkt (unat off) = 0x8847 \<or>
       (ldh pkt (unat off) = 0x8848 \<and> drop_bit 12 (ldw pkt (unat off2)) = l))"
  by (rule tests_wp) (auto simp: wp_eval)

definition mpls_code_sem :: "link_type \<Rightarrow> nat \<Rightarrow> u32 option \<Rightarrow> packet \<Rightarrow> bool" where
  "mpls_code_sem link d lbl pkt \<longleftrightarrow>
     et_of link d pkt = 0x8847 \<or>
     (et_of link d pkt = 0x8848 \<and>
      (case lbl of None \<Rightarrow> True | Some l \<Rightarrow> drop_bit 12 (ldw pkt (ether_off link d + 2)) = l))"

lemma emit_mpls_code:
  assumes "emit_mpls lbl cg = Inr (ps, cg')" and pl: "ok \<longrightarrow> placed N d cg"
  shows "emit_ok N pkt d ok cg ps cg' (mpls_code_sem (cg_link cg) d lbl pkt)"
proof -
  let ?n = "length (cg_insns cg)"
  obtain off where off: "ether_proto_offset cg = Some off"
    using assms(1) by (cases "ether_proto_offset cg") (simp_all add: emit_mpls_def)
  have at: "unat off + 8 \<le> N \<and> unat off = ether_off (cg_link cg) d \<and> cg_link cg \<noteq> RawIp \<and>
      unat (off + 2) = ether_off (cg_link cg) d + 2" if ok
    using mp [OF pl that] ether_offset_val [OF mp [OF pl that] off] ether_offset_add [OF mp [OF pl that] off, of 2]
    by (simp add: placed_def)
  show ?thesis
  proof (cases lbl)
    case None
    let ?F = "[ldh_abs off, jeq_k 0x8847 0xff 0, jeq_k 0x8848 0 0xff]"
    have out: "success ps = [Jt (?n + 1)]" "failure ps = [Jf (?n + 2)]" "cg' = cg\<lparr>cg_insns := cg_insns cg @ ?F\<rparr>"
      using assms(1) off None by (auto simp: emit_mpls_def Let_def)
    show ?thesis
      by (rule emit_ok_tests [OF out(3) test_mpls [of N pkt ?n off, folded out(1,2)]])
         (use at None in \<open>auto simp: mpls_code_sem_def et_of_def\<close>)
  next
    case (Some l)
    let ?F = "[ldh_abs off, jeq_k 0x8847 0xff 0, jeq_k 0x8848 0 0xff, ldw_abs (off + 2), rsh_k 12, jeq_k l 0 0xff]"
    have out: "success ps = [Jt (?n + 1)]" "failure ps = [Jf (?n + 2), Jf (?n + 5)]"
      "cg' = cg\<lparr>cg_insns := cg_insns cg @ ?F\<rparr>"
      using assms(1) off Some by (auto simp: emit_mpls_def Let_def)
    show ?thesis
      by (rule emit_ok_tests [OF out(3) test_mpls_label [of N pkt ?n off "off + 2" l, folded out(1,2)]])
         (use at Some in \<open>auto simp: mpls_code_sem_def et_of_def\<close>)
  qed
qed

lemma emit_ether_host_ok:
  assumes "emit_ether_host m dr cg = Inr (ps, cg')" and pl: "ok \<longrightarrow> placed N d cg"
  shows "emit_ok N pkt d ok cg ps cg' (prim_sem (cg_link cg) d (EtherHost m dr) pkt)"
proof -
  let ?n = "length (cg_insns cg)"
  let ?fits = "\<lambda>(o' :: u32) x. unat o' + 4 \<le> N \<and> unat (o' + 4) + 2 \<le> N"
  let ?t = "\<lambda>(o' :: u32) x. ldw pkt (unat o') = mac_word m \<and> ldh pkt (unat (o' + 4)) = mac_half m"
  have "\<exists>F. cg' = cg\<lparr>cg_insns := cg_insns cg @ F\<rparr> \<and>
      tests N pkt ?n F (success ps) (failure ps) (\<lambda>x. ?fits 0 x \<and> ?fits 6 x)
        (\<lambda>x. dir_sem dr (?t 6 x) (?t 0 x))"
  proof (cases dr)
    case Src
    obtain F fl where "check_mac m 6 cg [] = ([] @ fl, cg\<lparr>cg_insns := cg_insns cg @ F\<rparr>)"
      "tests N pkt ?n F [] fl (?fits 6) (?t 6)"
      using check_mac_ok [of m 6 cg "[]" N pkt] by blast
    with Src assms(1) show ?thesis
      by (intro exI [of _ F]) (auto simp: emit_ether_host_def split: if_splits elim!: tests_mono)
  next
    case Dst
    obtain F fl where "check_mac m 0 cg [] = ([] @ fl, cg\<lparr>cg_insns := cg_insns cg @ F\<rparr>)"
      "tests N pkt ?n F [] fl (?fits 0) (?t 0)"
      using check_mac_ok [of m 0 cg "[]" N pkt] by blast
    with Dst assms(1) show ?thesis
      by (intro exI [of _ F]) (auto simp: emit_ether_host_def split: if_splits elim!: tests_mono)
  next
    case SrcAndDst
    obtain f1 c1 f2 c2 where c: "check_mac m 0 cg [] = (f1, c1)" "check_mac m 6 c1 f1 = (f2, c2)"
      by (metis prod.exhaust)
    obtain F fl where "f2 = fl" "c2 = cg\<lparr>cg_insns := cg_insns cg @ F\<rparr>"
      "tests N pkt ?n F [] fl (\<lambda>x. ?fits 0 x \<and> ?fits 6 x) (\<lambda>x. ?t 0 x \<and> ?t 6 x)"
      using mac_check.both_in_order [OF c, of N pkt] by auto
    with SrcAndDst assms(1) c show ?thesis
      by (intro exI [of _ F]) (auto simp: emit_ether_host_def split: if_splits elim!: tests_mono)
  next
    case SrcOrDst
    then have "either_check (check_mac m) 0 6 no_patches cg = Inr (ps, cg')"
      using assms(1) by (simp add: emit_ether_host_def split: if_splits)
    then obtain F su fl where "ps = \<lparr>success = su, failure = fl\<rparr>" "cg' = cg\<lparr>cg_insns := cg_insns cg @ F\<rparr>"
      "tests N pkt ?n F su fl (\<lambda>x. ?fits 0 x \<and> ?fits 6 x) (\<lambda>x. ?t 0 x \<or> ?t 6 x)"
      using mac_check.either [of m 0 6 no_patches cg ps cg' N pkt] by auto
    with SrcOrDst show ?thesis by (intro exI [of _ F]) (auto elim!: tests_mono)
  qed
  then obtain F where F: "cg' = cg\<lparr>cg_insns := cg_insns cg @ F\<rparr>"
    and t: "tests N pkt ?n F (success ps) (failure ps) (\<lambda>x. ?fits 0 x \<and> ?fits 6 x)
        (\<lambda>x. dir_sem dr (?t 6 x) (?t 0 x))" by blast
  have "?t 6 x = mac_at pkt 6 m" "?t 0 x = mac_at pkt 0 m" for x
    using mac_fields [of pkt 6 m] mac_fields [of pkt 0 m] by simp_all
  then show ?thesis
    by (intro emit_ok_tests [OF F t]) (use pl in \<open>auto simp: placed_def\<close>)
qed

lemma emit_ether_multicast_ok:
  assumes "emit_ether_multicast cg = Inr (ps, cg')" and pl: "ok \<longrightarrow> placed N d cg"
  shows "emit_ok N pkt d ok cg ps cg' (prim_sem (cg_link cg) d EtherMulticast pkt)"
proof -
  let ?n = "length (cg_insns cg)" and ?F = "[ldb_abs 0, jset_k 0x01 0 0xff]"
  have out: "success ps = []" "failure ps = [Jf (?n + 1)]" "cg' = cg\<lparr>cg_insns := cg_insns cg @ ?F\<rparr>"
    using assms(1) by (auto simp: emit_ether_multicast_def split: if_splits)
  have t: "tests N pkt ?n ?F (success ps) (failure ps) (\<lambda>_. 1 \<le> N) (\<lambda>_. ldb pkt 0 AND 1 \<noteq> 0)"
    unfolding out(1,2) by (rule tests_wp) (auto simp: wp_eval)
  have "ldb pkt 0 AND 1 \<noteq> 0 \<longleftrightarrow> bit (pkt_byte pkt 0) 0"
  proof -
    have "ldb pkt 0 AND 1 \<noteq> 0 \<longleftrightarrow> bit (ldb pkt 0) 0" by (simp add: and_one_eq bit_0 mod2_eq_if)
    also have "\<dots> \<longleftrightarrow> bit (pkt_byte pkt 0) 0" by (simp add: ldb_def bit_ucast_iff)
    finally show ?thesis .
  qed
  then show ?thesis
    by (intro emit_ok_tests [OF out(3) t]) (use pl in \<open>auto simp: placed_def\<close>)
qed

section \<open>Lengths and raw bytes\<close>

lemma wp_pc [simp]: "wp N pkt lo F L Q (s\<lparr>pc := n\<rparr>) = wp N pkt lo F L Q s"
proof (induction N pkt lo F L Q s rule: wp.induct)
  case (2 N pkt lo i F L Q s)
  have "cond_taken i (s\<lparr>pc := n\<rparr>) = cond_taken i s" by (simp add: cond_taken_def)
  then show ?case using 2 by (auto split: option.splits)
qed simp

lemma wp_a_pc [simp]: "wp N pkt lo F L Q (s\<lparr>pc := n, a_reg := v\<rparr>) = wp N pkt lo F L Q (s\<lparr>a_reg := v\<rparr>)"
proof -
  have "s\<lparr>pc := n, a_reg := v\<rparr> = s\<lparr>a_reg := v\<rparr>\<lparr>pc := n\<rparr>" by simp
  then show ?thesis by (simp only: wp_pc)
qed

lemma wp_step:
  "\<not> is_ja i \<Longrightarrow> \<not> is_cond_jump i \<Longrightarrow> reg_step i pkt s = Continue s' \<Longrightarrow>
   wp N pkt (lo + 1) F L Q s' \<Longrightarrow> wp N pkt lo (i # F) L Q s"
  by simp

lemma wp_load:
  assumes "(if ind then unat (x_reg s + off) else unat off) + size_bytes sz \<le> N"
    and "wp N pkt (lo + 1) F L Q (s\<lparr>a_reg := sized pkt sz (if ind then unat (x_reg s + off) else unat off)\<rparr>)"
  shows "wp N pkt lo (sized_load_insn off sz ind # F) L Q s"
  using assms by (cases sz; cases ind) (simp_all add: fetch_def)

fun alu_insn :: "arith_op \<times> u32 \<Rightarrow> insn" where
  "alu_insn (OpAnd, v) = and_k v"
| "alu_insn (OpOr, v) = or_k v"
| "alu_insn (OpXor, v) = xor_k v"
| "alu_insn (OpAdd, v) = add_k v"
| "alu_insn (OpSub, v) = sub_k v"
| "alu_insn (OpMul, v) = mul_k v"
| "alu_insn (OpDiv, v) = div_k v"
| "alu_insn (OpMod, v) = div_k v"
| "alu_insn (OpShl, v) = lsh_k v"
| "alu_insn (OpShr, v) = rsh_k v"

definition alu_ok :: "arith_op \<times> u32 \<Rightarrow> bool" where
  "alu_ok av \<longleftrightarrow> fst av \<noteq> OpMod \<and> (fst av = OpDiv \<longrightarrow> snd av \<noteq> 0)"

lemma emit_alu_ops_Inr:
  "emit_alu_ops ops cg = Inr cg' \<Longrightarrow>
   list_all alu_ok ops \<and> cg' = cg\<lparr>cg_insns := cg_insns cg @ map alu_insn ops\<rparr>"
proof (induction ops cg rule: emit_alu_ops.induct)
  case (2 aop v ops cg)
  obtain cg1 where 1: "emit_alu_op aop v cg = Inr cg1" and r: "emit_alu_ops ops cg1 = Inr cg'"
    using "2.prems" by (auto simp: rbind_eq_Inr)
  have "alu_ok (aop, v) \<and> cg1 = cg\<lparr>cg_insns := cg_insns cg @ [alu_insn (aop, v)]\<rparr>"
    using 1 by (cases aop) (auto simp: alu_ok_def split: if_splits)
  with "2.IH" [OF 1 r] show ?case by auto
qed simp

definition alu_fold :: "(arith_op \<times> u32) list \<Rightarrow> u32 \<Rightarrow> u32" where
  "alu_fold ops a = foldl (\<lambda>a (opr, v). arith_sem opr a v) a ops"

lemma wp_alu:
  "list_all alu_ok ops \<Longrightarrow> wp N pkt (lo + length ops) F L Q (s\<lparr>a_reg := alu_fold ops (a_reg s)\<rparr>) \<Longrightarrow>
   wp N pkt lo (map alu_insn ops @ F) L Q s"
proof (induction ops arbitrary: lo s)
  case Nil
  then show ?case by (simp add: alu_fold_def)
next
  case (Cons av ops)
  obtain aop v where av: "av = (aop, v)" by (cases av)
  let ?s = "s\<lparr>a_reg := arith_sem aop (a_reg s) v\<rparr>"
  have "wp N pkt (lo + 1) (map alu_insn ops @ F) L Q ?s"
    using Cons.prems by (intro Cons.IH) (simp_all add: alu_fold_def av)
  then show ?case
    using Cons.prems(1) by (cases aop) (simp_all add: av alu_ok_def)
qed

lemma wp_cmp:
  "wp N pkt lo [fst (cmp_insn opr v)] (pend [] [field_patch (snd (cmp_insn opr v)) lo]) Q s =
     (if cmp_sem opr (a_reg s) v then Q None (x_reg s) else Q (Some EFail) (x_reg s))"
  by (cases opr) (auto simp: pend_def field_patch_def)

lemma wp_cmp_x:
  "wp N pkt lo [fst (cmp_x_insn opr)] (pend [] [field_patch (snd (cmp_x_insn opr)) lo]) Q s =
     (if cmp_sem opr (x_reg s) (a_reg s) then Q None (x_reg s) else Q (Some EFail) (x_reg s))"
  by (cases opr) (auto simp: pend_def field_patch_def and.commute)

text \<open>Straight-line code in front of one comparison.\<close>

definition straight :: "insn list \<Rightarrow> bool" where
  "straight F \<longleftrightarrow> (\<forall>i \<in> set F. \<not> is_ja i \<and> \<not> is_cond_jump i \<and> misc_ok i)"

definition compare :: "insn \<times> patch_field \<Rightarrow> bool" where
  "compare = (\<lambda>(i, fld). is_cond_jump i \<and> misc_ok i \<and> (case fld of FieldJf \<Rightarrow> jt i = 0 | FieldJt \<Rightarrow> jf i = 0))"

lemma compare_ctors [simp]: "compare (cmp_insn opr v)" "compare (cmp_x_insn opr)"
  by (cases opr; simp add: compare_def)+

lemma frag_line:
  assumes "straight F" "compare (i, fld)"
    and "\<And>s. ready s \<Longrightarrow> A (x_reg s) \<Longrightarrow> wp N pkt lo (F @ [i]) (pend [] [field_patch fld (lo + length F)]) Q s"
  shows "frag N pkt lo (F @ [i]) (pend [] [field_patch fld (lo + length F)]) A Q"
proof (rule frag_wp)
  let ?L = "pend [] [field_patch fld (lo + length F)]"
  show "in_range lo (F @ [i]) ?L" by (cases fld) (auto simp: pend_range field_patch_def)
  have last: "shaped (lo + length F) [i] ?L"
    using assms(2) by (cases fld) (auto simp: compare_def pend_def field_patch_def dest: is_ja_not_cond)
  have front: "straight G \<Longrightarrow> n + length G \<le> lo + length F \<Longrightarrow> shaped n G ?L" for n G
  proof (induction G arbitrary: n)
    case (Cons j G)
    then show ?case by (cases fld) (auto simp: straight_def pend_def field_patch_def)
  qed simp
  show "shaped lo (F @ [i]) ?L"
    using shaped_append [OF front [OF assms(1)] last] by simp
qed (use assms(3) in blast)

lemma emit_ok_line:
  assumes cg': "cg' = cg\<lparr>cg_insns := cg_insns cg @ F\<rparr>"
    and ps: "success ps = []" "failure ps = fl"
    and frag: "\<And>x0. frag N pkt (length (cg_insns cg)) F (pend [] fl) (\<lambda>x. x = x0 \<and> ok)
      (\<lambda>l x. x = x0 \<and> (case l of None \<Rightarrow> t | Some EFail \<Rightarrow> \<not> t | _ \<Rightarrow> False))"
  shows "emit_ok N pkt d ok cg ps cg' t"
proof -
  have "frag N pkt (length (cg_insns cg)) F (pend (success ps) (failure ps))
       (\<lambda>x. x = x0 \<and> ok \<and> knows d pkt cg x)
       (\<lambda>l x. kept cg cg' x0 x \<and> outcome ps t (knows d pkt cg') l x)" for x0
  proof -
    have "frag N pkt (length (cg_insns cg)) F (pend [] fl) (\<lambda>x. x = x0 \<and> ok \<and> knows d pkt cg x)
        (\<lambda>l x. x = x0 \<and> (case l of None \<Rightarrow> t | Some EFail \<Rightarrow> \<not> t | _ \<Rightarrow> False))"
      by (rule frag_conseq [OF frag [of x0]]) auto
    then have "frag N pkt (length (cg_insns cg)) F (pend [] fl) (\<lambda>x. x = x0 \<and> ok \<and> knows d pkt cg x)
        (\<lambda>l x. knows d pkt cg x0 \<and> x = x0 \<and> (case l of None \<Rightarrow> t | Some EFail \<Rightarrow> \<not> t | _ \<Rightarrow> False))"
      by (rule frag_const) auto
    then show ?thesis unfolding ps
      by (rule frag_conseq) (use cg' ps in \<open>auto simp: kept_def outcome_def split: option.splits exit.splits\<close>)
  qed
  then show ?thesis unfolding emit_ok_def using cg' ps by auto
qed

lemma emit_ok_clobber:
  assumes cg': "cg' = cg\<lparr>cg_insns := cg_insns cg @ F, x_writes := x_writes cg + Suc k,
      cg_facts := (cg_facts cg)\<lparr>ports_ready := None\<rparr>\<rparr>"
    and ps: "success ps = []" "failure ps = fl"
    and frag: "frag N pkt (length (cg_insns cg)) F (pend [] fl) (\<lambda>x. ok)
      (\<lambda>l x. case l of None \<Rightarrow> t | Some EFail \<Rightarrow> \<not> t | _ \<Rightarrow> False)"
  shows "emit_ok N pkt d ok cg ps cg' t"
proof -
  have "frag N pkt (length (cg_insns cg)) F (pend (success ps) (failure ps))
       (\<lambda>x. x = x0 \<and> ok \<and> knows d pkt cg x)
       (\<lambda>l x. kept cg cg' x0 x \<and> outcome ps t (knows d pkt cg') l x)" for x0
  proof -
    have "frag N pkt (length (cg_insns cg)) F (pend [] fl) (\<lambda>x. x = x0 \<and> ok \<and> knows d pkt cg x)
        (\<lambda>l x. case l of None \<Rightarrow> t | Some EFail \<Rightarrow> \<not> t | _ \<Rightarrow> False)"
      by (rule frag_conseq [OF frag]) auto
    then have "frag N pkt (length (cg_insns cg)) F (pend [] fl) (\<lambda>x. x = x0 \<and> ok \<and> knows d pkt cg x)
        (\<lambda>l x. knows d pkt cg x0 \<and> (case l of None \<Rightarrow> t | Some EFail \<Rightarrow> \<not> t | _ \<Rightarrow> False))"
      by (rule frag_const) auto
    moreover have "knows d pkt cg' x" if "knows d pkt cg x0" for x
      using facts_ok_drop [OF that, of x] cg' by simp
    ultimately show ?thesis unfolding ps
      by (elim frag_conseq) (use cg' ps in \<open>auto simp: kept_def outcome_def split: option.splits exit.splits\<close>)
  qed
  then show ?thesis unfolding emit_ok_def using cg' ps by auto
qed

lemma ready_update [simp]: "ready (s\<lparr>a_reg := v\<rparr>) = ready s" "ready (s\<lparr>x_reg := v\<rparr>) = ready s"
  "ready (s\<lparr>pc := n\<rparr>) = ready s"
  by (simp_all add: ready_def)

lemma emit_len_ok: "emit_len opr v cg = (ps, cg') \<Longrightarrow> emit_ok N pkt d ok cg ps cg' (cmp_sem opr (of_nat (length pkt)) v)"
proof -
  assume a: "emit_len opr v cg = (ps, cg')"
  let ?i = "cmp_insn opr v" and ?n = "length (cg_insns cg)"
  have i: "code (fst ?i) AND 7 \<noteq> 1" "code (fst ?i) \<noteq> 7" by (cases opr; simp)+
  have out: "cg' = cg\<lparr>cg_insns := cg_insns cg @ [ld_len] @ [fst ?i]\<rparr>" "success ps = []"
    "failure ps = [field_patch (snd ?i) (?n + length [ld_len])]"
    using a i by (auto simp: emit_len_def emit_cmp_def split_beta)
  show ?thesis
  proof (rule emit_ok_line [OF out], rule frag_line)
    fix x0 :: u32 and s :: vm_state
    assume "x_reg s = x0 \<and> ok"
    note x = this
    show "wp N pkt ?n ([ld_len] @ [fst ?i]) (pend [] [field_patch (snd ?i) (?n + length [ld_len])])
        (\<lambda>l x. x = x0 \<and> (case l of None \<Rightarrow> cmp_sem opr (of_nat (length pkt)) v
          | Some EFail \<Rightarrow> \<not> cmp_sem opr (of_nat (length pkt)) v | _ \<Rightarrow> False)) s"
      unfolding append.simps
      by (rule wp_step [where s' = "s\<lparr>a_reg := of_nat (length pkt)\<rparr>\<lparr>pc := 1\<rparr>"])
         (simp_all add: wp_cmp x del: wp.simps)
  qed (simp_all add: straight_def)
qed

text \<open>The instructions that bring a field of a layer into the accumulator.\<close>

fun layer_code :: "codegen \<Rightarrow> layer \<Rightarrow> u32 \<Rightarrow> access_size \<Rightarrow> insn list" where
  "layer_code cg Trans off sz = [ldx_msh (net_offset cg), sized_load_insn (net_offset cg + off) sz True]"
| "layer_code cg ly off sz = [sized_load_insn (layer_offset ly off cg) sz False]"

lemma ihl_le: "unat (ihl_bytes link d pkt) \<le> 60"
proof -
  have "ldb pkt (net_off link d) AND 15 \<le> 15" by (rule word_and_le1)
  then have "unat (ldb pkt (net_off link d) AND 15) \<le> 15" by (simp add: word_le_nat_alt)
  then show ?thesis by (simp add: ihl_bytes_def unat_word_ariths)
qed

lemma wp_x_pc [simp]: "wp N pkt lo F L Q (s\<lparr>pc := n, x_reg := v\<rparr>) = wp N pkt lo F L Q (s\<lparr>x_reg := v\<rparr>)"
proof -
  have "s\<lparr>pc := n, x_reg := v\<rparr> = s\<lparr>x_reg := v\<rparr>\<lparr>pc := n\<rparr>" by simp
  then show ?thesis by (simp only: wp_pc)
qed

lemma unat_plus_le: "unat (a + b :: u32) \<le> unat a + unat b"
  by (simp add: unat_word_ariths)

lemma xa_swap: "s\<lparr>x_reg := x, a_reg := a\<rparr> = s\<lparr>a_reg := a, x_reg := x\<rparr>"
  for s :: vm_state
  by simp

definition layer_x :: "link_type \<Rightarrow> nat \<Rightarrow> packet \<Rightarrow> layer \<Rightarrow> u32 \<Rightarrow> u32" where
  "layer_x link d pkt ly x = (if ly = Trans then ihl_bytes link d pkt else x)"

lemma wp_trans_load:
  assumes pl: "placed N d cg" and "layer_end (cg_link cg) d Trans off sz \<le> N"
    and x: "x_reg s = ihl_bytes (cg_link cg) d pkt"
    and "wp N pkt (lo + 1) F L Q (s\<lparr>a_reg := sized pkt sz (layer_addr (cg_link cg) d pkt Trans off)\<rparr>)"
  shows "wp N pkt lo (sized_load_insn (net_offset cg + off) sz True # F) L Q s"
proof (rule wp_load)
  let ?off = "net_offset cg + off"
  have "unat (x_reg s + ?off) \<le> 60 + unat ?off"
    using ihl_le [of "cg_link cg" d pkt] unat_plus_le [of "x_reg s" ?off] by (simp add: x)
  then show "(if True then unat (x_reg s + ?off) else unat ?off) + size_bytes sz \<le> N"
    using assms(2) net_offset_word [OF pl] by simp
  show "wp N pkt (lo + 1) F L Q (s\<lparr>a_reg := sized pkt sz (if True then unat (x_reg s + ?off) else unat ?off)\<rparr>)"
    using assms(4) x net_offset_word [OF pl] by simp
qed

lemma wp_layer:
  assumes pl: "placed N d cg" and fits: "layer_end (cg_link cg) d ly off sz \<le> N"
    and wp: "wp N pkt (lo + length (layer_code cg ly off sz)) F L Q
      (s\<lparr>a_reg := sized pkt sz (layer_addr (cg_link cg) d pkt ly off),
         x_reg := layer_x (cg_link cg) d pkt ly (x_reg s)\<rparr>)"
  shows "wp N pkt lo (layer_code cg ly off sz @ F) L Q s"
proof (cases ly)
  case Trans
  have in_pkt: "net_off (cg_link cg) d < N" using pl by (simp add: placed_def)
  have "wp N pkt (lo + 1) (sized_load_insn (net_offset cg + off) sz True # F) L Q
      (s\<lparr>x_reg := ihl_bytes (cg_link cg) d pkt\<rparr>)"
    by (rule wp_trans_load [OF pl]) (use fits wp Trans in \<open>simp_all add: layer_x_def xa_swap\<close>)
  then show ?thesis
    using in_pkt net_offset_val [OF pl] Trans by (auto simp: ihl_bytes_def)
next
  case Raw
  have "wp N pkt lo (sized_load_insn off sz False # F) L Q s"
    by (rule wp_load) (use fits wp Raw in \<open>simp_all add: layer_x_def del: wp.simps\<close>)
  then show ?thesis using Raw by (simp del: wp.simps)
next
  case Net_Layer
  have "wp N pkt lo (sized_load_insn (net_offset cg + off) sz False # F) L Q s"
    by (rule wp_load)
       (use fits wp Net_Layer net_offset_word [OF pl] in \<open>simp_all add: layer_x_def del: wp.simps\<close>)
  then show ?thesis using Net_Layer by (simp del: wp.simps)
qed

lemma straight_parts:
  "straight (layer_code cg ly off sz)" "straight (map alu_insn ops)" "straight (F @ G) \<longleftrightarrow> straight F \<and> straight G"
  "straight [st 0]" "straight [tax]" "straight [ldx_mem 0]" "straight [sized_load_insn off sz ind]" "straight []"
proof -
  have load: "straight [sized_load_insn off sz ind]" for off sz ind
    by (cases sz; cases ind) (simp_all add: straight_def)
  show "straight [sized_load_insn off sz ind]" by (rule load)
  show "straight (layer_code cg ly off sz)"
    using load [of _ sz] by (cases ly) (simp_all add: straight_def)
  show "straight (map alu_insn ops)"
  proof (induction ops)
    case (Cons av ops)
    then show ?case by (cases av; cases "fst av") (auto simp: straight_def)
  qed (simp add: straight_def)
qed (auto simp: straight_def)


text \<open>The accumulator after the left side, and the right side next to it.\<close>

definition ba_lhs :: "link_type \<Rightarrow> nat \<Rightarrow> byte_access \<Rightarrow> packet \<Rightarrow> u32" where
  "ba_lhs link d ba pkt =
     alu_fold (alu_ops ba) (sized pkt (ba_size ba) (layer_addr link d pkt (ba_layer ba) (ba_offset ba)))"

lemma ba_sem_lhs:
  "ba_sem link d ba pkt = cmp_sem (ba_op ba) (ba_lhs link d ba pkt)
     (case ba_rhs ba of Const v \<Rightarrow> v
      | LoadRhs r \<Rightarrow> sized pkt (load_size r) (layer_addr link d pkt (load_layer r) (load_offset r)))"
  by (simp add: ba_sem_def ba_lhs_def alu_fold_def)

lemma length_alu [simp]: "length (map alu_insn ops) = length ops"
  by simp

lemma wp_lhs:
  assumes "placed N d cg" "layer_end (cg_link cg) d (ba_layer ba) (ba_offset ba) (ba_size ba) \<le> N"
    and "list_all alu_ok (alu_ops ba)"
    and "\<And>a. a = ba_lhs (cg_link cg) d ba pkt \<Longrightarrow>
      wp N pkt (lo + length (layer_code cg (ba_layer ba) (ba_offset ba) (ba_size ba) @ map alu_insn (alu_ops ba))) F L Q
        (s\<lparr>a_reg := a, x_reg := layer_x (cg_link cg) d pkt (ba_layer ba) (x_reg s)\<rparr>)"
  shows "wp N pkt lo ((layer_code cg (ba_layer ba) (ba_offset ba) (ba_size ba) @ map alu_insn (alu_ops ba)) @ F) L Q s"
  unfolding append_assoc
proof (rule wp_layer [OF assms(1,2)], rule wp_alu [OF assms(3)])
  let ?s = "s\<lparr>a_reg := sized pkt (ba_size ba) (layer_addr (cg_link cg) d pkt (ba_layer ba) (ba_offset ba)),
         x_reg := layer_x (cg_link cg) d pkt (ba_layer ba) (x_reg s)\<rparr>"
  have eq: "?s\<lparr>a_reg := alu_fold (alu_ops ba) (a_reg ?s)\<rparr> =
      s\<lparr>a_reg := ba_lhs (cg_link cg) d ba pkt, x_reg := layer_x (cg_link cg) d pkt (ba_layer ba) (x_reg s)\<rparr>"
    by (simp add: ba_lhs_def)
  show "wp N pkt (lo + length (layer_code cg (ba_layer ba) (ba_offset ba) (ba_size ba)) + length (alu_ops ba)) F L Q
      (?s\<lparr>a_reg := alu_fold (alu_ops ba) (a_reg ?s)\<rparr>)"
    using assms(4) [OF refl] unfolding eq by (simp add: add.assoc)
qed

lemma codes_load [simp]: "code (sized_load_insn off sz ind) AND 7 \<noteq> 1" "code (sized_load_insn off sz ind) \<noteq> 7"
  by (cases sz; cases ind; simp)+

lemma codes_cmp [simp]:
  "code (fst (cmp_insn opr v)) AND 7 \<noteq> 1" "code (fst (cmp_insn opr v)) \<noteq> 7"
  "code (fst (cmp_x_insn opr)) AND 7 \<noteq> 1" "code (fst (cmp_x_insn opr)) \<noteq> 7"
  by (cases opr; simp)+

lemma emit_byte_access_const_ok:
  assumes "emit_byte_access_const ba v cg = Inr (ps, cg')" and pl: "ok \<longrightarrow> placed N d cg"
    and rhs: "ba_rhs ba = Const v"
    and fits: "ok \<longrightarrow> layer_end (cg_link cg) d (ba_layer ba) (ba_offset ba) (ba_size ba) \<le> N"
  shows "emit_ok N pkt d ok cg ps cg' (ba_sem (cg_link cg) d ba pkt)"
proof -
  let ?i = "cmp_insn (ba_op ba) v" and ?n = "length (cg_insns cg)"
  let ?F = "layer_code cg (ba_layer ba) (ba_offset ba) (ba_size ba) @ map alu_insn (alu_ops ba)"
  let ?L = "pend [] [field_patch (snd ?i) (?n + length ?F)]"
  let ?cg = "cg\<lparr>cg_insns := cg_insns cg @ ?F @ [fst ?i]\<rparr>"
  have out: "list_all alu_ok (alu_ops ba) \<and> success ps = [] \<and> failure ps = [field_patch (snd ?i) (?n + length ?F)] \<and>
      cg' = (if ba_layer ba = Trans
             then ?cg\<lparr>x_writes := x_writes cg + Suc 0, cg_facts := (cg_facts cg)\<lparr>ports_ready := None\<rparr>\<rparr> else ?cg)"
    using assms(1)
    by (cases "ba_layer ba")
       (auto simp: emit_byte_access_const_def load_sized_def rbind_eq_Inr emit_cmp_def split_beta net_offset_def
         split: if_splits dest!: emit_alu_ops_Inr)
  have wp: "wp N pkt ?n (?F @ [fst ?i]) ?L Q s"
    if ok "Q (if ba_sem (cg_link cg) d ba pkt then None else Some EFail)
        (layer_x (cg_link cg) d pkt (ba_layer ba) (x_reg s))" for Q s
  proof (rule wp_lhs)
    show "wp N pkt (?n + length ?F) [fst ?i] ?L Q
        (s\<lparr>a_reg := a, x_reg := layer_x (cg_link cg) d pkt (ba_layer ba) (x_reg s)\<rparr>)"
      if "a = ba_lhs (cg_link cg) d ba pkt" for a
      unfolding wp_cmp using that \<open>Q _ _\<close> rhs by (simp add: ba_sem_lhs split: if_splits)
  qed (use that pl fits out in auto)
  have st: "straight ?F" by (simp add: straight_parts)
  show ?thesis
  proof (cases "ba_layer ba = Trans")
    case False
    then have c: "cg' = ?cg" using out by simp
    show ?thesis
    proof (rule emit_ok_line [OF c])
      show "frag N pkt ?n (?F @ [fst ?i]) ?L (\<lambda>x. x = x0 \<and> ok) (\<lambda>l x. x = x0 \<and>
          (case l of None \<Rightarrow> ba_sem (cg_link cg) d ba pkt | Some EFail \<Rightarrow> \<not> ba_sem (cg_link cg) d ba pkt | _ \<Rightarrow> False))" for x0
        by (rule frag_line [OF st], simp, rule wp) (use False in \<open>auto simp: layer_x_def\<close>)
    qed (use out in auto)
  next
    case True
    then have c: "cg' = cg\<lparr>cg_insns := cg_insns cg @ ?F @ [fst ?i], x_writes := x_writes cg + Suc 0,
        cg_facts := (cg_facts cg)\<lparr>ports_ready := None\<rparr>\<rparr>" using out by simp
    show ?thesis
    proof (rule emit_ok_clobber [OF c])
      show "frag N pkt ?n (?F @ [fst ?i]) ?L (\<lambda>x. ok) (\<lambda>l x. case l of None \<Rightarrow> ba_sem (cg_link cg) d ba pkt
          | Some EFail \<Rightarrow> \<not> ba_sem (cg_link cg) d ba pkt | _ \<Rightarrow> False)"
        by (rule frag_line [OF st], simp, rule wp) auto
    qed (use out in auto)
  qed
qed

end
