(* ===== verification/Bytes_Correct.thy ===== *)
theory Bytes_Correct
  imports Prims_Correct
begin

text \<open>Comparison of two loads, with the left value in scratch slot 0 or in X.\<close>

definition rhs_code :: "codegen \<Rightarrow> byte_access \<Rightarrow> byte_load \<Rightarrow> insn list" where
  "rhs_code cg ba r =
     (if ba_layer ba = Trans \<and> load_layer r = Trans
      then [sized_load_insn (net_offset cg + load_offset r) (load_size r) True]
      else layer_code cg (load_layer r) (load_offset r) (load_size r))"

definition load_code :: "codegen \<Rightarrow> byte_access \<Rightarrow> byte_load \<Rightarrow> insn list" where
  "load_code cg ba r =
     (if ba_layer ba = Trans \<or> load_layer r = Trans then [st 0] @ rhs_code cg ba r @ [ldx_mem 0]
      else [tax] @ rhs_code cg ba r)"

lemma straight_load: "straight (load_code cg ba r)"
proof -
  have "straight (rhs_code cg ba r)" unfolding rhs_code_def by (auto intro: straight_parts)
  then show ?thesis by (simp add: load_code_def straight_def)
qed

lemma wp_rhs:
  assumes "placed N d cg" "layer_end (cg_link cg) d (load_layer r) (load_offset r) (load_size r) \<le> N"
    and "ba_layer ba = Trans \<Longrightarrow> x_reg s = ihl_bytes (cg_link cg) d pkt"
    and "\<And>x. (load_layer r \<noteq> Trans \<Longrightarrow> x = x_reg s) \<Longrightarrow> wp N pkt (lo + length (rhs_code cg ba r)) F L Q
      (s\<lparr>a_reg := sized pkt (load_size r) (layer_addr (cg_link cg) d pkt (load_layer r) (load_offset r)), x_reg := x\<rparr>)"
  shows "wp N pkt lo (rhs_code cg ba r @ F) L Q s"
proof (cases "ba_layer ba = Trans \<and> load_layer r = Trans")
  case True
  have same: "s\<lparr>a_reg := a, x_reg := x_reg s\<rparr> = s\<lparr>a_reg := a\<rparr>" for a by simp
  have "wp N pkt lo (sized_load_insn (net_offset cg + load_offset r) (load_size r) True # F) L Q s"
    by (rule wp_trans_load [OF assms(1)])
       (use True assms assms(4) [of "x_reg s", unfolded same] in \<open>simp_all add: rhs_code_def del: wp.simps\<close>)
  with True show ?thesis by (simp add: rhs_code_def del: wp.simps)
next
  case False
  then have R: "rhs_code cg ba r = layer_code cg (load_layer r) (load_offset r) (load_size r)"
    by (auto simp: rhs_code_def)
  show ?thesis unfolding R
    by (rule wp_layer [OF assms(1,2)], rule assms(4) [unfolded R]) (auto simp: layer_x_def)
qed

lemma wp_load_code:
  assumes "placed N d cg" "layer_end (cg_link cg) d (load_layer r) (load_offset r) (load_size r) \<le> N"
    and "ba_layer ba = Trans \<Longrightarrow> x_reg s = ihl_bytes (cg_link cg) d pkt" and s: "ready s"
    and wp: "\<And>s'. x_reg s' = a_reg s \<Longrightarrow>
      a_reg s' = sized pkt (load_size r) (layer_addr (cg_link cg) d pkt (load_layer r) (load_offset r)) \<Longrightarrow>
      wp N pkt (lo + length (load_code cg ba r)) F L Q s'"
  shows "wp N pkt lo (load_code cg ba r @ F) L Q s"
proof (cases "ba_layer ba = Trans \<or> load_layer r = Trans")
  case True
  let ?s = "s\<lparr>pc := 1, scratch := (scratch s)[0 := a_reg s]\<rparr>"
  have len: "length (load_code cg ba r) = length (rhs_code cg ba r) + 2"
    using True by (simp add: load_code_def)
  have "wp N pkt (lo + 1) (rhs_code cg ba r @ [ldx_mem 0] @ F) L Q ?s"
  proof (rule wp_rhs [OF assms(1,2)])
    fix x
    let ?a = "sized pkt (load_size r) (layer_addr (cg_link cg) d pkt (load_layer r) (load_offset r))"
    let ?t = "?s\<lparr>a_reg := ?a, x_reg := x\<rparr>"
    have rt: "ready ?t" and slot: "scratch ?t ! 0 = a_reg s" using s by (simp_all add: ready_def SCRATCH_def)
    note step = reg_step_scratch(2) [OF rt, of pkt]
    have "wp N pkt (lo + 1 + length (rhs_code cg ba r) + 1) F L Q (?t\<lparr>pc := 1, x_reg := scratch ?t ! 0\<rparr>)"
      using wp [of "?t\<lparr>pc := 1, x_reg := scratch ?t ! 0\<rparr>"] slot unfolding len by (simp del: wp.simps)
    then show "wp N pkt (lo + 1 + length (rhs_code cg ba r)) ([ldx_mem 0] @ F) L Q ?t"
      unfolding append.simps by (rule wp_step [OF _ _ step, rotated 2]) simp_all
  qed (use assms(3) in simp)
  then have "wp N pkt lo (st 0 # rhs_code cg ba r @ [ldx_mem 0] @ F) L Q s"
    by (rule wp_step [OF _ _ reg_step_scratch(1) [OF s], rotated 2]) simp_all
  with True show ?thesis by (simp add: load_code_def del: wp.simps)
next
  case False
  have len: "length (load_code cg ba r) = length (rhs_code cg ba r) + 1"
    using False by (simp add: load_code_def)
  let ?s = "s\<lparr>pc := 1, x_reg := a_reg s\<rparr>"
  have "wp N pkt (lo + 1) (rhs_code cg ba r @ F) L Q ?s"
    by (rule wp_rhs [OF assms(1,2)], use False in simp)
       (use False wp in \<open>simp add: len add.assoc del: wp.simps\<close>)
  then have "wp N pkt lo (tax # rhs_code cg ba r @ F) L Q s"
    by (rule wp_step [OF _ _ reg_step_other(3), rotated 2]) simp_all
  with False show ?thesis by (simp add: load_code_def del: wp.simps)
qed

lemma load_sized_cg [simp]:
  "load_sized off sz ind cg = cg\<lparr>cg_insns := cg_insns cg @ [sized_load_insn off sz ind]\<rparr>"
  by (simp add: load_sized_def)

lemma layer_offset_insns [simp]:
  "layer_offset ly off (cg\<lparr>cg_insns := c\<rparr>) = layer_offset ly off cg"
  "layer_offset ly off (cg\<lparr>x_writes := w\<rparr>) = layer_offset ly off cg"
  "layer_offset ly off (cg\<lparr>cg_facts := f\<rparr>) = layer_offset ly off cg"
  "layer_offset ly off (cg\<lparr>cg_facts := f, x_writes := w\<rparr>) = layer_offset ly off cg"
  "layer_offset ly off (cg\<lparr>cg_insns := c, cg_facts := f, x_writes := w\<rparr>) = layer_offset ly off cg"
  by (cases ly; simp add: net_offset_def)+

lemma layer_code_abs: "ly \<noteq> Trans \<Longrightarrow> layer_code cg ly off sz = [sized_load_insn (layer_offset ly off cg) sz False]"
  by (cases ly) simp_all

lemma emit_byte_access_load_out:
  assumes "emit_byte_access_load ba r cg = Inr (ps, cg')"
  shows "\<exists>k. list_all alu_ok (alu_ops ba) \<and> success ps = [] \<and>
      failure ps = [field_patch (snd (cmp_x_insn (ba_op ba))) (length (cg_insns cg) +
        length ((layer_code cg (ba_layer ba) (ba_offset ba) (ba_size ba) @ map alu_insn (alu_ops ba)) @ load_code cg ba r))] \<and>
      cg' = cg\<lparr>cg_insns := cg_insns cg @ ((layer_code cg (ba_layer ba) (ba_offset ba) (ba_size ba) @ map alu_insn (alu_ops ba)) @
          load_code cg ba r) @ [fst (cmp_x_insn (ba_op ba))], x_writes := x_writes cg + Suc k,
        cg_facts := (cg_facts cg)\<lparr>ports_ready := None\<rparr>\<rparr>"
proof -
  consider (tt) "ba_layer ba = Trans" "load_layer r = Trans" | (t) "ba_layer ba = Trans" "load_layer r \<noteq> Trans"
    | (r) "ba_layer ba \<noteq> Trans" "load_layer r = Trans" | (n) "ba_layer ba \<noteq> Trans" "load_layer r \<noteq> Trans" by blast
  then show ?thesis
  proof cases
    case tt
    with assms show ?thesis
      by (intro exI [of _ 1])
         (auto simp: emit_byte_access_load_def rbind_eq_Inr emit_cmp_x_def split_beta Let_def load_code_def rhs_code_def
          dest!: emit_alu_ops_Inr)
  next
    case t
    with assms show ?thesis
      by (intro exI [of _ 1])
         (auto simp: emit_byte_access_load_def rbind_eq_Inr emit_cmp_x_def split_beta Let_def load_code_def rhs_code_def
          layer_code_abs dest!: emit_alu_ops_Inr)
  next
    case r
    with assms show ?thesis
      by (intro exI [of _ 1])
         (auto simp: emit_byte_access_load_def rbind_eq_Inr emit_cmp_x_def split_beta Let_def load_code_def rhs_code_def
          layer_code_abs dest!: emit_alu_ops_Inr)
  next
    case n
    with assms show ?thesis
      by (intro exI [of _ 0])
         (auto simp: emit_byte_access_load_def rbind_eq_Inr emit_cmp_x_def split_beta Let_def load_code_def rhs_code_def
          layer_code_abs dest!: emit_alu_ops_Inr)
  qed
qed

lemma emit_byte_access_load_ok:
  assumes "emit_byte_access_load ba r cg = Inr (ps, cg')" and pl: "ok \<longrightarrow> placed N d cg"
    and rhs: "ba_rhs ba = LoadRhs r"
    and fits: "ok \<longrightarrow> layer_end (cg_link cg) d (ba_layer ba) (ba_offset ba) (ba_size ba) \<le> N"
      "ok \<longrightarrow> layer_end (cg_link cg) d (load_layer r) (load_offset r) (load_size r) \<le> N"
  shows "emit_ok N pkt d ok cg ps cg' (ba_sem (cg_link cg) d ba pkt)"
proof -
  let ?i = "cmp_x_insn (ba_op ba)" and ?n = "length (cg_insns cg)"
  let ?A = "layer_code cg (ba_layer ba) (ba_offset ba) (ba_size ba) @ map alu_insn (alu_ops ba)"
  let ?B = "load_code cg ba r"
  let ?L = "pend [] [field_patch (snd ?i) (?n + length (?A @ ?B))]"
  let ?t = "ba_sem (cg_link cg) d ba pkt"
  obtain k where alu: "list_all alu_ok (alu_ops ba)" and out: "success ps = []"
      "failure ps = [field_patch (snd ?i) (?n + length (?A @ ?B))]"
    and cg': "cg' = cg\<lparr>cg_insns := cg_insns cg @ (?A @ ?B) @ [fst ?i], x_writes := x_writes cg + Suc k,
        cg_facts := (cg_facts cg)\<lparr>ports_ready := None\<rparr>\<rparr>"
    using emit_byte_access_load_out [OF assms(1)] by blast
  have wp: "wp N pkt ?n ((?A @ ?B) @ [fst ?i]) ?L (\<lambda>l x. case l of None \<Rightarrow> ?t | Some EFail \<Rightarrow> \<not> ?t | _ \<Rightarrow> False) s"
    if ok "ready s" for s
    unfolding append_assoc [of ?A]
  proof (rule wp_lhs)
    fix a
    assume a: "a = ba_lhs (cg_link cg) d ba pkt"
    let ?s = "s\<lparr>a_reg := a, x_reg := layer_x (cg_link cg) d pkt (ba_layer ba) (x_reg s)\<rparr>"
    show "wp N pkt (?n + length ?A) (?B @ [fst ?i]) ?L (\<lambda>l x. case l of None \<Rightarrow> ?t | Some EFail \<Rightarrow> \<not> ?t | _ \<Rightarrow> False) ?s"
    proof (rule wp_load_code)
      fix s' :: vm_state
      assume "x_reg s' = a_reg ?s"
        "a_reg s' = sized pkt (load_size r) (layer_addr (cg_link cg) d pkt (load_layer r) (load_offset r))"
      then show "wp N pkt (?n + length ?A + length ?B) [fst ?i] ?L (\<lambda>l x. case l of None \<Rightarrow> ?t | Some EFail \<Rightarrow> \<not> ?t | _ \<Rightarrow> False) s'"
        unfolding length_append add.assoc [symmetric] wp_cmp_x using a rhs by (simp add: ba_sem_lhs)
    qed (use that pl fits in \<open>auto simp: layer_x_def\<close>)
  qed (use that pl fits alu in auto)
  have st: "straight (?A @ ?B)" by (simp add: straight_parts straight_load)
  show ?thesis
  proof (rule emit_ok_clobber [OF cg' out(1,2)])
    show "frag N pkt ?n ((?A @ ?B) @ [fst ?i]) ?L (\<lambda>x. ok) (\<lambda>l x. case l of None \<Rightarrow> ?t | Some EFail \<Rightarrow> \<not> ?t | _ \<Rightarrow> False)"
      by (rule frag_line [OF st], simp, rule wp) auto
  qed
qed

lemma emit_byte_access_ok:
  assumes "emit_byte_access ba cg = Inr (ps, cg')" and pl: "ok \<longrightarrow> placed N d cg"
    and "ok \<longrightarrow> prim_need (cg_link cg) d (ByteAccess ba) \<le> N"
  shows "emit_ok N pkt d ok cg ps cg' (prim_sem (cg_link cg) d (ByteAccess ba) pkt)"
proof (cases "ba_rhs ba")
  case (Const v)
  with assms emit_byte_access_const_ok [OF _ pl Const] show ?thesis by (simp add: emit_byte_access_def)
next
  case (LoadRhs r)
  with assms emit_byte_access_load_ok [OF _ pl LoadRhs] show ?thesis by (simp add: emit_byte_access_def)
qed

end
