(* ===== verification/Ports_Correct.thy ===== *)
theory Ports_Correct
  imports Bytes_Correct
begin

text \<open>
  The prologue of the port tests: on the paths where it succeeds the packet carries one of the wanted
  transport protocols, is not a later fragment, and X holds the offset of the transport header.
\<close>

section \<open>The protocol-set check\<close>

fun l4_code :: "l4set \<Rightarrow> insn list" where
  "l4_code (One n) = [jeq_k (ucast n) 0 0xff]"
| "l4_code TcpOrUdp = [jeq_k 6 1 0, jeq_k 17 0 0xff]"

fun l4_fail :: "l4set \<Rightarrow> nat \<Rightarrow> patch" where
  "l4_fail (One n) lo = Jf lo"
| "l4_fail TcpOrUdp lo = Jf (lo + 1)"

lemma jt_upd: "(jeq_k v t f)\<lparr>jt := t'\<rparr> = jeq_k v t' f" "(ja v)\<lparr>k_field := v'\<rparr> = ja v'"
  by (simp_all add: jeq_k_def ja_def mk_insn_def)

lemma emit_l4_set_check_out:
  "emit_l4_set_check want fail cg =
     Inr (fail @ [l4_fail want (length (cg_insns cg))], cg\<lparr>cg_insns := cg_insns cg @ l4_code want\<rparr>)"
  by (cases want)
     (simp_all add: jump_offset_def set_insn_def list_update_append nth_append jt_upd)

lemma ldb_small: "ldb pkt n = 6 \<longleftrightarrow> pkt_byte pkt n = 6" "ldb pkt n = 17 \<longleftrightarrow> pkt_byte pkt n = 17"
  using ldb_eq [of pkt n 6] ldb_eq [of pkt n 17] by simp_all

lemma test_l4: "tests N pkt lo (ldb_abs off # l4_code want) [] [l4_fail want (lo + 1)]
    (\<lambda>_. unat off + 1 \<le> N) (\<lambda>_. l4_contains want (pkt_byte pkt (unat off)))"
proof (cases want)
  case (One n)
  have "tests N pkt lo [ldb_abs off, jeq_k (ucast n) 0 0xff] [] [Jf (lo + 1)]
      (\<lambda>_. unat off + 1 \<le> N) (\<lambda>_. ldb pkt (unat off) = ucast n)" by (rule test_byte)
  then show ?thesis by (simp add: One ldb_eq eq_commute [of n])
next
  case TcpOrUdp
  have "tests N pkt lo [ldb_abs off, jeq_k 6 1 0, jeq_k 17 0 0xff] [] [Jf (lo + 1 + 1)]
      (\<lambda>_. unat off + 1 \<le> N) (\<lambda>_. ldb pkt (unat off) = 6 \<or> ldb pkt (unat off) = 17)"
    by (rule tests_wp) (auto simp: wp_eval)
  then show ?thesis by (simp add: TcpOrUdp ldb_small)
qed

section \<open>Code that sets X\<close>

definition loads_x :: "nat \<Rightarrow> packet \<Rightarrow> nat \<Rightarrow> insn list \<Rightarrow> patch list \<Rightarrow> bool \<Rightarrow> bool \<Rightarrow> u32 \<Rightarrow> bool" where
  "loads_x N pkt lo F fl c t v \<longleftrightarrow>
     frag N pkt lo F (pend [] fl) (\<lambda>_. c)
       (\<lambda>l x. case l of None \<Rightarrow> t \<and> x = v | Some EFail \<Rightarrow> \<not> t | _ \<Rightarrow> False)"

lemma loads_x_msh:
  "(c \<Longrightarrow> unat fo + 2 \<le> N \<and> unat no < N) \<Longrightarrow>
   loads_x N pkt lo [ldh_abs fo, jset_k 0x1fff 0xff 0, ldx_msh no] [Jt (lo + 1)] c
     (ldh pkt (unat fo) AND 0x1fff = 0) (4 * (ldb pkt (unat no) AND 0xf))"
  unfolding loads_x_def by (rule frag_wp) (auto simp: wp_eval)

lemma loads_x_imm: "loads_x N pkt lo [ldx_imm v] [] c True v"
  unfolding loads_x_def by (rule frag_wp) (auto simp: wp_eval)

lemma loads_x_after:
  assumes t: "tests N pkt lo F [] fl1 f (\<lambda>_. t1)" and x: "loads_x N pkt (lo + length F) G fl2 (c \<and> t1) t2 v"
    and "\<And>x. c \<Longrightarrow> f x"
  shows "loads_x N pkt lo (F @ G) (fl1 @ fl2) c (t1 \<and> t2) v"
  unfolding loads_x_def
  by (rule frag_pend_seq [OF testsD [OF t, of "\<lambda>_. c"] frag_const [OF x [unfolded loads_x_def], of "c \<and> t1"]])
     (use assms(3) in \<open>auto simp: verdict_def split: option.splits exit.splits\<close>)

lemma loads_x_mono:
  assumes "loads_x N pkt lo F fl c t v" "\<And>x. c' \<Longrightarrow> c" "c' \<Longrightarrow> t' = t" "c' \<Longrightarrow> t \<Longrightarrow> v' = v"
  shows "loads_x N pkt lo F fl c' t' v'"
proof -
  have "frag N pkt lo F (pend [] fl) (\<lambda>_. c')
       (\<lambda>l x. case l of None \<Rightarrow> t \<and> x = v | Some EFail \<Rightarrow> \<not> t | _ \<Rightarrow> False)"
    by (rule frag_conseq [OF assms(1) [unfolded loads_x_def]]) (use assms(2) in auto)
  then have "frag N pkt lo F (pend [] fl) (\<lambda>_. c')
       (\<lambda>l x. c' \<and> (case l of None \<Rightarrow> t \<and> x = v | Some EFail \<Rightarrow> \<not> t | _ \<Rightarrow> False))"
    by (rule frag_const)
  then show ?thesis unfolding loads_x_def
    by (rule frag_conseq) (use assms(3,4) in \<open>auto split: option.splits exit.splits\<close>)
qed

text \<open>Such code as an emitter: the new facts may use the value of X.\<close>

lemma emit_ok_loads_x:
  assumes cg': "cg' = cg\<lparr>cg_insns := cg_insns cg @ F, x_writes := x_writes cg + Suc k, cg_facts := f\<rparr>"
    and ps: "success ps = []" "failure ps = fl"
    and f: "ethertype f = ethertype (cg_facts cg)"
    and x: "\<And>x. ok \<Longrightarrow> knows d pkt cg x \<Longrightarrow> loads_x N pkt (length (cg_insns cg)) F fl True t v"
    and shape: "loads_x N pkt (length (cg_insns cg)) F fl False t v"
    and facts: "\<And>x. ok \<Longrightarrow> t \<Longrightarrow> knows d pkt cg x \<Longrightarrow> facts_ok (cg_link cg) d pkt f v"
  shows "emit_ok N pkt d ok cg ps cg' t"
proof -
  have "frag N pkt (length (cg_insns cg)) F (pend (success ps) (failure ps))
       (\<lambda>x. x = x0 \<and> ok \<and> knows d pkt cg x)
       (\<lambda>l x. kept cg cg' x0 x \<and> outcome ps t (knows d pkt cg') l x)" for x0
  proof (cases "ok \<and> knows d pkt cg x0")
    case True
    show ?thesis unfolding ps
      by (rule frag_conseq [OF x [of x0, unfolded loads_x_def]])
         (use True ps cg' facts in \<open>auto simp: kept_def outcome_def split: option.splits exit.splits\<close>)
  next
    case False
    show ?thesis unfolding ps
      by (rule frag_conseq [OF frag_const [OF shape [unfolded loads_x_def], of False]]) (use False in auto)
  qed
  then show ?thesis unfolding emit_ok_def using cg' ps f by auto
qed

section \<open>Both address families\<close>

fun dual_code :: "l4set \<Rightarrow> u32 \<Rightarrow> u32 \<Rightarrow> insn list" where
  "dual_code want eo no =
     ([ldh_abs eo, jeq_k 0x86dd (of_nat (length (l4_code want) + 6)) 0, jeq_k 0x0800 0 0xff, ldb_abs (no + 9)] @ l4_code want) @
     [ldh_abs (no + 6), jset_k 0x1fff 0xff 0, ldx_msh no, ja (of_nat (length (l4_code want) + 2)), ldb_abs (no + 6)] @
     l4_code want @ [ldx_imm 40]"

definition dual_fail :: "l4set \<Rightarrow> nat \<Rightarrow> patch list" where
  "dual_fail want lo =
     [Jf (lo + 2), l4_fail want (lo + 4), Jt (lo + 5 + length (l4_code want)),
      l4_fail want (lo + 9 + length (l4_code want))]"

lemma l4_code_length: "length (l4_code want) \<le> 2"
  by (cases want) simp_all

lemma prereqs_dual_out:
  assumes "prereqs_dual want cg = Inr (ps, cg')"
  shows "\<exists>eo. ether_proto_offset cg = Some eo \<and> success ps = [] \<and>
    failure ps = dual_fail want (length (cg_insns cg)) \<and>
    cg' = cg\<lparr>cg_insns := cg_insns cg @ dual_code want eo (net_offset cg), x_writes := x_writes cg + 2,
      cg_facts := (cg_facts cg)\<lparr>ports_ready := Some want\<rparr>\<rparr>"
proof (cases "ether_proto_offset cg")
  case None
  then show ?thesis using assms by (simp add: prereqs_dual_def)
next
  case (Some eo)
  show ?thesis
    using assms Some
    by (cases want)
       (auto simp: prereqs_dual_def emit_l4_set_check_out Let_def push_x jump_offset_def set_insn_def
        list_update_append nth_append jt_upd dual_fail_def rbind_eq_Inr)
qed

lemma loads_x_dual:
  assumes "c \<Longrightarrow> unat eo + 2 \<le> N \<and> unat (no + 9) + 1 \<le> N \<and> unat (no + 6) + 2 \<le> N \<and> unat no + 1 \<le> N"
  shows "loads_x N pkt lo (dual_code want eo no) (dual_fail want lo) c
     ((ldh pkt (unat eo) = 0x0800 \<and> l4_contains want (pkt_byte pkt (unat (no + 9))) \<and>
         ldh pkt (unat (no + 6)) AND 0x1fff = 0) \<or>
      (ldh pkt (unat eo) = 0x86dd \<and> l4_contains want (pkt_byte pkt (unat (no + 6)))))
     (if ldh pkt (unat eo) = 0x0800 then 4 * (ldb pkt (unat no) AND 0xf) else 40)"
proof (cases want)
  case (One n)
  show ?thesis unfolding loads_x_def One
    by (rule frag_wp) (use assms in \<open>auto simp: wp_eval dual_fail_def ldb_eq\<close>)
next
  case TcpOrUdp
  show ?thesis unfolding loads_x_def TcpOrUdp
    by (rule frag_wp) (use assms in \<open>auto simp: wp_eval dual_fail_def ldb_small\<close>)
qed


declare dual_code.simps [simp del]

section \<open>The prologue\<close>

text \<open>
  The facts after a single-family prologue that established \<open>est\<close>.
\<close>

definition est4 :: "l4set \<Rightarrow> facts \<Rightarrow> facts" where
  "est4 est f =
     (case est of
        One n \<Rightarrow> if ip4_proto f = None then f\<lparr>ip4_proto := Some n\<rparr> else f
      | TcpOrUdp \<Rightarrow> f)\<lparr>ports_ready := Some est\<rparr>"

definition est6 :: "l4set \<Rightarrow> facts \<Rightarrow> facts" where
  "est6 est f =
     (case est of
        One n \<Rightarrow> if ip6_nh f = None then f\<lparr>ip6_nh := Some n\<rparr> else f
      | TcpOrUdp \<Rightarrow> f)\<lparr>ports_ready := Some est\<rparr>"

lemma est_ethertype [simp]: "ethertype (est4 est f) = ethertype f" "ethertype (est6 est f) = ethertype f"
  by (simp_all add: est4_def est6_def split: l4set.split)

lemma facts_ok_est4:
  assumes "facts_ok link d pkt f x" "is_v4 link d pkt" "l4_sem link d est pkt"
  shows "facts_ok link d pkt (est4 est f) (l4_off link d pkt)"
  using assms
  by (cases est) (auto simp: facts_ok_def est4_def l4_ready_def l4_sem_def is_v4_def is_v6_def)

lemma facts_ok_est6:
  assumes "facts_ok link d pkt f x" "is_v6 link d pkt" "l4_sem link d est pkt"
  shows "facts_ok link d pkt (est6 est f) (l4_off link d pkt)"
  using assms
  by (cases est) (auto simp: facts_ok_def est6_def l4_ready_def l4_sem_def is_v4_def is_v6_def)

lemma est_x_writes: "est4 est (f\<lparr>ports_ready := v\<rparr>) = est4 est f" "est6 est (f\<lparr>ports_ready := v\<rparr>) = est6 est f"
  by (simp_all add: est4_def est6_def split: l4set.split)

definition known :: "l4set \<Rightarrow> u8 option \<Rightarrow> l4set option" where
  "known want pr = (case pr of Some n \<Rightarrow> if l4_contains want n then Some (One n) else None | None \<Rightarrow> None)"

lemma prereqs_v4_out:
  assumes "prereqs_v4 want cg = Inr (ps, cg')"
  shows "success ps = [] \<and>
    (let n = length (cg_insns cg); no = net_offset cg; f = cg_facts cg;
         chk = ldb_abs (no + 9) # l4_code want; fl = [l4_fail want (n + 1)];
         msh = [ldh_abs (no + 6), jset_k 0x1fff 0xff 0, ldx_msh no]
     in if ports_ready f \<noteq> None
        then failure ps = fl \<and> cg' = cg\<lparr>cg_insns := cg_insns cg @ chk\<rparr>\<lparr>cg_facts := est4 want f\<rparr>
        else case known want (ip4_proto f) of
          Some est \<Rightarrow> failure ps = [Jt (n + 1)] \<and>
            cg' = cg\<lparr>cg_insns := cg_insns cg @ msh, x_writes := x_writes cg + Suc 0, cg_facts := est4 est f\<rparr>
        | None \<Rightarrow> failure ps = fl @ [Jt (n + length chk + 1)] \<and>
            cg' = cg\<lparr>cg_insns := cg_insns cg @ chk @ msh, x_writes := x_writes cg + Suc 0, cg_facts := est4 want f\<rparr>)"
  using assms
  by (auto simp: prereqs_v4_def emit_l4_set_check_out Let_def est4_def known_def
      split: option.splits l4set.splits if_splits)

lemma prereqs_v6_out:
  assumes "prereqs_v6 want cg = Inr (ps, cg')"
  shows "success ps = [] \<and>
    (let n = length (cg_insns cg); no = net_offset cg; f = cg_facts cg;
         chk = ldb_abs (no + 6) # l4_code want; fl = [l4_fail want (n + 1)]
     in if ports_ready f \<noteq> None
        then failure ps = fl \<and> cg' = cg\<lparr>cg_insns := cg_insns cg @ chk\<rparr>\<lparr>cg_facts := est6 want f\<rparr>
        else case known want (ip6_nh f) of
          Some est \<Rightarrow> failure ps = [] \<and>
            cg' = cg\<lparr>cg_insns := cg_insns cg @ [ldx_imm 40], x_writes := x_writes cg + Suc 0, cg_facts := est6 est f\<rparr>
        | None \<Rightarrow> failure ps = fl \<and>
            cg' = cg\<lparr>cg_insns := cg_insns cg @ chk @ [ldx_imm 40], x_writes := x_writes cg + Suc 0, cg_facts := est6 want f\<rparr>)"
  using assms
  by (auto simp: prereqs_v6_def emit_l4_set_check_out Let_def est6_def known_def
      split: option.splits l4set.splits if_splits)


lemma known_family:
  assumes "facts_ok link d pkt f x" "ethertype f = Some v" "v \<noteq> 0x8100"
  shows "et_of link d pkt = v"
  using assms by (simp add: facts_ok_def split: if_splits)

lemma l4_sem_v4: "is_v4 link d pkt \<Longrightarrow>
   l4_sem link d want pkt \<longleftrightarrow> l4_contains want (proto4 link d pkt) \<and> \<not> later_fragment link d pkt"
  by (auto simp: l4_sem_def is_v4_def is_v6_def)

lemma l4_sem_v6: "is_v6 link d pkt \<Longrightarrow> l4_sem link d want pkt \<longleftrightarrow> l4_contains want (proto6 link d pkt)"
  by (auto simp: l4_sem_def is_v4_def is_v6_def)

lemma facts_ready: "facts_ok link d pkt f x \<Longrightarrow> ports_ready f = Some S \<Longrightarrow>
    l4_sem link d S pkt \<and> x = l4_off link d pkt"
  by (simp add: facts_ok_def l4_ready_def)

lemma l4_sem_subset: "l4_subset_of S want \<Longrightarrow> l4_sem link d S pkt \<Longrightarrow> l4_sem link d want pkt"
proof -
  have "l4_subset_of S want \<Longrightarrow> l4_contains S n \<Longrightarrow> l4_contains want n" for n
    by (cases S; cases want) auto
  then show "l4_subset_of S want \<Longrightarrow> l4_sem link d S pkt \<Longrightarrow> l4_sem link d want pkt"
    by (auto simp: l4_sem_def)
qed

lemma known_proto: "known want pr = Some est \<Longrightarrow> \<exists>n. pr = Some n \<and> est = One n \<and> l4_contains want n"
  by (auto simp: known_def split: option.splits if_splits)

lemma prereqs_v4_ok:
  assumes "prereqs_v4 want cg = Inr (ps, cg')" "ethertype (cg_facts cg) = Some 0x0800"
    and pl: "ok \<longrightarrow> placed N d cg"
  shows "emit_ok N pkt d ok cg ps cg' (l4_sem (cg_link cg) d want pkt)"
proof -
  let ?l = "cg_link cg" and ?n = "length (cg_insns cg)" and ?no = "net_offset cg" and ?f = "cg_facts cg"
  let ?chk = "ldb_abs (?no + 9) # l4_code want" and ?fl = "[l4_fail want (?n + 1)]"
  let ?msh = "[ldh_abs (?no + 6), jset_k 0x1fff 0xff 0, ldx_msh ?no]"
  note out = prereqs_v4_out [OF assms(1), unfolded Let_def]
  have v4: "is_v4 ?l d pkt" if "knows d pkt cg x" for x
    using known_family [OF that assms(2)] by (simp add: is_v4_def)
  have at: "unat (?no + 9) = net_off ?l d + 9 \<and> unat (?no + 6) = net_off ?l d + 6 \<and> unat ?no = net_off ?l d \<and>
      net_off ?l d + 64 \<le> N" if ok
    using mp [OF pl that] net_offset_add [of N d cg] net_offset_val [of N d cg] by (simp add: placed_def)
  have x_val: "loads_x N pkt lo ?msh [Jt (lo + 1)] c (\<not> later_fragment ?l d pkt) (ihl_bytes ?l d pkt)"
    if "c \<Longrightarrow> ok" for c lo
    by (rule loads_x_mono [OF loads_x_msh [where c = c]]) (use that at in \<open>auto simp: later_fragment_def ihl_bytes_def\<close>)
  have l4: "tests N pkt ?n ?chk [] ?fl (\<lambda>_. unat (?no + 9) + 1 \<le> N)
      (\<lambda>_. l4_contains want (pkt_byte pkt (unat (?no + 9))))" by (rule test_l4)
  have proto: "pkt_byte pkt (unat (?no + 9)) = proto4 ?l d pkt" if ok using at that by (simp add: proto4_def)
  show ?thesis
  proof (cases "ports_ready ?f")
    case (Some S)
    let ?cg = "cg\<lparr>cg_insns := cg_insns cg @ ?chk\<rparr>"
    have ps: "success ps = []" "failure ps = ?fl" and cg': "cg' = ?cg\<lparr>cg_facts := est4 want ?f\<rparr>"
      using out Some by auto
    have rd: "l4_sem ?l d S pkt \<and> x = l4_off ?l d pkt" if "knows d pkt cg x" for x
      by (rule facts_ready [OF that Some])
    have est: "facts_ok ?l d pkt (est4 want ?f) (l4_off ?l d pkt)" if "knows d pkt cg x" "l4_sem ?l d want pkt" for x
      by (rule facts_ok_est4 [OF that(1) v4 [OF that(1)] that(2)])
    have "emit_ok N pkt d ok cg ps ?cg (l4_sem ?l d want pkt)"
      by (rule emit_ok_tests [OF refl l4 [folded ps]])
         (use at v4 rd proto in \<open>auto simp: l4_sem_v4\<close>)
    then show ?thesis
      by (rule emit_ok_weaken [OF _ cg'])
         (use rd est cg' in auto)
  next
    case None
    show ?thesis
    proof (cases "known want (ip4_proto ?f)")
      case (Some est)
      then obtain n where n: "ip4_proto ?f = Some n" "est = One n" "l4_contains want n"
        using known_proto by blast
      have ps: "success ps = []" "failure ps = [Jt (?n + 1)]"
        and cg': "cg' = cg\<lparr>cg_insns := cg_insns cg @ ?msh, x_writes := x_writes cg + Suc 0, cg_facts := est4 est ?f\<rparr>"
        using out None Some by auto
      have sem: "l4_sem ?l d want pkt = (\<not> later_fragment ?l d pkt)" "l4_sem ?l d want pkt = l4_sem ?l d est pkt"
        if "knows d pkt cg x" for x
        using that n v4 [OF that] by (auto simp: l4_sem_v4 facts_ok_def)
      show ?thesis
      proof (rule emit_ok_loads_x [OF cg' ps, where v = "l4_off ?l d pkt"])
        show "loads_x N pkt ?n ?msh [Jt (?n + 1)] True (l4_sem ?l d want pkt) (l4_off ?l d pkt)"
          if ok "knows d pkt cg x" for x
          using x_val [of True ?n] sem [OF that(2)] v4 [OF that(2)] that(1) by (simp add: l4_off_def)
        show "loads_x N pkt ?n ?msh [Jt (?n + 1)] False (l4_sem ?l d want pkt) (l4_off ?l d pkt)"
          by (rule loads_x_mono [OF x_val [of False ?n]]) auto
        show "facts_ok ?l d pkt (est4 est ?f) (l4_off ?l d pkt)" if "l4_sem ?l d want pkt" "knows d pkt cg x" for x
          by (rule facts_ok_est4 [OF that(2) v4 [OF that(2)]]) (use sem [OF that(2)] that(1) in simp)
      qed simp
    next
      case none: None
      have ps: "success ps = []" "failure ps = ?fl @ [Jt (?n + length ?chk + 1)]"
        and cg': "cg' = cg\<lparr>cg_insns := cg_insns cg @ ?chk @ ?msh, x_writes := x_writes cg + Suc 0, cg_facts := est4 want ?f\<rparr>"
        using out None none by auto
      have x: "loads_x N pkt ?n (?chk @ ?msh) (?fl @ [Jt (?n + length ?chk + 1)]) c
          (l4_contains want (pkt_byte pkt (unat (?no + 9))) \<and> \<not> later_fragment ?l d pkt) (ihl_bytes ?l d pkt)"
        if "c \<Longrightarrow> ok" for c
        by (rule loads_x_after [OF l4 x_val]) (use that at in auto)
      show ?thesis
      proof (rule emit_ok_loads_x [OF cg' ps, where v = "l4_off ?l d pkt"])
        show "loads_x N pkt ?n (?chk @ ?msh) (?fl @ [Jt (?n + length ?chk + 1)]) True (l4_sem ?l d want pkt) (l4_off ?l d pkt)"
          if ok "knows d pkt cg x" for x
          using x [of True] v4 [OF that(2)] that(1) proto by (simp add: l4_off_def l4_sem_v4)
        show "loads_x N pkt ?n (?chk @ ?msh) (?fl @ [Jt (?n + length ?chk + 1)]) False (l4_sem ?l d want pkt) (l4_off ?l d pkt)"
          by (rule loads_x_mono [OF x [of False]]) auto
        show "facts_ok ?l d pkt (est4 want ?f) (l4_off ?l d pkt)" if "l4_sem ?l d want pkt" "knows d pkt cg x" for x
          by (rule facts_ok_est4 [OF that(2) v4 [OF that(2)] that(1)])
      qed simp
    qed
  qed
qed


lemma prereqs_v6_ok:
  assumes "prereqs_v6 want cg = Inr (ps, cg')" "ethertype (cg_facts cg) = Some 0x86dd"
    and pl: "ok \<longrightarrow> placed N d cg"
  shows "emit_ok N pkt d ok cg ps cg' (l4_sem (cg_link cg) d want pkt)"
proof -
  let ?l = "cg_link cg" and ?n = "length (cg_insns cg)" and ?no = "net_offset cg" and ?f = "cg_facts cg"
  let ?chk = "ldb_abs (?no + 6) # l4_code want" and ?fl = "[l4_fail want (?n + 1)]"
  note out = prereqs_v6_out [OF assms(1), unfolded Let_def]
  have v6: "is_v6 ?l d pkt" if "knows d pkt cg x" for x
    using known_family [OF that assms(2)] by (simp add: is_v6_def)
  have off: "l4_off ?l d pkt = 40" if "is_v6 ?l d pkt" using that by (simp add: l4_off_def is_v4_def is_v6_def)
  have at: "unat (?no + 6) = net_off ?l d + 6 \<and> net_off ?l d + 64 \<le> N" if ok
    using mp [OF pl that] net_offset_add [of N d cg] by (simp add: placed_def)
  have l4: "tests N pkt ?n ?chk [] ?fl (\<lambda>_. unat (?no + 6) + 1 \<le> N)
      (\<lambda>_. l4_contains want (pkt_byte pkt (unat (?no + 6))))" by (rule test_l4)
  have proto: "pkt_byte pkt (unat (?no + 6)) = proto6 ?l d pkt" if ok using at that by (simp add: proto6_def)
  show ?thesis
  proof (cases "ports_ready ?f")
    case (Some S)
    let ?cg = "cg\<lparr>cg_insns := cg_insns cg @ ?chk\<rparr>"
    have ps: "success ps = []" "failure ps = ?fl" and cg': "cg' = ?cg\<lparr>cg_facts := est6 want ?f\<rparr>"
      using out Some by auto
    have rd: "l4_sem ?l d S pkt \<and> x = l4_off ?l d pkt" if "knows d pkt cg x" for x
      by (rule facts_ready [OF that Some])
    have est: "facts_ok ?l d pkt (est6 want ?f) (l4_off ?l d pkt)" if "knows d pkt cg x" "l4_sem ?l d want pkt" for x
      by (rule facts_ok_est6 [OF that(1) v6 [OF that(1)] that(2)])
    have "emit_ok N pkt d ok cg ps ?cg (l4_sem ?l d want pkt)"
      by (rule emit_ok_tests [OF refl l4 [folded ps]])
         (use at v6 rd proto in \<open>auto simp: l4_sem_v6\<close>)
    then show ?thesis
      by (rule emit_ok_weaken [OF _ cg'])
         (use rd est cg' in auto)
  next
    case None
    show ?thesis
    proof (cases "known want (ip6_nh ?f)")
      case (Some est)
      then obtain n where n: "ip6_nh ?f = Some n" "est = One n" "l4_contains want n"
        using known_proto by blast
      have ps: "success ps = []" "failure ps = []"
        and cg': "cg' = cg\<lparr>cg_insns := cg_insns cg @ [ldx_imm 40], x_writes := x_writes cg + Suc 0, cg_facts := est6 est ?f\<rparr>"
        using out None Some by auto
      have sem: "l4_sem ?l d want pkt" "l4_sem ?l d want pkt = l4_sem ?l d est pkt"
        if "knows d pkt cg x" for x
        using that n v6 [OF that] by (auto simp: l4_sem_v6 facts_ok_def)
      show ?thesis
      proof (rule emit_ok_loads_x [OF cg' ps, where v = "l4_off ?l d pkt"])
        show "loads_x N pkt ?n [ldx_imm 40] [] True (l4_sem ?l d want pkt) (l4_off ?l d pkt)"
          if ok "knows d pkt cg x" for x
          using loads_x_imm [of N pkt ?n 40 True] sem [OF that(2)] off [OF v6 [OF that(2)]] by simp
        show "loads_x N pkt ?n [ldx_imm 40] [] False (l4_sem ?l d want pkt) (l4_off ?l d pkt)"
          by (rule loads_x_mono [OF loads_x_imm [of N pkt ?n 40 False]]) auto
        show "facts_ok ?l d pkt (est6 est ?f) (l4_off ?l d pkt)" if "l4_sem ?l d want pkt" "knows d pkt cg x" for x
          by (rule facts_ok_est6 [OF that(2) v6 [OF that(2)]]) (use sem [OF that(2)] that(1) in simp)
      qed simp
    next
      case none: None
      have ps: "success ps = []" "failure ps = ?fl"
        and cg': "cg' = cg\<lparr>cg_insns := cg_insns cg @ ?chk @ [ldx_imm 40], x_writes := x_writes cg + Suc 0, cg_facts := est6 want ?f\<rparr>"
        using out None none by auto
      have x: "loads_x N pkt ?n (?chk @ [ldx_imm 40]) (?fl @ []) c
          (l4_contains want (pkt_byte pkt (unat (?no + 6))) \<and> True) 40"
        if "c \<Longrightarrow> ok" for c
        by (rule loads_x_after [OF l4 loads_x_imm]) (use that at in auto)
      show ?thesis
      proof (rule emit_ok_loads_x [OF cg' ps, where v = "l4_off ?l d pkt"])
        show "loads_x N pkt ?n (?chk @ [ldx_imm 40]) ?fl True (l4_sem ?l d want pkt) (l4_off ?l d pkt)"
          if ok "knows d pkt cg x" for x
          using x [of True] v6 [OF that(2)] that(1) proto off by (simp add: l4_sem_v6)
        show "loads_x N pkt ?n (?chk @ [ldx_imm 40]) ?fl False (l4_sem ?l d want pkt) (l4_off ?l d pkt)"
          using loads_x_mono [OF x [of False], of False] by simp
        show "facts_ok ?l d pkt (est6 want ?f) (l4_off ?l d pkt)" if "l4_sem ?l d want pkt" "knows d pkt cg x" for x
          by (rule facts_ok_est6 [OF that(2) v6 [OF that(2)] that(1)])
      qed simp
    qed
  qed
qed

lemma prereqs_dual_ok:
  assumes "prereqs_dual want cg = Inr (ps, cg')" and pl: "ok \<longrightarrow> placed N d cg"
  shows "emit_ok N pkt d ok cg ps cg' (l4_sem (cg_link cg) d want pkt)"
proof -
  let ?l = "cg_link cg" and ?n = "length (cg_insns cg)" and ?no = "net_offset cg" and ?f = "cg_facts cg"
  obtain eo where eo: "ether_proto_offset cg = Some eo" and ps: "success ps = []" "failure ps = dual_fail want ?n"
    and cg': "cg' = cg\<lparr>cg_insns := cg_insns cg @ dual_code want eo ?no, x_writes := x_writes cg + Suc 1,
      cg_facts := ?f\<lparr>ports_ready := Some want\<rparr>\<rparr>"
    using prereqs_dual_out [OF assms(1)] by auto
  have at: "unat (?no + 9) = net_off ?l d + 9 \<and> unat (?no + 6) = net_off ?l d + 6 \<and> unat ?no = net_off ?l d \<and>
      net_off ?l d + 64 \<le> N \<and> unat eo = ether_off ?l d \<and> ether_off ?l d \<le> net_off ?l d \<and> ?l \<noteq> RawIp" if ok
    using mp [OF pl that] net_offset_add [of N d cg] net_offset_val [of N d cg] ether_offset_val [of N d cg eo] eo
    by (simp add: placed_def)
  have sem: "(ldh pkt (unat eo) = 0x0800 \<and> l4_contains want (pkt_byte pkt (unat (?no + 9))) \<and>
         ldh pkt (unat (?no + 6)) AND 0x1fff = 0) \<or>
      (ldh pkt (unat eo) = 0x86dd \<and> l4_contains want (pkt_byte pkt (unat (?no + 6)))) \<longleftrightarrow> l4_sem ?l d want pkt"
    "(if ldh pkt (unat eo) = 0x0800 then 4 * (ldb pkt (unat ?no) AND 0xf) else 40) = l4_off ?l d pkt" if ok
    using at [OF that]
    by (auto simp: l4_sem_def l4_off_def is_v4_def is_v6_def et_of_def proto4_def proto6_def later_fragment_def ihl_bytes_def)
  have x: "loads_x N pkt ?n (dual_code want eo ?no) (dual_fail want ?n) c (l4_sem ?l d want pkt) (l4_off ?l d pkt)"
    if "c \<Longrightarrow> ok" for c
  proof (rule loads_x_mono [OF loads_x_dual [where c = c]])
    show "unat eo + 2 \<le> N \<and> unat (?no + 9) + 1 \<le> N \<and> unat (?no + 6) + 2 \<le> N \<and> unat ?no + 1 \<le> N" if c
      using at \<open>c \<Longrightarrow> ok\<close> [OF that] by auto
  qed (use that sem in auto)
  show ?thesis
    by (rule emit_ok_loads_x [OF cg' ps, where v = "l4_off ?l d pkt"])
       (auto intro: x simp: facts_ok_def l4_ready_def)
qed

lemma emit_port_prereqs_set_ok:
  assumes "emit_port_prereqs_set want cg = Inr (ps, cg')" and pl: "ok \<longrightarrow> placed N d cg"
  shows "emit_ok N pkt d ok cg ps cg' (l4_sem (cg_link cg) d want pkt) \<and> success ps = []"
proof (cases "\<exists>S. ports_ready (cg_facts cg) = Some S \<and> l4_subset_of S want")
  case True
  then have out: "ps = no_patches" "cg' = cg" using assms(1) by (auto simp: emit_port_prereqs_set_def)
  show ?thesis unfolding out
    using True facts_ready l4_sem_subset by (auto intro!: emit_ok_skip)
next
  case False
  then have e: "emit_port_prereqs_set want cg =
      (if ethertype (cg_facts cg) = Some 0x0800 then prereqs_v4 want cg
       else if ethertype (cg_facts cg) = Some 0x86dd then prereqs_v6 want cg else prereqs_dual want cg)"
    by (auto simp: emit_port_prereqs_set_def split: option.splits)
  show ?thesis
    using assms(1) e prereqs_v4_ok [OF _ _ pl, of want ps cg'] prereqs_v6_ok [OF _ _ pl, of want ps cg']
      prereqs_dual_ok [OF _ pl, of want ps cg']
      prereqs_v4_out [of want cg ps cg'] prereqs_v6_out [of want cg ps cg'] prereqs_dual_out [of want cg ps cg']
    by (auto simp: Let_def split: if_splits)
qed

lemma prereqs_ready:
  assumes "emit_port_prereqs_set want cg = Inr (ps, cg')"
  shows "\<exists>S. ports_ready (cg_facts cg') = Some S"
proof (cases "\<exists>S. ports_ready (cg_facts cg) = Some S \<and> l4_subset_of S want")
  case True
  then show ?thesis using assms by (auto simp: emit_port_prereqs_set_def)
next
  case False
  then show ?thesis
    using assms prereqs_v4_out [of want cg ps cg'] prereqs_v6_out [of want cg ps cg'] prereqs_dual_out [of want cg ps cg']
    by (auto simp: emit_port_prereqs_set_def Let_def est4_def est6_def split: if_splits option.splits)
qed


section \<open>Ports\<close>

lemma l4_off_le: "unat (l4_off link d pkt) \<le> 60"
  using ihl_le [of link d pkt] by (simp add: l4_off_def)

lemma port_at:
  assumes "placed N d cg"
  shows "unat (l4_off (cg_link cg) d pkt + net_offset cg) = net_off (cg_link cg) d + unat (l4_off (cg_link cg) d pkt)"
    "unat (l4_off (cg_link cg) d pkt + (net_offset cg + 2)) = net_off (cg_link cg) d + unat (l4_off (cg_link cg) d pkt) + 2"
    "net_off (cg_link cg) d + unat (l4_off (cg_link cg) d pkt) + 4 \<le> N"
  using l4_off_le [of "cg_link cg" d pkt] net_offset_val [OF assms] net_offset_add [OF assms, of 2] net_off_le [OF assms] assms
  by (simp_all add: unat_add_small placed_def)

lemma ports_ok:
  assumes pre: "emit_port_prereqs_set want cg = Inr (p, cg1)" and pl: "ok \<longrightarrow> placed N d cg"
    and cg2: "cg2 = cg1\<lparr>cg_insns := cg_insns cg1 @ F\<rparr>"
    and t: "tests N pkt (length (cg_insns cg1)) F su fl
        (\<lambda>x. unat (x + net_offset cg1) + 2 \<le> N \<and> unat (x + (net_offset cg1 + 2)) + 2 \<le> N)
        (\<lambda>x. dir_sem dr (R (ldh pkt (unat (x + net_offset cg1)))) (R (ldh pkt (unat (x + (net_offset cg1 + 2))))))"
    and ps: "success ps = su" "failure ps = failure p @ fl"
  shows "emit_ok N pkt d ok cg ps cg2 (l4_sem (cg_link cg) d want pkt \<and>
    dir_sem dr (R (src_port (cg_link cg) d pkt)) (R (dst_port (cg_link cg) d pkt)))"
proof -
  have g: "emit_ok N pkt d ok cg p cg1 (l4_sem (cg_link cg) d want pkt) \<and> success p = []"
    by (rule emit_port_prereqs_set_ok [OF pre pl])
  have link: "cg_link cg1 = cg_link cg" using g emit_ok_link by blast
  have pl1: "ok \<longrightarrow> placed N d cg1" using g pl emit_ok_placed by blast
  obtain S where S: "ports_ready (cg_facts cg1) = Some S" using prereqs_ready [OF pre] by blast
  have x: "x = l4_off (cg_link cg1) d pkt" if "knows d pkt cg1 x" for x using facts_ready [OF that S] by simp
  show ?thesis
  proof (rule guarded [OF g cg2 t _ ps])
    show "(unat (x + net_offset cg1) + 2 \<le> N \<and> unat (x + (net_offset cg1 + 2)) + 2 \<le> N) \<and>
        dir_sem dr (R (ldh pkt (unat (x + net_offset cg1)))) (R (ldh pkt (unat (x + (net_offset cg1 + 2))))) =
        dir_sem dr (R (src_port (cg_link cg) d pkt)) (R (dst_port (cg_link cg) d pkt))" if ok "knows d pkt cg1 x" for x
      using port_at [OF mp [OF pl1 that(1)], of pkt] x [OF that(2)] link by (simp add: src_port_def dst_port_def)
  qed
qed

lemma prereqs_success: "emit_port_prereqs_set want cg = Inr (p, cg1) \<Longrightarrow> success p = []"
  using emit_port_prereqs_set_ok [of want cg p cg1 False 0 0 "[]"] by simp

lemma emit_port_ok:
  assumes "emit_port port dr pr cg = Inr (ps, cg')" and pl: "ok \<longrightarrow> placed N d cg"
  shows "emit_ok N pkt d ok cg ps cg' (prim_sem (cg_link cg) d (Port port dr pr) pkt)"
proof -
  obtain want p cg1 where want: "l4set_for pr = Inr want" and pre: "emit_port_prereqs_set want cg = Inr (p, cg1)"
    using assms(1) by (auto simp: emit_port_def emit_port_prereqs_def rbind_eq_Inr)
  let ?b = "net_offset cg1" and ?v = "ucast port :: u32" and ?n = "length (cg_insns cg1)"
  let ?t = "\<lambda>x. dir_sem dr (ldh pkt (unat (x + ?b)) = ?v) (ldh pkt (unat (x + (?b + 2))) = ?v)"
  let ?fits = "\<lambda>x. unat (x + ?b) + 2 \<le> N \<and> unat (x + (?b + 2)) + 2 \<le> N"
  have "\<exists>F su fl. success ps = su \<and> failure ps = failure p @ fl \<and> cg' = cg1\<lparr>cg_insns := cg_insns cg1 @ F\<rparr> \<and>
      tests N pkt ?n F su fl ?fits ?t"
  proof (cases "dr = SrcOrDst")
    case True
    have "tests N pkt ?n [ldh_ind ?b, jeq_k ?v 0xff 0, ldh_ind (?b + 2), jeq_k ?v 0 0xff]
        [Jt (?n + 1)] [Jf (?n + 3)] ?fits ?t"
      using test_port_or [of N pkt ?n ?b ?v "?b + 2"] True by simp
    moreover have "success ps = [Jt (?n + 1)]" "failure ps = failure p @ [Jf (?n + 3)]"
      "cg' = cg1\<lparr>cg_insns := cg_insns cg1 @ [ldh_ind ?b, jeq_k ?v 0xff 0, ldh_ind (?b + 2), jeq_k ?v 0 0xff]\<rparr>"
      using assms(1) True want pre prereqs_success [OF pre]
      by (auto simp: emit_port_def emit_port_prereqs_def Let_def numeral_3_eq_3)
    ultimately show ?thesis by blast
  next
    case False
    then have "dir_check (check_port ?v) ?b (?b + 2) dr p cg1 = Inr (ps, cg')"
      using assms(1) want pre by (cases dr) (simp_all add: emit_port_def emit_port_prereqs_def Let_def)
    from port_check.directions [OF this, of N pkt] show ?thesis using prereqs_success [OF pre] by auto
  qed
  then obtain F su fl where ps: "success ps = su" "failure ps = failure p @ fl"
    and cg': "cg' = cg1\<lparr>cg_insns := cg_insns cg1 @ F\<rparr>" and t: "tests N pkt ?n F su fl ?fits ?t" by blast
  show ?thesis
    using ports_ok [OF pre pl cg' t ps] want by (simp add: ports_sem_def)
qed

lemma emit_portrange_ok:
  assumes "emit_portrange lo hi dr pr cg = Inr (ps, cg')" and pl: "ok \<longrightarrow> placed N d cg"
  shows "emit_ok N pkt d ok cg ps cg' (prim_sem (cg_link cg) d (PortRange lo hi dr pr) pkt)"
proof -
  obtain want p cg1 where want: "l4set_for pr = Inr want" and pre: "emit_port_prereqs_set want cg = Inr (p, cg1)"
    using assms(1) by (auto simp: emit_portrange_def emit_port_prereqs_def rbind_eq_Inr)
  let ?b = "net_offset cg1" and ?n = "length (cg_insns cg1)"
  let ?R = "\<lambda>v. (ucast lo :: u32) \<le> v \<and> v \<le> ucast hi"
  have "dir_check (check_range lo hi) ?b (?b + 2) dr p cg1 = Inr (ps, cg')"
    using assms(1) want pre by (simp add: emit_portrange_def emit_port_prereqs_def Let_def)
  from range_check.directions [OF this, of N pkt] prereqs_success [OF pre]
  obtain F su fl where ps: "success ps = su" "failure ps = failure p @ fl"
    and cg': "cg' = cg1\<lparr>cg_insns := cg_insns cg1 @ F\<rparr>"
    and t: "tests N pkt ?n F su fl (\<lambda>x. unat (x + ?b) + 2 \<le> N \<and> unat (x + (?b + 2)) + 2 \<le> N)
      (\<lambda>x. dir_sem dr (?R (ldh pkt (unat (x + ?b)))) (?R (ldh pkt (unat (x + (?b + 2))))))" by auto
  show ?thesis
    using ports_ok [OF pre pl cg' t ps] want by (simp add: ports_sem_def)
qed

section \<open>Every primitive\<close>

theorem emit_primitive_ok:
  assumes "emit_primitive q cg = Inr (ps, cg')"
    and ok: "ok \<longrightarrow> placed N d cg \<and> plain_prim q \<and> (d = 0 \<or> \<not> tag_prim q) \<and> prim_need (cg_link cg) d q \<le> N"
  shows "emit_ok N pkt d ok cg ps cg' (if plain_prim q then prim_sem (cg_link cg) d q pkt
    else mpls_code_sem (cg_link cg) d (case q of Mpls l \<Rightarrow> l | _ \<Rightarrow> None) pkt)"
proof -
  have pl: "ok \<longrightarrow> placed N d cg" using ok by simp
  note each = emit_proto_ok [OF _ pl] emit_host4_ok [OF _ pl] emit_host6_ok [OF _ pl] emit_net_ok [OF _ pl] emit_net6_ok [OF _ pl]
    emit_port_ok [OF _ pl] emit_portrange_ok [OF _ pl] emit_ether_host_ok [OF _ pl] emit_ether_multicast_ok [OF _ pl]
    emit_ip_broadcast_ok [OF _ pl] emit_ip_multicast_ok [OF _ pl] emit_ip6_multicast_ok [OF _ pl]
    emit_pppoe_session_ok [OF _ pl]
  show ?thesis
  proof (cases q)
    case (Host a dr)
    with assms(1) each show ?thesis by (cases a) auto
  next
    case (Mpls l)
    with assms(1) emit_mpls_code [OF _ pl, of l ps cg' pkt] show ?thesis
      by (cases l) (auto simp: mpls_code_sem_def)
  next
    case (Vlan vid)
    with assms(1) ok emit_vlan_ok [OF _ pl, of vid ps cg' pkt] show ?thesis by auto
  next
    case (EtherProto et)
    have "ok \<longrightarrow> d = 0 \<or> (ucast et :: u32) \<noteq> 0x8100"
    proof -
      have "unat (ucast et :: u32) = unat et"
        using unsigned_less [where ?w = et and ?'a = nat] by (simp add: unsigned_ucast_eq take_bit_nat_eq_self)
      then have "(ucast et :: u32) = 0x8100 \<Longrightarrow> et = 0x8100"
        by (simp add: word_unat_eq_iff)
      then show ?thesis using ok EtherProto by auto
    qed
    with assms(1) EtherProto emit_ethertype_ok [OF _ pl, of "ucast et" ps cg' pkt] show ?thesis by auto
  next
    case (Len opr v)
    with assms(1) emit_len_ok show ?thesis by auto
  next
    case (ByteAccess ba)
    with assms(1) ok emit_byte_access_ok [OF _ pl] show ?thesis by auto
  next
    case PppoeDiscovery
    with assms(1) emit_ethertype_ok [OF _ pl] show ?thesis by auto
  next
    case (IpProtoChain n)
    with assms(1) emit_ip4_l4_ok [OF _ pl] show ?thesis by auto
  next
    case (Ip6ProtoChain n)
    with assms(1) emit_ip6_l4_ok [OF _ pl] show ?thesis by auto
  qed (use assms(1) each in auto)
qed

end
