(* ===== verification/Walk_Correct.thy ===== *)
theory Walk_Correct
  imports Ports_Correct
begin

text \<open>
  The explicit work stacks of \<open>codegen.rs\<close> compute the recursion they stand for: \<open>guards_of\<close> for
  \<open>required_guards\<close>, whatever the memo already holds, and \<open>emit_rec\<close> for \<open>emit_expr\<close>. The stacks
  never run empty too early, so their \<open>expect\<close> calls cannot fail.
\<close>

section \<open>Required guards\<close>

fun guards_of :: "expr \<Rightarrow> guard_set" where
  "guards_of (Primitive p) = primitive_guards p"
| "guards_of (And l r) = guards_union (guards_of l) (guards_of r)"
| "guards_of (Or l r) = guards_intersect (guards_of l) (guards_of r)"
| "guards_of (Not e) = no_guards"

text \<open>Every entry of the memo is the guard set of the node at its path below \<open>root\<close>.\<close>

definition memo_ok :: "expr \<Rightarrow> guard_memo \<Rightarrow> bool" where
  "memo_ok root memo \<longleftrightarrow> (\<forall>p g. memo p = Some g \<longrightarrow> (\<exists>e. subtree p root = Some e \<and> g = guards_of e))"

lemma memo_ok_empty: "memo_ok root Map.empty"
  by (simp add: memo_ok_def)

lemma memo_ok_upd: "memo_ok root memo \<Longrightarrow> subtree p root = Some e \<Longrightarrow> memo_ok root (memo(p \<mapsto> guards_of e))"
  by (simp add: memo_ok_def)

lemma subtree_append: "subtree (p @ q) root = (case subtree p root of None \<Rightarrow> None | Some e \<Rightarrow> subtree q e)"
  by (induction p root rule: subtree.induct) auto

lemma subtree_children:
  "subtree p root = Some (And l r) \<Longrightarrow> subtree (p @ [0]) root = Some l \<and> subtree (p @ [1]) root = Some r"
  "subtree p root = Some (Or l r) \<Longrightarrow> subtree (p @ [0]) root = Some l \<and> subtree (p @ [1]) root = Some r"
  "subtree p root = Some (Not e) \<Longrightarrow> subtree (p @ [0]) root = Some e"
  by (simp_all add: subtree_append)

lemma guards_loop_hit:
  "subtree at root = Some e \<Longrightarrow> memo_ok root memo \<Longrightarrow> memo at = Some g \<Longrightarrow>
   guards_loop (Visit at e # todo) done memo = guards_loop todo (guards_of e # done) memo"
  by (force simp: guards_loop.simps(2) memo_ok_def)

lemma guards_loop_visit:
  "subtree at root = Some e \<Longrightarrow> memo_ok root memo \<Longrightarrow>
   \<exists>memo'. memo_ok root memo' \<and>
     guards_loop (Visit at e # todo) done memo = guards_loop todo (guards_of e # done) memo'"
proof (induction e arbitrary: at todo "done" memo)
  case (And l r)
  show ?case
  proof (cases "memo at")
    case None
    obtain m1 where m1: "memo_ok root m1"
      "guards_loop (Visit (at @ [0]) l # Visit (at @ [1]) r # Combine at (And l r) # todo) done memo =
       guards_loop (Visit (at @ [1]) r # Combine at (And l r) # todo) (guards_of l # done) m1"
      using And.IH(1) [of "at @ [0]" memo] subtree_children(1) [OF And.prems(1)] And.prems(2) by blast
    obtain m2 where m2: "memo_ok root m2"
      "guards_loop (Visit (at @ [1]) r # Combine at (And l r) # todo) (guards_of l # done) m1 =
       guards_loop (Combine at (And l r) # todo) (guards_of r # guards_of l # done) m2"
      using And.IH(2) [of "at @ [1]" m1] subtree_children(1) [OF And.prems(1)] m1(1) by blast
    have "memo_ok root (m2(at \<mapsto> guards_of (And l r)))" by (rule memo_ok_upd [OF m2(1) And.prems(1)])
    moreover have "guards_loop (Visit at (And l r) # todo) done memo =
        guards_loop (Visit (at @ [0]) l # Visit (at @ [1]) r # Combine at (And l r) # todo) done memo"
      using None by (simp add: guards_loop.simps(2) [of at])
    moreover have "guards_loop (Combine at (And l r) # todo) (guards_of r # guards_of l # done) m2 =
        guards_loop todo (guards_of (And l r) # done) (m2(at \<mapsto> guards_of (And l r)))"
      by (simp add: guards_loop.simps(3) Let_def)
    ultimately show ?thesis using m1(2) m2(2) by metis
  qed (use guards_loop_hit [OF And.prems] And.prems(2) in blast)
next
  case (Or l r)
  show ?case
  proof (cases "memo at")
    case None
    obtain m1 where m1: "memo_ok root m1"
      "guards_loop (Visit (at @ [0]) l # Visit (at @ [1]) r # Combine at (Or l r) # todo) done memo =
       guards_loop (Visit (at @ [1]) r # Combine at (Or l r) # todo) (guards_of l # done) m1"
      using Or.IH(1) [of "at @ [0]" memo] subtree_children(2) [OF Or.prems(1)] Or.prems(2) by blast
    obtain m2 where m2: "memo_ok root m2"
      "guards_loop (Visit (at @ [1]) r # Combine at (Or l r) # todo) (guards_of l # done) m1 =
       guards_loop (Combine at (Or l r) # todo) (guards_of r # guards_of l # done) m2"
      using Or.IH(2) [of "at @ [1]" m1] subtree_children(2) [OF Or.prems(1)] m1(1) by blast
    have "memo_ok root (m2(at \<mapsto> guards_of (Or l r)))" by (rule memo_ok_upd [OF m2(1) Or.prems(1)])
    moreover have "guards_loop (Visit at (Or l r) # todo) done memo =
        guards_loop (Visit (at @ [0]) l # Visit (at @ [1]) r # Combine at (Or l r) # todo) done memo"
      using None by (simp add: guards_loop.simps(2) [of at])
    moreover have "guards_loop (Combine at (Or l r) # todo) (guards_of r # guards_of l # done) m2 =
        guards_loop todo (guards_of (Or l r) # done) (m2(at \<mapsto> guards_of (Or l r)))"
      by (simp add: guards_loop.simps(3) Let_def)
    ultimately show ?thesis using m1(2) m2(2) by metis
  qed (use guards_loop_hit [OF Or.prems] Or.prems(2) in blast)
next
  case (Not e)
  then show ?case
    using guards_loop_hit [OF Not.prems] by (cases "memo at") (auto simp: guards_loop.simps(2))
next
  case (Primitive p)
  then show ?case
    using guards_loop_hit [OF Primitive.prems] by (cases "memo at") (auto simp: guards_loop.simps(2))
qed

lemma required_guards_of:
  assumes "subtree at root = Some e" "memo_ok root memo"
  shows "\<exists>memo'. memo_ok root memo' \<and> required_guards at e memo = Inr (guards_of e, memo')"
  using guards_loop_visit [OF assms, of "[]" "[]"] by (auto simp: required_guards_def guards_loop.simps)

section \<open>Emission\<close>

definition hoist_guards :: "guard_set \<Rightarrow> codegen \<Rightarrow> error + (patch list \<times> codegen)" where
  "hoist_guards common cg =
     (let et = (if link_ether_proto_offset (cg_link cg) \<noteq> None then g_ethertype common else None)
      in rbind (hoist_one emit_ethertype et ([], cg)) (\<lambda>acc.
         rbind (hoist_one emit_ip4_l4 (g_ip4_proto common) acc) (\<lambda>acc.
         rbind (hoist_one emit_ip6_l4 (g_ip6_nh common) acc) (\<lambda>acc.
         hoist_one emit_port_prereqs_set (port_prereqs common) acc))))"

lemma emit_or_hoist_of:
  assumes "subtree at root = Some (Or l r)" "memo_ok root memo"
  shows "\<exists>memo'. memo_ok root memo' \<and> emit_or_hoist at l r memo cg =
    rbind (hoist_guards (guards_of (Or l r)) cg) (\<lambda>(fail, cg). Inr (fail, memo', cg))"
proof -
  note sub = subtree_children(2) [OF assms(1)]
  obtain m1 where m1: "memo_ok root m1" "required_guards (at @ [0]) l memo = Inr (guards_of l, m1)"
    using required_guards_of [OF conjunct1 [OF sub] assms(2)] by blast
  obtain m2 where m2: "memo_ok root m2" "required_guards (at @ [1]) r m1 = Inr (guards_of r, m2)"
    using required_guards_of [OF conjunct2 [OF sub] m1(1)] by blast
  show ?thesis
    using m1 m2 by (intro exI [of _ m2]) (simp add: emit_or_hoist_def hoist_guards_def Let_def rbind_assoc)
qed

fun emit_rec :: "expr \<Rightarrow> codegen \<Rightarrow> error + (patches \<times> codegen)" where
  "emit_rec (Primitive p) cg = emit_primitive p cg"
| "emit_rec (And l r) cg =
     rbind (emit_rec l cg) (\<lambda>(lp, cg).
     rbind (resolve_all (success lp) (length (cg_insns cg)) cg) (\<lambda>cg.
     rbind (emit_rec r (if leading_vlan l then cg\<lparr>vlan_depth := vlan_depth cg + 1\<rparr> else cg)) (\<lambda>(rp, cg).
       Inr (\<lparr>success = success rp, failure = concat_vec (failure lp) (failure rp)\<rparr>,
            if leading_vlan l then cg\<lparr>vlan_depth := vlan_depth cg - 1\<rparr> else cg))))"
| "emit_rec (Or l r) cg =
     rbind (hoist_guards (guards_of (Or l r)) cg) (\<lambda>(hoist_failure, cg0).
     rbind (emit_rec l cg0) (\<lambda>(lp, cg1).
       let n = length (cg_insns cg1) in
       rbind (resolve_all (failure lp) (n + 1) (put (ja 0) (restore_facts (cg_facts cg0) (x_writes cg0) cg1))) (\<lambda>cg.
       rbind (emit_rec r cg) (\<lambda>(rp, cg).
         Inr (\<lparr>success = concat_vec (success lp @ [Ja n]) (success rp),
               failure = concat_vec (failure rp) hoist_failure\<rparr>,
              cg\<lparr>cg_facts := facts_meet (cg_facts cg1) (cg_facts cg)\<rparr>)))))"
| "emit_rec (Not e) cg =
     rbind (emit_rec e cg) (\<lambda>(p, cg1).
       let n = length (cg_insns cg1) in
       rbind (resolve_all (failure p) (n + 1) (put (ja 0) (restore_facts (cg_facts cg) (x_writes cg) cg1))) (\<lambda>cg.
         Inr (\<lparr>success = [], failure = success p @ [Ja n]\<rparr>, cg)))"

lemma push_ja [simp]: "push (ja 0) cg = (length (cg_insns cg), put (ja 0) cg)"
  "length (cg_insns (put (ja 0) cg)) = length (cg_insns cg) + 1"
  by simp_all

lemma restore_insns [simp]: "cg_insns (restore_facts f n cg) = cg_insns cg"
  by (simp add: restore_facts_def)

lemma emit_loop_rec:
  "subtree at root = Some e \<Longrightarrow> memo_ok root memo \<Longrightarrow>
   \<exists>memo'. memo_ok root memo' \<and>
     emit_loop (Emit at e # work) done memo cg =
       rbind (emit_rec e cg) (\<lambda>(ps, cg'). emit_loop work ((ps, leading_vlan e) # done) memo' cg')"
proof (induction e arbitrary: at work "done" memo cg)
  case (Primitive p)
  then show ?case by (auto simp: emit_loop.simps)
next
  case (Not e)
  obtain m where m: "memo_ok root m" "emit_loop (Emit (at @ [0]) e # NotDone (cg_facts cg) (x_writes cg) # work) done memo cg =
     rbind (emit_rec e cg) (\<lambda>(ps, cg'). emit_loop (NotDone (cg_facts cg) (x_writes cg) # work) ((ps, leading_vlan e) # done) m cg')"
    using Not.IH [of "at @ [0]" memo] subtree_children(3) [OF Not.prems(1)] Not.prems(2) by blast
  have "emit_loop (Emit at (expr.Not e) # work) done memo cg =
      rbind (emit_rec (expr.Not e) cg) (\<lambda>(ps, cg'). emit_loop work ((ps, leading_vlan (expr.Not e)) # done) m cg')"
  proof (cases "emit_rec e cg")
    case (Inl er)
    then show ?thesis by (simp add: emit_loop.simps(5) m(2))
  next
    case (Inr a)
    obtain p c1 where "a = (p, c1)" by (cases a)
    with Inr show ?thesis
      by (simp add: emit_loop.simps(5) m(2) rbind_assoc emit_loop.simps(10) Let_def del: push_plain push_x)
  qed
  with m(1) show ?case by blast
next
  case (And l r)
  note sub = subtree_children(1) [OF And.prems(1)]
  let ?AR = "AndRight (at @ [1]) r # work"
  obtain m where m: "memo_ok root m" "emit_loop (Emit (at @ [0]) l # ?AR) done memo cg =
     rbind (emit_rec l cg) (\<lambda>(ps, cg'). emit_loop ?AR ((ps, leading_vlan l) # done) m cg')"
    using And.IH(1) [of "at @ [0]" memo] sub And.prems(2) by blast
  show ?case
  proof (cases "emit_rec l cg")
    case (Inl er)
    with m And.prems(2) show ?thesis by (auto simp: emit_loop.simps(3))
  next
    case l: (Inr a)
    obtain lp c1 where a: "a = (lp, c1)" by (cases a)
    show ?thesis
    proof (cases "resolve_all (success lp) (length (cg_insns c1)) c1")
      case (Inl er)
      with m l a And.prems(2) show ?thesis by (auto simp: emit_loop.simps(3) emit_loop.simps(6) Let_def)
    next
      case c2: (Inr c2)
      let ?c = "if leading_vlan l then c2\<lparr>vlan_depth := vlan_depth c2 + 1\<rparr> else c2"
      let ?AD = "AndDone (failure lp) (leading_vlan l) # work"
      obtain m' where m': "memo_ok root m'" "emit_loop (Emit (at @ [1]) r # ?AD) done m ?c =
         rbind (emit_rec r ?c) (\<lambda>(ps, cg'). emit_loop ?AD ((ps, leading_vlan r) # done) m' cg')"
        using And.IH(2) [of "at @ [1]" m] sub m(1) by blast
      have "emit_loop (Emit at (And l r) # work) done memo cg = emit_loop ?AR ((lp, leading_vlan l) # done) m c1"
        using m(2) l a by (simp add: emit_loop.simps(3))
      also have "\<dots> = emit_loop (Emit (at @ [1]) r # ?AD) done m ?c"
        using c2 by (simp add: emit_loop.simps(6) Let_def)
      also have "\<dots> = rbind (emit_rec (And l r) cg) (\<lambda>(ps, cg'). emit_loop work ((ps, leading_vlan l) # done) m' cg')"
        unfolding m'(2) using l a c2 by (cases "emit_rec r ?c") (auto simp: emit_loop.simps(7) Let_def)
      finally show ?thesis using m'(1) by auto
    qed
  qed
next
  case (Or l r)
  note sub = subtree_children(2) [OF Or.prems(1)]
  obtain m0 where m0: "memo_ok root m0" "emit_or_hoist at l r memo cg =
      rbind (hoist_guards (guards_of (Or l r)) cg) (\<lambda>(fail, cg). Inr (fail, m0, cg))"
    using emit_or_hoist_of [OF Or.prems] by blast
  show ?case
  proof (cases "hoist_guards (guards_of (Or l r)) cg")
    case (Inl er)
    with m0 show ?thesis by (auto simp: emit_loop.simps(4) simp del: guards_of.simps)
  next
    case h: (Inr b)
    obtain hf c0 where b: "b = (hf, c0)" by (cases b)
    let ?OR = "OrRight (at @ [1]) r hf (cg_facts c0) (x_writes c0) # work"
    obtain m where m: "memo_ok root m" "emit_loop (Emit (at @ [0]) l # ?OR) done m0 c0 =
       rbind (emit_rec l c0) (\<lambda>(ps, cg'). emit_loop ?OR ((ps, leading_vlan l) # done) m cg')"
      using Or.IH(1) [of "at @ [0]" m0] sub m0(1) by blast
    have start: "emit_loop (Emit at (Or l r) # work) done memo cg = emit_loop (Emit (at @ [0]) l # ?OR) done m0 c0"
      by (simp add: emit_loop.simps(4) m0 h b del: guards_of.simps)
    show ?thesis
    proof (cases "emit_rec l c0")
      case (Inl er)
      with start m h b show ?thesis by (auto simp del: guards_of.simps)
    next
      case l: (Inr a)
      obtain lp c1 where a: "a = (lp, c1)" by (cases a)
      let ?n = "length (cg_insns c1)"
      let ?res = "resolve_all (failure lp) (?n + 1) (put (ja 0) (restore_facts (cg_facts c0) (x_writes c0) c1))"
      show ?thesis
      proof (cases ?res)
        case (Inl er)
        with start m l h a b show ?thesis
          by (auto simp: emit_loop.simps(8) Let_def simp del: guards_of.simps push_plain push_x)
      next
        case c2: (Inr c2)
        let ?OD = "OrDone (success lp) ?n (cg_facts c1) hf # work"
        obtain m' where m': "memo_ok root m'" "emit_loop (Emit (at @ [1]) r # ?OD) done m c2 =
           rbind (emit_rec r c2) (\<lambda>(ps, cg'). emit_loop ?OD ((ps, leading_vlan r) # done) m' cg')"
          using Or.IH(2) [of "at @ [1]" m] sub m(1) by blast
        have "emit_loop (Emit at (Or l r) # work) done memo cg = emit_loop ?OR ((lp, leading_vlan l) # done) m c1"
          using start m(2) l a by simp
        also have "\<dots> = emit_loop (Emit (at @ [1]) r # ?OD) done m c2"
          using c2 by (simp add: emit_loop.simps(8) Let_def del: push_plain push_x)
        also have "\<dots> = rbind (emit_rec (Or l r) cg) (\<lambda>(ps, cg'). emit_loop work ((ps, False) # done) m' cg')"
          unfolding m'(2) using h b l a c2
          by (cases "emit_rec r c2") (auto simp: emit_loop.simps(9) Let_def simp del: guards_of.simps push_plain push_x)
        finally show ?thesis using m'(1) by auto
      qed
    qed
  qed
qed

lemma emit_expr_rec: "emit_expr e cg = emit_rec e cg"
proof -
  obtain m where "emit_loop [Emit [] e] [] Map.empty cg =
     rbind (emit_rec e cg) (\<lambda>(ps, cg'). emit_loop [] [(ps, leading_vlan e)] m cg')"
    using emit_loop_rec [of "[]" e e Map.empty "[]" "[]" cg] memo_ok_empty by auto
  then show ?thesis
    by (cases "emit_rec e cg") (auto simp: emit_expr_def emit_loop.simps(1))
qed

end
