(* ===== verification/Expr_Correct.thy ===== *)
theory Expr_Correct
  imports Walk_Correct
begin

text \<open>
  Expressions: the guards that are hoisted in front of an OR are implied by it, AND, OR and NOT keep
  the contract of an emitter, and so the whole walk does.
\<close>

section \<open>Guards\<close>

definition guard_holds :: "link_type \<Rightarrow> nat \<Rightarrow> packet \<Rightarrow> guard_set \<Rightarrow> bool" where
  "guard_holds link d pkt g \<longleftrightarrow>
     (\<forall>v. g_ethertype g = Some v \<longrightarrow> et_of link d pkt = v) \<and>
     (\<forall>n. g_ip4_proto g = Some n \<longrightarrow> is_v4 link d pkt \<and> proto4 link d pkt = n) \<and>
     (\<forall>n. g_ip6_nh g = Some n \<longrightarrow> is_v6 link d pkt \<and> proto6 link d pkt = n) \<and>
     (\<forall>S. port_prereqs g = Some S \<longrightarrow> l4_sem link d S pkt)"

lemma guard_holds_no [simp]: "guard_holds link d pkt no_guards"
  by (simp add: guard_holds_def no_guards_def)

lemma guard_holds_union:
  "guard_holds link d pkt g \<Longrightarrow> guard_holds link d pkt h \<Longrightarrow> guard_holds link d pkt (guards_union g h)"
  by (simp add: guard_holds_def guards_union_def or_else_def split: option.split)

lemma both_Some: "both x y = Some v \<longleftrightarrow> x = Some v \<and> y = Some v"
  by (auto simp: both_def split: option.splits if_splits)

lemma guard_holds_intersect:
  "guard_holds link d pkt g \<or> guard_holds link d pkt h \<Longrightarrow> guard_holds link d pkt (guards_intersect g h)"
  by (auto simp: guard_holds_def guards_intersect_def both_Some)

lemma proto_guards_hold: "proto_sem link d pr pkt \<Longrightarrow> guard_holds link d pkt (proto_guards pr)"
  by (cases pr) (auto simp: guard_holds_def no_guards_def is_v4_def is_v6_def)

lemma primitive_guards_hold: "prim_sem link d q pkt \<Longrightarrow> guard_holds link d pkt (primitive_guards q)"
proof (induction q rule: primitive_guards.induct)
  case (1 p)
  then show ?case by (simp add: proto_guards_hold)
qed (auto simp: guard_holds_def no_guards_def is_v4_def is_v6_def ports_sem_def result_ok_def split: sum.splits)

lemma guards_of_hold: "plain e \<Longrightarrow> sem link d e pkt \<Longrightarrow> guard_holds link d pkt (guards_of e)"
  by (induction e) (auto simp: primitive_guards_hold guard_holds_union guard_holds_intersect)

lemma primitive_guards_tag: "\<not> tag_prim q \<Longrightarrow> g_ethertype (primitive_guards q) \<noteq> Some 0x8100"
proof (induction q rule: primitive_guards.induct)
  case (1 p)
  then show ?case by (cases p) (simp_all add: no_guards_def)
next
  case (11 et)
  have "unat (ucast et :: u32) = unat et"
    using unsigned_less [where ?w = et and ?'a = nat] by (simp add: unsigned_ucast_eq take_bit_nat_eq_self)
  then have "(ucast et :: u32) = 0x8100 \<Longrightarrow> et = 0x8100" by (simp add: word_unat_eq_iff)
  then show ?case using 11 by (auto simp: no_guards_def)
qed (simp_all add: no_guards_def)

lemma guards_of_tag: "no_tag e \<Longrightarrow> g_ethertype (guards_of e) \<noteq> Some 0x8100"
proof (induction e)
  case (Primitive q)
  then show ?case using primitive_guards_tag by simp
qed (auto simp: guards_union_def guards_intersect_def or_else_def both_Some no_guards_def split: option.splits)

section \<open>Hoisted guards\<close>

lemma hoist_one_ok:
  assumes "hoist_one emit g (fail, cg1) = Inr (fail', cg2)"
    and emit: "\<And>v p cg2. g = Some v \<Longrightarrow> emit v cg1 = Inr (p, cg2) \<Longrightarrow>
      emit_ok N pkt d ok cg1 p cg2 (T v) \<and> success p = []"
    and acc: "emit_ok N pkt d ok cg \<lparr>success = [], failure = fail\<rparr> cg1 t"
  shows "emit_ok N pkt d ok cg \<lparr>success = [], failure = fail'\<rparr> cg2 (t \<and> (\<forall>v. g = Some v \<longrightarrow> T v))"
proof (cases g)
  case None
  with assms(1) acc show ?thesis by (simp add: hoist_one_def)
next
  case (Some v)
  obtain p where p: "emit v cg1 = Inr (p, cg2)" "fail' = fail @ failure p"
    using assms(1) Some by (auto simp: hoist_one_def rbind_eq_Inr)
  note e = emit [OF Some p(1)]
  have "emit_ok N pkt d ok cg \<lparr>success = [], failure = fail'\<rparr> cg2 (t \<and> T v)"
    by (rule emit_ok_seq [OF acc conjunct1 [OF e]]) (use e p(2) in simp_all)
  with Some show ?thesis by simp
qed

lemma emit_ok_link_placed:
  assumes "emit_ok N pkt d ok cg ps cg' t" "ok \<longrightarrow> placed N d cg"
  shows "cg_link cg' = cg_link cg" "ok \<longrightarrow> placed N d cg'"
  using assms emit_ok_link emit_ok_placed by blast+

lemma hoist_guards_ok:
  assumes "hoist_guards g cg = Inr (fail, cg')"
    and pl: "ok \<longrightarrow> placed N d cg" and tag: "ok \<longrightarrow> d = 0 \<or> g_ethertype g \<noteq> Some 0x8100"
  shows "\<exists>H. emit_ok N pkt d ok cg \<lparr>success = [], failure = fail\<rparr> cg' H \<and>
    (guard_holds (cg_link cg) d pkt g \<longrightarrow> H)"
proof -
  let ?et = "if link_ether_proto_offset (cg_link cg) \<noteq> None then g_ethertype g else None"
  obtain f1 c1 f2 c2 f3 c3 where 1: "hoist_one emit_ethertype ?et ([], cg) = Inr (f1, c1)"
    and 2: "hoist_one emit_ip4_l4 (g_ip4_proto g) (f1, c1) = Inr (f2, c2)"
    and 3: "hoist_one emit_ip6_l4 (g_ip6_nh g) (f2, c2) = Inr (f3, c3)"
    and 4: "hoist_one emit_port_prereqs_set (port_prereqs g) (f3, c3) = Inr (fail, cg')"
    using assms(1) by (auto simp: hoist_guards_def rbind_eq_Inr Let_def)
  let ?l = "cg_link cg"
  have t: "ok \<longrightarrow> d = 0 \<or> v \<noteq> 0x8100" if "?et = Some v" for v
    using tag that by (auto split: if_splits)
  have "emit_ok N pkt d ok cg \<lparr>success = [], failure = []\<rparr> cg True"
    using emit_ok_skip [where t = True] by (simp add: no_patches_def)
  from hoist_one_ok [OF 1 emit_ethertype_ok [OF _ pl t] this]
  have e1: "emit_ok N pkt d ok cg \<lparr>success = [], failure = f1\<rparr> c1 (True \<and> (\<forall>v. ?et = Some v \<longrightarrow> et_of ?l d pkt = v))" .
  note s1 = emit_ok_link_placed [OF e1 pl]
  from hoist_one_ok [OF 2 emit_ip4_l4_ok [OF _ s1(2)] e1]
  have e2: "emit_ok N pkt d ok cg \<lparr>success = [], failure = f2\<rparr> c2 ((True \<and> (\<forall>v. ?et = Some v \<longrightarrow> et_of ?l d pkt = v)) \<and>
      (\<forall>n. g_ip4_proto g = Some n \<longrightarrow> is_v4 (cg_link c1) d pkt \<and> proto4 (cg_link c1) d pkt = n))" .
  note s2 = emit_ok_link_placed [OF e2 pl]
  note e3 = hoist_one_ok [OF 3 emit_ip6_l4_ok [OF _ s2(2)] e2]
  note s3 = emit_ok_link_placed [OF e3 pl]
  note e4 = hoist_one_ok [OF 4 emit_port_prereqs_set_ok [OF _ s3(2)] e3]
  show ?thesis
    by (rule exI, rule conjI [OF e4]) (auto simp: guard_holds_def s1 s2 s3 split: if_splits)
qed

section \<open>Facts at a join\<close>

lemma l4_join_sup: "l4_join a b = Some c \<Longrightarrow> l4_contains a n \<or> l4_contains b n \<Longrightarrow> l4_contains c n"
  by (cases a; cases b) (auto simp: l4_join_def split: if_splits)

lemma facts_meet_ok:
  assumes "facts_ok link d pkt a x \<or> facts_ok link d pkt b x"
    and "d \<noteq> 0 \<longrightarrow> ethertype a = Some 0x8100 \<and> ethertype b = Some 0x8100"
  shows "facts_ok link d pkt (facts_meet a b) x"
proof -
  have "l4_ready link d pkt c x"
    if "ports_ready a = Some s1" "ports_ready b = Some s2" "l4_join s1 s2 = Some c" for s1 s2 c
  proof -
    have "l4_ready link d pkt s1 x \<or> l4_ready link d pkt s2 x" using assms(1) that by (auto simp: facts_ok_def)
    then show ?thesis using l4_join_sup [OF that(3)] by (auto simp: l4_ready_def l4_sem_def)
  qed
  with assms show ?thesis
    by (auto simp: facts_ok_def facts_meet_def both_Some split: option.splits if_splits)
qed

lemma facts_restore:
  assumes "facts_ok link d pkt f x0" "x_writes cg = n \<Longrightarrow> x = x0"
  shows "facts_ok link d pkt (cg_facts (restore_facts f n cg)) x"
  using assms facts_ok_drop [OF assms(1), of x] by (auto simp: restore_facts_def)

section \<open>The connectives\<close>

lemma resolved_ok:
  assumes e: "emit_ok N pkt d ok cg ps cg1 t"
    and res: "resolve_all (success ps) (length (cg_insns cg1)) cg1 = Inr cg2"
  shows "emit_ok N pkt d ok cg \<lparr>success = [], failure = failure ps\<rparr> cg2 t"
    and "\<exists>C. cg2 = cg1\<lparr>cg_insns := C\<rparr>"
proof -
  from e obtain F where F: "cg_insns cg1 = cg_insns cg @ F"
    and f: "\<And>x0. frag N pkt (length (cg_insns cg)) F (pend (success ps) (failure ps))
           (\<lambda>x. x = x0 \<and> ok \<and> knows d pkt cg x)
           (\<lambda>l x. kept cg cg1 x0 x \<and> outcome ps t (knows d pkt cg1) l x)"
    by (auto simp: emit_ok_def)
  obtain C where C: "resolves (success ps) (length (cg_insns cg1)) (cg_insns cg1) C" and cg2: "cg2 = cg1\<lparr>cg_insns := C\<rparr>"
    using resolve_all_Inr [OF res] by blast
  then show "\<exists>C. cg2 = cg1\<lparr>cg_insns := C\<rparr>" by blast
  have disj: "set (success ps) \<inter> set (failure ps) = {}" using e by (simp add: emit_ok_def)
  have "\<forall>p \<in> set (success ps). length (cg_insns cg) \<le> pidx p"
    using frag_range [OF f] by (simp add: pend_range)
  then obtain F' where F': "C = cg_insns cg @ F'"
    using resolves_prefix [of "success ps" "length (cg_insns cg1)" "cg_insns cg" F C] C F by auto
  have cl: "close ESucc (pend (success ps) (failure ps)) = pend [] (failure ps)"
    using disj by (auto simp: fun_eq_iff close_def pend_def)
  have "frag N pkt (length (cg_insns cg)) F' (pend [] (failure ps))
      (\<lambda>x. x = x0 \<and> ok \<and> knows d pkt cg x)
      (\<lambda>l x. kept cg cg2 x0 x \<and> outcome \<lparr>success = [], failure = failure ps\<rparr> t (knows d pkt cg2) l x)" for x0
  proof -
    have res': "resolves (success ps) (length (cg_insns cg) + length F) (cg_insns cg @ F) (cg_insns cg @ F')"
      using C F F' by simp
    have "frag N pkt (length (cg_insns cg)) F' (pend [] (failure ps)) (\<lambda>x. x = x0 \<and> ok \<and> knows d pkt cg x)
       (\<lambda>l x. case l of None \<Rightarrow> (kept cg cg1 x0 x \<and> outcome ps t (knows d pkt cg1) None x) \<or>
             (kept cg cg1 x0 x \<and> outcome ps t (knows d pkt cg1) (Some ESucc) x)
         | Some m \<Rightarrow> m \<noteq> ESucc \<and> kept cg cg1 x0 x \<and> outcome ps t (knows d pkt cg1) (Some m) x)"
      using frag_resolve [OF f res', of ESucc] cl by (simp add: pend_def)
    then show ?thesis
      by (rule frag_conseq) (auto simp: cg2 kept_def outcome_def split: option.splits exit.splits)
  qed
  then show "emit_ok N pkt d ok cg \<lparr>success = [], failure = failure ps\<rparr> cg2 t"
    using e cg2 F' unfolding emit_ok_def by auto
qed

lemma concat_vec_set [simp]: "set (concat_vec a b) = set a \<union> set b"
  by (auto simp: concat_vec_def)

lemma concat_vec_Nil [simp]: "concat_vec a b = [] \<longleftrightarrow> a = [] \<and> b = []"
  by (auto simp: concat_vec_def)

lemma and_ok:
  assumes l: "emit_ok N pkt d ok cg lp cg1 t1"
    and res: "resolve_all (success lp) (length (cg_insns cg1)) cg1 = Inr cg2"
    and r: "emit_ok N pkt d ok cg2 rp cg3 t2"
  shows "emit_ok N pkt d ok cg \<lparr>success = success rp, failure = concat_vec (failure lp) (failure rp)\<rparr> cg3 (t1 \<and> t2)"
  by (rule emit_ok_seq [OF resolved_ok(1) [OF l res] r]) simp_all


text \<open>What the generator does between the two sides of an OR, and at the end of a NOT.\<close>

definition turn :: "codegen \<Rightarrow> patches \<Rightarrow> codegen \<Rightarrow> error + codegen" where
  "turn cg p cg1 = resolve_all (failure p) (length (cg_insns cg1) + 1)
     (put (ja 0) (restore_facts (cg_facts cg) (x_writes cg) cg1))"

lemma turn_out:
  assumes e: "emit_ok N pkt d ok cg lp cg1 t" and res: "turn cg lp cg1 = Inr cg2"
  obtains F H where "cg_insns cg1 = cg_insns cg @ F" "cg_insns cg2 = cg_insns cg @ H" "length H = length F + 1"
    "resolves (failure lp) (length (cg_insns cg) + length F + 1) (cg_insns cg @ F @ [ja 0]) (cg_insns cg @ H)"
    "\<And>x0. frag N pkt (length (cg_insns cg)) F (pend (success lp) (failure lp))
       (\<lambda>x. x = x0 \<and> ok \<and> knows d pkt cg x)
       (\<lambda>l x. (ok \<and> knows d pkt cg x0) \<and> kept cg cg1 x0 x \<and> outcome lp t (knows d pkt cg1) l x)"
    "cg_link cg2 = cg_link cg" "vlan_depth cg2 = vlan_depth cg" "x_writes cg2 = x_writes cg1"
    "cg_facts cg2 = cg_facts (restore_facts (cg_facts cg) (x_writes cg) cg1)"
proof -
  from e obtain F where F: "cg_insns cg1 = cg_insns cg @ F"
    and f: "\<And>x0. frag N pkt (length (cg_insns cg)) F (pend (success lp) (failure lp))
           (\<lambda>x. x = x0 \<and> ok \<and> knows d pkt cg x)
           (\<lambda>l x. kept cg cg1 x0 x \<and> outcome lp t (knows d pkt cg1) l x)"
    by (auto simp: emit_ok_def)
  let ?c = "restore_facts (cg_facts cg) (x_writes cg) cg1"
  obtain D where D: "resolves (failure lp) (length (cg_insns cg1) + 1) (cg_insns cg1 @ [ja 0]) D"
    and cg2: "cg2 = ?c\<lparr>cg_insns := D\<rparr>"
    using resolve_all_Inr [OF res [unfolded turn_def]] by auto
  have "\<forall>p \<in> set (failure lp). length (cg_insns cg) \<le> pidx p"
    using frag_range [OF f] by (simp add: pend_range)
  then obtain H where H: "D = cg_insns cg @ H" "length H = length F + 1"
    using resolves_prefix [of "failure lp" "length (cg_insns cg1) + 1" "cg_insns cg" "F @ [ja 0]" D] D F by auto
  show thesis
  proof (rule that [of F H])
    show "cg_link cg2 = cg_link cg" "vlan_depth cg2 = vlan_depth cg" "x_writes cg2 = x_writes cg1"
      "cg_facts cg2 = cg_facts ?c"
      using e cg2 by (simp_all add: emit_ok_def restore_facts_def)
    show "frag N pkt (length (cg_insns cg)) F (pend (success lp) (failure lp))
       (\<lambda>x. x = x0 \<and> ok \<and> knows d pkt cg x)
       (\<lambda>l x. (ok \<and> knows d pkt cg x0) \<and> kept cg cg1 x0 x \<and> outcome lp t (knows d pkt cg1) l x)" for x0
      by (rule frag_const [OF f]) simp
  qed (use D F H cg2 in simp_all)
qed

lemma turn_knows:
  assumes "knows d pkt cg x0" "kept cg cg1 x0 x" "cg_link cg2 = cg_link cg"
    "cg_facts cg2 = cg_facts (restore_facts (cg_facts cg) (x_writes cg) cg1)"
  shows "knows d pkt cg2 x"
  using facts_restore [OF assms(1), of cg1 "x_writes cg" x] assms(2-4) by (simp add: kept_def)

lemma turn_ethertype: "ethertype (cg_facts (restore_facts f n cg)) = ethertype f"
  by (simp add: restore_facts_def)

lemma or_ok:
  assumes l: "emit_ok N pkt d ok cg lp cg1 t1" and res: "turn cg lp cg1 = Inr cg2"
    and r: "emit_ok N pkt d ok cg2 rp cg3 t2"
  shows "emit_ok N pkt d ok cg
    \<lparr>success = concat_vec (success lp @ [Ja (length (cg_insns cg1))]) (success rp), failure = failure rp\<rparr>
    (cg3\<lparr>cg_facts := facts_meet (cg_facts cg1) (cg_facts cg3)\<rparr>) (t1 \<or> t2)"
proof -
  obtain F H where F: "cg_insns cg1 = cg_insns cg @ F" and H: "cg_insns cg2 = cg_insns cg @ H" "length H = length F + 1"
    and D: "resolves (failure lp) (length (cg_insns cg) + length F + 1) (cg_insns cg @ F @ [ja 0]) (cg_insns cg @ H)"
    and f: "\<And>x0. frag N pkt (length (cg_insns cg)) F (pend (success lp) (failure lp))
       (\<lambda>x. x = x0 \<and> ok \<and> knows d pkt cg x)
       (\<lambda>l x. (ok \<and> knows d pkt cg x0) \<and> kept cg cg1 x0 x \<and> outcome lp t1 (knows d pkt cg1) l x)"
    and cg2: "cg_link cg2 = cg_link cg" "vlan_depth cg2 = vlan_depth cg" "x_writes cg2 = x_writes cg1"
      "cg_facts cg2 = cg_facts (restore_facts (cg_facts cg) (x_writes cg) cg1)"
    using turn_out [OF l res] by blast
  from r obtain G where G: "cg_insns cg3 = cg_insns cg2 @ G"
    and g: "\<And>x0. frag N pkt (length (cg_insns cg2)) G (pend (success rp) (failure rp))
           (\<lambda>x. x = x0 \<and> ok \<and> knows d pkt cg2 x)
           (\<lambda>l x. kept cg2 cg3 x0 x \<and> outcome rp t2 (knows d pkt cg3) l x)"
    by (auto simp: emit_ok_def)
  let ?n = "length (cg_insns cg1)"
  let ?cg = "cg3\<lparr>cg_facts := facts_meet (cg_facts cg1) (cg_facts cg3)\<rparr>"
  let ?ps = "\<lparr>success = concat_vec (success lp @ [Ja ?n]) (success rp), failure = failure rp\<rparr>"
  have len: "length (cg_insns cg2) = length (cg_insns cg) + length F + 1" using H by simp
  have n: "?n = length (cg_insns cg) + length F" using F by simp
  have links: "cg_link cg1 = cg_link cg" "cg_link cg3 = cg_link cg" and mono: "x_writes cg \<le> x_writes cg1" "x_writes cg1 \<le> x_writes cg3"
    and et: "ethertype (cg_facts cg) \<noteq> None \<longrightarrow> ethertype (cg_facts cg1) = ethertype (cg_facts cg)"
      "ethertype (cg_facts cg) \<noteq> None \<longrightarrow> ethertype (cg_facts cg3) = ethertype (cg_facts cg)"
    using l r cg2 by (simp_all add: emit_ok_def turn_ethertype)
  have meet: "knows d pkt ?cg x" if "knows d pkt cg x0" "knows d pkt cg1 x \<or> knows d pkt cg3 x" for x0 x
  proof -
    have "d \<noteq> 0 \<longrightarrow> ethertype (cg_facts cg) = Some 0x8100" using that(1) by (simp add: facts_ok_def)
    then show ?thesis using facts_meet_ok [of "cg_link cg" d pkt "cg_facts cg1" x "cg_facts cg3"] that(2) et links by auto
  qed
  have disj: "set (success lp) \<inter> set (failure lp) = {}" "set (success rp) \<inter> set (failure rp) = {}"
    using l r by (simp_all add: emit_ok_def)
  have "frag N pkt (length (cg_insns cg)) (H @ G) (pend (success ?ps) (failure ?ps))
      (\<lambda>x. x = x0 \<and> ok \<and> knows d pkt cg x)
      (\<lambda>l x. kept cg ?cg x0 x \<and> outcome ?ps (t1 \<or> t2) (knows d pkt ?cg) l x)" for x0
  proof (rule frag_or [OF f [of x0] _ disj(1) D])
    let ?R = "\<lambda>x. kept cg cg1 x0 x \<and> \<not> t1 \<and> knows d pkt cg x0"
    show "frag N pkt (length (cg_insns cg) + length F + 1) G (pend (success rp) (failure rp))
        (\<lambda>x. (ok \<and> knows d pkt cg2 x) \<and> ?R x)
        (\<lambda>l x. \<exists>x1. ?R x1 \<and> (ok \<and> knows d pkt cg2 x1) \<and> kept cg2 cg3 x1 x \<and> outcome rp t2 (knows d pkt cg3) l x)"
      using frag_all [OF g, of ?R] len by simp
    fix x
    show "(ok \<and> knows d pkt cg2 x) \<and> ?R x"
      if "(ok \<and> knows d pkt cg x0) \<and> kept cg cg1 x0 x \<and> outcome lp t1 (knows d pkt cg1) (Some EFail) x"
      using that turn_knows [OF _ _ cg2(1) cg2(4), of d pkt x0 x] by simp
    show "kept cg ?cg x0 x \<and> outcome ?ps (t1 \<or> t2) (knows d pkt ?cg) (Some ESucc) x"
      if "(ok \<and> knows d pkt cg x0) \<and> kept cg cg1 x0 x \<and> outcome lp t1 (knows d pkt cg1) None x"
      using that meet mono by (auto simp: kept_def)
    show "kept cg ?cg x0 x \<and> outcome ?ps (t1 \<or> t2) (knows d pkt ?cg) (Some ESucc) x"
      if "(ok \<and> knows d pkt cg x0) \<and> kept cg cg1 x0 x \<and> outcome lp t1 (knows d pkt cg1) (Some ESucc) x"
      using that meet mono by (auto simp: kept_def)
    show "kept cg ?cg x0 x \<and> outcome ?ps (t1 \<or> t2) (knows d pkt ?cg) m x"
      if "\<exists>x1. ?R x1 \<and> (ok \<and> knows d pkt cg2 x1) \<and> kept cg2 cg3 x1 x \<and> outcome rp t2 (knows d pkt cg3) m x" for m
      using that meet mono cg2(3)
      by (auto simp: kept_def outcome_def split: option.splits exit.splits)
  qed (use n in auto)
  moreover have "set (success ?ps) \<inter> set (failure ?ps) = {}"
  proof -
    have "pidx p < length (cg_insns cg2)" if "p \<in> set (success lp) \<union> {Ja ?n}" for p
      using frag_range [OF f [of 0]] that n len by (auto simp: pend_range less_Suc_eq)
    moreover have "length (cg_insns cg2) \<le> pidx p" if "p \<in> set (failure rp)" for p
      using frag_range [OF g [of 0]] that by (auto simp: pend_range)
    ultimately show ?thesis using disj(2) by (fastforce simp: not_less [symmetric])
  qed
  moreover have "vlan_depth cg3 = vlan_depth cg" using r cg2 by (simp add: emit_ok_def)
  moreover have "ethertype (cg_facts cg) \<noteq> None \<longrightarrow> ethertype (facts_meet (cg_facts cg1) (cg_facts cg3)) = ethertype (cg_facts cg)"
    using et by (auto simp: facts_meet_def both_def)
  ultimately show ?thesis
    unfolding emit_ok_def using links mono G H by (auto intro!: exI [of _ "H @ G"])
qed

lemma not_ok:
  assumes l: "emit_ok N pkt d ok cg p cg1 t" and res: "turn cg p cg1 = Inr cg2"
  shows "emit_ok N pkt d ok cg \<lparr>success = [], failure = success p @ [Ja (length (cg_insns cg1))]\<rparr> cg2 (\<not> t)"
proof -
  obtain F H where F: "cg_insns cg1 = cg_insns cg @ F" and H: "cg_insns cg2 = cg_insns cg @ H" "length H = length F + 1"
    and D: "resolves (failure p) (length (cg_insns cg) + length F + 1) (cg_insns cg @ F @ [ja 0]) (cg_insns cg @ H)"
    and f: "\<And>x0. frag N pkt (length (cg_insns cg)) F (pend (success p) (failure p))
       (\<lambda>x. x = x0 \<and> ok \<and> knows d pkt cg x)
       (\<lambda>l x. (ok \<and> knows d pkt cg x0) \<and> kept cg cg1 x0 x \<and> outcome p t (knows d pkt cg1) l x)"
    and cg2: "cg_link cg2 = cg_link cg" "vlan_depth cg2 = vlan_depth cg" "x_writes cg2 = x_writes cg1"
      "cg_facts cg2 = cg_facts (restore_facts (cg_facts cg) (x_writes cg) cg1)"
    using turn_out [OF l res] by blast
  let ?n = "length (cg_insns cg1)" and ?su = "success p @ [Ja (length (cg_insns cg1))]"
  let ?ps = "\<lparr>success = [], failure = ?su\<rparr>"
  have disj: "set (success p) \<inter> set (failure p) = {}" using l by (simp add: emit_ok_def)
  have "frag N pkt (length (cg_insns cg)) (H @ []) (pend [] ?su)
      (\<lambda>x. x = x0 \<and> ok \<and> knows d pkt cg x)
      (\<lambda>l x. kept cg cg2 x0 x \<and> outcome ?ps (\<not> t) (knows d pkt cg2) l x)" for x0
  proof -
    let ?Q = "\<lambda>l x. kept cg cg2 x0 x \<and> (case l of None \<Rightarrow> \<not> t \<and> knows d pkt cg2 x | Some ESucc \<Rightarrow> t | _ \<Rightarrow> False)"
    have "frag N pkt (length (cg_insns cg)) (H @ []) (pend ?su []) (\<lambda>x. x = x0 \<and> ok \<and> knows d pkt cg x) ?Q"
    proof (rule frag_or [OF f [of x0] _ disj D])
      show "frag N pkt (length (cg_insns cg) + length F + 1) [] (pend [] [])
          (\<lambda>x. kept cg cg2 x0 x \<and> \<not> t \<and> knows d pkt cg2 x)
          (\<lambda>l x. l = None \<and> kept cg cg2 x0 x \<and> \<not> t \<and> knows d pkt cg2 x)"
        using frag_Nil [where A = "\<lambda>x. kept cg cg2 x0 x \<and> \<not> t \<and> knows d pkt cg2 x"] by simp
    qed (use cg2 F turn_knows [OF _ _ cg2(1) cg2(4), of d pkt x0] in \<open>auto simp: kept_def\<close>)
    note rel = frag_relabel [OF this, of "\<lambda>_. EFail"]
    have eq: "map_option (\<lambda>_. EFail) \<circ> pend ?su [] = pend [] ?su" by (auto simp: pend_def fun_eq_iff)
    note rel [unfolded eq]
    then show ?thesis
      by (rule frag_conseq) (auto simp: outcome_def split: option.splits exit.splits)
  qed
  moreover have "x_writes cg \<le> x_writes cg1" using l by (simp add: emit_ok_def)
  ultimately show ?thesis
    unfolding emit_ok_def using cg2 H by (auto simp: turn_ethertype)
qed

end
