(* ===== verification/Compile_Correct.thy ===== *)
theory Compile_Correct
  imports Expr_Correct
begin

text \<open>
  The compiler: the code generated for a supported expression decides the expression, on every
  packet; it is well formed, so the optimizer keeps that; and no \<open>expect\<close> or index of the generator
  can fail.
\<close>

section \<open>Plain expressions\<close>

lemma emit_ok_any: "emit_ok N pkt d ok cg ps cg' t \<Longrightarrow> (ok \<Longrightarrow> t' = t) \<Longrightarrow> emit_ok N pkt d ok cg ps cg' t'"
  by (erule emit_ok_weaken [where f = "cg_facts cg'"]) simp_all

lemma emit_ok_bump:
  assumes "emit_ok N pkt d False (cg\<lparr>vlan_depth := vlan_depth cg + 1\<rparr>) ps cg' t"
  shows "emit_ok N pkt d False cg ps (cg'\<lparr>vlan_depth := vlan_depth cg' - 1\<rparr>) t"
proof -
  obtain F where F: "cg_insns cg' = cg_insns cg @ F"
    and f: "\<And>x0. frag N pkt (length (cg_insns cg)) F (pend (success ps) (failure ps)) (\<lambda>x. False)
           (\<lambda>l x. kept (cg\<lparr>vlan_depth := vlan_depth cg + 1\<rparr>) cg' x0 x \<and> outcome ps t (knows d pkt cg') l x)"
    using assms by (auto simp: emit_ok_def)
  have "frag N pkt (length (cg_insns cg)) F (pend (success ps) (failure ps)) (\<lambda>x. False) Q" for Q
    by (rule frag_conseq [OF frag_const [OF f, of False]]) auto
  then show ?thesis using assms F by (auto simp: emit_ok_def)
qed

lemma emit_rec_ok:
  "emit_rec e cg = Inr (ps, cg') \<Longrightarrow>
   ok \<longrightarrow> placed N d cg \<and> plain e \<and> (d = 0 \<or> no_tag e) \<and> need (cg_link cg) d e \<le> N \<Longrightarrow>
   emit_ok N pkt d ok cg ps cg' (sem (cg_link cg) d e pkt)"
proof (induction e arbitrary: cg ps cg' ok)
  case (Primitive q)
  have "emit_primitive q cg = Inr (ps, cg')" using Primitive.prems(1) by simp
  from emit_primitive_ok [OF this, of ok N d pkt]
  have "emit_ok N pkt d ok cg ps cg' (if plain_prim q then prim_sem (cg_link cg) d q pkt
      else mpls_code_sem (cg_link cg) d (case q of Mpls l \<Rightarrow> l | _ \<Rightarrow> None) pkt)"
    using Primitive.prems(2) by simp
  then show ?case by (rule emit_ok_any) (use Primitive.prems(2) in simp)
next
  case (Not e)
  obtain p cg1 where 1: "emit_rec e cg = Inr (p, cg1)" and 2: "turn cg p cg1 = Inr cg'"
    and ps: "ps = \<lparr>success = [], failure = success p @ [Ja (length (cg_insns cg1))]\<rparr>"
    using Not.prems(1) by (auto simp: rbind_eq_Inr turn_def Let_def)
  show ?case
    using not_ok [OF Not.IH [OF 1, of ok] 2] Not.prems(2) ps by simp
next
  case (Or l r)
  let ?g = "guards_of (Or l r)"
  obtain hf cg0 lp cg1 cg2 rp cg3 where 0: "hoist_guards ?g cg = Inr (hf, cg0)"
    and 1: "emit_rec l cg0 = Inr (lp, cg1)" and 2: "turn cg0 lp cg1 = Inr cg2" and 3: "emit_rec r cg2 = Inr (rp, cg3)"
    and ps: "ps = \<lparr>success = concat_vec (success lp @ [Ja (length (cg_insns cg1))]) (success rp),
               failure = concat_vec (failure rp) hf\<rparr>"
    and cg': "cg' = cg3\<lparr>cg_facts := facts_meet (cg_facts cg1) (cg_facts cg3)\<rparr>"
    using Or.prems(1) by (auto simp: rbind_eq_Inr turn_def Let_def simp del: guards_of.simps)
  have pl: "ok \<longrightarrow> placed N d cg" using Or.prems(2) by simp
  have "ok \<longrightarrow> d = 0 \<or> g_ethertype ?g \<noteq> Some 0x8100"
    using Or.prems(2) guards_of_tag [of "Or l r"] by (auto simp del: guards_of.simps)
  then obtain H where H: "emit_ok N pkt d ok cg \<lparr>success = [], failure = hf\<rparr> cg0 H"
    and imp: "guard_holds (cg_link cg) d pkt ?g \<longrightarrow> H"
    using hoist_guards_ok [OF 0 pl] by blast
  note s0 = emit_ok_link_placed [OF H pl]
  have l: "emit_ok N pkt d ok cg0 lp cg1 (sem (cg_link cg0) d l pkt)"
    by (rule Or.IH(1) [OF 1]) (use Or.prems(2) s0 in auto)
  have s2: "cg_link cg2 = cg_link cg0" "vlan_depth cg2 = vlan_depth cg0" using turn_out [OF l 2] by blast+
  have "ok \<longrightarrow> placed N d cg2" using s0 s2 placed_cong [of cg2 cg0] by simp
  then have r: "emit_ok N pkt d ok cg2 rp cg3 (sem (cg_link cg2) d r pkt)"
    by (intro Or.IH(2) [OF 3]) (use Or.prems(2) s0 s2 in auto)
  have "emit_ok N pkt d ok cg ps cg' (H \<and> (sem (cg_link cg0) d l pkt \<or> sem (cg_link cg2) d r pkt))"
    unfolding cg' by (rule emit_ok_seq [OF H or_ok [OF l 2 r]]) (simp_all add: ps Un_commute)
  then show ?case
  proof (rule emit_ok_any)
    assume ok
    then have "sem (cg_link cg) d (Or l r) pkt \<Longrightarrow> H"
      using imp guards_of_hold [of "Or l r" "cg_link cg" d pkt] Or.prems(2) by (simp del: guards_of.simps)
    then show "sem (cg_link cg) d (Or l r) pkt = (H \<and> (sem (cg_link cg0) d l pkt \<or> sem (cg_link cg2) d r pkt))"
      using s0 s2 by auto
  qed
next
  case (And l r)
  define b where "b cg = (if leading_vlan l then cg\<lparr>vlan_depth := vlan_depth cg + 1\<rparr> else cg)" for cg :: codegen
  obtain lp cg1 cg2 rp cg3 where 1: "emit_rec l cg = Inr (lp, cg1)"
    and 2: "resolve_all (success lp) (length (cg_insns cg1)) cg1 = Inr cg2" and 3: "emit_rec r (b cg2) = Inr (rp, cg3)"
    and ps: "ps = \<lparr>success = success rp, failure = concat_vec (failure lp) (failure rp)\<rparr>"
    and cg': "cg' = (if leading_vlan l then cg3\<lparr>vlan_depth := vlan_depth cg3 - 1\<rparr> else cg3)"
    using And.prems(1) unfolding b_def by (auto simp: rbind_eq_Inr)
  have l: "emit_ok N pkt d ok cg lp cg1 (sem (cg_link cg) d l pkt)"
    by (rule And.IH(1) [OF 1]) (use And.prems(2) in auto)
  have s2: "cg_link cg2 = cg_link cg" "vlan_depth cg2 = vlan_depth cg"
    using resolved_ok(1) [OF l 2] by (simp_all add: emit_ok_def)
  have "emit_ok N pkt d ok cg2 rp cg' (sem (cg_link cg) (if leading_vlan l then d + 1 else d) r pkt)"
  proof (cases "leading_vlan l")
    case True
    then have no: "ok = False" using And.prems(2) by auto
    have "emit_ok N pkt d False (b cg2) rp cg3 (sem (cg_link (b cg2)) d r pkt)"
      by (rule And.IH(2) [OF 3]) simp
    then have "emit_ok N pkt d False cg2 rp cg' (sem (cg_link (b cg2)) d r pkt)"
      using True emit_ok_bump unfolding b_def cg' by simp
    then show ?thesis unfolding no by (rule emit_ok_any) simp
  next
    case False
    then have "emit_ok N pkt d ok cg2 rp cg' (sem (cg_link cg2) d r pkt)"
      using 3 And.prems(2) s2 placed_cong [of cg2 cg] unfolding b_def cg' by (intro And.IH(2)) auto
    then show ?thesis using False s2 by simp
  qed
  from and_ok [OF l 2 this] show ?case by (simp add: ps)
qed


section \<open>The finished program\<close>

lemma resolves_other: "resolves ps t C C' \<Longrightarrow> n \<notin> pidx ` set ps \<Longrightarrow> C' ! n = C ! n"
  by (induction ps arbitrary: C) auto

lemma resolves_kind:
  "resolves ps t C C' \<Longrightarrow> n < length C \<Longrightarrow> slot_kind q (C' ! n) = slot_kind q (C ! n)"
proof (induction ps arbitrary: C)
  case (Cons p ps)
  let ?C = "C[pidx p := set_slot p (of_nat (t - pidx p - 1)) (C ! pidx p)]"
  have r: "resolves ps t ?C C'" and p: "pidx p < length C" using Cons.prems(1) by (simp_all del: of_nat_diff)
  have "slot_kind q (C' ! n) = slot_kind q (?C ! n)" by (rule Cons.IH [OF r]) (use Cons.prems(2) in simp)
  also have "\<dots> = slot_kind q (C ! n)" using p by (cases "n = pidx p") simp_all
  finally show ?case .
qed simp

lemma agree_self: "agree P 0 P (\<lambda>_. None)"
  by (simp add: agree_nth insn_agrees_def slot_target_def)

definition exits :: "nat \<Rightarrow> exit \<Rightarrow> nat" where
  "exits n e = (if e = ESucc then n else n + 1)"

lemma finished:
  assumes shape: "in_range 0 F (pend su fl)" "shaped 0 F (pend su fl)" and disj: "set su \<inter> set fl = {}"
    and res: "resolves su (length F) (F @ [ret_k BPF_ACCEPT, ret_k BPF_DROP]) C"
      "resolves fl (length F + 1) C P"
  shows "agree P 0 F (map_option (exits (length F)) \<circ> pend su fl)" "length P = length F + 2"
    "P ! length F = ret_k BPF_ACCEPT" "P ! (length F + 1) = ret_k BPF_DROP"
proof -
  let ?R = "[ret_k BPF_ACCEPT, ret_k BPF_DROP]"
  have len: "length C = length F + 2" "length P = length F + 2"
    using resolves_length [OF res(1)] resolves_length [OF res(2)] by simp_all
  then show "length P = length F + 2" by simp
  have rng: "pidx p < length F" if "p \<in> set su \<union> set fl" for p using shape(1) that by (auto simp: pend_range)
  have kind: "slot_kind p (F ! pidx p)" if "p \<in> set su \<union> set fl" for p
  proof -
    have "shape_at (0 + length F) (0 + pidx p) (pend su fl) (F ! pidx p)"
      using shape(2) [unfolded shaped_nth] rng [OF that] by blast
    moreover have "pend su fl p \<noteq> None" using that by (auto simp: pend_def)
    ultimately show ?thesis unfolding shape_at_def add_0 by blast
  qed
  have out: "i \<notin> pidx ` set su" "i \<notin> pidx ` set fl" if "length F \<le> i" for i
    using that by (auto dest!: rng [OF UnI1] rng [OF UnI2])
  show "P ! length F = ret_k BPF_ACCEPT" "P ! (length F + 1) = ret_k BPF_DROP"
    using resolves_other [OF res(1) out(1)] resolves_other [OF res(2) out(2)] by (simp_all add: nth_append)
  have "slot_kind p (C ! pidx p)" if "p \<in> set fl" for p
    using resolves_kind [OF res(1), of "pidx p" p] kind [of p] rng [of p] that by (simp add: nth_append)
  then have 1: "agree P 0 C (send fl (length F + 1) (\<lambda>_. None))"
    using resolves_agree [of fl "length F + 1" "[]" C P "\<lambda>_. None" P] res(2) len agree_self by simp
  have free: "\<forall>p \<in> set su. slot_kind p ((F @ ?R) ! pidx p) \<and> send fl (length F + 1) (\<lambda>_. None) p = None"
    using kind rng disj by (auto simp: nth_append send_def)
  have "agree P 0 (F @ ?R) (send su (length F) (send fl (length F + 1) (\<lambda>_. None)))"
    using resolves_agree [of su "length F" "[]" "F @ ?R" C "send fl (length F + 1) (\<lambda>_. None)" P] res(1) len free 1
    by simp
  moreover have "send su (length F) (send fl (length F + 1) (\<lambda>_. None)) = map_option (exits (length F)) \<circ> pend su fl"
    by (auto simp: fun_eq_iff send_def pend_def exits_def)
  ultimately show "agree P 0 F (map_option (exits (length F)) \<circ> pend su fl)" by (simp add: agree_append)
qed

lemma finished_wf:
  assumes shape: "in_range 0 F (pend su fl)" "shaped 0 F (pend su fl)" and disj: "set su \<inter> set fl = {}"
    and res: "resolves su (length F) (F @ [ret_k BPF_ACCEPT, ret_k BPF_DROP]) C"
      "resolves fl (length F + 1) C P"
    and small: "length P < 2 ^ 32"
  shows "wf_prog P"
proof -
  note fin = finished [OF assms(1-5)]
  have at: "misc_ok (P ! i) \<and> ja_inside P i (P ! i)" if "i < length F" for i
  proof -
    have sh: "shape_at (length F) i (pend su fl) (F ! i)" using shape(2) that by (simp add: shaped_nth)
    have ag: "insn_agrees i (map_option (exits (length F)) \<circ> pend su fl) (F ! i) (P ! i)"
      using fin(1) that by (simp add: agree_nth)
    then have c: "code (P ! i) = code (F ! i)" by (simp add: insn_agrees_def)
    have "ja_inside P i (P ! i)"
      using ag sh fin(2) is_ja_cong(1) [OF c]
      by (cases "pend su fl (Ja i)")
         (auto simp: ja_inside_def insn_agrees_def shape_at_def slot_target_def exits_def split: if_splits)
    then show ?thesis using sh c by (simp add: misc_ok_def shape_at_def)
  qed
  have "misc_ok (P ! i) \<and> ja_inside P i (P ! i)" if i: "i < length P" for i
  proof -
    consider "i < length F" | "i = length F" | "i = length F + 1" using i fin(2) by linarith
    then show ?thesis using at fin(3,4) by cases (simp_all add: ja_inside_def)
  qed
  then show ?thesis using small by (auto simp: wf_prog_def in_set_conv_nth)
qed

lemma run_ret:
  "n < length P \<Longrightarrow> P ! n = ret_k BPF_ACCEPT \<Longrightarrow> vm_at P pkt n s = Some True"
  "n < length P \<Longrightarrow> P ! n = ret_k BPF_DROP \<Longrightarrow> vm_at P pkt n s = Some False"
  by (subst vm_at_unfold, simp add: Let_def vm_defs bpf_defs BPF_ACCEPT_def BPF_DROP_def)+

lemma finished_run:
  assumes frag: "frag N pkt 0 F (pend su fl) A Q" and disj: "set su \<inter> set fl = {}"
    and res: "resolves su (length F) (F @ [ret_k BPF_ACCEPT, ret_k BPF_DROP]) C"
      "resolves fl (length F + 1) C P"
    and A: "A 0" and Q: "\<And>x. Q None x \<Longrightarrow> t" "\<And>x. Q (Some ESucc) x \<Longrightarrow> t" "\<And>x. Q (Some EFail) x \<Longrightarrow> \<not> t"
      "\<And>x. \<not> Q (Some EAux) x"
  shows "case vm_inner P pkt of None \<Rightarrow> length pkt < N | Some b \<Rightarrow> b = t"
proof -
  have shape: "in_range 0 F (pend su fl)" "shaped 0 F (pend su fl)" using frag by (simp_all add: frag_def)
  note fin = finished [OF shape disj res]
  have "settles P pkt N (exits (length F)) (0 + length F) Q (vm_at P pkt 0 vm_init)"
    using frag fin(1) A by (simp add: frag_def ready_def vm_init_def)
  moreover have "vm_at P pkt (length F) s = Some True" "vm_at P pkt (length F + 1) s = Some False" for s
    using run_ret fin by simp_all
  ultimately show ?thesis
    using Q unfolding settles_def vm_inner_at
    by (auto simp: exits_def split: if_splits) (metis exit.exhaust)+
qed


lemma compile_raw_parts:
  assumes "compile_raw e link = Inr P"
  obtains ps cg C where "emit_rec e (codegen_new link) = Inr (ps, cg)"
    "resolves (success ps) (length (cg_insns cg)) (cg_insns cg @ [ret_k BPF_ACCEPT, ret_k BPF_DROP]) C"
    "resolves (failure ps) (length (cg_insns cg) + 1) C P"
proof -
  obtain ps cg cg1 cg2 where 1: "emit_rec e (codegen_new link) = Inr (ps, cg)"
    and 2: "resolve_all (success ps) (length (cg_insns cg)) (cg\<lparr>cg_insns := cg_insns cg @ [ret_k BPF_ACCEPT, ret_k BPF_DROP]\<rparr>) = Inr cg1"
    and 3: "resolve_all (failure ps) (length (cg_insns cg) + 1) cg1 = Inr cg2" and P: "P = cg_insns cg2"
    using assms by (auto simp: compile_raw_def emit_expr_rec rbind_eq_Inr Let_def)
  from resolve_all_Inr [OF 2] resolve_all_Inr [OF 3] P show thesis by (auto intro: that [OF 1])
qed

lemma codegen_new_simps [simp]:
  "cg_insns (codegen_new link) = []" "cg_link (codegen_new link) = link" "vlan_depth (codegen_new link) = 0"
  "cg_facts (codegen_new link) = no_facts\<lparr>ethertype := (if link = RawIp then Some 0x0800 else None)\<rparr>"
  by (simp_all add: codegen_new_def)

lemma need_ge: "net_off link d + 64 \<le> need link d e"
proof (induction e arbitrary: d)
  case (Primitive q)
  then show ?case by (cases q) simp_all
qed (auto intro: le_max_iff_disj [THEN iffD2])

lemma placed_new: "placed (need link 0 e) 0 (codegen_new link)"
  using need_ge [of link 0 e] by (simp add: placed_def)

lemma knows_new: "knows 0 pkt (codegen_new link) x"
  by (simp add: facts_ok_def no_facts_def et_of_def)

lemma emit_rec_shape:
  assumes "emit_rec e (codegen_new link) = Inr (ps, cg)"
  shows "in_range 0 (cg_insns cg) (pend (success ps) (failure ps))" "shaped 0 (cg_insns cg) (pend (success ps) (failure ps))"
    "set (success ps) \<inter> set (failure ps) = {}"
proof -
  have "emit_ok 0 [] 0 False (codegen_new link) ps cg (sem link 0 e [])"
    using emit_rec_ok [OF assms, of False] by simp
  then show "in_range 0 (cg_insns cg) (pend (success ps) (failure ps))" "shaped 0 (cg_insns cg) (pend (success ps) (failure ps))"
    "set (success ps) \<inter> set (failure ps) = {}" by (auto simp: emit_ok_def frag_def)
qed

section \<open>Chains behind a VLAN tag\<close>

lemma vlan_chain_leading: "vlan_chain e \<Longrightarrow> leading_vlan e"
  by (induction e) auto

lemma emit_vlan_facts:
  assumes "emit_vlan vid (codegen_new link) = Inr (ps, cg)"
  shows "cg_facts cg = no_facts\<lparr>ethertype := Some 0x8100\<rparr>"
  using assms
  by (cases link; cases vid)
     (auto simp: emit_vlan_def emit_ethertype_def ether_proto_offset_def check_halfword_def no_facts_def split: if_splits)

lemma chain_ok:
  assumes "vlan_chain e" "emit_rec e (codegen_new link) = Inr (ps, cg)" "need link 0 e \<le> N"
  shows "cg_link cg = link \<and> vlan_depth cg = 0 \<and>
    frag N pkt 0 (cg_insns cg) (pend (success ps) (failure ps)) (\<lambda>x. True)
      (\<lambda>l x. outcome ps (sem link 0 e pkt) (facts_ok link 1 pkt (cg_facts cg)) l x)"
  using assms
proof (induction e arbitrary: ps cg)
  case (Primitive q)
  then obtain vid where q: "q = Vlan vid" by (cases q) auto
  have e: "emit_vlan vid (codegen_new link) = Inr (ps, cg)" using Primitive.prems(2) q by simp
  have "placed N 0 (codegen_new link)" using Primitive.prems(3) need_ge [of link 0 "Primitive q"] by (simp add: placed_def)
  then have ok: "emit_ok N pkt 0 True (codegen_new link) ps cg (prim_sem link 0 q pkt)"
    using emit_vlan_ok [OF e, of True N 0 pkt] q by simp
  have f: "facts_ok link 1 pkt (cg_facts cg) x" for x
    unfolding emit_vlan_facts [OF e] by (simp add: facts_ok_def no_facts_def)
  have "frag N pkt 0 (cg_insns cg) (pend (success ps) (failure ps)) (\<lambda>x. x = x0 \<and> True)
      (\<lambda>l x. outcome ps (sem link 0 (Primitive q) pkt) (facts_ok link 1 pkt (cg_facts cg)) l x)" for x0
  proof -
    have "frag N pkt 0 (cg_insns cg) (pend (success ps) (failure ps)) (\<lambda>x. x = x0 \<and> True \<and> knows 0 pkt (codegen_new link) x)
        (\<lambda>l x. kept (codegen_new link) cg x0 x \<and> outcome ps (prim_sem link 0 q pkt) (knows 0 pkt cg) l x)"
      using ok by (auto simp: emit_ok_def)
    then show ?thesis
      by (rule frag_conseq) (use f knows_new in \<open>auto simp: outcome_def split: option.splits exit.splits\<close>)
  qed
  from frag_all [OF this, of "\<lambda>_. True"] ok show ?case by (simp add: emit_ok_def)
next
  case (And l r)
  have lv: "leading_vlan l" using vlan_chain_leading And.prems(1) by simp
  define b where "b cg = cg\<lparr>vlan_depth := vlan_depth cg + 1\<rparr>" for cg :: codegen
  obtain lp cg1 cg2 rp cg3 where 1: "emit_rec l (codegen_new link) = Inr (lp, cg1)"
    and 2: "resolve_all (success lp) (length (cg_insns cg1)) cg1 = Inr cg2" and 3: "emit_rec r (b cg2) = Inr (rp, cg3)"
    and ps: "ps = \<lparr>success = success rp, failure = concat_vec (failure lp) (failure rp)\<rparr>"
    and cg: "cg = cg3\<lparr>vlan_depth := vlan_depth cg3 - 1\<rparr>"
    using And.prems(2) lv unfolding b_def by (auto simp: rbind_eq_Inr)
  let ?tl = "sem link 0 l pkt" and ?tr = "sem link 1 r pkt" and ?B = "facts_ok link 1 pkt (cg_facts cg1)"
  have l: "cg_link cg1 = link" "vlan_depth cg1 = 0"
    "frag N pkt 0 (cg_insns cg1) (pend (success lp) (failure lp)) (\<lambda>x. True) (\<lambda>m x. outcome lp ?tl ?B m x)"
    using And.IH(1) [OF _ 1] And.prems(1,3) by simp_all
  obtain C where C: "resolves (success lp) (length (cg_insns cg1)) (cg_insns cg1) C" and cg2: "cg2 = cg1\<lparr>cg_insns := C\<rparr>"
    using resolve_all_Inr [OF 2] by blast
  have disj: "set (success lp) \<inter> set (failure lp) = {}" by (rule emit_rec_shape(3) [OF 1])
  have cl: "close ESucc (pend (success lp) (failure lp)) = pend [] (failure lp)"
    using disj by (auto simp: fun_eq_iff close_def pend_def)
  have left: "frag N pkt 0 C (pend [] (failure lp)) (\<lambda>x. True)
      (\<lambda>m x. case m of None \<Rightarrow> ?tl \<and> ?B x | Some EFail \<Rightarrow> \<not> ?tl | _ \<Rightarrow> False)"
  proof -
    have "frag N pkt (length []) C (close ESucc (pend (success lp) (failure lp))) (\<lambda>x. True)
        (\<lambda>m x. case m of None \<Rightarrow> outcome lp ?tl ?B None x \<or> outcome lp ?tl ?B (Some ESucc) x
          | Some m' \<Rightarrow> m' \<noteq> ESucc \<and> outcome lp ?tl ?B (Some m') x)"
      using frag_resolve [where C = "[]" and ps = "success lp" and e = ESucc, OF _ _ _, of N pkt "cg_insns cg1"] l(3) C
      by (simp add: pend_def)
    then show ?thesis unfolding cl list.size
      by (rule frag_conseq) (auto simp: outcome_def split: option.splits exit.splits)
  qed
  have "vlan_depth (b cg2) = 1" "cg_link (b cg2) = link" "cg_facts (b cg2) = cg_facts cg1" "cg_insns (b cg2) = C"
    using l cg2 by (simp_all add: b_def)
  note s2 = this
  have need: "need link 1 r \<le> N" using And.prems(3) lv by simp
  then have "placed N 1 (b cg2)" using need_ge [of link 1 r] s2 by (simp add: placed_def)
  then have r: "emit_ok N pkt 1 True (b cg2) rp cg3 ?tr"
    using emit_rec_ok [OF 3, of True N 1 pkt] And.prems(1) need s2 by simp
  then obtain G where G: "cg_insns cg3 = C @ G"
    and g: "\<And>x0. frag N pkt (length C) G (pend (success rp) (failure rp))
           (\<lambda>x. x = x0 \<and> knows 1 pkt (b cg2) x)
           (\<lambda>l x. kept (b cg2) cg3 x0 x \<and> outcome rp ?tr (knows 1 pkt cg3) l x)"
    using s2 by (auto simp: emit_ok_def)
  have link3: "cg_link cg3 = link" "vlan_depth cg3 = 1" using r s2 by (simp_all add: emit_ok_def)
  have "frag N pkt 0 (C @ G) (pend (success ps) (failure ps)) (\<lambda>x. True)
      (\<lambda>m x. outcome ps (?tl \<and> ?tr) (facts_ok link 1 pkt (cg_facts cg)) m x)"
  proof (rule frag_pend_seq [OF left])
    show "frag N pkt (0 + length C) G (pend (success rp) (failure rp)) (\<lambda>x. knows 1 pkt (b cg2) x \<and> ?tl)
        (\<lambda>l x. \<exists>x1. ?tl \<and> knows 1 pkt (b cg2) x1 \<and> kept (b cg2) cg3 x1 x \<and> outcome rp ?tr (knows 1 pkt cg3) l x)"
      using frag_all [OF g, of "\<lambda>_. ?tl"] by simp
  qed (use s2 link3 in \<open>auto simp: ps cg outcome_def split: option.splits exit.splits\<close>)
  then show ?case using G link3 lv by (simp add: cg)
qed simp_all

section \<open>Correctness\<close>

lemma compile_raw_decides:
  assumes "supported e" "compile_raw e link = Inr P"
  shows "case vm_inner P pkt of None \<Rightarrow> length pkt < need link 0 e | Some b \<Rightarrow> b = sem link 0 e pkt"
proof -
  obtain ps cg C where 1: "emit_rec e (codegen_new link) = Inr (ps, cg)"
    and res: "resolves (success ps) (length (cg_insns cg)) (cg_insns cg @ [ret_k BPF_ACCEPT, ret_k BPF_DROP]) C"
    "resolves (failure ps) (length (cg_insns cg) + 1) C P"
    using compile_raw_parts [OF assms(2)] by blast
  let ?N = "need link 0 e"
  have "\<exists>B. frag ?N pkt 0 (cg_insns cg) (pend (success ps) (failure ps)) (\<lambda>x. x = 0) (\<lambda>l x. outcome ps (sem link 0 e pkt) B l x)"
  proof (cases "vlan_chain e")
    case True
    from chain_ok [OF True 1, of ?N pkt] show ?thesis by (auto intro: frag_conseq)
  next
    case False
    then have "emit_ok ?N pkt 0 True (codegen_new link) ps cg (sem link 0 e pkt)"
      using emit_rec_ok [OF 1, of True ?N 0 pkt] assms(1) placed_new [of link e] by (simp add: supported_def)
    then have "frag ?N pkt 0 (cg_insns cg) (pend (success ps) (failure ps)) (\<lambda>x. x = 0 \<and> knows 0 pkt (codegen_new link) x)
        (\<lambda>l x. kept (codegen_new link) cg 0 x \<and> outcome ps (sem link 0 e pkt) (knows 0 pkt cg) l x)"
      by (auto simp: emit_ok_def)
    then show ?thesis by (intro exI, elim frag_conseq) (use knows_new in auto)
  qed
  then obtain B where frag: "frag ?N pkt 0 (cg_insns cg) (pend (success ps) (failure ps)) (\<lambda>x. x = 0)
      (\<lambda>l x. outcome ps (sem link 0 e pkt) B l x)" by blast
  show ?thesis
    by (rule finished_run [OF frag emit_rec_shape(3) [OF 1] res]) auto
qed

lemma compile_raw_wf: "compile_raw e link = Inr P \<Longrightarrow> length P < 2 ^ 32 \<Longrightarrow> wf_prog P"
  by (erule compile_raw_parts) (rule finished_wf [OF emit_rec_shape])

end
