(* ===== verification/Compile_Safe.thy ===== *)
theory Compile_Safe
  imports Compile_Correct
begin

text \<open>
  Which errors the generator can return. Its \<open>expect\<close> calls and index expressions never fail: the
  only errors are those it reports on purpose. And it reports one for every expression that holds a
  test classic BPF or the link type cannot express.
\<close>

section \<open>Reported errors only\<close>

text \<open>A result that is a value or an error the generator reports.\<close>

definition safe :: "error + 'a \<Rightarrow> bool" where
  "safe r \<longleftrightarrow> (\<forall>e. r = Inl e \<longrightarrow> (\<exists>m. e = CodegenError m))"

lemma safe_simps [simp]: "safe (Inr v)" "safe (Inl (CodegenError m))"
  by (simp_all add: safe_def)

lemma safe_bind: "safe r \<Longrightarrow> (\<And>v. r = Inr v \<Longrightarrow> safe (f v)) \<Longrightarrow> safe (rbind r f)"
  by (cases r) (auto simp: safe_def)

lemma safe_bind2:
  "safe r \<Longrightarrow> (\<And>a b. r = Inr (a, b) \<Longrightarrow> safe (f a b)) \<Longrightarrow> safe (rbind r (\<lambda>(a, b). f a b))"
  by (cases r) (auto simp: safe_def)

lemma resolve_safe: "pidx p < length (cg_insns cg) \<Longrightarrow> safe (resolve p t cg)"
  by (cases p) (auto simp: jump_offset_def set_insn_def too_complex_def safe_def)

lemma resolve_all_safe: "\<forall>p \<in> set ps. pidx p < length (cg_insns cg) \<Longrightarrow> safe (resolve_all ps t cg)"
proof (induction ps arbitrary: cg)
  case (Cons p ps)
  show ?case unfolding resolve_all.simps
  proof (rule safe_bind)
    show "safe (resolve p t cg)" using Cons.prems by (simp add: resolve_safe)
    fix v
    assume "resolve p t cg = Inr v"
    then have "length (cg_insns v) = length (cg_insns cg)" by (auto simp: resolve_Inr)
    then show "safe (resolve_all ps t v)" using Cons.IH [of v] Cons.prems by simp
  qed
qed simp

context field_check
begin

lemma either_safe: "safe (either_check chk off1 off2 p cg)"
proof -
  obtain F fl where 1: "chk off1 cg [] = (fl, cg\<lparr>cg_insns := cg_insns cg @ F\<rparr>)"
    and t: "tests 0 [] (length (cg_insns cg)) F [] fl (fits 0 off1) (holds [] off1)"
    using chk [of off1 cg "[]" 0 "[]"] by auto
  have "\<forall>p \<in> set fl. pidx p < length (cg_insns cg @ F @ [ja 0])"
    using tests_range [OF t] by (auto simp: pend_range)
  then show ?thesis
    by (auto simp: either_check_def 1 split_beta Let_def intro!: safe_bind resolve_all_safe)
qed

lemma directions_safe: "safe (dir_check chk so de dr p cg)"
  using either_safe by (cases dr) (auto simp: dir_check_def split_beta Let_def)

end

lemma emit_ethertype_safe: "safe (emit_ethertype et cg)"
  by (simp add: emit_ethertype_def split_beta Let_def split: option.split)

lemma emit_l4_safe: "safe (emit_ip4_l4 n cg)" "safe (emit_ip6_l4 n cg)"
  by (auto simp: emit_ip4_l4_def emit_ip6_l4_def ip4_guard_def split_beta Let_def
      intro!: safe_bind emit_ethertype_safe)

lemma emit_alu_ops_safe: "safe (emit_alu_ops ops cg)"
proof (induction ops cg rule: emit_alu_ops.induct)
  case (2 aop v ops cg)
  have "safe (emit_alu_op aop v cg)" by (cases aop) simp_all
  with 2 show ?case by (auto intro: safe_bind)
qed simp

lemma emit_byte_access_safe: "safe (emit_byte_access ba cg)"
proof (cases "ba_rhs ba")
  case (Const v)
  show ?thesis unfolding emit_byte_access_def Const cmp_rhs.case emit_byte_access_const_def
    by (rule safe_bind) (auto split: layer.split intro!: safe_bind emit_alu_ops_safe simp: Let_def)
next
  case (LoadRhs r)
  show ?thesis unfolding emit_byte_access_def LoadRhs cmp_rhs.case emit_byte_access_load_def Let_def
    by (auto intro!: safe_bind emit_alu_ops_safe)
qed

text \<open>Raw IP captures are known to be IPv4 from the start, and stay so.\<close>

definition raw_known :: "codegen \<Rightarrow> bool" where
  "raw_known cg \<longleftrightarrow> (cg_link cg = RawIp \<longrightarrow> ethertype (cg_facts cg) = Some 0x0800)"

lemma raw_known_step: "emit_ok N pkt d ok cg ps cg' t \<Longrightarrow> raw_known cg \<Longrightarrow> raw_known cg'"
  by (auto simp: emit_ok_def raw_known_def)

lemma prereqs_dual_safe:
  assumes "ether_proto_offset cg = Some eo"
  shows "safe (prereqs_dual want cg)"
  by (cases want)
     (simp_all add: assms prereqs_dual_def emit_l4_set_check_out Let_def jump_offset_def set_insn_def)

lemma ether_offset_none: "ether_proto_offset cg = None \<longleftrightarrow> cg_link cg = RawIp"
  by (cases "cg_link cg") (simp_all add: ether_proto_offset_def)

lemma emit_port_prereqs_set_safe:
  assumes "raw_known cg"
  shows "safe (emit_port_prereqs_set want cg)"
proof -
  have v4: "safe (prereqs_v4 want cg)"
    by (simp add: prereqs_v4_def Let_def emit_l4_set_check_out split: option.split)
  have v6: "safe (prereqs_v6 want cg)"
    by (simp add: prereqs_v6_def Let_def emit_l4_set_check_out split: option.split)
  have "safe (prereqs_dual want cg)" if "ethertype (cg_facts cg) \<noteq> Some 0x0800"
    using that assms ether_offset_none [of cg] prereqs_dual_safe [of cg] by (auto simp: raw_known_def)
  with v4 v6 show ?thesis by (simp add: emit_port_prereqs_set_def split: option.split)
qed

lemma emit_port_prereqs_safe: "raw_known cg \<Longrightarrow> safe (emit_port_prereqs pr cg)"
proof -
  have "safe (l4set_for pr)" by (cases pr rule: l4set_for.cases) simp_all
  then show "raw_known cg \<Longrightarrow> safe (emit_port_prereqs pr cg)"
    by (auto simp: emit_port_prereqs_def intro!: safe_bind emit_port_prereqs_set_safe)
qed

lemma emit_primitive_safe:
  assumes "raw_known cg"
  shows "safe (emit_primitive q cg)"
proof (cases q)
  case (Proto pr)
  then show ?thesis by (cases pr) (simp_all add: emit_ethertype_safe emit_l4_safe)
next
  case (Host a dr)
  then show ?thesis
    by (cases a) (auto simp: emit_host4_def emit_host6_def ip4_guard_def split_beta Let_def
        intro!: safe_bind emit_ethertype_safe addr6_check.directions_safe)
next
  case (Net n dr)
  then show ?thesis
    by (cases dr) (auto simp: emit_net_def ip4_guard_def split_beta Let_def
        intro!: safe_bind emit_ethertype_safe net4_check.directions_safe)
next
  case (Net6 n dr)
  then show ?thesis
    by (auto simp: emit_net6_def split_beta Let_def
        intro!: safe_bind emit_ethertype_safe net6_check.directions_safe)
next
  case (Port p dr pr)
  then show ?thesis
    using emit_port_prereqs_safe [OF assms]
    by (cases dr) (auto simp: emit_port_def split_beta Let_def intro!: safe_bind port_check.directions_safe)
next
  case (PortRange lo hi dr pr)
  then show ?thesis
    using emit_port_prereqs_safe [OF assms]
    by (auto simp: emit_portrange_def split_beta Let_def intro!: safe_bind range_check.directions_safe)
next
  case (EtherHost m dr)
  then show ?thesis
    by (cases dr) (auto simp: emit_ether_host_def split_beta Let_def mac_check.either_safe)
next
  case (ByteAccess ba)
  then show ?thesis by (simp add: emit_byte_access_safe)
next
  case (Mpls l)
  then show ?thesis by (auto simp: emit_mpls_def Let_def split: option.split)
qed (auto simp: emit_ethertype_safe emit_l4_safe emit_ether_multicast_def emit_ip_broadcast_def emit_ip_multicast_def
    emit_ip6_multicast_def ip4_guard_def emit_vlan_def emit_pppoe_session_def direction_error_def split_beta Let_def
    split: option.split intro!: safe_bind)

lemma hoist_one_safe:
  assumes "\<And>v cg. raw_known cg \<Longrightarrow> safe (emit v cg)"
    and step: "\<And>v cg p cg'. emit v cg = Inr (p, cg') \<Longrightarrow> raw_known cg \<Longrightarrow> raw_known cg'"
    and cg: "raw_known cg"
  shows "safe (hoist_one emit g (fail, cg))"
    and "hoist_one emit g (fail, cg) = Inr (fail', cg') \<Longrightarrow> raw_known cg'"
  using assms by (auto simp: hoist_one_def rbind_eq_Inr split: option.splits intro!: safe_bind)

lemma emit_step_known:
  "emit_ethertype v cg = Inr (p, cg') \<Longrightarrow> raw_known cg \<Longrightarrow> raw_known cg'"
  "emit_ip4_l4 n cg = Inr (p, cg') \<Longrightarrow> raw_known cg \<Longrightarrow> raw_known cg'"
  "emit_ip6_l4 n cg = Inr (p, cg') \<Longrightarrow> raw_known cg \<Longrightarrow> raw_known cg'"
  "emit_port_prereqs_set want cg = Inr (p, cg') \<Longrightarrow> raw_known cg \<Longrightarrow> raw_known cg'"
proof -
  have vac: "False \<longrightarrow> X" for X by simp
  have step: "emit_ok 0 [] 0 False cg p cg' t \<and> success p = [] \<Longrightarrow> raw_known cg \<Longrightarrow> raw_known cg'" for t
    using raw_known_step by blast
  show "emit_ethertype v cg = Inr (p, cg') \<Longrightarrow> raw_known cg \<Longrightarrow> raw_known cg'"
    by (rule step [OF emit_ethertype_ok [OF _ vac vac]])
  show "emit_ip4_l4 n cg = Inr (p, cg') \<Longrightarrow> raw_known cg \<Longrightarrow> raw_known cg'"
    by (rule step [OF emit_ip4_l4_ok [OF _ vac]])
  show "emit_ip6_l4 n cg = Inr (p, cg') \<Longrightarrow> raw_known cg \<Longrightarrow> raw_known cg'"
    by (rule step [OF emit_ip6_l4_ok [OF _ vac]])
  show "emit_port_prereqs_set want cg = Inr (p, cg') \<Longrightarrow> raw_known cg \<Longrightarrow> raw_known cg'"
    by (rule step [OF emit_port_prereqs_set_ok [OF _ vac]])
qed

lemma hoist_guards_safe: "raw_known cg \<Longrightarrow> safe (hoist_guards g cg)"
proof -
  assume known: "raw_known cg"
  have e1: "raw_known cg \<Longrightarrow> safe (hoist_one emit_ethertype x (fail, cg))"
    "hoist_one emit_ethertype x (fail, cg) = Inr (fail', cg') \<Longrightarrow> raw_known cg \<Longrightarrow> raw_known cg'" for x fail cg fail' cg'
    using hoist_one_safe [of emit_ethertype] emit_ethertype_safe emit_step_known(1) by blast+
  have e2: "raw_known cg \<Longrightarrow> safe (hoist_one emit_ip4_l4 x (fail, cg))"
    "hoist_one emit_ip4_l4 x (fail, cg) = Inr (fail', cg') \<Longrightarrow> raw_known cg \<Longrightarrow> raw_known cg'" for x fail cg fail' cg'
    using hoist_one_safe [of emit_ip4_l4] emit_l4_safe(1) emit_step_known(2) by blast+
  have e3: "raw_known cg \<Longrightarrow> safe (hoist_one emit_ip6_l4 x (fail, cg))"
    "hoist_one emit_ip6_l4 x (fail, cg) = Inr (fail', cg') \<Longrightarrow> raw_known cg \<Longrightarrow> raw_known cg'" for x fail cg fail' cg'
    using hoist_one_safe [of emit_ip6_l4] emit_l4_safe(2) emit_step_known(3) by blast+
  have e4: "raw_known cg \<Longrightarrow> safe (hoist_one emit_port_prereqs_set x (fail, cg))"
    "hoist_one emit_port_prereqs_set x (fail, cg) = Inr (fail', cg') \<Longrightarrow> raw_known cg \<Longrightarrow> raw_known cg'" for x fail cg fail' cg'
    using hoist_one_safe [of emit_port_prereqs_set] emit_port_prereqs_set_safe emit_step_known(4) by blast+
  let ?et = "if link_ether_proto_offset (cg_link cg) \<noteq> None then g_ethertype g else None"
  have 4: "safe (hoist_one emit_port_prereqs_set (port_prereqs g) acc)" if "raw_known (snd acc)" for acc
    using e4(1) that by (cases acc) simp
  have 3: "safe (rbind (hoist_one emit_ip6_l4 (g_ip6_nh g) acc) (hoist_one emit_port_prereqs_set (port_prereqs g)))"
    if "raw_known (snd acc)" for acc
    using that by (cases acc) (auto intro!: safe_bind 4 e3(1) dest: e3(2))
  have 2: "safe (rbind (hoist_one emit_ip4_l4 (g_ip4_proto g) acc) (\<lambda>acc.
      rbind (hoist_one emit_ip6_l4 (g_ip6_nh g) acc) (hoist_one emit_port_prereqs_set (port_prereqs g))))"
    if "raw_known (snd acc)" for acc
    using that by (cases acc) (auto intro!: safe_bind [OF _ 3] e2(1) dest: e2(2))
  show ?thesis
    unfolding hoist_guards_def Let_def
    using known by (auto intro!: safe_bind [OF _ 2] e1(1) dest: e1(2))
qed


lemma emit_ok_bound:
  "emit_ok N pkt d ok cg ps cg' t \<Longrightarrow> p \<in> set (success ps) \<union> set (failure ps) \<Longrightarrow> pidx p < length (cg_insns cg')"
  by (auto simp: emit_ok_def dest!: frag_range spec [where x = 0] simp: pend_range)

lemma turn_safe: "emit_ok N pkt d ok cg p cg1 t \<Longrightarrow> safe (turn cg p cg1)"
  unfolding turn_def
  by (rule resolve_all_safe) (use emit_ok_bound in \<open>fastforce intro: less_SucI\<close>)

lemma emit_rec_struct: "emit_rec e cg = Inr (ps, cg') \<Longrightarrow> emit_ok 0 [] 0 False cg ps cg' (sem (cg_link cg) 0 e [])"
  by (rule emit_rec_ok) simp_all

lemma turn_known: "emit_ok N pkt d ok cg p cg1 t \<Longrightarrow> turn cg p cg1 = Inr cg2 \<Longrightarrow> raw_known cg \<Longrightarrow> raw_known cg2"
  by (erule (1) turn_out) (simp add: raw_known_def turn_ethertype)

lemma hoist_guards_known:
  "hoist_guards g cg = Inr (fail, cg') \<Longrightarrow> raw_known cg \<Longrightarrow> raw_known cg'"
  using hoist_guards_ok [of g cg fail cg' False 0 0 "[]"] raw_known_step by blast

lemma emit_rec_turn:
  "emit_rec (expr.Not e) cg =
     rbind (emit_rec e cg) (\<lambda>(p, cg1). rbind (turn cg p cg1) (\<lambda>cg.
       Inr (\<lparr>success = [], failure = success p @ [Ja (length (cg_insns cg1))]\<rparr>, cg)))"
  "emit_rec (Or l r) cg =
     rbind (hoist_guards (guards_of (Or l r)) cg) (\<lambda>(hoist_failure, cg0).
     rbind (emit_rec l cg0) (\<lambda>(lp, cg1).
       rbind (turn cg0 lp cg1) (\<lambda>cg.
       rbind (emit_rec r cg) (\<lambda>(rp, cg).
         Inr (\<lparr>success = concat_vec (success lp @ [Ja (length (cg_insns cg1))]) (success rp),
               failure = concat_vec (failure rp) hoist_failure\<rparr>,
              cg\<lparr>cg_facts := facts_meet (cg_facts cg1) (cg_facts cg)\<rparr>)))))"
  by (simp_all add: turn_def Let_def)

lemma emit_rec_safe: "raw_known cg \<Longrightarrow> safe (emit_rec e cg)"
proof (induction e arbitrary: cg)
  case (Primitive q)
  then show ?case by (simp add: emit_primitive_safe)
next
  case (Not e)
  then show ?case unfolding emit_rec_turn
    by (auto intro!: safe_bind turn_safe [OF emit_rec_struct])
next
  case (Or l r)
  show ?case unfolding emit_rec_turn
  proof (rule safe_bind2 [OF hoist_guards_safe [OF Or.prems]], rule safe_bind2)
    fix hf cg0
    assume 0: "hoist_guards (guards_of (Or l r)) cg = Inr (hf, cg0)"
    then have k0: "raw_known cg0" by (rule hoist_guards_known [OF _ Or.prems])
    then show "safe (emit_rec l cg0)" by (rule Or.IH(1))
    fix lp cg1
    assume 1: "emit_rec l cg0 = Inr (lp, cg1)"
    show "safe (rbind (turn cg0 lp cg1) (\<lambda>cg. rbind (emit_rec r cg) (\<lambda>(rp, cg).
         Inr (\<lparr>success = concat_vec (success lp @ [Ja (length (cg_insns cg1))]) (success rp),
               failure = concat_vec (failure rp) hf\<rparr>,
              cg\<lparr>cg_facts := facts_meet (cg_facts cg1) (cg_facts cg)\<rparr>))))"
      using turn_known [OF emit_rec_struct [OF 1] _ k0]
      by (auto intro!: safe_bind turn_safe [OF emit_rec_struct [OF 1]] Or.IH(2))
  qed
next
  case (And l r)
  show ?case unfolding emit_rec.simps
  proof (rule safe_bind2 [OF And.IH(1) [OF And.prems]])
    fix lp cg1
    assume 1: "emit_rec l cg = Inr (lp, cg1)"
    note ok = emit_rec_struct [OF 1]
    have res: "safe (resolve_all (success lp) (length (cg_insns cg1)) cg1)"
      by (rule resolve_all_safe) (use emit_ok_bound [OF ok] in auto)
    have "safe (emit_rec r (if leading_vlan l then cg2\<lparr>vlan_depth := vlan_depth cg2 + 1\<rparr> else cg2))"
      if 2: "resolve_all (success lp) (length (cg_insns cg1)) cg1 = Inr cg2" for cg2
    proof -
      have "raw_known cg2" by (rule raw_known_step [OF resolved_ok(1) [OF ok 2] And.prems])
      then show ?thesis by (intro And.IH(2)) (simp add: raw_known_def)
    qed
    with res show "safe (rbind (resolve_all (success lp) (length (cg_insns cg1)) cg1) (\<lambda>cg.
        rbind (emit_rec r (if leading_vlan l then cg\<lparr>vlan_depth := vlan_depth cg + 1\<rparr> else cg)) (\<lambda>(rp, cg).
          Inr (\<lparr>success = success rp, failure = concat_vec (failure lp) (failure rp)\<rparr>,
            if leading_vlan l then cg\<lparr>vlan_depth := vlan_depth cg - 1\<rparr> else cg))))"
      by (intro safe_bind) auto
  qed
qed


lemma raw_known_new: "raw_known (codegen_new link)"
  by (simp add: raw_known_def)

lemma compile_raw_safe: "safe (compile_raw e link)"
  unfolding compile_raw_def emit_expr_rec
proof (rule safe_bind2 [OF emit_rec_safe [OF raw_known_new]])
  fix ps cg
  assume "emit_rec e (codegen_new link) = Inr (ps, cg)"
  note ok = emit_rec_struct [OF this]
  let ?C = "cg\<lparr>cg_insns := cg_insns cg @ [ret_k BPF_ACCEPT, ret_k BPF_DROP]\<rparr>"
  have 1: "safe (resolve_all (success ps) (length (cg_insns cg)) ?C)"
    by (rule resolve_all_safe) (use emit_ok_bound [OF ok] in \<open>auto intro: less_SucI\<close>)
  have 2: "safe (resolve_all (failure ps) (length (cg_insns cg) + 1) cg1)"
    if "resolve_all (success ps) (length (cg_insns cg)) ?C = Inr cg1" for cg1
    using resolve_all_Inr [OF that] resolves_length
    by (intro resolve_all_safe) (use emit_ok_bound [OF ok] in \<open>fastforce intro: less_SucI\<close>)
  show "safe (let accept_idx = length (cg_insns cg); cg = put (ret_k BPF_ACCEPT) cg; drop_idx = length (cg_insns cg);
        cg = put (ret_k BPF_DROP) cg
      in rbind (resolve_all (success ps) accept_idx cg) (\<lambda>cg.
         rbind (resolve_all (failure ps) drop_idx cg) (\<lambda>cg. Inr (cg_insns cg))))"
    using 1 2 by (auto simp: Let_def intro!: safe_bind)
qed

section \<open>What is rejected\<close>

text \<open>The tests that need nothing the link type or classic BPF does not have.\<close>

fun proto_on_raw :: "proto \<Rightarrow> bool" where
  "proto_on_raw pr = (pr \<notin> {Ip6, Arp, Rarp, Icmp6} \<and> (\<forall>n. pr \<noteq> Ip6Proto n))"

fun expressible :: "link_type \<Rightarrow> primitive \<Rightarrow> bool" where
  "expressible link (Proto pr) = (link = RawIp \<longrightarrow> proto_on_raw pr)"
| "expressible link (Host (V4 _) _) = True"
| "expressible link (Host (V6 _) _) = (link \<noteq> RawIp)"
| "expressible link (Net _ _) = True"
| "expressible link (Net6 _ _) = (link \<noteq> RawIp)"
| "expressible link (Port _ _ pr) = (pr \<in> {None, Some Tcp, Some Udp, Some Sctp})"
| "expressible link (PortRange _ _ _ pr) = (pr \<in> {None, Some Tcp, Some Udp, Some Sctp})"
| "expressible link (EtherHost _ _) = (link \<noteq> RawIp)"
| "expressible link (EtherProto et) = (link = RawIp \<longrightarrow> et = 0x0800)"
| "expressible link EtherMulticast = (link \<noteq> RawIp)"
| "expressible link IpBroadcast = True"
| "expressible link IpMulticast = True"
| "expressible link Ip6Multicast = (link \<noteq> RawIp)"
| "expressible link (Vlan _) = (link \<noteq> RawIp)"
| "expressible link (Mpls _) = (link \<noteq> RawIp)"
| "expressible link PppoeDiscovery = (link \<noteq> RawIp)"
| "expressible link (PppoeSession _) = (link \<noteq> RawIp)"
| "expressible link (IpProtoChain _) = True"
| "expressible link (Ip6ProtoChain _) = (link \<noteq> RawIp)"
| "expressible link (Len _ _) = True"
| "expressible link Inbound = False"
| "expressible link Outbound = False"
| "expressible link (ByteAccess ba) =
     (list_all alu_ok (alu_ops ba) \<and>
      (case ba_rhs ba of Const _ \<Rightarrow> ba_layer ba = Raw \<longrightarrow> link \<noteq> RawIp | LoadRhs _ \<Rightarrow> True))"

lemma emit_ethertype_raw: "emit_ethertype et cg = Inr r \<Longrightarrow> cg_link cg = RawIp \<Longrightarrow> et = 0x0800"
  by (simp add: emit_ethertype_def ether_proto_offset_def split: if_splits)

lemma l4set_for_Inr: "l4set_for pr = Inr want \<Longrightarrow> pr \<in> {None, Some Tcp, Some Udp, Some Sctp}"
  by (cases pr rule: l4set_for.cases) simp_all

lemma emit_primitive_expressible: "emit_primitive q cg = Inr r \<Longrightarrow> expressible (cg_link cg) q"
proof (cases q)
  case (Proto pr)
  then show "emit_primitive q cg = Inr r \<Longrightarrow> ?thesis"
    by (cases pr) (auto simp: emit_ip6_l4_def rbind_eq_Inr dest!: emit_ethertype_raw)
next
  case (Host a dr)
  then show "emit_primitive q cg = Inr r \<Longrightarrow> ?thesis"
    by (cases a) (auto simp: emit_host6_def rbind_eq_Inr dest!: emit_ethertype_raw)
next
  case (EtherProto et)
  have "unat (ucast et :: u32) = unat et"
    using unsigned_less [where ?w = et and ?'a = nat] by (simp add: unsigned_ucast_eq take_bit_nat_eq_self)
  then have "(ucast et :: u32) = 0x0800 \<Longrightarrow> et = 0x0800" by (simp add: word_unat_eq_iff)
  with EtherProto show "emit_primitive q cg = Inr r \<Longrightarrow> ?thesis" by (auto dest!: emit_ethertype_raw)
next
  case (ByteAccess ba)
  then show "emit_primitive q cg = Inr r \<Longrightarrow> ?thesis"
    by (cases "ba_rhs ba")
       (auto simp: emit_byte_access_def emit_byte_access_const_def rbind_eq_Inr emit_byte_access_load_def Let_def
        split: layer.splits if_splits dest!: emit_alu_ops_Inr)
qed (auto simp: emit_net6_def emit_port_def emit_portrange_def emit_port_prereqs_def emit_ether_host_def
    emit_ether_multicast_def emit_ip6_multicast_def emit_vlan_def emit_mpls_def emit_pppoe_session_def emit_ip6_l4_def
    rbind_eq_Inr ether_proto_offset_def direction_error_def split: if_splits option.splits
    dest!: emit_ethertype_raw l4set_for_Inr)

lemma emit_rec_expressible: "emit_rec e cg = Inr (ps, cg') \<Longrightarrow> list_all (expressible (cg_link cg)) (prims e)"
proof (induction e arbitrary: cg ps cg')
  case (Primitive q)
  then show ?case using emit_primitive_expressible by simp
next
  case (Not e)
  then show ?case by (auto simp: rbind_eq_Inr)
next
  case (And l r)
  obtain lp cg1 cg2 rp cg3 where 1: "emit_rec l cg = Inr (lp, cg1)"
    and 2: "resolve_all (success lp) (length (cg_insns cg1)) cg1 = Inr cg2"
    and 3: "emit_rec r (if leading_vlan l then cg2\<lparr>vlan_depth := vlan_depth cg2 + 1\<rparr> else cg2) = Inr (rp, cg3)"
    using And.prems by (auto simp: rbind_eq_Inr)
  have "cg_link cg2 = cg_link cg" using resolved_ok(1) [OF emit_rec_struct [OF 1] 2] by (simp add: emit_ok_def)
  then show ?case using And.IH(1) [OF 1] And.IH(2) [OF 3] by (simp split: if_splits)
next
  case (Or l r)
  obtain hf cg0 lp cg1 cg2 rp cg3 where 0: "hoist_guards (guards_of (Or l r)) cg = Inr (hf, cg0)"
    and 1: "emit_rec l cg0 = Inr (lp, cg1)" and 2: "turn cg0 lp cg1 = Inr cg2" and 3: "emit_rec r cg2 = Inr (rp, cg3)"
    using Or.prems unfolding emit_rec_turn by (auto simp: rbind_eq_Inr simp del: guards_of.simps)
  have "cg_link cg0 = cg_link cg" using hoist_guards_ok [OF 0, of False] emit_ok_link by blast
  moreover have "cg_link cg2 = cg_link cg0" using turn_out [OF emit_rec_struct [OF 1] 2] by blast
  ultimately show ?case using Or.IH(1) [OF 1] Or.IH(2) [OF 3] by simp
qed

end
