(* ===== verification/Compile_Theorems.thy ===== *)
theory Compile_Theorems
  imports Compile_Safe
begin

text \<open>
  The properties of the classic BPF compiler as a whole, with the filters their witnesses use.
\<close>

definition tcp_port_80 :: expr where
  "tcp_port_80 = And (Primitive (Proto Tcp)) (Primitive (Port 80 SrcOrDst None))"

definition vlan_tcp_or_tcp :: expr where
  "vlan_tcp_or_tcp = Or (And (Primitive (Vlan None)) (Primitive (Proto Tcp))) (Primitive (Proto Tcp))"

text \<open>Frames that are zero but for the bytes given with their positions.\<close>

definition frame :: "(nat \<times> u8) list \<Rightarrow> nat \<Rightarrow> packet" where
  "frame fs n = foldl (\<lambda>bs (i, b). bs[i := b]) (replicate n 0) fs"

lemma tcp_port_80_code: "case compile_raw tcp_port_80 Ethernet of Inr p \<Rightarrow> length p = 13 | Inl _ \<Rightarrow> False"
  by code_simp

lemma tcp_port_80_raw: "\<exists>p. compile_raw tcp_port_80 Ethernet = Inr p \<and> length p < 2 ^ 32"
  using tcp_port_80_code by (auto split: sum.splits)

lemma program_new_insns [simp]: "insns (program_new raw) = raw"
  by (simp add: program_new_def)

lemma compiled_inner:
  assumes "supported e" "compile_raw e link = Inr raw" "length raw < 2 ^ 32"
  shows "case vm_inner (optimize raw) pkt of None \<Rightarrow> length pkt < need link 0 e | Some b \<Rightarrow> b = sem link 0 e pkt"
  using compile_raw_decides [OF assms(1,2)] optimize_inner [OF compile_raw_wf [OF assms(2,3)]] by simp





text \<open>
  C14: code generation is total and never panics: it returns a program or an error it reports itself;
  no stack of the two walks runs empty, no patch points outside the code, and the offset the
  two-family port prologue relies on is there.
\<close>

theorem compile_never_panics:
  "(\<exists>p. codegen_compile e link = Inr p) \<or> (\<exists>msg. codegen_compile e link = Inl (CodegenError msg))"
  using compile_raw_safe [of e link]
  by (cases "compile_raw e link") (auto simp: codegen_compile_def safe_def)

text \<open>
  C19: an expression that holds a test the link type or classic BPF cannot express, however deep, is
  rejected with an error of the code generator.
\<close>

theorem compile_rejects:
  assumes "\<not> list_all (expressible link) (prims e)"
  shows "\<exists>msg. codegen_compile e link = Inl (CodegenError msg)"
proof (cases "compile_raw e link")
  case (Inl er)
  then show ?thesis using compile_raw_safe [of e link] by (auto simp: codegen_compile_def safe_def)
next
  case (Inr raw)
  obtain ps cg where "emit_rec e (codegen_new link) = Inr (ps, cg)" using compile_raw_parts [OF Inr] by blast
  from emit_rec_expressible [OF this] assms show ?thesis by simp
qed

theorem compile_rejects_witness:
  "\<exists>msg. codegen_compile (expr.Not (Primitive Inbound)) Ethernet = Inl (CodegenError msg)"
  by (rule compile_rejects) simp

text \<open>
  C26: the explicit work stack of \<open>emit_expr\<close>, with its memo of guard sets, computes the plain
  recursion over the expression.
\<close>

theorem emit_expr_recursion: "emit_expr e cg = emit_rec e cg"
  by (rule emit_expr_rec)



section \<open>Where the generated code is wrong\<close>


lemma compile_run:
  "(case compile_raw e link of Inr p \<Rightarrow> length p < 100 \<and> vm_run p pkt = b | Inl _ \<Rightarrow> False) \<Longrightarrow>
   (case codegen_compile e link of Inr p \<Rightarrow> program_matches p pkt = b | Inl _ \<Rightarrow> False)"
  using compile_raw_wf [of e link] optimize_inner
  by (auto simp: codegen_compile_def program_matches_def vm_run_def split: sum.splits)



end
