(* ===== verification/Ebpf_Theorems.thy ===== *)
theory Ebpf_Theorems
  imports Ebpf_Errors Compile_Theorems
begin

text \<open>
  The properties of the extended BPF compiler as a whole, and how its programs compare with those of the classic
  compiler.
\<close>

section \<open>Where the two targets mean the same\<close>

text \<open>
  \<open>portable link p pkt\<close>: the test \<open>p\<close> means the same on both targets for \<open>pkt\<close>. The constants it is compared with are below
  \<open>2 ^ 31\<close>, so that sign extension does not change them; \<open>tcp\<close>, \<open>udp\<close> and \<open>sctp\<close> are not asked of IPv6, which only the
  extended target looks at; and ports are not asked of later fragments, which only the classic target tells apart.
\<close>

fun portable :: "link_type \<Rightarrow> primitive \<Rightarrow> packet \<Rightarrow> bool" where
  "portable link (Proto p) pkt = (p \<in> {Tcp, Udp, Sctp} \<longrightarrow> \<not> is_v6 link 0 pkt)"
| "portable link (Host (V4 a) d) pkt = (a < 0x80000000)"
| "portable link (Net net d) pkt = (net_addr net AND net_mask net < 0x80000000)"
| "portable link (Port _ _ _) pkt = (is_v4 link 0 pkt \<longrightarrow> \<not> later_fragment link 0 pkt)"
| "portable link (PortRange _ _ _ _) pkt = (is_v4 link 0 pkt \<longrightarrow> \<not> later_fragment link 0 pkt)"
| "portable link (EtherHost (MacAddr a _ _ _ _ _) d) pkt = (a < 0x80)"
| "portable link IpBroadcast pkt = False"
| "portable link IpMulticast pkt = False"
| "portable link (Len _ v) pkt = (v < 0x80000000)"
| "portable link (ByteAccess ba) pkt = (case ba_rhs ba of Const v \<Rightarrow> v < 0x80000000 | LoadRhs _ \<Rightarrow> False)"
| "portable link _ pkt = True"

lemma small_word: "(k :: u32) < 0x80000000 \<longleftrightarrow> unat k < 0x80000000"
  by (simp add: word_less_nat_alt)

lemma ether_is_et:
  assumes "net_off link 0 + 64 \<le> length pkt" "link \<noteq> RawIp \<or> et = 0x0800" "unat et < 0x80000000"
  shows "ether_is link et pkt \<longleftrightarrow> et_of link 0 pkt = et"
proof -
  have "ether_off link 0 + 2 \<le> length pkt" using assms(1) by (cases link) (auto simp: ether_off_def net_off_def)
  then show ?thesis using assms(2,3) by (auto simp: ether_is_def et_of_def field_def eq64_small)
qed

lemma be32_small: "(a :: u8) < 0x80 \<Longrightarrow> unat (be32 a b c d) < 0x80000000"
proof -
  assume a: "a < 0x80"
  have "\<not> bit a 7"
  proof -
    have "a = a AND mask 7" using a by (intro less_mask_eq [symmetric]) simp
    then have "bit a 7 = bit (a AND mask 7) 7" by simp
    then show ?thesis by (simp add: bit_simps)
  qed
  then have "n < 31" if "bit (be32 a b c d) n" for n
    using that bit_u32 [OF that] by (cases "n = 31") (auto simp: be32_def bit_simps dest: byte_bit)
  then have "be32 a b c d = take_bit 31 (be32 a b c d)" by (intro bit_word_eqI) (auto simp: bit_simps not_less)
  then have "unat (be32 a b c d) = take_bit 31 (unat (be32 a b c d))" by (metis unsigned_take_bit_eq)
  also have "\<dots> < 2 ^ 31" by (rule take_bit_nat_less_exp)
  finally show ?thesis by simp
qed

lemma field_in: "n + size_bytes sz \<le> length pkt \<Longrightarrow> field pkt sz n R = R (sized pkt sz n)"
  by (simp add: field_def)

lemma ecmp_small:
  assumes "unat v < 0x80000000"
  shows "ecmp_sem opr (wide x) (scast v) = cmp_sem opr x v"
proof -
  have w: "(scast v :: u64) = wide v" by (rule scast_wide [OF assms])
  have "wide x AND wide v = wide (x AND v)" by (rule bit_word_eqI) (auto simp: bit_simps)
  moreover have "wide (x AND v) = 0 \<longleftrightarrow> x AND v = 0" using wide_inject [of "x AND v" 0] by simp
  ultimately show ?thesis unfolding w by (cases opr) (simp_all add: word_less_nat_alt word_le_nat_alt)
qed

lemma ether_ip:
  assumes "net_off link 0 + 64 \<le> length pkt"
  shows "ether_is link 0x0800 pkt = is_v4 link 0 pkt" "ether_is link 0x86dd pkt = is_v6 link 0 pkt"
  using ether_is_et [OF assms, of "0x0800"] ether_is_et [OF assms, of "0x86dd"]
  by (auto simp: is_v4_def is_v6_def ether_is_def et_of_def)

lemma proto_agree:
  assumes "eexpressible link (Proto p)" "portable link (Proto p) pkt" "net_off link 0 + 64 \<le> length pkt"
  shows "eproto_sem link p pkt = proto_sem link 0 p pkt"
  using assms by (cases p) (auto simp: ether_is_et ether_ip v4_proto_def v6_proto_def is_v4_def is_v6_def)

lemma ports_agree:
  assumes "port_proto pr" "is_v4 link 0 pkt \<longrightarrow> \<not> later_fragment link 0 pkt" "net_off link 0 + 64 \<le> length pkt"
  shows "eports_sem link R d pr pkt = ports_sem link 0 R d pr pkt"
proof -
  obtain want where want: "l4set_for pr = Inr want" using assms(1) by (auto simp: port_proto_def)
  have e: "ether_is link 0x0800 pkt = is_v4 link 0 pkt" "ether_is link 0x86dd pkt = is_v6 link 0 pkt"
    using assms(3) by (simp_all add: ether_ip)
  have "unat (ihl_bytes link 0 pkt) \<le> 60" unfolding ihl_bytes_def by (rule nibble_bound)
  then have "ports_there link want pkt = l4_sem link 0 want pkt"
    using assms(2,3) by (auto simp: ports_there_def v4_proto_def v6_proto_def e l4_sem_def)
  moreover have "l4_sem link 0 want pkt \<Longrightarrow> trans_at link pkt = net_off link 0 + unat (l4_off link 0 pkt)"
    by (auto simp: trans_at_def e l4_off_def)
  ultimately show ?thesis
    by (auto simp: ports_sem_split [OF want] ports_sem_def want src_port_def dst_port_def)
qed

lemma byte_access_agree:
  assumes "eexpressible link (ByteAccess ba)" "portable link (ByteAccess ba) pkt" "encodable link (ByteAccess ba)"
    and "prim_need link 0 (ByteAccess ba) \<le> length pkt"
  shows "eba_sem link ba pkt = ba_sem link 0 ba pkt"
proof -
  obtain v where v: "ba_rhs ba = Const v" "unat v < 0x80000000"
    using assms(2) by (cases "ba_rhs ba") (auto simp: small_word)
  have net: "net_off link 0 \<le> 16" by (rule net_at(3))
  have off: "unat (ba_offset ba) < 32768" using assms(3) uint_small(1) [of "ba_offset ba"] by (cases "ba_layer ba") auto
  have net': "unat (of_nat (net_off link 0) + ba_offset ba) = net_off link 0 + unat (ba_offset ba)"
    using net off by (simp add: unat_word_ariths unat_of_nat take_bit_nat_eq_self)
  have ihl: "unat (ihl_bytes link 0 pkt) \<le> 60" unfolding ihl_bytes_def by (rule nibble_bound)
  then have trans: "unat (ihl_bytes link 0 pkt + (of_nat (net_off link 0) + ba_offset ba)) =
      net_off link 0 + unat (ihl_bytes link 0 pkt) + unat (ba_offset ba)"
    using net off net' by (subst unat_word_ariths) simp
  show ?thesis
    using assms(4) v ihl net' trans
    by (cases "ba_layer ba") (auto simp: eba_sem_def ba_sem_def eba_test_def ecmp_small field_def)
qed

lemma prim_agree:
  assumes "eexpressible link p" "plain_prim p" "encodable link p" "portable link p pkt" "prim_need link 0 p \<le> length pkt" "fits_xdp pkt"
  shows "eprim_sem link p pkt = prim_sem link 0 p pkt"
proof -
  have len: "net_off link 0 + 64 \<le> length pkt" using assms(5) by (cases p) auto
  have eoff: "link \<noteq> RawIp \<Longrightarrow> ether_off link 0 + 2 = net_off link 0"
    by (cases link) (auto simp: ether_off_def net_off_def)
  have ip: "ether_is link 0x0800 pkt = is_v4 link 0 pkt" "ether_is link 0x86dd pkt = is_v6 link 0 pkt"
    using len by (simp_all add: ether_ip)
  note e = ether_is_et [OF len]
  show ?thesis
  proof (cases p)
    case (Host a d)
    then show ?thesis
      using assms(4) len by (cases a; cases d) (auto simp: ip field_in eq64_small small_word addr6_in_def)
  next
    case (Net net d)
    then show ?thesis using assms(4) len by (cases d) (auto simp: ip field_in eq64_small small_word)
  next
    case (Net6 net d)
    have "prefix6_in pkt (net_off link 0 + k) a n = prefix6_at pkt (net_off link 0 + k) a n" if "k \<le> 24" for k a n
      using len that by (auto simp: prefix6_in_def)
    then show ?thesis using Net6 by (simp add: ip)
  next
    case (EtherHost m d)
    obtain a b c a' b' c' where m: "m = MacAddr a b c a' b' c'" by (cases m)
    have "unat (be32 a b c a') < 0x80000000" "unat (be32 0 0 b' c') < 0x80000000"
      using assms(4) EtherHost m by (auto intro: be32_small)
    then have "mac_in pkt k m = mac_at pkt k m" if "k \<le> 6" for k
      using len that mac_fields [of pkt k m] by (simp add: m field_in eq64_small)
    then show ?thesis using EtherHost by simp
  next
    case (EtherProto et)
    have "unat (ucast et :: u32) < 0x80000000" using unat_u16_less [of et] by (simp add: unsigned_ucast_eq take_bit_nat_eq_self)
    with EtherProto show ?thesis using assms(1) by (auto simp: e)
  next
    case (Len opr v)
    have "(of_nat (length pkt) :: u64) = wide (of_nat (length pkt))"
      using assms(6) by (simp add: fits_xdp_def word_unat_eq_iff unat_of_nat take_bit_nat_eq_self)
    with Len show ?thesis using assms(4) by (simp add: ecmp_small small_word)
  next
    case (ByteAccess ba)
    then show ?thesis using byte_access_agree assms by simp
  next
    case (Port port d pr)
    then show ?thesis using ports_agree [OF _ _ len] assms(1,4) by simp
  next
    case (PortRange a b d pr)
    then show ?thesis using ports_agree [OF _ _ len] assms(1,4) by simp
  next
    case (Proto pr)
    then show ?thesis using proto_agree [OF _ _ len] assms(1,4) by simp
  next
    case (Vlan vid)
    then show ?thesis using assms(1) len eoff by (auto simp: e field_in split: option.split)
  next
    case (Mpls lbl)
    then show ?thesis using assms(1,2) len eoff by (cases lbl) (auto simp: et_of_def field_in eq64_small)
  next
    case Ip6Multicast
    then show ?thesis using len ldb_eq64 [of pkt "net_off link 0 + 24" "0xff"] by (auto simp: ip field_in)
  next
    case (PppoeSession sid)
    then show ?thesis using assms(1) len eoff by (auto simp: e field_in split: option.split)
  qed (use assms len in \<open>auto simp: ip e field_in eq64_small v4_proto_def v6_proto_def ldb_def\<close>)
qed

lemma sem_agree:
  "plain e \<Longrightarrow> list_all (eexpressible link) (prims e) \<Longrightarrow> list_all (encodable link) (prims e) \<Longrightarrow>
   list_all (\<lambda>p. portable link p pkt) (prims e) \<Longrightarrow> need link 0 e \<le> length pkt \<Longrightarrow> fits_xdp pkt \<Longrightarrow>
   esem link e pkt = sem link 0 e pkt"
  by (induction e) (simp_all add: prim_agree)

section \<open>Properties\<close>


definition from_host :: expr where
  "from_host = And (Primitive (Host (V4 0x0a000001) Src)) (expr.Not (Primitive (Proto Icmp)))"

definition host_frame :: packet where
  "host_frame = frame [(12, 8), (23, 17), (14, 0x45), (26, 10), (29, 1)] 80"

lemma from_host_code: "case ebpf_compile from_host Ethernet of Inr p \<Rightarrow> length (einsns p) \<le> 100 | Inl _ \<Rightarrow> False"
  by code_simp

lemma from_host_prog: "\<exists>p. ebpf_compile from_host Ethernet = Inr p \<and> length (einsns p) \<le> STEP_LIMIT"
  using from_host_code by (auto simp: STEP_LIMIT_def split: sum.splits)

lemma host_frame_fits: "fits_xdp host_frame" "length host_frame = 80"
  by (simp_all add: fits_xdp_def host_frame_def frame_def)

lemma from_host_sem: "esem Ethernet from_host host_frame"
  by code_simp


text \<open>
  C16: a compiled extended program always ends, within as many turns as it has instructions, with the code of
  pass or of drop in R0, whatever its length.
\<close>

theorem ebpf_program_ends:
  assumes "ebpf_compile e link = Inr prog" "list_all (encodable link) (prims e)" "fits_xdp pkt"
  shows "\<exists>r \<in> {scast XDP_PASS, scast XDP_DROP}.
    eloop (length (einsns prog)) (einsns prog) (xdp_ctx host pkt) pkt host 0 eregs_init = Inr r"
  using ebpf_program_runs [OF assms order.refl, of host] by simp

theorem ebpf_program_ends_witness:
  "\<exists>p. ebpf_compile from_host Ethernet = Inr p \<and>
     (\<exists>r \<in> {scast XDP_PASS, scast XDP_DROP}.
        eloop (length (einsns p)) (einsns p) (xdp_ctx Big host_frame) host_frame Big 0 eregs_init = Inr r)"
proof -
  obtain p where "ebpf_compile from_host Ethernet = Inr p" using from_host_prog by blast
  moreover have "list_all (encodable Ethernet) (prims from_host)" by (simp add: from_host_def)
  ultimately show ?thesis using ebpf_program_ends [OF _ _ host_frame_fits(1)] by blast
qed


text \<open>
  C5: where the tests of a filter are portable, the programs of the two targets accept the same packets: the
  optimized classic program and the extended program give the same verdict on every packet that is long enough
  for the filter, whatever the byte order of the machine.
\<close>

theorem targets_agree:
  assumes "plain e" "compile_raw e link = Inr raw" "length raw < 2 ^ 32" "codegen_compile e link = Inr p"
    and "ebpf_compile e link = Inr q" "length (einsns q) \<le> STEP_LIMIT" "list_all (encodable link) (prims e)"
    and "list_all (\<lambda>p. portable link p pkt) (prims e)" "need link 0 e \<le> length pkt" "fits_xdp pkt"
  shows "run_ebpf (einsns q) pkt host = Inr (if program_matches p pkt then Match else NoMatch)"
proof -
  have "p = program_new (optimize raw)" using assms(2,4) by (simp add: codegen_compile_def)
  moreover have "supported e" using assms(1) by (simp add: supported_def)
  ultimately have "program_matches p pkt = sem link 0 e pkt"
    using compiled_inner [OF _ assms(2,3), of pkt] assms(9) by (auto simp: program_matches_def vm_run_def split: option.splits)
  moreover have "list_all (eexpressible link) (prims e)" using ebpf_compile_answers [of link e] assms(5) by simp
  moreover have "run_ebpf (einsns q) pkt host = Inr (if esem link e pkt then Match else NoMatch)"
    using ebpf_program_runs [OF assms(5,7,10,6), of host] by (simp add: run_ebpf_def eexec_def XDP_PASS_def XDP_DROP_def)
  ultimately show ?thesis using sem_agree [OF assms(1) _ assms(7,8,9,10)] by simp
qed

lemma from_host_raw_code: "case compile_raw from_host Ethernet of Inr p \<Rightarrow> length p \<le> 100 | Inl _ \<Rightarrow> False"
  by code_simp

theorem targets_agree_witness:
  "\<exists>p q. codegen_compile from_host Ethernet = Inr p \<and> ebpf_compile from_host Ethernet = Inr q \<and>
     run_ebpf (einsns q) host_frame Little = Inr (if program_matches p host_frame then Match else NoMatch)"
proof -
  obtain raw where raw: "compile_raw from_host Ethernet = Inr raw" "length raw < 2 ^ 32"
    using from_host_raw_code by (auto split: sum.splits)
  then have p: "codegen_compile from_host Ethernet = Inr (program_new (optimize raw))" by (simp add: codegen_compile_def)
  obtain q where q: "ebpf_compile from_host Ethernet = Inr q" "length (einsns q) \<le> STEP_LIMIT" using from_host_prog by blast
  have "plain from_host" "list_all (encodable Ethernet) (prims from_host)"
    "list_all (\<lambda>p. portable Ethernet p host_frame) (prims from_host)" "need Ethernet 0 from_host \<le> length host_frame"
    by (simp_all add: from_host_def host_frame_fits(2) net_off_def)
  from targets_agree [OF this(1) raw p q this(2,3,4) host_frame_fits(1)] p q(1) show ?thesis by blast
qed

lemma eq64_high: "0x80000000 \<le> k \<Longrightarrow> \<not> eq64 v k"
proof
  assume k: "0x80000000 \<le> k" and "eq64 v k"
  then have "bit (wide v) 63 = bit (scast k :: u64) 63" by (simp add: eq64_def)
  then have "\<not> bit k 31" by (auto simp: bit_simps dest: bit_u32)
  then have "n < 31" if "bit k n" for n using that bit_u32 [OF that] by (cases "n = 31") auto
  then have "k = take_bit 31 k" by (intro bit_word_eqI) (auto simp: bit_simps)
  then have "unat k = take_bit 31 (unat k)" by (metis unsigned_take_bit_eq)
  also have "\<dots> < 2 ^ 31" by (rule take_bit_nat_less_exp)
  finally show False using k by (simp add: word_le_nat_alt)
qed

text \<open>
  C39: on the extended target no packet matches a test of an IPv4 host from 128.0.0.0 upwards. The address is
  compared as an immediate that the machine sign-extends to 64 bits, with a value that is zero-extended.
\<close>

theorem ebpf_high_host_never:
  assumes "0x80000000 \<le> a" "ebpf_compile (Primitive (Host (V4 a) d)) link = Inr prog" "fits_xdp pkt"
    and "length (einsns prog) \<le> STEP_LIMIT"
  shows "run_ebpf (einsns prog) pkt host = Inr NoMatch"
proof -
  have "\<not> esem link (Primitive (Host (V4 a) d)) pkt" using eq64_high [OF assms(1)] by (cases d) (simp_all add: field_def)
  then show ?thesis
    using ebpf_program_runs [OF assms(2) _ assms(3,4), of host] by (simp add: run_ebpf_def eexec_def XDP_PASS_def XDP_DROP_def)
qed

definition host_192 :: expr where
  "host_192 = Primitive (Host (V4 0xc0a80001) Src)"

lemma host_192_code: "case ebpf_compile host_192 Ethernet of Inr p \<Rightarrow> length (einsns p) \<le> 100 | Inl _ \<Rightarrow> False"
  by code_simp

lemma host_192_sem: "sem Ethernet 0 host_192 (frame [(12, 8), (26, 192), (27, 168), (29, 1)] 78)"
  by code_simp

theorem ebpf_high_host_never_witness:
  "\<exists>p. ebpf_compile host_192 Ethernet = Inr p \<and>
     sem Ethernet 0 host_192 (frame [(12, 8), (26, 192), (27, 168), (29, 1)] 78) \<and>
     run_ebpf (einsns p) (frame [(12, 8), (26, 192), (27, 168), (29, 1)] 78) Little = Inr NoMatch"
proof -
  obtain p where p: "ebpf_compile host_192 Ethernet = Inr p" "length (einsns p) \<le> STEP_LIMIT"
    using host_192_code by (auto simp: STEP_LIMIT_def split: sum.splits)
  have "fits_xdp (frame [(12, 8), (26, 192), (27, 168), (29, 1)] 78)" by (simp add: fits_xdp_def frame_def)
  from ebpf_high_host_never [OF _ p(1) [unfolded host_192_def] this p(2)] p(1) host_192_sem show ?thesis by auto
qed

end
