(* ===== verification/Lexer.thy ===== *)
theory Lexer
  imports Ast Error
begin

text \<open>
  \<^verbatim>\<open>pktbaffle/src/lexer.rs\<close>: from the text of a filter to its tokens. The source text is
  a list of bytes (\<^typ>\<open>char\<close> has eight bits), the UTF-8 encoding of the \<open>&str\<close>. One iteration of
  the scanning loop is \<open>lex_token\<close>, on the bytes from \<open>pos\<close> on; it answers the token and how many
  bytes it used. The integer, IPv4 and IPv6 parsers of the standard library that the code
  calls are written out.
\<close>

section \<open>Tokens\<close>

text \<open>The constructors carry a \<open>T\<close> in front of the source's names.\<close>

datatype (plugins only: code) token =
  TAnd | TOr | TNot | TSrc | TDst | THost | TNet | TPort
| TPortRange | TEther | TBroadcast | TMulticast | TIp | TIp6 | TArp | TRarp
| TTcp | TUdp | TIcmp | TIcmp6 | TIgmp | TSctp | TProto | TAh
| TEsp | TPim | TIgrp | TVrrp | TProtochain | TVlan | TMpls | TPppoed
| TPppoes | TInbound | TOutbound | TLen | TMask | TGateway | TLess | TGreater
| TLParen | TRParen | TLBracket | TRBracket | TColon | TMinus | TPlus | TStar
| TSlash | TPercent | TPipe | TCaret | TShl | TShr | TEq | TNe
| TLt | TLe | TGt | TGe | TAmp | TBang
| TNum nat
| TIpv4 u8 u8 u8 u8 nat
| TIpv6 ipv6_addr
| TMac mac_addr
| TIdent string

record spanned =
  spanned_token :: token
  spanned_offset :: nat

section \<open>Characters and standard-library parsers\<close>

abbreviation byte :: "char \<Rightarrow> nat" where
  "byte c \<equiv> of_char c"

definition is_ascii_whitespace :: "char \<Rightarrow> bool" where
  "is_ascii_whitespace c \<longleftrightarrow> byte c \<in> {9, 10, 12, 13, 32}"

definition is_ascii_digit :: "char \<Rightarrow> bool" where
  "is_ascii_digit c \<longleftrightarrow> 48 \<le> byte c \<and> byte c \<le> 57"

definition is_ascii_alphabetic :: "char \<Rightarrow> bool" where
  "is_ascii_alphabetic c \<longleftrightarrow>
     65 \<le> byte c \<and> byte c \<le> 90 \<or> 97 \<le> byte c \<and> byte c \<le> 122"

definition is_ascii_alphanumeric :: "char \<Rightarrow> bool" where
  "is_ascii_alphanumeric c \<longleftrightarrow> is_ascii_alphabetic c \<or> is_ascii_digit c"

definition is_ascii_hexdigit :: "char \<Rightarrow> bool" where
  "is_ascii_hexdigit c \<longleftrightarrow>
     is_ascii_digit c \<or> 65 \<le> byte c \<and> byte c \<le> 70 \<or> 97 \<le> byte c \<and> byte c \<le> 102"

text \<open>\<open>char::to_digit\<close>.\<close>

definition to_digit :: "nat \<Rightarrow> char \<Rightarrow> nat option" where
  "to_digit radix c =
     (let d = (if is_ascii_digit c then byte c - 48
               else if 65 \<le> byte c \<and> byte c \<le> 90 then byte c - 55
               else if 97 \<le> byte c \<and> byte c \<le> 122 then byte c - 87
               else 36)
      in if d < radix then Some d else None)"

text \<open>
  \<open>u8::from_str_radix\<close>, and with radix 10 also \<open>str::parse::<u8>\<close>: an optional \<open>+\<close>, at least
  one digit, any number of leading zeros, and a value of at most 255.
\<close>

fun from_digits :: "nat \<Rightarrow> nat \<Rightarrow> nat \<Rightarrow> string \<Rightarrow> nat option" where
  "from_digits radix maxv acc [] = Some acc"
| "from_digits radix maxv acc (c # cs) =
     (case to_digit radix c of
        None \<Rightarrow> None
      | Some d \<Rightarrow> if maxv < acc * radix + d then None else from_digits radix maxv (acc * radix + d) cs)"

definition u8_from_str_radix :: "nat \<Rightarrow> string \<Rightarrow> u8 option" where
  "u8_from_str_radix radix s =
     (let digits = (case s of c # cs \<Rightarrow> if c = CHR ''+'' then cs else s | [] \<Rightarrow> [])
      in if digits = [] then None else map_option of_nat (from_digits radix 255 0 digits))"

text \<open>
  The address parser of \<open>std::net\<close>. A reader takes the remaining input and gives a value and
  what is left of it, or \<open>None\<close> with the input untouched (\<open>read_atomically\<close>).
\<close>

type_synonym 'a reader = "string \<Rightarrow> ('a \<times> string) option"

fun read_digits :: "nat \<Rightarrow> nat \<Rightarrow> nat \<Rightarrow> string \<Rightarrow> nat \<times> nat \<times> string" where
  "read_digits radix count acc [] = (count, acc, [])"
| "read_digits radix count acc (c # cs) =
     (case to_digit radix c of
        None \<Rightarrow> (count, acc, c # cs)
      | Some d \<Rightarrow> read_digits radix (Suc count) (acc * radix + d) cs)"

definition read_number :: "nat \<Rightarrow> nat \<Rightarrow> bool \<Rightarrow> nat \<Rightarrow> nat reader" where
  "read_number radix max_digits allow_zero_prefix maxv s =
     (let (count, v, rest) = read_digits radix 0 0 s
      in if count > max_digits \<or> count = 0 then None
         else if \<not> allow_zero_prefix \<and> hd s = CHR ''0'' \<and> count > 1 then None
         else if maxv < v then None
         else Some (v, rest))"

definition read_separator :: "char \<Rightarrow> nat \<Rightarrow> 'a reader \<Rightarrow> 'a reader" where
  "read_separator sep index inner s =
     (if index = 0 then inner s
      else case s of
        c # cs \<Rightarrow> if c = sep then inner cs else None
      | [] \<Rightarrow> None)"

fun read_octets :: "nat \<Rightarrow> nat \<Rightarrow> nat list reader" where
  "read_octets 0 i s = Some ([], s)"
| "read_octets (Suc k) i s =
     (case read_separator (CHR ''.'') i (read_number 10 3 False 255) s of
        None \<Rightarrow> None
      | Some (v, s') \<Rightarrow> map_option (\<lambda>(vs, r). (v # vs, r)) (read_octets k (Suc i) s'))"

definition read_ipv4_addr :: "nat list reader" where
  "read_ipv4_addr = read_octets 4 0"

text \<open>The groups read, whether an IPv4 tail was among them, and the rest; \<open>k\<close> slots are left.\<close>

fun read_groups :: "nat \<Rightarrow> nat \<Rightarrow> string \<Rightarrow> nat list \<times> bool \<times> string" where
  "read_groups 0 i s = ([], False, s)"
| "read_groups (Suc k) i s =
     (case (if k = 0 then None else read_separator (CHR '':'') i read_ipv4_addr s) of
        Some (os, s') \<Rightarrow> ([os ! 0 * 256 + os ! 1, os ! 2 * 256 + os ! 3], True, s')
      | None \<Rightarrow>
        (case read_separator (CHR '':'') i (read_number 16 4 True 65535) s of
           None \<Rightarrow> ([], False, s)
         | Some (g, s') \<Rightarrow>
             let (gs, v4, r) = read_groups k (Suc i) s' in (g # gs, v4, r)))"

definition ipv6_of_groups :: "nat list \<Rightarrow> ipv6_addr" where
  "ipv6_of_groups gs =
     (let w = (\<lambda>i. of_nat (gs ! i)) in Ipv6Addr (w 0) (w 1) (w 2) (w 3) (w 4) (w 5) (w 6) (w 7))"

definition read_ipv6_addr :: "ipv6_addr reader" where
  "read_ipv6_addr s =
     (case read_groups 8 0 s of
        (hs, head_ipv4, r) \<Rightarrow>
          if length hs = 8 then Some (ipv6_of_groups hs, r)
          else if head_ipv4 then None
          else if take 2 r = ''::'' then
            (case read_groups (8 - (length hs + 1)) 0 (drop 2 r) of
               (ts, _, r') \<Rightarrow>
                 Some (ipv6_of_groups (hs @ replicate (8 - length hs - length ts) 0 @ ts), r'))
          else None)"

definition parse_ipv6_addr :: "string \<Rightarrow> ipv6_addr option" where
  "parse_ipv6_addr s =
     (case read_ipv6_addr s of
        Some (a, r) \<Rightarrow> if r = [] then Some a else None
      | None \<Rightarrow> None)"

text \<open>\<open>str::split\<close> at every occurrence of a character.\<close>

fun split_at_char :: "char \<Rightarrow> string \<Rightarrow> string list" where
  "split_at_char c [] = [[]]"
| "split_at_char c (x # xs) =
     (if x = c then [] # split_at_char c xs
      else case split_at_char c xs of
        p # ps \<Rightarrow> (x # p) # ps
      | [] \<Rightarrow> [[x]])"

text \<open>\<open>str::contains("::")\<close>.\<close>

fun contains_double_colon :: "string \<Rightarrow> bool" where
  "contains_double_colon (a # b # cs) \<longleftrightarrow>
     a = CHR '':'' \<and> b = CHR '':'' \<or> contains_double_colon (b # cs)"
| "contains_double_colon _ \<longleftrightarrow> False"

text \<open>\<open>chars().next()\<close> on UTF-8 bytes: the code point of the first character.\<close>

definition utf8_first :: "string \<Rightarrow> nat option" where
  "utf8_first s =
     (case map byte s of
        [] \<Rightarrow> None
      | a # r \<Rightarrow>
          let cont = (\<lambda>i. (r ! i) mod 64)
          in if a < 128 then Some a
             else if a < 224 then Some ((a mod 32) * 64 + cont 0)
             else if a < 240 then Some ((a mod 16) * 4096 + cont 0 * 64 + cont 1)
             else Some ((a mod 8) * 262144 + cont 0 * 4096 + cont 1 * 64 + cont 2))"

section \<open>Literals\<close>

definition looks_like_ipv6 :: "string \<Rightarrow> bool" where
  "looks_like_ipv6 s \<longleftrightarrow>
     contains_double_colon s \<or> length (take 2 (filter (\<lambda>b. b = CHR '':'') s)) \<ge> 2"

definition looks_like_mac :: "string \<Rightarrow> bool" where
  "looks_like_mac s \<longleftrightarrow> length (take 6 (filter (\<lambda>b. b = CHR '':'') s)) = 5"

definition quoted :: "string \<Rightarrow> string" where
  "quoted s = CHR 0x27 # s @ [CHR 0x27]"

definition invalid_number :: "string \<Rightarrow> nat \<Rightarrow> string \<Rightarrow> error" where
  "invalid_number raw offset why =
     ParseError (''invalid number '' @ quoted raw @ '' at offset '' @ show_nat offset @ '': '' @ why)"

fun parse_int_digits :: "nat \<Rightarrow> (string \<Rightarrow> error) \<Rightarrow> nat \<Rightarrow> string \<Rightarrow> error + nat" where
  "parse_int_digits radix invalid n [] = Inr n"
| "parse_int_digits radix invalid n (c # cs) =
     (case to_digit radix c of
        None \<Rightarrow>
          Inl (invalid (if radix = 8 \<and> is_ascii_digit c then ''contains non-octal digit''
                        else ''contains invalid digit''))
      | Some d \<Rightarrow>
          let n' = n * radix + d
          in if n' > 4294967295 then Inl (invalid ''overflows 32 bits'')
             else parse_int_digits radix invalid n' cs)"

definition parse_int :: "string \<Rightarrow> nat \<Rightarrow> error + nat" where
  "parse_int raw offset =
     (let (digits, radix) =
            (if take 2 raw = ''0x'' \<or> take 2 raw = ''0X'' then (drop 2 raw, 16)
             else if take 1 raw = ''0'' \<and> drop 1 raw \<noteq> [] then (drop 1 raw, 8)
             else (raw, 10));
          invalid = invalid_number raw offset
      in if digits = [] then Inl (invalid ''expected digits'')
         else parse_int_digits radix invalid 0 digits)"

fun mac_parts :: "string list \<Rightarrow> u8 list option" where
  "mac_parts [] = Some []"
| "mac_parts (p # ps) =
     (case u8_from_str_radix 16 p of
        Some n \<Rightarrow> map_option (\<lambda>ns. n # ns) (mac_parts ps)
      | None \<Rightarrow> None)"

definition parse_mac :: "string \<Rightarrow> mac_addr option" where
  "parse_mac s =
     (let parts = split_at_char (CHR '':'') s
      in if length parts \<noteq> 6 then None
         else map_option (\<lambda>m. MacAddr (m ! 0) (m ! 1) (m ! 2) (m ! 3) (m ! 4) (m ! 5))
                (mac_parts parts))"

text \<open>The octets written, in order; more than four, or one that is not a \<open>u8\<close>, is an error.\<close>

fun ipv4_parts :: "nat \<Rightarrow> string list \<Rightarrow> u8 list option" where
  "ipv4_parts i [] = Some []"
| "ipv4_parts i (p # ps) =
     (if i < 4 then
        case u8_from_str_radix 10 p of
          Some n \<Rightarrow> map_option (\<lambda>ns. n # ns) (ipv4_parts (Suc i) ps)
        | None \<Rightarrow> None
      else None)"

definition parse_numlike :: "string \<Rightarrow> nat \<Rightarrow> error + token" where
  "parse_numlike raw offset =
     (if CHR ''.'' \<in> set raw then
        (case ipv4_parts 0 (split_at_char (CHR ''.'') raw) of
           Some ns \<Rightarrow>
             let octet = (\<lambda>i. if i < length ns then ns ! i else 0)
             in Inr (TIpv4 (octet 0) (octet 1) (octet 2) (octet 3) (length ns))
         | None \<Rightarrow>
             Inl (ParseError (''invalid IPv4 address '' @ quoted raw @ '' at offset '' @ show_nat offset)))
      else
        case (if looks_like_ipv6 raw then parse_ipv6_addr raw else None) of
          Some addr \<Rightarrow> Inr (TIpv6 addr)
        | None \<Rightarrow>
            (case (if looks_like_mac raw then parse_mac raw else None) of
               Some mac \<Rightarrow> Inr (TMac mac)
             | None \<Rightarrow> rbind (parse_int raw offset) (\<lambda>n. Inr (TNum n))))"

definition keyword_table :: "(string \<times> token) list" where
  "keyword_table =
    [(''and'', TAnd), (''or'', TOr), (''not'', TNot), (''src'', TSrc), (''dst'', TDst),
     (''host'', THost), (''net'', TNet), (''port'', TPort), (''portrange'', TPortRange),
     (''ether'', TEther), (''broadcast'', TBroadcast), (''multicast'', TMulticast),
     (''ip'', TIp), (''ip6'', TIp6), (''arp'', TArp), (''rarp'', TRarp), (''tcp'', TTcp),
     (''udp'', TUdp), (''icmp'', TIcmp), (''icmp6'', TIcmp6), (''igmp'', TIgmp),
     (''sctp'', TSctp), (''proto'', TProto), (''less'', TLess), (''greater'', TGreater),
     (''ah'', TAh), (''esp'', TEsp), (''pim'', TPim), (''igrp'', TIgrp), (''vrrp'', TVrrp),
     (''vlan'', TVlan), (''mpls'', TMpls), (''pppoed'', TPppoed), (''pppoes'', TPppoes),
     (''protochain'', TProtochain), (''inbound'', TInbound), (''outbound'', TOutbound),
     (''len'', TLen), (''mask'', TMask), (''gateway'', TGateway), (''tcpflags'', TNum 13),
     (''icmptype'', TNum 0), (''icmpcode'', TNum 1), (''icmp6type'', TNum 0),
     (''icmp6code'', TNum 1), (''tcp-fin'', TNum 1), (''tcp-syn'', TNum 2),
     (''tcp-rst'', TNum 4), (''tcp-push'', TNum 8), (''tcp-ack'', TNum 16),
     (''tcp-urg'', TNum 32), (''tcp-ece'', TNum 64), (''tcp-cwr'', TNum 128),
     (''icmp-echoreply'', TNum 0), (''icmp-unreach'', TNum 3), (''icmp-sourcequench'', TNum 4),
     (''icmp-redirect'', TNum 5), (''icmp-echo'', TNum 8), (''icmp-routeradvert'', TNum 9),
     (''icmp-routersolicit'', TNum 10), (''icmp-timxceed'', TNum 11),
     (''icmp-paramprob'', TNum 12), (''icmp-tstamp'', TNum 13), (''icmp-tstampreply'', TNum 14),
     (''icmp-ireq'', TNum 15), (''icmp-ireqreply'', TNum 16), (''icmp-maskreq'', TNum 17),
     (''icmp-maskreply'', TNum 18)]"

definition keyword_or_ident :: "string \<Rightarrow> token" where
  "keyword_or_ident s =
     (case map_of keyword_table s of
        Some t \<Rightarrow> t
      | None \<Rightarrow> TIdent s)"

section \<open>The scanner\<close>

definition two_char_op :: "char \<Rightarrow> char \<Rightarrow> token option" where
  "two_char_op a b =
     (if a = CHR ''!'' \<and> b = CHR ''='' then Some TNe
      else if a = CHR ''<'' \<and> b = CHR ''='' then Some TLe
      else if a = CHR ''>'' \<and> b = CHR ''='' then Some TGe
      else if a = CHR ''&'' \<and> b = CHR ''&'' then Some TAnd
      else if a = CHR ''|'' \<and> b = CHR ''|'' then Some TOr
      else if a = CHR ''<'' \<and> b = CHR ''<'' then Some TShl
      else if a = CHR ''>'' \<and> b = CHR ''>'' then Some TShr
      else None)"

definition one_char_ops :: "(char \<times> token) list" where
  "one_char_ops =
     [(CHR ''('', TLParen), (CHR '')'', TRParen), (CHR ''['', TLBracket), (CHR '']'', TRBracket),
      (CHR '':'', TColon), (CHR ''-'', TMinus), (CHR ''+'', TPlus), (CHR ''*'', TStar),
      (CHR ''/'', TSlash), (CHR ''%'', TPercent), (CHR ''|'', TPipe), (CHR ''^'', TCaret),
      (CHR ''&'', TAmp), (CHR ''!'', TBang), (CHR ''='', TEq), (CHR ''<'', TLt), (CHR ''>'', TGt)]"

text \<open>The characters an IPv6 candidate extends through: hex digits, colons and dots.\<close>

definition ipv6_char :: "char \<Rightarrow> bool" where
  "ipv6_char c \<longleftrightarrow> is_ascii_hexdigit c \<or> c = CHR '':'' \<or> c = CHR ''.''"

text \<open>A leading \<open>::\<close> may begin an IPv6 address; otherwise it is one colon.\<close>

definition lex_colon :: "string \<Rightarrow> token \<times> nat" where
  "lex_colon s =
     (if take 2 s = ''::'' then
        let candidate = takeWhile ipv6_char s
        in case parse_ipv6_addr candidate of
             Some addr \<Rightarrow> (TIpv6 addr, length candidate)
           | None \<Rightarrow> (TColon, 1)
      else (TColon, 1))"

text \<open>\<open>k\<close> segments \<open>:X\<close> or \<open>:XX\<close>: how many bytes they take.\<close>

fun mac_segments :: "nat \<Rightarrow> string \<Rightarrow> nat option" where
  "mac_segments 0 s = Some 0"
| "mac_segments (Suc k) [] = None"
| "mac_segments (Suc k) (c # cs) =
     (if c \<noteq> CHR '':'' then None
      else
        let w = length (takeWhile is_ascii_hexdigit cs)
        in if w = 0 \<or> w > 2 then None
           else map_option (\<lambda>n. 1 + w + n) (mac_segments k (drop w cs)))"

text \<open>A MAC address that starts with the digit-started word of \<open>n\<close> bytes.\<close>

definition lex_digit_mac :: "string \<Rightarrow> nat \<Rightarrow> (token \<times> nat) option" where
  "lex_digit_mac s n =
     (case mac_segments 5 (drop n s) of
        None \<Rightarrow> None
      | Some m \<Rightarrow>
          if take 1 (drop (n + m) s) = '':'' then None
          else map_option (\<lambda>mac. (TMac mac, n + m)) (parse_mac (take (n + m) s)))"

definition lex_digit_ipv6 :: "string \<Rightarrow> nat \<Rightarrow> (token \<times> nat) option" where
  "lex_digit_ipv6 s n =
     (let t = n + length (takeWhile ipv6_char (drop n s));
          candidate = take t s
      in if looks_like_ipv6 candidate
         then map_option (\<lambda>addr. (TIpv6 addr, t)) (parse_ipv6_addr candidate)
         else None)"

definition lex_number :: "string \<Rightarrow> nat \<Rightarrow> error + (token \<times> nat)" where
  "lex_number s pos =
     (let n = length (takeWhile (\<lambda>c. is_ascii_alphanumeric c \<or> c = CHR ''.'') s);
          colon = (take 1 (drop n s) = '':'')
      in case (if colon then lex_digit_mac s n else None) of
           Some r \<Rightarrow> Inr r
         | None \<Rightarrow>
             (case (if colon then lex_digit_ipv6 s n else None) of
                Some r \<Rightarrow> Inr r
              | None \<Rightarrow> rbind (parse_numlike (take n s) pos) (\<lambda>t. Inr (t, n))))"

text \<open>The length of a word: a hyphen belongs to it when a letter follows.\<close>

fun word_len :: "string \<Rightarrow> nat" where
  "word_len [] = 0"
| "word_len (c # cs) =
     (if is_ascii_alphanumeric c \<or> c = CHR ''_'' \<or> c = CHR '':'' \<or> c = CHR ''.'' \<or>
         (c = CHR ''-'' \<and> (case cs of d # _ \<Rightarrow> is_ascii_alphabetic d | [] \<Rightarrow> False))
      then Suc (word_len cs) else 0)"

definition lex_word :: "string \<Rightarrow> token \<times> nat" where
  "lex_word s =
     (let n = word_len s;
          word = take n s
      in case (if looks_like_ipv6 word then parse_ipv6_addr word else None) of
           Some addr \<Rightarrow> (TIpv6 addr, n)
         | None \<Rightarrow>
             (case (if looks_like_mac word then parse_mac word else None) of
                Some mac \<Rightarrow> (TMac mac, n)
              | None \<Rightarrow> (keyword_or_ident word, n)))"

definition lex_hex :: "string \<Rightarrow> nat \<Rightarrow> error + (token \<times> nat)" where
  "lex_hex s pos =
     (let n = 2 + length (takeWhile is_ascii_hexdigit (drop 2 s))
      in rbind (parse_int (take n s) pos) (\<lambda>v. Inr (TNum v, n)))"

text \<open>The part of an iteration that makes a token, at the first byte \<open>c\<close> of what is left.\<close>

definition lex_token :: "char \<Rightarrow> string \<Rightarrow> nat \<Rightarrow> error + (token \<times> nat)" where
  "lex_token c cs pos =
     (case (case cs of d # _ \<Rightarrow> two_char_op c d | [] \<Rightarrow> None) of
        Some t \<Rightarrow> Inr (t, 2)
      | None \<Rightarrow>
        (case map_of one_char_ops c of
           Some t \<Rightarrow> if c = CHR '':'' then Inr (lex_colon (c # cs)) else Inr (t, 1)
         | None \<Rightarrow>
             if c = CHR ''0'' \<and> (case cs of d # _ \<Rightarrow> d = CHR ''x'' \<or> d = CHR ''X'' | [] \<Rightarrow> False)
             then lex_hex (c # cs) pos
             else if is_ascii_digit c then lex_number (c # cs) pos
             else if is_ascii_alphabetic c \<or> c = CHR ''_'' then Inr (lex_word (c # cs))
             else Inl (LexError pos
                    (case utf8_first (c # cs) of Some v \<Rightarrow> v | None \<Rightarrow> byte (CHR ''?'')))))"


section \<open>What a token takes from the input\<close>

definition ascii :: "string \<Rightarrow> bool" where
  "ascii s \<longleftrightarrow> (\<forall>c\<in>set s. byte c < 128)"

lemma ascii_simps [simp]:
  "ascii []" "ascii (c # s) \<longleftrightarrow> byte c < 128 \<and> ascii s" "ascii (s @ t) \<longleftrightarrow> ascii s \<and> ascii t"
  by (auto simp: ascii_def)

named_theorems char_classes "character classes as ranges of codes"

lemmas [char_classes] = is_ascii_whitespace_def is_ascii_digit_def is_ascii_alphabetic_def
  is_ascii_alphanumeric_def is_ascii_hexdigit_def ipv6_char_def

text \<open>\<open>taken s n\<close>: a non-empty prefix of the input, of ASCII characters only.\<close>

definition taken :: "string \<Rightarrow> nat \<Rightarrow> bool" where
  "taken s n \<longleftrightarrow> 0 < n \<and> n \<le> length s \<and> ascii (take n s)"

lemma take_length_takeWhile [simp]: "take (length (takeWhile P s)) s = takeWhile P s"
  by (metis takeWhile_eq_take)

lemma ascii_takeWhile: "(\<And>c. P c \<Longrightarrow> byte c < 128) \<Longrightarrow> ascii (takeWhile P s)"
  by (auto simp: ascii_def dest: set_takeWhileD)

lemma class_ascii:
  "is_ascii_hexdigit c \<Longrightarrow> byte c < 128" "is_ascii_alphanumeric c \<Longrightarrow> byte c < 128"
  "ipv6_char c \<Longrightarrow> byte c < 128" "is_ascii_alphabetic c \<Longrightarrow> byte c < 128"
  "is_ascii_digit c \<Longrightarrow> byte c < 128" "is_ascii_whitespace c \<Longrightarrow> byte c < 128"
  by (auto simp: char_classes)

lemma two_char_op_ascii: "two_char_op a b = Some t \<Longrightarrow> byte a < 128 \<and> byte b < 128"
  by (auto simp: two_char_op_def split: if_splits)

lemma one_char_op_ascii: "map_of one_char_ops c = Some t \<Longrightarrow> byte c < 128"
  by (auto simp: one_char_ops_def split: if_splits)

lemma taken_takeWhile:
  assumes "P c" "\<And>c. P c \<Longrightarrow> byte c < 128"
  shows "taken (c # s) (length (takeWhile P (c # s)))"
  using assms ascii_takeWhile [of P "c # s"] length_takeWhile_le [of P s] unfolding taken_def
  by (simp add: takeWhile_eq_take [symmetric])

lemma taken_extend:
  assumes "taken s n" "m \<le> length (drop n s)" "ascii (take m (drop n s))"
  shows "taken s (n + m)"
  using assms by (auto simp: taken_def take_add)

lemma taken_extend_takeWhile:
  assumes "taken s n" "\<And>c. P c \<Longrightarrow> byte c < 128"
  shows "taken s (n + length (takeWhile P (drop n s)))"
  using assms length_takeWhile_le [of P "drop n s"]
  by (intro taken_extend) (simp_all add: ascii_takeWhile)

lemma lex_colon_taken: "lex_colon (CHR '':'' # s) = (t, n) \<Longrightarrow> taken (CHR '':'' # s) n"
  using taken_takeWhile [of ipv6_char "CHR '':''" s]
  by (auto simp: lex_colon_def Let_def class_ascii ipv6_char_def taken_def split: if_splits option.splits)

lemma mac_segments_taken:
  "mac_segments k s = Some n \<Longrightarrow> n \<le> length s \<and> ascii (take n s)"
proof (induction k s arbitrary: n rule: mac_segments.induct)
  case (3 k c cs)
  define w where "w = length (takeWhile is_ascii_hexdigit cs)"
  obtain m where c: "c = CHR '':''" and m: "mac_segments k (drop w cs) = Some m" and n: "n = 1 + w + m"
    using "3.prems" by (auto simp: Let_def w_def split: if_splits)
  have w: "w \<le> length cs" "ascii (take w cs)"
    by (auto simp: w_def length_takeWhile_le ascii_takeWhile class_ascii)
  have "m \<le> length (drop w cs) \<and> ascii (take m (drop w cs))"
    using "3.IH" c m w "3.prems" by (auto simp: Let_def w_def split: if_splits)
  then show ?case using n w c by (auto simp: take_add)
qed auto

lemma lex_digit_mac_taken:
  assumes "taken s n" "lex_digit_mac s n = Some (t, m)" shows "taken s m"
  using assms mac_segments_taken [of 5 "drop n s"]
  by (auto simp: lex_digit_mac_def intro!: taken_extend split: option.splits if_splits)

lemma lex_digit_ipv6_taken:
  assumes "taken s n" "lex_digit_ipv6 s n = Some (t, m)" shows "taken s m"
  using assms taken_extend_takeWhile [of s n ipv6_char]
  by (auto simp: lex_digit_ipv6_def Let_def class_ascii split: if_splits)

lemma lex_number_taken:
  assumes "is_ascii_digit c" "lex_number (c # s) pos = Inr (t, m)" shows "taken (c # s) m"
proof -
  let ?P = "\<lambda>c. is_ascii_alphanumeric c \<or> c = CHR ''.''"
  define n where "n = length (takeWhile ?P (c # s))"
  have n: "taken (c # s) n"
    unfolding n_def
    using assms(1) by (intro taken_takeWhile) (auto simp: is_ascii_alphanumeric_def class_ascii)
  from assms(2) have "lex_digit_mac (c # s) n = Some (t, m) \<or> lex_digit_ipv6 (c # s) n = Some (t, m) \<or> m = n"
    unfolding lex_number_def n_def Let_def
    by (auto simp: res_simps split: if_splits option.splits)
  then show ?thesis
    using n lex_digit_mac_taken lex_digit_ipv6_taken by blast
qed

lemma word_len_le: "word_len s \<le> length s"
  by (induction s) auto

lemma word_len_ascii: "ascii (take (word_len s) s)"
  by (induction s) (auto simp: class_ascii)

lemma lex_word_taken:
  assumes "is_ascii_alphabetic c \<or> c = CHR ''_''" "lex_word (c # s) = (t, n)"
  shows "taken (c # s) n"
proof -
  have "n = word_len (c # s)"
    using assms(2) by (auto simp: lex_word_def Let_def split: option.splits)
  then show ?thesis
    using assms(1) word_len_le [of s] word_len_ascii [of s]
    by (auto simp: taken_def is_ascii_alphanumeric_def class_ascii)
qed

lemma lex_hex_taken:
  assumes "byte c < 128" "byte d < 128" "lex_hex (c # d # s) pos = Inr (t, n)"
  shows "taken (c # d # s) n"
  using assms
  by (auto simp: lex_hex_def Let_def taken_def res_simps length_takeWhile_le ascii_takeWhile class_ascii)

lemma lex_token_taken:
  assumes "lex_token c cs pos = Inr (t, n)" shows "taken (c # cs) n"
proof -
  have two: "taken (c # d # ds) 2" if "two_char_op c d = Some t'" for d ds t'
    using two_char_op_ascii [OF that] by (simp add: taken_def)
  have one: "taken (c # cs) 1" if "map_of one_char_ops c = Some t'" for t'
    using one_char_op_ascii [OF that] by (simp add: taken_def)
  show ?thesis
    using assms two one lex_colon_taken [of cs] lex_number_taken [of c cs pos] lex_word_taken [of c cs]
      lex_hex_taken [of c "hd cs" "tl cs" pos]
    unfolding lex_token_def
    by (auto split: option.splits list.splits if_splits)
qed

corollary lex_token_consumes: "lex_token c cs pos = Inr (t, n) \<Longrightarrow> 0 < n"
  using lex_token_taken by (auto simp: taken_def)

function lex_loop :: "string \<Rightarrow> nat \<Rightarrow> error + spanned list" where
  "lex_loop [] pos = Inr []"
| "lex_loop (c # cs) pos =
     (if is_ascii_whitespace c then lex_loop cs (pos + 1)
      else
        rbind (lex_token c cs pos) (\<lambda>(t, n).
        rbind (lex_loop (drop n (c # cs)) (pos + n)) (\<lambda>ts.
        Inr (\<lparr>spanned_token = t, spanned_offset = pos\<rparr> # ts))))"
  by pat_completeness auto
termination
  by (relation "measure (\<lambda>(s, pos). length s)") (auto dest: lex_token_consumes)

definition lex :: "string \<Rightarrow> error + spanned list" where
  "lex src = lex_loop src 0"

end
