(* ===== verification/Lexer_Props.thy ===== *)
theory Lexer_Props
  imports Lexer
begin

text \<open>
  Facts about \<^verbatim>\<open>lexer.rs\<close>: where tokens sit in the source, what errors there are, the range
  of literals, the digits of numbers, and how words and operators scan.
\<close>

section \<open>Offsets, literals and errors\<close>

lemma parse_int_digits_bound:
  "parse_int_digits radix bad acc s = Inr n \<Longrightarrow> acc \<le> 4294967295 \<Longrightarrow> n \<le> 4294967295"
  by (induction s arbitrary: acc) (auto simp: Let_def split: option.splits if_splits)

lemma parse_int_bound: "parse_int s off = Inr n \<Longrightarrow> n \<le> 4294967295"
  by (auto simp: parse_int_def Let_def parse_int_digits_bound split: if_splits prod.splits)

text \<open>The literals the parser has to deal with: a number of 32 bits, two to four octets padded with zeros.\<close>

fun token_ok :: "token \<Rightarrow> bool" where
  "token_ok (TNum n) \<longleftrightarrow> n \<le> 4294967295"
| "token_ok (TIpv4 a b c d parts) \<longleftrightarrow>
     2 \<le> parts \<and> parts \<le> 4 \<and> (parts < 4 \<longrightarrow> d = 0) \<and> (parts < 3 \<longrightarrow> c = 0)"
| "token_ok (TIdent s) \<longleftrightarrow> s \<noteq> [] \<and> map_of keyword_table s = None"
| "token_ok _ \<longleftrightarrow> True"

lemma length_split_at_char: "length (split_at_char c s) = Suc (length (filter (\<lambda>x. x = c) s))"
  by (induction s) (auto split: list.splits)

lemma ipv4_parts_length: "ipv4_parts i ps = Some ns \<Longrightarrow> length ns = length ps \<and> (ps \<noteq> [] \<longrightarrow> i + length ps \<le> 4)"
  by (induction i ps arbitrary: ns rule: ipv4_parts.induct)
     (fastforce split: if_splits option.splits)+

lemma keyword_table_ok: "list_all (\<lambda>(w, t). token_ok t) keyword_table"
  by (simp add: keyword_table_def)

lemma keyword_or_ident_ok: "w \<noteq> [] \<Longrightarrow> token_ok (keyword_or_ident w)"
  using keyword_table_ok
  by (auto simp: keyword_or_ident_def list_all_iff dest!: map_of_SomeD split: option.splits)

lemma parse_numlike_ok: "parse_numlike raw off = Inr t \<Longrightarrow> token_ok t"
proof (cases "CHR ''.'' \<in> set raw")
  case True
  then have "length (split_at_char (CHR ''.'') raw) \<ge> 2"
    using filter_empty_conv [of "\<lambda>x. x = CHR ''.''" raw]
    by (auto simp: length_split_at_char Suc_le_eq)
  then show "parse_numlike raw off = Inr t \<Longrightarrow> token_ok t"
    using True ipv4_parts_length [of 0 "split_at_char (CHR ''.'') raw"]
    by (fastforce simp: parse_numlike_def Let_def split: option.splits)
qed (auto simp: parse_numlike_def res_simps parse_int_bound split: option.splits if_splits)

lemma two_char_op_ok: "two_char_op a b = Some t \<Longrightarrow> token_ok t"
  by (auto simp: two_char_op_def split: if_splits)

lemma one_char_op_ok: "map_of one_char_ops c = Some t \<Longrightarrow> token_ok t"
  by (auto simp: one_char_ops_def split: if_splits)

lemma lex_number_ok: "lex_number s pos = Inr (t, n) \<Longrightarrow> token_ok t"
  by (auto simp: lex_number_def lex_digit_mac_def lex_digit_ipv6_def Let_def res_simps parse_numlike_ok
      split: option.splits if_splits)

lemma lex_word_ok: "is_ascii_alphabetic c \<or> c = CHR ''_'' \<Longrightarrow> lex_word (c # s) = (t, n) \<Longrightarrow> token_ok t"
  by (auto simp: lex_word_def Let_def is_ascii_alphanumeric_def keyword_or_ident_ok split: option.splits)

lemma lex_token_ok: "lex_token c cs pos = Inr (t, n) \<Longrightarrow> token_ok t"
  unfolding lex_token_def using lex_word_ok [of c cs t n]
  by (auto simp: lex_colon_def lex_hex_def Let_def res_simps parse_int_bound
      dest: two_char_op_ok one_char_op_ok lex_number_ok
      split: option.splits list.splits if_splits)

text \<open>A byte at which no token begins.\<close>

definition no_token_start :: "char \<Rightarrow> bool" where
  "no_token_start c \<longleftrightarrow>
     \<not> is_ascii_whitespace c \<and> map_of one_char_ops c = None \<and> \<not> is_ascii_alphanumeric c \<and> c \<noteq> CHR ''_''"

lemma parse_int_digits_error:
  "parse_int_digits radix bad acc s = Inl e \<Longrightarrow> (\<And>w. \<exists>m. bad w = ParseError m) \<Longrightarrow> \<exists>m. e = ParseError m"
  by (induction s arbitrary: acc) (auto simp: Let_def split: option.splits if_splits)

lemma parse_int_error: "parse_int s off = Inl e \<Longrightarrow> \<exists>m. e = ParseError m"
  by (auto simp: parse_int_def Let_def invalid_number_def split: if_splits prod.splits
      dest!: parse_int_digits_error)

lemma parse_numlike_error: "parse_numlike s off = Inl e \<Longrightarrow> \<exists>m. e = ParseError m"
  by (auto simp: parse_numlike_def Let_def rbind_eq_Inl split: if_splits option.splits
      dest!: parse_int_error)

lemma lex_hex_error: "lex_hex s off = Inl e \<Longrightarrow> \<exists>m. e = ParseError m"
  by (auto simp: lex_hex_def Let_def rbind_eq_Inl dest!: parse_int_error)

lemma lex_number_error: "lex_number s off = Inl e \<Longrightarrow> \<exists>m. e = ParseError m"
  by (auto simp: lex_number_def Let_def rbind_eq_Inl split: option.splits dest!: parse_numlike_error)

lemma lex_token_error:
  assumes "lex_token c cs pos = Inl e" "\<not> is_ascii_whitespace c"
  shows "(\<exists>m. e = ParseError m) \<or>
    no_token_start c \<and> e = LexError pos (case utf8_first (c # cs) of Some v \<Rightarrow> v | None \<Rightarrow> byte (CHR ''?''))"
proof -
  have one: "map_of one_char_ops c = None"
    using assms by (auto simp: lex_token_def split: option.splits if_splits)
  have two: "(case cs of d # _ \<Rightarrow> two_char_op c d | [] \<Rightarrow> None) = None"
    using assms by (auto simp: lex_token_def split: option.splits)
  show ?thesis
    using assms one two lex_hex_error [of "c # cs" pos e] lex_number_error [of "c # cs" pos e]
    by (auto simp: lex_token_def no_token_start_def is_ascii_alphanumeric_def split: if_splits)
qed

section \<open>The loop\<close>

lemma lex_loop_spec:
  assumes "lex_loop s pos = Inr ts"
  shows "sorted_wrt (<) (map spanned_offset ts) \<and>
    (\<forall>t\<in>set ts. pos \<le> spanned_offset t \<and> spanned_offset t < pos + length s \<and> token_ok (spanned_token t))"
  using assms
proof (induction s pos arbitrary: ts rule: lex_loop.induct)
  case (2 c cs pos)
  show ?case
  proof (cases "is_ascii_whitespace c")
    case True
    then have "sorted_wrt (<) (map spanned_offset ts) \<and> (\<forall>t\<in>set ts. pos + 1 \<le> spanned_offset t \<and>
        spanned_offset t < pos + 1 + length cs \<and> token_ok (spanned_token t))"
      using "2.IH"(1) [OF True] "2.prems" by simp
    then show ?thesis by force
  next
    case False
    then obtain t n us where t: "lex_token c cs pos = Inr (t, n)"
      and us: "lex_loop (drop n (c # cs)) (pos + n) = Inr us"
      and ts: "ts = \<lparr>spanned_token = t, spanned_offset = pos\<rparr> # us"
      using "2.prems" by (auto simp: res_simps)
    have n: "0 < n" "n \<le> Suc (length cs)" using lex_token_taken [OF t] by (auto simp: taken_def)
    from "2.IH"(2) [OF False t _ us] lex_token_ok [OF t] show ?thesis
      using n unfolding ts by (fastforce simp: less_diff_conv)
  qed
qed simp

lemma lex_loop_error:
  assumes "lex_loop s pos = Inl e"
  shows "(\<exists>m. e = ParseError m) \<or>
    (\<exists>k<length s. no_token_start (s ! k) \<and> ascii (take k s) \<and>
       e = LexError (pos + k) (case utf8_first (drop k s) of Some v \<Rightarrow> v | None \<Rightarrow> byte (CHR ''?'')))"
  using assms
proof (induction s pos rule: lex_loop.induct)
  case (2 c cs pos)
  let ?E = "\<lambda>k s. case utf8_first (drop k s) of Some v \<Rightarrow> v | None \<Rightarrow> byte (CHR ''?'')"
  have shift: ?case
    if "0 < n" "n \<le> Suc (length cs)" "ascii (take n (c # cs))"
      and k: "k < length (drop n (c # cs))" "no_token_start (drop n (c # cs) ! k)"
        "ascii (take k (drop n (c # cs)))" "e = LexError (pos + n + k) (?E k (drop n (c # cs)))" for n k
    using that
    by (intro disjI2 exI [of _ "n + k"]) (auto simp: take_add add.assoc nth_append add.commute [of k n])
  show ?case
  proof (cases "is_ascii_whitespace c")
    case True
    then have "lex_loop cs (pos + 1) = Inl e" using "2.prems" by simp
    from "2.IH"(1) [OF True this] show ?thesis
      using shift [of 1] class_ascii(6) [OF True] by (auto simp: add.assoc)
  next
    case False
    then consider (here) "lex_token c cs pos = Inl e"
      | (later) t n where "lex_token c cs pos = Inr (t, n)" "lex_loop (drop n (c # cs)) (pos + n) = Inl e"
      using "2.prems" by (auto simp: rbind_eq_Inl)
    then show ?thesis
    proof cases
      case here
      from lex_token_error [OF here False] show ?thesis
        by (elim disjE) (auto intro!: exI [of _ "0 :: nat"])
    next
      case later
      have n: "0 < n" "n \<le> Suc (length cs)" "ascii (take n (c # cs))"
        using lex_token_taken [OF later(1)] by (auto simp: taken_def)
      from "2.IH"(2) [OF False later(1) _ later(2)] show ?thesis
        using shift [OF n] by auto
    qed
  qed
qed simp

section \<open>Numbers\<close>

lemma digit_char_all:
  "list_all (\<lambda>d. to_digit 16 (digit_char d) = Some d \<and> is_ascii_hexdigit (digit_char d) \<and>
      (d < 10 \<longrightarrow> is_ascii_digit (digit_char d)) \<and> (10 \<le> d \<longrightarrow> is_ascii_alphabetic (digit_char d)) \<and>
      (digit_char d = CHR ''0'' \<longrightarrow> d = 0)) [0, 1, 2, 3, 4, 5, 6, 7, 8, 9, 10, 11, 12, 13, 14, 15]"
  by (simp add: digit_char_def to_digit_def char_classes)

lemma digit_char_facts:
  assumes "d < 16"
  shows "to_digit 16 (digit_char d) = Some d" "is_ascii_hexdigit (digit_char d)"
    "d < 10 \<Longrightarrow> is_ascii_digit (digit_char d)" "10 \<le> d \<Longrightarrow> is_ascii_alphabetic (digit_char d)"
    "digit_char d = CHR ''0'' \<Longrightarrow> d = 0"
proof -
  have "d \<in> set [0, 1, 2, 3, 4, 5, 6, 7, 8, 9, 10, 11, 12, 13, 14, 15]" using assms by (simp, presburger)
  with digit_char_all show "to_digit 16 (digit_char d) = Some d" "is_ascii_hexdigit (digit_char d)"
    "d < 10 \<Longrightarrow> is_ascii_digit (digit_char d)" "10 \<le> d \<Longrightarrow> is_ascii_alphabetic (digit_char d)"
    "digit_char d = CHR ''0'' \<Longrightarrow> d = 0"
    unfolding list_all_iff by blast+
qed

lemma to_digit_digit_char:
  assumes "d < radix" "radix \<le> 16" shows "to_digit radix (digit_char d) = Some d"
  using digit_char_facts(1) [of d] assms by (auto simp: to_digit_def Let_def split: if_splits)

lemma show_base_small: "n < b \<Longrightarrow> show_base b n = [digit_char n]"
  by (simp add: show_base.simps)

lemma show_base_step:
  "2 \<le> b \<Longrightarrow> b \<le> n \<Longrightarrow> show_base b n = show_base b (n div b) @ [digit_char (n mod b)]"
  by (subst show_base.simps) simp

lemma show_base_induct [consumes 1, case_names small step]:
  assumes "2 \<le> b" and "\<And>n. n < b \<Longrightarrow> P n" and "\<And>n. b \<le> n \<Longrightarrow> P (n div b) \<Longrightarrow> P n"
  shows "P (n :: nat)"
proof (induction n rule: less_induct)
  case (less n)
  then show ?case
    using assms(1) by (cases "n < b") (auto intro: assms)
qed

lemma show_base_not_Nil [simp]: "show_base b n \<noteq> []"
  by (subst show_base.simps) simp

lemma digit_char_eq_0 [simp]: "d < 16 \<Longrightarrow> digit_char d = CHR ''0'' \<longleftrightarrow> d = 0"
  using digit_char_facts(5) by (auto simp: digit_char_def)

lemma hd_show_base:
  assumes "2 \<le> b" "b \<le> 16" shows "hd (show_base b n) = CHR ''0'' \<longleftrightarrow> n = 0"
  using assms(1)
proof (induction n rule: show_base_induct)
  case (step n)
  moreover have "n div b \<noteq> 0" using step assms by (simp add: div_eq_0_iff)
  ultimately show ?case using assms by (simp add: show_base_step)
qed (use assms in \<open>auto simp: show_base_small\<close>)

lemma parse_int_digits_append:
  "parse_int_digits r bad acc (s @ t) = rbind (parse_int_digits r bad acc s) (\<lambda>n. parse_int_digits r bad n t)"
  by (induction s arbitrary: acc) (auto simp: Let_def split: option.splits)

lemma parse_int_digits_show:
  assumes "2 \<le> b" "b \<le> 16"
  shows "n \<le> 4294967295 \<Longrightarrow> parse_int_digits b bad 0 (show_base b n) = Inr n"
  using assms(1)
proof (induction n rule: show_base_induct)
  case (small n)
  then show ?case using assms by (simp add: show_base_small to_digit_digit_char)
next
  case (step n)
  have "n div b \<le> 4294967295" using step.prems div_le_dividend [of n b] by linarith
  with step assms show ?case
    by (simp add: show_base_step parse_int_digits_append to_digit_digit_char)
qed

lemma from_digits_append:
  "from_digits r m acc (s @ t) = Option.bind (from_digits r m acc s) (\<lambda>n. from_digits r m n t)"
  by (induction s arbitrary: acc) (auto simp: Let_def split: option.splits)

lemma from_digits_show:
  assumes "2 \<le> b" "b \<le> 16"
  shows "n \<le> m \<Longrightarrow> from_digits b m 0 (show_base b n) = Some n"
  using assms(1)
proof (induction n rule: show_base_induct)
  case (small n)
  then show ?case using assms by (simp add: show_base_small to_digit_digit_char)
next
  case (step n)
  have "n div b \<le> m" using step.prems div_le_dividend [of n b] by linarith
  with step assms show ?case
    by (simp add: show_base_step from_digits_append to_digit_digit_char)
qed

lemma set_show_base:
  assumes "2 \<le> b" shows "set (show_base b n) \<subseteq> digit_char ` {..<b}"
  using assms
proof (induction n rule: show_base_induct)
  case (step n)
  then show ?case using assms by (simp add: show_base_step)
qed (auto simp: show_base_small)

lemma show_nat_digits: "c \<in> set (show_nat n) \<Longrightarrow> is_ascii_digit c"
  using set_show_base [of 10 n] digit_char_facts(3) by (force simp: show_nat_def)

lemma parse_int_decimal: "n \<le> 4294967295 \<Longrightarrow> parse_int (show_nat n) off = Inr n"
proof -
  assume n: "n \<le> 4294967295"
  have no_x: "take 2 (show_nat n) \<noteq> ''0x''" "take 2 (show_nat n) \<noteq> ''0X''"
  proof -
    have "CHR ''x'' \<notin> set (show_nat n)" "CHR ''X'' \<notin> set (show_nat n)"
      using show_nat_digits by (fastforce simp: is_ascii_digit_def)+
    then show "take 2 (show_nat n) \<noteq> ''0x''" "take 2 (show_nat n) \<noteq> ''0X''"
      by (metis in_set_takeD list.set_intros)+
  qed
  have zero: "drop 1 (show_nat n) = []" if "take 1 (show_nat n) = ''0''"
  proof -
    have "hd (show_nat n) = CHR ''0''" using that by (cases "show_nat n") auto
    then have "n = 0" using hd_show_base [of 10 n] by (simp add: show_nat_def)
    then show ?thesis by (simp add: show_nat_def show_base_small)
  qed
  show ?thesis
    using no_x zero parse_int_digits_show [of 10 n] n
    by (auto simp: parse_int_def Let_def show_nat_def)
qed

lemma parse_int_hex: "n \<le> 4294967295 \<Longrightarrow> parse_int (''0x'' @ show_base 16 n) off = Inr n"
  by (simp add: parse_int_def parse_int_digits_show)

lemma parse_int_octal:
  assumes "n \<le> 4294967295" shows "parse_int (''0'' @ show_base 8 n) off = Inr n"
proof -
  have "hd (show_base 8 n) \<in> digit_char ` {..<8}"
    using set_show_base [of 8 n] hd_in_set [of "show_base 8 n"] by auto
  then have "is_ascii_digit (hd (show_base 8 n))" using digit_char_facts(3) by auto
  then have "hd (show_base 8 n) \<noteq> CHR ''x''" "hd (show_base 8 n) \<noteq> CHR ''X''"
    by (auto simp: is_ascii_digit_def)
  moreover obtain c cs where "show_base 8 n = c # cs"
    using show_base_not_Nil [of 8 n] by (meson neq_Nil_conv)
  ultimately show ?thesis
    using parse_int_digits_show [of 8 n "invalid_number (CHR ''0'' # show_base 8 n) off"] assms
    by (simp add: parse_int_def Let_def del: parse_int_digits.simps)
qed

section \<open>Writing tokens\<close>

fun join_chars :: "char \<Rightarrow> string list \<Rightarrow> string" where
  "join_chars c [] = []"
| "join_chars c [p] = p"
| "join_chars c (p # q # ps) = p @ c # join_chars c (q # ps)"

definition op_table :: "(string \<times> token) list" where
  "op_table = map (\<lambda>(c, t). ([c], t)) one_char_ops @
     [(''!='', TNe), (''<='', TLe), (''>='', TGe), (''&&'', TAnd), (''||'', TOr), (''<<'', TShl),
      (''>>'', TShr)]"

text \<open>Words: a letter or underscore, then letters, digits, underscores, and hyphens before letters.\<close>

definition wordlike :: "string \<Rightarrow> bool" where
  "wordlike w \<longleftrightarrow> w \<noteq> [] \<and> (is_ascii_alphabetic (hd w) \<or> hd w = CHR ''_'') \<and> word_len w = length w \<and>
     CHR '':'' \<notin> set w"

text \<open>\<open>w\<close> followed by white space scans as the token \<open>t\<close>.\<close>

definition scans :: "string \<Rightarrow> token \<Rightarrow> bool" where
  "scans w t \<longleftrightarrow> w \<noteq> [] \<and> \<not> is_ascii_whitespace (hd w) \<and>
     (\<forall>b rest pos. is_ascii_whitespace b \<longrightarrow>
        lex_token (hd w) (tl w @ b # rest) pos = Inr (t, length w))"

lemma space_classes:
  assumes "is_ascii_whitespace b"
  shows "\<not> is_ascii_alphanumeric b" "\<not> is_ascii_alphabetic b" "\<not> is_ascii_hexdigit b" "\<not> is_ascii_digit b"
    "b \<notin> set ''_:.-=<>&|xX''"
  using assms by (auto simp: char_classes)

lemma word_len_space:
  assumes "is_ascii_whitespace b"
  shows "word_len w = length w \<Longrightarrow> word_len (w @ b # rest) = length w"
proof (induction w)
  case Nil
  then show ?case using space_classes [OF assms] by simp
next
  case (Cons c w)
  then have len: "word_len w = length w" by (simp split: if_splits)
  show ?case
    using Cons.prems Cons.IH [OF len] by (cases w) (auto split: if_splits)
qed

lemma operator_not_alnum: "map_of one_char_ops c = Some t \<Longrightarrow> \<not> is_ascii_alphanumeric c \<and> c \<noteq> CHR ''_''"
  by (auto simp: one_char_ops_def char_classes split: if_splits)

lemma two_operator_not_alnum: "two_char_op c d = Some t \<Longrightarrow> \<not> is_ascii_alphanumeric c \<and> c \<noteq> CHR ''_''"
  by (auto simp: two_char_op_def char_classes split: if_splits)

lemma no_op_alnum:
  assumes "is_ascii_alphanumeric c \<or> c = CHR ''_''"
  shows "map_of one_char_ops c = None" "two_char_op c d = None" "\<not> is_ascii_whitespace c"
proof -
  show "map_of one_char_ops c = None" using operator_not_alnum [of c] assms by (cases "map_of one_char_ops c") auto
  show "two_char_op c d = None" using two_operator_not_alnum [of c d] assms by (cases "two_char_op c d") auto
  show "\<not> is_ascii_whitespace c" using space_classes [of c] assms by auto
qed

lemma no_colon_literals:
  assumes "CHR '':'' \<notin> set w" shows "\<not> looks_like_ipv6 w" "\<not> looks_like_mac w"
proof -
  have "filter (\<lambda>b. b = CHR '':'') w = []" using assms by (auto simp: filter_empty_conv)
  moreover have "\<not> contains_double_colon w"
    using assms by (induction w rule: contains_double_colon.induct) auto
  ultimately show "\<not> looks_like_ipv6 w" "\<not> looks_like_mac w"
    by (auto simp: looks_like_ipv6_def looks_like_mac_def)
qed

lemma two_char_none:
  "(\<And>d. two_char_op c d = None) \<Longrightarrow> (case s of d # _ \<Rightarrow> two_char_op c d | [] \<Rightarrow> None) = None"
  by (cases s) simp_all

lemma scans_word:
  assumes "wordlike w" shows "scans w (keyword_or_ident w)"
proof -
  obtain c cs where w: "w = c # cs" using assms by (cases w) (auto simp: wordlike_def)
  have c: "is_ascii_alphabetic c \<or> c = CHR ''_''" and len: "word_len w = length w"
    and colon: "CHR '':'' \<notin> set w" using assms w by (auto simp: wordlike_def)
  have an: "is_ascii_alphanumeric c \<or> c = CHR ''_''" using c by (auto simp: is_ascii_alphanumeric_def)
  have digit: "\<not> is_ascii_digit c" "c \<noteq> CHR ''0''" using c by (auto simp: char_classes)
  have "lex_word (w @ b # rest) = (keyword_or_ident w, length w)" if "is_ascii_whitespace b" for b rest
    using no_colon_literals [OF colon] by (simp add: lex_word_def Let_def word_len_space [OF that len])
  then have "lex_token c (cs @ b # rest) pos = Inr (keyword_or_ident w, length w)"
    if "is_ascii_whitespace b" for b rest pos
    unfolding lex_token_def using that digit c w
    by (simp add: no_op_alnum [OF an] two_char_none)
  then show ?thesis
    using w no_op_alnum(3) [OF an] by (simp add: scans_def)
qed

lemma keyword_table_words: "list_all (\<lambda>(w, t). wordlike w) keyword_table"
  by (simp add: keyword_table_def wordlike_def char_classes)

lemma keyword_table_distinct: "distinct (map fst keyword_table)"
  by (simp add: keyword_table_def)

lemma scans_keyword: "(w, t) \<in> set keyword_table \<Longrightarrow> scans w t"
  using scans_word [of w] keyword_table_words keyword_table_distinct
  by (auto simp: list_all_iff keyword_or_ident_def map_of_eq_Some_iff split: option.splits)

lemma scans_ident: "wordlike w \<Longrightarrow> map_of keyword_table w = None \<Longrightarrow> scans w (TIdent w)"
  using scans_word [of w] by (simp add: keyword_or_ident_def)

lemma scans_operator:
  assumes "(w, t) \<in> set op_table" shows "scans w t"
proof -
  have "lex_token (hd w) (tl w @ b # rest) pos = Inr (t, length w)" if "is_ascii_whitespace b" for b rest pos
    using assms space_classes(5) [OF that]
    by (auto simp: op_table_def one_char_ops_def lex_token_def two_char_op_def lex_colon_def)
  moreover have "w \<noteq> [] \<and> \<not> is_ascii_whitespace (hd w)"
    using assms by (auto simp: op_table_def one_char_ops_def is_ascii_whitespace_def)
  ultimately show ?thesis by (simp add: scans_def)
qed

end
