(* ===== verification/Lexer_Roundtrip.thy ===== *)
theory Lexer_Roundtrip
  imports Lexer_Props
begin

text \<open>
  Writing tokens down and scanning them gives them back: numbers in the three radices, dotted IPv4
  addresses, MAC and IPv6 addresses in groups of hexadecimal digits, words and operators. The
  properties of \<^verbatim>\<open>lexer.rs\<close> are at the end.
\<close>

section \<open>Numbers and dotted addresses\<close>

lemma takeWhile_stop:
  assumes "\<forall>c\<in>set w. P c" "\<not> P b" shows "takeWhile P (w @ b # rest) = w"
  using assms by (simp add: takeWhile_append2 takeWhile_tail)

lemma scans_numlike:
  assumes w: "w \<noteq> []" "is_ascii_digit (hd w)" "\<forall>c\<in>set w. is_ascii_alphanumeric c \<or> c = CHR ''.''"
    "take 2 w \<noteq> ''0x''" "take 2 w \<noteq> ''0X''"
    and parse: "\<And>pos. parse_numlike w pos = Inr t"
  shows "scans w t"
proof -
  obtain c cs where cs: "w = c # cs" using w(1) by (cases w) auto
  have an: "is_ascii_alphanumeric c \<or> c = CHR ''_''" using w(2) cs by (simp add: is_ascii_alphanumeric_def)
  have "lex_token c (cs @ b # rest) pos = Inr (t, length w)" if b: "is_ascii_whitespace b" for b rest pos
  proof -
    have stop: "takeWhile (\<lambda>c. is_ascii_alphanumeric c \<or> c = CHR ''.'') (w @ b # rest) = w"
      using w(3) space_classes [OF b] by (intro takeWhile_stop) auto
    have num: "lex_number (w @ b # rest) pos = Inr (t, length w)"
      using space_classes(5) [OF b] by (simp add: lex_number_def Let_def stop parse)
    have not_hex: "\<not> (c = CHR ''0'' \<and> (case cs @ b # rest of d # _ \<Rightarrow> d = CHR ''x'' \<or> d = CHR ''X'' | [] \<Rightarrow> False))"
      using w(4,5) cs space_classes(5) [OF b] by (cases cs) auto
    show ?thesis
      unfolding lex_token_def using w(2) cs num not_hex
      by (auto simp: no_op_alnum [OF an] two_char_none)
  qed
  then show ?thesis using cs no_op_alnum(3) [OF an] by (simp add: scans_def)
qed

lemma parse_numlike_int:
  assumes "CHR ''.'' \<notin> set w" "CHR '':'' \<notin> set w" "parse_int w pos = Inr n"
  shows "parse_numlike w pos = Inr (TNum n)"
  using assms no_colon_literals [of w] by (simp add: parse_numlike_def)

lemma digit_string_facts:
  assumes "\<forall>c\<in>set w. is_ascii_digit c"
  shows "\<forall>c\<in>set w. is_ascii_alphanumeric c \<or> c = CHR ''.''" "take 2 w \<noteq> ''0x''" "take 2 w \<noteq> ''0X''"
    "CHR ''.'' \<notin> set w" "CHR '':'' \<notin> set w"
proof -
  have none: "CHR ''x'' \<notin> set w" "CHR ''X'' \<notin> set w" "CHR ''.'' \<notin> set w" "CHR '':'' \<notin> set w"
    using assms by (auto simp: is_ascii_digit_def)
  then show "CHR ''.'' \<notin> set w" "CHR '':'' \<notin> set w" by auto
  show "take 2 w \<noteq> ''0x''" "take 2 w \<noteq> ''0X''"
    using none by (metis in_set_takeD list.set_intros)+
qed (use assms in \<open>simp add: is_ascii_alphanumeric_def\<close>)

lemma scans_digits:
  assumes "w \<noteq> []" "\<forall>c\<in>set w. is_ascii_digit c" "\<And>pos. parse_int w pos = Inr n"
  shows "scans w (TNum n)"
  using assms by (intro scans_numlike parse_numlike_int digit_string_facts) auto

lemma scans_decimal: "n \<le> 4294967295 \<Longrightarrow> scans (show_nat n) (TNum n)"
  using show_nat_digits parse_int_decimal by (intro scans_digits) (auto simp: show_nat_def)

lemma scans_octal: "n \<le> 4294967295 \<Longrightarrow> scans (''0'' @ show_base 8 n) (TNum n)"
proof (rule scans_digits)
  show "\<forall>c\<in>set (''0'' @ show_base 8 n). is_ascii_digit c"
    using set_show_base [of 8 n] digit_char_facts(3) by (force simp: is_ascii_digit_def)
qed (use parse_int_octal in auto)

lemma scans_hex:
  assumes "n \<le> 4294967295" shows "scans (''0x'' @ show_base 16 n) (TNum n)"
proof -
  let ?h = "show_base 16 n"
  have "lex_token (CHR ''0'') ((CHR ''x'' # ?h) @ b # rest) pos = Inr (TNum n, 2 + length ?h)"
    if b: "is_ascii_whitespace b" for b rest pos
  proof -
    have "takeWhile is_ascii_hexdigit (?h @ b # rest) = ?h"
      using set_show_base [of 16 n] digit_char_facts(2) space_classes [OF b] by (intro takeWhile_stop) force+
    then have "lex_hex (''0x'' @ ?h @ b # rest) pos = Inr (TNum n, 2 + length ?h)"
      using parse_int_hex [OF assms] by (simp add: lex_hex_def)
    then show ?thesis by (simp add: lex_token_def two_char_op_def one_char_ops_def)
  qed
  then show ?thesis by (simp add: scans_def is_ascii_whitespace_def)
qed

lemma split_at_char_not_Nil [simp]: "split_at_char c s \<noteq> []"
  by (metis length_split_at_char list.size(3) nat.distinct(1))

lemma show_nat_no_dot: "CHR ''.'' \<notin> set (show_nat n)"
  using show_nat_digits [of "CHR ''.''" n] by (auto simp: is_ascii_digit_def)

lemma split_join:
  assumes "ps \<noteq> []" "\<forall>p\<in>set ps. c \<notin> set p" shows "split_at_char c (join_chars c ps) = ps"
proof -
  have head: "split_at_char c (p @ s) = (p @ hd (split_at_char c s)) # tl (split_at_char c s)"
    if "c \<notin> set p" for c p s
    using that by (induction p) auto
  show ?thesis
    using assms
  proof (induction c ps rule: join_chars.induct)
    case (2 c p)
    then show ?case using head [of c p "[]"] by auto
  next
    case (3 c p q ps)
    then show ?case using head [of c p "c # join_chars c (q # ps)"] by simp
  qed simp
qed

lemma u8_show: "u8_from_str_radix 10 (show_nat (unat a)) = Some a"
proof -
  have "hd (show_nat (unat a)) \<noteq> CHR ''+''"
    using show_nat_digits [of "hd (show_nat (unat a))" "unat a"]
    by (auto simp: is_ascii_digit_def show_nat_def)
  moreover obtain c cs where "show_nat (unat a) = c # cs"
    by (metis neq_Nil_conv show_base_not_Nil show_nat_def)
  moreover have "from_digits 10 255 0 (show_nat (unat a)) = Some (unat a)"
    using from_digits_show [of 10 "unat a" 255] unat_u8_less [of a] by (simp add: show_nat_def)
  ultimately show ?thesis by (simp add: u8_from_str_radix_def del: from_digits.simps)
qed

lemma ipv4_parts_show:
  "i + length ws \<le> 4 \<Longrightarrow> ipv4_parts i (map (\<lambda>a. show_nat (unat a)) ws) = Some ws"
  by (induction ws arbitrary: i) (auto simp: u8_show)

lemma set_join_chars: "set (join_chars c ps) \<subseteq> insert c (\<Union> (set ` set ps))"
  by (induction c ps rule: join_chars.induct) auto

lemma scans_dotted:
  assumes "2 \<le> parts" "parts \<le> 4" "parts < 4 \<longrightarrow> d = 0" "parts < 3 \<longrightarrow> c = 0"
  shows "scans (join_chars (CHR ''.'') (map (\<lambda>a. show_nat (unat a)) (take parts [a, b, c, d])))
    (TIpv4 a b c d parts)"
proof -
  let ?ws = "take parts [a, b, c, d]"
  let ?ps = "map (\<lambda>a. show_nat (unat a)) ?ws"
  let ?w = "join_chars (CHR ''.'') ?ps"
  have ws: "length ?ws = parts" using assms by simp
  consider "parts = 2" | "parts = 3" | "parts = 4" using assms by linarith
  then have tok: "TIpv4 a b c d parts = (let octet = (\<lambda>i. if i < length ?ws then ?ws ! i else 0)
      in TIpv4 (octet 0) (octet 1) (octet 2) (octet 3) (length ?ws))"
    and dot: "CHR ''.'' \<in> set ?w" and hd: "?w = show_nat (unat a) @ CHR ''.'' # drop (Suc (length (show_nat (unat a)))) ?w"
    using assms(3,4) by (cases; simp)+
  have split: "split_at_char (CHR ''.'') ?w = ?ps"
    using ws assms(1) by (intro split_join) (auto simp: show_nat_no_dot)
  have chars: "\<forall>c\<in>set ?w. is_ascii_digit c \<or> c = CHR ''.''"
    using set_join_chars [of "CHR ''.''" ?ps] show_nat_digits by fastforce
  have none: "CHR ''x'' \<notin> set ?w" "CHR ''X'' \<notin> set ?w" using chars by (auto simp: is_ascii_digit_def)
  show ?thesis
  proof (rule scans_numlike)
    show "is_ascii_digit (hd ?w)"
      using show_nat_digits [of "hd (show_nat (unat a))" "unat a"]
      by (subst hd) (simp add: show_nat_def hd_append)
    show "?w \<noteq> []" by (subst hd) simp
    show "\<forall>c\<in>set ?w. is_ascii_alphanumeric c \<or> c = CHR ''.''"
      using chars by (auto simp: is_ascii_alphanumeric_def)
    show "take 2 ?w \<noteq> ''0x''" "take 2 ?w \<noteq> ''0X''"
      using none by (metis in_set_takeD list.set_intros)+
    show "parse_numlike ?w pos = Inr (TIpv4 a b c d parts)" for pos
      using dot ws assms(2) ipv4_parts_show [of 0 ?ws]
      by (subst tok) (simp add: parse_numlike_def split Let_def)
  qed
qed

section \<open>Colon-separated literals\<close>

definition hex_groups :: "nat list \<Rightarrow> string" where
  "hex_groups gs = join_chars (CHR '':'') (map (show_base 16) gs)"

definition colon_tail :: "nat list \<Rightarrow> string" where
  "colon_tail gs = concat (map (\<lambda>g. CHR '':'' # show_base 16 g) gs)"

lemma colon_tail_simps [simp]:
  "colon_tail [] = []" "colon_tail (g # gs) = CHR '':'' # show_base 16 g @ colon_tail gs"
  by (simp_all add: colon_tail_def)

lemma hex_groups_Cons: "hex_groups (g # gs) = show_base 16 g @ colon_tail gs"
proof -
  have "join_chars c (p # ps) = p @ concat (map (\<lambda>q. c # q) ps)" for c p ps
    by (induction ps arbitrary: p) auto
  then show ?thesis by (simp add: hex_groups_def colon_tail_def comp_def)
qed

lemma hex_string: "c \<in> set (show_base 16 g) \<Longrightarrow> is_ascii_hexdigit c"
  using set_show_base [of 16 g] digit_char_facts(2) by force

lemma hexdigit_not_punct: "is_ascii_hexdigit c \<Longrightarrow> c \<notin> set '':.+_-xX''"
  by (auto simp: char_classes)

lemma hexdigit_alnum: "is_ascii_hexdigit c \<Longrightarrow> is_ascii_alphanumeric c"
  by (auto simp: char_classes)

lemma hex_string_no_colon: "CHR '':'' \<notin> set (show_base 16 g)" "CHR ''.'' \<notin> set (show_base 16 g)"
  using hex_string hexdigit_not_punct by fastforce+

lemma split_hex_groups: "gs \<noteq> [] \<Longrightarrow> split_at_char (CHR '':'') (hex_groups gs) = map (show_base 16) gs"
  unfolding hex_groups_def by (intro split_join) (auto simp: hex_string_no_colon)

lemma colons_hex_groups:
  "gs \<noteq> [] \<Longrightarrow> length (filter (\<lambda>b. b = CHR '':'') (hex_groups gs)) = length gs - 1"
  using length_split_at_char [of "CHR '':''" "hex_groups gs"] by (simp add: split_hex_groups)

lemma set_colon_tail: "c \<in> set (colon_tail gs) \<Longrightarrow> is_ascii_hexdigit c \<or> c = CHR '':''"
  by (induction gs) (auto dest: hex_string)

lemma hex_groups_Nil [simp]: "hex_groups [] = []"
  by (simp add: hex_groups_def)

lemma set_hex_groups: "c \<in> set (hex_groups gs) \<Longrightarrow> is_ascii_hexdigit c \<or> c = CHR '':''"
  by (cases gs) (auto simp: hex_groups_Cons dest: hex_string set_colon_tail)

lemma takeWhile_hex:
  assumes "z = [] \<or> \<not> P (hd z)" "\<And>c. is_ascii_hexdigit c \<Longrightarrow> P c"
  shows "takeWhile P (show_base 16 g @ z) = show_base 16 g"
  using assms hex_string by (cases z) (auto simp: takeWhile_append2 takeWhile_tail)

text \<open>Medium access addresses: six groups of at most two digits.\<close>

lemma length_show_base: "n < b ^ Suc k \<Longrightarrow> 2 \<le> b \<Longrightarrow> length (show_base b n) \<le> Suc k"
proof (induction k arbitrary: n)
  case (Suc k)
  then have "n div b < b ^ Suc k" by (simp add: less_mult_imp_div_less mult.commute)
  with Suc show ?case
    by (cases "n < b") (simp_all add: show_base_small show_base_step)
qed (simp add: show_base_small)

lemma mac_segments_tail:
  assumes "\<forall>g\<in>set gs. g < 256" "z = [] \<or> \<not> is_ascii_hexdigit (hd z)"
  shows "mac_segments (length gs) (colon_tail gs @ z) = Some (length (colon_tail gs))"
  using assms(1)
proof (induction gs)
  case (Cons g gs)
  have "colon_tail gs @ z = [] \<or> \<not> is_ascii_hexdigit (hd (colon_tail gs @ z))"
    using assms(2) by (cases gs) (auto simp: char_classes)
  then have "takeWhile is_ascii_hexdigit (show_base 16 g @ colon_tail gs @ z) = show_base 16 g"
    by (intro takeWhile_hex) auto
  moreover have "length (show_base 16 g) \<le> 2"
    using Cons.prems length_show_base [of g 16 1] by simp
  ultimately show ?case using Cons by (simp add: Let_def)
qed simp

lemma mac_segments_more:
  "k < length gs \<Longrightarrow> mac_segments k (colon_tail gs @ z) = Some m \<Longrightarrow>
     take 1 (drop m (colon_tail gs @ z)) = '':''"
proof (induction k arbitrary: gs m)
  case 0
  then show ?case by (cases gs) auto
next
  case (Suc k)
  then obtain g hs where gs: "gs = g # hs" "k < length hs" by (cases gs) auto
  then have "takeWhile is_ascii_hexdigit (show_base 16 g @ colon_tail hs @ z) = show_base 16 g"
    by (intro takeWhile_hex) (cases hs; simp add: char_classes)+
  with Suc.prems gs obtain n where "mac_segments k (colon_tail hs @ z) = Some n"
    "m = 1 + length (show_base 16 g) + n"
    by (auto simp: Let_def split: if_splits)
  with Suc.IH [OF gs(2)] gs(1) show ?case by simp
qed

lemma mac_parts_show: "\<forall>g\<in>set gs. g < 256 \<Longrightarrow> mac_parts (map (show_base 16) gs) = Some (map of_nat gs)"
proof (induction gs)
  case (Cons g gs)
  have "hd (show_base 16 g) \<noteq> CHR ''+''"
    using hexdigit_not_punct [OF hex_string [of "hd (show_base 16 g)" g]] by auto
  moreover obtain c cs where "show_base 16 g = c # cs" using show_base_not_Nil by (meson neq_Nil_conv)
  moreover have "from_digits 16 255 0 (show_base 16 g) = Some g"
    using from_digits_show [of 16 g 255] Cons.prems by simp
  ultimately have "u8_from_str_radix 16 (show_base 16 g) = Some (of_nat g)"
    by (simp add: u8_from_str_radix_def del: from_digits.simps)
  then show ?case using Cons by simp
qed simp

fun mac_groups :: "mac_addr \<Rightarrow> nat list" where
  "mac_groups (MacAddr a b c d e f) = [unat a, unat b, unat c, unat d, unat e, unat f]"

lemma mac_groups_facts: "length (mac_groups m) = 6" "\<forall>g\<in>set (mac_groups m). g < 256"
  by (cases m; auto simp: unat_u8_less)+

lemma parse_mac_groups: "parse_mac (hex_groups (mac_groups m)) = Some m"
proof -
  have ne: "mac_groups m \<noteq> []" using mac_groups_facts(1) [of m] by auto
  have "parse_mac (hex_groups (mac_groups m)) =
      (let ns = map of_nat (mac_groups m) in Some (MacAddr (ns ! 0) (ns ! 1) (ns ! 2) (ns ! 3) (ns ! 4) (ns ! 5)))"
    using mac_parts_show [OF mac_groups_facts(2)] mac_groups_facts(1) [of m]
    by (simp add: parse_mac_def split_hex_groups [OF ne] Let_def)
  then show ?thesis by (cases m) (simp add: Let_def)
qed

section \<open>IPv6 groups\<close>

lemma read_digits_append:
  "read_digits r count acc (s @ t) =
     (case read_digits r count acc s of
        (c, a, []) \<Rightarrow> read_digits r c a t
      | (c, a, u) \<Rightarrow> (c, a, u @ t))"
  by (induction s arbitrary: count acc) (auto split: option.splits)

lemma read_digits_show: "read_digits 16 0 0 (show_base 16 n) = (length (show_base 16 n), n, [])"
proof -
  have "(2 :: nat) \<le> 16" by simp
  then show ?thesis
  proof (induction n rule: show_base_induct)
    case (small n)
    then show ?case by (simp add: show_base_small to_digit_digit_char)
  next
    case (step n)
    then show ?case by (simp add: show_base_step read_digits_append to_digit_digit_char)
  qed
qed

lemma read_number_hex:
  assumes "g \<le> 65535" "z = [] \<or> hd z = CHR '':''"
  shows "read_number 16 4 True 65535 (show_base 16 g @ z) = Some (g, z)"
proof -
  have "read_digits 16 c g z = (c, g, z)" for c
    using assms(2) by (cases z) (auto simp: to_digit_def is_ascii_digit_def)
  moreover have "length (show_base 16 g) \<le> 4" using length_show_base [of g 16 3] assms(1) by simp
  ultimately show ?thesis
    using assms(1) by (simp add: read_number_def read_digits_append read_digits_show)
qed

lemma read_digits_rest: "read_digits r c a s = (c', a', t) \<Longrightarrow> set t \<subseteq> set s"
  by (induction s arbitrary: c a) (auto split: option.splits)

lemma read_number_rest: "read_number r m z v s = Some (n, t) \<Longrightarrow> set t \<subseteq> set s"
  by (auto simp: read_number_def split: prod.splits if_splits dest: read_digits_rest)

lemma read_ipv4_needs_dot:
  assumes "CHR ''.'' \<notin> set s" shows "read_ipv4_addr s = None"
proof -
  have "read_octets (Suc (Suc k)) 0 s = None" for k
  proof (cases "read_number 10 3 False 255 s")
    case (Some p)
    obtain v t where p: "p = (v, t)" by (cases p)
    then have "CHR ''.'' \<notin> set t" using assms Some read_number_rest [of 10 3 False 255 s v t] by auto
    then have "read_separator (CHR ''.'') (Suc 0) (read_number 10 3 False 255) t = None"
      by (cases t) (auto simp: read_separator_def)
    then show ?thesis using Some p by (simp add: read_separator_def)
  qed (simp add: read_separator_def)
  from this [of 2] show ?thesis by (simp add: read_ipv4_addr_def numeral_eq_Suc)
qed

lemma read_groups_tail:
  assumes "\<forall>g\<in>set gs. g \<le> 65535" "length gs \<le> k"
  shows "read_groups k (Suc i) (colon_tail gs) = (gs, False, [])"
  using assms
proof (induction gs arbitrary: k i)
  case Nil
  then show ?case by (cases k) (simp_all add: read_separator_def)
next
  case (Cons g gs)
  then obtain k' where k: "k = Suc k'" by (cases k) auto
  have "CHR ''.'' \<notin> set (show_base 16 g @ colon_tail gs)"
    using set_colon_tail [of "CHR ''.''" gs] hex_string_no_colon by (auto simp: char_classes)
  from read_ipv4_needs_dot [OF this] show ?case
    using Cons k read_number_hex [of g "colon_tail gs"]
    by (cases gs) (simp_all add: read_separator_def)
qed

lemma read_groups_hex:
  assumes "\<forall>g\<in>set gs. g \<le> 65535" "length gs \<le> k" "gs \<noteq> []"
  shows "read_groups k 0 (hex_groups gs) = (gs, False, [])"
proof -
  obtain g hs where gs: "gs = g # hs" using assms(3) by (cases gs) auto
  obtain k' where k: "k = Suc k'" using assms by (cases k) auto
  have "CHR ''.'' \<notin> set (hex_groups gs)"
    using set_hex_groups [of "CHR ''.''" gs] by (auto simp: char_classes)
  note dot = read_ipv4_needs_dot [OF this]
  have "colon_tail hs = [] \<or> hd (colon_tail hs) = CHR '':''" by (cases hs) auto
  with assms gs have "read_number 16 4 True 65535 (hex_groups gs) = Some (g, colon_tail hs)"
    by (simp add: read_number_hex hex_groups_Cons)
  then show ?thesis
    using gs k dot read_groups_tail [of hs k' 0] assms by (auto simp: read_separator_def)
qed

lemma parse_ipv6_groups:
  assumes "\<forall>g\<in>set gs. g \<le> 65535" "length gs \<le> 8" "gs \<noteq> []"
  shows "parse_ipv6_addr (hex_groups gs) = (if length gs = 8 then Some (ipv6_of_groups gs) else None)"
  using read_groups_hex [OF assms] by (simp add: parse_ipv6_addr_def read_ipv6_addr_def)

section \<open>Scanning colon-separated literals\<close>

lemma word_len_chars: "\<forall>c\<in>set w. is_ascii_alphanumeric c \<or> c = CHR '':'' \<Longrightarrow> word_len w = length w"
  by (induction w) auto

lemma hex_groups_chars: "c \<in> set (hex_groups gs) \<Longrightarrow> is_ascii_alphanumeric c \<or> c = CHR '':''"
  using set_hex_groups hexdigit_alnum by blast

lemma hd_hex_groups:
  assumes "gs \<noteq> []"
  shows "hex_groups gs \<noteq> []" "is_ascii_digit (hd (hex_groups gs)) \<or> is_ascii_alphabetic (hd (hex_groups gs))"
proof -
  obtain g hs where gs: "gs = g # hs" using assms by (cases gs) auto
  have "is_ascii_hexdigit (hd (hex_groups gs))" using hex_string [of "hd (show_base 16 g)" g] by (simp add: gs hex_groups_Cons)
  then show "is_ascii_digit (hd (hex_groups gs)) \<or> is_ascii_alphabetic (hd (hex_groups gs))"
    using hexdigit_alnum by (auto simp: is_ascii_alphanumeric_def)
qed (use assms in \<open>cases gs; simp add: hex_groups_Cons\<close>)

text \<open>It is enough to know what the number and the word scanner make of the groups.\<close>

lemma scans_groups:
  assumes ne: "gs \<noteq> []"
    and number: "\<And>b rest pos. is_ascii_whitespace b \<Longrightarrow>
      lex_number (hex_groups gs @ b # rest) pos = Inr (t, length (hex_groups gs))"
    and lword: "\<And>b rest. is_ascii_whitespace b \<Longrightarrow>
      lex_word (hex_groups gs @ b # rest) = (t, length (hex_groups gs))"
  shows "scans (hex_groups gs) t"
proof -
  obtain c cs where w: "hex_groups gs = c # cs" using hd_hex_groups(1) [OF ne] by (cases "hex_groups gs") auto
  have c: "is_ascii_digit c \<or> is_ascii_alphabetic c" using hd_hex_groups(2) [OF ne] w by simp
  then have an: "is_ascii_alphanumeric c \<or> c = CHR ''_''" by (auto simp: is_ascii_alphanumeric_def)
  have "lex_token c (cs @ b # rest) pos = Inr (t, length (c # cs))" if b: "is_ascii_whitespace b" for b rest pos
  proof -
    have "d \<noteq> CHR ''x'' \<and> d \<noteq> CHR ''X''" if "d \<in> set cs" for d
      using that set_hex_groups [of d gs] hexdigit_not_punct [of d] w by auto
    then have not_hex: "\<not> (case cs @ b # rest of d # _ \<Rightarrow> d = CHR ''x'' \<or> d = CHR ''X'' | [] \<Rightarrow> False)"
      using space_classes(5) [OF b] by (cases cs) auto
    show ?thesis
      using number [OF b, of rest pos] lword [OF b, of rest] c w not_hex
      by (auto simp: lex_token_def no_op_alnum [OF an] two_char_none)
  qed
  then show ?thesis using w no_op_alnum(3) [OF an] by (simp add: scans_def)
qed

lemma lex_word_groups:
  assumes "is_ascii_whitespace b" "gs \<noteq> []"
  shows "lex_word (hex_groups gs @ b # rest) = lex_word (hex_groups gs)"
proof -
  have "word_len (hex_groups gs) = length (hex_groups gs)"
    using word_len_chars hex_groups_chars by blast
  then show ?thesis
    by (simp add: lex_word_def Let_def word_len_space [OF assms(1)] split: option.splits)
qed

lemma groups_look_like:
  assumes "gs \<noteq> []"
  shows "3 \<le> length gs \<Longrightarrow> looks_like_ipv6 (hex_groups gs)" "length gs = 6 \<Longrightarrow> looks_like_mac (hex_groups gs)"
  using colons_hex_groups [OF assms] by (auto simp: looks_like_ipv6_def looks_like_mac_def)

lemma lex_number_groups:
  fixes g gs
  defines "w \<equiv> hex_groups (g # gs)" and "n \<equiv> length (show_base 16 g)"
  assumes "is_ascii_whitespace b" "gs \<noteq> []"
    and "lex_digit_mac (w @ b # rest) n = None \<Longrightarrow> lex_digit_ipv6 (w @ b # rest) n \<noteq> None"
  shows "lex_number (w @ b # rest) pos =
    (case lex_digit_mac (w @ b # rest) n of
       Some r \<Rightarrow> Inr r
     | None \<Rightarrow> Inr (the (lex_digit_ipv6 (w @ b # rest) n)))"
proof -
  obtain h hs where gs: "gs = h # hs" using assms(4) by (cases gs) auto
  let ?P = "\<lambda>c. is_ascii_alphanumeric c \<or> c = CHR ''.''"
  have "takeWhile ?P (show_base 16 g @ colon_tail gs @ b # rest) = show_base 16 g"
    using gs hexdigit_alnum by (intro takeWhile_hex) (auto simp: char_classes)
  then have "takeWhile ?P (w @ b # rest) = show_base 16 g" by (simp add: w_def hex_groups_Cons)
  moreover have "take 1 (drop n (w @ b # rest)) = '':''" by (simp add: w_def n_def hex_groups_Cons gs)
  ultimately show ?thesis
    using assms(5) unfolding lex_number_def Let_def n_def by (auto split: option.splits)
qed

lemma lex_digit_ipv6_groups:
  assumes "is_ascii_whitespace b" "looks_like_ipv6 (hex_groups (g # gs))"
  shows "lex_digit_ipv6 (hex_groups (g # gs) @ b # rest) (length (show_base 16 g)) =
    map_option (\<lambda>a. (TIpv6 a, length (hex_groups (g # gs)))) (parse_ipv6_addr (hex_groups (g # gs)))"
proof -
  have "takeWhile ipv6_char (colon_tail gs @ b # rest) = colon_tail gs"
    using set_colon_tail space_classes [OF assms(1)] by (intro takeWhile_stop) (auto simp: ipv6_char_def)
  then show ?thesis
    using assms(2) by (simp add: lex_digit_ipv6_def Let_def hex_groups_Cons)
qed

lemma scans_mac: "scans (hex_groups (mac_groups m)) (TMac m)"
proof (rule scans_groups)
  let ?gs = "mac_groups m"
  show ne: "?gs \<noteq> []" using mac_groups_facts(1) [of m] by auto
  then obtain g gs where gs: "?gs = g # gs" by (cases ?gs) auto
  have len: "length gs = 5" and small: "\<forall>g\<in>set gs. g < 256" and ne': "gs \<noteq> []"
    using mac_groups_facts [of m] gs by auto
  have "parse_ipv6_addr (hex_groups ?gs) = None"
    using parse_ipv6_groups [of ?gs] mac_groups_facts [of m] ne by fastforce
  then have "lex_word (hex_groups ?gs) = (TMac m, length (hex_groups ?gs))"
    using word_len_chars [of "hex_groups ?gs"] hex_groups_chars groups_look_like [OF ne]
      mac_groups_facts(1) [of m] parse_mac_groups [of m]
    by (simp add: lex_word_def Let_def)
  then show "lex_word (hex_groups ?gs @ b # rest) = (TMac m, length (hex_groups ?gs))"
    if "is_ascii_whitespace b" for b rest
    using lex_word_groups [OF that ne] by simp
  show "lex_number (hex_groups ?gs @ b # rest) pos = Inr (TMac m, length (hex_groups ?gs))"
    if b: "is_ascii_whitespace b" for b rest pos
  proof -
    have "mac_segments 5 (colon_tail gs @ b # rest) = Some (length (colon_tail gs))"
      using mac_segments_tail [OF small, of "b # rest"] len space_classes [OF b] by simp
    then have "lex_digit_mac (hex_groups (g # gs) @ b # rest) (length (show_base 16 g)) =
        Some (TMac m, length (hex_groups ?gs))"
      using parse_mac_groups [of m] gs space_classes(5) [OF b]
      by (simp add: lex_digit_mac_def hex_groups_Cons)
    then show ?thesis using lex_number_groups [OF b ne', of g rest pos] gs by simp
  qed
qed

lemma scans_ipv6: "scans (hex_groups (map unat (segments a))) (TIpv6 a)"
proof (rule scans_groups)
  let ?gs = "map unat (segments a)"
  show ne: "?gs \<noteq> []" by (cases a) simp
  obtain g gs where gs: "?gs = g # gs" by (cases a) simp
  have len: "length gs = 7" and ne': "gs \<noteq> []"
    using length_segments [of a] arg_cong [OF gs, of length] by auto
  have "ipv6_of_groups ?gs = a" by (cases a) (simp add: ipv6_of_groups_def)
  then have parse: "parse_ipv6_addr (hex_groups ?gs) = Some a"
    using parse_ipv6_groups [of ?gs] ne unat_u16_less by (auto simp: less_Suc_eq_le [of _ 65535, symmetric])
  have look: "looks_like_ipv6 (hex_groups ?gs)" using groups_look_like(1) [OF ne] by simp
  have "lex_word (hex_groups ?gs) = (TIpv6 a, length (hex_groups ?gs))"
    using word_len_chars [of "hex_groups ?gs"] hex_groups_chars look parse
    by (simp add: lex_word_def Let_def)
  then show "lex_word (hex_groups ?gs @ b # rest) = (TIpv6 a, length (hex_groups ?gs))"
    if "is_ascii_whitespace b" for b rest
    using lex_word_groups [OF that ne] by simp
  show "lex_number (hex_groups ?gs @ b # rest) pos = Inr (TIpv6 a, length (hex_groups ?gs))"
    if b: "is_ascii_whitespace b" for b rest pos
  proof -
    have six: "lex_digit_ipv6 (hex_groups (g # gs) @ b # rest) (length (show_base 16 g)) =
        Some (TIpv6 a, length (hex_groups ?gs))"
      using lex_digit_ipv6_groups [OF b, of g gs rest] look parse gs by simp
    have "lex_digit_mac (hex_groups (g # gs) @ b # rest) (length (show_base 16 g)) = None"
      using mac_segments_more [of 5 gs "b # rest"] len
      by (auto simp: lex_digit_mac_def hex_groups_Cons split: option.splits)
    then show ?thesis using lex_number_groups [OF b ne', of g rest pos] gs six by simp
  qed
qed

section \<open>Tokens and texts\<close>

text \<open>\<open>writes w t\<close>: \<open>w\<close> is a way to write the token \<open>t\<close>.\<close>

inductive writes :: "string \<Rightarrow> token \<Rightarrow> bool" where
  word: "(w, t) \<in> set keyword_table \<Longrightarrow> writes w t"
| operator: "(w, t) \<in> set op_table \<Longrightarrow> writes w t"
| ident: "wordlike w \<Longrightarrow> map_of keyword_table w = None \<Longrightarrow> writes w (TIdent w)"
| decimal: "n \<le> 4294967295 \<Longrightarrow> writes (show_nat n) (TNum n)"
| hexadecimal: "n \<le> 4294967295 \<Longrightarrow> writes (''0x'' @ show_base 16 n) (TNum n)"
| octal: "n \<le> 4294967295 \<Longrightarrow> writes (''0'' @ show_base 8 n) (TNum n)"
| dotted: "2 \<le> parts \<Longrightarrow> parts \<le> 4 \<Longrightarrow> (parts < 4 \<longrightarrow> d = 0) \<Longrightarrow> (parts < 3 \<longrightarrow> c = 0) \<Longrightarrow>
     writes (join_chars (CHR ''.'') (map (\<lambda>o'. show_nat (unat o')) (take parts [a, b, c, d])))
            (TIpv4 a b c d parts)"
| mac: "writes (hex_groups (mac_groups m)) (TMac m)"
| ipv6: "writes (hex_groups (map unat (segments v))) (TIpv6 v)"

lemma writes_scans: "writes w t \<Longrightarrow> scans w t"
  by (induction rule: writes.induct)
     (simp_all add: scans_keyword scans_operator scans_ident scans_decimal scans_hex [simplified]
        scans_octal [simplified] scans_dotted [simplified] scans_mac scans_ipv6)

lemma lex_loop_spaces: "list_all is_ascii_whitespace sep \<Longrightarrow> lex_loop (sep @ s) pos = lex_loop s (pos + length sep)"
  by (induction sep arbitrary: pos) auto

lemma lex_loop_scan:
  assumes "scans w t" "sep \<noteq> []" "list_all is_ascii_whitespace sep"
  shows "lex_loop (w @ sep @ rest) pos =
    rbind (lex_loop rest (pos + length w + length sep))
      (\<lambda>ts. Inr (\<lparr>spanned_token = t, spanned_offset = pos\<rparr> # ts))"
proof -
  obtain c cs where w: "w = c # cs" using assms(1) by (cases w) (auto simp: scans_def)
  obtain b bs where sep: "sep = b # bs" using assms(2) by (cases sep) auto
  have "lex_token c (cs @ b # bs @ rest) pos = Inr (t, length w)"
    using assms w sep by (simp add: scans_def)
  moreover have "lex_loop (sep @ rest) (pos + length w) = lex_loop rest (pos + length w + length sep)"
    using lex_loop_spaces [OF assms(3)] by simp
  ultimately show ?thesis
    using assms w sep by (simp add: scans_def)
qed

lemma lex_loop_writes:
  assumes "list_all2 writes ws ts" "length seps = length ws"
    "list_all (\<lambda>sep. sep \<noteq> [] \<and> list_all is_ascii_whitespace sep) seps"
  shows "\<exists>sp. lex_loop (concat (map2 (@) ws seps)) pos = Inr sp \<and> map spanned_token sp = ts"
  using assms
proof (induction arbitrary: seps pos rule: list_all2_induct)
  case (Cons w ws t ts)
  then obtain sep seps' where seps: "seps = sep # seps'" "length seps' = length ws" by (cases seps) auto
  with Cons.prems have "sep \<noteq> []" "list_all is_ascii_whitespace sep"
    and rest: "list_all (\<lambda>sep. sep \<noteq> [] \<and> list_all is_ascii_whitespace sep) seps'" by auto
  note scan = lex_loop_scan [OF writes_scans [OF Cons.hyps(1)] this(1,2)]
  from Cons.IH [OF seps(2) rest, of "pos + length w + length sep"] show ?case
    by (auto simp: seps scan)
qed simp

section \<open>Properties\<close>

text \<open>
  C31: the tokens of a filter text stand at strictly increasing byte offsets inside the text, and the
  literals the parser gets are in range: numbers of 32 bits, two to four octets, identifiers that
  are not keywords.
\<close>

theorem lex_tokens_in_order:
  assumes "lex src = Inr ts"
  shows "sorted_wrt (<) (map spanned_offset ts) \<and>
    (\<forall>t\<in>set ts. spanned_offset t < length src \<and> token_ok (spanned_token t))"
  using lex_loop_spec [of src 0 ts] assms by (auto simp: lex_def)

theorem lex_tokens_in_order_witness:
  "\<exists>ts. lex ''ip  80'' = Inr ts \<and> sorted_wrt (<) (map spanned_offset ts)"
proof -
  have "lex ''ip  80'' = Inr [\<lparr>spanned_token = TIp, spanned_offset = 0\<rparr>, \<lparr>spanned_token = TNum 80, spanned_offset = 4\<rparr>]"
    by (simp add: lex_def lex_token_def lex_word_def lex_number_def two_char_op_def one_char_ops_def
        char_classes looks_like_ipv6_def looks_like_mac_def keyword_or_ident_def keyword_table_def
        parse_numlike_def parse_int_def to_digit_def)
  with lex_tokens_in_order [OF this] show ?thesis by blast
qed

text \<open>
  C32: scanning always ends, and when it fails it is either with a message about a malformed literal
  or with the position of a byte that begins no token. The bytes before that position are ASCII, so
  the position is a character boundary and slicing the text there cannot panic.
\<close>

theorem lex_error_position:
  assumes "lex src = Inl e"
  shows "(\<exists>m. e = ParseError m) \<or>
    (\<exists>off<length src. no_token_start (src ! off) \<and> ascii (take off src) \<and>
       e = LexError off (case utf8_first (drop off src) of Some v \<Rightarrow> v | None \<Rightarrow> byte (CHR ''?'')))"
  using lex_loop_error [of src 0 e] assms by (auto simp: lex_def)

theorem lex_error_position_witness:
  "lex ''ip $'' = Inl (LexError 3 36) \<and>
   ((\<exists>m. LexError 3 36 = ParseError m) \<or>
    (\<exists>off<4. no_token_start (''ip $'' ! off) \<and> ascii (take off ''ip $'') \<and>
       LexError 3 36 = LexError off (case utf8_first (drop off ''ip $'') of Some v \<Rightarrow> v | None \<Rightarrow> byte (CHR ''?''))))"
proof -
  have e: "lex ''ip $'' = Inl (LexError 3 36)"
    by (simp add: lex_def lex_token_def lex_word_def lex_number_def two_char_op_def one_char_ops_def
        char_classes looks_like_ipv6_def looks_like_mac_def keyword_or_ident_def keyword_table_def
        utf8_first_def)
  have "length ''ip $'' = 4" by simp
  with e lex_error_position [OF e] show ?thesis by metis
qed

text \<open>
  C13: a text made of written tokens, separated by any white space, scans to exactly these tokens:
  keywords and named constants, operators, identifiers, numbers in decimal, hexadecimal and octal,
  IPv4 addresses of two to four octets, MAC addresses and IPv6 addresses.
\<close>

theorem lex_written_tokens:
  assumes "list_all2 writes ws ts" "length seps = length ws"
    "list_all (\<lambda>sep. sep \<noteq> [] \<and> list_all is_ascii_whitespace sep) seps" "list_all is_ascii_whitespace pre"
  shows "\<exists>sp. lex (pre @ concat (map2 (@) ws seps)) = Inr sp \<and> map spanned_token sp = ts"
  using lex_loop_writes [OF assms(1-3)] by (simp add: lex_def lex_loop_spaces [OF assms(4)])

theorem lex_written_tokens_witness:
  "\<exists>sp. lex ('' '' @ concat (map2 (@) [''tcp'', ''port'', show_nat 80] ['' '', ''  '', '' ''])) = Inr sp \<and>
     map spanned_token sp = [TTcp, TPort, TNum 80]"
proof (rule lex_written_tokens)
  show "list_all2 writes [''tcp'', ''port'', show_nat 80] [TTcp, TPort, TNum 80]"
    by (auto intro!: writes.intros(1) writes.decimal simp: keyword_table_def)
qed (simp_all add: is_ascii_whitespace_def)

end
