(* ===== verification/Token_Text.thy ===== *)
theory Token_Text
  imports Lexer
begin

text \<open>
  The \<open>Debug\<close> and \<open>Display\<close> texts that the error messages of the parser contain: of tokens, of
  optional tokens, and of addresses.
\<close>

fun show_list :: "('a \<Rightarrow> string) \<Rightarrow> 'a list \<Rightarrow> string" where
  "show_list f [] = []"
| "show_list f [x] = f x"
| "show_list f (x # y # xs) = f x @ '', '' @ show_list f (y # xs)"

definition show_int :: "int \<Rightarrow> string" where
  "show_int i = (if i < 0 then ''-'' @ show_nat (nat (- i)) else show_nat (nat i))"

definition show_u8 :: "u8 \<Rightarrow> string" where
  "show_u8 w = show_nat (unat w)"

text \<open>\<open>Ipv4Addr\<close> and \<open>Ipv6Addr\<close>: an IPv4-mapped address in its mixed form, otherwise the longest run of zero
  segments, the first of several, as \<open>::\<close> when it has more than one.\<close>

definition show_ipv4 :: "u32 \<Rightarrow> string" where
  "show_ipv4 w =
     (let octet = (\<lambda>k. show_nat (unat (drop_bit k w AND 255)))
      in octet 24 @ ''.'' @ octet 16 @ ''.'' @ octet 8 @ ''.'' @ octet 0)"

fun longest_zeroes :: "u16 list \<Rightarrow> nat \<Rightarrow> nat \<times> nat \<Rightarrow> nat \<times> nat \<Rightarrow> nat \<times> nat" where
  "longest_zeroes [] i current longest = longest"
| "longest_zeroes (s # ss) i (start, len) longest =
     (if s = 0 then
        let current = (if len = 0 then i else start, len + 1)
        in longest_zeroes ss (i + 1) current (if snd current > snd longest then current else longest)
      else longest_zeroes ss (i + 1) (0, 0) longest)"

fun show_segments :: "u16 list \<Rightarrow> string" where
  "show_segments [] = []"
| "show_segments [s] = show_base 16 (unat s)"
| "show_segments (s # t # ss) = show_base 16 (unat s) @ '':'' @ show_segments (t # ss)"

definition show_ipv6 :: "ipv6_addr \<Rightarrow> string" where
  "show_ipv6 a =
     (let ss = segments a
      in if take 6 ss = [0, 0, 0, 0, 0, 0xffff] then
           ''::ffff:'' @ show_ipv4 (push_bit 16 (ucast (ss ! 6)) OR ucast (ss ! 7))
         else
           let (start, len) = longest_zeroes ss 0 (0, 0) (0, 0)
           in if len > 1
              then show_segments (take start ss) @ ''::'' @ show_segments (drop (start + len) ss)
              else show_segments ss)"

definition token_names :: "(token \<times> string) list" where
  "token_names =
    [(TAnd, ''And''), (TOr, ''Or''), (TNot, ''Not''), (TSrc, ''Src''), (TDst, ''Dst''),
     (THost, ''Host''), (TNet, ''Net''), (TPort, ''Port''), (TPortRange, ''PortRange''),
     (TEther, ''Ether''), (TBroadcast, ''Broadcast''), (TMulticast, ''Multicast''),
     (TIp, ''Ip''), (TIp6, ''Ip6''), (TArp, ''Arp''), (TRarp, ''Rarp''), (TTcp, ''Tcp''),
     (TUdp, ''Udp''), (TIcmp, ''Icmp''), (TIcmp6, ''Icmp6''), (TIgmp, ''Igmp''),
     (TSctp, ''Sctp''), (TProto, ''Proto''), (TAh, ''Ah''), (TEsp, ''Esp''), (TPim, ''Pim''),
     (TIgrp, ''Igrp''), (TVrrp, ''Vrrp''), (TProtochain, ''Protochain''), (TVlan, ''Vlan''),
     (TMpls, ''Mpls''), (TPppoed, ''Pppoed''), (TPppoes, ''Pppoes''), (TInbound, ''Inbound''),
     (TOutbound, ''Outbound''), (TLen, ''Len''), (TMask, ''Mask''), (TGateway, ''Gateway''),
     (TLess, ''Less''), (TGreater, ''Greater''), (TLParen, ''LParen''), (TRParen, ''RParen''),
     (TLBracket, ''LBracket''), (TRBracket, ''RBracket''), (TColon, ''Colon''),
     (TMinus, ''Minus''), (TPlus, ''Plus''), (TStar, ''Star''), (TSlash, ''Slash''),
     (TPercent, ''Percent''), (TPipe, ''Pipe''), (TCaret, ''Caret''), (TShl, ''Shl''),
     (TShr, ''Shr''), (TEq, ''Eq''), (TNe, ''Ne''), (TLt, ''Lt''), (TLe, ''Le''), (TGt, ''Gt''),
     (TGe, ''Ge''), (TAmp, ''Amp''), (TBang, ''Bang'')]"

fun mac_octets :: "mac_addr \<Rightarrow> u8 list" where
  "mac_octets (MacAddr a b c d e f) = [a, b, c, d, e, f]"

text \<open>The literals; an identifier holds no character that \<open>Debug\<close> would escape.\<close>

definition debug_literal :: "token \<Rightarrow> string" where
  "debug_literal t =
     (case t of
        TNum n \<Rightarrow> ''Num('' @ show_nat n @ '')''
      | TIpv4 a b c d parts \<Rightarrow>
          ''Ipv4(['' @ show_list show_u8 [a, b, c, d] @ ''], '' @ show_nat parts @ '')''
      | TIpv6 a \<Rightarrow> ''Ipv6('' @ show_ipv6 a @ '')''
      | TMac m \<Rightarrow> ''Mac(['' @ show_list show_u8 (mac_octets m) @ ''])''
      | TIdent s \<Rightarrow> ''Ident('' @ [CHR 0x22] @ s @ [CHR 0x22] @ '')''
      | _ \<Rightarrow> [])"

definition debug_token :: "token \<Rightarrow> string" where
  "debug_token t =
     (case map_of token_names t of
        Some s \<Rightarrow> s
      | None \<Rightarrow> debug_literal t)"

definition debug_opt :: "token option \<Rightarrow> string" where
  "debug_opt t = (case t of None \<Rightarrow> ''None'' | Some t \<Rightarrow> ''Some('' @ debug_token t @ '')'')"

text \<open>The literals a pattern of the parser binds.\<close>

definition as_num :: "token option \<Rightarrow> nat option" where
  "as_num t = (case t of Some (TNum n) \<Rightarrow> Some n | _ \<Rightarrow> None)"

definition as_ipv4 :: "token option \<Rightarrow> (u32 \<times> nat) option" where
  "as_ipv4 t = (case t of Some (TIpv4 a b c d parts) \<Rightarrow> Some (be32 a b c d, parts) | _ \<Rightarrow> None)"

definition as_ipv6 :: "token option \<Rightarrow> ipv6_addr option" where
  "as_ipv6 t = (case t of Some (TIpv6 a) \<Rightarrow> Some a | _ \<Rightarrow> None)"

definition as_mac :: "token option \<Rightarrow> mac_addr option" where
  "as_mac t = (case t of Some (TMac m) \<Rightarrow> Some m | _ \<Rightarrow> None)"

end
