(* ===== verification/Parser_Prims.thy ===== *)
theory Parser_Prims
  imports Token_Text "HOL-Library.Signed_Division"
begin

text \<open>
  \<^verbatim>\<open>pktbaffle/src/parser.rs\<close>: the parser state and the primitives. A parsing method takes the
  parser state and gives a value with the new state, or an error; \<open>pbind\<close> is sequencing with the
  \<open>?\<close> operator. Loops that consume a token in every turn carry the number of remaining tokens as
  fuel, and the recursion of the offset expressions carries the levels left of its budget; running
  out of either is the value \<open>Panic\<close>, which no parse gives.
\<close>

section \<open>The parser state\<close>

record parser =
  p_tokens :: "spanned list"
  p_pos :: nat
  p_depth :: nat

type_synonym 'a parse = "parser \<Rightarrow> error + ('a \<times> parser)"

definition MAX_PAREN_DEPTH :: nat where "MAX_PAREN_DEPTH = 9995"
definition MAX_OFFSET_DEPTH :: nat where "MAX_OFFSET_DEPTH = 127"
definition OFFSET_PAREN_COST :: nat where "OFFSET_PAREN_COST = 4"

definition preturn :: "'a \<Rightarrow> 'a parse" where
  "preturn v p = Inr (v, p)"

definition pbind :: "'a parse \<Rightarrow> ('a \<Rightarrow> 'b parse) \<Rightarrow> 'b parse" where
  "pbind m f p = rbind (m p) (\<lambda>(v, p'). f v p')"

definition err :: "string \<Rightarrow> 'a parse" where
  "err msg p = Inl (ParseError msg)"

definition cur :: "parser \<Rightarrow> token option" where
  "cur p = map_option spanned_token (get_at (p_tokens p) (p_pos p))"

definition cur_tok :: "token option parse" where
  "cur_tok p = Inr (cur p, p)"

definition peek_tok :: "nat \<Rightarrow> token option parse" where
  "peek_tok lookahead p = Inr (map_option spanned_token (get_at (p_tokens p) (p_pos p + lookahead)), p)"

definition advance :: "token option parse" where
  "advance p =
     (let t = cur p in Inr (t, if t \<noteq> None then p\<lparr>p_pos := p_pos p + 1\<rparr> else p))"

definition eat :: "token \<Rightarrow> bool parse" where
  "eat expected p =
     (if cur p = Some expected then Inr (True, p\<lparr>p_pos := p_pos p + 1\<rparr>) else Inr (False, p))"

definition expect :: "token \<Rightarrow> unit parse" where
  "expect expected =
     pbind (eat expected) (\<lambda>b.
     if b then preturn ()
     else pbind cur_tok (\<lambda>t.
       err (''expected '' @ debug_token expected @ '', got '' @ debug_opt t)))"

definition remaining :: "parser \<Rightarrow> nat" where
  "remaining p = length (p_tokens p) - p_pos p"

text \<open>\<open>self.advance();\<close> for its effect, then the rest.\<close>

definition skip :: "'a parse \<Rightarrow> 'a parse" where
  "skip m = pbind advance (\<lambda>_. m)"

text \<open>The dashes of the messages, in UTF-8.\<close>

definition em_dash :: string where "em_dash = [CHR 0xE2, CHR 0x80, CHR 0x94]"
definition en_dash :: string where "en_dash = [CHR 0xE2, CHR 0x80, CHR 0x93]"

section \<open>Token helpers\<close>

definition parse_ip :: "ip_addr parse" where
  "parse_ip =
     pbind advance (\<lambda>t.
     case as_ipv4 t of
       Some (a, _) \<Rightarrow> preturn (V4 a)
     | None \<Rightarrow>
         (case as_ipv6 t of
            Some a \<Rightarrow> preturn (V6 a)
          | None \<Rightarrow>
              (case as_num t of
                 Some n \<Rightarrow>
                   if n \<le> 4294967295 then preturn (V4 (of_nat n))
                   else err (''expected IP address, got '' @ debug_opt t)
               | None \<Rightarrow> err (''expected IP address, got '' @ debug_opt t))))"

definition parse_mac_tok :: "mac_addr parse" where
  "parse_mac_tok =
     pbind advance (\<lambda>t.
     case as_mac t of
       Some m \<Rightarrow> preturn m
     | None \<Rightarrow> err (''expected MAC address (xx:xx:xx:xx:xx:xx), got '' @ debug_opt t))"

definition parse_u32 :: "u32 parse" where
  "parse_u32 =
     pbind advance (\<lambda>t.
     case as_num t of
       Some n \<Rightarrow>
         if n > 4294967295 then err ''integer literal too large (max u32)''
         else preturn (of_nat n)
     | None \<Rightarrow> err (''expected integer literal, got '' @ debug_opt t))"

definition parse_u16 :: "u16 parse" where
  "parse_u16 =
     pbind parse_u32 (\<lambda>n.
     if n > 0xffff
     then err (''value out of range for a port number (0'' @ en_dash @ ''65535)'')
     else preturn (ucast n))"

definition proto_numbers :: "(token \<times> u8) list" where
  "proto_numbers =
     [(TTcp, 6), (TUdp, 17), (TIcmp, 1), (TIcmp6, 58), (TIgmp, 2), (TSctp, 132), (TAh, 51), (TEsp, 50),
      (TPim, 103), (TIgrp, 9), (TVrrp, 112)]"

definition parse_proto_num :: "u8 parse" where
  "parse_proto_num =
     pbind cur_tok (\<lambda>t.
     case Option.bind t (map_of proto_numbers) of
       Some n \<Rightarrow> skip (preturn n)
     | None \<Rightarrow>
         pbind parse_u32 (\<lambda>n.
         if n > 0xff then err (''IP protocol number out of range (0'' @ en_dash @ ''255)'')
         else preturn (ucast n)))"

section \<open>Constant offset expressions\<close>

text \<open>
  \<open>i64\<close> values are integers, with the checked operations of the source. A level of the precedence
  ladder is a loop over its operators; \<open>sub\<close> parses the operands of the level.
\<close>

definition in_i64 :: "int \<Rightarrow> bool" where
  "in_i64 v \<longleftrightarrow> - (2 ^ 63) \<le> v \<and> v < 2 ^ 63"

definition checked :: "int \<Rightarrow> error + int" where
  "checked v = (if in_i64 v then Inr v else Inl (ParseError ''offset expression overflow''))"

type_synonym offset_op = "int \<Rightarrow> int \<Rightarrow> error + int"

fun op_loop :: "nat \<Rightarrow> (token \<times> offset_op) list \<Rightarrow> int parse \<Rightarrow> int \<Rightarrow> int parse" where
  "op_loop 0 ops sub lhs p = Inl (Panic ''op_loop'')"
| "op_loop (Suc n) ops sub lhs p =
     (case Option.bind (cur p) (map_of ops) of
        None \<Rightarrow> Inr (lhs, p)
      | Some f \<Rightarrow>
          pbind (skip sub) (\<lambda>rhs q.
            rbind (f lhs rhs) (\<lambda>v. op_loop n ops sub v q)) p)"

definition op_level :: "(token \<times> offset_op) list \<Rightarrow> int parse \<Rightarrow> int parse" where
  "op_level ops sub =
     pbind sub (\<lambda>lhs p. op_loop (Suc (remaining p)) ops sub lhs p)"

definition shift_amount :: "int \<Rightarrow> error + nat" where
  "shift_amount rhs =
     (if 0 \<le> rhs \<and> rhs < 64 then Inr (nat rhs)
      else Inl (ParseError ''shift amount out of range in offset expression''))"

definition offset_shl :: offset_op where
  "offset_shl lhs rhs =
     rbind (shift_amount rhs) (\<lambda>k.
     let shifted = signed_take_bit 63 (push_bit k lhs)
     in if drop_bit k shifted \<noteq> lhs then Inl (ParseError ''offset expression overflow'')
        else Inr shifted)"

definition offset_shr :: offset_op where
  "offset_shr lhs rhs = rbind (shift_amount rhs) (\<lambda>k. Inr (drop_bit k lhs))"

definition offset_div :: offset_op where
  "offset_div lhs rhs =
     (if rhs = 0 then Inl (ParseError ''division by zero in offset expression'')
      else checked (lhs sdiv rhs))"

definition parse_offset_mul :: "int parse \<Rightarrow> int parse" where
  "parse_offset_mul atom =
     op_level [(TStar, \<lambda>lhs rhs. checked (lhs * rhs)), (TSlash, offset_div)] atom"

definition parse_offset_add :: "int parse \<Rightarrow> int parse" where
  "parse_offset_add atom =
     op_level [(TPlus, \<lambda>lhs rhs. checked (lhs + rhs)), (TMinus, \<lambda>lhs rhs. checked (lhs - rhs))]
       (parse_offset_mul atom)"

definition parse_offset_shift :: "int parse \<Rightarrow> int parse" where
  "parse_offset_shift atom =
     op_level [(TShl, offset_shl), (TShr, offset_shr)] (parse_offset_add atom)"

definition parse_offset_and :: "int parse \<Rightarrow> int parse" where
  "parse_offset_and atom =
     op_level [(TAmp, \<lambda>lhs rhs. Inr (lhs AND rhs))] (parse_offset_shift atom)"

definition parse_offset_xor :: "int parse \<Rightarrow> int parse" where
  "parse_offset_xor atom =
     op_level [(TCaret, \<lambda>lhs rhs. Inr (lhs XOR rhs))] (parse_offset_and atom)"

definition parse_offset_or :: "int parse \<Rightarrow> int parse" where
  "parse_offset_or atom =
     op_level [(TPipe, \<lambda>lhs rhs. Inr (lhs OR rhs))] (parse_offset_xor atom)"

definition nested_offset :: "nat \<Rightarrow> 'a parse \<Rightarrow> 'a parse" where
  "nested_offset cost f p =
     (let q = p\<lparr>p_depth := p_depth p + cost\<rparr>
      in if p_depth q > MAX_OFFSET_DEPTH then Inl (ParseError ''offset expression nested too deeply'')
         else rbind (f q) (\<lambda>(v, r). Inr (v, r\<lparr>p_depth := p_depth r - cost\<rparr>)))"

primrec parse_offset_atom :: "nat \<Rightarrow> int parse" where
  "parse_offset_atom 0 = (\<lambda>p. Inl (Panic ''parse_offset_atom''))"
| "parse_offset_atom (Suc k) =
     pbind cur_tok (\<lambda>t.
     if t = Some TLParen then
       skip (
       pbind (nested_offset OFFSET_PAREN_COST (parse_offset_or (parse_offset_atom k))) (\<lambda>v.
       pbind (expect TRParen) (\<lambda>_. preturn v)))
     else if t = Some TMinus then
       skip (
       pbind (nested_offset 1 (parse_offset_atom k)) (\<lambda>v p.
       rbind (checked (- v)) (\<lambda>w. Inr (w, p))))
     else pbind parse_u32 (\<lambda>n. preturn (uint n)))"

definition parse_offset_expr :: "i32 parse" where
  "parse_offset_expr =
     pbind (parse_offset_or (parse_offset_atom (Suc MAX_OFFSET_DEPTH))) (\<lambda>v.
     if - (2 ^ 31) \<le> v \<and> v < 2 ^ 31 then preturn (of_int v)
     else err (''offset expression out of range: '' @ show_int v))"

section \<open>Byte access\<close>

text \<open>The comparison operators after a byte access or \<open>len\<close>.\<close>

definition cmp_ops :: "(token \<times> cmp_op) list" where
  "cmp_ops =
     [(TEq, CmpEq), (TNe, CmpNe), (TLt, CmpLt), (TLe, CmpLe), (TGt, CmpGt), (TGe, CmpGe),
      (TAmp, CmpBitAnd)]"

definition parse_cmpop :: "cmp_op parse" where
  "parse_cmpop =
     pbind advance (\<lambda>t.
     case Option.bind t (map_of cmp_ops) of
       Some c \<Rightarrow> preturn c
     | None \<Rightarrow>
         err (''expected comparison operator (=, !=, <, <=, >, >=, &), got '' @ debug_opt t))"

text \<open>The offset and size in brackets, which \<open>parse_byte_access\<close> and \<open>parse_byte_load\<close> share.\<close>

definition parse_access_size :: "access_size parse" where
  "parse_access_size =
     pbind (eat TColon) (\<lambda>b.
     if b then
       pbind cur_tok (\<lambda>t.
       if t = Some (TNum 1) then skip (preturn Byte)
       else if t = Some (TNum 2) then skip (preturn Half)
       else if t = Some (TNum 4) then skip (preturn Word_Size)
       else err (''invalid byte-access size '' @ debug_opt t @ '' (must be 1, 2, or 4)''))
     else preturn Byte)"

definition parse_brackets :: "(i32 \<times> access_size) parse" where
  "parse_brackets =
     pbind (expect TLBracket) (\<lambda>_.
     pbind parse_offset_expr (\<lambda>offset.
     if sint offset < 0
     then err (''byte-access offset must be non-negative, got '' @ show_int (sint offset))
     else
       pbind parse_access_size (\<lambda>sz.
       pbind (expect TRBracket) (\<lambda>_. preturn (offset, sz)))))"

definition parse_byte_load :: "layer \<Rightarrow> byte_load parse" where
  "parse_byte_load l =
     pbind parse_brackets (\<lambda>(offset, sz).
     preturn \<lparr>load_layer = l, load_offset = offset, load_size = sz\<rparr>)"

definition rhs_layers :: "(token \<times> layer) list" where
  "rhs_layers =
     [(TTcp, Trans), (TUdp, Trans), (TIcmp, Trans), (TIcmp6, Trans), (TIp, Net_Layer),
      (TIp6, Net_Layer), (TEther, Raw)]"

definition parse_cmp_rhs :: "cmp_rhs parse" where
  "parse_cmp_rhs =
     pbind cur_tok (\<lambda>t.
     pbind (peek_tok 1) (\<lambda>u.
     case Option.bind t (map_of rhs_layers) of
       Some l \<Rightarrow>
         if u = Some TLBracket then skip (pbind (parse_byte_load l) (\<lambda>b. preturn (LoadRhs b)))
         else pbind parse_u32 (\<lambda>n. preturn (Const n))
     | None \<Rightarrow> pbind parse_u32 (\<lambda>n. preturn (Const n))))"

definition arith_ops :: "(token \<times> arith_op) list" where
  "arith_ops =
     [(TAmp, OpAnd), (TPipe, OpOr), (TCaret, OpXor), (TPlus, OpAdd), (TMinus, OpSub), (TStar, OpMul),
      (TSlash, OpDiv), (TPercent, OpMod), (TShl, OpShl), (TShr, OpShr)]"

fun parse_alu_ops :: "nat \<Rightarrow> (arith_op \<times> u32) list parse" where
  "parse_alu_ops 0 p = Inl (Panic ''parse_alu_ops'')"
| "parse_alu_ops (Suc n) p =
     (case Option.bind (cur p) (map_of arith_ops) of
        None \<Rightarrow> Inr ([], p)
      | Some aop \<Rightarrow>
          pbind (skip parse_u32) (\<lambda>operand.
          pbind (parse_alu_ops n) (\<lambda>ops. preturn ((aop, operand) # ops))) p)"

definition parse_byte_access :: "layer \<Rightarrow> primitive parse" where
  "parse_byte_access l =
     pbind parse_brackets (\<lambda>(offset, sz).
     pbind (\<lambda>p. parse_alu_ops (Suc (remaining p)) p) (\<lambda>ops.
     pbind parse_cmpop (\<lambda>c.
     pbind parse_cmp_rhs (\<lambda>rhs.
     preturn (ByteAccess
       \<lparr>ba_layer = l, ba_offset = offset, ba_size = sz, alu_ops = ops, ba_op = c, ba_rhs = rhs\<rparr>)))))"

section \<open>Hosts, networks and ports\<close>

text \<open>The mask of \<open>parts\<close> octets written: \<open>!0u32 << (32 - 8 * parts)\<close>.\<close>

definition octets_mask :: "nat \<Rightarrow> u32" where
  "octets_mask parts = push_bit ((32 - 8 * parts) mod 32) (NOT 0)"

text \<open>The offset of the slash is read from the token before the current one.\<close>

definition parse_prefix_len :: "string \<Rightarrow> nat \<Rightarrow> u8 parse" where
  "parse_prefix_len family maxlen p =
     (case (if p_pos p = 0 then None else get_at (p_tokens p) (p_pos p - 1)) of
        None \<Rightarrow> Inl (Panic ''tokens[pos - 1]'')
      | Some slash \<Rightarrow>
          pbind advance (\<lambda>t.
          case as_num t of
            Some n \<Rightarrow>
              if n \<le> maxlen then preturn (of_nat n)
              else err (family @ '' prefix length '' @ show_nat n @ '' out of range (0'' @ en_dash @
                        show_nat maxlen @ '')'')
          | None \<Rightarrow>
              err (''expected a prefix length after '' @ quoted ''/'' @ '' at offset '' @
                   show_nat (spanned_offset slash))) p)"

definition parse_host :: "dir \<Rightarrow> primitive parse" where
  "parse_host d =
     pbind cur_tok (\<lambda>t.
     case as_ipv4 t of
       Some (a, parts) \<Rightarrow>
         if 2 \<le> parts \<and> parts \<le> 3
         then skip (preturn (Net \<lparr>net_addr = a, net_mask = octets_mask parts\<rparr> d))
         else pbind parse_ip (\<lambda>addr. preturn (Host addr d))
     | None \<Rightarrow>
         pbind parse_ip (\<lambda>addr.
         case addr of
           V4 _ \<Rightarrow> preturn (Host addr d)
         | V6 _ \<Rightarrow>
             pbind (eat TSlash) (\<lambda>b.
             if b then
               pbind (parse_prefix_len ''IPv6'' 128) (\<lambda>n.
               if n \<noteq> 128 then err ''mask syntax for networks only'' else preturn (Host addr d))
             else preturn (Host addr d))))"

text \<open>A bare integer is shifted left a byte at a time, with the mask, until its top byte is not zero.\<close>

lemma top_byte_zero: "(w :: u32) AND 0xff000000 = 0 \<Longrightarrow> unat w < 2 ^ 24"
proof -
  assume "w AND 0xff000000 = 0"
  have high: "(0xff000000 :: u32) = push_bit 24 0xff" by (simp add: push_bit_eq_mult)
  have "drop_bit 24 w = 0"
  proof (rule bit_word_eqI)
    fix n assume "n < LENGTH(32)"
    have "\<not> bit (w AND 0xff000000) (24 + n)" using \<open>w AND 0xff000000 = 0\<close> by simp
    moreover have "bit (0xff000000 :: u32) (24 + n)" if "24 + n < 32"
    proof -
      have "n \<in> {0, 1, 2, 3, 4, 5, 6, 7}" using that by auto
      then show ?thesis by auto
    qed
    moreover have "\<not> bit w (24 + n)" if "\<not> 24 + n < 32"
      using that bit_imp_le_length [of w "24 + n"] by auto
    ultimately show "bit (drop_bit 24 w) n = bit (0 :: u32) n"
      by (auto simp: bit_drop_bit_eq bit_and_iff)
  qed
  then have "drop_bit 24 (unat w) = 0" by (metis unat_drop_bit_eq unat_0)
  then show ?thesis by (simp add: drop_bit_eq_div div_eq_0_iff)
qed

lemma shift_byte_grows:
  assumes "(w :: u32) \<noteq> 0" "w AND 0xff000000 = 0" shows "unat w < unat (push_bit 8 w)"
proof -
  have "unat (push_bit 8 w) = unat w * 256"
    using top_byte_zero [OF assms(2)]
    by (simp only: unsigned_push_bit_eq) (simp add: push_bit_eq_mult take_bit_nat_eq_self)
  moreover have "0 < unat w" using assms(1) by (simp add: unat_gt_0)
  ultimately show ?thesis by simp
qed

function shift_net :: "u32 \<Rightarrow> u32 \<Rightarrow> u32 \<times> u32" where
  "shift_net addr msk =
     (if addr \<noteq> 0 \<and> addr AND 0xff000000 = 0 then shift_net (push_bit 8 addr) (push_bit 8 msk)
      else (addr, msk))"
  by auto
termination
  by (relation "measure (\<lambda>(addr, msk). 2 ^ 32 - unat addr)")
     (use shift_byte_grows unat_u32_less in \<open>auto intro!: diff_less_mono2\<close>)

declare shift_net.simps [simp del]

fun u128_of :: "ipv6_addr \<Rightarrow> 128 word" where
  "u128_of (Ipv6Addr a b c d e f g h) =
     foldl (\<lambda>v s. push_bit 16 v OR ucast s) 0 [a, b, c, d, e, f, g, h]"

text \<open>\<open>u128::MAX.checked_shr(n).unwrap_or(0)\<close>.\<close>

definition host_bits :: "nat \<Rightarrow> 128 word" where
  "host_bits n = (if n < 128 then drop_bit n (NOT 0) else 0)"

definition parse_net6 :: "ipv6_addr \<Rightarrow> dir \<Rightarrow> primitive parse" where
  "parse_net6 a d =
     pbind (eat TSlash) (\<lambda>b.
     pbind (if b then parse_prefix_len ''IPv6'' 128 else preturn 128) (\<lambda>n.
     if u128_of a AND host_bits (unat n) \<noteq> 0
     then err (''non-network bits set in '' @ [CHR 0x22] @ show_ipv6 a @ ''/'' @ show_u8 n @ [CHR 0x22])
     else preturn (Net6 \<lparr>net6_addr = a, prefix_len = n\<rparr> d)))"

definition parse_net4 :: "u32 \<Rightarrow> nat \<Rightarrow> dir \<Rightarrow> primitive parse" where
  "parse_net4 addr parts d =
     pbind (eat TMinus) (\<lambda>b.
     if b then err ''net range syntax not supported; use CIDR or mask notation''
     else
       pbind (eat TSlash) (\<lambda>b.
       if b then
         pbind (parse_prefix_len ''IPv4'' 32) (\<lambda>n.
         let msk = net_mask (from_prefix addr n)
         in if addr AND NOT msk \<noteq> 0
            then err (''non-network bits set in '' @ [CHR 0x22] @ show_ipv4 addr @ ''/'' @ show_u8 n @ [CHR 0x22])
            else preturn (Net \<lparr>net_addr = addr, net_mask = msk\<rparr> d))
       else
         pbind (eat TMask) (\<lambda>b.
         if b then
           pbind advance (\<lambda>t.
           case as_ipv4 t of
             Some (m, _) \<Rightarrow>
               if addr AND NOT m \<noteq> 0
               then err (''non-network bits set in '' @ [CHR 0x22] @ show_ipv4 addr @ '' mask '' @ show_ipv4 m @
                         [CHR 0x22])
               else preturn (Net \<lparr>net_addr = addr, net_mask = m\<rparr> d)
           | None \<Rightarrow> err (''expected IPv4 netmask after '' @ quoted ''mask''))
         else preturn (Net \<lparr>net_addr = addr, net_mask = octets_mask parts\<rparr> d))))"

definition parse_net :: "dir \<Rightarrow> primitive parse" where
  "parse_net d =
     pbind advance (\<lambda>t.
     case as_ipv4 t of
       Some (addr, parts) \<Rightarrow> parse_net4 addr parts d
     | None \<Rightarrow>
         (case as_num t of
            Some n \<Rightarrow>
              if n \<le> 4294967295 then
                let (addr, msk) = shift_net (of_nat n) (NOT 0)
                in preturn (Net \<lparr>net_addr = addr, net_mask = msk\<rparr> d)
              else err (''expected IPv4 network after '' @ quoted ''net'' @ '', got '' @ debug_opt t)
          | None \<Rightarrow>
              (case as_ipv6 t of
                 Some a \<Rightarrow> parse_net6 a d
               | None \<Rightarrow>
                   err (''expected IPv4 or IPv6 network after '' @ quoted ''net'' @ '', got '' @ debug_opt t))))"

definition parse_port :: "dir \<Rightarrow> proto option \<Rightarrow> primitive parse" where
  "parse_port d pr = pbind parse_u16 (\<lambda>n. preturn (Port n d pr))"

definition parse_portrange :: "dir \<Rightarrow> proto option \<Rightarrow> primitive parse" where
  "parse_portrange d pr =
     pbind parse_u16 (\<lambda>lo.
     pbind (expect TMinus) (\<lambda>_.
     pbind parse_u16 (\<lambda>hi. preturn (PortRange lo hi d pr))))"

section \<open>Primitives\<close>

definition parse_dir :: "dir parse" where
  "parse_dir =
     pbind cur_tok (\<lambda>t.
     if t = Some TSrc then
       skip (
       pbind (eat TAnd) (\<lambda>b. pbind cur_tok (\<lambda>u.
       if b \<and> u = Some TDst then skip (preturn SrcAndDst)
       else
         pbind (eat TOr) (\<lambda>b. pbind cur_tok (\<lambda>u.
         if b \<and> u = Some TDst then skip (preturn SrcOrDst) else preturn Src)))))
     else if t = Some TDst then skip (preturn Dst)
     else preturn SrcOrDst)"

text \<open>\<open>port\<close> or \<open>portrange\<close> after a transport protocol, with what to do when neither follows.\<close>

definition proto_ports :: "dir \<Rightarrow> proto \<Rightarrow> primitive parse \<Rightarrow> primitive parse" where
  "proto_ports d pr otherwise =
     pbind (eat TPort) (\<lambda>b.
     if b then parse_port d (Some pr)
     else
       pbind (eat TPortRange) (\<lambda>b.
       if b then parse_portrange d (Some pr) else otherwise))"

definition ports_only :: "dir \<Rightarrow> proto \<Rightarrow> string \<Rightarrow> primitive parse" where
  "ports_only d pr name =
     proto_ports d pr
       (pbind cur_tok (\<lambda>t.
        err (''expected '' @ quoted ''port'' @ '' or '' @ quoted ''portrange'' @ '' after '' @ quoted name @
             '', got '' @ debug_opt t)))"

definition parse_after_dir :: "dir \<Rightarrow> primitive parse" where
  "parse_after_dir d =
     pbind cur_tok (\<lambda>t.
     if t = Some THost then skip (parse_host d)
     else if t = Some TNet then skip (parse_net d)
     else if t = Some TPort then skip (parse_port d None)
     else if t = Some TPortRange then skip (parse_portrange d None)
     else if t = Some TTcp then skip (ports_only d Tcp ''tcp'')
     else if t = Some TUdp then skip (ports_only d Udp ''udp'')
     else if t = Some TSctp then skip (ports_only d Sctp ''sctp'')
     else if as_ipv4 t \<noteq> None \<or> as_ipv6 t \<noteq> None \<or> as_num t \<noteq> None then parse_host d
     else err (''expected '' @ quoted ''host'' @ '', '' @ quoted ''net'' @ '', '' @ quoted ''port'' @ '', '' @
               quoted ''portrange'' @ '', or an IP address after direction qualifier, got '' @ debug_opt t))"

definition mac_broadcast :: mac_addr where
  "mac_broadcast = MacAddr 0xff 0xff 0xff 0xff 0xff 0xff"

definition ethertypes :: "(token \<times> u16) list" where
  "ethertypes = [(TIp, 0x0800), (TIp6, 0x86dd), (TArp, 0x0806), (TRarp, 0x8035)]"

definition parse_ether_prim :: "primitive parse" where
  "parse_ether_prim =
     skip (
     pbind cur_tok (\<lambda>t.
     if t = Some TLBracket then parse_byte_access Raw
     else
       pbind parse_dir (\<lambda>d.
       pbind cur_tok (\<lambda>t.
       if t = Some THost then skip (pbind parse_mac_tok (\<lambda>m. preturn (EtherHost m d)))
       else if as_mac t \<noteq> None then pbind parse_mac_tok (\<lambda>m. preturn (EtherHost m d))
       else if t = Some TBroadcast then skip (preturn (EtherHost mac_broadcast Dst))
       else if t = Some TMulticast then skip (preturn EtherMulticast)
       else if t = Some TProto then
         skip (
         pbind cur_tok (\<lambda>u.
         case Option.bind u (map_of ethertypes) of
           Some e \<Rightarrow> skip (preturn (EtherProto e))
         | None \<Rightarrow> pbind parse_u32 (\<lambda>n. preturn (EtherProto (ucast n)))))
       else
         case Option.bind t (map_of ethertypes) of
           Some e \<Rightarrow> skip (preturn (EtherProto e))
         | None \<Rightarrow>
             err (''expected '' @ quoted ''host'' @ '', '' @ quoted ''broadcast'' @ '', '' @ quoted ''multicast'' @
                  '', '' @ quoted ''proto'' @ '', '' @ quoted ''ip'' @ '', '' @ quoted ''ip6'' @ '', '' @
                  quoted ''arp'' @ '', '' @ quoted ''rarp'' @ '', or a MAC address after '' @ quoted ''ether'' @
                  '', got '' @ debug_opt t)))))"

text \<open>The bare keywords with no continuation.\<close>

definition plain_prims :: "(token \<times> primitive) list" where
  "plain_prims =
     [(TBroadcast, EtherHost mac_broadcast Dst), (TMulticast, EtherMulticast),
      (TArp, Proto Arp), (TRarp, Proto Rarp), (TIgmp, Proto Igmp),
      (TAh, Proto (Num 51)), (TEsp, Proto (Num 50)), (TPim, Proto (Num 103)), (TIgrp, Proto (Num 9)),
      (TVrrp, Proto (Num 112)), (TPppoed, PppoeDiscovery), (TInbound, Inbound), (TOutbound, Outbound)]"

text \<open>A keyword that may be followed by a byte access in its layer.\<close>

definition or_access :: "layer \<Rightarrow> primitive parse \<Rightarrow> primitive parse" where
  "or_access l otherwise =
     pbind cur_tok (\<lambda>t. if t = Some TLBracket then parse_byte_access l else otherwise)"

definition parse_ip_prim :: "primitive parse" where
  "parse_ip_prim =
     or_access Net_Layer (
     pbind (eat TProto) (\<lambda>b. if b then pbind parse_proto_num (\<lambda>n. preturn (Proto (Num n))) else
     pbind (eat TProtochain) (\<lambda>b. if b then pbind parse_proto_num (\<lambda>n. preturn (IpProtoChain n)) else
     pbind (eat TBroadcast) (\<lambda>b. if b then preturn IpBroadcast else
     pbind (eat TMulticast) (\<lambda>b. if b then preturn IpMulticast else
     preturn (Proto Ip))))))"

definition parse_ip6_prim :: "primitive parse" where
  "parse_ip6_prim =
     or_access Net_Layer (
     pbind (eat TProto) (\<lambda>b. if b then pbind parse_proto_num (\<lambda>n. preturn (Proto (Ip6Proto n))) else
     pbind (eat TProtochain) (\<lambda>b. if b then pbind parse_proto_num (\<lambda>n. preturn (Ip6ProtoChain n)) else
     pbind (eat TMulticast) (\<lambda>b. if b then preturn Ip6Multicast else
     preturn (Proto Ip6)))))"

text \<open>An optional number after a keyword.\<close>

definition opt_num :: "nat option parse" where
  "opt_num =
     pbind cur_tok (\<lambda>t.
     case as_num t of
       Some n \<Rightarrow> skip (preturn (Some n))
     | None \<Rightarrow> preturn None)"

definition parse_pppoes :: "primitive parse" where
  "parse_pppoes =
     pbind cur_tok (\<lambda>t.
     case as_num t of
       Some n \<Rightarrow>
         if n > 0xffff then err (''pppoes session ID '' @ show_nat n @ '' out of range (max 65535)'')
         else skip (preturn (PppoeSession (Some (of_nat n))))
     | None \<Rightarrow> preturn (PppoeSession None))"

definition parse_primitive :: "primitive parse" where
  "parse_primitive =
     pbind cur_tok (\<lambda>t.
     if t = Some TLess then skip (pbind parse_u32 (\<lambda>v. preturn (Len CmpLe v)))
     else if t = Some TGreater then skip (pbind parse_u32 (\<lambda>v. preturn (Len CmpGe v)))
     else if t = Some TLen then
       skip (pbind parse_cmpop (\<lambda>c. pbind parse_u32 (\<lambda>v. preturn (Len c v))))
     else if t = Some TIp then skip parse_ip_prim
     else if t = Some TIp6 then skip parse_ip6_prim
     else if t = Some TIcmp then skip (or_access Trans (preturn (Proto Icmp)))
     else if t = Some TIcmp6 then skip (or_access Trans (preturn (Proto Icmp6)))
     else if t = Some TSctp then skip (proto_ports SrcOrDst Sctp (preturn (Proto Sctp)))
     else if t = Some TTcp then skip (or_access Trans (proto_ports SrcOrDst Tcp (preturn (Proto Tcp))))
     else if t = Some TUdp then skip (or_access Trans (proto_ports SrcOrDst Udp (preturn (Proto Udp))))
     else if t = Some TProto then skip (pbind parse_u32 (\<lambda>n. preturn (Proto (Num (ucast n)))))
     else if t = Some TVlan then
       skip (pbind opt_num (\<lambda>n. preturn (Vlan (map_option of_nat n))))
     else if t = Some TMpls then
       skip (pbind opt_num (\<lambda>n. preturn (Mpls (map_option of_nat n))))
     else if t = Some TPppoes then skip parse_pppoes
     else if t = Some TGateway then
       skip (skip (err (quoted ''gateway'' @ '' requires DNS resolution and is not supported'')))
     else if t = Some TEther then parse_ether_prim
     else if t = Some TSrc \<or> t = Some TDst then pbind parse_dir (\<lambda>d. parse_after_dir d)
     else if t = Some THost then skip (parse_host SrcOrDst)
     else if t = Some TNet then skip (parse_net SrcOrDst)
     else if t = Some TPort then skip (parse_port SrcOrDst None)
     else if t = Some TPortRange then skip (parse_portrange SrcOrDst None)
     else if (case as_ipv4 t of Some (_, parts) \<Rightarrow> parts < 4 | None \<Rightarrow> False) then
       err (''a short IPv4 address needs '' @ quoted ''host'' @ '' or '' @ quoted ''net'' @
            '' before it (e.g. host 10.1)'')
     else if as_ipv4 t \<noteq> None \<or> as_ipv6 t \<noteq> None then parse_host SrcOrDst
     else if t = Some TLBracket then parse_byte_access Raw
     else
       case Option.bind t (map_of plain_prims) of
         Some pr \<Rightarrow> skip (preturn pr)
       | None \<Rightarrow>
           err (''unexpected token '' @ debug_opt t @ '' '' @ em_dash @ '' expected a filter primitive''))"

end
