(* ===== verification/Parser_Prims_Spec.thy ===== *)
theory Parser_Prims_Spec
  imports Parser_Prims Lexer_Props
begin

text \<open>
  What the parsing methods do to the parser state and what they give, by weakest preconditions:
  \<open>pwp m Q p\<close> says that \<open>m\<close> started in \<open>p\<close> ends with a \<open>ParseError\<close> or with a value and a state in
  \<open>Q\<close>; in particular it does not panic and does not run out of fuel.
\<close>

named_theorems pwp_simps "weakest preconditions of the parser's building blocks"

definition pwp :: "'a parse \<Rightarrow> ('a \<Rightarrow> parser \<Rightarrow> bool) \<Rightarrow> parser \<Rightarrow> bool" where
  "pwp m Q p \<longleftrightarrow> (case m p of Inl e \<Rightarrow> (\<exists>s. e = ParseError s) | Inr (v, q) \<Rightarrow> Q v q)"

definition bump :: "parser \<Rightarrow> parser" where
  "bump p = p\<lparr>p_pos := p_pos p + 1\<rparr>"

definition adv :: "parser \<Rightarrow> parser \<Rightarrow> bool" where
  "adv p q \<longleftrightarrow> p_tokens q = p_tokens p \<and> p_depth q = p_depth p \<and> p_pos p \<le> p_pos q \<and>
     p_pos q \<le> max (p_pos p) (length (p_tokens p))"

definition step :: "parser \<Rightarrow> parser \<Rightarrow> bool" where
  "step p q \<longleftrightarrow> adv p q \<and> p_pos p < p_pos q"

lemma pwp_mono: "pwp m Q p \<Longrightarrow> (\<And>v q. Q v q \<Longrightarrow> R v q) \<Longrightarrow> pwp m R p"
  by (auto simp: pwp_def split: sum.splits)

lemma pwp_pbind [pwp_simps]: "pwp (pbind m f) Q p = pwp m (\<lambda>v q. pwp (f v) Q q) p"
  by (auto simp: pwp_def pbind_def split: sum.splits)

lemma pwp_preturn [pwp_simps]: "pwp (preturn v) Q p = Q v p"
  by (simp add: pwp_def preturn_def)

lemma pwp_err [pwp_simps]: "pwp (err s) Q p"
  by (simp add: pwp_def err_def)

lemma pwp_cur_tok [pwp_simps]: "pwp cur_tok Q p = Q (cur p) p"
  by (simp add: pwp_def cur_tok_def)

lemma pwp_peek_tok [pwp_simps]:
  "pwp (peek_tok k) Q p = Q (map_option spanned_token (get_at (p_tokens p) (p_pos p + k))) p"
  by (simp add: pwp_def peek_tok_def)

lemma pwp_advance [pwp_simps]:
  "pwp advance Q p = (if cur p = None then Q None p else Q (cur p) (bump p))"
  by (auto simp: pwp_def advance_def bump_def Let_def)

lemma pwp_eat [pwp_simps]: "pwp (eat t) Q p = (if cur p = Some t then Q True (bump p) else Q False p)"
  by (simp add: pwp_def eat_def bump_def)

lemma pwp_expect [pwp_simps]: "pwp (expect t) Q p = (cur p = Some t \<longrightarrow> Q () (bump p))"
  by (simp add: expect_def pwp_simps)

lemma pwp_skip [pwp_simps]: "pwp (skip m) Q p = (if cur p = None then pwp m Q p else pwp m Q (bump p))"
  by (simp add: skip_def pwp_simps)

lemma pwp_if [pwp_simps]: "pwp (if b then m else n) Q p = (if b then pwp m Q p else pwp n Q p)"
  by simp

lemma pwp_ifI: "(b \<Longrightarrow> pwp m Q p) \<Longrightarrow> (\<not> b \<Longrightarrow> pwp n Q p) \<Longrightarrow> pwp (if b then m else n) Q p"
  by simp

lemma pwp_optionI:
  "(\<And>v. r = Some v \<Longrightarrow> pwp (f v) Q p) \<Longrightarrow> (r = None \<Longrightarrow> pwp m Q p) \<Longrightarrow>
     pwp (case r of Some v \<Rightarrow> f v | None \<Rightarrow> m) Q p"
  by (cases r) simp_all

lemma pwp_app [pwp_simps]: "pwp (\<lambda>q. rbind (r q) (\<lambda>v. f v q)) Q p =
    (case r p of Inl e \<Rightarrow> \<exists>s. e = ParseError s | Inr v \<Rightarrow> pwp (f v) Q p)"
  by (auto simp: pwp_def split: sum.splits)

lemma cur_Some_less: "cur p = Some t \<Longrightarrow> p_pos p < length (p_tokens p)"
  by (auto simp: cur_def get_at_def split: if_splits)

lemma adv_refl [simp]: "adv p p"
  by (simp add: adv_def)

lemma adv_trans: "adv p q \<Longrightarrow> adv q r \<Longrightarrow> adv p r"
  by (auto simp: adv_def)

lemma step_adv: "step p q \<Longrightarrow> adv p q"
  by (simp add: step_def)

lemma step_bump: "cur p \<noteq> None \<Longrightarrow> step p (bump p)"
  by (auto simp: step_def adv_def bump_def dest!: cur_Some_less)

lemma step_trans:
  "step p q \<Longrightarrow> adv q r \<Longrightarrow> step p r" "adv p q \<Longrightarrow> step q r \<Longrightarrow> step p r"
  by (auto simp: step_def adv_def)

lemma adv_bump: "cur p \<noteq> None \<Longrightarrow> adv (bump p) q \<Longrightarrow> step p q"
  using step_bump step_trans by blast

lemma step_closing: "cur r = Some t \<Longrightarrow> step p q \<Longrightarrow> step q r \<Longrightarrow> step p (bump r)"
  using step_bump [of r] by (auto simp: step_def adv_def)

lemma step_step: "step p q \<Longrightarrow> step q r \<Longrightarrow> step p r"
  by (auto simp: step_def adv_def)

lemma bump_step:
  "cur p = Some t \<Longrightarrow> step (bump p) q \<Longrightarrow> step p q"
  "cur p = Some t \<Longrightarrow> step (bump p) q \<Longrightarrow> adv p q"
  "cur p = Some t \<Longrightarrow> cur (bump p) = Some u \<Longrightarrow> adv p (bump (bump p))"
  "cur p = Some t \<Longrightarrow> adv p (bump p)"
  "step p q \<Longrightarrow> cur q = Some t \<Longrightarrow> step (bump q) r \<Longrightarrow> step p r"
  "step p q \<Longrightarrow> cur q = Some t \<Longrightarrow> step p (bump q)"
  using step_bump [of p] step_bump [of q] step_bump [of "bump p"] by (auto simp: step_def adv_def)

lemma pos_bump [simp]: "p_pos (bump p) = Suc (p_pos p)" "p_tokens (bump p) = p_tokens p"
  "p_depth (bump p) = p_depth p"
  by (simp_all add: bump_def)

lemma as_None [simp]: "as_num None = None" "as_ipv4 None = None" "as_ipv6 None = None" "as_mac None = None"
  by (simp_all add: as_num_def as_ipv4_def as_ipv6_def as_mac_def)

section \<open>Token helpers\<close>

lemma spec_parse_ip:
  assumes "\<And>a q. step p q \<Longrightarrow> Q a q" shows "pwp parse_ip Q p"
  using assms step_bump [of p] by (auto simp: parse_ip_def pwp_simps split: option.splits)

lemma spec_parse_mac:
  assumes "\<And>m q. step p q \<Longrightarrow> Q m q" shows "pwp parse_mac_tok Q p"
  using assms step_bump [of p] by (auto simp: parse_mac_tok_def pwp_simps split: option.splits)

lemma spec_parse_u32:
  assumes "\<And>n q. step p q \<Longrightarrow> Q n q" shows "pwp parse_u32 Q p"
  using assms step_bump [of p] by (auto simp: parse_u32_def pwp_simps split: option.splits)

lemma spec_parse_u16:
  assumes "\<And>n q. step p q \<Longrightarrow> Q n q" shows "pwp parse_u16 Q p"
  unfolding parse_u16_def pwp_pbind using assms by (intro spec_parse_u32) (simp add: pwp_simps)

lemma spec_parse_proto_num:
  assumes "\<And>n q. step p q \<Longrightarrow> Q n q" shows "pwp parse_proto_num Q p"
  using assms step_bump [of p]
  by (auto simp: parse_proto_num_def pwp_simps intro!: spec_parse_u32 split: option.splits)

lemma spec_parse_cmpop:
  assumes "\<And>c q. step p q \<Longrightarrow> Q c q" shows "pwp parse_cmpop Q p"
  using assms step_bump [of p] by (auto simp: parse_cmpop_def pwp_simps split: option.splits)

section \<open>Offset expressions stay inside \<open>i64\<close>\<close>

lemma in_i64_signed: "in_i64 v \<longleftrightarrow> signed_take_bit 63 v = v"
  by (simp add: in_i64_def signed_take_bit_int_eq_self_iff)

lemma in_i64_bits: "in_i64 v \<longleftrightarrow> (\<forall>n. bit v (min 63 n) = bit v n)"
  unfolding in_i64_signed bit_eq_iff by (simp add: bit_signed_take_bit_iff)

lemma in_i64_bitwise:
  assumes "in_i64 a" "in_i64 b" shows "in_i64 (a AND b)" "in_i64 (a OR b)" "in_i64 (a XOR b)"
  using assms
  unfolding in_i64_bits by (simp_all add: bit_and_iff bit_or_iff bit_xor_iff)

lemma in_i64_drop_bit:
  assumes "in_i64 a" shows "in_i64 (drop_bit k a)"
proof (cases "0 \<le> a")
  case True
  then have "0 \<le> a div 2 ^ k" "a div 2 ^ k \<le> a"
    using zdiv_mono2 [of a 1 "2 ^ k"] by (simp_all add: pos_imp_zdiv_nonneg_iff)
  then show ?thesis using assms by (simp add: in_i64_def drop_bit_eq_div)
next
  case False
  then have "a div 2 ^ k < 0" "a \<le> a div 2 ^ k"
    using zdiv_mono2_neg [of a 1 "2 ^ k"] by (simp_all add: div_neg_pos_less0)
  then show ?thesis using assms by (simp add: in_i64_def drop_bit_eq_div)
qed

definition op_ok :: "offset_op \<Rightarrow> bool" where
  "op_ok f \<longleftrightarrow>
     (\<forall>a b. in_i64 a \<longrightarrow> in_i64 b \<longrightarrow>
        (case f a b of Inl e \<Rightarrow> \<exists>s. e = ParseError s | Inr v \<Rightarrow> in_i64 v))"

lemma op_ok_checked: "op_ok (\<lambda>a b. checked (f a b))"
  by (simp add: op_ok_def checked_def)

lemma op_ok_bitwise:
  "op_ok (\<lambda>a b. Inr (a AND b))" "op_ok (\<lambda>a b. Inr (a OR b))" "op_ok (\<lambda>a b. Inr (a XOR b))"
  by (simp_all add: op_ok_def in_i64_bitwise)

lemma op_ok_shifts: "op_ok offset_shl" "op_ok offset_shr" "op_ok offset_div"
proof -
  show "op_ok offset_shl"
    by (auto simp: op_ok_def offset_shl_def shift_amount_def Let_def in_i64_signed)
  show "op_ok offset_shr"
    by (auto simp: op_ok_def offset_shr_def shift_amount_def in_i64_drop_bit)
  show "op_ok offset_div"
    by (auto simp: op_ok_def offset_div_def checked_def)
qed

lemma op_loop_spec:
  assumes sub: "\<And>q R. adv p q \<Longrightarrow> (\<And>v r. step q r \<Longrightarrow> in_i64 v \<Longrightarrow> R v r) \<Longrightarrow> pwp sub R q"
    and ops: "\<forall>(t, f)\<in>set ops. op_ok f"
  shows "adv p q \<Longrightarrow> remaining q < n \<Longrightarrow> in_i64 lhs \<Longrightarrow>
    pwp (op_loop n ops sub lhs) (\<lambda>v r. adv q r \<and> in_i64 v) q"
proof (induction n arbitrary: lhs q)
  case (Suc n)
  show ?case
  proof (cases "Option.bind (cur q) (map_of ops)")
    case None
    then show ?thesis using Suc.prems by (simp add: pwp_def)
  next
    case (Some f)
    then obtain t where t: "cur q = Some t" "map_of ops t = Some f" by (cases "cur q") auto
    have f: "op_ok f" using ops map_of_SomeD [OF t(2)] by auto
    have bump: "step q (bump q)" using step_bump t by simp
    have loop: "pwp (op_loop n ops sub w) (\<lambda>v r'. adv q r' \<and> in_i64 v) r"
      if r: "step (bump q) r" and w: "in_i64 w" for w r
    proof -
      have qr: "step q r" using bump r step_trans step_adv by blast
      then have "remaining r < n" using Suc.prems cur_Some_less [OF t(1)]
        by (auto simp: remaining_def step_def adv_def)
      from Suc.IH [OF adv_trans [OF Suc.prems(1) step_adv [OF qr]] this w] show ?thesis
        using step_adv [OF qr] adv_trans by (auto elim!: pwp_mono)
    qed
    have "pwp sub (\<lambda>rhs r. pwp (\<lambda>r'. rbind (f lhs rhs) (\<lambda>v. op_loop n ops sub v r'))
        (\<lambda>v r'. adv q r' \<and> in_i64 v) r) (bump q)"
    proof (rule sub)
      show "adv p (bump q)" using adv_trans [OF Suc.prems(1) step_adv [OF bump]] .
      fix v r assume r: "step (bump q) r" and v: "in_i64 v"
      have "case f lhs v of Inl e \<Rightarrow> \<exists>s. e = ParseError s | Inr v \<Rightarrow> in_i64 v"
        using f Suc.prems(3) v by (simp add: op_ok_def)
      then show "pwp (\<lambda>r'. rbind (f lhs v) (\<lambda>v. op_loop n ops sub v r')) (\<lambda>v r'. adv q r' \<and> in_i64 v) r"
        using loop [OF r] by (cases "f lhs v") (auto simp: pwp_def)
    qed
    then have "pwp (pbind (skip sub) (\<lambda>rhs r. rbind (f lhs rhs) (\<lambda>v. op_loop n ops sub v r)))
        (\<lambda>v r. adv q r \<and> in_i64 v) q"
      using t by (simp add: pwp_pbind pwp_skip)
    then show ?thesis using Some by (simp add: pwp_def)
  qed
qed simp

lemma spec_op_level:
  assumes sub: "\<And>q R. adv p q \<Longrightarrow> (\<And>v r. step q r \<Longrightarrow> in_i64 v \<Longrightarrow> R v r) \<Longrightarrow> pwp sub R q"
    and ops: "\<forall>(t, f)\<in>set ops. op_ok f" and post: "\<And>v r. step p r \<Longrightarrow> in_i64 v \<Longrightarrow> Q v r"
  shows "pwp (op_level ops sub) Q p"
proof -
  have "pwp sub (\<lambda>lhs. pwp (\<lambda>r. op_loop (Suc (remaining r)) ops sub lhs r) Q) p"
  proof (rule sub)
    fix v r assume r: "step p r" and v: "in_i64 v"
    have "pwp (op_loop (Suc (remaining r)) ops sub v) (\<lambda>v r'. adv r r' \<and> in_i64 v) r"
      using op_loop_spec [OF sub ops step_adv [OF r] _ v, of "Suc (remaining r)"] by simp
    then have "pwp (op_loop (Suc (remaining r)) ops sub v) Q r"
      using r step_trans(1) by (auto intro: post elim!: pwp_mono)
    then show "pwp (\<lambda>r. op_loop (Suc (remaining r)) ops sub v r) Q r" by (simp add: pwp_def)
  qed simp
  then show ?thesis by (simp add: op_level_def pwp_pbind)
qed

text \<open>Every level of the ladder does with its operands what the levels below it do.\<close>

definition offset_operand :: "parser \<Rightarrow> int parse \<Rightarrow> bool" where
  "offset_operand p sub \<longleftrightarrow>
     (\<forall>q R. adv p q \<longrightarrow> (\<forall>v r. step q r \<longrightarrow> in_i64 v \<longrightarrow> R v r) \<longrightarrow> pwp sub R q)"

lemma operand_adv: "offset_operand p sub \<Longrightarrow> adv p q \<Longrightarrow> offset_operand q sub"
  using adv_trans by (auto simp: offset_operand_def)

lemma operand_level:
  assumes "offset_operand p sub" "\<forall>(t, f)\<in>set ops. op_ok f" shows "offset_operand p (op_level ops sub)"
  unfolding offset_operand_def
proof (intro allI impI)
  fix q R assume "adv p q" "\<forall>v r. step q r \<longrightarrow> in_i64 v \<longrightarrow> R v r"
  with assms show "pwp (op_level ops sub) R q"
    using operand_adv [of p sub q] by (intro spec_op_level) (auto simp: offset_operand_def)
qed

lemmas ladder_defs = parse_offset_or_def parse_offset_xor_def parse_offset_and_def parse_offset_shift_def
  parse_offset_add_def parse_offset_mul_def

lemma operand_ladder: "offset_operand p atom \<Longrightarrow> offset_operand p (parse_offset_or atom)"
  unfolding ladder_defs
  by (intro operand_level) (auto intro: op_ok_checked op_ok_bitwise op_ok_shifts)

lemma pwp_nested_offset:
  assumes "p_depth p + cost \<le> MAX_OFFSET_DEPTH \<Longrightarrow>
    pwp f (\<lambda>v r. Q v (r\<lparr>p_depth := p_depth r - cost\<rparr>)) (p\<lparr>p_depth := p_depth p + cost\<rparr>)"
  shows "pwp (nested_offset cost f) Q p"
  using assms by (auto simp: nested_offset_def pwp_def Let_def split: sum.splits)

lemma step_depth:
  "step (p\<lparr>p_depth := p_depth p + c\<rparr>) r \<Longrightarrow> step p (r\<lparr>p_depth := p_depth r - c\<rparr>)"
  by (auto simp: step_def adv_def)

lemma operand_atom: "MAX_OFFSET_DEPTH < p_depth p + k \<Longrightarrow> 0 < k \<Longrightarrow> offset_operand p (parse_offset_atom k)"
proof (induction k arbitrary: p)
  case (Suc k)
  have nested: "pwp (nested_offset c (g (parse_offset_atom k))) (\<lambda>v r. step q r \<and> in_i64 v) q"
    if q: "adv p q" and c: "0 < c" and g: "\<And>r. offset_operand r (parse_offset_atom k) \<Longrightarrow> offset_operand r (g (parse_offset_atom k))"
    for q c g
  proof (rule pwp_nested_offset)
    let ?q = "q\<lparr>p_depth := p_depth q + c\<rparr>"
    assume d: "p_depth q + c \<le> MAX_OFFSET_DEPTH"
    have "offset_operand ?q (parse_offset_atom k)"
      using Suc.IH [of ?q] Suc.prems q c d by (auto simp: adv_def)
    from g [OF this] show "pwp (g (parse_offset_atom k)) (\<lambda>v r. step q (r\<lparr>p_depth := p_depth r - c\<rparr>) \<and> in_i64 v) ?q"
      using step_depth by (auto simp: offset_operand_def)
  qed
  show ?case
    unfolding offset_operand_def
  proof (intro allI impI)
    fix q R assume q: "adv p q" and post: "\<forall>v r. step q r \<longrightarrow> in_i64 v \<longrightarrow> R v r"
    consider (paren) "cur q = Some TLParen" | (neg) "cur q = Some TMinus"
      | (num) "cur q \<noteq> Some TLParen" "cur q \<noteq> Some TMinus" by blast
    then show "pwp (parse_offset_atom (Suc k)) R q"
    proof cases
      case paren
      note bump = step_bump [of q] and down = nested [of "bump q" OFFSET_PAREN_COST parse_offset_or]
      have "adv p (bump q)" using bump paren q adv_trans step_adv by force
      from down [OF this _ operand_ladder] show ?thesis
        using paren post bump
        by (auto simp: pwp_simps OFFSET_PAREN_COST_def elim!: pwp_mono dest: step_closing)
    next
      case neg
      note bump = step_bump [of q] and down = nested [of "bump q" 1 "\<lambda>x. x"]
      have "adv p (bump q)" using bump neg q adv_trans step_adv by force
      from down [OF this] have D: "pwp (nested_offset 1 (parse_offset_atom k)) (\<lambda>v r. step (bump q) r \<and> in_i64 v) (bump q)"
        by simp
      have "pwp (\<lambda>p. rbind (checked (- v)) (\<lambda>w. Inr (w, p))) R r" if "step (bump q) r" for v r
        using that post neg step_step [OF bump that] by (auto simp: pwp_def checked_def)
      then show ?thesis using neg by (simp add: pwp_pbind pwp_skip pwp_cur_tok) (rule pwp_mono [OF D [unfolded One_nat_def]], simp)
    next
      case num
      have "in_i64 (uint n)" for n :: u32
        using uint_lt2p [of n] order_trans [OF _ uint_ge_0 [of n], of "- (2 ^ 63)"] by (simp add: in_i64_def)
      then show ?thesis using num post by (auto simp: pwp_simps intro!: spec_parse_u32)
    qed
  qed
qed simp

section \<open>What the tree of a parsed filter satisfies\<close>

fun load_ok :: "cmp_rhs \<Rightarrow> bool" where
  "load_ok (Const n) \<longleftrightarrow> True"
| "load_ok (LoadRhs b) \<longleftrightarrow> 0 \<le> sint (load_offset b)"

fun prim_ok :: "primitive \<Rightarrow> bool" where
  "prim_ok (Net n d) \<longleftrightarrow> net_addr n AND NOT (net_mask n) = 0"
| "prim_ok (Net6 n d) \<longleftrightarrow>
     unat (prefix_len n) \<le> 128 \<and> u128_of (net6_addr n) AND host_bits (unat (prefix_len n)) = 0"
| "prim_ok (ByteAccess b) \<longleftrightarrow> 0 \<le> sint (ba_offset b) \<and> load_ok (ba_rhs b)"
| "prim_ok _ \<longleftrightarrow> True"

definition toks_ok :: "parser \<Rightarrow> bool" where
  "toks_ok p \<longleftrightarrow> (\<forall>s\<in>set (p_tokens p). token_ok (spanned_token s))"

lemma toks_ok_adv: "adv p q \<Longrightarrow> toks_ok q = toks_ok p"
  by (simp add: toks_ok_def adv_def)

lemma cur_ok: "toks_ok p \<Longrightarrow> cur p = Some t \<Longrightarrow> token_ok t"
  by (auto simp: toks_ok_def cur_def get_at_def split: if_splits)

lemma as_ipv4_ok:
  assumes "token_ok t" "as_ipv4 (Some t) = Some (a, parts)"
  shows "2 \<le> parts \<and> parts \<le> 4 \<and> a AND NOT (octets_mask parts) = 0"
proof -
  obtain w x y z where t: "t = TIpv4 w x y z parts" and a: "a = be32 w x y z"
    using assms(2) by (cases t) (auto simp: as_ipv4_def)
  have "2 \<le> parts" "parts \<le> 4" using assms(1) t by auto
  then consider "parts = 2" "y = 0" "z = 0" | "parts = 3" "z = 0" | "parts = 4" using assms(1) t by fastforce
  then have "a AND NOT (octets_mask parts) = 0"
  proof cases
    case 1
    then show ?thesis unfolding a octets_mask_def be32_def
      by (intro bit_word_eqI) (auto simp: bit_simps)
  next
    case 2
    then show ?thesis unfolding a octets_mask_def be32_def
      by (intro bit_word_eqI) (auto simp: bit_simps)
  next
    case 3
    then show ?thesis by (simp add: octets_mask_def)
  qed
  with \<open>2 \<le> parts\<close> \<open>parts \<le> 4\<close> show ?thesis by simp
qed

lemma shift_net_ok: "addr AND NOT msk = 0 \<Longrightarrow> shift_net addr msk = (a, m) \<Longrightarrow> a AND NOT m = 0"
proof (induction addr msk rule: shift_net.induct)
  case (1 addr msk)
  have shifted: "push_bit 8 addr AND NOT (push_bit 8 msk) = 0"
  proof (rule bit_word_eqI)
    fix n assume "n < LENGTH(32)"
    have "\<not> bit (addr AND NOT msk) (n - 8)" using "1.prems"(1) by simp
    then show "bit (push_bit 8 addr AND NOT (push_bit 8 msk)) n = bit (0 :: u32) n"
      by (auto simp: bit_simps)
  qed
  show ?case
  proof (cases "addr \<noteq> 0 \<and> addr AND 0xff000000 = 0")
    case True
    then have "shift_net (push_bit 8 addr) (push_bit 8 msk) = (a, m)"
      using "1.prems"(2) by (subst (asm) shift_net.simps) simp
    from "1.IH" [OF True shifted this] show ?thesis .
  next
    case False
    then have "(addr, msk) = (a, m)" using "1.prems"(2) by (subst (asm) shift_net.simps) (simp split: if_splits)
    then show ?thesis using "1.prems"(1) by simp
  qed
qed

section \<open>Primitives\<close>

text \<open>The post-condition of a primitive: tokens were used, and the value is in order if the tokens are.\<close>

definition prim_post :: "parser \<Rightarrow> primitive \<Rightarrow> parser \<Rightarrow> bool" where
  "prim_post p v q \<longleftrightarrow> step p q \<and> (toks_ok p \<longrightarrow> prim_ok v)"

lemma prim_post_adv: "adv p q \<Longrightarrow> prim_post q v r \<Longrightarrow> prim_post p v r"
  using step_trans(2) [of p q r] by (auto simp: prim_post_def toks_ok_adv)

lemma prim_post_bump: "cur p \<noteq> None \<Longrightarrow> prim_post (bump p) v r \<Longrightarrow> prim_post p v r"
  by (rule prim_post_adv) (use step_adv step_bump in blast)

lemma pwp_prim_bump:
  assumes "cur p \<noteq> None" "pwp m (prim_post (bump p)) (bump p)" shows "pwp (skip m) (prim_post p) p"
  using pwp_mono [OF assms(2) prim_post_bump [OF assms(1)]] assms(1) by (auto simp: pwp_skip)

lemma pwp_prim_return: "cur p \<noteq> None \<Longrightarrow> prim_ok v \<Longrightarrow> pwp (skip (preturn v)) (prim_post p) p"
  using step_bump [of p] by (auto simp: pwp_simps prim_post_def)

lemma spec_parse_offset_expr:
  assumes "\<And>v q. step p q \<Longrightarrow> Q v q" shows "pwp parse_offset_expr Q p"
proof -
  have "offset_operand p (parse_offset_or (parse_offset_atom (Suc MAX_OFFSET_DEPTH)))"
    by (intro operand_ladder operand_atom) auto
  then show ?thesis
    using assms by (auto simp: parse_offset_expr_def pwp_simps offset_operand_def)
qed

lemma spec_access_size:
  assumes "\<And>sz q. adv p q \<Longrightarrow> Q sz q" shows "pwp parse_access_size Q p"
  using assms step_adv step_bump [of p] step_bump [of "bump p"] step_step [of p "bump p" "bump (bump p)"]
  by (auto simp: parse_access_size_def pwp_simps)

lemma spec_brackets:
  assumes "\<And>v q. step p q \<Longrightarrow> 0 \<le> sint (fst v) \<Longrightarrow> Q v q" shows "pwp parse_brackets Q p"
  using step_bump [of p]
  by (auto simp: parse_brackets_def pwp_simps step_def adv_def dest!: cur_Some_less
      intro!: spec_parse_offset_expr spec_access_size assms)

lemma spec_byte_load:
  assumes "\<And>v q. step p q \<Longrightarrow> 0 \<le> sint (load_offset v) \<Longrightarrow> Q v q" shows "pwp (parse_byte_load l) Q p"
  using assms by (auto simp: parse_byte_load_def pwp_simps split: prod.splits intro!: spec_brackets)

lemma spec_cmp_rhs:
  assumes "\<And>v q. step p q \<Longrightarrow> load_ok v \<Longrightarrow> Q v q" shows "pwp parse_cmp_rhs Q p"
  using step_bump [of p] step_step [of p "bump p"]
  by (auto simp: parse_cmp_rhs_def pwp_simps intro!: spec_byte_load spec_parse_u32 assms split: option.splits)

lemma spec_alu_ops: "remaining p < n \<Longrightarrow> pwp (parse_alu_ops n) (\<lambda>v q. adv p q) p"
proof (induction n arbitrary: p)
  case (Suc n)
  show ?case
  proof (cases "Option.bind (cur p) (map_of arith_ops)")
    case None
    then show ?thesis by (simp add: pwp_def)
  next
    case (Some aop)
    then obtain t where t: "cur p = Some t" by (cases "cur p") auto
    have "pwp (pbind (skip parse_u32) (\<lambda>operand. pbind (parse_alu_ops n) (\<lambda>ops. preturn ((aop, operand) # ops))))
        (\<lambda>v q. adv p q) p"
      using t cur_Some_less [OF t] Suc.prems
      by (auto simp: pwp_simps remaining_def step_def adv_def intro!: spec_parse_u32 pwp_mono [OF Suc.IH])
    then show ?thesis using Some by (simp add: pwp_def)
  qed
qed simp

lemma spec_byte_access: "pwp (parse_byte_access l) (prim_post p) p"
proof -
  have alu: "pwp (\<lambda>p. parse_alu_ops (Suc (remaining p)) p) (\<lambda>v q. adv p q) p" for p
    using spec_alu_ops [of p "Suc (remaining p)"] by (simp add: pwp_def)
  show ?thesis
    by (auto simp: parse_byte_access_def pwp_simps prim_post_def step_def adv_def split: prod.splits
        intro!: spec_brackets pwp_mono [OF alu] spec_parse_cmpop spec_cmp_rhs simp del: parse_alu_ops.simps)
qed

lemma spec_prefix_len:
  assumes "0 < p_pos p" "p_pos p \<le> length (p_tokens p)" "\<And>n q. step p q \<Longrightarrow> unat n \<le> m \<Longrightarrow> Q n q" "m < 256"
  shows "pwp (parse_prefix_len family m) Q p"
proof -
  obtain slash where slash: "get_at (p_tokens p) (p_pos p - 1) = Some slash" using assms(1,2) by simp
  have "unat (of_nat n :: u8) \<le> m" if "n \<le> m" for n
    using that assms(4) by (simp add: unat_of_nat_u8)
  then have "pwp (pbind advance (\<lambda>t. case as_num t of
      Some n \<Rightarrow> if n \<le> m then preturn (of_nat n) else err (family @ '' prefix length '' @ show_nat n @
        '' out of range (0'' @ en_dash @ show_nat m @ '')'')
    | None \<Rightarrow> err (''expected a prefix length after '' @ quoted ''/'' @ '' at offset '' @
        show_nat (spanned_offset slash)))) Q p"
    using assms(3) step_bump [of p] by (auto simp: pwp_simps split: option.splits)
  then show ?thesis using assms(1) slash by (simp add: pwp_def parse_prefix_len_def)
qed

lemma after_bump:
  "cur p = Some t \<Longrightarrow> 0 < p_pos (bump p) \<and> p_pos (bump p) \<le> length (p_tokens (bump p))"
  by (auto dest: cur_Some_less)

lemma spec_slash_prefix:
  assumes "cur p = Some TSlash" "m < 256" "\<And>n q. step (bump p) q \<Longrightarrow> unat n \<le> m \<Longrightarrow> Q n q"
  shows "pwp (parse_prefix_len family m) Q (bump p)"
  using after_bump [OF assms(1)] assms(2,3) by (intro spec_prefix_len) auto

lemma spec_parse_host: "pwp (parse_host d) (prim_post p) p"
proof -
  have "pwp (pbind parse_ip (\<lambda>addr. preturn (Host addr d))) (prim_post p) p"
    by (auto simp: pwp_simps prim_post_def intro!: spec_parse_ip)
  moreover have "pwp (pbind parse_ip (\<lambda>addr. case addr of V4 a \<Rightarrow> preturn (Host addr d) | V6 a \<Rightarrow>
      pbind (eat TSlash) (\<lambda>b. if b then pbind (parse_prefix_len ''IPv6'' 128) (\<lambda>n.
        if n \<noteq> 128 then err ''mask syntax for networks only'' else preturn (Host addr d))
        else preturn (Host addr d)))) (prim_post p) p"
    by (auto simp: pwp_simps prim_post_def split: ip_addr.splits intro!: spec_parse_ip spec_slash_prefix
        dest: bump_step)
  moreover have "pwp (skip (preturn (Net \<lparr>net_addr = a, net_mask = octets_mask parts\<rparr> d))) (prim_post p) p"
    if ip: "as_ipv4 (cur p) = Some (a, parts)" for a parts
  proof -
    obtain t where t: "cur p = Some t" using ip by (cases "cur p") auto
    then show ?thesis
      using as_ipv4_ok [OF cur_ok [of p]] ip step_bump [of p]
      by (auto simp: pwp_simps prim_post_def)
  qed
  ultimately show ?thesis
    by (auto simp: parse_host_def pwp_pbind pwp_cur_tok split: option.splits)
qed

lemma spec_parse_net6: "pwp (parse_net6 a d) (\<lambda>v q. adv p q \<and> prim_ok v) p"
  by (auto simp: parse_net6_def pwp_simps intro!: spec_slash_prefix dest: bump_step)

lemma spec_parse_net4:
  assumes "toks_ok p \<longrightarrow> a AND NOT (octets_mask parts) = 0"
  shows "pwp (parse_net4 a parts d) (\<lambda>v q. adv p q \<and> (toks_ok p \<longrightarrow> prim_ok v)) p"
  using assms
  by (auto simp: parse_net4_def pwp_simps Let_def intro!: spec_slash_prefix split: option.splits dest: bump_step)

lemma spec_parse_net: "pwp (parse_net d) (prim_post p) p"
proof (cases "cur p")
  case None
  then show ?thesis by (simp add: parse_net_def pwp_simps)
next
  case (Some t)
  have post: "pwp m (\<lambda>v q. adv (bump p) q \<and> (toks_ok (bump p) \<longrightarrow> prim_ok v)) (bump p) \<Longrightarrow>
      pwp m (prim_post p) (bump p)" for m
    using adv_bump [of p] Some by (auto simp: prim_post_def toks_ok_def elim!: pwp_mono)
  have four: "pwp (parse_net4 a parts d) (prim_post p) (bump p)" if "as_ipv4 (Some t) = Some (a, parts)" for a parts
    using that as_ipv4_ok [OF cur_ok [OF _ Some]] by (intro post spec_parse_net4) (auto simp: toks_ok_def)
  have six: "pwp (parse_net6 a d) (prim_post p) (bump p)" for a
    by (intro post pwp_mono [OF spec_parse_net6]) auto
  have num: "net_addr \<lparr>net_addr = a, net_mask = m\<rparr> AND NOT m = 0" if "shift_net w (NOT 0) = (a, m)" for w a m
    using shift_net_ok [OF _ that] by simp
  show ?thesis
    using Some four six num step_bump [of p]
    by (auto simp: parse_net_def pwp_simps prim_post_def split: option.splits prod.splits)
qed

lemma spec_parse_port: "pwp (parse_port d pr) (prim_post p) p"
  by (auto simp: parse_port_def pwp_simps prim_post_def intro!: spec_parse_u16)

lemma spec_parse_portrange: "pwp (parse_portrange d pr) (prim_post p) p"
  by (auto simp: parse_portrange_def pwp_simps prim_post_def intro!: spec_parse_u16 dest: bump_step)

lemma spec_parse_dir: "pwp parse_dir (\<lambda>v q. adv p q) p"
  using step_bump [of p] step_bump [of "bump p"] step_bump [of "bump (bump p)"]
    step_bump [of "bump (bump (bump p))"]
  by (auto simp: parse_dir_def pwp_simps step_def adv_def)

text \<open>
  After a keyword it is enough that the rest does not go back: the keyword is the token used.
\<close>

definition rest_post :: "parser \<Rightarrow> primitive \<Rightarrow> parser \<Rightarrow> bool" where
  "rest_post p v q \<longleftrightarrow> adv p q \<and> (toks_ok p \<longrightarrow> prim_ok v)"

lemma prim_rest: "pwp m (prim_post p) p \<Longrightarrow> pwp m (rest_post p) p"
  by (erule pwp_mono) (auto simp: prim_post_def rest_post_def step_adv)

lemma rest_bump: "cur p \<noteq> None \<Longrightarrow> rest_post (bump p) v q \<Longrightarrow> prim_post p v q"
  using adv_bump [of p q] by (auto simp: prim_post_def rest_post_def toks_ok_def)

lemma rest_post_adv: "adv p q \<Longrightarrow> rest_post q v r \<Longrightarrow> rest_post p v r"
  using adv_trans [of p q r] by (auto simp: rest_post_def toks_ok_adv)

lemma pwp_keyword:
  assumes "cur p \<noteq> None" "pwp m (rest_post (bump p)) (bump p)" shows "pwp (skip m) (prim_post p) p"
  using pwp_mono [OF assms(2) rest_bump [OF assms(1)]] assms(1) by (auto simp: pwp_skip)

lemma pwp_rest_return: "prim_ok v \<Longrightarrow> pwp (preturn v) (rest_post p) p"
  by (simp add: pwp_simps rest_post_def)

lemma pwp_rest_eat:
  assumes "pwp (f True) (rest_post (bump p)) (bump p)" "pwp (f False) (rest_post p) p"
  shows "pwp (pbind (eat t) f) (rest_post p) p"
proof -
  have "pwp (f True) (rest_post p) (bump p)" if "cur p = Some t"
    using that pwp_mono [OF assms(1)] step_bump [of p]
    by (auto simp: rest_post_def toks_ok_def step_def adv_def elim!: pwp_mono [OF assms(1)])
  then show ?thesis using assms(2) by (simp add: pwp_simps)
qed

lemma pwp_prim_eat:
  assumes "pwp (f True) (rest_post (bump p)) (bump p)" "pwp (f False) (prim_post p) p"
  shows "pwp (pbind (eat t) f) (prim_post p) p"
  using assms pwp_mono [OF assms(1) rest_bump [of p]] by (auto simp: pwp_simps)

lemmas spec_port_prims = spec_parse_port spec_parse_portrange prim_rest [OF spec_parse_port]
  prim_rest [OF spec_parse_portrange]

lemma spec_proto_ports: "pwp m (rest_post p) p \<Longrightarrow> pwp (proto_ports d pr m) (rest_post p) p"
  unfolding proto_ports_def
  by (intro pwp_rest_eat) (simp_all add: spec_port_prims pwp_rest_eat)

lemma spec_ports_only: "pwp (ports_only d pr name) (rest_post p) p"
  unfolding ports_only_def by (intro spec_proto_ports) (simp add: pwp_simps)

lemma spec_after_dir: "pwp (parse_after_dir d) (prim_post p) p"
  unfolding parse_after_dir_def pwp_pbind pwp_cur_tok
  by (auto intro!: pwp_keyword prim_rest spec_parse_host spec_parse_net spec_port_prims
      spec_ports_only pwp_err)

lemma prim_post_dir: "pwp parse_dir (\<lambda>d. pwp (parse_after_dir d) (prim_post p)) p"
  by (rule pwp_mono [OF spec_parse_dir]) (metis prim_post_adv spec_after_dir pwp_mono)

lemma spec_or_access:
  assumes "pwp m (rest_post p) p" shows "pwp (or_access l m) (rest_post p) p"
  using assms prim_rest [OF spec_byte_access] by (simp add: or_access_def pwp_simps)

lemma spec_proto_num_rest: "(\<And>n. prim_ok (f n)) \<Longrightarrow> pwp (pbind parse_proto_num (\<lambda>n. preturn (f n))) (rest_post p) p"
  by (auto simp: pwp_simps rest_post_def step_adv intro!: spec_parse_proto_num)

lemma spec_u32_rest: "(\<And>n. prim_ok (f n)) \<Longrightarrow> pwp (pbind parse_u32 (\<lambda>n. preturn (f n))) (rest_post p) p"
  by (auto simp: pwp_simps rest_post_def step_adv intro!: spec_parse_u32)

lemma spec_ip_prim: "pwp parse_ip_prim (rest_post p) p"
  unfolding parse_ip_prim_def
  by (intro spec_or_access pwp_rest_eat) (simp_all add: spec_proto_num_rest pwp_rest_return pwp_rest_eat)

lemma spec_ip6_prim: "pwp parse_ip6_prim (rest_post p) p"
  unfolding parse_ip6_prim_def
  by (intro spec_or_access pwp_rest_eat) (simp_all add: spec_proto_num_rest pwp_rest_return pwp_rest_eat)

lemma spec_opt_num: "(\<And>n. prim_ok (f n)) \<Longrightarrow> pwp (pbind opt_num (\<lambda>n. preturn (f n))) (rest_post p) p"
  using step_adv [OF step_bump [of p]] by (auto simp: opt_num_def pwp_simps rest_post_def split: option.splits)

lemma spec_pppoes: "pwp parse_pppoes (rest_post p) p"
  using step_adv [OF step_bump [of p]] by (auto simp: parse_pppoes_def pwp_simps rest_post_def split: option.splits)

lemma spec_ether_prim:
  assumes "cur p \<noteq> None" shows "pwp parse_ether_prim (prim_post p) p"
proof -
  let ?p = "bump p"
  have mac: "pwp (pbind parse_mac_tok (\<lambda>m. preturn (EtherHost m d))) (rest_post q) q" for q d
    by (auto simp: pwp_simps rest_post_def step_adv intro!: spec_parse_mac)
  have skips: "pwp (skip m) (rest_post q) q" if "pwp m (rest_post (bump q)) (bump q)" "cur q \<noteq> None" for m q
    using prim_rest [OF pwp_keyword [OF that(2,1)]] .
  have proto: "pwp (pbind cur_tok (\<lambda>u. case Option.bind u (map_of ethertypes) of
      Some e \<Rightarrow> skip (preturn (EtherProto e))
    | None \<Rightarrow> pbind parse_u32 (\<lambda>n. preturn (EtherProto (ucast n))))) (rest_post q) q" for q
    using step_adv [OF step_bump [of q]]
    by (auto simp: pwp_simps rest_post_def step_adv intro!: spec_parse_u32 split: option.splits)
  have tail: "pwp (pbind cur_tok (\<lambda>t.
       if t = Some THost then skip (pbind parse_mac_tok (\<lambda>m. preturn (EtherHost m d)))
       else if as_mac t \<noteq> None then pbind parse_mac_tok (\<lambda>m. preturn (EtherHost m d))
       else if t = Some TBroadcast then skip (preturn (EtherHost mac_broadcast Dst))
       else if t = Some TMulticast then skip (preturn EtherMulticast)
       else if t = Some TProto then
         skip (
         pbind cur_tok (\<lambda>u.
         case Option.bind u (map_of ethertypes) of
           Some e \<Rightarrow> skip (preturn (EtherProto e))
         | None \<Rightarrow> pbind parse_u32 (\<lambda>n. preturn (EtherProto (ucast n)))))
       else
         case Option.bind t (map_of ethertypes) of
           Some e \<Rightarrow> skip (preturn (EtherProto e))
         | None \<Rightarrow> err (msg t))) (rest_post q) q" for d q msg
    unfolding pwp_pbind [of cur_tok] pwp_cur_tok
    by (intro pwp_ifI pwp_optionI skips mac proto pwp_rest_return pwp_err) (auto simp: bind_eq_Some_conv)
  have "pwp parse_dir (\<lambda>d q. pwp (g d) (rest_post ?p) q) ?p" if "\<And>d q. pwp (g d) (rest_post q) q" for g
    by (rule pwp_mono [OF spec_parse_dir], rule pwp_mono [OF that]) (rule rest_post_adv)
  then have "pwp (pbind parse_dir g) (rest_post ?p) ?p" if "\<And>d q. pwp (g d) (rest_post q) q" for g
    using that by (simp add: pwp_pbind)
  note dir_tail = this [OF tail]
  show ?thesis
    unfolding parse_ether_prim_def
    using assms prim_rest [OF spec_byte_access [of Raw ?p]] dir_tail
    by (intro pwp_keyword) (auto simp: pwp_pbind [of cur_tok] pwp_cur_tok)
qed

lemma plain_prims_ok: "map_of plain_prims t = Some v \<Longrightarrow> prim_ok v"
  by (auto simp: plain_prims_def split: if_splits)

lemma spec_len: "pwp (pbind parse_cmpop (\<lambda>c. pbind parse_u32 (\<lambda>v. preturn (Len c v)))) (rest_post p) p"
  by (auto simp: pwp_simps rest_post_def step_adv dest: step_step intro!: spec_parse_u32 spec_parse_cmpop)

lemma spec_dir_prim: "pwp (pbind parse_dir parse_after_dir) (prim_post p) p"
  unfolding pwp_pbind by (rule prim_post_dir)

lemma pwp_skip_err: "pwp (skip (err s)) Q p"
  by (simp add: pwp_simps)

theorem spec_primitive: "pwp parse_primitive (prim_post p) p"
proof -
  have plain: "pwp (case Option.bind (cur p) (map_of plain_prims) of Some pr \<Rightarrow> skip (preturn pr)
      | None \<Rightarrow> err msg) (prim_post p) p" for msg
    by (cases "cur p") (auto intro!: pwp_prim_return pwp_err plain_prims_ok split: option.splits)
  show ?thesis
    unfolding parse_primitive_def pwp_pbind [of cur_tok] pwp_cur_tok
    by (intro pwp_ifI pwp_keyword spec_u32_rest spec_len spec_ip_prim spec_ip6_prim spec_or_access
        spec_proto_ports pwp_rest_return spec_opt_num spec_pppoes spec_ether_prim spec_dir_prim
        prim_rest [OF spec_parse_host] prim_rest [OF spec_parse_net] spec_port_prims spec_parse_host
        spec_byte_access pwp_err pwp_skip_err plain)
       auto
qed

end
