(* ===== verification/Parser.thy ===== *)
theory Parser
  imports Parser_Prims_Spec
begin

text \<open>
  \<^verbatim>\<open>pktbaffle/src/parser.rs\<close>, continued: expressions. \<open>and\<close>, \<open>or\<close> and juxtaposition fold from left to right,
  and parentheses are kept on an explicit stack. The loop ends because every turn uses a token, which
  for primitives is their specification in the theory before.
\<close>

section \<open>Expressions\<close>

definition primitive_starts :: "token list" where
  "primitive_starts =
     [TNot, TBang, TLParen, TSrc, TDst, THost, TNet, TPort, TPortRange, TEther, TBroadcast, TMulticast,
      TIp, TIp6, TArp, TRarp, TTcp, TUdp, TIcmp, TIcmp6, TIgmp, TSctp, TProto, TAh, TEsp, TPim, TIgrp,
      TVrrp, TVlan, TMpls, TPppoed, TPppoes, TInbound, TOutbound, TLen, TLess, TGreater, TGateway,
      TLBracket]"

definition looks_like_primitive_start :: "parser \<Rightarrow> bool" where
  "looks_like_primitive_start p \<longleftrightarrow>
     (case cur p of Some t \<Rightarrow> t \<in> set primitive_starts | None \<Rightarrow> False) \<or>
     as_ipv4 (cur p) \<noteq> None \<or> as_ipv6 (cur p) \<noteq> None \<or> as_num (cur p) \<noteq> None"

definition parse_logical_op :: "bool option parse" where
  "parse_logical_op =
     pbind (eat TOr) (\<lambda>b. if b then preturn (Some True) else
     pbind (eat TAnd) (\<lambda>b. if b then preturn (Some False) else
     (\<lambda>p. Inr (if looks_like_primitive_start p then Some False else None, p))))"

text \<open>How many \<open>not\<close> and \<open>!\<close> come next, and the state after them.\<close>

function eat_nots :: "nat \<Rightarrow> parser \<Rightarrow> nat \<times> parser" where
  "eat_nots nots p =
     (if cur p = Some TNot \<or> cur p = Some TBang then eat_nots (nots + 1) (p\<lparr>p_pos := p_pos p + 1\<rparr>)
      else (nots, p))"
  by auto
termination
  by (relation "measure (\<lambda>(nots, p). remaining p)")
     (auto simp: remaining_def cur_def get_at_def split: if_splits)

declare eat_nots.simps [simp del]

type_synonym level = "(expr \<times> bool) option"

record open_paren =
  open_left :: level
  open_nots :: nat

definition join_level :: "level \<Rightarrow> expr \<Rightarrow> expr" where
  "join_level left operand =
     (case left of
        None \<Rightarrow> operand
      | Some (l, is_or) \<Rightarrow> if is_or then Or l operand else And l operand)"

text \<open>What the folding of an operand ends with: the finished expression, or a level that wants another operand.\<close>

datatype folded = Finished expr | Continue "open_paren list" level

fun fold_levels :: "open_paren list \<Rightarrow> level \<Rightarrow> nat \<Rightarrow> expr \<Rightarrow> folded parse" where
  "fold_levels opens left nots operand p =
     (let expr = join_level left ((expr.Not ^^ nots) operand)
      in pbind parse_logical_op (\<lambda>r.
         case r of
           Some is_or \<Rightarrow> preturn (Continue opens (Some (expr, is_or)))
         | None \<Rightarrow>
             (case opens of
                [] \<Rightarrow> preturn (Finished expr)
              | outer # opens' \<Rightarrow>
                  pbind (expect TRParen) (\<lambda>_.
                  fold_levels opens' (open_left outer) (open_nots outer) expr))) p)"

section \<open>The loop\<close>

lemma pwp_logical_op: "pwp parse_logical_op (\<lambda>v q. adv p q) p"
proof -
  have "pwp (\<lambda>p. Inr (g p, p)) Q p = Q (g p) p" for g :: "parser \<Rightarrow> bool option" and Q
    by (simp add: pwp_def)
  then show ?thesis using step_adv [OF step_bump [of p]] by (auto simp: parse_logical_op_def pwp_simps)
qed

lemma eat_nots_adv: "eat_nots n p = (m, q) \<Longrightarrow> adv p q"
proof (induction n p rule: eat_nots.induct)
  case (1 n p)
  show ?case
  proof (cases "cur p = Some TNot \<or> cur p = Some TBang")
    case True
    then have "eat_nots (n + 1) (bump p) = (m, q)"
      using "1.prems" by (simp add: eat_nots.simps [of n p] bump_def)
    then have "adv (bump p) q" using "1.IH" True by (simp add: bump_def)
    then show ?thesis using True step_adv [OF adv_bump] by auto
  next
    case False
    then show ?thesis using "1.prems" by (simp add: eat_nots.simps [of n p])
  qed
qed

lemma fold_levels_eq:
  "fold_levels opens left nots operand =
     pbind parse_logical_op (\<lambda>r.
       case r of
         Some is_or \<Rightarrow> preturn (Continue opens (Some (join_level left ((expr.Not ^^ nots) operand), is_or)))
       | None \<Rightarrow>
           (case opens of
              [] \<Rightarrow> preturn (Finished (join_level left ((expr.Not ^^ nots) operand)))
            | outer # opens' \<Rightarrow>
                pbind (expect TRParen) (\<lambda>_.
                fold_levels opens' (open_left outer) (open_nots outer)
                  (join_level left ((expr.Not ^^ nots) operand)))))"
  by (rule ext) (simp add: Let_def)

declare fold_levels.simps [simp del]

lemma pwp_fold_levels: "pwp (fold_levels opens left nots operand) (\<lambda>v q. adv p q) p"
proof (induction opens arbitrary: left nots operand p)
  case Nil
  show ?case
    unfolding fold_levels_eq [of "[]"] pwp_pbind
    by (rule pwp_mono [OF pwp_logical_op]) (simp add: pwp_simps split: option.split)
next
  case (Cons outer opens)
  have close: "pwp (pbind (expect TRParen) (\<lambda>_. fold_levels opens l n e)) (\<lambda>v q. adv p q) q" if "adv p q" for l n e q
    unfolding pwp_pbind pwp_expect
    using adv_trans [OF that] adv_trans [OF step_adv [OF step_bump [of q]]] by (auto intro!: pwp_mono [OF Cons.IH])
  show ?case
    unfolding fold_levels_eq [of "outer # opens"] pwp_pbind [of parse_logical_op]
    by (rule pwp_mono [OF pwp_logical_op]) (simp add: close pwp_preturn split: option.split)
qed

lemma pwp_InrD: "pwp m Q p \<Longrightarrow> m p = Inr (v, q) \<Longrightarrow> Q v q"
  by (simp add: pwp_def)

lemma loop_turn_step:
  assumes "eat_nots 0 p = (n, q)" "parse_primitive q = Inr (pr, r)" "fold_levels opens left n e r = Inr (f, s)"
  shows "step p s"
  using pwp_InrD [OF spec_primitive assms(2)] pwp_InrD [OF pwp_fold_levels assms(3)] eat_nots_adv [OF assms(1)]
  by (auto simp: prim_post_def intro: step_trans)

lemma step_remaining: "step p q \<Longrightarrow> remaining q < remaining p"
  by (auto simp: step_def adv_def remaining_def)

function parse_loop :: "open_paren list \<Rightarrow> level \<Rightarrow> parser \<Rightarrow> error + (expr \<times> parser)" where
  "parse_loop opens left p =
     (case eat_nots 0 p of (nots, q) \<Rightarrow>
        if cur q = Some TLParen then
          (if length opens = MAX_PAREN_DEPTH
           then Inl (ParseError (''expression nested too deeply (max '' @ show_nat MAX_PAREN_DEPTH @ '' parentheses)''))
           else parse_loop (\<lparr>open_left = left, open_nots = nots\<rparr> # opens) None (q\<lparr>p_pos := p_pos q + 1\<rparr>))
        else
          rbind (parse_primitive q) (\<lambda>(pr, r).
          rbind (fold_levels opens left nots (Primitive pr) r) (\<lambda>(f, s).
          case f of
            Finished e \<Rightarrow> Inr (e, s)
          | Continue opens' left' \<Rightarrow> parse_loop opens' left' s)))"
  by auto
termination
proof (relation "measure (\<lambda>(opens, left, p). remaining p)")
  fix opens :: "open_paren list" and left :: level and p nots q
  assume "(nots, q) = eat_nots 0 p" "cur q = Some TLParen"
  then have "step p (bump q)"
    using step_trans(2) [OF eat_nots_adv [of 0 p nots q] step_bump [of q]] by auto
  from step_remaining [OF this] show "((\<lparr>open_left = left, open_nots = nots\<rparr> # opens, None, q\<lparr>p_pos := p_pos q + 1\<rparr>), opens, left, p)
      \<in> measure (\<lambda>(opens, left, p). remaining p)" by (simp add: bump_def)
next
  fix opens left p nots q v pr r w f s opens' left'
  assume "(nots, q) = eat_nots 0 p" "parse_primitive q = Inr v" "(pr, r) = v"
    "fold_levels opens left nots (Primitive pr) r = Inr w" "(f, s) = w" "f = Continue opens' left'"
  then show "((opens', left', s), opens, left, p) \<in> measure (\<lambda>(opens, left, p). remaining p)"
    using step_remaining [OF loop_turn_step [of p nots q pr r opens left "Primitive pr" f s]] by simp
qed simp

declare parse_loop.simps [simp del]

definition parse_expr :: "expr parse" where
  "parse_expr = parse_loop [] None"

definition parse :: "spanned list \<Rightarrow> error + expr" where
  "parse tokens =
     rbind (parse_expr \<lparr>p_tokens = tokens, p_pos = 0, p_depth = 0\<rparr>) (\<lambda>(expr, p).
     if p_pos p < length (p_tokens p)
     then Inl (ParseError (''unexpected token '' @ debug_opt (cur p) @ '' '' @ em_dash @ '' trailing input''))
     else Inr expr)"

end
