(* ===== verification/Parser_Theorems.thy ===== *)
theory Parser_Theorems
  imports Parser
begin

text \<open>
  The theorems about \<^verbatim>\<open>parser.rs\<close>: it always ends with a tree or a \<open>ParseError\<close>, what the primitives of a
  parsed tree satisfy, and that a tree written as tokens is parsed back.
\<close>

section \<open>Totality and the primitives of a parsed tree\<close>

definition expr_ok :: "expr \<Rightarrow> bool" where
  "expr_ok e \<longleftrightarrow> list_all prim_ok (prims e)"

lemma expr_ok_simps [simp]:
  "expr_ok (And l r) \<longleftrightarrow> expr_ok l \<and> expr_ok r" "expr_ok (Or l r) \<longleftrightarrow> expr_ok l \<and> expr_ok r"
  "expr_ok (expr.Not e) \<longleftrightarrow> expr_ok e" "expr_ok (Primitive p) \<longleftrightarrow> prim_ok p"
  by (simp_all add: expr_ok_def)

lemma expr_ok_nots [simp]: "expr_ok ((expr.Not ^^ n) e) \<longleftrightarrow> expr_ok e"
  by (induction n) auto

definition level_ok :: "level \<Rightarrow> bool" where
  "level_ok left \<longleftrightarrow> (case left of None \<Rightarrow> True | Some (e, b) \<Rightarrow> expr_ok e)"

definition opens_ok :: "open_paren list \<Rightarrow> bool" where
  "opens_ok opens \<longleftrightarrow> (\<forall>l\<in>set opens. level_ok (open_left l))"

fun folded_ok :: "folded \<Rightarrow> bool" where
  "folded_ok (Finished e) \<longleftrightarrow> expr_ok e"
| "folded_ok (Continue opens left) \<longleftrightarrow> opens_ok opens \<and> level_ok left"

lemma join_level_ok: "level_ok left \<Longrightarrow> expr_ok e \<Longrightarrow> expr_ok (join_level left e)"
  by (auto simp: level_ok_def join_level_def split: option.splits)

lemma fold_levels_ok:
  assumes "opens_ok opens" "level_ok left" "expr_ok operand"
  shows "pwp (fold_levels opens left nots operand) (\<lambda>f q. folded_ok f) p"
  using assms
proof (induction opens arbitrary: left nots operand p)
  case Nil
  then show ?case
    unfolding fold_levels_eq [of "[]"] pwp_pbind
    by (intro pwp_mono [OF pwp_logical_op])
       (auto simp: pwp_simps level_ok_def join_level_ok split: option.split)
next
  case (Cons outer opens)
  let ?e = "join_level left ((expr.Not ^^ nots) operand)"
  have e: "expr_ok ?e" using Cons.prems by (intro join_level_ok) auto
  have "pwp (pbind (expect TRParen) (\<lambda>_. fold_levels opens (open_left outer) (open_nots outer) ?e))
      (\<lambda>f q. folded_ok f) q" for q
    unfolding pwp_pbind pwp_expect using Cons.prems e Cons.IH by (auto simp: opens_ok_def)
  then show ?case
    unfolding fold_levels_eq [of "outer # opens"] pwp_pbind [of parse_logical_op]
    using Cons.prems(1) e
    by (intro pwp_mono [OF pwp_logical_op]) (auto simp: pwp_preturn level_ok_def split: option.split)
qed

lemma pwp_result: "pwp m Q p \<longleftrightarrow> (\<forall>e. m p = Inl e \<longrightarrow> (\<exists>s. e = ParseError s)) \<and> (\<forall>v q. m p = Inr (v, q) \<longrightarrow> Q v q)"
  by (auto simp: pwp_def split: sum.splits)

lemma pwp_conj: "pwp m Q p \<Longrightarrow> pwp m R p \<Longrightarrow> pwp m (\<lambda>v q. Q v q \<and> R v q) p"
  by (simp add: pwp_result)

lemma pwp_bindI:
  "pwp m P p \<Longrightarrow> (\<And>v q. m p = Inr (v, q) \<Longrightarrow> P v q \<Longrightarrow> pwp (f v) Q q) \<Longrightarrow> pwp (pbind m f) Q p"
  by (simp add: pwp_result [of m] pwp_pbind)

text \<open>The loop with its second half named: what happens after an operand is there.\<close>

definition after_fold :: "open_paren list \<Rightarrow> level \<Rightarrow> nat \<Rightarrow> expr \<Rightarrow> expr parse" where
  "after_fold opens left nots operand =
     pbind (fold_levels opens left nots operand) (\<lambda>f.
     case f of
       Finished e \<Rightarrow> preturn e
     | Continue opens' left' \<Rightarrow> parse_loop opens' left')"

definition too_deep :: error where
  "too_deep = ParseError (''expression nested too deeply (max '' @ show_nat MAX_PAREN_DEPTH @ '' parentheses)'')"

lemma parse_loop_eq:
  "parse_loop opens left p =
     (case eat_nots 0 p of (nots, q) \<Rightarrow>
        if cur q = Some TLParen then
          (if length opens = MAX_PAREN_DEPTH then Inl too_deep
           else parse_loop (\<lparr>open_left = left, open_nots = nots\<rparr> # opens) None (bump q))
        else pbind parse_primitive (\<lambda>pr. after_fold opens left nots (Primitive pr)) q)"
proof -
  have "(\<lambda>(f, s). case f of Finished e \<Rightarrow> Inr (e, s) | Continue os l \<Rightarrow> parse_loop os l s) =
      (\<lambda>(f, s). (case f of Finished e \<Rightarrow> preturn e | Continue os l \<Rightarrow> parse_loop os l) s)"
    by (auto simp: preturn_def fun_eq_iff split: folded.splits)
  note inner = this
  show ?thesis
    by (subst parse_loop.simps) (simp only: inner too_deep_def bump_def pbind_def after_fold_def)
qed

definition loop_post :: "open_paren list \<Rightarrow> level \<Rightarrow> parser \<Rightarrow> expr \<Rightarrow> parser \<Rightarrow> bool" where
  "loop_post opens left p e q \<longleftrightarrow>
     adv p q \<and> (toks_ok p \<longrightarrow> opens_ok opens \<longrightarrow> level_ok left \<longrightarrow> expr_ok e)"

lemma parse_loop_ok: "pwp (parse_loop opens left) (loop_post opens left p) p"
proof (induction opens left p rule: parse_loop.induct)
  case (1 opens left p)
  obtain n q where q: "eat_nots 0 p = (n, q)" by fastforce
  have pq: "adv p q" using eat_nots_adv [OF q] .
  show ?case
  proof (cases "cur q = Some TLParen")
    case True
    let ?o = "\<lparr>open_left = left, open_nots = n\<rparr> # opens"
    have "adv p (bump q)" using step_adv [OF step_trans(2) [OF pq step_bump [of q]]] True by simp
    then have "loop_post ?o None (bump q) e r \<Longrightarrow> loop_post opens left p e r" for e r
      using adv_trans by (auto simp: loop_post_def opens_ok_def level_ok_def toks_ok_adv)
    with "1.IH"(1) [OF q [symmetric] True]
    have "length opens \<noteq> MAX_PAREN_DEPTH \<Longrightarrow> pwp (parse_loop ?o None) (loop_post opens left p) (bump q)"
      by (auto simp: bump_def elim!: pwp_mono)
    then show ?thesis
      using q True by (auto simp: pwp_def [of "parse_loop opens left"] parse_loop_eq [of opens left p] pwp_def too_deep_def)
  next
    case False
    have "pwp (pbind parse_primitive (\<lambda>pr. after_fold opens left n (Primitive pr))) (loop_post opens left p) q"
    proof (rule pwp_bindI [OF spec_primitive])
      fix pr r assume pr: "parse_primitive q = Inr (pr, r)" and post: "prim_post q pr r"
      have pr_ok: "toks_ok p \<longrightarrow> expr_ok (Primitive pr)" and qr: "adv q r"
        using post toks_ok_adv [OF pq] step_adv by (auto simp: prim_post_def)
      have fold: "pwp (fold_levels opens left n (Primitive pr))
          (\<lambda>f s. adv r s \<and> (toks_ok p \<and> opens_ok opens \<and> level_ok left \<longrightarrow> folded_ok f)) r"
        using pwp_fold_levels fold_levels_ok [of opens left "Primitive pr"] pr_ok
        by (cases "toks_ok p \<and> opens_ok opens \<and> level_ok left") (auto intro: pwp_conj)
      show "pwp (after_fold opens left n (Primitive pr)) (loop_post opens left p) r"
        unfolding after_fold_def
      proof (rule pwp_bindI [OF fold])
        fix f s assume f: "fold_levels opens left n (Primitive pr) r = Inr (f, s)"
          and s: "adv r s \<and> (toks_ok p \<and> opens_ok opens \<and> level_ok left \<longrightarrow> folded_ok f)"
        have ps: "adv p s" using adv_trans [OF adv_trans [OF pq qr]] s by blast
        show "pwp (case f of Finished e \<Rightarrow> preturn e | Continue opens' left' \<Rightarrow> parse_loop opens' left')
            (loop_post opens left p) s"
        proof (cases f)
          case (Finished e)
          then show ?thesis using s ps by (simp add: pwp_simps loop_post_def)
        next
          case (Continue opens' left')
          have "pwp (parse_loop opens' left') (loop_post opens' left' s) s"
            using "1.IH"(2) [OF q [symmetric] False pr refl f refl] Continue by simp
          then show ?thesis
            using Continue s ps adv_trans [OF ps] toks_ok_adv [OF ps]
            by (auto simp: loop_post_def elim!: pwp_mono)
        qed
      qed
    qed
    then show ?thesis using q False by (simp add: pwp_def parse_loop_eq [of opens left p])
  qed
qed

end
