(* ===== verification/Parser_Roundtrip.thy ===== *)
theory Parser_Roundtrip
  imports Parser_Theorems
begin

text \<open>
  Writing an expression tree as tokens and parsing the tokens gives the tree back, for every tree
  that can be written: \<open>and\<close> and \<open>or\<close> fold to the left without parentheses, right operands are
  parenthesised when they are binary, and primitives are written in one fixed form.
\<close>

section \<open>Running the parser on known tokens\<close>

definition toks :: "parser \<Rightarrow> token list" where
  "toks p = map spanned_token (drop (p_pos p) (p_tokens p))"

definition jump :: "nat \<Rightarrow> parser \<Rightarrow> parser" where
  "jump n p = p\<lparr>p_pos := p_pos p + n\<rparr>"

named_theorems run_simps "running the parser on known tokens"

lemma cur_toks [run_simps]: "cur p = (case toks p of [] \<Rightarrow> None | t # _ \<Rightarrow> Some t)"
proof (cases "p_pos p < length (p_tokens p)")
  case True
  then show ?thesis by (simp add: toks_def cur_def Cons_nth_drop_Suc [symmetric])
qed (simp add: toks_def cur_def)

lemma toks_jump [run_simps]: "toks (jump n p) = drop n (toks p)"
  by (simp add: toks_def jump_def drop_map add.commute)

lemma jump_jump [run_simps]: "jump m (jump n p) = jump (n + m) p"
  by (simp add: jump_def)

lemma jump_0 [simp]: "jump 0 p = p"
  by (simp add: jump_def)

lemma bump_jump: "bump p = jump 1 p"
  by (simp add: bump_def jump_def)

lemma remaining_toks: "remaining p = length (toks p)"
  by (simp add: remaining_def toks_def)

lemma run_blocks [run_simps]:
  "pbind m f p = rbind (m p) (\<lambda>(v, q). f v q)" "preturn v p = Inr (v, p)" "err s p = Inl (ParseError s)"
  "cur_tok p = Inr (cur p, p)" "advance p = Inr (cur p, if cur p = None then p else jump 1 p)"
  "eat t p = (if cur p = Some t then Inr (True, jump 1 p) else Inr (False, p))"
  "cur p = Some t \<Longrightarrow> expect t p = Inr ((), jump 1 p)"
  "skip m p = (if cur p = None then m p else m (jump 1 p))"
  by (auto simp: pbind_def preturn_def err_def cur_tok_def advance_def eat_def expect_def skip_def jump_def Let_def)

lemma run_peek [run_simps]:
  "peek_tok k p = Inr (if k < length (toks p) then Some (toks p ! k) else None, p)"
  by (auto simp: peek_tok_def toks_def get_at_def)

lemma run_literals [run_simps]:
  "as_num (Some (TNum n)) = Some n" "as_ipv4 (Some (TIpv4 a b c d k)) = Some (be32 a b c d, k)"
  "as_ipv6 (Some (TIpv6 v)) = Some v" "as_mac (Some (TMac m)) = Some m"
  "as_ipv4 (Some (TNum n)) = None" "as_ipv6 (Some (TNum n)) = None" "as_num (Some (TIpv6 v)) = None"
  "as_ipv4 (Some (TIpv6 v)) = None" "as_num (Some (TIpv4 a b c d k)) = None"
  by (simp_all add: as_num_def as_ipv4_def as_ipv6_def as_mac_def)

lemma run_u32 [run_simps]:
  "toks p = TNum (unat (n :: u32)) # ts \<Longrightarrow> parse_u32 p = Inr (n, jump 1 p)"
  using unat_u32_less [of n] by (simp add: parse_u32_def run_simps)

lemma run_u16 [run_simps]:
  "toks p = TNum (unat (n :: u16)) # ts \<Longrightarrow> parse_u16 p = Inr (n, jump 1 p)"
proof -
  assume t: "toks p = TNum (unat n) # ts"
  have n: "unat (ucast n :: u32) = unat n" using unat_u16_less [of n] by (simp add: unsigned_ucast_eq take_bit_nat_eq_self)
  have "parse_u32 p = Inr (ucast n, jump 1 p)" using run_u32 [of p "ucast n" ts] t n by simp
  moreover have "\<not> (ucast n :: u32) > 0xffff" using n unat_u16_less [of n] by (simp add: word_less_nat_alt)
  moreover have "ucast (ucast n :: u32) = n" by (rule bit_word_eqI) (simp add: bit_simps)
  ultimately show ?thesis by (simp add: parse_u16_def run_blocks)
qed

section \<open>Writing primitives\<close>

fun dir_tokens :: "dir \<Rightarrow> token list" where
  "dir_tokens SrcOrDst = []"
| "dir_tokens Src = [TSrc]"
| "dir_tokens Dst = [TDst]"
| "dir_tokens SrcAndDst = [TSrc, TAnd, TDst]"

definition ipv4_token :: "u32 \<Rightarrow> token" where
  "ipv4_token a = TIpv4 (ucast (drop_bit 24 a)) (ucast (drop_bit 16 a)) (ucast (drop_bit 8 a)) (ucast a) 4"

fun addr_token :: "ip_addr \<Rightarrow> token" where
  "addr_token (V4 a) = ipv4_token a"
| "addr_token (V6 v) = TIpv6 v"

fun ports_tokens :: "proto option \<Rightarrow> token list" where
  "ports_tokens (Some Tcp) = [TTcp]"
| "ports_tokens (Some Udp) = [TUdp]"
| "ports_tokens (Some Sctp) = [TSctp]"
| "ports_tokens _ = []"

fun proto_tokens :: "proto \<Rightarrow> token list" where
  "proto_tokens Ip = [TIp]"
| "proto_tokens Ip6 = [TIp6]"
| "proto_tokens Arp = [TArp]"
| "proto_tokens Rarp = [TRarp]"
| "proto_tokens Tcp = [TTcp]"
| "proto_tokens Udp = [TUdp]"
| "proto_tokens Icmp = [TIcmp]"
| "proto_tokens Icmp6 = [TIcmp6]"
| "proto_tokens Igmp = [TIgmp]"
| "proto_tokens Sctp = [TSctp]"
| "proto_tokens (Num n) = [TIp, TProto, TNum (unat n)]"
| "proto_tokens (Ip6Proto n) = [TIp6, TProto, TNum (unat n)]"

fun cmp_token :: "cmp_op \<Rightarrow> token" where
  "cmp_token CmpEq = TEq"
| "cmp_token CmpNe = TNe"
| "cmp_token CmpLt = TLt"
| "cmp_token CmpLe = TLe"
| "cmp_token CmpGt = TGt"
| "cmp_token CmpGe = TGe"
| "cmp_token CmpBitAnd = TAmp"

fun arith_token :: "arith_op \<Rightarrow> token" where
  "arith_token OpAdd = TPlus"
| "arith_token OpSub = TMinus"
| "arith_token OpMul = TStar"
| "arith_token OpDiv = TSlash"
| "arith_token OpMod = TPercent"
| "arith_token OpAnd = TAmp"
| "arith_token OpOr = TPipe"
| "arith_token OpXor = TCaret"
| "arith_token OpShl = TShl"
| "arith_token OpShr = TShr"

fun layer_token :: "layer \<Rightarrow> token" where
  "layer_token Raw = TEther"
| "layer_token Net_Layer = TIp"
| "layer_token Trans = TTcp"

fun size_num :: "access_size \<Rightarrow> nat" where
  "size_num Byte = 1"
| "size_num Half = 2"
| "size_num Word_Size = 4"

definition load_tokens :: "layer \<Rightarrow> i32 \<Rightarrow> access_size \<Rightarrow> token list" where
  "load_tokens l offset sz =
     [layer_token l, TLBracket, TNum (unat offset), TColon, TNum (size_num sz), TRBracket]"

fun rhs_tokens :: "cmp_rhs \<Rightarrow> token list" where
  "rhs_tokens (Const n) = [TNum (unat n)]"
| "rhs_tokens (LoadRhs b) = load_tokens (load_layer b) (load_offset b) (load_size b)"

definition alu_tokens :: "(arith_op \<times> u32) list \<Rightarrow> token list" where
  "alu_tokens ops = concat (map (\<lambda>(f, n). [arith_token f, TNum (unat n)]) ops)"

definition opt_tokens :: "nat option \<Rightarrow> token list" where
  "opt_tokens n = (case n of None \<Rightarrow> [] | Some n \<Rightarrow> [TNum n])"

fun prim_tokens :: "primitive \<Rightarrow> token list" where
  "prim_tokens (Host a d) = dir_tokens d @ [THost, addr_token a]"
| "prim_tokens (Port n d pr) = dir_tokens d @ ports_tokens pr @ [TPort, TNum (unat n)]"
| "prim_tokens (PortRange lo hi d pr) =
     dir_tokens d @ ports_tokens pr @ [TPortRange, TNum (unat lo), TMinus, TNum (unat hi)]"
| "prim_tokens (Net n d) =
     dir_tokens d @ [TNet, ipv4_token (net_addr n), TMask, ipv4_token (net_mask n)]"
| "prim_tokens (Net6 n d) =
     dir_tokens d @ [TNet, TIpv6 (net6_addr n), TSlash, TNum (unat (prefix_len n))]"
| "prim_tokens (Proto pr) = proto_tokens pr"
| "prim_tokens (EtherHost m d) = TEther # dir_tokens d @ [THost, TMac m]"
| "prim_tokens (EtherProto n) = [TEther, TProto, TNum (unat n)]"
| "prim_tokens EtherMulticast = [TEther, TMulticast]"
| "prim_tokens IpBroadcast = [TIp, TBroadcast]"
| "prim_tokens IpMulticast = [TIp, TMulticast]"
| "prim_tokens Ip6Multicast = [TIp6, TMulticast]"
| "prim_tokens (Vlan n) = TVlan # opt_tokens (map_option unat n)"
| "prim_tokens (Mpls n) = TMpls # opt_tokens (map_option unat n)"
| "prim_tokens PppoeDiscovery = [TPppoed]"
| "prim_tokens (PppoeSession n) = TPppoes # opt_tokens (map_option unat n)"
| "prim_tokens (IpProtoChain n) = [TIp, TProtochain, TNum (unat n)]"
| "prim_tokens (Ip6ProtoChain n) = [TIp6, TProtochain, TNum (unat n)]"
| "prim_tokens (Len c n) = [TLen, cmp_token c, TNum (unat n)]"
| "prim_tokens Inbound = [TInbound]"
| "prim_tokens Outbound = [TOutbound]"
| "prim_tokens (ByteAccess b) =
     load_tokens (ba_layer b) (ba_offset b) (ba_size b) @ alu_tokens (alu_ops b) @
     cmp_token (ba_op b) # rhs_tokens (ba_rhs b)"

text \<open>What the grammar cannot write: port tests of other protocols, and \<open>&\<close> as a comparison of bytes.\<close>

fun printable :: "primitive \<Rightarrow> bool" where
  "printable (Port n d pr) \<longleftrightarrow> pr \<in> {None, Some Tcp, Some Udp, Some Sctp}"
| "printable (PortRange lo hi d pr) \<longleftrightarrow> pr \<in> {None, Some Tcp, Some Udp, Some Sctp}"
| "printable (ByteAccess b) \<longleftrightarrow> ba_op b \<noteq> CmpBitAnd"
| "printable _ \<longleftrightarrow> True"

definition follows :: "token list \<Rightarrow> bool" where
  "follows rest \<longleftrightarrow> (case rest of [] \<Rightarrow> True | t # _ \<Rightarrow> t = TAnd \<or> t = TOr \<or> t = TRParen)"

definition reads :: "'a parse \<Rightarrow> token list \<Rightarrow> 'a \<Rightarrow> bool" where
  "reads m ts v \<longleftrightarrow>
     (\<forall>p rest. toks p = ts @ rest \<longrightarrow> follows rest \<longrightarrow> m p = Inr (v, jump (length ts) p))"

lemma readsI:
  "(\<And>p rest. toks p = ts @ rest \<Longrightarrow> follows rest \<Longrightarrow> m p = Inr (v, jump (length ts) p)) \<Longrightarrow> reads m ts v"
  by (simp add: reads_def)

lemma readsD: "reads m ts v \<Longrightarrow> toks p = ts @ rest \<Longrightarrow> follows rest \<Longrightarrow> m p = Inr (v, jump (length ts) p)"
  by (simp add: reads_def)

lemma toks_jump_add: "toks (jump (m + n) p) = drop n (toks (jump m p))"
  by (simp add: toks_jump add.commute)

lemma be32_token: "be32 (ucast (drop_bit 24 a)) (ucast (drop_bit 16 a)) (ucast (drop_bit 8 a)) (ucast a) = (a :: u32)"
  unfolding be32_def
proof (rule bit_word_eqI)
  fix n assume n: "n < LENGTH(32)"
  consider "n < 8" | "8 \<le> n" "n < 16" | "16 \<le> n" "n < 24" | "24 \<le> n" by linarith
  then show "bit (push_bit 24 (ucast (ucast (drop_bit 24 a) :: u8)) OR
      push_bit 16 (ucast (ucast (drop_bit 16 a) :: u8)) OR
      push_bit 8 (ucast (ucast (drop_bit 8 a) :: u8)) OR ucast (ucast a :: u8) :: u32) n = bit a n"
    using n by cases (auto simp: bit_simps)
qed

lemma run_ipv4 [run_simps]: "as_ipv4 (Some (ipv4_token a)) = Some (a, 4)"
  by (simp add: ipv4_token_def run_simps be32_token)

lemma ipv4_token_neq [simp]:
  "as_ipv6 (Some (ipv4_token a)) = None" "as_num (Some (ipv4_token a)) = None"
  by (simp_all add: ipv4_token_def as_ipv6_def as_num_def)

lemma follows_cur: "follows rest \<Longrightarrow> toks p = rest \<Longrightarrow> cur p \<in> {None, Some TAnd, Some TOr, Some TRParen}"
  by (auto simp: follows_def cur_toks split: list.splits)

lemma reads_host: "reads (parse_host d) [addr_token a] (Host a d)"
proof (rule readsI)
  fix p rest assume t: "toks p = [addr_token a] @ rest" and f: "follows rest"
  have "toks (jump 1 p) = rest" using t by (simp add: toks_jump)
  from follows_cur [OF f this] show "parse_host d p = Inr (Host a d, jump (length [addr_token a]) p)"
    using t by (cases a) (auto simp: parse_host_def parse_ip_def run_simps)
qed

text \<open>The first token selects the branch, the rest is read by the branch.\<close>

lemma reads_keyword:
  assumes "\<And>p. cur p = Some t \<Longrightarrow> m p = skip m' p" "reads m' ts v" shows "reads m (t # ts) v"
proof (rule readsI)
  fix p rest assume t: "toks p = (t # ts) @ rest" and f: "follows rest"
  have "cur p = Some t" using t by (simp add: cur_toks)
  moreover have "m' (jump 1 p) = Inr (v, jump (length ts) (jump 1 p))"
    using assms(2) f t by (simp add: reads_def toks_jump)
  ultimately show "m p = Inr (v, jump (length (t # ts)) p)"
    using assms(1) by (simp add: run_blocks jump_jump)
qed

lemma reads_return: "reads (preturn v) [] v"
  by (simp add: reads_def run_blocks)

lemma reads_u32: "reads (pbind parse_u32 (\<lambda>n. preturn (f n))) [TNum (unat n)] (f n)"
  by (rule readsI) (simp add: run_simps)

lemma reads_u16: "reads (pbind parse_u16 (\<lambda>n. preturn (f n))) [TNum (unat n)] (f n)"
  by (rule readsI) (simp add: run_simps)

lemma reads_port: "reads (parse_port d pr) [TNum (unat n)] (Port n d pr)"
  unfolding parse_port_def by (rule reads_u16)

lemma reads_portrange: "reads (parse_portrange d pr) [TNum (unat lo), TMinus, TNum (unat hi)] (PortRange lo hi d pr)"
  by (rule readsI) (simp add: parse_portrange_def run_simps)

lemma reads_net:
  assumes "net_addr n AND NOT (net_mask n) = 0"
  shows "reads (parse_net d) [ipv4_token (net_addr n), TMask, ipv4_token (net_mask n)] (Net n d)"
  by (rule readsI) (use assms in \<open>simp add: parse_net_def parse_net4_def run_simps\<close>)

lemma run_prefix_len:
  assumes "toks p = TNum n # ts" "n \<le> m" "0 < p_pos p" "p_pos p \<le> length (p_tokens p)"
  shows "parse_prefix_len family m p = Inr (of_nat n, jump 1 p)"
proof -
  obtain slash where "get_at (p_tokens p) (p_pos p - 1) = Some slash" using assms(3,4) by simp
  then show ?thesis using assms by (simp add: parse_prefix_len_def run_simps)
qed

lemma toks_pos: "toks p = t # ts \<Longrightarrow> p_pos p < length (p_tokens p)"
  by (rule ccontr) (simp add: toks_def)

lemma reads_net6:
  assumes "unat (prefix_len n) \<le> 128" "u128_of (net6_addr n) AND host_bits (unat (prefix_len n)) = 0"
  shows "reads (parse_net d) [TIpv6 (net6_addr n), TSlash, TNum (unat (prefix_len n))] (Net6 n d)"
proof (rule readsI)
  fix p rest assume t: "toks p = [TIpv6 (net6_addr n), TSlash, TNum (unat (prefix_len n))] @ rest"
  have "toks (jump 2 p) = TNum (unat (prefix_len n)) # rest" using t by (simp add: toks_jump)
  moreover from toks_pos [OF this] have "0 < p_pos (jump 2 p)" "p_pos (jump 2 p) \<le> length (p_tokens (jump 2 p))"
    by (simp_all add: jump_def)
  ultimately have "parse_prefix_len ''IPv6'' 128 (jump 2 p) = Inr (prefix_len n, jump 3 p)"
    using run_prefix_len assms(1) by (simp add: jump_jump)
  then show "parse_net d p = Inr (Net6 n d, jump (length [TIpv6 (net6_addr n), TSlash, TNum (unat (prefix_len n))]) p)"
    using t assms by (simp add: parse_net_def parse_net6_def run_simps numeral_2_eq_2 numeral_3_eq_3)
qed

lemma reads_proto_ports:
  "reads (proto_ports d pr m) [TPort, TNum (unat n)] (Port n d (Some pr))"
  "reads (proto_ports d pr m) [TPortRange, TNum (unat lo), TMinus, TNum (unat hi)] (PortRange lo hi d (Some pr))"
  by (rule readsI; simp add: proto_ports_def parse_port_def parse_portrange_def run_simps)+

lemma reads_dir:
  assumes "reads (parse_after_dir d) (t # ts) v" "reads parse_primitive (t # ts) v \<or> d \<noteq> SrcOrDst" "t \<notin> {TAnd, TOr}"
  shows "reads parse_primitive (dir_tokens d @ t # ts) v"
proof (cases d)
  case SrcOrDst
  then show ?thesis using assms(2) by simp
next
  case Src
  show ?thesis
  proof (rule readsI)
    fix p rest assume t: "toks p = (dir_tokens d @ t # ts) @ rest" and f: "follows rest"
    have "parse_after_dir d (jump 1 p) = Inr (v, jump (length (t # ts)) (jump 1 p))"
      using assms(1) f t Src by (simp add: reads_def toks_jump)
    then show "parse_primitive p = Inr (v, jump (length (dir_tokens d @ t # ts)) p)"
      using t Src assms(3) by (simp add: parse_primitive_def parse_dir_def run_simps)
  qed
next
  case Dst
  show ?thesis
  proof (rule readsI)
    fix p rest assume t: "toks p = (dir_tokens d @ t # ts) @ rest" and f: "follows rest"
    have "parse_after_dir d (jump 1 p) = Inr (v, jump (length (t # ts)) (jump 1 p))"
      using assms(1) f t Dst by (simp add: reads_def toks_jump)
    then show "parse_primitive p = Inr (v, jump (length (dir_tokens d @ t # ts)) p)"
      using t Dst by (simp add: parse_primitive_def parse_dir_def run_simps)
  qed
next
  case SrcAndDst
  show ?thesis
  proof (rule readsI)
    fix p rest assume t: "toks p = (dir_tokens d @ t # ts) @ rest" and f: "follows rest"
    have "parse_after_dir d (jump 3 p) = Inr (v, jump (length (t # ts)) (jump 3 p))"
      using assms(1) f t SrcAndDst by (simp add: reads_def toks_jump)
    then show "parse_primitive p = Inr (v, jump (length (dir_tokens d @ t # ts)) p)"
      using t SrcAndDst by (simp add: parse_primitive_def parse_dir_def run_simps numeral_2_eq_2 numeral_3_eq_3)
  qed
qed

text \<open>The branches of the two dispatchers.\<close>

lemma primitive_branch:
  "cur p = Some THost \<Longrightarrow> parse_primitive p = skip (parse_host SrcOrDst) p"
  "cur p = Some TNet \<Longrightarrow> parse_primitive p = skip (parse_net SrcOrDst) p"
  "cur p = Some TPort \<Longrightarrow> parse_primitive p = skip (parse_port SrcOrDst None) p"
  "cur p = Some TPortRange \<Longrightarrow> parse_primitive p = skip (parse_portrange SrcOrDst None) p"
  "cur p = Some TTcp \<Longrightarrow> parse_primitive p =
     skip (or_access Trans (proto_ports SrcOrDst Tcp (preturn (Proto Tcp)))) p"
  "cur p = Some TUdp \<Longrightarrow> parse_primitive p =
     skip (or_access Trans (proto_ports SrcOrDst Udp (preturn (Proto Udp)))) p"
  "cur p = Some TSctp \<Longrightarrow> parse_primitive p = skip (proto_ports SrcOrDst Sctp (preturn (Proto Sctp))) p"
  "cur p = Some TIp \<Longrightarrow> parse_primitive p = skip parse_ip_prim p"
  "cur p = Some TIp6 \<Longrightarrow> parse_primitive p = skip parse_ip6_prim p"
  "cur p = Some TEther \<Longrightarrow> parse_primitive p = parse_ether_prim p"
  "cur p = Some TLen \<Longrightarrow> parse_primitive p =
     skip (pbind parse_cmpop (\<lambda>c. pbind parse_u32 (\<lambda>v. preturn (Len c v)))) p"
  "cur p = Some TVlan \<Longrightarrow> parse_primitive p = skip (pbind opt_num (\<lambda>n. preturn (Vlan (map_option of_nat n)))) p"
  "cur p = Some TMpls \<Longrightarrow> parse_primitive p = skip (pbind opt_num (\<lambda>n. preturn (Mpls (map_option of_nat n)))) p"
  "cur p = Some TPppoes \<Longrightarrow> parse_primitive p = skip parse_pppoes p"
  "cur p = Some TIcmp \<Longrightarrow> parse_primitive p = skip (or_access Trans (preturn (Proto Icmp))) p"
  "cur p = Some TIcmp6 \<Longrightarrow> parse_primitive p = skip (or_access Trans (preturn (Proto Icmp6))) p"
  by (simp_all add: parse_primitive_def run_blocks(1,4))

lemma plain_branch:
  assumes "(t, pr) \<in> set plain_prims" "cur p = Some t" shows "parse_primitive p = skip (preturn pr) p"
  using assms by (auto simp: parse_primitive_def run_blocks(1,4) plain_prims_def as_ipv4_def as_ipv6_def)

lemma after_dir_branch:
  "cur p = Some THost \<Longrightarrow> parse_after_dir d p = skip (parse_host d) p"
  "cur p = Some TNet \<Longrightarrow> parse_after_dir d p = skip (parse_net d) p"
  "cur p = Some TPort \<Longrightarrow> parse_after_dir d p = skip (parse_port d None) p"
  "cur p = Some TPortRange \<Longrightarrow> parse_after_dir d p = skip (parse_portrange d None) p"
  "cur p = Some TTcp \<Longrightarrow> parse_after_dir d p = skip (ports_only d Tcp ''tcp'') p"
  "cur p = Some TUdp \<Longrightarrow> parse_after_dir d p = skip (ports_only d Udp ''udp'') p"
  "cur p = Some TSctp \<Longrightarrow> parse_after_dir d p = skip (ports_only d Sctp ''sctp'') p"
  by (simp_all add: parse_after_dir_def run_blocks(1,4))

lemma reads_or_access: "reads m ts v \<Longrightarrow> ts = [] \<or> hd ts \<noteq> TLBracket \<Longrightarrow> reads (or_access l m) ts v"
proof (rule readsI)
  fix p rest
  assume m: "reads m ts v" and ts: "ts = [] \<or> hd ts \<noteq> TLBracket" and t: "toks p = ts @ rest" and f: "follows rest"
  have "cur p \<noteq> Some TLBracket"
    using ts f t by (cases ts) (auto simp: cur_toks follows_def split: list.splits)
  then show "or_access l m p = Inr (v, jump (length ts) p)"
    using m t f by (simp add: or_access_def run_blocks reads_def)
qed

lemma reads_directed:
  assumes "\<And>p. cur p = Some t \<Longrightarrow> parse_after_dir d p = skip m p"
    "\<And>p. cur p = Some t \<Longrightarrow> parse_primitive p = skip m' p"
    "reads m ts v" "d = SrcOrDst \<Longrightarrow> reads m' ts v" "t \<notin> {TAnd, TOr}"
  shows "reads parse_primitive (dir_tokens d @ t # ts) v"
  using reads_keyword [OF assms(1) assms(3)] reads_keyword [OF assms(2) assms(4)] assms(5)
  by (intro reads_dir) auto

lemma reads_host_prim: "reads parse_primitive (prim_tokens (Host a d)) (Host a d)"
  unfolding prim_tokens.simps
  by (rule reads_directed [OF after_dir_branch(1) primitive_branch(1)]) (auto simp: reads_host)

lemma reads_net_prim: "prim_ok (Net n d) \<Longrightarrow> reads parse_primitive (prim_tokens (Net n d)) (Net n d)"
  unfolding prim_tokens.simps
  by (rule reads_directed [OF after_dir_branch(2) primitive_branch(2)]) (auto simp: reads_net)

lemma reads_net6_prim: "prim_ok (Net6 n d) \<Longrightarrow> reads parse_primitive (prim_tokens (Net6 n d)) (Net6 n d)"
  unfolding prim_tokens.simps
  by (rule reads_directed [OF after_dir_branch(2) primitive_branch(2)]) (auto simp: reads_net6)

lemma reads_ports_only:
  "reads (ports_only d pr name) [TPort, TNum (unat n)] (Port n d (Some pr))"
  "reads (ports_only d pr name) [TPortRange, TNum (unat lo), TMinus, TNum (unat hi)] (PortRange lo hi d (Some pr))"
  unfolding ports_only_def by (rule reads_proto_ports)+

lemma reads_port_prim:
  assumes "printable (Port n d pr)" shows "reads parse_primitive (prim_tokens (Port n d pr)) (Port n d pr)"
proof -
  consider "pr = None" | "pr = Some Tcp" | "pr = Some Udp" | "pr = Some Sctp" using assms by auto
  then show ?thesis
  proof cases
    case 1
    then show ?thesis
      by (auto intro!: reads_directed [OF after_dir_branch(3) primitive_branch(3)] simp: reads_port)
  next
    case 2
    then show ?thesis
      by (auto intro!: reads_directed [OF after_dir_branch(5) primitive_branch(5)]
          simp: reads_ports_only reads_or_access reads_proto_ports)
  next
    case 3
    then show ?thesis
      by (auto intro!: reads_directed [OF after_dir_branch(6) primitive_branch(6)]
          simp: reads_ports_only reads_or_access reads_proto_ports)
  next
    case 4
    then show ?thesis
      by (auto intro!: reads_directed [OF after_dir_branch(7) primitive_branch(7)]
          simp: reads_ports_only reads_proto_ports)
  qed
qed

lemma reads_portrange_prim:
  assumes "printable (PortRange lo hi d pr)"
  shows "reads parse_primitive (prim_tokens (PortRange lo hi d pr)) (PortRange lo hi d pr)"
proof -
  consider "pr = None" | "pr = Some Tcp" | "pr = Some Udp" | "pr = Some Sctp" using assms by auto
  then show ?thesis
  proof cases
    case 1
    then show ?thesis
      by (auto intro!: reads_directed [OF after_dir_branch(4) primitive_branch(4)] simp: reads_portrange)
  next
    case 2
    then show ?thesis
      by (auto intro!: reads_directed [OF after_dir_branch(5) primitive_branch(5)]
          simp: reads_ports_only reads_or_access reads_proto_ports)
  next
    case 3
    then show ?thesis
      by (auto intro!: reads_directed [OF after_dir_branch(6) primitive_branch(6)]
          simp: reads_ports_only reads_or_access reads_proto_ports)
  next
    case 4
    then show ?thesis
      by (auto intro!: reads_directed [OF after_dir_branch(7) primitive_branch(7)]
          simp: reads_ports_only reads_proto_ports)
  qed
qed

section \<open>Protocols, link layer and encapsulations\<close>

lemma unat_ucast_small [simp]:
  "unat (ucast (n :: u8) :: u32) = unat n" "unat (ucast (m :: u16) :: u32) = unat m"
  using unat_u16_less [of m] by (simp_all add: unsigned_ucast_eq take_bit_nat_eq_self)

lemma ucast_back [simp]: "ucast (ucast (n :: u8) :: u32) = n" "ucast (ucast (m :: u16) :: u32) = m"
  by (rule bit_word_eqI, simp add: bit_simps)+

lemma run_proto_num [run_simps]:
  assumes "toks p = TNum (unat (n :: u8)) # ts" shows "parse_proto_num p = Inr (n, jump 1 p)"
proof -
  have "parse_u32 p = Inr (ucast n, jump 1 p)" using run_u32 [of p "ucast n" ts] assms by simp
  moreover have "\<not> (ucast n :: u32) > 0xff" using unat_u8_less [of n] by (simp add: word_less_nat_alt)
  moreover have "map_of proto_numbers (TNum (unat n)) = None" by (simp add: proto_numbers_def)
  ultimately show ?thesis using assms by (simp add: parse_proto_num_def run_blocks cur_toks)
qed

lemma reads_proto_num: "reads (pbind parse_proto_num (\<lambda>n. preturn (f n))) [TNum (unat n)] (f n)"
  by (rule readsI) (simp add: run_simps)

lemma reads_end:
  assumes "\<And>p. cur p \<in> {None, Some TAnd, Some TOr, Some TRParen} \<Longrightarrow> m p = Inr (v, p)" shows "reads m [] v"
  using assms follows_cur by (auto intro!: readsI)

lemma reads_ip_tail:
  "reads parse_ip_prim [] (Proto Ip)" "reads parse_ip_prim [TProto, TNum (unat n)] (Proto (Num n))"
  "reads parse_ip_prim [TProtochain, TNum (unat n)] (IpProtoChain n)"
  "reads parse_ip_prim [TBroadcast] IpBroadcast" "reads parse_ip_prim [TMulticast] IpMulticast"
  unfolding parse_ip_prim_def
  by (rule reads_or_access, rule reads_end readsI; auto simp: run_simps)+

lemma reads_ip6_tail:
  "reads parse_ip6_prim [] (Proto Ip6)" "reads parse_ip6_prim [TProto, TNum (unat n)] (Proto (Ip6Proto n))"
  "reads parse_ip6_prim [TProtochain, TNum (unat n)] (Ip6ProtoChain n)"
  "reads parse_ip6_prim [TMulticast] Ip6Multicast"
  unfolding parse_ip6_prim_def
  by (rule reads_or_access, rule reads_end readsI; auto simp: run_simps)+

lemma reads_ports_end: "reads (proto_ports d pr (preturn v)) [] v"
  by (rule reads_end) (auto simp: proto_ports_def run_blocks)

lemma reads_plain: "(t, pr) \<in> set plain_prims \<Longrightarrow> reads parse_primitive [t] pr"
  using reads_keyword [OF plain_branch reads_return] by auto

lemma reads_branch:
  "reads (or_access Trans (proto_ports SrcOrDst Tcp (preturn (Proto Tcp)))) ts v \<Longrightarrow> reads parse_primitive (TTcp # ts) v"
  "reads (or_access Trans (proto_ports SrcOrDst Udp (preturn (Proto Udp)))) ts v \<Longrightarrow> reads parse_primitive (TUdp # ts) v"
  "reads (proto_ports SrcOrDst Sctp (preturn (Proto Sctp))) ts v \<Longrightarrow> reads parse_primitive (TSctp # ts) v"
  "reads parse_ip_prim ts v \<Longrightarrow> reads parse_primitive (TIp # ts) v"
  "reads parse_ip6_prim ts v \<Longrightarrow> reads parse_primitive (TIp6 # ts) v"
  "reads (pbind parse_cmpop (\<lambda>c. pbind parse_u32 (\<lambda>v. preturn (Len c v)))) ts v \<Longrightarrow> reads parse_primitive (TLen # ts) v"
  "reads (pbind opt_num (\<lambda>n. preturn (Vlan (map_option of_nat n)))) ts v \<Longrightarrow> reads parse_primitive (TVlan # ts) v"
  "reads (pbind opt_num (\<lambda>n. preturn (Mpls (map_option of_nat n)))) ts v \<Longrightarrow> reads parse_primitive (TMpls # ts) v"
  "reads parse_pppoes ts v \<Longrightarrow> reads parse_primitive (TPppoes # ts) v"
  "reads (or_access Trans (preturn (Proto Icmp))) ts v \<Longrightarrow> reads parse_primitive (TIcmp # ts) v"
  "reads (or_access Trans (preturn (Proto Icmp6))) ts v \<Longrightarrow> reads parse_primitive (TIcmp6 # ts) v"
  by (erule reads_keyword [rotated], erule primitive_branch)+

lemma reads_proto_prim: "reads parse_primitive (prim_tokens (Proto pr)) (Proto pr)"
  by (cases pr)
     (auto intro!: reads_branch reads_ip_tail reads_ip6_tail reads_or_access reads_ports_end reads_return
       intro: reads_plain simp: plain_prims_def)

lemma reads_len: "reads (pbind parse_cmpop (\<lambda>c. pbind parse_u32 (\<lambda>v. preturn (Len c v)))) [cmp_token c, TNum (unat n)] (Len c n)"
  by (rule readsI, cases c) (simp_all add: parse_cmpop_def cmp_ops_def run_simps)

lemma reads_opt_num: "reads (pbind opt_num (\<lambda>n. preturn (f n))) (opt_tokens n) (f n)"
proof (cases n)
  case None
  then show ?thesis
    by (auto simp: opt_tokens_def opt_num_def run_blocks as_num_def intro!: reads_end)
qed (auto intro!: readsI simp: opt_tokens_def opt_num_def run_simps)

lemma reads_vlan: "reads parse_primitive (prim_tokens (Vlan n)) (Vlan n)"
proof -
  have "map_option of_nat (map_option unat n) = n" by (cases n) simp_all
  then show ?thesis using reads_opt_num [of "\<lambda>n. Vlan (map_option of_nat n)" "map_option unat n"]
    by (auto intro!: reads_branch)
qed

lemma reads_mpls: "reads parse_primitive (prim_tokens (Mpls n)) (Mpls n)"
proof -
  have "map_option of_nat (map_option unat n) = n" by (cases n) simp_all
  then show ?thesis using reads_opt_num [of "\<lambda>n. Mpls (map_option of_nat n)" "map_option unat n"]
    by (auto intro!: reads_branch)
qed

lemma reads_pppoes: "reads parse_primitive (prim_tokens (PppoeSession n)) (PppoeSession n)"
proof (cases n)
  case None
  then show ?thesis
    by (auto simp: opt_tokens_def parse_pppoes_def run_blocks as_num_def intro!: reads_end reads_branch)
next
  case (Some m)
  then show ?thesis using unat_u16_less [of m]
    by (auto intro!: readsI reads_branch simp: opt_tokens_def parse_pppoes_def run_simps)
qed

lemma reads_ether:
  "reads parse_primitive (prim_tokens (EtherHost m d)) (EtherHost m d)"
  "reads parse_primitive (prim_tokens (EtherProto n)) (EtherProto n)"
  "reads parse_primitive (prim_tokens EtherMulticast) EtherMulticast"
proof -
  have prim: "reads parse_ether_prim ts v \<Longrightarrow> ts = TEther # us \<Longrightarrow> reads parse_primitive ts v" for ts us v
    by (auto simp: reads_def primitive_branch(10) cur_toks)
  show "reads parse_primitive (prim_tokens (EtherHost m d)) (EtherHost m d)"
    by (rule prim [OF readsI], cases d)
       (simp_all add: parse_ether_prim_def parse_dir_def parse_mac_tok_def run_simps)
  have u: "toks p = TNum (unat n) # ts \<Longrightarrow> parse_u32 p = Inr (ucast n, jump 1 p)" for p ts
    using run_u32 [of p "ucast n" ts] by simp
  show "reads parse_primitive (prim_tokens (EtherProto n)) (EtherProto n)"
    by (rule prim [OF readsI])
       (simp_all add: parse_ether_prim_def parse_dir_def ethertypes_def run_simps u as_mac_def)
  show "reads parse_primitive (prim_tokens EtherMulticast) EtherMulticast"
    by (rule prim [OF readsI])
       (simp_all add: parse_ether_prim_def parse_dir_def run_simps as_mac_def)
qed

section \<open>Byte access\<close>

lemma op_level_stop:
  assumes "sub p = Inr (v, q)" "Option.bind (cur q) (map_of ops) = None"
  shows "op_level ops sub p = Inr (v, q)"
  using assms by (simp add: op_level_def run_blocks(1))

lemma run_offset_expr:
  assumes "toks p = TNum (unat offset) # TColon # ts" "0 \<le> sint offset"
  shows "parse_offset_expr p = Inr (offset, jump 1 p)"
proof -
  have cur: "cur p = Some (TNum (unat offset))" "cur (jump 1 p) = Some TColon"
    using assms(1) by (simp_all add: cur_toks toks_jump)
  have "parse_offset_atom (Suc MAX_OFFSET_DEPTH) p = Inr (uint offset, jump 1 p)"
    using run_u32 [OF assms(1)] cur by (simp add: run_blocks)
  then have "parse_offset_or (parse_offset_atom (Suc MAX_OFFSET_DEPTH)) p = Inr (uint offset, jump 1 p)"
    unfolding ladder_defs using cur(2) by (intro op_level_stop) simp_all
  moreover have "sint offset < 2 ^ 31" using sint_lt [of offset] by simp
  moreover have "uint offset = sint offset"
    using assms(2) calculation(2) by (simp add: uint_sint take_bit_int_eq_self)
  ultimately show ?thesis
    using assms(2) by (simp add: parse_offset_expr_def run_blocks(1,2) del: parse_offset_atom.simps)
qed

lemma run_brackets:
  assumes "toks p = [TLBracket, TNum (unat offset), TColon, TNum (size_num sz), TRBracket] @ rest" "0 \<le> sint offset"
  shows "parse_brackets p = Inr ((offset, sz), jump 5 p)"
proof -
  have "parse_offset_expr (jump 1 p) = Inr (offset, jump 2 p)"
    using run_offset_expr [of "jump 1 p" offset "[TNum (size_num sz), TRBracket] @ rest"] assms
    by (simp add: toks_jump jump_jump numeral_2_eq_2)
  then show ?thesis
    using assms by (cases sz) (simp_all add: parse_brackets_def parse_access_size_def run_simps)
qed

lemma run_alu_ops:
  assumes "toks p = alu_tokens ops @ rest" "rest \<noteq> []" "map_of arith_ops (hd rest) = None" "length ops < n"
  shows "parse_alu_ops n p = Inr (ops, jump (2 * length ops) p)"
  using assms
proof (induction ops arbitrary: n p)
  case Nil
  then obtain k where "n = Suc k" by (cases n) auto
  with Nil show ?case by (cases rest) (simp_all add: alu_tokens_def cur_toks)
next
  case (Cons x ops)
  obtain f m where x: "x = (f, m)" by (cases x)
  obtain k where k: "n = Suc k" "length ops < k" using Cons.prems(4) by (cases n) auto
  have t: "toks p = arith_token f # TNum (unat m) # alu_tokens ops @ rest"
    using Cons.prems(1) x by (simp add: alu_tokens_def)
  have "parse_alu_ops k (jump 2 p) = Inr (ops, jump (2 * length ops) (jump 2 p))"
    using Cons.IH [of "jump 2 p" k] Cons.prems(2,3) k(2) t by (simp add: toks_jump)
  moreover have "map_of arith_ops (arith_token f) = Some f"
    by (cases f) (simp_all add: arith_ops_def)
  ultimately show ?case
    using t x k(1) by (simp add: run_simps numeral_2_eq_2)
qed

lemma reads_cmp_rhs:
  assumes "load_ok rhs" shows "reads parse_cmp_rhs (rhs_tokens rhs) rhs"
proof (cases rhs)
  case (Const n)
  then show ?thesis
    by (intro readsI) (simp add: parse_cmp_rhs_def run_simps rhs_layers_def)
next
  case (LoadRhs b)
  show ?thesis
  proof (rule readsI)
    fix p rest assume t: "toks p = rhs_tokens rhs @ rest"
    have "parse_brackets (jump 1 p) = Inr ((load_offset b, load_size b), jump 6 p)"
      using run_brackets [of "jump 1 p" "load_offset b" "load_size b" rest] t LoadRhs assms
      by (simp add: toks_jump load_tokens_def jump_jump)
    moreover have "map_of rhs_layers (layer_token (load_layer b)) = Some (load_layer b)"
      by (cases "load_layer b") (simp_all add: rhs_layers_def)
    ultimately show "parse_cmp_rhs p = Inr (rhs, jump (length (rhs_tokens rhs)) p)"
      using t LoadRhs by (simp add: parse_cmp_rhs_def parse_byte_load_def run_simps load_tokens_def numeral_eq_Suc)
  qed
qed

lemma length_alu_tokens [simp]: "length (alu_tokens ops) = 2 * length ops"
  by (induction ops) (auto simp: alu_tokens_def)

lemma reads_byte_access:
  assumes "prim_ok (ByteAccess b)" "printable (ByteAccess b)"
  shows "reads (parse_byte_access (ba_layer b)) (tl (prim_tokens (ByteAccess b))) (ByteAccess b)"
proof (rule readsI)
  let ?n = "length (alu_ops b)" and ?rhs = "rhs_tokens (ba_rhs b)"
  fix p rest assume t: "toks p = tl (prim_tokens (ByteAccess b)) @ rest" and f: "follows rest"
  have t5: "toks (jump 5 p) = alu_tokens (alu_ops b) @ cmp_token (ba_op b) # ?rhs @ rest"
    using t by (simp add: toks_jump load_tokens_def)
  have brackets: "parse_brackets p = Inr ((ba_offset b, ba_size b), jump 5 p)"
    using t assms(1) by (intro run_brackets) (auto simp: load_tokens_def)
  have no_op: "map_of arith_ops (cmp_token (ba_op b)) = None"
    using assms(2) by (cases "ba_op b") (simp_all add: arith_ops_def)
  have "length (toks (jump 5 p)) \<ge> ?n" using t5 by simp
  then have alu: "parse_alu_ops (Suc (remaining (jump 5 p))) (jump 5 p) = Inr (alu_ops b, jump (5 + 2 * ?n) p)"
    using run_alu_ops [OF t5] no_op by (simp add: remaining_toks jump_jump del: parse_alu_ops.simps)
  have tc: "toks (jump (5 + 2 * ?n) p) = cmp_token (ba_op b) # ?rhs @ rest"
    using toks_jump_add [of 5 "2 * ?n" p] by (simp add: t5)
  then have cmp: "parse_cmpop (jump (5 + 2 * ?n) p) = Inr (ba_op b, jump (6 + 2 * ?n) p)"
    by (cases "ba_op b") (simp_all add: parse_cmpop_def cmp_ops_def run_simps)
  have "toks (jump (6 + 2 * ?n) p) = ?rhs @ rest"
    using toks_jump_add [of "5 + 2 * ?n" 1 p] by (simp add: tc)
  then have rhs: "parse_cmp_rhs (jump (6 + 2 * ?n) p) = Inr (ba_rhs b, jump (6 + 2 * ?n + length ?rhs) p)"
    using reads_cmp_rhs [of "ba_rhs b"] assms(1) f by (simp add: reads_def jump_jump)
  have len: "length (tl (prim_tokens (ByteAccess b))) = 6 + 2 * ?n + length ?rhs"
    by (simp add: load_tokens_def)
  show "parse_byte_access (ba_layer b) p = Inr (ByteAccess b, jump (length (tl (prim_tokens (ByteAccess b)))) p)"
    using brackets alu cmp rhs unfolding len
    by (simp add: parse_byte_access_def run_blocks(1,2) del: parse_alu_ops.simps)
qed

lemma reads_byte_access_prim:
  assumes "prim_ok (ByteAccess b)" "printable (ByteAccess b)"
  shows "reads parse_primitive (prim_tokens (ByteAccess b)) (ByteAccess b)"
proof -
  let ?ts = "tl (prim_tokens (ByteAccess b))"
  have skip: "parse_primitive p = skip (parse_byte_access (ba_layer b)) p"
    if "toks p = prim_tokens (ByteAccess b) @ rest" for p rest
    using that
    by (cases "ba_layer b")
       (simp_all add: primitive_branch cur_toks load_tokens_def parse_ip_prim_def or_access_def parse_ether_prim_def
         run_blocks toks_jump)
  show ?thesis
  proof (rule readsI)
    fix p rest assume t: "toks p = prim_tokens (ByteAccess b) @ rest" and f: "follows rest"
    have "parse_byte_access (ba_layer b) (jump 1 p) = Inr (ByteAccess b, jump (length ?ts) (jump 1 p))"
      by (rule readsD [OF reads_byte_access [OF assms] _ f]) (use t in \<open>simp add: toks_jump load_tokens_def\<close>)
    moreover have "cur p \<noteq> None" using t by (simp add: cur_toks load_tokens_def)
    ultimately show "parse_primitive p = Inr (ByteAccess b, jump (length (prim_tokens (ByteAccess b))) p)"
      unfolding skip [OF t] by (auto simp: run_blocks(8) jump_jump load_tokens_def)
  qed
qed

theorem reads_primitive:
  assumes "printable pr" "prim_ok pr" shows "reads parse_primitive (prim_tokens pr) pr"
proof (cases pr)
  case (ByteAccess b)
  then show ?thesis using assms by (simp only: reads_byte_access_prim)
qed (use assms in \<open>auto simp: reads_host_prim [simplified] reads_net_prim [simplified] reads_net6_prim [simplified]
      reads_port_prim [simplified] reads_portrange_prim [simplified] reads_proto_prim [simplified]
      reads_ether [simplified] reads_vlan [simplified] reads_mpls [simplified] reads_pppoes [simplified]
      plain_prims_def intro: reads_branch reads_ip_tail reads_ip6_tail reads_len reads_plain\<close>)

section \<open>Writing expressions\<close>

text \<open>\<open>expr_tokens True\<close> writes an operand, \<open>expr_tokens False\<close> a whole level.\<close>

fun expr_tokens :: "bool \<Rightarrow> expr \<Rightarrow> token list" where
  "expr_tokens False (And l r) = expr_tokens False l @ TAnd # expr_tokens True r"
| "expr_tokens False (Or l r) = expr_tokens False l @ TOr # expr_tokens True r"
| "expr_tokens True (And l r) = TLParen # expr_tokens False l @ TAnd # expr_tokens True r @ [TRParen]"
| "expr_tokens True (Or l r) = TLParen # expr_tokens False l @ TOr # expr_tokens True r @ [TRParen]"
| "expr_tokens b (expr.Not e) = TNot # expr_tokens True e"
| "expr_tokens b (Primitive pr) = prim_tokens pr"

fun paren_depth :: "bool \<Rightarrow> expr \<Rightarrow> nat" where
  "paren_depth False (And l r) = max (paren_depth False l) (paren_depth True r)"
| "paren_depth False (Or l r) = max (paren_depth False l) (paren_depth True r)"
| "paren_depth True (And l r) = Suc (max (paren_depth False l) (paren_depth True r))"
| "paren_depth True (Or l r) = Suc (max (paren_depth False l) (paren_depth True r))"
| "paren_depth b (expr.Not e) = paren_depth True e"
| "paren_depth b (Primitive pr) = 0"

definition writable :: "expr \<Rightarrow> bool" where
  "writable e \<longleftrightarrow> list_all (\<lambda>pr. printable pr \<and> prim_ok pr) (prims e)"

lemma writable_simps [simp]:
  "writable (And l r) \<longleftrightarrow> writable l \<and> writable r" "writable (Or l r) \<longleftrightarrow> writable l \<and> writable r"
  "writable (expr.Not e) \<longleftrightarrow> writable e" "writable (Primitive pr) \<longleftrightarrow> printable pr \<and> prim_ok pr"
  by (simp_all add: writable_def)

text \<open>The loop with \<open>n\<close> negations already counted.\<close>

definition after_nots :: "open_paren list \<Rightarrow> level \<Rightarrow> nat \<Rightarrow> parser \<Rightarrow> error + (expr \<times> parser)" where
  "after_nots opens left n p =
     (case eat_nots n p of (nots, q) \<Rightarrow>
        if cur q = Some TLParen then
          (if length opens = MAX_PAREN_DEPTH then Inl too_deep
           else parse_loop (\<lparr>open_left = left, open_nots = nots\<rparr> # opens) None (jump 1 q))
        else pbind parse_primitive (\<lambda>pr. after_fold opens left nots (Primitive pr)) q)"

lemma parse_loop_after_nots: "parse_loop opens left p = after_nots opens left 0 p"
  unfolding after_nots_def parse_loop_eq [of opens left p] bump_jump ..

lemma after_nots_not: "cur p = Some TNot \<Longrightarrow> after_nots opens left n p = after_nots opens left (Suc n) (jump 1 p)"
  by (simp add: after_nots_def eat_nots.simps [of n p] jump_def)

lemma after_nots_prim:
  assumes "parse_primitive p = Inr (pr, q)" "cur p \<notin> {Some TNot, Some TBang, Some TLParen}"
  shows "after_nots opens left n p = after_fold opens left n (Primitive pr) q"
  using assms by (simp add: after_nots_def eat_nots.simps [of n p] run_blocks(1))

lemma after_nots_paren:
  assumes "cur p = Some TLParen" "length opens < MAX_PAREN_DEPTH"
  shows "after_nots opens left n p = parse_loop (\<lparr>open_left = left, open_nots = n\<rparr> # opens) None (jump 1 p)"
  using assms by (simp add: after_nots_def eat_nots.simps [of n p])

lemma after_fold_joined:
  assumes "join_level left ((expr.Not ^^ n) e) = join_level left' ((expr.Not ^^ n') e')"
  shows "after_fold opens left n e = after_fold opens left' n' e'"
  unfolding after_fold_def fold_levels_eq [of opens left n e] fold_levels_eq [of opens left' n' e'] assms ..

lemma after_fold_not: "after_fold opens left (Suc n) e = after_fold opens left n (expr.Not e)"
  by (rule after_fold_joined) (simp add: funpow_swap1)

lemma after_fold_op:
  assumes "cur p = Some (if is_or then TOr else TAnd)"
  shows "after_fold opens left n e p =
    parse_loop opens (Some (join_level left ((expr.Not ^^ n) e), is_or)) (jump 1 p)"
  using assms by (cases is_or) (simp_all add: after_fold_def fold_levels_eq [of opens] parse_logical_op_def run_blocks)

lemma after_fold_close:
  assumes "cur p = Some TRParen"
  shows "after_fold (\<lparr>open_left = left, open_nots = n\<rparr> # opens) l m e p =
    after_fold opens left n (join_level l ((expr.Not ^^ m) e)) (jump 1 p)"
  using assms
  by (simp add: after_fold_def fold_levels_eq [of "_ # opens"] parse_logical_op_def looks_like_primitive_start_def
      primitive_starts_def run_blocks as_num_def as_ipv4_def as_ipv6_def)

lemma after_fold_level:
  "after_fold opens (Some (l, is_or)) 0 r = after_fold opens None 0 (if is_or then Or l r else And l r)"
  by (rule after_fold_joined) (simp add: join_level_def)

lemma prim_tokens_head:
  assumes "prim_tokens pr = t # ts" shows "t \<notin> {TNot, TBang, TLParen}"
proof -
  have "hd (prim_tokens pr) \<notin> {TNot, TBang, TLParen}"
  proof (cases pr)
    case (ByteAccess b)
    then show ?thesis by (cases "ba_layer b") (simp_all add: load_tokens_def)
  next
    case (Proto q)
    then show ?thesis by (cases q) simp_all
  next
    case (Host a d)
    then show ?thesis by (cases d) simp_all
  next
    case (Net n d)
    then show ?thesis by (cases d) simp_all
  next
    case (Net6 n d)
    then show ?thesis by (cases d) simp_all
  next
    case (Port n d q)
    then show ?thesis by (cases d; cases q rule: ports_tokens.cases) simp_all
  next
    case (PortRange lo hi d q)
    then show ?thesis by (cases d; cases q rule: ports_tokens.cases) simp_all
  qed simp_all
  then show ?thesis using assms by simp
qed

lemma prim_tokens_not_Nil: "prim_tokens pr \<noteq> []"
  by (cases pr) (auto simp: load_tokens_def elim: proto_tokens.elims)

lemma follows_simps [simp]: "follows (TAnd # ts)" "follows (TOr # ts)" "follows (TRParen # ts)" "follows []"
  by (simp_all add: follows_def)

text \<open>\<open>takes opens left n ts e\<close>: in this situation the loop turns the tokens \<open>ts\<close> into the operand \<open>e\<close>.\<close>

definition takes :: "open_paren list \<Rightarrow> level \<Rightarrow> nat \<Rightarrow> token list \<Rightarrow> expr \<Rightarrow> bool" where
  "takes opens left n ts e \<longleftrightarrow>
     (\<forall>p rest. toks p = ts @ rest \<longrightarrow> follows rest \<longrightarrow>
        after_nots opens left n p = after_fold opens left n e (jump (length ts) p))"

lemma takes_binary:
  assumes "takes opens None 0 ls l" "takes opens (Some (l, is_or)) 0 rs r"
  shows "takes opens None 0 (ls @ (if is_or then TOr else TAnd) # rs) (if is_or then Or l r else And l r)"
  unfolding takes_def
proof (intro allI impI)
  let ?op = "if is_or then TOr else TAnd"
  fix p rest assume t: "toks p = (ls @ ?op # rs) @ rest" and f: "follows rest"
  have "after_nots opens None 0 p = after_fold opens None 0 l (jump (length ls) p)"
    using assms(1) t unfolding takes_def by (cases is_or) simp_all
  also have "\<dots> = parse_loop opens (Some (l, is_or)) (jump (Suc (length ls)) p)"
    using t by (subst after_fold_op [of _ is_or]) (simp_all add: run_simps join_level_def)
  also have "\<dots> = after_fold opens (Some (l, is_or)) 0 r (jump (length rs) (jump (Suc (length ls)) p))"
    unfolding parse_loop_after_nots using assms(2) t f unfolding takes_def by (simp add: toks_jump)
  finally show "after_nots opens None 0 p = after_fold opens None 0 (if is_or then Or l r else And l r)
      (jump (length (ls @ ?op # rs)) p)"
    by (simp add: after_fold_level jump_jump)
qed

lemma takes_paren:
  assumes "takes (\<lparr>open_left = left, open_nots = n\<rparr> # opens) None 0 ts e" "length opens < MAX_PAREN_DEPTH"
  shows "takes opens left n (TLParen # ts @ [TRParen]) e"
  unfolding takes_def
proof (intro allI impI)
  let ?o = "\<lparr>open_left = left, open_nots = n\<rparr>"
  fix p rest assume t: "toks p = (TLParen # ts @ [TRParen]) @ rest" and f: "follows rest"
  have "after_nots opens left n p = parse_loop (?o # opens) None (jump 1 p)"
    using t assms(2) by (intro after_nots_paren) (simp_all add: cur_toks)
  also have "\<dots> = after_fold (?o # opens) None 0 e (jump (length ts) (jump 1 p))"
    unfolding parse_loop_after_nots using assms(1) t unfolding takes_def by (simp add: toks_jump)
  also have "\<dots> = after_fold opens left n e (jump 1 (jump (length ts) (jump 1 p)))"
    using t by (subst after_fold_close) (simp_all add: run_simps join_level_def)
  finally show "after_nots opens left n p = after_fold opens left n e (jump (length (TLParen # ts @ [TRParen])) p)"
    by (simp add: jump_jump)
qed

lemma takes_not:
  assumes "takes opens left (Suc n) ts e" shows "takes opens left n (TNot # ts) (expr.Not e)"
  using assms by (auto simp: takes_def after_nots_not after_fold_not run_simps)

lemma takes_prim:
  assumes "printable pr" "prim_ok pr" shows "takes opens left n (prim_tokens pr) (Primitive pr)"
  unfolding takes_def
proof (intro allI impI)
  fix p rest assume t: "toks p = prim_tokens pr @ rest" and f: "follows rest"
  obtain u us where "prim_tokens pr = u # us" using prim_tokens_not_Nil by (meson neq_Nil_conv)
  then have "cur p \<notin> {Some TNot, Some TBang, Some TLParen}"
    using prim_tokens_head [of pr u us] t by (simp add: cur_toks)
  with readsD [OF reads_primitive [OF assms] t f]
  show "after_nots opens left n p = after_fold opens left n (Primitive pr) (jump (length (prim_tokens pr)) p)"
    by (intro after_nots_prim)
qed

lemma takes_expr:
  "writable e \<Longrightarrow> length opens + paren_depth b e \<le> MAX_PAREN_DEPTH \<Longrightarrow> b \<or> left = None \<and> n = 0 \<Longrightarrow>
     takes opens left n (expr_tokens b e) e"
proof (induction b e arbitrary: opens left n rule: expr_tokens.induct)
  case (1 l r)
  then have "takes opens None 0 (expr_tokens False l @ (if False then TOr else TAnd) # expr_tokens True r)
      (if False then Or l r else And l r)"
    by (intro takes_binary) auto
  then show ?case using 1 by simp
next
  case (2 l r)
  then have "takes opens None 0 (expr_tokens False l @ (if True then TOr else TAnd) # expr_tokens True r)
      (if True then Or l r else And l r)"
    by (intro takes_binary) auto
  then show ?case using 2 by simp
next
  case (3 l r)
  let ?o = "\<lparr>open_left = left, open_nots = n\<rparr>"
  have "takes (?o # opens) None 0 (expr_tokens False l @ (if False then TOr else TAnd) # expr_tokens True r)
      (if False then Or l r else And l r)"
    using 3 by (intro takes_binary) auto
  then have "takes opens left n (TLParen # (expr_tokens False l @ TAnd # expr_tokens True r) @ [TRParen]) (And l r)"
    using 3 by (intro takes_paren) auto
  then show ?case by simp
next
  case (4 l r)
  let ?o = "\<lparr>open_left = left, open_nots = n\<rparr>"
  have "takes (?o # opens) None 0 (expr_tokens False l @ (if True then TOr else TAnd) # expr_tokens True r)
      (if True then Or l r else And l r)"
    using 4 by (intro takes_binary) auto
  then have "takes opens left n (TLParen # (expr_tokens False l @ TOr # expr_tokens True r) @ [TRParen]) (Or l r)"
    using 4 by (intro takes_paren) auto
  then show ?case by simp
next
  case (5 b e)
  then show ?case by (auto intro!: takes_not)
next
  case (6 b pr)
  then show ?case by (simp add: takes_prim)
qed

lemma after_fold_end: "toks p = [] \<Longrightarrow> after_fold [] None 0 e p = Inr (e, p)"
  by (simp add: after_fold_def fold_levels_eq [of "[]"] parse_logical_op_def looks_like_primitive_start_def
      run_simps join_level_def as_num_def as_ipv4_def as_ipv6_def)

lemma parse_written:
  assumes "map spanned_token ts = expr_tokens False e" "writable e" "paren_depth False e \<le> MAX_PAREN_DEPTH"
  shows "parse ts = Inr e"
proof -
  let ?p = "\<lparr>p_tokens = ts, p_pos = 0, p_depth = 0\<rparr>" and ?n = "length (expr_tokens False e)"
  have t: "toks ?p = expr_tokens False e @ []" using assms(1) by (simp add: toks_def)
  have len: "length ts = ?n" using assms(1) by (metis length_map)
  have "takes [] None 0 (expr_tokens False e) e" using assms(2,3) by (intro takes_expr) auto
  then have "parse_loop [] None ?p = after_fold [] None 0 e (jump ?n ?p)"
    using t by (auto simp: takes_def parse_loop_after_nots)
  also have "\<dots> = Inr (e, jump ?n ?p)" using t by (intro after_fold_end) (simp add: toks_jump)
  finally show ?thesis by (simp add: parse_def parse_expr_def jump_def len)
qed

end
