(* ===== verification/Frontend.thy ===== *)
theory Frontend
  imports Ebpf_Theorems Lexer_Roundtrip Parser_Roundtrip
begin

text \<open>
  \<^verbatim>\<open>pktbaffle/src/lib.rs\<close>: the composition of the scanner, the parser and the two code generators, with
  the properties of \<^verbatim>\<open>parser.rs\<close> and those that span the whole way from a filter text to a program.
\<close>

section \<open>The entry points\<close>

definition parse_filter :: "string \<Rightarrow> error + expr" where
  "parse_filter src = rbind (lex src) parse"

datatype target = Classic | Extended

datatype lib_program = ClassicProgram program | ExtendedProgram eprogram

definition compile_filter :: "string \<Rightarrow> link_type \<Rightarrow> target \<Rightarrow> error + lib_program" where
  "compile_filter src link target =
     rbind (lex src) (\<lambda>tokens.
     rbind (parse tokens) (\<lambda>ast.
       case target of
         Classic \<Rightarrow> rbind (codegen_compile ast link) (\<lambda>p. Inr (ClassicProgram p))
       | Extended \<Rightarrow> rbind (ebpf_compile ast link) (\<lambda>p. Inr (ExtendedProgram p))))"

fun lib_len :: "lib_program \<Rightarrow> nat" where
  "lib_len (ClassicProgram p) = program_len p"
| "lib_len (ExtendedProgram p) = eprogram_len p"

definition lib_is_empty :: "lib_program \<Rightarrow> bool" where
  "lib_is_empty p \<longleftrightarrow> lib_len p = 0"

fun lib_to_le_bytes :: "lib_program \<Rightarrow> u8 list" where
  "lib_to_le_bytes (ClassicProgram p) = program_to_le_bytes p"
| "lib_to_le_bytes (ExtendedProgram p) = eprogram_to_le_bytes p"

fun as_classic :: "lib_program \<Rightarrow> program option" where
  "as_classic (ClassicProgram p) = Some p"
| "as_classic (ExtendedProgram _) = None"

fun as_extended :: "lib_program \<Rightarrow> eprogram option" where
  "as_extended (ClassicProgram _) = None"
| "as_extended (ExtendedProgram p) = Some p"

definition lib_instructions :: "lib_program \<Rightarrow> error + insn list" where
  "lib_instructions p =
     (case as_classic p of
        None \<Rightarrow> Inl (Panic ''instructions() called on an eBPF program; use as_extended() instead'')
      | Some q \<Rightarrow> Inr (instructions q))"

section \<open>Every token of a written tree has a text\<close>

definition used_tokens :: "token list" where
  "used_tokens =
     [TAnd, TOr, TNot, TLParen, TRParen, TSrc, TDst, THost, TNet, TPort, TPortRange, TMask, TSlash, TMinus,
      TTcp, TUdp, TSctp, TIp, TIp6, TArp, TRarp, TIcmp, TIcmp6, TIgmp, TProto, TProtochain, TEther, TMulticast,
      TBroadcast, TVlan, TMpls, TPppoed, TPppoes, TLen, TInbound, TOutbound, TLBracket, TRBracket, TColon,
      TEq, TNe, TLt, TLe, TGt, TGe, TAmp, TPlus, TStar, TPercent, TPipe, TCaret, TShl, TShr]"

lemma used_tokens_listed: "list_all (\<lambda>t. t \<in> snd ` set (keyword_table @ op_table)) used_tokens"
  by (simp add: used_tokens_def keyword_table_def op_table_def one_char_ops_def)

lemma used_tokens_write: "t \<in> set used_tokens \<Longrightarrow> \<exists>w. writes w t"
  using used_tokens_listed by (force simp: list_all_iff intro: writes.intros(1,2))

definition has_text :: "token \<Rightarrow> bool" where
  "has_text t \<longleftrightarrow> (\<exists>w. writes w t)"

lemma has_text_used: "t \<in> set used_tokens \<Longrightarrow> has_text t"
  by (simp add: has_text_def used_tokens_write)

lemma has_text_num:
  "has_text (TNum (unat (a :: u8)))" "has_text (TNum (unat (b :: u16)))" "has_text (TNum (unat (c :: u32)))"
  using unat_u8_less [of a] unat_u16_less [of b] unat_u32_less [of c]
  by (auto simp: has_text_def intro!: exI writes.decimal)

lemma has_text_literals:
  "has_text (ipv4_token w)" "has_text (TIpv6 v)" "has_text (TMac m)" "has_text (TNum (size_num sz))"
proof -
  show "has_text (ipv4_token w)"
    unfolding has_text_def ipv4_token_def by (rule exI, rule writes.dotted) simp_all
  show "has_text (TIpv6 v)" "has_text (TMac m)"
    unfolding has_text_def by (blast intro: writes.intros)+
  show "has_text (TNum (size_num sz))"
    unfolding has_text_def by (cases sz) (auto intro!: exI writes.decimal)
qed

lemma has_text_keywords:
  "list_all has_text used_tokens"
  by (simp add: list_all_iff has_text_used)

lemmas has_text_fixed [simp] = has_text_keywords [unfolded used_tokens_def, simplified]

lemma has_text_parts:
  "t \<in> set (dir_tokens d) \<Longrightarrow> has_text t" "t \<in> set (ports_tokens pr) \<Longrightarrow> has_text t"
  "t \<in> set (proto_tokens q) \<Longrightarrow> has_text t" "has_text (cmp_token c)" "has_text (arith_token f)"
  "has_text (layer_token l)" "has_text (addr_token a)"
proof -
  show "t \<in> set (dir_tokens d) \<Longrightarrow> has_text t"
    by (cases d) auto
  show "t \<in> set (ports_tokens pr) \<Longrightarrow> has_text t"
    by (cases pr rule: ports_tokens.cases) auto
  show "t \<in> set (proto_tokens q) \<Longrightarrow> has_text t"
    by (cases q) (auto simp: has_text_num)
  show "has_text (cmp_token c)" by (cases c) auto
  show "has_text (arith_token f)" by (cases f) auto
  show "has_text (layer_token l)" by (cases l) auto
  show "has_text (addr_token a)" by (cases a) (auto simp: has_text_literals)
qed

lemma has_text_load: "t \<in> set (load_tokens l offset sz) \<Longrightarrow> has_text t"
  by (auto simp: load_tokens_def has_text_parts has_text_num has_text_literals)

lemma has_text_prim: "t \<in> set (prim_tokens pr) \<Longrightarrow> has_text t"
proof (cases pr)
  case (ByteAccess b)
  moreover have "u \<in> set (rhs_tokens r) \<Longrightarrow> has_text u" for u r
    by (cases r) (auto simp: has_text_num has_text_load)
  ultimately show "t \<in> set (prim_tokens pr) \<Longrightarrow> has_text t"
    by (auto simp: alu_tokens_def has_text_parts has_text_num has_text_load)
qed (auto simp: has_text_parts has_text_num has_text_literals opt_tokens_def split: option.splits)

lemma has_text_expr: "t \<in> set (expr_tokens b e) \<Longrightarrow> has_text t"
  by (induction b e rule: expr_tokens.induct) (auto simp: has_text_prim)

lemma tokens_have_text:
  assumes "\<forall>t\<in>set ts. has_text t"
  shows "\<exists>src sp. lex src = Inr sp \<and> map spanned_token sp = ts"
proof -
  obtain f where f: "\<forall>t\<in>set ts. writes (f t) t" using assms unfolding has_text_def by metis
  let ?ws = "map f ts" and ?seps = "map (\<lambda>_. '' '') ts"
  have "list_all2 writes ?ws ts" using f by (simp add: list_all2_conv_all_nth)
  then have "\<exists>sp. lex_loop (concat (map2 (@) ?ws ?seps)) 0 = Inr sp \<and> map spanned_token sp = ts"
    by (rule lex_loop_writes) (simp_all add: list_all_iff is_ascii_whitespace_def)
  then show ?thesis unfolding lex_def by blast
qed

lemma tree_has_text:
  assumes "writable e" "paren_depth False e \<le> MAX_PAREN_DEPTH"
  shows "\<exists>src sp. lex src = Inr sp \<and> parse sp = Inr e"
  using tokens_have_text [of "expr_tokens False e"] has_text_expr parse_written [OF _ assms] by blast

lemma parse_errors:
  assumes "parse ts = Inl e" shows "\<exists>m. e = ParseError m"
proof -
  let ?p = "\<lparr>p_tokens = ts, p_pos = 0, p_depth = 0\<rparr>"
  have "pwp (parse_loop [] None) (loop_post [] None ?p) ?p" by (rule parse_loop_ok)
  then have "parse_loop [] None ?p = Inl e \<Longrightarrow> \<exists>m. e = ParseError m" by (auto simp: pwp_def)
  then show ?thesis using assms by (auto simp: parse_def parse_expr_def rbind_eq_Inl split: if_splits)
qed

section \<open>The pipeline as an interface\<close>

text \<open>
  What an entry point relies on: a scanner and a parser that fail only with their own errors, trees
  that satisfy an invariant, and a generator that fails only with errors of code generation. Any
  generator for the same trees is an instance.
\<close>

locale filter_pipeline =
  fixes scan :: "string \<Rightarrow> error + 't" and grammar :: "'t \<Rightarrow> error + expr"
    and generate :: "expr \<Rightarrow> link_type \<Rightarrow> error + 'p" and tree_ok :: "expr \<Rightarrow> bool"
  assumes scan_fails: "scan src = Inl e \<Longrightarrow>
      (\<exists>m. e = ParseError m) \<or> (\<exists>off c. e = LexError off c \<and> off < length src)"
    and grammar_fails: "grammar ts = Inl e \<Longrightarrow> \<exists>m. e = ParseError m"
    and grammar_ok: "scan src = Inr ts \<Longrightarrow> grammar ts = Inr tree \<Longrightarrow> tree_ok tree"
    and generate_fails: "generate tree link = Inl e \<Longrightarrow> \<exists>m. e = CodegenError m"
begin

lemma parse_ok: "rbind (scan src) grammar = Inr tree \<Longrightarrow> tree_ok tree"
  using grammar_ok by (auto simp: res_simps)

lemma pipeline_total:
  "case rbind (scan src) (\<lambda>ts. rbind (grammar ts) (\<lambda>tree. rbind (generate tree link) (\<lambda>p. Inr (wrap p)))) of
     Inr p \<Rightarrow> True
   | Inl (LexError off c) \<Rightarrow> off < length src
   | Inl (ParseError m) \<Rightarrow> True
   | Inl (CodegenError m) \<Rightarrow> True
   | Inl (Panic m) \<Rightarrow> False"
proof (cases "rbind (scan src) (\<lambda>ts. rbind (grammar ts) (\<lambda>tree. rbind (generate tree link) (\<lambda>p. Inr (wrap p))))")
  case (Inl e)
  then have "(\<exists>m. e = ParseError m) \<or> (\<exists>off c. e = LexError off c \<and> off < length src) \<or> (\<exists>m. e = CodegenError m)"
    using scan_fails [of src] grammar_fails generate_fails by (auto simp: rbind_eq_Inl)
  with Inl show ?thesis by auto
qed simp

end

lemma parse_tree_ok:
  assumes "lex src = Inr ts" "parse ts = Inr e" shows "expr_ok e"
proof -
  let ?p = "\<lparr>p_tokens = ts, p_pos = 0, p_depth = 0\<rparr>"
  have "toks_ok ?p" using lex_loop_spec [of src 0 ts] assms(1) by (simp add: toks_ok_def lex_def)
  moreover obtain q where "parse_loop [] None ?p = Inr (e, q)"
    using assms(2) by (auto simp: parse_def parse_expr_def res_simps split: if_splits)
  moreover have "pwp (parse_loop [] None) (loop_post [] None ?p) ?p" by (rule parse_loop_ok)
  ultimately show ?thesis by (auto simp: pwp_def loop_post_def opens_ok_def level_ok_def)
qed

interpretation classic: filter_pipeline lex parse codegen_compile expr_ok
proof
  fix src e assume "lex src = Inl e"
  then show "(\<exists>m. e = ParseError m) \<or> (\<exists>off c. e = LexError off c \<and> off < length src)"
    using lex_loop_error [of src 0 e] by (auto simp: lex_def)
next
  fix tree link e assume "codegen_compile tree link = Inl e"
  then show "\<exists>m. e = CodegenError m"
    using compile_raw_safe [of tree link] by (auto simp: codegen_compile_def safe_def rbind_eq_Inl)
qed (use parse_errors parse_tree_ok in blast)+

interpretation extended: filter_pipeline lex parse ebpf_compile expr_ok
proof
  fix tree link e assume "ebpf_compile tree link = Inl e"
  then show "\<exists>m. e = CodegenError m"
    using ebpf_compile_answers [of link tree] by (auto simp: answers_def ejump_overflow_def)
qed (use classic.scan_fails parse_errors parse_tree_ok in blast)+

section \<open>Properties\<close>

text \<open>
  C24: parsing always ends, with an expression or with a \<open>ParseError\<close>: the loops use a token in every
  turn, the recursion of offset expressions stays within its budget, and the token before a prefix
  length is there when its offset is read.
\<close>

theorem parse_total: "(\<exists>e. parse ts = Inr e) \<or> (\<exists>m. parse ts = Inl (ParseError m))"
  using parse_errors [of ts] by (cases "parse ts") auto

text \<open>
  C25: the primitives of a parsed filter are in order: no network has address bits outside its mask
  or prefix, prefixes are at most 128, and the offsets of byte accesses, on both sides of a
  comparison, are not negative.
\<close>

theorem parsed_primitives_ok:
  assumes "parse_filter src = Inr e" shows "list_all prim_ok (prims e)"
  using classic.parse_ok [of src e] assms by (simp add: parse_filter_def expr_ok_def)

lemmas lex_eval = lex_def lex_token_def lex_word_def lex_number_def lex_hex_def lex_colon_def two_char_op_def
  one_char_ops_def char_classes looks_like_ipv6_def looks_like_mac_def keyword_or_ident_def keyword_table_def
  parse_numlike_def parse_int_def to_digit_def u8_from_str_radix_def

lemmas parse_eval = parse_def parse_expr_def parse_loop.simps eat_nots.simps fold_levels.simps
  pbind_def preturn_def err_def cur_tok_def cur_def peek_tok_def advance_def eat_def expect_def skip_def
  parse_primitive_def parse_u32_def parse_logical_op_def looks_like_primitive_start_def primitive_starts_def
  as_num_def as_ipv4_def as_ipv6_def as_mac_def join_level_def plain_prims_def
  parse_ip_prim_def or_access_def parse_byte_access_def parse_brackets_def parse_offset_expr_def
  ladder_defs op_level_def remaining_def parse_access_size_def arith_ops_def parse_cmpop_def cmp_ops_def
  parse_cmp_rhs_def rhs_layers_def parse_dir_def parse_after_dir_def parse_host_def parse_ip_def
  parse_net_def parse_net4_def opt_num_def

lemma net_10_1: "parse_filter ''net 10.1'' = Inr (Primitive (Net \<lparr>net_addr = 0x0a010000, net_mask = 0xffff0000\<rparr> SrcOrDst))"
  by (simp add: parse_filter_def lex_eval) (simp add: parse_eval be32_def octets_mask_def mask_eq_exp_minus_1)

theorem parsed_primitives_ok_witness:
  "list_all prim_ok (prims (Primitive (Net \<lparr>net_addr = 0x0a010000, net_mask = 0xffff0000\<rparr> SrcOrDst)))"
  by (rule parsed_primitives_ok [OF net_10_1])

text \<open>
  C12: an expression written as tokens is parsed back, with its negations, its left-to-right chains of
  \<open>and\<close> and \<open>or\<close>, its parentheses (9995 levels of them at most) and every kind of primitive.
\<close>

theorem parse_written_tokens:
  assumes "map spanned_token ts = expr_tokens False e" "writable e" "paren_depth False e \<le> MAX_PAREN_DEPTH"
  shows "parse ts = Inr e"
  using assms by (rule parse_written)

theorem parse_written_tokens_witness:
  "parse [\<lparr>spanned_token = TNot, spanned_offset = 0\<rparr>, \<lparr>spanned_token = TArp, spanned_offset = 4\<rparr>] =
     Inr (expr.Not (Primitive (Proto Arp)))"
  by (rule parse_written_tokens) (simp_all add: MAX_PAREN_DEPTH_def)

lemma parens_too_deep:
  assumes "toks p = replicate k TLParen @ us" "length opens \<le> MAX_PAREN_DEPTH" "MAX_PAREN_DEPTH < length opens + k"
  shows "parse_loop opens None p = Inl too_deep"
  using assms
proof (induction k arbitrary: opens p)
  case (Suc k)
  have cur: "cur p = Some TLParen" using Suc.prems(1) by (simp add: cur_toks)
  show ?case
  proof (cases "length opens < MAX_PAREN_DEPTH")
    case True
    have "toks (jump 1 p) = replicate k TLParen @ us" using Suc.prems(1) by (simp add: toks_jump)
    from Suc.IH [OF this] True Suc.prems(3) show ?thesis
      by (simp add: parse_loop_after_nots [of opens] after_nots_paren [OF cur])
  next
    case False
    then show ?thesis
      using Suc.prems(2) cur by (simp add: parse_loop_after_nots after_nots_def eat_nots.simps [of 0 p])
  qed
qed simp

text \<open>One parenthesis more than 9995 in a row is refused, whatever comes after them.\<close>

lemma parse_nested_too_deep:
  assumes "map spanned_token ts = replicate k TLParen @ us" "MAX_PAREN_DEPTH < k"
  shows "parse ts = Inl too_deep"
proof -
  have "toks \<lparr>p_tokens = ts, p_pos = 0, p_depth = 0\<rparr> = replicate k TLParen @ us" using assms(1) by (simp add: toks_def)
  from parens_too_deep [OF this, of "[]"] assms(2) show ?thesis by (simp add: parse_def parse_expr_def)
qed

text \<open>
  Every expression tree that satisfies what parsed trees satisfy, with no port test of a protocol
  without ports and no bare \<open>&\<close> comparison of bytes, is the meaning of some filter text.
\<close>

lemma every_tree_has_text:
  assumes "writable e" "paren_depth False e \<le> MAX_PAREN_DEPTH" shows "\<exists>src. parse_filter src = Inr e"
proof -
  obtain src sp where "lex src = Inr sp" "parse sp = Inr e" using tree_has_text [OF assms] by blast
  then have "parse_filter src = Inr e" by (simp add: parse_filter_def)
  then show ?thesis ..
qed






text \<open>
  The bytes of a program of either target are eight per instruction, and reading them back as the kernel's
  records gives the instructions in order.
\<close>

lemma lib_bytes_roundtrip:
  "length (lib_to_le_bytes p) = 8 * lib_len p \<and>
   (case p of
      ClassicProgram q \<Rightarrow> parse_run insn_of_le_bytes 8 (lib_to_le_bytes p) = Some (instructions q)
    | ExtendedProgram q \<Rightarrow> parse_run einsn_of_le_bytes 8 (lib_to_le_bytes p) = Some (einstructions q))"
  using cbpf_wire.stream_length cbpf_wire.parse_stream ebpf_wire.stream_length ebpf_wire.parse_stream
  by (cases p) (simp_all add: program_to_le_bytes_eq program_len_def instructions_def eprogram_to_le_bytes_eq
      eprogram_len_def einstructions_def)

section \<open>Where the parser differs from what is documented\<close>




end
