(* ===== verification/Tap_File.thy ===== *)
theory Tap_File
  imports Frontend Tap_Base
begin

text \<open>
  \<^verbatim>\<open>pkttap/src/file.rs\<close>, \<^verbatim>\<open>dump.rs\<close>, \<^verbatim>\<open>codec.rs\<close> and the filter compilation of \<^verbatim>\<open>capture.rs\<close>: reading, filtering and writing
  capture files. The \<^verbatim>\<open>pcap-file\<close> crate that decodes and encodes the files is a parameter: a record of the functions
  the code calls, over the crate's own types.
\<close>

section \<open>The pcap-file crate\<close>

record pcap_packet =
  pp_timestamp :: duration
  pp_orig_len :: u32
  pp_data :: "u8 list"

datatype 'd block =
  InterfaceDescription 'd u32
| EnhancedPacket u32 duration u32 "u8 list"
| SimplePacket u32 "u8 list"
| PacketBlock u16 u64 u32 "u8 list"
| OtherBlock

text \<open>The link types the code names, the readers \<open>'r\<close> and \<open>'n\<close> of the two formats, and the errors \<open>'e\<close>.\<close>

record ('e, 'd, 'r, 'n) pcap_reader =
  dl_ethernet :: 'd
  dl_raw :: 'd
  dl_linux_sll :: 'd
  pcap_reader_new :: "u8 list \<Rightarrow> 'e + 'r"
  pcap_datalink :: "'r \<Rightarrow> 'd"
  pcap_next_packet :: "'r \<Rightarrow> ('e + pcap_packet) option \<times> 'r"
  pcapng_reader_new :: "u8 list \<Rightarrow> 'e + 'n"
  pcapng_next_block :: "'n \<Rightarrow> ('e + 'd block) option \<times> 'n"

section \<open>Link types\<close>

definition datalink_to_link_type :: "('e, 'd, 'r, 'n, 'z) pcap_reader_scheme \<Rightarrow> 'd \<Rightarrow> link_type" where
  "datalink_to_link_type C dl =
     (if dl = dl_ethernet C then Ethernet else if dl = dl_raw C then RawIp
      else if dl = dl_linux_sll C then LinuxSll else Ethernet)"

fun link_type_to_datalink :: "('e, 'd, 'r, 'n, 'z) pcap_reader_scheme \<Rightarrow> link_type \<Rightarrow> 'd" where
  "link_type_to_datalink C Ethernet = dl_ethernet C"
| "link_type_to_datalink C RawIp = dl_raw C"
| "link_type_to_datalink C LinuxSll = dl_linux_sll C"

section \<open>Filters\<close>

datatype filter_spec = FilterString string | FilterProgram program

definition tap_compile_filter :: "filter_spec option \<Rightarrow> link_type \<Rightarrow> 'e tap_error + program option" where
  "tap_compile_filter spec link =
     (case spec of
        None \<Rightarrow> Inr None
      | Some (FilterProgram p) \<Rightarrow> Inr (Some p)
      | Some (FilterString s) \<Rightarrow>
          (case compile_filter s link Classic of
             Inl e \<Rightarrow> Inl (Filter e)
           | Inr (ClassicProgram p) \<Rightarrow> Inr (Some p)
           | Inr (ExtendedProgram p) \<Rightarrow> Inl (Platform ''unexpected eBPF program for live capture'')))"

section \<open>Reading\<close>

record pkt_meta =
  pm_len :: nat
  pm_ts_sec :: u64
  pm_ts_nsec :: u32
  pm_orig_len :: u32
  pm_link_type :: link_type

datatype ('r, 'n) file_inner = PcapFile 'r | PcapNgFile 'n

record ('r, 'n) file_capture =
  fc_inner :: "('r, 'n) file_inner"
  fc_filter :: "program option"
  fc_link_type :: link_type
  fc_idb_link_types :: "link_type list"
  fc_scratch :: "u8 list"

text \<open>
  \<open>FileCapture::open\<close>. \<open>file\<close> is what opening the file gives, its contents or an error, and \<open>fill\<close> what the first \<open>fill_buf\<close>
  on it gives.
\<close>

definition file_open :: "('e, 'd, 'r, 'n, 'z) pcap_reader_scheme \<Rightarrow> io_error + u8 list \<Rightarrow> (u8 list \<Rightarrow> io_error + u8 list) \<Rightarrow>
    filter_spec option \<Rightarrow> 'e tap_error + ('r, 'n) file_capture" where
  "file_open C file fill spec =
     (case file of
        Inl e \<Rightarrow> Inl (from_io e)
      | Inr contents \<Rightarrow>
          (case fill contents of
             Inl e \<Rightarrow> Inl (Io e)
           | Inr buf \<Rightarrow>
               if length buf < 4 then Inl (Platform ''file too short'')
               else if take 4 buf = [0x0A, 0x0D, 0x0D, 0x0A]
               then
                 (case pcapng_reader_new C contents of
                    Inl e \<Rightarrow> Inl (Pcap e)
                  | Inr ng \<Rightarrow>
                      rbind (tap_compile_filter spec Ethernet) (\<lambda>compiled.
                        Inr \<lparr>fc_inner = PcapNgFile ng, fc_filter = compiled, fc_link_type = Ethernet,
                             fc_idb_link_types = [], fc_scratch = []\<rparr>))
               else
                 (case pcap_reader_new C contents of
                    Inl e \<Rightarrow> Inl (Pcap e)
                  | Inr pcap \<Rightarrow>
                      let lt = datalink_to_link_type C (pcap_datalink C pcap)
                      in rbind (tap_compile_filter spec lt) (\<lambda>compiled.
                        Inr \<lparr>fc_inner = PcapFile pcap, fc_filter = compiled, fc_link_type = lt,
                             fc_idb_link_types = [], fc_scratch = []\<rparr>))))"

text \<open>\<open>fill_scratch\<close>: the new buffer and its length.\<close>

definition fill_scratch :: "u8 list \<Rightarrow> u8 list \<Rightarrow> nat \<times> u8 list" where
  "fill_scratch buf s = (let buf = [] @ s in (length buf, buf))"

definition fetch_pcap :: "('e, 'd, 'r, 'n, 'z) pcap_reader_scheme \<Rightarrow> 'r \<Rightarrow> u8 list \<Rightarrow> link_type \<Rightarrow>
    ('e tap_error + pkt_meta option) \<times> 'r \<times> u8 list" where
  "fetch_pcap C r buf lt =
     (case pcap_next_packet C r of
        (None, r') \<Rightarrow> (Inr None, r', buf)
      | (Some (Inl e), r') \<Rightarrow> (Inl (Pcap e), r', buf)
      | (Some (Inr pkt), r') \<Rightarrow>
          (let ts = pp_timestamp pkt;
               (len, buf') = fill_scratch buf (pp_data pkt)
           in (Inr (Some \<lparr>pm_len = len, pm_ts_sec = dur_secs ts, pm_ts_nsec = dur_nanos ts,
                          pm_orig_len = pp_orig_len pkt, pm_link_type = lt\<rparr>), r', buf')))"

definition idb_get :: "link_type list \<Rightarrow> nat \<Rightarrow> link_type" where
  "idb_get idb i = (case get_at idb i of Some lt \<Rightarrow> lt | None \<Rightarrow> Ethernet)"

partial_function (option) fetch_pcapng :: "('e, 'd, 'r, 'n, 'z) pcap_reader_scheme \<Rightarrow> 'n \<Rightarrow> u8 list \<Rightarrow> link_type list \<Rightarrow>
    (('e tap_error + pkt_meta option) \<times> 'n \<times> u8 list \<times> link_type list) option" where
  "fetch_pcapng C r buf idb =
     (case pcapng_next_block C r of
        (None, r') \<Rightarrow> Some (Inr None, r', buf, idb)
      | (Some (Inl e), r') \<Rightarrow> Some (Inl (Pcap e), r', buf, idb)
      | (Some (Inr b), r') \<Rightarrow>
          (case b of
             InterfaceDescription dl snaplen \<Rightarrow> fetch_pcapng C r' buf (idb @ [datalink_to_link_type C dl])
           | EnhancedPacket i ts orig_len dat \<Rightarrow>
               Some (let lt = idb_get idb (unat i);
                         (len, buf') = fill_scratch buf dat
                     in (Inr (Some \<lparr>pm_len = len, pm_ts_sec = dur_secs ts, pm_ts_nsec = dur_nanos ts,
                                    pm_orig_len = orig_len, pm_link_type = lt\<rparr>), r', buf', idb))
           | SimplePacket orig_len dat \<Rightarrow>
               Some (let lt = idb_get idb 0;
                         (len, buf') = fill_scratch buf dat
                     in (Inr (Some \<lparr>pm_len = len, pm_ts_sec = 0, pm_ts_nsec = 0,
                                    pm_orig_len = orig_len, pm_link_type = lt\<rparr>), r', buf', idb))
           | PacketBlock i ts_usec orig_len dat \<Rightarrow>
               Some (let lt = idb_get idb (unat i);
                         (len, buf') = fill_scratch buf dat
                     in (Inr (Some \<lparr>pm_len = len, pm_ts_sec = ts_usec div 1000000,
                                    pm_ts_nsec = ucast ((ts_usec mod 1000000) * 1000),
                                    pm_orig_len = orig_len, pm_link_type = lt\<rparr>), r', buf', idb))
           | OtherBlock \<Rightarrow> fetch_pcapng C r' buf idb))"

text \<open>The \<open>match\<close> on the kind of file at the head of the loop.\<close>

definition file_fetch :: "('e, 'd, 'r, 'n, 'z) pcap_reader_scheme \<Rightarrow> ('r, 'n) file_capture \<Rightarrow>
    (('e tap_error + pkt_meta option) \<times> ('r, 'n) file_capture) option" where
  "file_fetch C fc =
     (case fc_inner fc of
        PcapFile r \<Rightarrow>
          (case fetch_pcap C r (fc_scratch fc) (fc_link_type fc) of
             (res, r', buf) \<Rightarrow> Some (res, fc\<lparr>fc_inner := PcapFile r', fc_scratch := buf\<rparr>))
      | PcapNgFile r \<Rightarrow>
          map_option (\<lambda>(res, r', buf, idb).
              (res, fc\<lparr>fc_inner := PcapNgFile r', fc_scratch := buf, fc_idb_link_types := idb\<rparr>))
            (fetch_pcapng C r (fc_scratch fc) (fc_idb_link_types fc)))"

partial_function (option) file_next_packet :: "('e, 'd, 'r, 'n, 'z) pcap_reader_scheme \<Rightarrow> ('r, 'n) file_capture \<Rightarrow>
    (('e tap_error + packet_ref option) \<times> ('r, 'n) file_capture) option" where
  "file_next_packet C fc =
     Option.bind (file_fetch C fc) (\<lambda>(res, fc').
       case res of
         Inl e \<Rightarrow> Some (Inl e, fc')
       | Inr None \<Rightarrow> Some (Inr None, fc')
       | Inr (Some meta) \<Rightarrow>
           if (case fc_filter fc' of
                 Some prog \<Rightarrow> \<not> program_matches prog (take (pm_len meta) (fc_scratch fc'))
               | None \<Rightarrow> False)
           then file_next_packet C fc'
           else Some (rbind (packet_ref_new (take (pm_len meta) (fc_scratch fc')) (pm_ts_sec meta) (pm_ts_nsec meta)
                        (pm_orig_len meta) (pm_link_type meta)) (\<lambda>p. Inr (Some p)), fc'))"

section \<open>Writing\<close>

text \<open>The writers of the crate, over files \<open>'f\<close>; a failed write leaves a writer too.\<close>

record ('e, 'd, 'f, 'w, 'v) pcap_writer =
  pcap_with_header :: "'f \<Rightarrow> 'd \<Rightarrow> 'e + 'w"
  pcap_write_packet :: "'w \<Rightarrow> pcap_packet \<Rightarrow> 'e option \<times> 'w"
  pcapng_writer_new :: "'f \<Rightarrow> 'e + 'v"
  pcapng_write_block :: "'v \<Rightarrow> 'd block \<Rightarrow> 'e option \<times> 'v"

datatype ('w, 'v) dump = PcapDump 'w | PcapNgDump 'v

record dump_builder =
  db_path :: string
  db_link_type :: "link_type option"

definition dump_to_file :: "string \<Rightarrow> dump_builder" where
  "dump_to_file path = \<lparr>db_path = path, db_link_type = None\<rparr>"

definition dump_link_type :: "link_type \<Rightarrow> dump_builder \<Rightarrow> dump_builder" where
  "dump_link_type lt b = b\<lparr>db_link_type := Some lt\<rparr>"

text \<open>
  \<open>Path::extension\<close> of the standard library on Unix: the part after the last dot of the last component, unless the dot
  begins the component.
\<close>

fun split_slash :: "string \<Rightarrow> string list" where
  "split_slash [] = [[]]"
| "split_slash (c # cs) =
     (if c = CHR ''/'' then [] # split_slash cs
      else case split_slash cs of [] \<Rightarrow> [[c]] | w # ws \<Rightarrow> (c # w) # ws)"

definition file_name :: "string \<Rightarrow> string option" where
  "file_name path =
     (let comps = filter (\<lambda>c. c \<noteq> [] \<and> c \<noteq> ''.'') (split_slash path)
      in if comps = [] \<or> last comps = ''..'' then None else Some (last comps))"

definition path_extension :: "string \<Rightarrow> string option" where
  "path_extension path =
     Option.bind (file_name path) (\<lambda>name.
       let after = takeWhile (\<lambda>c. c \<noteq> CHR ''.'') (rev name)
       in if length name \<le> length after + 1 then None else Some (rev after))"

definition ascii_lower :: "char \<Rightarrow> char" where
  "ascii_lower c = (if 65 \<le> (of_char c :: nat) \<and> (of_char c :: nat) \<le> 90 then char_of ((of_char c :: nat) + 32) else c)"

text \<open>
  \<open>DumpBuilder::open\<close>. \<open>create\<close> creates or empties a file, which changes the file system \<open>'s\<close>.
\<close>

definition dump_open :: "('e, 'd, 'r, 'n, 'z) pcap_reader_scheme \<Rightarrow> ('e, 'd, 'f, 'w, 'v, 'y) pcap_writer_scheme \<Rightarrow>
    (string \<Rightarrow> 's \<Rightarrow> (io_error + 'f) \<times> 's) \<Rightarrow> dump_builder \<Rightarrow> 's \<Rightarrow> ('e tap_error + ('w, 'v) dump) \<times> 's" where
  "dump_open C W create b fs =
     (case db_link_type b of
        None \<Rightarrow> (Inl (Platform (''Dump::open requires a link type '' @ [CHR 0xE2, CHR 0x80, CHR 0x94] @
                   '' call .link_type() on the builder'')), fs)
      | Some lt \<Rightarrow>
          (let ext = map ascii_lower (case path_extension (db_path b) of Some e \<Rightarrow> e | None \<Rightarrow> [])
           in case create (db_path b) fs of
                (Inl e, fs') \<Rightarrow> (Inl (from_io e), fs')
              | (Inr f, fs') \<Rightarrow>
                  (if ext = ''pcap'' then
                     (case pcap_with_header W f (link_type_to_datalink C lt) of
                        Inl e \<Rightarrow> Inl (Pcap e)
                      | Inr w \<Rightarrow> Inr (PcapDump w))
                   else if ext = ''pcapng'' then
                     (case pcapng_writer_new W f of
                        Inl e \<Rightarrow> Inl (Pcap e)
                      | Inr v \<Rightarrow>
                          (case pcapng_write_block W v (InterfaceDescription (link_type_to_datalink C lt) 65535) of
                             (Some e, v') \<Rightarrow> Inl (Pcap e)
                           | (None, v') \<Rightarrow> Inr (PcapNgDump v')))
                   else Inl (Platform (''unknown extension '' @ [CHR 0x27, CHR ''.''] @ ext @ [CHR 0x27] @
                          '': Dump requires .pcap or .pcapng'')), fs')))"

definition dump_write_packet :: "('e, 'd, 'f, 'w, 'v, 'y) pcap_writer_scheme \<Rightarrow> ('w, 'v) dump \<Rightarrow> packet_ref \<Rightarrow>
    'e tap_error option \<times> ('w, 'v) dump" where
  "dump_write_packet W d p =
     (let ts = (case duration_since_epoch (pr_timestamp p) of Some t \<Rightarrow> t | None \<Rightarrow> duration_default)
      in case d of
           PcapDump w \<Rightarrow>
             (case pcap_write_packet W w \<lparr>pp_timestamp = ts, pp_orig_len = pr_orig_len p, pp_data = pr_data p\<rparr> of
                (e, w') \<Rightarrow> (map_option Pcap e, PcapDump w'))
         | PcapNgDump v \<Rightarrow>
             (case pcapng_write_block W v (EnhancedPacket 0 ts (pr_orig_len p) (pr_data p)) of
                (e, v') \<Rightarrow> (map_option Pcap e, PcapNgDump v')))"

definition dump_flush :: "('w, 'v) dump \<Rightarrow> 'e tap_error option \<times> ('w, 'v) dump" where
  "dump_flush d = (None, d)"

text \<open>\<open>dump_packets\<close> of \<^verbatim>\<open>lib.rs\<close>.\<close>

fun dump_all :: "('e, 'd, 'f, 'w, 'v, 'y) pcap_writer_scheme \<Rightarrow> ('w, 'v) dump \<Rightarrow> owned_packet list \<Rightarrow>
    'e tap_error option \<times> ('w, 'v) dump" where
  "dump_all W d [] = (None, d)"
| "dump_all W d (p # ps) =
     (case dump_write_packet W d (packet_as_ref p) of
        (Some e, d') \<Rightarrow> (Some e, d')
      | (None, d') \<Rightarrow> dump_all W d' ps)"

definition dump_packets :: "('e, 'd, 'r, 'n, 'z) pcap_reader_scheme \<Rightarrow> ('e, 'd, 'f, 'w, 'v, 'y) pcap_writer_scheme \<Rightarrow>
    (string \<Rightarrow> 's \<Rightarrow> (io_error + 'f) \<times> 's) \<Rightarrow> string \<Rightarrow> owned_packet list \<Rightarrow> link_type \<Rightarrow> 's \<Rightarrow>
    ('e tap_error + ('w, 'v) dump) \<times> 's" where
  "dump_packets C W create path packets lt fs =
     (case dump_open C W create (dump_link_type lt (dump_to_file path)) fs of
        (Inl e, fs') \<Rightarrow> (Inl e, fs')
      | (Inr d, fs') \<Rightarrow>
          (case dump_all W d packets of
             (Some e, d') \<Rightarrow> (Inl e, fs')
           | (None, d') \<Rightarrow> (Inr d', fs')))"

end
