(* ===== verification/Tap_File_Correct.thy ===== *)
theory Tap_File_Correct
  imports Tap_File
begin

text \<open>
  A capture file as a packet source: the packets of the file, in the order of the file, that pass the filter. What the
  \<^verbatim>\<open>pcap-file\<close> crate delivers is described by a relation between a reader and the finite list of what it returns until
  it reports the end of the file.
\<close>

inductive delivers :: "('r \<Rightarrow> ('e + 'x) option \<times> 'r) \<Rightarrow> 'r \<Rightarrow> 'x list \<Rightarrow> bool" for nx where
  delivers_end: "nx r = (None, r') \<Longrightarrow> delivers nx r []"
| delivers_item: "nx r = (Some (Inr x), r') \<Longrightarrow> delivers nx r' xs \<Longrightarrow> delivers nx r (x # xs)"

inductive_simps delivers_Nil: "delivers nx r []"
inductive_simps delivers_Cons: "delivers nx r (x # xs)"

section \<open>The packets of a file\<close>

definition pcap_raw :: "link_type \<Rightarrow> pcap_packet \<Rightarrow> u8 list \<times> pkt_meta" where
  "pcap_raw lt p = (pp_data p, \<lparr>pm_len = length (pp_data p), pm_ts_sec = dur_secs (pp_timestamp p),
     pm_ts_nsec = dur_nanos (pp_timestamp p), pm_orig_len = pp_orig_len p, pm_link_type = lt\<rparr>)"

fun block_raws :: "('d \<Rightarrow> link_type) \<Rightarrow> link_type list \<Rightarrow> 'd block list \<Rightarrow> (u8 list \<times> pkt_meta) list" where
  "block_raws lt_of idb [] = []"
| "block_raws lt_of idb (InterfaceDescription dl snaplen # bs) = block_raws lt_of (idb @ [lt_of dl]) bs"
| "block_raws lt_of idb (EnhancedPacket i ts ol dat # bs) =
     (dat, \<lparr>pm_len = length dat, pm_ts_sec = dur_secs ts, pm_ts_nsec = dur_nanos ts, pm_orig_len = ol,
            pm_link_type = idb_get idb (unat i)\<rparr>) # block_raws lt_of idb bs"
| "block_raws lt_of idb (SimplePacket ol dat # bs) =
     (dat, \<lparr>pm_len = length dat, pm_ts_sec = 0, pm_ts_nsec = 0, pm_orig_len = ol,
            pm_link_type = idb_get idb 0\<rparr>) # block_raws lt_of idb bs"
| "block_raws lt_of idb (PacketBlock i us ol dat # bs) =
     (dat, \<lparr>pm_len = length dat, pm_ts_sec = us div 1000000, pm_ts_nsec = ucast ((us mod 1000000) * 1000), pm_orig_len = ol,
            pm_link_type = idb_get idb (unat i)\<rparr>) # block_raws lt_of idb bs"
| "block_raws lt_of idb (OtherBlock # bs) = block_raws lt_of idb bs"

definition file_raws :: "('e, 'd, 'r, 'n, 'z) pcap_reader_scheme \<Rightarrow> ('r, 'n) file_capture \<Rightarrow> (u8 list \<times> pkt_meta) list \<Rightarrow> bool" where
  "file_raws C fc raws \<longleftrightarrow>
     (case fc_inner fc of
        PcapFile r \<Rightarrow> \<exists>ps. delivers (pcap_next_packet C) r ps \<and> raws = map (pcap_raw (fc_link_type fc)) ps
      | PcapNgFile r \<Rightarrow> \<exists>bs. delivers (pcapng_next_block C) r bs \<and>
          raws = block_raws (datalink_to_link_type C) (fc_idb_link_types fc) bs)"

lemma fetch_pcapng_delivers:
  assumes "delivers (pcapng_next_block C) r bs"
  shows "case block_raws (datalink_to_link_type C) idb bs of
      [] \<Rightarrow> \<exists>r' idb'. fetch_pcapng C r buf idb = Some (Inr None, r', buf, idb')
    | (dat, meta) # raws \<Rightarrow> \<exists>r' idb' bs'. fetch_pcapng C r buf idb = Some (Inr (Some meta), r', dat, idb') \<and>
        delivers (pcapng_next_block C) r' bs' \<and> raws = block_raws (datalink_to_link_type C) idb' bs'"
  using assms
proof (induction arbitrary: idb)
  case (delivers_end r r')
  then show ?case by (simp add: fetch_pcapng.simps [of C r])
next
  case (delivers_item r x r' xs)
  show ?case
  proof (cases x)
    case (InterfaceDescription dl sl)
    then have "fetch_pcapng C r buf idb = fetch_pcapng C r' buf (idb @ [datalink_to_link_type C dl])"
      using delivers_item.hyps(1) by (simp add: fetch_pcapng.simps [of C r])
    then show ?thesis unfolding InterfaceDescription block_raws.simps using delivers_item.IH by (simp only:)
  next
    case OtherBlock
    then have "fetch_pcapng C r buf idb = fetch_pcapng C r' buf idb"
      using delivers_item.hyps(1) by (simp add: fetch_pcapng.simps [of C r])
    then show ?thesis unfolding OtherBlock block_raws.simps using delivers_item.IH by (simp only:)
  qed (use delivers_item in \<open>auto simp: fetch_pcapng.simps [of C r] fill_scratch_def\<close>)
qed

lemma file_fetch_raws:
  assumes "file_raws C fc raws"
  shows "case raws of
      [] \<Rightarrow> \<exists>fc'. file_fetch C fc = Some (Inr None, fc')
    | (dat, meta) # raws' \<Rightarrow> \<exists>fc'. file_fetch C fc = Some (Inr (Some meta), fc') \<and> file_raws C fc' raws' \<and>
        take (pm_len meta) (fc_scratch fc') = dat \<and> fc_filter fc' = fc_filter fc"
proof (cases "fc_inner fc")
  case (PcapFile r)
  then obtain ps where ps: "delivers (pcap_next_packet C) r ps" "raws = map (pcap_raw (fc_link_type fc)) ps"
    using assms by (auto simp: file_raws_def)
  then show ?thesis
    by (cases ps) (auto simp: delivers_Nil delivers_Cons file_fetch_def fetch_pcap_def PcapFile pcap_raw_def fill_scratch_def file_raws_def Let_def)
next
  case (PcapNgFile r)
  then obtain bs where bs: "delivers (pcapng_next_block C) r bs" "raws = block_raws (datalink_to_link_type C) (fc_idb_link_types fc) bs"
    using assms by (auto simp: file_raws_def)
  have l: "pm_len m = length d" if "(d, m) \<in> set (block_raws f idb bs)" for d m f idb
    using that by (induction f idb bs rule: block_raws.induct) auto
  note f = fetch_pcapng_delivers [OF bs(1), where idb = "fc_idb_link_types fc" and buf = "fc_scratch fc", folded bs(2)]
  show ?thesis
  proof (cases raws)
    case Nil
    then show ?thesis using f by (auto simp: file_fetch_def PcapNgFile)
  next
    case (Cons raw raws')
    obtain dat m where raw: "raw = (dat, m)" by (cases raw)
    obtain r' idb' bs' where n: "fetch_pcapng C r (fc_scratch fc) (fc_idb_link_types fc) = Some (Inr (Some m), r', dat, idb')"
      "delivers (pcapng_next_block C) r' bs'" "raws' = block_raws (datalink_to_link_type C) idb' bs'"
      using f Cons raw by auto
    moreover have "pm_len m = length dat" using l [of dat m] bs(2) Cons raw by (metis list.set_intros(1))
    ultimately show ?thesis using Cons raw by (auto simp: file_fetch_def PcapNgFile file_raws_def)
  qed
qed

section \<open>A file is a source of its matching packets\<close>

definition passes :: "program option \<Rightarrow> u8 list \<Rightarrow> bool" where
  "passes f dat \<longleftrightarrow> (case f of None \<Rightarrow> True | Some prog \<Rightarrow> program_matches prog dat)"

definition raw_packet :: "u8 list \<times> pkt_meta \<Rightarrow> 'e tap_error + packet_ref" where
  "raw_packet = (\<lambda>(dat, m). packet_ref_new dat (pm_ts_sec m) (pm_ts_nsec m) (pm_orig_len m) (pm_link_type m))"

definition file_holds :: "('e, 'd, 'r, 'n, 'z) pcap_reader_scheme \<Rightarrow> ('r, 'n) file_capture \<Rightarrow> packet_ref list \<Rightarrow> bool" where
  "file_holds C fc ps \<longleftrightarrow>
     (\<exists>raws. file_raws C fc raws \<and>
        map raw_packet (filter (\<lambda>(dat, m). passes (fc_filter fc) dat) raws) = (map Inr ps :: ('e tap_error + packet_ref) list))"

lemma file_next_raws:
  assumes "file_raws C fc raws"
    and "map raw_packet (filter (\<lambda>(dat, m). passes (fc_filter fc) dat) raws) = (map Inr ps :: ('e tap_error + packet_ref) list)"
  shows "case ps of
      [] \<Rightarrow> \<exists>fc'. file_next_packet C fc = Some (Inr None :: 'e tap_error + packet_ref option, fc')
    | p # ps' \<Rightarrow> \<exists>fc'. file_next_packet C fc = Some (Inr (Some p) :: 'e tap_error + packet_ref option, fc') \<and> file_holds C fc' ps'"
  using assms
proof (induction raws arbitrary: fc)
  case Nil
  then show ?case using file_fetch_raws [OF Nil.prems(1)] by (auto simp: file_next_packet.simps [of C fc])
next
  case (Cons raw raws)
  obtain dat m where raw: "raw = (dat, m)" by (cases raw)
  obtain fc' where f: "file_fetch C fc = Some (Inr (Some m), fc')" "file_raws C fc' raws"
    "take (pm_len m) (fc_scratch fc') = dat" "fc_filter fc' = fc_filter fc"
    using file_fetch_raws [OF Cons.prems(1)] raw by auto
  show ?case
  proof (cases "passes (fc_filter fc) dat")
    case True
    then obtain p ps' where p: "ps = p # ps'" "raw_packet (dat, m) = (Inr p :: 'e tap_error + packet_ref)"
      "map raw_packet (filter (\<lambda>(dat, m). passes (fc_filter fc) dat) raws) = (map Inr ps' :: ('e tap_error + packet_ref) list)"
      using Cons.prems(2) raw by (cases ps) auto
    then have "file_holds C fc' ps'" using f by (auto simp: file_holds_def)
    then show ?thesis using p(1,2) f True
      by (auto simp: file_next_packet.simps [of C fc] passes_def raw_packet_def split: option.splits)
  next
    case False
    then have e: "file_next_packet C fc = file_next_packet C fc'"
      using f by (auto simp: file_next_packet.simps [of C fc] passes_def split: option.splits)
    show ?thesis unfolding e using Cons.IH [OF f(2)] Cons.prems(2) False raw f(4) by simp
  qed
qed

interpretation file_source: packet_source "file_next_packet C" "file_holds C" for C
proof (unfold_locales, goal_cases)
  case (1 s)
  then show ?case using file_next_raws [of C s _ "[]"] by (auto simp: file_holds_def)
next
  case (2 s p ps)
  then show ?case using file_next_raws [of C s _ "p # ps"] by (auto simp: file_holds_def)
qed

end
