(* ===== verification/Tap_File_Theorems.thy ===== *)
theory Tap_File_Theorems
  imports Tap_File_Correct
begin

text \<open>The properties of capture files, across the filter compiler and the reader and from the writer to the reader.\<close>

section \<open>Filters on files\<close>

lemma file_open_filter:
  assumes "file_open C file fill spec = (Inr fc :: 'e tap_error + ('r, 'n) file_capture)"
  shows "tap_compile_filter spec (fc_link_type fc) = (Inr (fc_filter fc) :: 'e tap_error + program option)"
  using assms by (auto simp: file_open_def rbind_eq_Inr Let_def split: sum.splits if_splits)

lemma compiled_filter:
  assumes "tap_compile_filter (Some (FilterString s)) lt = (Inr f :: 'e tap_error + program option)" "parse_filter s = Inr e"
    and "supported e" "compile_raw e lt = Inr raw" "length raw < 2 ^ 32" "need lt 0 e \<le> length dat"
  shows "passes f dat = sem lt 0 e dat"
proof -
  have "f = Some (program_new (optimize raw))"
    using assms(1,2,4) by (auto simp: tap_compile_filter_def compile_filter_def parse_filter_def codegen_compile_def rbind_eq_Inr split: sum.splits)
  then show ?thesis
    using compiled_inner [OF assms(3-5), of dat] assms(6)
    by (auto simp: passes_def program_matches_def vm_run_def split: option.splits)
qed

section \<open>Dumps\<close>

definition dump_block :: "owned_packet \<Rightarrow> 'd block" where
  "dump_block p = EnhancedPacket 0 \<lparr>dur_secs = word_of_int (st_secs (pk_timestamp p)), dur_nanos = st_nanos (pk_timestamp p)\<rparr>
     (pk_orig_len p) (pk_data p)"

definition storable :: "link_type \<Rightarrow> owned_packet \<Rightarrow> bool" where
  "storable lt p \<longleftrightarrow> pk_link_type p = lt \<and> 0 \<le> st_secs (pk_timestamp p) \<and> st_secs (pk_timestamp p) < 2 ^ 63 \<and>
     unat (st_nanos (pk_timestamp p)) < NANOS_PER_SEC"

lemma dump_all_blocks:
  assumes "\<And>v b v'. pcapng_write_block W v b = (None, v') \<Longrightarrow> written v' = written v @ [b]"
    and "dump_all W (PcapNgDump v) pkts = (None, d)" "list_all (storable lt) pkts"
  shows "\<exists>v'. d = PcapNgDump v' \<and> written v' = written v @ map dump_block pkts"
  using assms(2,3)
proof (induction pkts arbitrary: v)
  case (Cons p pkts)
  obtain v1 where v1: "pcapng_write_block W v (dump_block p) = (None, v1)" "dump_all W (PcapNgDump v1) pkts = (None, d)"
    using Cons.prems by (auto simp: dump_write_packet_def packet_as_ref_def duration_since_epoch_def dump_block_def storable_def
        split: prod.splits option.splits)
  then show ?case using Cons.IH [OF v1(2)] Cons.prems(2) assms(1) [OF v1(1)] by auto
qed auto

lemma dump_all_pcap: "dump_all W (PcapDump w) pkts = (x, d) \<Longrightarrow> \<exists>w'. d = PcapDump w'"
  by (induction pkts arbitrary: w) (auto simp: dump_write_packet_def split: prod.splits option.splits)

lemma dump_open_pcapng:
  assumes "dump_open C W create (dump_link_type lt (dump_to_file path)) fs = (Inr (PcapNgDump v) :: 'e tap_error + ('w, 'v) dump, fs')"
  shows "\<exists>f v0. pcapng_writer_new W f = Inr v0 \<and>
    pcapng_write_block W v0 (InterfaceDescription (link_type_to_datalink C lt) 65535) = (None, v)"
  using assms by (auto simp: dump_open_def dump_link_type_def dump_to_file_def Let_def split: prod.splits sum.splits option.splits if_splits)

lemma dump_packets_pcapng:
  assumes "dump_packets C W create path pkts lt fs = (Inr (PcapNgDump v) :: 'e tap_error + ('w, 'v) dump, fs')"
  shows "\<exists>f v0 v1. pcapng_writer_new W f = Inr v0 \<and>
    pcapng_write_block W v0 (InterfaceDescription (link_type_to_datalink C lt) 65535) = (None, v1) \<and>
    dump_all W (PcapNgDump v1) pkts = (None, PcapNgDump v)"
proof -
  obtain d fs1 where d: "dump_open C W create (dump_link_type lt (dump_to_file path)) fs = (Inr d :: 'e tap_error + ('w, 'v) dump, fs1)"
    "dump_all W d pkts = (None, PcapNgDump v)"
    using assms by (auto simp: dump_packets_def split: prod.splits sum.splits option.splits)
  then show ?thesis
    using dump_open_pcapng [of C W create lt path fs] dump_all_pcap [of W _ pkts] by (cases d) blast+
qed

lemma storable_raw:
  assumes "storable lt p"
  shows "raw_packet (pk_data p, \<lparr>pm_len = n, pm_ts_sec = word_of_int (st_secs (pk_timestamp p)),
      pm_ts_nsec = st_nanos (pk_timestamp p), pm_orig_len = pk_orig_len p, pm_link_type = lt\<rparr>) = Inr (packet_as_ref p)"
proof -
  have u: "uint (word_of_int (st_secs (pk_timestamp p)) :: u64) = st_secs (pk_timestamp p)"
    using assms by (simp add: storable_def uint_word_of_int)
  then have "unat (word_of_int (st_secs (pk_timestamp p)) :: u64) = nat (st_secs (pk_timestamp p))" by (metis nat_uint_eq)
  then have "unat (word_of_int (st_secs (pk_timestamp p)) :: u64) < 2 ^ 63" using assms by (simp add: storable_def nat_less_iff)
  then show ?thesis
    using assms u by (simp add: raw_packet_def packet_ref_new_def duration_new_def epoch_plus_def storable_def packet_as_ref_def)
qed

lemma datalink_roundtrip:
  "distinct [dl_ethernet C, dl_raw C, dl_linux_sll C] \<Longrightarrow> datalink_to_link_type C (link_type_to_datalink C lt) = lt"
  by (cases lt) (auto simp: datalink_to_link_type_def)

lemma block_raws_dump:
  assumes "list_all (storable lt) pkts"
  shows "map raw_packet (block_raws f [lt] (map dump_block pkts)) = map (Inr o packet_as_ref) pkts"
  using assms
proof (induction pkts)
  case (Cons p pkts)
  then show ?case by (simp add: dump_block_def storable_raw idb_get_def)
qed simp

section \<open>A small file\<close>

text \<open>The crate on lists: a file holds an ICMP and a TCP packet, a reader is the list of what is left.\<close>

definition icmp_packet :: pcap_packet where
  "icmp_packet = \<lparr>pp_timestamp = \<lparr>dur_secs = 7, dur_nanos = 9\<rparr>, pp_orig_len = 80, pp_data = frame [(12, 8), (14, 0x45), (23, 1)] 80\<rparr>"

definition tcp_packet :: pcap_packet where
  "tcp_packet = \<lparr>pp_timestamp = \<lparr>dur_secs = 8, dur_nanos = 0\<rparr>, pp_orig_len = 80, pp_data = frame [(12, 8), (14, 0x45), (23, 6)] 80\<rparr>"

fun next_item :: "'x list \<Rightarrow> (nat + 'x) option \<times> 'x list" where
  "next_item [] = (None, [])"
| "next_item (x # xs) = (Some (Inr x), xs)"

definition list_crate :: "(nat, nat, pcap_packet list, nat block list) pcap_reader" where
  "list_crate = \<lparr>dl_ethernet = 1, dl_raw = 101, dl_linux_sll = 113, pcap_reader_new = (\<lambda>_. Inr [tcp_packet, icmp_packet]),
     pcap_datalink = (\<lambda>_. 1), pcap_next_packet = next_item, pcapng_reader_new = (\<lambda>_. Inl 0), pcapng_next_block = next_item\<rparr>"

definition list_writer :: "(nat, nat, unit, unit, nat block list) pcap_writer" where
  "list_writer = \<lparr>pcap_with_header = (\<lambda>_ _. Inr ()), pcap_write_packet = (\<lambda>_ _. (None, ())),
     pcapng_writer_new = (\<lambda>_. Inr []), pcapng_write_block = (\<lambda>v b. (None, v @ [b]))\<rparr>"

lemma delivers_list: "delivers next_item xs xs"
  by (induction xs) (auto intro: delivers.intros)

lemma icmp_text: "parse_filter ''icmp'' = Inr (Primitive (Proto Icmp))"
  by code_simp

lemma icmp_raw: "case compile_raw (Primitive (Proto Icmp)) Ethernet of Inr raw \<Rightarrow> length raw \<le> 100 | Inl _ \<Rightarrow> False"
  by code_simp

definition icmp_ref :: packet_ref where
  "icmp_ref = \<lparr>pr_data = pp_data icmp_packet, pr_timestamp = \<lparr>st_secs = 7, st_nanos = 9\<rparr>, pr_orig_len = 80, pr_link_type = Ethernet\<rparr>"

lemma small_file:
  "\<exists>fc. file_open list_crate (Inr [0xd4, 0xc3, 0xb2, 0xa1]) Inr (Some (FilterString ''icmp'')) = Inr fc \<and>
     fc_link_type fc = Ethernet \<and> fc_inner fc = PcapFile [tcp_packet, icmp_packet]"
  using icmp_raw icmp_text
  by (auto simp: file_open_def list_crate_def datalink_to_link_type_def tap_compile_filter_def compile_filter_def parse_filter_def
      codegen_compile_def rbind_eq_Inr split: sum.splits)

lemma icmp_verdicts:
  "sem Ethernet 0 (Primitive (Proto Icmp)) (pp_data icmp_packet)" "\<not> sem Ethernet 0 (Primitive (Proto Icmp)) (pp_data tcp_packet)"
  "need Ethernet 0 (Primitive (Proto Icmp)) \<le> 80" "length (pp_data icmp_packet) = 80" "length (pp_data tcp_packet) = 80"
  by code_simp+

section \<open>Properties\<close>



text \<open>
  C21: packets written with \<open>dump_packets\<close> to a pcapng file are read back unchanged and in order, with their bytes, timestamps,
  original lengths and link type, given that the crate's reader delivers the blocks its writer was given.
\<close>

theorem dump_capture_roundtrip:
  assumes "dump_packets C W create path pkts lt fs = (Inr (PcapNgDump v) :: 'e tap_error + ('w, 'v) dump, fs')"
    and "\<And>f v. pcapng_writer_new W f = Inr v \<Longrightarrow> written v = []"
    and "\<And>v b v'. pcapng_write_block W v b = (None, v') \<Longrightarrow> written v' = written v @ [b]"
    and "delivers (pcapng_next_block C) r (written v)" "distinct [dl_ethernet C, dl_raw C, dl_linux_sll C]"
    and "list_all (storable lt) pkts"
    and "fc = \<lparr>fc_inner = PcapNgFile r, fc_filter = None, fc_link_type = Ethernet, fc_idb_link_types = [], fc_scratch = []\<rparr>"
  shows "\<exists>fc'. drain (file_next_packet C) fc = Some (Inr (map packet_as_ref pkts) :: 'e tap_error + packet_ref list, fc')"
proof (rule file_source.drain_all)
  obtain v0 where v0: "written v0 = [InterfaceDescription (link_type_to_datalink C lt) 65535]"
    "dump_all W (PcapNgDump v0) pkts = (None, PcapNgDump v)"
    using dump_packets_pcapng [OF assms(1)] assms(2,3) by (metis append_Nil)
  then have w: "written v = InterfaceDescription (link_type_to_datalink C lt) 65535 # map dump_block pkts"
    using dump_all_blocks [of W written, OF assms(3) v0(2) assms(6)] by auto
  have "file_raws C fc (block_raws (datalink_to_link_type C) [lt] (map dump_block pkts))"
    using assms(4,7) by (auto simp: file_raws_def w datalink_roundtrip [OF assms(5)] intro!: exI [of _ "written v"])
  then show "file_holds C fc (map packet_as_ref pkts)"
    using block_raws_dump [OF assms(6), of "datalink_to_link_type C"] assms(7) by (auto simp: file_holds_def passes_def)
qed

definition ping :: owned_packet where
  "ping = \<lparr>pk_data = [1, 2, 3], pk_timestamp = \<lparr>st_secs = 5, st_nanos = 6\<rparr>, pk_orig_len = 60, pk_link_type = RawIp\<rparr>"

theorem dump_capture_roundtrip_witness:
  "\<exists>v fc'. dump_packets list_crate list_writer (\<lambda>_ fs. (Inr (), fs)) ''x.pcapng'' [ping] RawIp () = (Inr (PcapNgDump v), ()) \<and>
     drain (file_next_packet list_crate) \<lparr>fc_inner = PcapNgFile v, fc_filter = None, fc_link_type = Ethernet,
       fc_idb_link_types = [], fc_scratch = []\<rparr> = Some (Inr [packet_as_ref ping], fc')"
proof -
  obtain v where v: "dump_packets list_crate list_writer (\<lambda>_ fs. (Inr (), fs)) ''x.pcapng'' [ping] RawIp () = (Inr (PcapNgDump v), ())"
    by (auto simp: dump_packets_def dump_open_def dump_link_type_def dump_to_file_def list_writer_def path_extension_def file_name_def
        ascii_lower_def dump_write_packet_def Let_def)
  moreover have "\<exists>fc'. drain (file_next_packet list_crate) \<lparr>fc_inner = PcapNgFile v, fc_filter = None, fc_link_type = Ethernet,
       fc_idb_link_types = [], fc_scratch = []\<rparr> = Some (Inr (map packet_as_ref [ping]), fc')"
    by (rule dump_capture_roundtrip [OF v, of id v])
      (auto simp: list_writer_def list_crate_def delivers_list storable_def ping_def NANOS_PER_SEC_def)
  ultimately show ?thesis by auto
qed

section \<open>Two facts about the code\<close>

text \<open>
  A file is created, or emptied, before its extension is looked at: when the extension is refused the file system is already
  changed.
\<close>

lemma refused_dump_creates:
  assumes "create path fs = (Inr f, fs')" "path_extension path = Some ''txt''"
  shows "dump_open C W create (dump_link_type lt (dump_to_file path)) fs =
    (Inl (Platform (''unknown extension '' @ [CHR 0x27, CHR ''.''] @ ''txt'' @ [CHR 0x27] @ '': Dump requires .pcap or .pcapng'')), fs')"
  using assms by (simp add: dump_open_def dump_link_type_def dump_to_file_def ascii_lower_def)

text \<open>The filter of a pcapng file is compiled for Ethernet, whatever the interfaces of the file are.\<close>

lemma pcapng_filter_is_ethernet:
  assumes "file_open C file fill spec = (Inr fc :: 'e tap_error + ('r, 'n) file_capture)" "fc_inner fc = PcapNgFile r"
  shows "tap_compile_filter spec Ethernet = (Inr (fc_filter fc) :: 'e tap_error + program option)" "fc_link_type fc = Ethernet"
  using assms by (auto simp: file_open_def rbind_eq_Inr Let_def split: sum.splits if_splits)

end
