(* ===== verification/Tap_Sys.thy ===== *)
theory Tap_Sys
  imports Tap_Base
begin

text \<open>
  Code that opens sockets and devices, as functions on the list of system calls made so far. What the
  system answers to a call may depend on every call before it: a kernel is a function of this
  list. \<open>?\<close> is \<open>sys_bind\<close>, and what the drop of a local owner does on an early return is \<open>sys_guard\<close>.
  The theory also holds what the Unix back ends have in common (\<^verbatim>\<open>live/mod.rs\<close>) and the retry loop on \<open>EINTR\<close>.
\<close>

type_synonym ('c, 'a) kernel = "'c list \<Rightarrow> 'c \<Rightarrow> io_error + 'a"
type_synonym ('c, 'p, 'x) sys = "'c list \<Rightarrow> ('p tap_error + 'x) \<times> 'c list"

definition sys_return :: "'x \<Rightarrow> ('c, 'p, 'x) sys" where
  "sys_return x h = (Inr x, h)"

definition sys_fail :: "'p tap_error \<Rightarrow> ('c, 'p, 'x) sys" where
  "sys_fail e h = (Inl e, h)"

definition sys_lift :: "'p tap_error + 'x \<Rightarrow> ('c, 'p, 'x) sys" where
  "sys_lift r h = (r, h)"

definition sys_bind :: "('c, 'p, 'x) sys \<Rightarrow> ('x \<Rightarrow> ('c, 'p, 'y) sys) \<Rightarrow> ('c, 'p, 'y) sys" where
  "sys_bind m f h = (case m h of (Inl e, h') \<Rightarrow> (Inl e, h') | (Inr x, h') \<Rightarrow> f x h')"

text \<open>A call whose failure is returned by \<open>return Err(super::io_err())\<close>, and one whose answer is looked at by the caller.\<close>

definition sys_call :: "('c, 'a) kernel \<Rightarrow> 'c \<Rightarrow> ('c, 'p, 'a) sys" where
  "sys_call kern c h = (case kern h c of Inl e \<Rightarrow> Inl (from_io e) | Inr a \<Rightarrow> Inr a, h @ [c])"

definition sys_try :: "('c, 'a) kernel \<Rightarrow> 'c \<Rightarrow> ('c, 'p, io_error + 'a) sys" where
  "sys_try kern c h = (Inr (kern h c), h @ [c])"

definition sys_when :: "bool \<Rightarrow> ('c, 'p, unit) sys \<Rightarrow> ('c, 'p, unit) sys" where
  "sys_when b m = (if b then m else sys_return ())"

definition sys_guard :: "'c list \<Rightarrow> ('c, 'p, 'x) sys \<Rightarrow> ('c, 'p, 'x) sys" where
  "sys_guard cs m h = (case m h of (Inl e, h') \<Rightarrow> (Inl e, h' @ cs) | (Inr x, h') \<Rightarrow> (Inr x, h'))"

text \<open>\<open>unwrap_or\<close> on the result.\<close>

definition sys_or_default :: "('c, 'p, 'x) sys \<Rightarrow> 'x \<Rightarrow> ('c, 'p, 'x) sys" where
  "sys_or_default m d h = (case m h of (Inl e, h') \<Rightarrow> (Inr d, h') | (Inr x, h') \<Rightarrow> (Inr x, h'))"

lemmas sys_defs = sys_return_def sys_fail_def sys_lift_def sys_bind_def sys_call_def sys_try_def sys_guard_def

section \<open>What a run adds to the calls\<close>

text \<open>
  \<open>sys_runs m h calls res\<close>: after the calls \<open>h\<close>, \<open>m\<close> makes the calls \<open>calls\<close> and returns \<open>res\<close>. The rules compose it along
  the structure of the code.
\<close>

definition sys_runs :: "('c, 'p, 'x) sys \<Rightarrow> 'c list \<Rightarrow> 'c list \<Rightarrow> 'p tap_error + 'x \<Rightarrow> bool" where
  "sys_runs m h calls res \<longleftrightarrow> m h = (res, h @ calls)"

lemma runs_return: "sys_runs (sys_return x) h calls res \<longleftrightarrow> calls = [] \<and> res = Inr x"
  by (auto simp: sys_runs_def sys_defs)

lemma runs_fail: "sys_runs (sys_fail e) h calls res \<longleftrightarrow> calls = [] \<and> res = Inl e"
  by (auto simp: sys_runs_def sys_defs)

lemma runs_lift: "sys_runs (sys_lift r) h calls res \<longleftrightarrow> calls = [] \<and> res = r"
  by (auto simp: sys_runs_def sys_defs)

lemma runs_call:
  "sys_runs (sys_call kern c) h calls res \<longleftrightarrow>
     calls = [c] \<and> res = (case kern h c of Inl e \<Rightarrow> Inl (from_io e) | Inr a \<Rightarrow> Inr a)"
  by (auto simp: sys_runs_def sys_defs)

lemma runs_try: "sys_runs (sys_try kern c) h calls res \<longleftrightarrow> calls = [c] \<and> res = Inr (kern h c)"
  by (auto simp: sys_runs_def sys_defs)

definition sys_extends :: "('c, 'p, 'x) sys \<Rightarrow> bool" where
  "sys_extends m \<longleftrightarrow> (\<forall>h. \<exists>calls res. sys_runs m h calls res)"

lemma runs_bind:
  assumes "sys_extends m" and "\<And>x. sys_extends (f x)"
  shows "sys_runs (sys_bind m f) h calls res \<longleftrightarrow>
     (\<exists>e. sys_runs m h calls (Inl e) \<and> res = Inl e) \<or>
     (\<exists>x c1 c2. sys_runs m h c1 (Inr x) \<and> sys_runs (f x) (h @ c1) c2 res \<and> calls = c1 @ c2)"
proof -
  obtain c1 r1 where 1: "m h = (r1, h @ c1)" using assms(1) unfolding sys_extends_def sys_runs_def by blast
  show ?thesis
  proof (cases r1)
    case (Inl e)
    then show ?thesis using 1 by (auto simp: sys_runs_def sys_bind_def)
  next
    case (Inr x)
    obtain c2 r2 where "f x (h @ c1) = (r2, (h @ c1) @ c2)" using assms(2) [of x]
      unfolding sys_extends_def sys_runs_def by blast
    then show ?thesis using 1 Inr by (auto simp: sys_runs_def sys_bind_def)
  qed
qed

lemma runs_guard:
  assumes "sys_extends m"
  shows "sys_runs (sys_guard cs m) h calls res \<longleftrightarrow>
     (\<exists>e c1. sys_runs m h c1 (Inl e) \<and> res = Inl e \<and> calls = c1 @ cs) \<or> (\<exists>x. sys_runs m h calls (Inr x) \<and> res = Inr x)"
proof -
  obtain c1 r1 where "m h = (r1, h @ c1)" using assms(1) unfolding sys_extends_def sys_runs_def by blast
  then show ?thesis by (cases r1) (auto simp: sys_runs_def sys_guard_def)
qed

lemma extends_bind [intro]: "sys_extends m \<Longrightarrow> (\<And>x. sys_extends (f x)) \<Longrightarrow> sys_extends (sys_bind m f)"
  unfolding sys_extends_def
  by (metis (no_types, opaque_lifting) runs_bind sys_extends_def sumE)

lemma extends_guard [intro]: "sys_extends m \<Longrightarrow> sys_extends (sys_guard cs m)"
  unfolding sys_extends_def by (metis (no_types, opaque_lifting) runs_guard sys_extends_def sumE)

lemma extends_basic [intro, simp]:
  "sys_extends (sys_return x)" "sys_extends (sys_fail e)" "sys_extends (sys_lift r)"
  "sys_extends (sys_call kern c)" "sys_extends (sys_try kern c)"
  by (auto simp: sys_extends_def runs_return runs_fail runs_lift runs_call runs_try)

lemma extends_when [intro]: "sys_extends m \<Longrightarrow> sys_extends (sys_when b m)"
  by (simp add: sys_when_def)

lemma runs_when:
  "sys_runs (sys_when b m) h calls res \<longleftrightarrow> (if b then sys_runs m h calls res else calls = [] \<and> res = Inr ())"
  by (simp add: sys_when_def runs_return)

lemma runs_or_default:
  assumes "sys_extends m"
  shows "sys_runs (sys_or_default m d) h calls res \<longleftrightarrow>
    (\<exists>r. sys_runs m h calls r \<and> res = Inr (case r of Inl e \<Rightarrow> d | Inr x \<Rightarrow> x))"
proof -
  obtain c1 r1 where "m h = (r1, h @ c1)" using assms(1) unfolding sys_extends_def sys_runs_def by blast
  then show ?thesis by (cases r1) (auto simp: sys_runs_def sys_or_default_def)
qed

lemma extends_or_default [intro]: "sys_extends m \<Longrightarrow> sys_extends (sys_or_default m d)"
  using runs_or_default unfolding sys_extends_def by (metis (no_types, lifting))

section \<open>Non-blocking mode\<close>

text \<open>
  The new flags of a descriptor in \<open>set_nonblocking\<close>. The two Unix back ends have the same code and different values of
  \<open>O_NONBLOCK\<close>.
\<close>

definition nonblocking_flags :: "u32 \<Rightarrow> bool \<Rightarrow> u32 \<Rightarrow> u32" where
  "nonblocking_flags O_NONBLOCK nb flags = (if nb then flags OR O_NONBLOCK else flags AND NOT O_NONBLOCK)"

lemma nonblocking_flags_bit:
  assumes "k < 32"
  shows "bit (nonblocking_flags (2 ^ k) nb flags) n \<longleftrightarrow> (if n = k then nb else bit flags n)"
  using assms bit_imp_le_length [of flags n] by (cases "n = k") (auto simp: nonblocking_flags_def bit_simps)

section \<open>Sending\<close>

text \<open>
  The loop of \<open>send\<close>: the call is made again while it is interrupted. \<open>tx\<close> is the system call, \<open>k\<close> what its answers depend on.
\<close>

partial_function (option) send_loop ::
  "(u8 list \<Rightarrow> 'k \<Rightarrow> (io_error + nat) \<times> 'k) \<Rightarrow> u8 list \<Rightarrow> 'k \<Rightarrow> (('p tap_error + nat) \<times> 'k) option" where
  "send_loop tx frame k =
     (case tx frame k of
        (Inr n, k') \<Rightarrow> Some (Inr n, k')
      | (Inl e, k') \<Rightarrow> if e = Interrupted then send_loop tx frame k' else Some (Inl (from_io e), k'))"

text \<open>When the call is interrupted finitely often, the loop returns its first other answer.\<close>

lemma send_loop_returns:
  fixes ks :: "nat \<Rightarrow> 'k"
  assumes "\<And>i. i < n \<Longrightarrow> tx frame (ks i) = (Inl Interrupted, ks (Suc i))"
    and "tx frame (ks n) = (ans, k')" and "ans \<noteq> Inl Interrupted"
  shows "(send_loop tx frame (ks 0) :: (('p tap_error + nat) \<times> 'k) option) = Some (case ans of Inl e \<Rightarrow> Inl (from_io e) | Inr m \<Rightarrow> Inr m, k')"
  using assms
proof (induction n arbitrary: ks)
  case 0
  then show ?case by (subst send_loop.simps) (auto split: sum.splits)
next
  case (Suc n)
  have "send_loop tx frame (ks 0) = (send_loop tx frame (ks 1) :: (('p tap_error + nat) \<times> 'k) option)"
    using Suc.prems(1) [of 0] by (subst send_loop.simps) simp
  then show ?case using Suc.IH [of "\<lambda>i. ks (Suc i)"] Suc.prems by simp
qed

section \<open>Link types and names\<close>

definition dlt_to_link_type :: "u32 \<Rightarrow> link_type" where
  "dlt_to_link_type dlt =
     (if dlt = 1 then Ethernet else if dlt = 101 then RawIp else if dlt = 113 then LinuxSll else Ethernet)"

definition ok_or_default :: "'e + 'a \<Rightarrow> 'a \<Rightarrow> 'a" where
  "ok_or_default r d = (case r of Inr v \<Rightarrow> v | Inl e \<Rightarrow> d)"

end
