(* ===== verification/Tap_Linux.thy ===== *)
theory Tap_Linux
  imports Tap_Sys Tap_Ring Frontend
begin

text \<open>
  \<^verbatim>\<open>pkttap/src/live/linux.rs\<close>: packet sockets. Opening a socket is a function on the list of system calls (\<open>Tap_Sys\<close>); the
  ring of \<open>Tap_Ring\<close> is opened as one call, whose own answers are a record. Receiving on the socket takes the answers of
  \<open>recvmsg\<close> as an argument.
\<close>

section \<open>System calls\<close>

datatype lin_call =
  LinSocket u16
| LinAttachFilter int u16 "insn list"
| LinTimestampns int
| LinTimestamping int u32
| LinOpenRing int ring_config nat
| LinIfIndex int string
| LinPromisc int int
| LinBind int u16 int
| LinFanout int u32
| LinGetFl int
| LinSetFl int u32
| LinUnmapRing int
| LinClose int

text \<open>What the system calls of \<open>Ring::open\<close> answer.\<close>

record ring_answers =
  ra_set_version :: "io_error option"
  ra_sysconf :: int
  ra_set_ring :: "tpacket_req3 \<Rightarrow> io_error option"
  ra_mmap :: "nat \<Rightarrow> io_error + u8 list"

text \<open>
  The system: its answers to the calls, to those of the ring, the contents of the file \<^verbatim>\<open>/sys/class/net/IFACE/type\<close>, the
  byte order of the machine, and the text of an I/O error.
\<close>

record lin_sys =
  ls_kernel :: "(lin_call, int) kernel"
  ls_ring :: "lin_call list \<Rightarrow> ring_answers"
  ls_sysfs_type :: "lin_call list \<Rightarrow> string \<Rightarrow> string option"
  ls_host :: endian
  ls_show_io :: "io_error \<Rightarrow> string"

section \<open>Link type of an interface\<close>

definition arphrd_to_link_type :: "u32 \<Rightarrow> link_type" where
  "arphrd_to_link_type arphrd = (if arphrd = 1 \<or> arphrd = 772 then Ethernet else RawIp)"

text \<open>\<open>str::trim\<close> on ASCII text.\<close>

definition is_space :: "char \<Rightarrow> bool" where
  "is_space c \<longleftrightarrow> c = CHR '' '' \<or> 9 \<le> byte c \<and> byte c \<le> 13"

definition str_trim :: "string \<Rightarrow> string" where
  "str_trim s = rev (dropWhile is_space (rev (dropWhile is_space s)))"

text \<open>\<open>str::parse::<u32>\<close>: an optional \<open>+\<close>, at least one digit, and a value below \<open>2 ^ 32\<close>.\<close>

definition u32_from_str :: "string \<Rightarrow> u32 option" where
  "u32_from_str s =
     (let digits = (case s of c # cs \<Rightarrow> if c = CHR ''+'' then cs else s | [] \<Rightarrow> [])
      in if digits = [] then None else map_option of_nat (from_digits 10 (2 ^ 32 - 1) 0 digits))"

definition lin_query_link_type :: "string option \<Rightarrow> string \<Rightarrow> 'p tap_error + link_type" where
  "lin_query_link_type contents iface =
     (case contents of
        None \<Rightarrow> Inl (Platform (''cannot read link type for '' @ iface))
      | Some s \<Rightarrow>
          (case u32_from_str (str_trim s) of
             None \<Rightarrow> Inl (Platform (''invalid ARPHRD value for '' @ iface))
           | Some arphrd \<Rightarrow> Inr (arphrd_to_link_type arphrd)))"

definition sys_query_link_type :: "lin_sys \<Rightarrow> string \<Rightarrow> (lin_call, 'p, link_type) sys" where
  "sys_query_link_type S iface h = (lin_query_link_type (ls_sysfs_type S h iface) iface, h)"

section \<open>Opening\<close>

definition ETH_P_ALL :: u16 where "ETH_P_ALL = 3"

definition u16_to_be :: "endian \<Rightarrow> u16 \<Rightarrow> u16" where
  "u16_to_be host w = (case host of Big \<Rightarrow> w | Little \<Rightarrow> push_bit 8 w OR drop_bit 8 w)"

definition SOF_TIMESTAMPING_RX_HARDWARE :: u32 where "SOF_TIMESTAMPING_RX_HARDWARE = push_bit 2 1"
definition SOF_TIMESTAMPING_RX_SOFTWARE :: u32 where "SOF_TIMESTAMPING_RX_SOFTWARE = push_bit 3 1"
definition SOF_TIMESTAMPING_SOFTWARE :: u32 where "SOF_TIMESTAMPING_SOFTWARE = push_bit 4 1"
definition SOF_TIMESTAMPING_RAW_HARDWARE :: u32 where "SOF_TIMESTAMPING_RAW_HARDWARE = push_bit 6 1"

definition LIN_IFNAMSIZ :: nat where "LIN_IFNAMSIZ = 16"

definition iface_index :: "lin_sys \<Rightarrow> int \<Rightarrow> string \<Rightarrow> (lin_call, 'p, int) sys" where
  "iface_index S fd name =
     (if LIN_IFNAMSIZ \<le> length name then sys_fail (Platform (''interface name too long: '' @ name))
      else sys_call (ls_kernel S) (LinIfIndex fd (name @ replicate (LIN_IFNAMSIZ - length name) (CHR 0x00))))"

datatype rx = RecvRx "u8 list" | RingRx ring

record linux_live =
  ln_fd :: int
  ln_rx :: rx
  ln_snaplen :: nat
  ln_link_type :: link_type
  ln_timestamp_mode :: timestamp_mode
  ln_recv_acc :: u64
  ln_drop_acc :: u64

definition sys_ring_open :: "lin_sys \<Rightarrow> int \<Rightarrow> ring_config \<Rightarrow> nat \<Rightarrow> (lin_call, 'p, ring) sys" where
  "sys_ring_open S fd cfg snaplen h =
     (let a = ls_ring S h
      in (ring_open (ls_show_io S) (ra_set_version a) (ra_sysconf a) (ra_set_ring a) (ra_mmap a) cfg snaplen,
          h @ [LinOpenRing fd cfg snaplen]))"

fun enable_timestamps :: "lin_sys \<Rightarrow> int \<Rightarrow> timestamp_mode \<Rightarrow> (lin_call, 'p, int) sys" where
  "enable_timestamps S fd Software = sys_call (ls_kernel S) (LinTimestampns fd)"
| "enable_timestamps S fd Hardware =
     sys_call (ls_kernel S) (LinTimestamping fd
       (SOF_TIMESTAMPING_RX_HARDWARE OR SOF_TIMESTAMPING_RAW_HARDWARE OR SOF_TIMESTAMPING_RX_SOFTWARE OR
        SOF_TIMESTAMPING_SOFTWARE))"

definition open_rx :: "lin_sys \<Rightarrow> int \<Rightarrow> nat \<Rightarrow> timestamp_mode \<Rightarrow> ring_config option \<Rightarrow> (lin_call, 'p, rx) sys" where
  "open_rx S fd snaplen mode ring =
     (case ring of
        Some cfg \<Rightarrow> sys_bind (sys_ring_open S fd cfg snaplen) (\<lambda>r. sys_return (RingRx r))
      | None \<Rightarrow>
          sys_bind (enable_timestamps S fd mode) (\<lambda>_. sys_return (RecvRx (replicate (max snaplen 65535) 0))))"

definition attach_filter :: "lin_sys \<Rightarrow> int \<Rightarrow> program option \<Rightarrow> (lin_call, 'p, unit) sys" where
  "attach_filter S fd prog =
     (case prog of
        Some p \<Rightarrow>
          sys_bind (sys_call (ls_kernel S) (LinAttachFilter fd (of_nat (length (instructions p))) (instructions p)))
            (\<lambda>_. sys_return ())
      | None \<Rightarrow> sys_return ())"

text \<open>Dropping the receive path unmaps the ring.\<close>

fun drop_rx :: "int \<Rightarrow> rx \<Rightarrow> lin_call list" where
  "drop_rx fd (RecvRx buf) = []"
| "drop_rx fd (RingRx r) = [LinUnmapRing fd]"

text \<open>The end of \<open>open_inner\<close>: the interface, promiscuous mode, the binding of the socket, and the capture.\<close>

definition bind_socket :: "lin_sys \<Rightarrow> int \<Rightarrow> rx \<Rightarrow> string \<Rightarrow> u32 \<Rightarrow> bool \<Rightarrow> timestamp_mode \<Rightarrow> (lin_call, 'p, linux_live) sys" where
  "bind_socket S fd rx iface snaplen promiscuous mode =
     sys_bind (iface_index S fd iface) (\<lambda>ifindex.
     sys_bind (sys_when promiscuous (sys_bind (sys_call (ls_kernel S) (LinPromisc fd ifindex)) (\<lambda>_. sys_return ()))) (\<lambda>_.
     sys_bind (sys_call (ls_kernel S) (LinBind fd (u16_to_be (ls_host S) ETH_P_ALL) ifindex)) (\<lambda>_.
     sys_bind (sys_or_default (sys_query_link_type S iface) Ethernet) (\<lambda>link_type.
       sys_return \<lparr>ln_fd = fd, ln_rx = rx, ln_snaplen = unat snaplen, ln_link_type = link_type,
         ln_timestamp_mode = mode, ln_recv_acc = 0, ln_drop_acc = 0\<rparr>))))"

definition open_inner ::
  "lin_sys \<Rightarrow> string \<Rightarrow> program option \<Rightarrow> u32 \<Rightarrow> bool \<Rightarrow> timestamp_mode \<Rightarrow> ring_config option \<Rightarrow> (lin_call, 'p, linux_live) sys" where
  "open_inner S iface prog snaplen promiscuous mode ring =
     sys_bind (sys_call (ls_kernel S) (LinSocket (u16_to_be (ls_host S) ETH_P_ALL))) (\<lambda>fd.
     sys_guard [LinClose fd] (
     sys_bind (attach_filter S fd prog) (\<lambda>_.
     sys_bind (open_rx S fd (unat snaplen) mode ring) (\<lambda>rx.
     sys_guard (drop_rx fd rx) (bind_socket S fd rx iface snaplen promiscuous mode)))))"

definition lin_open ::
  "lin_sys \<Rightarrow> string \<Rightarrow> program option \<Rightarrow> u32 \<Rightarrow> bool \<Rightarrow> timestamp_mode \<Rightarrow> (lin_call, 'p, linux_live) sys" where
  "lin_open S iface prog snaplen promiscuous mode = open_inner S iface prog snaplen promiscuous mode None"

definition lin_open_ring ::
  "lin_sys \<Rightarrow> string \<Rightarrow> program option \<Rightarrow> u32 \<Rightarrow> bool \<Rightarrow> timestamp_mode \<Rightarrow> ring_config \<Rightarrow> (lin_call, 'p, linux_live) sys" where
  "lin_open_ring S iface prog snaplen promiscuous mode cfg = open_inner S iface prog snaplen promiscuous mode (Some cfg)"

text \<open>The fields of a capture are dropped in the order of their declaration.\<close>

definition drop_live :: "linux_live \<Rightarrow> lin_call list" where
  "drop_live live = LinClose (ln_fd live) # drop_rx (ln_fd live) (ln_rx live)"

definition fanout_arg :: "u16 \<Rightarrow> u16 \<Rightarrow> u32" where
  "fanout_arg group_id mode = ucast group_id OR push_bit 16 (ucast mode)"

definition open_fanout ::
  "lin_sys \<Rightarrow> string \<Rightarrow> program option \<Rightarrow> u32 \<Rightarrow> bool \<Rightarrow> timestamp_mode \<Rightarrow> u16 \<Rightarrow> u16 \<Rightarrow> ring_config option \<Rightarrow>
   (lin_call, 'p, linux_live) sys" where
  "open_fanout S iface prog snaplen promiscuous mode group_id fmode ring =
     sys_bind (open_inner S iface prog snaplen promiscuous mode ring) (\<lambda>live.
     sys_guard (drop_live live) (
     sys_bind (sys_call (ls_kernel S) (LinFanout (ln_fd live) (fanout_arg group_id fmode))) (\<lambda>_. sys_return live)))"

section \<open>Statistics and modes\<close>

text \<open>\<open>stats\<close>: the answer of \<^verbatim>\<open>PACKET_STATISTICS\<close> is what was counted since the last time it was read.\<close>

definition lin_stats :: "io_error + u32 \<times> u32 \<Rightarrow> linux_live \<Rightarrow> ('p tap_error + capture_stats) \<times> linux_live" where
  "lin_stats ans live =
     (case ans of
        Inl e \<Rightarrow> (Inl (from_io e), live)
      | Inr (tp_packets, tp_drops) \<Rightarrow>
          let live' = live\<lparr>ln_recv_acc := ln_recv_acc live + ucast tp_packets, ln_drop_acc := ln_drop_acc live + ucast tp_drops\<rparr>
          in (Inr \<lparr>cs_received = ln_recv_acc live', cs_dropped = ln_drop_acc live', cs_if_dropped = 0\<rparr>, live'))"

definition LIN_O_NONBLOCK :: u32 where "LIN_O_NONBLOCK = 2048"

text \<open>\<open>set_nonblocking\<close>: the ring is told first (\<open>tell_ring\<close>), then the flag of the descriptor is changed.\<close>

definition tell_ring :: "bool \<Rightarrow> linux_live \<Rightarrow> linux_live" where
  "tell_ring nb live =
     (case ln_rx live of RingRx r \<Rightarrow> live\<lparr>ln_rx := RingRx (set_nonblocking nb r)\<rparr> | RecvRx buf \<Rightarrow> live)"

definition fcntl_nonblocking :: "lin_sys \<Rightarrow> int \<Rightarrow> bool \<Rightarrow> (lin_call, 'p, unit) sys" where
  "fcntl_nonblocking S fd nb =
     sys_bind (sys_call (ls_kernel S) (LinGetFl fd)) (\<lambda>flags.
     sys_bind (sys_call (ls_kernel S) (LinSetFl fd (nonblocking_flags LIN_O_NONBLOCK nb (word_of_int flags)))) (\<lambda>_.
       sys_return ()))"

section \<open>Receiving\<close>

record timespec =
  tv_sec :: u64
  tv_nsec :: u64

definition read_timespec :: "endian \<Rightarrow> u8 list \<Rightarrow> nat \<Rightarrow> timespec" where
  "read_timespec host b off = \<lparr>tv_sec = field_u64 host b off, tv_nsec = field_u64 host b (off + 8)\<rparr>"

definition timespec_to_pair :: "timespec \<Rightarrow> u64 \<times> u32" where
  "timespec_to_pair ts = (tv_sec ts, ucast (tv_nsec ts))"

record scm_timestamping =
  ts_sw :: timespec
  ts_hw_deprecated :: timespec
  ts_hw_raw :: timespec

definition read_scm_timestamping :: "endian \<Rightarrow> u8 list \<Rightarrow> scm_timestamping" where
  "read_scm_timestamping host b =
     \<lparr>ts_sw = read_timespec host b 0, ts_hw_deprecated = read_timespec host b 16, ts_hw_raw = read_timespec host b 32\<rparr>"

text \<open>One message of ancillary data, and what \<open>recvmsg\<close> stores: the bytes of the packet and these messages.\<close>

record cmsg =
  cmsg_level :: int
  cmsg_type :: int
  cmsg_data :: "u8 list"

record recv_msg =
  rm_data :: "u8 list"
  rm_control :: "cmsg list"

definition SOL_SOCKET :: int where "SOL_SOCKET = 1"
definition SCM_TIMESTAMPNS :: int where "SCM_TIMESTAMPNS = 35"
definition SCM_TIMESTAMPING :: int where "SCM_TIMESTAMPING = 37"

text \<open>\<open>extract_timestamp\<close>: \<open>now\<close> is the time of \<open>SystemTime::now\<close>, taken when no message has a timestamp.\<close>

fun extract_timestamp :: "endian \<Rightarrow> system_time \<Rightarrow> cmsg list \<Rightarrow> timestamp_mode \<Rightarrow> u64 \<times> u32" where
  "extract_timestamp host now [] mode =
     (let d = (case duration_since_epoch now of Some d \<Rightarrow> d | None \<Rightarrow> duration_default) in (dur_secs d, dur_nanos d))"
| "extract_timestamp host now (c # cs) mode =
     (if cmsg_level c = SOL_SOCKET \<and> mode = Software \<and> cmsg_type c = SCM_TIMESTAMPNS
      then timespec_to_pair (read_timespec host (cmsg_data c) 0)
      else if cmsg_level c = SOL_SOCKET \<and> mode = Hardware \<and> cmsg_type c = SCM_TIMESTAMPING
      then (let scts = read_scm_timestamping host (cmsg_data c)
            in timespec_to_pair (if tv_sec (ts_hw_raw scts) \<noteq> 0 \<or> tv_nsec (ts_hw_raw scts) \<noteq> 0 then ts_hw_raw scts else ts_sw scts))
      else extract_timestamp host now cs mode)"

text \<open>
  The loop of \<open>recv_packet\<close>. \<open>recvmsg n k\<close> is the answer of the system call with a buffer of \<open>n\<close> bytes; the new buffer is
  part of the result.
\<close>

partial_function (option) recv_packet ::
  "(nat \<Rightarrow> 'k \<Rightarrow> (io_error + recv_msg) \<times> 'k) \<Rightarrow> endian \<Rightarrow> system_time \<Rightarrow> nat \<Rightarrow> link_type \<Rightarrow> timestamp_mode \<Rightarrow> u8 list \<Rightarrow> 'k \<Rightarrow>
   (('p tap_error + packet_ref option) \<times> u8 list \<times> 'k) option" where
  "recv_packet recvmsg host now snaplen lt mode buf k =
     (case recvmsg (length buf) k of
        (Inl e, k') \<Rightarrow>
          if e = Interrupted then recv_packet recvmsg host now snaplen lt mode buf k'
          else if e = WouldBlockKind then Some (Inr None, buf, k')
          else Some (Inl (from_io e), buf, k')
      | (Inr m, k') \<Rightarrow>
          let len = length (rm_data m);
              buf' = rm_data m @ drop len buf;
              n = min len snaplen;
              (ts_sec, ts_nsec) = extract_timestamp host now (rm_control m) mode
          in Some (rbind (packet_ref_new (take n buf') ts_sec ts_nsec (of_nat len) lt) (\<lambda>p. Inr (Some p)), buf', k'))"

text \<open>\<open>next_packet\<close> on either path; \<open>poll\<close> is what the ring waits with.\<close>

definition lin_next_packet ::
  "(nat \<Rightarrow> 'k \<Rightarrow> (io_error + recv_msg) \<times> 'k) \<Rightarrow> ('k \<Rightarrow> u8 list \<Rightarrow> io_error option \<times> u8 list \<times> 'k) \<Rightarrow> endian \<Rightarrow> system_time \<Rightarrow>
   'k \<times> linux_live \<Rightarrow> (('p tap_error + packet_ref option) \<times> 'k \<times> linux_live) option" where
  "lin_next_packet recvmsg poll host now = (\<lambda>(k, live).
     (case ln_rx live of
        RecvRx buf \<Rightarrow>
          map_option (\<lambda>(res, buf', k'). (res, k', live\<lparr>ln_rx := RecvRx buf'\<rparr>))
            (recv_packet recvmsg host now (ln_snaplen live) (ln_link_type live) (ln_timestamp_mode live) buf k)
      | RingRx r \<Rightarrow>
          map_option (\<lambda>(res, k', r'). (res, k', live\<lparr>ln_rx := RingRx r'\<rparr>))
            (ring_next_packet poll host (ln_link_type live) k r)))"

section \<open>Injection\<close>

record linux_injector =
  li_fd :: int
  li_link_type :: link_type

definition lin_injector_open :: "lin_sys \<Rightarrow> string \<Rightarrow> (lin_call, 'p, linux_injector) sys" where
  "lin_injector_open S iface =
     sys_bind (sys_call (ls_kernel S) (LinSocket 0)) (\<lambda>fd.
     sys_guard [LinClose fd] (
     sys_bind (iface_index S fd iface) (\<lambda>ifindex.
     sys_bind (sys_call (ls_kernel S) (LinBind fd 0 ifindex)) (\<lambda>_.
     sys_bind (sys_or_default (sys_query_link_type S iface) Ethernet) (\<lambda>link_type.
       sys_return \<lparr>li_fd = fd, li_link_type = link_type\<rparr>)))))"

section \<open>Interfaces\<close>

text \<open>\<open>str::lines\<close>: the pieces between line feeds, without a carriage return before the feed, and without an empty last one.\<close>

definition strip_cr :: "string \<Rightarrow> string" where
  "strip_cr l = (if l \<noteq> [] \<and> last l = CHR 0x0D then butlast l else l)"

definition str_lines :: "string \<Rightarrow> string list" where
  "str_lines s =
     (let parts = split_at_char (CHR 0x0A) s
      in map strip_cr (butlast parts) @ (if last parts = [] then [] else [last parts]))"

definition lin_list_interfaces :: "io_error + string \<Rightarrow> 'p tap_error + string list" where
  "lin_list_interfaces content =
     (case content of
        Inl e \<Rightarrow> Inl (from_io e)
      | Inr s \<Rightarrow>
          Inr (filter (\<lambda>name. name \<noteq> [])
            (map (\<lambda>line. str_trim (hd (split_at_char (CHR '':'') line))) (drop 2 (str_lines s)))))"

definition lin_default_interface :: "io_error + string \<Rightarrow> 'p tap_error + string" where
  "lin_default_interface content =
     rbind (lin_list_interfaces content) (\<lambda>names.
       case List.find (\<lambda>name. name \<noteq> ''lo'') names of
         Some name \<Rightarrow> Inr name
       | None \<Rightarrow> Inl (Platform ''no non-loopback interface found''))"

end
