(* ===== verification/Tap_Capture.thy ===== *)
theory Tap_Capture
  imports Tap_File Tap_Linux
begin

text \<open>
  The front end of captures: \<^verbatim>\<open>pkttap/src/capture.rs\<close> (the builder and the capture), \<^verbatim>\<open>fanout.rs\<close> (groups of captures that share
  the traffic of an interface), \<^verbatim>\<open>inject.rs\<close> and the functions of \<^verbatim>\<open>live/mod.rs\<close>, as they are compiled for Linux. Opening
  is a function on the list of system calls; a capture file brings its own parameters (\<open>Tap_File\<close>).
\<close>

section \<open>The builder\<close>

datatype source = LiveSource string | FileSource string

record capture_builder =
  cb_source :: source
  cb_filter :: "filter_spec option"
  cb_snaplen :: u32
  cb_promiscuous :: bool
  cb_buffer_timeout :: duration
  cb_nonblocking :: bool
  cb_timestamp_mode :: timestamp_mode
  cb_ring :: "ring_config option"

definition capture_live :: "string \<Rightarrow> capture_builder" where
  "capture_live iface =
     \<lparr>cb_source = LiveSource iface, cb_filter = None, cb_snaplen = 65535, cb_promiscuous = False,
      cb_buffer_timeout = \<lparr>dur_secs = 0, dur_nanos = 100000000\<rparr>, cb_nonblocking = False, cb_timestamp_mode = Software,
      cb_ring = None\<rparr>"

definition capture_from_file :: "string \<Rightarrow> capture_builder" where
  "capture_from_file path =
     \<lparr>cb_source = FileSource path, cb_filter = None, cb_snaplen = 65535, cb_promiscuous = False,
      cb_buffer_timeout = \<lparr>dur_secs = 0, dur_nanos = 100000000\<rparr>, cb_nonblocking = False, cb_timestamp_mode = Software,
      cb_ring = None\<rparr>"

definition builder_filter :: "string option \<Rightarrow> capture_builder \<Rightarrow> capture_builder" where
  "builder_filter expr b = b\<lparr>cb_filter := map_option FilterString expr\<rparr>"

definition builder_filter_program :: "program \<Rightarrow> capture_builder \<Rightarrow> capture_builder" where
  "builder_filter_program p b = b\<lparr>cb_filter := Some (FilterProgram p)\<rparr>"

definition builder_snaplen :: "u32 \<Rightarrow> capture_builder \<Rightarrow> capture_builder" where
  "builder_snaplen n b = b\<lparr>cb_snaplen := n\<rparr>"

definition builder_promiscuous :: "bool \<Rightarrow> capture_builder \<Rightarrow> capture_builder" where
  "builder_promiscuous on b = b\<lparr>cb_promiscuous := on\<rparr>"

definition builder_buffer_timeout :: "duration \<Rightarrow> capture_builder \<Rightarrow> capture_builder" where
  "builder_buffer_timeout d b = b\<lparr>cb_buffer_timeout := d\<rparr>"

definition builder_nonblocking :: "bool \<Rightarrow> capture_builder \<Rightarrow> capture_builder" where
  "builder_nonblocking nb b = b\<lparr>cb_nonblocking := nb\<rparr>"

definition builder_timestamp_mode :: "timestamp_mode \<Rightarrow> capture_builder \<Rightarrow> capture_builder" where
  "builder_timestamp_mode mode b = b\<lparr>cb_timestamp_mode := mode\<rparr>"

definition builder_ring :: "ring_config option \<Rightarrow> capture_builder \<Rightarrow> capture_builder" where
  "builder_ring cfg b = b\<lparr>cb_ring := cfg\<rparr>"

section \<open>The capture\<close>

datatype ('r, 'n) capture = LiveCapture linux_live | FileInner "('r, 'n) file_capture"

text \<open>\<open>live.set_nonblocking(true)?\<close>, after whose failure the capture is dropped.\<close>

definition make_nonblocking :: "lin_sys \<Rightarrow> linux_live \<Rightarrow> (lin_call, 'p, linux_live) sys" where
  "make_nonblocking S live =
     (let live' = tell_ring True live
      in sys_guard (drop_live live') (sys_bind (fcntl_nonblocking S (ln_fd live') True) (\<lambda>_. sys_return live')))"

text \<open>The branch of \<open>CaptureBuilder::open\<close> for an interface.\<close>

definition open_live :: "lin_sys \<Rightarrow> string \<Rightarrow> capture_builder \<Rightarrow> (lin_call, 'p, linux_live) sys" where
  "open_live S iface b =
     sys_bind (sys_query_link_type S iface) (\<lambda>link_type.
     sys_bind (sys_lift (tap_compile_filter (cb_filter b) link_type)) (\<lambda>prog.
     sys_bind
       (case cb_ring b of
          Some cfg \<Rightarrow> lin_open_ring S iface prog (cb_snaplen b) (cb_promiscuous b) (cb_timestamp_mode b) cfg
        | None \<Rightarrow> lin_open S iface prog (cb_snaplen b) (cb_promiscuous b) (cb_timestamp_mode b)) (\<lambda>live.
       if cb_nonblocking b then make_nonblocking S live else sys_return live)))"

text \<open>
  \<open>CaptureBuilder::open\<close>: \<open>file\<close> gives the contents of the file at a path, \<open>fill\<close> the first part of them that a
  buffered reader holds.
\<close>

definition capture_open ::
  "lin_sys \<Rightarrow> ('e, 'd, 'r, 'n, 'z) pcap_reader_scheme \<Rightarrow> (string \<Rightarrow> io_error + u8 list) \<Rightarrow> (u8 list \<Rightarrow> io_error + u8 list) \<Rightarrow>
   capture_builder \<Rightarrow> (lin_call, 'e, ('r, 'n) capture) sys" where
  "capture_open S C file fill b =
     (case cb_source b of
        LiveSource iface \<Rightarrow> sys_bind (open_live S iface b) (\<lambda>live. sys_return (LiveCapture live))
      | FileSource path \<Rightarrow>
          sys_bind (sys_lift (file_open C (file path) fill (cb_filter b))) (\<lambda>fc. sys_return (FileInner fc)))"

definition capture_from_live :: "linux_live \<Rightarrow> ('r, 'n) capture" where
  "capture_from_live live = LiveCapture live"

text \<open>A capture file has no counters.\<close>

fun capture_stats_of :: "io_error + u32 \<times> u32 \<Rightarrow> ('r, 'n) capture \<Rightarrow> ('p tap_error + capture_stats) \<times> ('r, 'n) capture" where
  "capture_stats_of ans (LiveCapture live) = (case lin_stats ans live of (res, live') \<Rightarrow> (res, LiveCapture live'))"
| "capture_stats_of ans (FileInner fc) = (Inr capture_stats_default, FileInner fc)"

fun capture_link_type :: "('r, 'n) capture \<Rightarrow> link_type" where
  "capture_link_type (LiveCapture live) = ln_link_type live"
| "capture_link_type (FileInner fc) = fc_link_type fc"

definition capture_next ::
  "(nat \<Rightarrow> 'k \<Rightarrow> (io_error + recv_msg) \<times> 'k) \<Rightarrow> ('k \<Rightarrow> u8 list \<Rightarrow> io_error option \<times> u8 list \<times> 'k) \<Rightarrow> endian \<Rightarrow> system_time \<Rightarrow>
   ('e, 'd, 'r, 'n, 'z) pcap_reader_scheme \<Rightarrow> 'k \<times> ('r, 'n) capture \<Rightarrow>
   (('e tap_error + packet_ref option) \<times> 'k \<times> ('r, 'n) capture) option" where
  "capture_next recvmsg poll host now C = (\<lambda>(k, c).
     (case c of
        LiveCapture live \<Rightarrow>
          map_option (\<lambda>(res, k', live'). (res, k', LiveCapture live')) (lin_next_packet recvmsg poll host now (k, live))
      | FileInner fc \<Rightarrow> map_option (\<lambda>(res, fc'). (res, k, FileInner fc')) (file_next_packet C fc)))"

section \<open>Fanout groups\<close>

datatype fanout_mode = Hash | LoadBalance | CpuAffinity | Rollover | Random | QueueMapping

fun kernel_value :: "fanout_mode \<Rightarrow> u16" where
  "kernel_value Hash = 0"
| "kernel_value LoadBalance = 1"
| "kernel_value CpuAffinity = 2"
| "kernel_value Rollover = 3"
| "kernel_value Random = 4"
| "kernel_value QueueMapping = 5"

record fanout_group =
  fg_iface :: string
  fg_filter :: "filter_spec option"
  fg_snaplen :: u32
  fg_promiscuous :: bool
  fg_mode :: fanout_mode
  fg_group_id :: u16
  fg_timestamp_mode :: timestamp_mode
  fg_ring :: "ring_config option"

text \<open>The time and the process number are arguments.\<close>

definition default_group_id :: "system_time \<Rightarrow> u32 \<Rightarrow> u16" where
  "default_group_id now pid =
     ucast (case duration_since_epoch now of Some d \<Rightarrow> dur_nanos d | None \<Rightarrow> 0) XOR ucast pid"

definition fanout_new :: "system_time \<Rightarrow> u32 \<Rightarrow> string \<Rightarrow> fanout_mode \<Rightarrow> fanout_group" where
  "fanout_new now pid iface mode =
     \<lparr>fg_iface = iface, fg_filter = None, fg_snaplen = 65535, fg_promiscuous = False, fg_mode = mode,
      fg_group_id = default_group_id now pid, fg_timestamp_mode = Software, fg_ring = None\<rparr>"

definition group_set_id :: "u16 \<Rightarrow> fanout_group \<Rightarrow> fanout_group" where
  "group_set_id i g = g\<lparr>fg_group_id := i\<rparr>"

definition group_filter :: "string option \<Rightarrow> fanout_group \<Rightarrow> fanout_group" where
  "group_filter expr g = g\<lparr>fg_filter := map_option FilterString expr\<rparr>"

definition group_snaplen :: "u32 \<Rightarrow> fanout_group \<Rightarrow> fanout_group" where
  "group_snaplen n g = g\<lparr>fg_snaplen := n\<rparr>"

definition group_promiscuous :: "bool \<Rightarrow> fanout_group \<Rightarrow> fanout_group" where
  "group_promiscuous on g = g\<lparr>fg_promiscuous := on\<rparr>"

definition group_ring :: "ring_config option \<Rightarrow> fanout_group \<Rightarrow> fanout_group" where
  "group_ring cfg g = g\<lparr>fg_ring := cfg\<rparr>"

definition group_timestamp_mode :: "timestamp_mode \<Rightarrow> fanout_group \<Rightarrow> fanout_group" where
  "group_timestamp_mode mode g = g\<lparr>fg_timestamp_mode := mode\<rparr>"

text \<open>The loop of \<open>into_captures\<close>; when a socket cannot be opened, those opened before are dropped in their order.\<close>

fun open_group :: "(lin_call, 'p, linux_live) sys \<Rightarrow> nat \<Rightarrow> linux_live list \<Rightarrow> (lin_call, 'p, linux_live list) sys" where
  "open_group m 0 captures = sys_return captures"
| "open_group m (Suc n) captures =
     sys_bind (sys_guard (concat (map drop_live captures)) m) (\<lambda>live. open_group m n (captures @ [live]))"

definition into_captures :: "lin_sys \<Rightarrow> fanout_group \<Rightarrow> nat \<Rightarrow> (lin_call, 'p, ('r, 'n) capture list) sys" where
  "into_captures S g n =
     (if n = 0 then sys_fail (Platform ''FanoutGroup::into_captures requires n >= 1'')
      else
        sys_bind (sys_query_link_type S (fg_iface g)) (\<lambda>link_type.
        sys_bind (sys_lift (tap_compile_filter (fg_filter g) link_type)) (\<lambda>prog.
        sys_bind (open_group (open_fanout S (fg_iface g) prog (fg_snaplen g) (fg_promiscuous g) (fg_timestamp_mode g) (fg_group_id g)
            (kernel_value (fg_mode g)) (fg_ring g)) n []) (\<lambda>lives.
          sys_return (map capture_from_live lives)))))"

section \<open>Injection\<close>

definition injector_on_interface :: "lin_sys \<Rightarrow> string \<Rightarrow> (lin_call, 'p, linux_injector) sys" where
  "injector_on_interface S iface = lin_injector_open S iface"

text \<open>\<open>Injector::send\<close>: \<open>tx\<close> is the system call \<open>send\<close> on the socket.\<close>

definition injector_send ::
  "(u8 list \<Rightarrow> 'k \<Rightarrow> (io_error + nat) \<times> 'k) \<Rightarrow> u8 list \<Rightarrow> 'k \<Rightarrow> (('p tap_error + nat) \<times> 'k) option" where
  "injector_send tx bytes k =
     (if bytes = [] then Some (Inl (Platform ''cannot inject an empty frame''), k) else send_loop tx bytes k)"

definition injector_link_type :: "linux_injector \<Rightarrow> link_type" where
  "injector_link_type i = li_link_type i"

end
