(* ===== verification/Tap_Capture_Correct.thy ===== *)
theory Tap_Capture_Correct
  imports Tap_Capture "HOL-Library.Sublist"
begin

text \<open>
  What opening a live capture does: the calls it makes, in which order, and what it undoes when one of them fails; and a
  socket as a source of packets.
\<close>

section \<open>The calls of an opening\<close>

definition filter_plan :: "int \<Rightarrow> program option \<Rightarrow> lin_call list" where
  "filter_plan fd prog =
     (case prog of None \<Rightarrow> [] | Some p \<Rightarrow> [LinAttachFilter fd (of_nat (length (instructions p))) (instructions p)])"

definition rx_plan :: "int \<Rightarrow> nat \<Rightarrow> timestamp_mode \<Rightarrow> ring_config option \<Rightarrow> lin_call list" where
  "rx_plan fd snaplen mode ring =
     (case ring of
        Some cfg \<Rightarrow> [LinOpenRing fd cfg snaplen]
      | None \<Rightarrow> [case mode of Software \<Rightarrow> LinTimestampns fd | Hardware \<Rightarrow> LinTimestamping fd 92])"

definition bind_plan :: "endian \<Rightarrow> int \<Rightarrow> string \<Rightarrow> bool \<Rightarrow> int \<Rightarrow> lin_call list" where
  "bind_plan host fd iface promiscuous ifindex =
     LinIfIndex fd (iface @ replicate (16 - length iface) (CHR 0x00)) #
     (if promiscuous then [LinPromisc fd ifindex] else []) @ [LinBind fd (u16_to_be host 3) ifindex]"

definition nonblocking_plan :: "bool \<Rightarrow> int \<Rightarrow> u32 \<Rightarrow> lin_call list" where
  "nonblocking_plan nb fd flags = (if nb then [LinGetFl fd, LinSetFl fd (flags OR 2048)] else [])"

text \<open>Whether the ring that is asked for after the calls \<open>h\<close> gets mapped.\<close>

definition ring_mapped :: "lin_sys \<Rightarrow> lin_call list \<Rightarrow> nat \<Rightarrow> ring_config option \<Rightarrow> bool" where
  "ring_mapped S h snaplen ring \<longleftrightarrow>
     (case ring of
        None \<Rightarrow> False
      | Some cfg \<Rightarrow>
          let a = ls_ring S h
          in \<exists>r. ring_open (ls_show_io S) (ra_set_version a) (ra_sysconf a) (ra_set_ring a) (ra_mmap a) cfg snaplen =
               (Inr r :: unit tap_error + ring))"

lemma ring_open_Inr_any:
  "ring_open show_io ver page set_ring mmap cfg snaplen = (Inr r :: 'p tap_error + ring) \<longleftrightarrow>
   ring_open show_io ver page set_ring mmap cfg snaplen = (Inr r :: 'q tap_error + ring)"
  by (auto simp: ring_open_def ring_geometry_def ok_or_else_def rbind_def Let_def split: option.splits sum.splits if_splits)

lemma extends_parts [intro]:
  "sys_extends (sys_query_link_type S iface)" "sys_extends (sys_ring_open S fd cfg snaplen)"
  "sys_extends (iface_index S fd iface)" "sys_extends (attach_filter S fd prog)" "sys_extends (enable_timestamps S fd mode)"
proof -
  show "sys_extends (sys_query_link_type S iface)" "sys_extends (sys_ring_open S fd cfg snaplen)"
    by (auto simp: sys_extends_def sys_runs_def sys_query_link_type_def sys_ring_open_def Let_def)
  show "sys_extends (iface_index S fd iface)" by (simp add: iface_index_def)
  show "sys_extends (attach_filter S fd prog)" by (auto simp: attach_filter_def split: option.splits)
  show "sys_extends (enable_timestamps S fd mode)" by (cases mode) simp_all
qed

lemmas extends_rules = extends_bind extends_guard extends_when extends_or_default extends_parts extends_basic

lemma extends_open [intro]:
  "sys_extends (open_rx S fd n mode ring)" "sys_extends (bind_socket S fd rx iface snaplen promiscuous mode)"
proof -
  show "sys_extends (open_rx S fd n mode ring)" by (cases ring) (simp_all add: open_rx_def, (intro extends_rules)+)
  show "sys_extends (bind_socket S fd rx iface snaplen promiscuous mode)"
    unfolding bind_socket_def by (intro extends_rules)
qed

lemma runs_attach_filter:
  "sys_runs (attach_filter S fd prog) h calls res \<Longrightarrow> calls = filter_plan fd prog"
  by (auto simp: attach_filter_def filter_plan_def runs_return runs_bind runs_call split: option.splits)

lemma runs_open_rx:
  assumes "sys_runs (open_rx S fd n mode ring) h calls (res :: 'p tap_error + rx)"
  shows "calls = rx_plan fd n mode ring" and "ring_mapped S h n ring \<longleftrightarrow> (\<exists>r. res = Inr (RingRx r))"
proof -
  show "calls = rx_plan fd n mode ring"
    using assms
    by (cases mode) (auto simp: open_rx_def rx_plan_def runs_bind runs_return runs_call sys_runs_def sys_ring_open_def extends_parts Let_def
        SOF_TIMESTAMPING_RX_HARDWARE_def SOF_TIMESTAMPING_RX_SOFTWARE_def SOF_TIMESTAMPING_SOFTWARE_def SOF_TIMESTAMPING_RAW_HARDWARE_def
        sys_defs split: option.splits sum.splits)
  show "ring_mapped S h n ring \<longleftrightarrow> (\<exists>r. res = Inr (RingRx r))"
    using assms
    by (auto simp: open_rx_def ring_mapped_def sys_runs_def sys_ring_open_def Let_def sys_bind_def sys_return_def
        ring_open_Inr_any [where 'p = unit and 'q = 'p] split: option.splits sum.splits prod.splits)
qed

lemma runs_query_link_type:
  "sys_runs (sys_query_link_type S iface) h calls res \<longleftrightarrow>
     calls = [] \<and> res = lin_query_link_type (ls_sysfs_type S h iface) iface"
  by (auto simp: sys_runs_def sys_query_link_type_def)

lemma runs_iface_index:
  "sys_runs (iface_index S fd iface) h calls res \<longleftrightarrow>
     (if 16 \<le> length iface then calls = [] \<and> res = Inl (Platform (''interface name too long: '' @ iface))
      else sys_runs (sys_call (ls_kernel S) (LinIfIndex fd (iface @ replicate (16 - length iface) (CHR 0x00)))) h calls res)"
  by (simp add: iface_index_def LIN_IFNAMSIZ_def runs_fail)

text \<open>The index of an interface, as the kernel gives it after the calls \<open>h\<close>.\<close>

definition index_given :: "lin_sys \<Rightarrow> lin_call list \<Rightarrow> int \<Rightarrow> string \<Rightarrow> int \<Rightarrow> bool" where
  "index_given S h fd iface ifindex \<longleftrightarrow>
     ls_kernel S h (LinIfIndex fd (iface @ replicate (16 - length iface) (CHR 0x00))) = Inr ifindex"

text \<open>\<open>runs_step\<close> splits a run of \<open>m; f\<close> at the end of \<open>m\<close>.\<close>

lemma runs_step [consumes 1, case_names first rest stop continue]:
  assumes "sys_runs (sys_bind m f) h calls res" and "sys_extends m" and "\<And>x. sys_extends (f x)"
  obtains (stop) e where "sys_runs m h calls (Inl e)" and "res = Inl e"
  | (continue) x c1 c2 where "sys_runs m h c1 (Inr x)" and "sys_runs (f x) (h @ c1) c2 res" and "calls = c1 @ c2"
  using assms by (auto simp: runs_bind)

lemma runs_guard_cases [consumes 1, case_names inner err ok]:
  assumes "sys_runs (sys_guard cs m) h calls res" and "sys_extends m"
  obtains (err) e b where "sys_runs m h b (Inl e)" and "res = Inl e" and "calls = b @ cs"
  | (ok) x where "sys_runs m h calls (Inr x)" and "res = Inr x"
  using assms by (auto simp: runs_guard)

lemma runs_bind_socket:
  assumes "sys_runs (bind_socket S fd rx iface snaplen promiscuous mode) h calls res"
  shows "\<exists>ifindex. prefix calls (bind_plan (ls_host S) fd iface promiscuous ifindex) \<and>
    (\<forall>live. res = Inr live \<longrightarrow> calls = bind_plan (ls_host S) fd iface promiscuous ifindex \<and> ln_fd live = fd \<and> ln_rx live = rx \<and>
      index_given S h fd iface ifindex)"
  using assms unfolding bind_socket_def
proof (cases rule: runs_step)
  case (stop e)
  then show ?thesis by (auto simp: runs_iface_index runs_call bind_plan_def split: if_splits)
next
  case (continue ifindex c1 c2)
  have c1: "c1 = [LinIfIndex fd (iface @ replicate (16 - length iface) (CHR 0x00))]" and i: "index_given S h fd iface ifindex"
    using continue(1) by (auto simp: runs_iface_index runs_call index_given_def split: if_splits sum.splits)
  show ?thesis
    using continue(2)
  proof (cases rule: runs_step)
    case (stop e)
    then show ?thesis using c1 continue(3)
      by (intro exI [of _ ifindex]) (auto simp: runs_when runs_bind runs_call runs_return bind_plan_def split: if_splits)
  next
    case c: (continue u d1 d2)
    have d1: "d1 = (if promiscuous then [LinPromisc fd ifindex] else [])"
      using c(1) by (auto simp: runs_when runs_bind runs_call runs_return split: if_splits)
    have "d2 = [LinBind fd (u16_to_be (ls_host S) 3) ifindex]" and "\<And>live. res = Inr live \<Longrightarrow> ln_fd live = fd \<and> ln_rx live = rx"
      using c(2) by (auto simp: runs_bind runs_call runs_return runs_or_default runs_query_link_type extends_rules ETH_P_ALL_def)
    then show ?thesis using c1 i d1 c(3) continue(3) by (intro exI [of _ ifindex]) (auto simp: bind_plan_def)
  qed (intro extends_rules)+
qed (intro extends_rules)+

text \<open>
  An attempt to follow a plan: it is carried out to its end, or up to some call and then undone, by closing the socket and
  unmapping the ring if it was mapped.
\<close>

definition attempt :: "int \<Rightarrow> lin_call list \<Rightarrow> (lin_call list \<Rightarrow> bool) \<Rightarrow> lin_call list \<Rightarrow> bool \<Rightarrow> bool" where
  "attempt fd plan mapped calls ok \<longleftrightarrow>
     (if ok then calls = plan
      else \<exists>begun undone. prefix begun plan \<and> calls = begun @ undone \<and> distinct undone \<and>
        set undone = {LinClose fd} \<union> (if mapped begun then {LinUnmapRing fd} else {}))"

lemma attemptI:
  "prefix begun plan \<Longrightarrow> calls = begun @ undone \<Longrightarrow> distinct undone \<Longrightarrow>
   set undone = {LinClose fd} \<union> (if mapped begun then {LinUnmapRing fd} else {}) \<Longrightarrow> attempt fd plan mapped calls False"
  unfolding attempt_def if_False by blast

lemma attempt_longer:
  assumes "attempt fd plan mapped calls False"
  shows "attempt fd (plan @ plan') mapped calls False"
proof -
  obtain begun undone where a: "prefix begun plan" "calls = begun @ undone" "distinct undone"
    "set undone = {LinClose fd} \<union> (if mapped begun then {LinUnmapRing fd} else {})"
    using assms unfolding attempt_def if_False by blast
  show ?thesis by (rule attemptI, rule prefix_prefix, rule a(1), rule a(2), rule a(3), rule a(4))
qed

definition open_plan :: "endian \<Rightarrow> int \<Rightarrow> string \<Rightarrow> program option \<Rightarrow> u32 \<Rightarrow> bool \<Rightarrow> timestamp_mode \<Rightarrow> ring_config option \<Rightarrow> int \<Rightarrow> lin_call list" where
  "open_plan host fd iface prog snaplen promiscuous mode ring ifindex =
     filter_plan fd prog @ rx_plan fd (unat snaplen) mode ring @ bind_plan host fd iface promiscuous ifindex"

text \<open>The ring is mapped once its opening is among the calls begun, and successful.\<close>

definition holds_ring :: "lin_sys \<Rightarrow> lin_call list \<Rightarrow> u32 \<Rightarrow> ring_config option \<Rightarrow> lin_call list \<Rightarrow> bool" where
  "holds_ring S h snaplen ring begun \<longleftrightarrow>
     (\<exists>fd cfg. LinOpenRing fd cfg (unat snaplen) \<in> set begun) \<and> ring_mapped S h (unat snaplen) ring"

lemma drop_rx_set: "distinct (drop_rx fd rx)" "set (drop_rx fd rx) = (if \<exists>r. rx = RingRx r then {LinUnmapRing fd} else {})"
  by (cases rx; simp)+

lemma holds_ring_rx:
  "holds_ring S h snaplen ring (filter_plan fd prog @ rx_plan fd (unat snaplen) mode ring @ c) \<longleftrightarrow> ring_mapped S h (unat snaplen) ring"
  "\<not> holds_ring S h snaplen ring (filter_plan fd prog)"
  by (cases ring; auto simp: holds_ring_def rx_plan_def ring_mapped_def) (auto simp: holds_ring_def filter_plan_def split: option.splits)

text \<open>What follows the creation of the socket in \<open>open_inner\<close>.\<close>

lemma runs_setup:
  assumes "sys_runs (sys_bind (attach_filter S fd prog) (\<lambda>_. sys_bind (open_rx S fd (unat snaplen) mode ring) (\<lambda>rx.
      sys_guard (drop_rx fd rx) (bind_socket S fd rx iface snaplen promiscuous mode)))) h calls (res :: 'p tap_error + linux_live)"
  shows "\<exists>ifindex.
    (\<exists>live. res = Inr live \<and> calls = open_plan (ls_host S) fd iface prog snaplen promiscuous mode ring ifindex \<and> ln_fd live = fd \<and>
       index_given S (h @ filter_plan fd prog @ rx_plan fd (unat snaplen) mode ring) fd iface ifindex \<and>
       ((\<exists>r. ln_rx live = RingRx r) \<longleftrightarrow> ring_mapped S (h @ filter_plan fd prog) (unat snaplen) ring)) \<or>
    (\<exists>e begun unmap. res = Inl e \<and> prefix begun (open_plan (ls_host S) fd iface prog snaplen promiscuous mode ring ifindex) \<and>
       calls = begun @ unmap \<and> distinct unmap \<and>
       set unmap = (if holds_ring S (h @ filter_plan fd prog) snaplen ring begun then {LinUnmapRing fd} else {}))"
  using assms
proof (cases rule: runs_step)
  case (stop e)
  then have "calls = filter_plan fd prog" by (blast dest: runs_attach_filter)
  then show ?thesis using stop(2) holds_ring_rx(2)
    by (intro exI [of _ 0] disjI2 exI [of _ e] exI [of _ "filter_plan fd prog"] exI [of _ "[]"]) (auto simp: open_plan_def)
next
  case (continue u c1 c2)
  have c1: "c1 = filter_plan fd prog" using continue(1) by (rule runs_attach_filter)
  show ?thesis using continue(2)
  proof (cases rule: runs_step)
    case (stop e)
    then show ?thesis using runs_open_rx [OF stop(1)] continue(3) c1 holds_ring_rx(1) [where c = "[]"]
      by (intro exI [of _ 0] disjI2 exI [of _ e] exI [of _ calls] exI [of _ "[]"]) (auto simp: open_plan_def)
  next
    case c: (continue rx d1 d2)
    note rx = runs_open_rx [OF c(1), unfolded c1]
    show ?thesis using c(2)
    proof (cases rule: runs_guard_cases)
      case (ok live)
      then show ?thesis using runs_bind_socket [OF ok(1)] continue(3) c(3) c1 rx by (auto simp: open_plan_def)
    next
      case (err e b)
      obtain ifindex where "prefix b (bind_plan (ls_host S) fd iface promiscuous ifindex)" using runs_bind_socket [OF err(1)] by blast
      then show ?thesis using err(2,3) continue(3) c(3) c1 rx holds_ring_rx(1) [where c = b] drop_rx_set
        by (intro exI [of _ ifindex] disjI2 exI [of _ e] exI [of _ "c1 @ d1 @ b"] exI [of _ "drop_rx fd rx"]) (auto simp: open_plan_def)
    qed (intro extends_open)
  qed (intro extends_rules extends_open)+
qed (intro extends_rules extends_open)+

abbreviation capture_socket :: "lin_sys \<Rightarrow> lin_call" where
  "capture_socket S \<equiv> LinSocket (u16_to_be (ls_host S) 3)"

lemma runs_open_inner:
  assumes "sys_runs (open_inner S iface prog snaplen promiscuous mode ring) h calls (res :: 'p tap_error + linux_live)"
  shows "(\<exists>e. res = Inl e \<and> calls = [capture_socket S] \<and> isl (ls_kernel S h (capture_socket S))) \<or>
    (\<exists>fd ifindex rest. ls_kernel S h (capture_socket S) = Inr fd \<and> calls = capture_socket S # rest \<and>
       attempt fd (open_plan (ls_host S) fd iface prog snaplen promiscuous mode ring ifindex)
         (holds_ring S (h @ capture_socket S # filter_plan fd prog) snaplen ring) rest (\<not> isl res) \<and>
       (\<forall>live. res = Inr live \<longrightarrow> ln_fd live = fd \<and>
          index_given S (h @ capture_socket S # filter_plan fd prog @ rx_plan fd (unat snaplen) mode ring) fd iface ifindex \<and>
          ((\<exists>r. ln_rx live = RingRx r) \<longleftrightarrow> ring_mapped S (h @ capture_socket S # filter_plan fd prog) (unat snaplen) ring)))"
  using assms unfolding open_inner_def
proof (cases rule: runs_step)
  case (stop e)
  then show ?thesis by (auto simp: runs_call ETH_P_ALL_def split: sum.splits)
next
  case (continue fd c1 c2)
  have c1: "c1 = [capture_socket S]" "ls_kernel S h (capture_socket S) = Inr fd"
    using continue(1) by (auto simp: runs_call ETH_P_ALL_def split: sum.splits)
  show ?thesis using continue(2)
  proof (cases rule: runs_guard_cases)
    case (ok live)
    then show ?thesis using runs_setup [OF ok(1)] continue(3) c1 by (auto simp: attempt_def)
  next
    case (err e b)
    then obtain ifindex begun unmap where b: "prefix begun (open_plan (ls_host S) fd iface prog snaplen promiscuous mode ring ifindex)"
      "b = begun @ unmap" "distinct unmap"
      "set unmap = (if holds_ring S ((h @ c1) @ filter_plan fd prog) snaplen ring begun then {LinUnmapRing fd} else {})"
      using runs_setup [OF err(1)] by blast
    have u: "distinct (unmap @ [LinClose fd])" "set (unmap @ [LinClose fd]) =
        {LinClose fd} \<union> (if holds_ring S (h @ capture_socket S # filter_plan fd prog) snaplen ring begun then {LinUnmapRing fd} else {})"
      using b(3,4) c1(1) by (simp_all split: if_splits)
    have "attempt fd (open_plan (ls_host S) fd iface prog snaplen promiscuous mode ring ifindex)
         (holds_ring S (h @ capture_socket S # filter_plan fd prog) snaplen ring) c2 False"
      by (rule attemptI [of begun _ _ "unmap @ [LinClose fd]"]) (use b(1,2) err(3) u in simp_all)
    then show ?thesis using err(2) c1 continue(3) by auto
  qed (intro extends_rules extends_open)
qed (intro extends_rules extends_open)+

lemma extends_open_inner [intro]: "sys_extends (open_inner S iface prog snaplen promiscuous mode ring)"
  unfolding open_inner_def by (intro extends_rules extends_open)

lemma extends_nonblocking [intro]: "sys_extends (fcntl_nonblocking S fd nb)" "sys_extends (make_nonblocking S live)"
proof -
  show f: "sys_extends (fcntl_nonblocking S fd nb)" for fd nb unfolding fcntl_nonblocking_def by (intro extends_rules)
  show "sys_extends (make_nonblocking S live)" unfolding make_nonblocking_def Let_def by (intro extends_rules f)
qed

lemma runs_nonblocking:
  assumes "sys_runs (fcntl_nonblocking S fd True) h calls res"
  shows "\<exists>flags. prefix calls (nonblocking_plan True fd flags) \<and> (\<not> isl res \<longrightarrow> calls = nonblocking_plan True fd flags)"
  using assms unfolding fcntl_nonblocking_def
proof (cases rule: runs_step)
  case (stop e)
  then show ?thesis by (auto simp: runs_call nonblocking_plan_def)
next
  case (continue flags c1 c2)
  then show ?thesis
    by (intro exI [of _ "word_of_int flags"])
      (auto simp: runs_bind runs_call runs_return nonblocking_plan_def nonblocking_flags_def LIN_O_NONBLOCK_def)
qed (intro extends_rules)+

lemma drop_live_set:
  "distinct (drop_live live)"
  "set (drop_live live) = {LinClose (ln_fd live)} \<union> (if \<exists>r. ln_rx live = RingRx r then {LinUnmapRing (ln_fd live)} else {})"
  by (cases "ln_rx live"; auto simp: drop_live_def)+

definition live_plan :: "endian \<Rightarrow> string \<Rightarrow> capture_builder \<Rightarrow> program option \<Rightarrow> int \<Rightarrow> int \<Rightarrow> u32 \<Rightarrow> lin_call list" where
  "live_plan host iface b prog fd ifindex flags =
     open_plan host fd iface prog (cb_snaplen b) (cb_promiscuous b) (cb_timestamp_mode b) (cb_ring b) ifindex @
     nonblocking_plan (cb_nonblocking b) fd flags"

lemma open_live_eq:
  "open_live S iface b =
     sys_bind (sys_query_link_type S iface) (\<lambda>link_type.
     sys_bind (sys_lift (tap_compile_filter (cb_filter b) link_type)) (\<lambda>prog.
     sys_bind (open_inner S iface prog (cb_snaplen b) (cb_promiscuous b) (cb_timestamp_mode b) (cb_ring b)) (\<lambda>live.
       if cb_nonblocking b then make_nonblocking S live else sys_return live)))"
  by (cases "cb_ring b") (simp_all add: open_live_def lin_open_def lin_open_ring_def)

lemma tell_ring_simps:
  "ln_fd (tell_ring nb live) = ln_fd live"
  "(\<exists>r. ln_rx (tell_ring nb live) = RingRx r) \<longleftrightarrow> (\<exists>r. ln_rx live = RingRx r)"
  by (auto simp: tell_ring_def split: rx.splits)

text \<open>The end of \<open>open_live\<close>, after the socket was opened.\<close>

lemma runs_finish_live:
  assumes "sys_runs (if cb_nonblocking b then make_nonblocking S live else sys_return live) h calls (res :: 'p tap_error + linux_live)"
  shows "\<exists>flags.
    (\<exists>live'. res = Inr live' \<and> calls = nonblocking_plan (cb_nonblocking b) (ln_fd live) flags \<and> ln_fd live' = ln_fd live) \<or>
    (\<exists>e begun. res = Inl e \<and> prefix begun (nonblocking_plan (cb_nonblocking b) (ln_fd live) flags) \<and>
       calls = begun @ drop_live (tell_ring True live))"
proof (cases "cb_nonblocking b")
  case False
  then show ?thesis using assms by (auto simp: runs_return nonblocking_plan_def)
next
  case True
  have "sys_runs (make_nonblocking S live) h calls res" using assms True by simp
  then show ?thesis unfolding make_nonblocking_def Let_def
  proof (cases rule: runs_guard_cases)
    case (err e c)
    have "sys_runs (fcntl_nonblocking S (ln_fd live) True) h c (Inl e :: 'p tap_error + unit)"
      using err(1) by (auto simp: runs_bind runs_return extends_nonblocking tell_ring_simps)
    then show ?thesis using runs_nonblocking [of S "ln_fd live" h c] err(2,3) True by fastforce
  next
    case (ok live')
    have "sys_runs (fcntl_nonblocking S (ln_fd live) True) h calls (Inr () :: 'p tap_error + unit)" "live' = tell_ring True live"
      using ok(1) by (auto simp: runs_bind runs_return extends_nonblocking tell_ring_simps)
    then show ?thesis using runs_nonblocking [of S "ln_fd live" h calls] ok(2) True tell_ring_simps(1) by fastforce
  qed (intro extends_rules extends_nonblocking)
qed

lemma runs_open_finish:
  assumes "sys_runs (sys_bind (open_inner S iface prog (cb_snaplen b) (cb_promiscuous b) (cb_timestamp_mode b) (cb_ring b)) (\<lambda>live.
      if cb_nonblocking b then make_nonblocking S live else sys_return live)) [] calls (res :: 'p tap_error + linux_live)"
  shows "(\<exists>e. res = Inl e \<and> calls = [capture_socket S] \<and> isl (ls_kernel S [] (capture_socket S))) \<or>
    (\<exists>fd ifindex flags rest. ls_kernel S [] (capture_socket S) = Inr fd \<and> calls = capture_socket S # rest \<and>
       attempt fd (live_plan (ls_host S) iface b prog fd ifindex flags)
         (holds_ring S (capture_socket S # filter_plan fd prog) (cb_snaplen b) (cb_ring b)) rest (\<not> isl res) \<and>
       (\<forall>live. res = Inr live \<longrightarrow> ln_fd live = fd \<and>
          index_given S (capture_socket S # filter_plan fd prog @
            rx_plan fd (unat (cb_snaplen b)) (cb_timestamp_mode b) (cb_ring b)) fd iface ifindex))"
  using assms
proof (cases rule: runs_step)
  case (stop e)
  then show ?thesis using runs_open_inner [OF stop(1)] attempt_longer unfolding live_plan_def by fastforce
next
  case d: (continue live f1 f2)
  obtain fd ifindex rest where o: "ls_kernel S [] (capture_socket S) = Inr fd" "f1 = capture_socket S # rest"
    "rest = open_plan (ls_host S) fd iface prog (cb_snaplen b) (cb_promiscuous b) (cb_timestamp_mode b) (cb_ring b) ifindex"
    "ln_fd live = fd"
    "index_given S (capture_socket S # filter_plan fd prog @
      rx_plan fd (unat (cb_snaplen b)) (cb_timestamp_mode b) (cb_ring b)) fd iface ifindex"
    "(\<exists>r. ln_rx live = RingRx r) \<longleftrightarrow> ring_mapped S (capture_socket S # filter_plan fd prog) (unat (cb_snaplen b)) (cb_ring b)"
    using runs_open_inner [OF d(1)] by (auto simp: attempt_def)
  have m: "holds_ring S (capture_socket S # filter_plan fd prog) (cb_snaplen b) (cb_ring b) (rest @ c) \<longleftrightarrow> (\<exists>r. ln_rx live = RingRx r)" for c
    unfolding o(3,6) open_plan_def append_assoc by (rule holds_ring_rx(1))
  consider (ok) flags live' where "res = Inr live'" "f2 = nonblocking_plan (cb_nonblocking b) fd flags" "ln_fd live' = fd"
    | (err) flags e begun where "res = Inl e" "prefix begun (nonblocking_plan (cb_nonblocking b) fd flags)" "f2 = begun @ drop_live (tell_ring True live)"
    using runs_finish_live [OF d(2)] o(4) by blast
  then show ?thesis
  proof cases
    case (ok flags live')
    then have "attempt fd (live_plan (ls_host S) iface b prog fd ifindex flags)
        (holds_ring S (capture_socket S # filter_plan fd prog) (cb_snaplen b) (cb_ring b)) (rest @ f2) (\<not> isl res)"
      by (simp add: attempt_def live_plan_def o(3))
    then show ?thesis using ok(1,3) d(3) o(1,2,5) by auto
  next
    case (err flags e begun)
    have "attempt fd (live_plan (ls_host S) iface b prog fd ifindex flags)
        (holds_ring S (capture_socket S # filter_plan fd prog) (cb_snaplen b) (cb_ring b)) (rest @ f2) False"
      using err(2,3) drop_live_set [of "tell_ring True live"]
      by (intro attemptI [of "rest @ begun" _ _ "drop_live (tell_ring True live)"])
        (simp_all add: live_plan_def o(3) [symmetric] m tell_ring_simps o(4))
    then show ?thesis using err(1) d(3) o(1,2) by auto
  qed
qed (auto simp: extends_nonblocking extends_open_inner)

section \<open>A socket is a source of packets\<close>

text \<open>
  A socket in non-blocking mode whose calls of \<open>recvmsg\<close> are answered from a list, and by \<open>EWOULDBLOCK\<close> when it is used up.
\<close>

fun scripted_recv :: "nat \<Rightarrow> (io_error + recv_msg) list \<Rightarrow> (io_error + recv_msg) \<times> (io_error + recv_msg) list" where
  "scripted_recv n [] = (Inl WouldBlockKind, [])"
| "scripted_recv n (a # as) = (a, as)"

definition recv_result :: "endian \<Rightarrow> system_time \<Rightarrow> linux_live \<Rightarrow> recv_msg \<Rightarrow> 'p tap_error + packet_ref" where
  "recv_result host now live m =
     (case extract_timestamp host now (rm_control m) (ln_timestamp_mode live) of
        (sec, nsec) \<Rightarrow>
          packet_ref_new (take (ln_snaplen live) (rm_data m)) sec nsec (of_nat (length (rm_data m))) (ln_link_type live))"

definition received :: "(io_error + recv_msg) list \<Rightarrow> recv_msg list" where
  "received script = concat (map (\<lambda>a. case a of Inl e \<Rightarrow> [] | Inr m \<Rightarrow> [m]) script)"

definition socket_holds :: "'p itself \<Rightarrow> endian \<Rightarrow> system_time \<Rightarrow> (io_error + recv_msg) list \<times> linux_live \<Rightarrow> packet_ref list \<Rightarrow> bool" where
  "socket_holds p host now s ps \<longleftrightarrow>
     (case s of (script, live) \<Rightarrow>
        (\<exists>buf. ln_rx live = RecvRx buf) \<and> list_all (\<lambda>a. isl a \<longrightarrow> a = Inl Interrupted) script \<and>
        map (recv_result host now live) (received script) = (map Inr ps :: ('p tap_error + packet_ref) list))"

lemma socket_next:
  assumes "ln_rx live = RecvRx buf" and "list_all (\<lambda>a. isl a \<longrightarrow> a = Inl Interrupted) script"
    and "map (recv_result host now live) (received script) = (map Inr ps :: ('p tap_error + packet_ref) list)"
  shows "case ps of
      [] \<Rightarrow> \<exists>s'. lin_next_packet scripted_recv poll host now (script, live) = Some (Inr None :: 'p tap_error + packet_ref option, s')
    | p # ps' \<Rightarrow> \<exists>s'. lin_next_packet scripted_recv poll host now (script, live) = Some (Inr (Some p) :: 'p tap_error + packet_ref option, s') \<and>
        socket_holds TYPE('p) host now s' ps'"
  using assms
proof (induction script)
  case Nil
  then show ?case by (simp add: received_def lin_next_packet_def recv_packet.simps)
next
  case (Cons a script)
  show ?case
  proof (cases a)
    case (Inl e)
    then have "a = Inl Interrupted" using Cons.prems(2) by simp
    moreover have "recv_packet scripted_recv host now n lt mode buf (Inl Interrupted # script) =
        (recv_packet scripted_recv host now n lt mode buf script :: (('p tap_error + packet_ref option) \<times> _) option)" for n lt mode
      by (subst recv_packet.simps) simp
    ultimately have "lin_next_packet scripted_recv poll host now (a # script, live) =
        (lin_next_packet scripted_recv poll host now (script, live) :: (('p tap_error + packet_ref option) \<times> _) option)"
      using Cons.prems(1) by (simp add: lin_next_packet_def)
    then show ?thesis using Cons.IH [OF Cons.prems(1)] Cons.prems(2,3) Inl by (auto simp: received_def split: list.splits)
  next
    case (Inr m)
    then obtain p ps' where p: "ps = p # ps'" "recv_result host now live m = (Inr p :: 'p tap_error + packet_ref)"
      "map (recv_result host now live) (received script) = (map Inr ps' :: ('p tap_error + packet_ref) list)"
      using Cons.prems(3) by (cases ps) (auto simp: received_def)
    let ?live = "live\<lparr>ln_rx := RecvRx (rm_data m @ drop (length (rm_data m)) buf)\<rparr>"
    have "recv_packet scripted_recv host now (ln_snaplen live) (ln_link_type live) (ln_timestamp_mode live) buf (Inr m # script) =
        Some (Inr (Some p) :: 'p tap_error + packet_ref option, rm_data m @ drop (length (rm_data m)) buf, script)"
      by (subst recv_packet.simps)
        (use p(2) in \<open>auto simp: recv_result_def Let_def min_def split: prod.splits\<close>)
    then have "lin_next_packet scripted_recv poll host now (a # script, live) = Some (Inr (Some p) :: 'p tap_error + packet_ref option, script, ?live)"
      using Cons.prems(1) Inr by (simp add: lin_next_packet_def)
    moreover have "recv_result host now ?live = (recv_result host now live :: _ \<Rightarrow> 'p tap_error + packet_ref)"
      by (simp add: recv_result_def fun_eq_iff)
    then have "socket_holds TYPE('p) host now (script, ?live) ps'" using p(3) Cons.prems(2) by (simp add: socket_holds_def)
    ultimately show ?thesis using p(1) by auto
  qed
qed

interpretation socket_source: packet_source
  "lin_next_packet scripted_recv poll host now :: _ \<Rightarrow> (('p tap_error + packet_ref option) \<times> _) option" "socket_holds TYPE('p) host now"
  for poll host now
proof (unfold_locales, goal_cases)
  case (1 s)
  then obtain script live buf where s: "s = (script, live)" "ln_rx live = RecvRx buf" "list_all (\<lambda>a. isl a \<longrightarrow> a = Inl Interrupted) script"
    "map (recv_result host now live) (received script) = (map Inr [] :: ('p tap_error + packet_ref) list)"
    unfolding socket_holds_def by (cases s) blast
  show ?case using socket_next [OF s(2-4), of poll] s(1) by simp
next
  case (2 s p ps)
  then obtain script live buf where s: "s = (script, live)" "ln_rx live = RecvRx buf" "list_all (\<lambda>a. isl a \<longrightarrow> a = Inl Interrupted) script"
    "map (recv_result host now live) (received script) = (map Inr (p # ps) :: ('p tap_error + packet_ref) list)"
    unfolding socket_holds_def by (cases s) blast
  show ?case using socket_next [OF s(2-4), of poll] s(1) by simp
qed

end
