(* ===== verification/Tap_Capture_Theorems.thy ===== *)
theory Tap_Capture_Theorems
  imports Tap_Capture_Correct
begin

text \<open>
  The properties of live captures on Linux: how they are opened, what their statistics count, and groups of captures.
\<close>

section \<open>Statistics\<close>

text \<open>What the reads of the counters have answered in all; a failed read counts nothing.\<close>

definition total_of :: "(u32 \<times> u32 \<Rightarrow> u32) \<Rightarrow> (io_error + u32 \<times> u32) list \<Rightarrow> nat" where
  "total_of sel polls = sum_list (map (\<lambda>a. case a of Inl e \<Rightarrow> 0 | Inr c \<Rightarrow> unat (sel c)) polls)"

text \<open>The capture after its counters were read with these results.\<close>

fun after_stats :: "(io_error + u32 \<times> u32) list \<Rightarrow> linux_live \<Rightarrow> linux_live" where
  "after_stats [] live = live"
| "after_stats (a # as) live = after_stats as (snd (lin_stats a live :: (unit tap_error + capture_stats) \<times> linux_live))"

lemma after_stats_acc:
  "ln_recv_acc (after_stats polls live) = ln_recv_acc live + of_nat (total_of fst polls)"
  "ln_drop_acc (after_stats polls live) = ln_drop_acc live + of_nat (total_of snd polls)"
  by (induction polls arbitrary: live) (auto simp: total_of_def lin_stats_def Let_def of_nat_unat split: sum.splits)

lemma open_inner_counters:
  assumes "open_inner S iface prog snaplen promiscuous mode ring h = (Inr live, calls)"
  shows "ln_recv_acc live = 0" and "ln_drop_acc live = 0"
  using assms by (auto simp: open_inner_def bind_socket_def sys_bind_def sys_guard_def sys_return_def split: prod.splits sum.splits)

section \<open>Groups\<close>

text \<open>The group number and the mode occupy the two halves of the argument, and distinct modes have distinct values.\<close>

lemma fanout_arg_halves: "ucast (fanout_arg group_id mode) = group_id" "ucast (drop_bit 16 (fanout_arg group_id mode)) = mode"
  by (rule bit_word_eqI, auto simp: fanout_arg_def bit_simps dest: bit_imp_le_length)+

lemma kernel_value_inject: "kernel_value m = kernel_value m' \<longleftrightarrow> m = m'"
  by (cases m; cases m') simp_all

text \<open>A group has as many captures as were asked for, or none, and then all sockets that were opened are closed again.\<close>

lemma open_group_all:
  "open_group m n captures h = (Inr live, calls) \<Longrightarrow> length live = length captures + n"
  by (induction m n captures arbitrary: h rule: open_group.induct)
    (auto simp: sys_return_def sys_bind_def sys_guard_def split: prod.splits sum.splits)

lemma open_group_fails:
  assumes "open_group m n captures h = (Inl e, calls)"
  shows "\<exists>opened pre. take (length captures) opened = captures \<and> calls = pre @ concat (map drop_live opened)"
  using assms
proof (induction m n captures arbitrary: h rule: open_group.induct)
  case (1 m captures)
  then show ?case by (simp add: sys_return_def)
next
  case (2 m n captures)
  show ?case
  proof (cases "m h")
    case (Pair r h')
    show ?thesis
    proof (cases r)
      case (Inl e')
      then have "calls = h' @ concat (map drop_live captures)" using 2(2) Pair by (auto simp: sys_bind_def sys_guard_def)
      then show ?thesis by (intro exI [of _ captures]) auto
    next
      case (Inr live)
      then have "open_group m n (captures @ [live]) h' = (Inl e, calls)" using 2(2) Pair by (auto simp: sys_bind_def sys_guard_def)
      then obtain opened pre where o: "take (Suc (length captures)) opened = captures @ [live]" "calls = pre @ concat (map drop_live opened)"
        using 2(1) by fastforce
      have "take (length captures) opened = captures" using arg_cong [OF o(1), of "take (length captures)"] by (simp add: min_def)
      then show ?thesis using o(2) by blast
    qed
  qed
qed

lemma into_captures_count:
  assumes "into_captures S g n h = (Inr captures :: 'p tap_error + ('r, 'n) capture list, calls)"
  shows "length captures = n \<and> n \<noteq> 0"
  using assms open_group_all [where captures = "[]"]
  by (force simp: into_captures_def sys_fail_def sys_bind_def sys_lift_def sys_return_def split: if_splits prod.splits sum.splits)

section \<open>Injection\<close>

text \<open>An empty frame is refused without a system call.\<close>

lemma injector_refuses_empty: "injector_send tx [] k = Some (Inl (Platform ''cannot inject an empty frame''), k)"
  by (simp add: injector_send_def)

section \<open>The flush interval of the builder\<close>

text \<open>Opening a capture does not look at the flush interval.\<close>

lemma buffer_timeout_unused: "capture_open S C file fill (builder_buffer_timeout d b) = capture_open S C file fill b"
  by (cases "cb_source b"; cases "cb_ring b") (simp_all add: capture_open_def open_live_def builder_buffer_timeout_def)

section \<open>Properties\<close>


text \<open>An interface to which the socket cannot be bound: the filter was attached before, and the socket is closed.\<close>

definition lin_sample :: "io_error + int \<Rightarrow> lin_sys" where
  "lin_sample bound =
     \<lparr>ls_kernel = (\<lambda>h c. case c of LinSocket proto \<Rightarrow> Inr 7 | LinIfIndex fd name \<Rightarrow> Inr 2 | LinBind fd proto i \<Rightarrow> bound | _ \<Rightarrow> Inr 0),
      ls_ring = (\<lambda>h. \<lparr>ra_set_version = None, ra_sysconf = 4096, ra_set_ring = (\<lambda>req. None), ra_mmap = (\<lambda>n. Inr [])\<rparr>),
      ls_sysfs_type = (\<lambda>h iface. Some [CHR ''1'', CHR 0x0A]), ls_host = Little, ls_show_io = (\<lambda>e. ''error'')\<rparr>"

definition lin_sample_builder :: capture_builder where
  "lin_sample_builder = builder_filter_program \<lparr>insns = [ret_k 0]\<rparr> (builder_nonblocking True (capture_live ''eth0''))"

lemma lin_sample_simps:
  "ls_host (lin_sample bound) = Little" "u16_to_be Little 3 = 0x300" "cb_snaplen lin_sample_builder = 65535" "cb_ring lin_sample_builder = None"
  "ls_sysfs_type (lin_sample bound) h iface = Some [CHR ''1'', CHR 0x0A]"
  "u32_from_str (str_trim [CHR ''1'', CHR 0x0A]) = Some 1"
  by (simp_all add: lin_sample_def u16_to_be_def lin_sample_builder_def builder_filter_program_def builder_nonblocking_def capture_live_def
      u32_from_str_def str_trim_def is_space_def to_digit_def is_ascii_digit_def)


text \<open>
  C40: the statistics of a capture are totals since it was opened, although each read of the kernel's counters resets them: the
  result of a read is the sum of everything all reads so far have answered, modulo \<open>2 ^ 64\<close>, and a failed read loses nothing.
\<close>

theorem linux_stats_total:
  assumes "open_inner S iface prog snaplen promiscuous mode ring h = (Inr live :: 'p tap_error + linux_live, calls)"
  shows "fst (lin_stats (Inr (packets, drops)) (after_stats polls live)) =
    (Inr \<lparr>cs_received = of_nat (total_of fst (polls @ [Inr (packets, drops)])),
       cs_dropped = of_nat (total_of snd (polls @ [Inr (packets, drops)])), cs_if_dropped = 0\<rparr> :: 'p tap_error + capture_stats)"
  using open_inner_counters [OF assms] by (simp add: lin_stats_def Let_def after_stats_acc) (simp add: total_of_def of_nat_unat)

theorem linux_stats_total_witness:
  "\<exists>live. fst (lin_stats (Inr (5, 0)) (after_stats [Inr (10, 1), Inl (OtherIo 9), Inr (0xFFFFFFFF, 2)] live)) =
    (Inr \<lparr>cs_received = 0x10000000E, cs_dropped = 3, cs_if_dropped = 0\<rparr> :: nat tap_error + capture_stats)"
proof -
  obtain live calls where "open_inner (lin_sample (Inr 0)) ''eth0'' None 100 False Software None [] = (Inr live :: nat tap_error + linux_live, calls)"
    by (simp add: open_inner_def bind_socket_def attach_filter_def open_rx_def iface_index_def sys_defs sys_or_default_def
        sys_query_link_type_def lin_query_link_type_def lin_sample_simps(6) lin_sample_def sys_when_def LIN_IFNAMSIZ_def)
  from linux_stats_total [OF this, of 5 0 "[Inr (10, 1), Inl (OtherIo 9), Inr (0xFFFFFFFF, 2)]"] show ?thesis
    by (intro exI [of _ live]) (simp add: total_of_def)
qed

end
