(* ===== verification/Tap_Macos.thy ===== *)
theory Tap_Macos
  imports Tap_Sys Frontend
begin

text \<open>
  \<^verbatim>\<open>pkttap/src/live/macos.rs\<close>: capture and injection on a BPF device. One read of the device fills the buffer with several
  frames, each behind a header; \<open>parse_bpf_frame\<close> cuts them out. The calls that open a device are functions on the list of
  system calls (\<open>Tap_Sys\<close>); what a read answers is an argument of \<open>next_packet\<close>.
\<close>

section \<open>System calls\<close>

text \<open>One constructor per \<open>open\<close> and \<open>ioctl\<close> request; \<open>MacClose\<close> is the drop of the descriptor.\<close>

datatype mac_call =
  MacOpen string
| MacSetImmediate int u32
| MacSetIf int string
| MacGetDlt int
| MacPromisc int
| MacSetFilter int u32 "insn list"
| MacGetBufLen int
| MacHeaderComplete int u32
| MacGetFl int
| MacSetFl int u32
| MacClose int

type_synonym mac_kernel = "(mac_call, int) kernel"

definition EBUSY :: nat where "EBUSY = 16"

text \<open>\<open>open_bpf_device\<close>: the devices from number \<open>n\<close> on, until one opens or fails for another reason than being busy.\<close>

function open_bpf_device :: "mac_kernel \<Rightarrow> nat \<Rightarrow> (mac_call, 'p, int) sys" where
  "open_bpf_device kern n =
     (if n < 256 then
        sys_bind (sys_try kern (MacOpen (''/dev/bpf'' @ show_nat n))) (\<lambda>ans.
          case ans of
            Inr fd \<Rightarrow> sys_return fd
          | Inl e \<Rightarrow>
              if e = OtherIo EBUSY then open_bpf_device kern (n + 1)
              else sys_fail (Platform ''no available /dev/bpf device found''))
      else sys_fail (Platform ''no available /dev/bpf device found''))"
  by pat_completeness auto
termination by (relation "measure (\<lambda>(kern, n). 256 - n)") auto

declare open_bpf_device.simps [simp del]

definition IFNAMSIZ :: nat where "IFNAMSIZ = 16"

definition cstring_new :: "string \<Rightarrow> string option" where
  "cstring_new s = (if CHR 0x00 \<in> set s then None else Some (s @ [CHR 0x00]))"

definition mac_bind_interface :: "mac_kernel \<Rightarrow> int \<Rightarrow> string \<Rightarrow> (mac_call, 'p, unit) sys" where
  "mac_bind_interface kern fd iface =
     (case cstring_new iface of
        None \<Rightarrow> sys_fail (Platform ''invalid interface name'')
      | Some bytes \<Rightarrow>
          let name = take IFNAMSIZ bytes
          in sys_bind (sys_call kern (MacSetIf fd (name @ replicate (IFNAMSIZ - length name) (CHR 0x00)))) (\<lambda>_. sys_return ()))"

definition mac_device_link_type :: "mac_kernel \<Rightarrow> int \<Rightarrow> (mac_call, 'p, link_type) sys" where
  "mac_device_link_type kern fd =
     sys_bind (sys_try kern (MacGetDlt fd)) (\<lambda>ans.
       sys_return (case ans of Inr dlt \<Rightarrow> dlt_to_link_type (word_of_int dlt) | Inl e \<Rightarrow> Ethernet))"

definition mac_set_filter :: "mac_kernel \<Rightarrow> int \<Rightarrow> insn list \<Rightarrow> (mac_call, 'p, unit) sys" where
  "mac_set_filter kern fd prog =
     sys_bind (sys_call kern (MacSetFilter fd (of_nat (length prog)) prog)) (\<lambda>_. sys_return ())"

section \<open>The capture\<close>

record mac_live =
  ml_fd :: int
  ml_buf :: "u8 list"
  ml_buf_filled :: nat
  ml_buf_pos :: nat
  ml_snaplen :: nat
  ml_link_type :: link_type

definition mac_open :: "mac_kernel \<Rightarrow> string \<Rightarrow> program option \<Rightarrow> u32 \<Rightarrow> bool \<Rightarrow> timestamp_mode \<Rightarrow> (mac_call, 'p, mac_live) sys" where
  "mac_open kern iface prog snaplen promiscuous mode =
     sys_bind (open_bpf_device kern 0) (\<lambda>fd.
     sys_guard [MacClose fd] (
     sys_bind (sys_call kern (MacSetImmediate fd 1)) (\<lambda>_.
     sys_bind (mac_bind_interface kern fd iface) (\<lambda>_.
     sys_bind (mac_device_link_type kern fd) (\<lambda>link_type.
     sys_bind (sys_when promiscuous (sys_bind (sys_call kern (MacPromisc fd)) (\<lambda>_. sys_return ()))) (\<lambda>_.
     sys_bind (case prog of Some p \<Rightarrow> mac_set_filter kern fd (instructions p) | None \<Rightarrow> sys_return ()) (\<lambda>_.
     sys_bind (sys_try kern (MacGetBufLen fd)) (\<lambda>ans.
       let kbuf_len = unat (word_of_int (ok_or_default ans 0) :: u32);
           buf_size = max (max kbuf_len (unat snaplen)) 65535
       in sys_return \<lparr>ml_fd = fd, ml_buf = replicate buf_size 0, ml_buf_filled = 0, ml_buf_pos = 0,
            ml_snaplen = unat snaplen, ml_link_type = link_type\<rparr>))))))))"

text \<open>\<open>stats\<close>: the counters of \<^verbatim>\<open>BIOCGSTATS\<close>, which count from the opening of the device.\<close>

definition mac_stats :: "io_error + u32 \<times> u32 \<Rightarrow> 'p tap_error + capture_stats" where
  "mac_stats ans =
     (case ans of
        Inl e \<Rightarrow> Inl (from_io e)
      | Inr (recv, drops) \<Rightarrow> Inr \<lparr>cs_received = ucast recv, cs_dropped = ucast drops, cs_if_dropped = 0\<rparr>)"

definition MAC_O_NONBLOCK :: u32 where "MAC_O_NONBLOCK = 4"

definition mac_set_nonblocking :: "mac_kernel \<Rightarrow> mac_live \<Rightarrow> bool \<Rightarrow> (mac_call, 'p, unit) sys" where
  "mac_set_nonblocking kern live nb =
     sys_bind (sys_call kern (MacGetFl (ml_fd live))) (\<lambda>flags.
     sys_bind (sys_call kern (MacSetFl (ml_fd live) (nonblocking_flags MAC_O_NONBLOCK nb (word_of_int flags)))) (\<lambda>_.
       sys_return ()))"

section \<open>Frames in the buffer\<close>

record bpf_hdr =
  bh_tstamp_sec :: u64
  bh_tstamp_usec :: u64
  bh_caplen :: u32
  bh_datalen :: u32
  bh_hdrlen :: u16

text \<open>\<open>size_of::<BpfHdr>()\<close>: 26 bytes, padded to the alignment of the first field.\<close>

definition BPF_HDR_SIZE :: nat where "BPF_HDR_SIZE = 32"

definition read_bpf_hdr :: "endian \<Rightarrow> u8 list \<Rightarrow> nat \<Rightarrow> bpf_hdr" where
  "read_bpf_hdr host b off =
     \<lparr>bh_tstamp_sec = field_u64 host b off, bh_tstamp_usec = field_u64 host b (off + 8),
      bh_caplen = field_u32 host b (off + 16), bh_datalen = field_u32 host b (off + 20),
      bh_hdrlen = field_u16 host b (off + 24)\<rparr>"

record mac_frame_meta =
  mf_start :: nat
  mf_end :: nat
  mf_ts_sec :: u64
  mf_ts_nsec :: u32
  mf_orig_len :: u32

definition word_align :: "nat \<Rightarrow> nat" where
  "word_align n = usize_and (usize_add n 3) (usize_not 3)"

definition parse_bpf_frame :: "endian \<Rightarrow> u8 list \<Rightarrow> nat \<Rightarrow> nat \<Rightarrow> nat \<Rightarrow> (mac_frame_meta \<times> nat) option" where
  "parse_bpf_frame host buf pos filled snaplen =
     (if filled < usize_add pos BPF_HDR_SIZE then None
      else
        let hdr = read_bpf_hdr host buf pos;
            data_start = usize_add pos (unat (bh_hdrlen hdr));
            cap = min (unat (bh_caplen hdr)) snaplen;
            data_end = usize_add data_start cap
        in if filled < data_end then None
           else
             let frame_len = usize_add (unat (bh_hdrlen hdr)) (unat (bh_caplen hdr));
                 next_pos = usize_add pos (word_align frame_len)
             in Some (\<lparr>mf_start = data_start, mf_end = data_end, mf_ts_sec = bh_tstamp_sec hdr,
                       mf_ts_nsec = ucast (bh_tstamp_usec hdr) * 1000, mf_orig_len = bh_datalen hdr\<rparr>, next_pos))"

definition mac_parse_next_frame :: "endian \<Rightarrow> mac_live \<Rightarrow> (mac_frame_meta \<times> mac_live) option" where
  "mac_parse_next_frame host s =
     map_option (\<lambda>(meta, next_pos). (meta, s\<lparr>ml_buf_pos := next_pos\<rparr>))
       (parse_bpf_frame host (ml_buf s) (ml_buf_pos s) (ml_buf_filled s) (ml_snaplen s))"

text \<open>The packet of a frame: the slice \<open>&self.buf[start..end]\<close>, which panics out of range.\<close>

definition mac_packet :: "mac_live \<Rightarrow> mac_frame_meta \<Rightarrow> 'p tap_error + packet_ref" where
  "mac_packet s meta =
     (if mf_start meta \<le> mf_end meta \<and> mf_end meta \<le> length (ml_buf s)
      then packet_ref_new (take (mf_end meta - mf_start meta) (drop (mf_start meta) (ml_buf s)))
             (mf_ts_sec meta) (mf_ts_nsec meta) (mf_orig_len meta) (ml_link_type s)
      else Inl (TapPanic ''slice index out of range''))"

text \<open>
  The loop of \<open>next_packet\<close>. \<open>dev_read\<close> is the system call \<open>read\<close>: the bytes it stores at the beginning of a buffer of the given
  length.
\<close>

partial_function (option) mac_next_packet ::
  "(nat \<Rightarrow> 'k \<Rightarrow> (io_error + u8 list) \<times> 'k) \<Rightarrow> endian \<Rightarrow> 'k \<times> mac_live \<Rightarrow>
   (('p tap_error + packet_ref option) \<times> 'k \<times> mac_live) option" where
  "mac_next_packet dev_read host ks =
     (case ks of (k, s) \<Rightarrow>
       (case (if ml_buf_pos s < ml_buf_filled s then mac_parse_next_frame host s else None) of
          Some (meta, s') \<Rightarrow> Some (rbind (mac_packet s' meta) (\<lambda>p. Inr (Some p)), k, s')
        | None \<Rightarrow>
            (case dev_read (length (ml_buf s)) k of
               (Inl e, k') \<Rightarrow>
                 if e = Interrupted then mac_next_packet dev_read host (k', s)
                 else if e = WouldBlockKind then Some (Inr None, k', s)
                 else Some (Inl (from_io e), k', s)
             | (Inr bytes, k') \<Rightarrow>
                 mac_next_packet dev_read host
                   (k', s\<lparr>ml_buf := bytes @ drop (length bytes) (ml_buf s), ml_buf_filled := length bytes, ml_buf_pos := 0\<rparr>))))"

section \<open>Injection\<close>

record mac_injector =
  mi_fd :: int
  mi_link_type :: link_type

definition mac_injector_open :: "mac_kernel \<Rightarrow> string \<Rightarrow> (mac_call, 'p, mac_injector) sys" where
  "mac_injector_open kern iface =
     sys_bind (open_bpf_device kern 0) (\<lambda>fd.
     sys_guard [MacClose fd] (
     sys_bind (mac_bind_interface kern fd iface) (\<lambda>_.
     sys_bind (sys_call kern (MacHeaderComplete fd 1)) (\<lambda>_.
     sys_bind (mac_set_filter kern fd [ret_k BPF_DROP]) (\<lambda>_.
     sys_bind (mac_device_link_type kern fd) (\<lambda>lt.
       sys_return \<lparr>mi_fd = fd, mi_link_type = lt\<rparr>))))))"

section \<open>Interfaces\<close>

text \<open>An element of the list of \<open>getifaddrs\<close>: its name, and the family and type of its address.\<close>

record ifaddr =
  ifa_name :: string
  ifa_addr :: "(int \<times> u8) option"

definition AF_LINK :: int where "AF_LINK = 18"

fun mac_link_type_walk :: "string \<Rightarrow> ifaddr list \<Rightarrow> link_type" where
  "mac_link_type_walk iface [] = Ethernet"
| "mac_link_type_walk iface (ifa # rest) =
     (case ifa_addr ifa of
        Some (family, sdl_type) \<Rightarrow>
          if ifa_name ifa = iface \<and> family = AF_LINK then (if sdl_type = 6 then Ethernet else Ethernet)
          else mac_link_type_walk iface rest
      | None \<Rightarrow> mac_link_type_walk iface rest)"

definition mac_query_link_type :: "io_error + ifaddr list \<Rightarrow> string \<Rightarrow> 'p tap_error + link_type" where
  "mac_query_link_type getifaddrs iface =
     (case getifaddrs of Inl e \<Rightarrow> Inl (from_io e) | Inr ifs \<Rightarrow> Inr (mac_link_type_walk iface ifs))"

fun push_names :: "ifaddr list \<Rightarrow> string list \<Rightarrow> string list" where
  "push_names [] names = names"
| "push_names (ifa # rest) names =
     push_names rest (if ifa_name ifa \<in> set names then names else names @ [ifa_name ifa])"

definition mac_list_interfaces :: "io_error + ifaddr list \<Rightarrow> 'p tap_error + string list" where
  "mac_list_interfaces getifaddrs =
     (case getifaddrs of Inl e \<Rightarrow> Inl (from_io e) | Inr ifs \<Rightarrow> Inr (push_names ifs []))"

definition mac_default_interface :: "io_error + ifaddr list \<Rightarrow> 'p tap_error + string" where
  "mac_default_interface getifaddrs =
     rbind (mac_list_interfaces getifaddrs) (\<lambda>names.
       case List.find (\<lambda>name. take 2 name \<noteq> ''lo'') names of
         Some name \<Rightarrow> Inr name
       | None \<Rightarrow> Inl (Platform ''no non-loopback interface found''))"

end
