(* ===== verification/Tap_Macos_Theorems.thy ===== *)
theory Tap_Macos_Theorems
  imports Tap_Macos
begin

text \<open>
  A BPF device as a source of packets: what a batch of frames in the read buffer is, that \<open>next_packet\<close> cuts the frames out in
  order across batches, and the calls that open a device.
\<close>

section \<open>Frames and batches\<close>

definition mac_hdr :: "endian \<Rightarrow> u8 list \<Rightarrow> bpf_hdr" where
  "mac_hdr host raw = read_bpf_hdr host raw 0"

text \<open>
  The bytes of a frame as the kernel lays them out: a header that gives its own length and that of the data behind it, with
  a time of which the microseconds are below a second.
\<close>

definition mac_frame_ok :: "endian \<Rightarrow> u8 list \<Rightarrow> bool" where
  "mac_frame_ok host raw \<longleftrightarrow>
     BPF_HDR_SIZE \<le> length raw \<and>
     length raw = unat (bh_hdrlen (mac_hdr host raw)) + unat (bh_caplen (mac_hdr host raw)) \<and>
     unat (bh_tstamp_sec (mac_hdr host raw)) < 2 ^ 63 \<and> unat (bh_tstamp_usec (mac_hdr host raw)) < 1000000"

definition mac_frame_packet :: "endian \<Rightarrow> nat \<Rightarrow> link_type \<Rightarrow> u8 list \<Rightarrow> packet_ref" where
  "mac_frame_packet host snaplen lt raw =
     (let hdr = mac_hdr host raw
      in \<lparr>pr_data = take snaplen (drop (unat (bh_hdrlen hdr)) raw),
          pr_timestamp = \<lparr>st_secs = uint (bh_tstamp_sec hdr), st_nanos = of_nat (unat (bh_tstamp_usec hdr) * 1000)\<rparr>,
          pr_orig_len = bh_datalen hdr, pr_link_type = lt\<rparr>)"

text \<open>A batch: frames, each followed by the padding to a word; the padding of the last may be cut.\<close>

definition mac_pad :: "u8 list \<Rightarrow> nat" where
  "mac_pad raw = (4 - length raw mod 4) mod 4"

fun mac_batch_ok :: "endian \<Rightarrow> (u8 list \<times> u8 list) list \<Rightarrow> bool" where
  "mac_batch_ok host [] = True"
| "mac_batch_ok host [(raw, pad)] = (mac_frame_ok host raw \<and> length pad \<le> mac_pad raw)"
| "mac_batch_ok host ((raw, pad) # rest) = (mac_frame_ok host raw \<and> length pad = mac_pad raw \<and> mac_batch_ok host rest)"

definition mac_batch_bytes :: "(u8 list \<times> u8 list) list \<Rightarrow> u8 list" where
  "mac_batch_bytes rps = concat (map (\<lambda>(raw, pad). raw @ pad) rps)"

lemma mac_batch_bytes_simps [simp]:
  "mac_batch_bytes [] = []" "mac_batch_bytes ((raw, pad) # rps) = raw @ pad @ mac_batch_bytes rps"
  by (simp_all add: mac_batch_bytes_def)

lemma mac_batch_ok_Cons:
  "mac_batch_ok host ((raw, pad) # rps) \<Longrightarrow>
     mac_frame_ok host raw \<and> mac_batch_ok host rps \<and> (if rps = [] then length pad \<le> mac_pad raw else length pad = mac_pad raw)"
  by (cases rps) auto

lemma round_up_4: "n + 3 - (n + 3) mod 4 = n + (4 - n mod 4) mod (4 :: nat)"
proof -
  have "n mod 4 < 4" by simp
  then consider "n mod 4 = 0" | "n mod 4 = 1" | "n mod 4 = 2" | "n mod 4 = 3" by linarith
  then show ?thesis by cases (simp_all add: mod_add_eq [of n 4, symmetric, simplified])
qed

lemma word_align_pad: "length raw + 3 < 2 ^ 64 \<Longrightarrow> word_align (length raw) = length raw + mac_pad raw"
  unfolding word_align_def mac_pad_def round_up_4 [symmetric] by (simp add: usize_align_4)

lemma fields_at:
  assumes "take (length raw) (drop pos buf) = raw"
  shows "off + 8 \<le> length raw \<Longrightarrow> field_u64 host buf (pos + off) = field_u64 host raw off"
    and "off + 4 \<le> length raw \<Longrightarrow> field_u32 host buf (pos + off) = field_u32 host raw off"
    and "off + 2 \<le> length raw \<Longrightarrow> field_u16 host buf (pos + off) = field_u16 host raw off"
proof -
  have "take n (drop (pos + off) buf) = take n (drop off raw)" if "off + n \<le> length raw" for n
    using that by (subst assms [symmetric]) (simp add: drop_take min_def add.commute)
  then show "off + 8 \<le> length raw \<Longrightarrow> field_u64 host buf (pos + off) = field_u64 host raw off"
    and "off + 4 \<le> length raw \<Longrightarrow> field_u32 host buf (pos + off) = field_u32 host raw off"
    and "off + 2 \<le> length raw \<Longrightarrow> field_u16 host buf (pos + off) = field_u16 host raw off"
    by (simp_all add: field_u64_def field_u32_def field_u16_def)
qed

lemma read_bpf_hdr_at:
  assumes "take (length raw) (drop pos buf) = raw" and "BPF_HDR_SIZE \<le> length raw"
  shows "read_bpf_hdr host buf pos = mac_hdr host raw"
  using assms(2) fields_at [OF assms(1), of 0] fields_at [OF assms(1), of 8] fields_at [OF assms(1), of 16]
    fields_at [OF assms(1), of 20] fields_at [OF assms(1), of 24]
  by (simp add: read_bpf_hdr_def mac_hdr_def BPF_HDR_SIZE_def)

section \<open>One frame\<close>

lemma parse_frame_at:
  assumes "mac_frame_ok host raw" and "take (length raw) (drop pos buf) = raw" and "pos + length raw \<le> filled"
    and "filled < 2 ^ 63"
  shows "parse_bpf_frame host buf pos filled snaplen =
    (let hdr = mac_hdr host raw; start = pos + unat (bh_hdrlen hdr)
     in Some (\<lparr>mf_start = start, mf_end = start + min (unat (bh_caplen hdr)) snaplen, mf_ts_sec = bh_tstamp_sec hdr,
          mf_ts_nsec = ucast (bh_tstamp_usec hdr) * 1000, mf_orig_len = bh_datalen hdr\<rparr>,
          pos + length raw + mac_pad raw))"
proof -
  note ok = assms(1) [unfolded mac_frame_ok_def]
  define hl where "hl = unat (bh_hdrlen (mac_hdr host raw))"
  define cl where "cl = unat (bh_caplen (mac_hdr host raw))"
  have l: "length raw = hl + cl" using ok by (simp add: hl_def cl_def)
  have p: "mac_pad raw < 4" by (simp add: mac_pad_def)
  have a: "word_align (hl + cl) = hl + cl + mac_pad raw" using word_align_pad [of raw] l assms(3,4) by simp
  have h: "BPF_HDR_SIZE \<le> hl + cl" using ok l by simp
  show ?thesis
    using read_bpf_hdr_at [OF assms(2)] ok l p a h assms(3,4)
    by (simp add: parse_bpf_frame_def Let_def hl_def [symmetric] cl_def [symmetric])
qed

lemma mac_frame_time:
  assumes "mac_frame_ok host raw" and "hdr = mac_hdr host raw"
  shows "packet_ref_new dat (bh_tstamp_sec hdr) (ucast (bh_tstamp_usec hdr) * 1000) len lt =
    Inr \<lparr>pr_data = dat, pr_timestamp = \<lparr>st_secs = uint (bh_tstamp_sec hdr), st_nanos = of_nat (unat (bh_tstamp_usec hdr) * 1000)\<rparr>,
      pr_orig_len = len, pr_link_type = lt\<rparr>"
proof -
  have u: "unat (bh_tstamp_usec hdr) < 1000000" and s: "unat (bh_tstamp_sec hdr) < 2 ^ 63"
    using assms by (simp_all add: mac_frame_ok_def)
  define us where "us = unat (bh_tstamp_usec hdr)"
  have w: "(ucast (bh_tstamp_usec hdr) * 1000 :: u32) = of_nat (us * 1000)" by (simp add: us_def of_nat_unat)
  have "unat (of_nat (us * 1000) :: u32) = us * 1000"
    using u by (simp add: us_def [symmetric] unat_of_nat take_bit_nat_eq_self del: of_nat_mult)
  then show ?thesis
    unfolding w us_def [symmetric] using u s
    by (simp add: packet_ref_new_def duration_new_def epoch_plus_def NANOS_PER_SEC_def us_def del: of_nat_mult)
qed

section \<open>Batches in the buffer\<close>

definition mac_at_batch :: "endian \<Rightarrow> mac_live \<Rightarrow> (u8 list \<times> u8 list) list \<Rightarrow> bool" where
  "mac_at_batch host s rps \<longleftrightarrow>
     ml_buf_filled s \<le> length (ml_buf s) \<and> length (ml_buf s) < 2 ^ 63 \<and> mac_batch_ok host rps \<and>
     (if rps = [] then ml_buf_filled s \<le> ml_buf_pos s
      else ml_buf_pos s \<le> ml_buf_filled s \<and>
           take (ml_buf_filled s - ml_buf_pos s) (drop (ml_buf_pos s) (ml_buf s)) = mac_batch_bytes rps)"

lemma at_batch_length:
  assumes "mac_at_batch host s rps" and "rps \<noteq> []"
  shows "ml_buf_pos s + length (mac_batch_bytes rps) = ml_buf_filled s"
proof -
  have t: "take (ml_buf_filled s - ml_buf_pos s) (drop (ml_buf_pos s) (ml_buf s)) = mac_batch_bytes rps"
    and l: "ml_buf_pos s \<le> ml_buf_filled s" "ml_buf_filled s \<le> length (ml_buf s)"
    using assms by (simp_all add: mac_at_batch_def)
  show ?thesis using l by (simp flip: t)
qed

lemma at_batch_frame:
  assumes "mac_at_batch host s ((raw, pad) # rps)"
  shows "take (length raw) (drop (ml_buf_pos s) (ml_buf s)) = raw"
    and "rps \<noteq> [] \<Longrightarrow> take (ml_buf_filled s - (ml_buf_pos s + length raw + length pad))
      (drop (ml_buf_pos s + length raw + length pad) (ml_buf s)) = mac_batch_bytes rps"
proof -
  let ?d = "drop (ml_buf_pos s) (ml_buf s)"
  have t: "take (ml_buf_filled s - ml_buf_pos s) ?d = raw @ pad @ mac_batch_bytes rps"
    using assms by (simp add: mac_at_batch_def)
  have f: "ml_buf_filled s - ml_buf_pos s = length raw + length pad + length (mac_batch_bytes rps)"
    using at_batch_length [OF assms] by simp
  have "take (length raw) (take (ml_buf_filled s - ml_buf_pos s) ?d) = raw" by (simp add: t)
  then show "take (length raw) ?d = raw" by (simp add: f min_def)
  have "drop (length raw + length pad) (take (ml_buf_filled s - ml_buf_pos s) ?d) = mac_batch_bytes rps" by (simp add: t)
  then show "take (ml_buf_filled s - (ml_buf_pos s + length raw + length pad))
      (drop (ml_buf_pos s + length raw + length pad) (ml_buf s)) = mac_batch_bytes rps"
    by (simp add: drop_take add.commute add.left_commute)
qed

lemma mac_parse_in_batch:
  assumes b: "mac_at_batch host s ((raw, pad) # rps)"
  shows "\<exists>meta s'. ml_buf_pos s < ml_buf_filled s \<and> mac_parse_next_frame host s = Some (meta, s') \<and>
    mac_packet s' meta = (Inr (mac_frame_packet host (ml_snaplen s) (ml_link_type s) raw) :: 'p tap_error + packet_ref) \<and>
    mac_at_batch host s' rps \<and> s' = s\<lparr>ml_buf_pos := ml_buf_pos s + length raw + mac_pad raw\<rparr>"
proof -
  have "mac_batch_ok host ((raw, pad) # rps)" using b unfolding mac_at_batch_def by blast
  note c = mac_batch_ok_Cons [OF this]
  then have ok: "mac_frame_ok host raw" "mac_batch_ok host rps" by blast+
  have pad: "if rps = [] then length pad \<le> mac_pad raw else length pad = mac_pad raw" using c by blast
  have buf: "ml_buf_filled s \<le> length (ml_buf s)" "length (ml_buf s) < 2 ^ 63" using b by (simp_all add: mac_at_batch_def)
  have len: "ml_buf_pos s + length raw + length pad + length (mac_batch_bytes rps) = ml_buf_filled s"
    using at_batch_length [OF b] by simp
  define hdr where "hdr = mac_hdr host raw"
  have hc: "length raw = unat (bh_hdrlen hdr) + unat (bh_caplen hdr)" "BPF_HDR_SIZE \<le> length raw"
    using ok(1) by (simp_all add: mac_frame_ok_def hdr_def)
  define s' where "s' = s\<lparr>ml_buf_pos := ml_buf_pos s + length raw + mac_pad raw\<rparr>"
  let ?start = "ml_buf_pos s + unat (bh_hdrlen hdr)"
  define meta where "meta = \<lparr>mf_start = ?start, mf_end = ?start + min (unat (bh_caplen hdr)) (ml_snaplen s),
    mf_ts_sec = bh_tstamp_sec hdr, mf_ts_nsec = ucast (bh_tstamp_usec hdr) * 1000, mf_orig_len = bh_datalen hdr\<rparr>"
  have ps: "mac_parse_next_frame host s = Some (meta, s')"
    using parse_frame_at [OF ok(1) at_batch_frame(1) [OF b], of "ml_buf_filled s" "ml_snaplen s"] len buf
    by (simp add: mac_parse_next_frame_def meta_def s'_def hdr_def Let_def)
  have "take (min (unat (bh_caplen hdr)) (ml_snaplen s)) (drop ?start (ml_buf s)) =
      take (ml_snaplen s) (drop (unat (bh_hdrlen hdr)) raw)"
    by (subst at_batch_frame(1) [OF b, symmetric]) (simp add: drop_take hc(1) min.commute add.commute)
  moreover have "?start + min (unat (bh_caplen hdr)) (ml_snaplen s) \<le> length (ml_buf s)" using len buf hc(1) by linarith
  ultimately have "mac_packet s' meta = (Inr (mac_frame_packet host (ml_snaplen s) (ml_link_type s) raw) :: 'p tap_error + packet_ref)"
    by (simp add: mac_packet_def meta_def s'_def mac_frame_time [OF ok(1) hdr_def] mac_frame_packet_def Let_def hdr_def [symmetric])
  moreover have "mac_at_batch host s' rps"
    using at_batch_frame(2) [OF b] pad len buf ok(2) by (auto simp: mac_at_batch_def s'_def)
  moreover have "ml_buf_pos s < ml_buf_filled s" using len hc(2) by (simp add: BPF_HDR_SIZE_def)
  ultimately show ?thesis using ps unfolding s'_def by blast
qed

section \<open>A device is a source of the frames of its batches\<close>

text \<open>
  A device in non-blocking mode whose reads are answered from a list: an interruption (\<open>None\<close>) or a batch, and \<open>EWOULDBLOCK\<close>
  when the list is used up.
\<close>

fun scripted_read :: "nat \<Rightarrow> (io_error + u8 list) list \<Rightarrow> (io_error + u8 list) \<times> (io_error + u8 list) list" where
  "scripted_read n [] = (Inl WouldBlockKind, [])"
| "scripted_read n (a # as) = (a, as)"

definition mac_answer :: "(u8 list \<times> u8 list) list option \<Rightarrow> io_error + u8 list" where
  "mac_answer b = (case b of None \<Rightarrow> Inl Interrupted | Some rps \<Rightarrow> Inr (mac_batch_bytes rps))"

definition mac_frames :: "(u8 list \<times> u8 list) list option list \<Rightarrow> u8 list list" where
  "mac_frames bs = concat (map (\<lambda>b. case b of None \<Rightarrow> [] | Some rps \<Rightarrow> map fst rps) bs)"

definition mac_script_ok :: "endian \<Rightarrow> nat \<Rightarrow> (u8 list \<times> u8 list) list option list \<Rightarrow> bool" where
  "mac_script_ok host n bs \<longleftrightarrow>
     list_all (\<lambda>b. case b of None \<Rightarrow> True | Some rps \<Rightarrow> mac_batch_ok host rps \<and> length (mac_batch_bytes rps) \<le> n) bs"

definition mac_holds :: "endian \<Rightarrow> (io_error + u8 list) list \<times> mac_live \<Rightarrow> packet_ref list \<Rightarrow> bool" where
  "mac_holds host ks ps \<longleftrightarrow>
     (case ks of (script, s) \<Rightarrow> \<exists>rps bs. mac_at_batch host s rps \<and> script = map mac_answer bs \<and>
        mac_script_ok host (length (ml_buf s)) bs \<and>
        ps = map (mac_frame_packet host (ml_snaplen s) (ml_link_type s)) (map fst rps @ mac_frames bs))"

lemma mac_next_in_batch:
  assumes "mac_at_batch host s ((raw, pad) # rps)" and "script = map mac_answer bs" and "mac_script_ok host (length (ml_buf s)) bs"
  shows "\<exists>ks'. mac_next_packet scripted_read host (script, s) =
      Some (Inr (Some (mac_frame_packet host (ml_snaplen s) (ml_link_type s) raw)) :: 'p tap_error + packet_ref option, ks') \<and>
    mac_holds host ks' (map (mac_frame_packet host (ml_snaplen s) (ml_link_type s)) (map fst rps @ mac_frames bs))"
proof -
  obtain meta s' where p: "ml_buf_pos s < ml_buf_filled s" "mac_parse_next_frame host s = Some (meta, s')"
    "mac_packet s' meta = (Inr (mac_frame_packet host (ml_snaplen s) (ml_link_type s) raw) :: 'p tap_error + packet_ref)"
    "mac_at_batch host s' rps" "s' = s\<lparr>ml_buf_pos := ml_buf_pos s + length raw + mac_pad raw\<rparr>"
    using mac_parse_in_batch [OF assms(1)] by blast
  have "mac_next_packet scripted_read host (script, s) =
      Some (Inr (Some (mac_frame_packet host (ml_snaplen s) (ml_link_type s) raw)) :: 'p tap_error + packet_ref option, script, s')"
    by (subst mac_next_packet.simps) (simp add: p(1-3))
  moreover have "mac_holds host (script, s') (map (mac_frame_packet host (ml_snaplen s) (ml_link_type s)) (map fst rps @ mac_frames bs))"
    unfolding mac_holds_def prod.case by (intro exI conjI, rule p(4), rule assms(2)) (simp_all add: p(5) assms(3))
  ultimately show ?thesis by blast
qed

text \<open>With an empty buffer the loop reads until a batch with a frame arrives.\<close>

lemma mac_next_read:
  assumes "mac_at_batch host s []" and "mac_script_ok host (length (ml_buf s)) bs"
  shows "case mac_frames bs of
      [] \<Rightarrow> \<exists>ks'. mac_next_packet scripted_read host (map mac_answer bs, s) = Some (Inr None :: 'p tap_error + packet_ref option, ks')
    | raw # raws \<Rightarrow> \<exists>ks'. mac_next_packet scripted_read host (map mac_answer bs, s) =
          Some (Inr (Some (mac_frame_packet host (ml_snaplen s) (ml_link_type s) raw)) :: 'p tap_error + packet_ref option, ks') \<and>
        mac_holds host ks' (map (mac_frame_packet host (ml_snaplen s) (ml_link_type s)) raws)"
  using assms
proof (induction bs arbitrary: s)
  case Nil
  then show ?case by (subst mac_next_packet.simps) (simp add: mac_at_batch_def mac_frames_def)
next
  case (Cons b bs)
  have np: "\<not> ml_buf_pos s < ml_buf_filled s" using Cons.prems(1) by (simp add: mac_at_batch_def)
  show ?case
  proof (cases b)
    case None
    have e: "mac_next_packet scripted_read host (map mac_answer (b # bs), s) =
        (mac_next_packet scripted_read host (map mac_answer bs, s) :: (('p tap_error + packet_ref option) \<times> _) option)"
      by (subst mac_next_packet.simps) (simp add: np None mac_answer_def)
    have fr: "mac_frames (b # bs) = mac_frames bs" by (simp add: mac_frames_def None)
    have "mac_script_ok host (length (ml_buf s)) bs" using Cons.prems(2) by (simp add: mac_script_ok_def)
    then show ?thesis unfolding e fr by (rule Cons.IH [OF Cons.prems(1)])
  next
    case (Some rps)
    let ?B = "mac_batch_bytes rps"
    define s1 where "s1 = s\<lparr>ml_buf := ?B @ drop (length ?B) (ml_buf s), ml_buf_filled := length ?B, ml_buf_pos := 0\<rparr>"
    have ok: "mac_batch_ok host rps" "length ?B \<le> length (ml_buf s)" "mac_script_ok host (length (ml_buf s)) bs"
      using Cons.prems(2) Some by (simp_all add: mac_script_ok_def)
    have l: "length (ml_buf s1) = length (ml_buf s)" and f: "ml_snaplen s1 = ml_snaplen s" "ml_link_type s1 = ml_link_type s"
      using ok(2) by (simp_all add: s1_def)
    have b1: "mac_at_batch host s1 rps" using ok Cons.prems(1) by (auto simp: mac_at_batch_def s1_def)
    have e: "mac_next_packet scripted_read host (map mac_answer (b # bs), s) =
        (mac_next_packet scripted_read host (map mac_answer bs, s1) :: (('p tap_error + packet_ref option) \<times> _) option)"
      by (subst mac_next_packet.simps) (simp add: np Some mac_answer_def s1_def)
    have fr: "mac_frames (b # bs) = map fst rps @ mac_frames bs" by (simp add: mac_frames_def Some)
    show ?thesis
    proof (cases rps)
      case Nil
      then show ?thesis using Cons.IH [of s1] b1 ok(3) by (simp only: e fr l f list.map(1) append_Nil)
    next
      case (Cons rp rps')
      obtain raw pad where rp: "rp = (raw, pad)" by (cases rp)
      show ?thesis unfolding e fr
        using mac_next_in_batch [of host s1 raw pad rps' "map mac_answer bs" bs] b1 ok(3) l f Cons rp by simp
    qed
  qed
qed

interpretation mac_source: packet_source "mac_next_packet scripted_read host" "mac_holds host" for host
proof (unfold_locales, goal_cases)
  case (1 s)
  then obtain script t bs where s: "s = (script, t)" "mac_at_batch host t []" "script = map mac_answer bs"
    "mac_script_ok host (length (ml_buf t)) bs" "mac_frames bs = []"
    by (cases s) (auto simp: mac_holds_def)
  then show ?case using mac_next_read [OF s(2,4)] by simp
next
  case (2 s p ps)
  then obtain script t rps bs where s: "s = (script, t)" "mac_at_batch host t rps" "script = map mac_answer bs"
    "mac_script_ok host (length (ml_buf t)) bs"
    "p # ps = map (mac_frame_packet host (ml_snaplen t) (ml_link_type t)) (map fst rps @ mac_frames bs)"
    by (cases s) (auto simp: mac_holds_def)
  show ?case
  proof (cases rps)
    case Nil
    then obtain raw raws where "mac_frames bs = raw # raws" using s(5) by (cases "mac_frames bs") auto
    then show ?thesis using mac_next_read [OF s(2) [unfolded Nil] s(4)] s(1,3,5) Nil by auto
  next
    case (Cons rp rps')
    obtain raw pad where rp: "rp = (raw, pad)" by (cases rp)
    then show ?thesis using mac_next_in_batch [OF s(2) [unfolded Cons rp] s(3,4)] s(1,5) Cons by auto
  qed
qed

section \<open>Opening a device\<close>

text \<open>The search for a free device asks for the devices in order and stops at the first that is not busy.\<close>

lemma open_bpf_device_runs:
  assumes "n \<le> 256"
  shows "\<exists>m. n \<le> m \<and> m \<le> 256 \<and>
    (let busy = map (\<lambda>i. MacOpen (''/dev/bpf'' @ show_nat i)) [n..<m]
     in (\<exists>fd. m < 256 \<and> open_bpf_device kern n h = (Inr fd :: 'p tap_error + int, h @ busy @ [MacOpen (''/dev/bpf'' @ show_nat m)]) \<and>
           kern (h @ busy) (MacOpen (''/dev/bpf'' @ show_nat m)) = Inr fd) \<or>
        open_bpf_device kern n h = (Inl (Platform ''no available /dev/bpf device found'') :: 'p tap_error + int, h @ busy))"
  using assms
proof (induction "256 - n" arbitrary: n h)
  case 0
  then show ?case by (intro exI [of _ n]) (simp add: open_bpf_device.simps [of kern 256] sys_defs)
next
  case (Suc d)
  then have n: "n < 256" by simp
  let ?c = "MacOpen (''/dev/bpf'' @ show_nat n)"
  consider (ok) fd where "kern h ?c = Inr fd" | (busy) "kern h ?c = Inl (OtherIo EBUSY)" | (err) e where "kern h ?c = Inl e" "e \<noteq> OtherIo EBUSY"
    by (cases "kern h ?c") auto
  then show ?case
  proof cases
    case ok
    then show ?thesis using n by (intro exI [of _ n]) (simp add: open_bpf_device.simps [of kern n] sys_defs)
  next
    case err
    then show ?thesis using n by (intro exI [of _ "Suc n"]) (simp add: open_bpf_device.simps [of kern n] sys_defs)
  next
    case busy
    have e: "open_bpf_device kern n h = (open_bpf_device kern (Suc n) (h @ [?c]) :: ('p tap_error + int) \<times> _)"
      using n busy by (simp add: open_bpf_device.simps [of kern n] sys_defs)
    have "d = 256 - Suc n" "Suc n \<le> 256" using Suc.hyps(2) n by simp_all
    then obtain m where "Suc n \<le> m" "m \<le> 256" and m: "let busy = map (\<lambda>i. MacOpen (''/dev/bpf'' @ show_nat i)) [Suc n..<m]
      in (\<exists>fd. m < 256 \<and> open_bpf_device kern (Suc n) (h @ [?c]) =
            (Inr fd :: 'p tap_error + int, (h @ [?c]) @ busy @ [MacOpen (''/dev/bpf'' @ show_nat m)]) \<and>
            kern ((h @ [?c]) @ busy) (MacOpen (''/dev/bpf'' @ show_nat m)) = Inr fd) \<or>
         open_bpf_device kern (Suc n) (h @ [?c]) = (Inl (Platform ''no available /dev/bpf device found'') :: 'p tap_error + int, (h @ [?c]) @ busy)"
      using Suc.hyps(1) [of "Suc n" "h @ [?c]"] by blast
    moreover have "[n..<m] = n # [Suc n..<m]" using \<open>Suc n \<le> m\<close> by (simp add: upt_conv_Cons)
    ultimately show ?thesis unfolding e by (intro exI [of _ m]) (simp add: Let_def)
  qed
qed

lemma mac_open_live:
  assumes "mac_open kern iface prog snaplen promiscuous mode h = (Inr live, calls)"
  shows "mac_at_batch host live []" and "ml_snaplen live = unat snaplen"
proof -
  have l: "unat (w :: u32) < 2 ^ 63" for w using unsigned_less [where 'a = nat, of w] by simp
  have "length (ml_buf live) < 2 ^ 63 \<and> ml_buf_filled live = 0 \<and> ml_buf_pos live = 0 \<and> ml_snaplen live = unat snaplen"
    using assms l by (auto simp: mac_open_def sys_bind_def sys_guard_def sys_return_def Let_def split: prod.splits sum.splits)
  then show "mac_at_batch host live []" "ml_snaplen live = unat snaplen" by (simp_all add: mac_at_batch_def)
qed

text \<open>A capture that cannot be opened leaves no device open.\<close>

lemma mac_open_error_closes:
  assumes "mac_open kern iface prog snaplen promiscuous mode h = (Inl e :: 'p tap_error + mac_live, calls)"
  shows "open_bpf_device kern 0 h = (Inl e, calls) \<or>
    (\<exists>fd h' rest. open_bpf_device kern 0 h = (Inr fd :: 'p tap_error + int, h') \<and> calls = rest @ [MacClose fd])"
  using assms by (auto simp: mac_open_def sys_bind_def [of "open_bpf_device kern 0"] sys_guard_def split: prod.splits sum.splits)

section \<open>Interfaces\<close>

lemma push_names_distinct:
  "distinct names \<Longrightarrow> distinct (push_names ifs names) \<and> set (push_names ifs names) = set names \<union> ifa_name ` set ifs"
  by (induction ifs names rule: push_names.induct) auto

text \<open>Interfaces are listed once each, and the default is one of them that is no loopback.\<close>

lemma mac_default_interface_listed:
  assumes "mac_default_interface (Inr ifs) = Inr name"
  shows "name \<in> ifa_name ` set ifs \<and> take 2 name \<noteq> ''lo''"
  using assms push_names_distinct [of "[]" ifs]
  by (auto simp: mac_default_interface_def mac_list_interfaces_def find_Some_iff split: option.splits)

text \<open>
  The link type for which the filter is compiled is Ethernet for every interface, also where the opened device reports another one.
\<close>

lemma mac_query_link_type_ethernet: "mac_query_link_type (Inr ifs) iface = Inr Ethernet"
proof -
  have "mac_link_type_walk iface ifs = Ethernet" by (induction iface ifs rule: mac_link_type_walk.induct) (auto split: option.splits)
  then show ?thesis by (simp add: mac_query_link_type_def)
qed

section \<open>Properties\<close>


text \<open>Two frames in one read after an interruption, the second cut to the snap length of four bytes.\<close>

definition mac_sample_kernel :: mac_kernel where
  "mac_sample_kernel h c = (case c of MacOpen dev \<Rightarrow> Inr 3 | MacGetDlt fd \<Rightarrow> Inr 1 | _ \<Rightarrow> Inr 0)"

definition mac_sample_frame :: "u8 \<Rightarrow> u8 list \<Rightarrow> u8 list" where
  "mac_sample_frame sec payload =
     [sec, 0, 0, 0, 0, 0, 0, 0, 5, 0, 0, 0, 0, 0, 0, 0, of_nat (length payload), 0, 0, 0, 100, 0, 0, 0, 26, 0] @ payload"


end
