(* ===== verification/Tap_Windows.thy ===== *)
theory Tap_Windows
  imports Tap_Sys Frontend
begin

text \<open>
  \<^verbatim>\<open>pkttap/src/live/windows.rs\<close>: capture and injection through the Npcap library, which is loaded at run time. The library
  is a parameter: whether it could be loaded, and what its functions answer to a list of calls. An error of it is a text.
\<close>

section \<open>Calls of the library\<close>

datatype win_call =
  WinFindAllDevs
| WinFreeAllDevs
| WinOpenLive string u32 u32 u32
| WinDatalink int
| WinSetFilter int u32 "insn list"
| WinSetNonblock int u32
| WinSend int "u8 list"
| WinClose int

text \<open>A device in the list of \<open>pcap_findalldevs\<close>; null pointers are \<open>None\<close>.\<close>

record pcap_if =
  pi_name :: "string option"
  pi_description :: "string option"

text \<open>
  The library: its loading (\<open>npcap\<close>), its answers, the data link type of a handle, the devices it lists, and the lower-casing of the standard library, which
  follows the Unicode tables.
\<close>

record win_lib =
  wl_load :: "string option"
  wl_answer :: "win_call list \<Rightarrow> win_call \<Rightarrow> string + int"
  wl_datalink :: "win_call list \<Rightarrow> int \<Rightarrow> u32"
  wl_devices :: "win_call list \<Rightarrow> pcap_if list"
  wl_lower :: "string \<Rightarrow> string"

definition npcap :: "win_lib \<Rightarrow> (win_call, 'p, unit) sys" where
  "npcap L =
     (case wl_load L of
        Some e \<Rightarrow> sys_fail (Platform (''Npcap not available: '' @ e))
      | None \<Rightarrow> sys_return ())"

text \<open>A call that reports its error by a text, under the name of the function.\<close>

definition win_call_named :: "win_lib \<Rightarrow> string \<Rightarrow> win_call \<Rightarrow> (win_call, 'p, int) sys" where
  "win_call_named L name c h =
     (case wl_answer L h c of
        Inl msg \<Rightarrow> (Inl (Platform (name @ '' failed: '' @ msg)), h @ [c])
      | Inr a \<Rightarrow> (Inr a, h @ [c]))"

section \<open>Devices\<close>

definition or_empty :: "string option \<Rightarrow> string" where
  "or_empty s = (case s of Some t \<Rightarrow> t | None \<Rightarrow> [])"

fun find_device :: "(string \<Rightarrow> string) \<Rightarrow> string \<Rightarrow> pcap_if list \<Rightarrow> string option" where
  "find_device lower iface_lower [] = None"
| "find_device lower iface_lower (dev # rest) =
     (if lower (or_empty (pi_description dev)) = iface_lower \<or> lower (or_empty (pi_name dev)) = iface_lower
      then Some (or_empty (pi_name dev)) else find_device lower iface_lower rest)"

definition starts_with :: "string \<Rightarrow> string \<Rightarrow> bool" where
  "starts_with p s \<longleftrightarrow> take (length p) s = p"

definition BACKSLASH :: char where "BACKSLASH = CHR 0x5C"

definition resolve_device_name :: "(string \<Rightarrow> string) \<Rightarrow> pcap_if list \<Rightarrow> string \<Rightarrow> string option" where
  "resolve_device_name lower alldevs iface =
     (if starts_with (BACKSLASH # ''Device'' @ [BACKSLASH]) iface \<or>
         starts_with (BACKSLASH # BACKSLASH # ''Device'' @ [BACKSLASH]) iface
      then Some iface else find_device lower (lower iface) alldevs)"

fun friendly_names :: "pcap_if list \<Rightarrow> string list" where
  "friendly_names [] = []"
| "friendly_names (dev # rest) =
     (let friendly = (case pi_description dev of Some d \<Rightarrow> d | None \<Rightarrow> or_empty (pi_name dev))
      in if friendly = [] then friendly_names rest else friendly # friendly_names rest)"

definition alldevs_to_vec :: "win_lib \<Rightarrow> (win_call, 'p, pcap_if list \<times> string list) sys" where
  "alldevs_to_vec L =
     sys_bind (win_call_named L ''pcap_findalldevs'' WinFindAllDevs) (\<lambda>_ h.
       (Inr (wl_devices L h, friendly_names (wl_devices L h)), h))"

text \<open>A call without an answer.\<close>

definition win_release :: "win_call \<Rightarrow> (win_call, 'p, unit) sys" where
  "win_release c h = (Inr (), h @ [c])"

definition find_device_name :: "win_lib \<Rightarrow> string \<Rightarrow> (win_call, 'p, string) sys" where
  "find_device_name L iface =
     sys_bind (alldevs_to_vec L) (\<lambda>(alldevs, names).
     sys_bind (win_release WinFreeAllDevs) (\<lambda>_.
       case resolve_device_name (wl_lower L) alldevs iface of
         None \<Rightarrow> sys_fail (Platform (''interface not found: '' @ iface))
       | Some name \<Rightarrow>
           if CHR 0x00 \<in> set name then sys_fail (Platform ''invalid interface name'') else sys_return name))"

definition win_open_device :: "win_lib \<Rightarrow> string \<Rightarrow> u32 \<Rightarrow> bool \<Rightarrow> (win_call, 'p, int) sys" where
  "win_open_device L iface snaplen promiscuous =
     sys_bind (find_device_name L iface) (\<lambda>name.
       win_call_named L ''pcap_open_live'' (WinOpenLive name snaplen (if promiscuous then 1 else 0) 100))"

definition win_set_filter :: "win_lib \<Rightarrow> int \<Rightarrow> insn list \<Rightarrow> (win_call, 'p, int) sys" where
  "win_set_filter L handle prog = win_call_named L ''pcap_setfilter'' (WinSetFilter handle (of_nat (length prog)) prog)"

definition win_datalink :: "win_lib \<Rightarrow> int \<Rightarrow> (win_call, 'p, link_type) sys" where
  "win_datalink L handle h = (Inr (dlt_to_link_type (wl_datalink L h handle)), h @ [WinDatalink handle])"

definition win_query_link_type :: "win_lib \<Rightarrow> string \<Rightarrow> (win_call, 'p, link_type) sys" where
  "win_query_link_type L iface =
     sys_bind (npcap L) (\<lambda>_.
     sys_bind (win_open_device L iface 65535 False) (\<lambda>handle.
     sys_bind (win_datalink L handle) (\<lambda>lt.
     sys_bind (win_release (WinClose handle)) (\<lambda>_. sys_return lt))))"

definition win_list_interfaces :: "win_lib \<Rightarrow> (win_call, 'p, string list) sys" where
  "win_list_interfaces L =
     sys_bind (npcap L) (\<lambda>_.
     sys_bind (alldevs_to_vec L) (\<lambda>(alldevs, names).
     sys_bind (win_release WinFreeAllDevs) (\<lambda>_. sys_return names)))"

definition win_default_interface :: "win_lib \<Rightarrow> (win_call, 'p, string) sys" where
  "win_default_interface L =
     sys_bind (win_list_interfaces L) (\<lambda>names.
       case names of name # rest \<Rightarrow> sys_return name | [] \<Rightarrow> sys_fail (Platform ''no interfaces found''))"

section \<open>The capture\<close>

record win_live =
  wi_handle :: int
  wi_snaplen :: nat
  wi_link_type :: link_type
  wi_nonblocking :: bool

definition win_open :: "win_lib \<Rightarrow> string \<Rightarrow> program option \<Rightarrow> u32 \<Rightarrow> bool \<Rightarrow> timestamp_mode \<Rightarrow> (win_call, 'p, win_live) sys" where
  "win_open L iface prog snaplen promiscuous mode =
     sys_bind (npcap L) (\<lambda>_.
     sys_bind (win_open_device L iface snaplen promiscuous) (\<lambda>handle.
     sys_bind (win_datalink L handle) (\<lambda>lt.
     sys_bind (case prog of
         Some p \<Rightarrow> sys_guard [WinClose handle] (win_set_filter L handle (instructions p))
       | None \<Rightarrow> sys_return 0) (\<lambda>_.
       sys_return \<lparr>wi_handle = handle, wi_snaplen = unat snaplen, wi_link_type = lt, wi_nonblocking = False\<rparr>))))"

definition win_stats :: "win_lib \<Rightarrow> string + u32 \<times> u32 \<times> u32 \<Rightarrow> 'p tap_error + capture_stats" where
  "win_stats L ans =
     (case wl_load L of
        Some e \<Rightarrow> Inl (Platform (''Npcap not available: '' @ e))
      | None \<Rightarrow>
          (case ans of
             Inl msg \<Rightarrow> Inl (Platform (''pcap_stats failed: '' @ msg))
           | Inr (recv, drops, ifdrops) \<Rightarrow>
               Inr \<lparr>cs_received = ucast recv, cs_dropped = ucast drops, cs_if_dropped = ucast ifdrops\<rparr>))"

definition win_set_nonblocking :: "win_lib \<Rightarrow> bool \<Rightarrow> win_live \<Rightarrow> (win_call, 'p, win_live) sys" where
  "win_set_nonblocking L nb live =
     sys_bind (npcap L) (\<lambda>_.
     sys_bind (win_call_named L ''pcap_setnonblock'' (WinSetNonblock (wi_handle live) (if nb then 1 else 0))) (\<lambda>_.
       sys_return (live\<lparr>wi_nonblocking := nb\<rparr>)))"

section \<open>Receiving\<close>

record pkthdr =
  ph_tv_sec :: "32 word"
  ph_tv_usec :: "32 word"
  ph_caplen :: u32
  ph_len :: u32

text \<open>What \<open>pcap_next_ex\<close> answers: 1 with a header and data, 0, or an error.\<close>

datatype next_ex = NextPacket pkthdr "u8 list" | NextNone | NextError string

partial_function (option) win_next_packet ::
  "('k \<Rightarrow> next_ex \<times> 'k) \<Rightarrow> 'k \<times> win_live \<Rightarrow> (('p tap_error + packet_ref option) \<times> 'k \<times> win_live) option" where
  "win_next_packet next_ex ks =
     (case ks of (k, live) \<Rightarrow>
       (case next_ex k of
          (NextPacket hdr dat, k') \<Rightarrow>
            let cap = min (unat (ph_caplen hdr)) (wi_snaplen live)
            in Some (rbind (packet_ref_new (take cap dat) (scast (ph_tv_sec hdr)) (ph_tv_usec hdr * 1000) (ph_len hdr) (wi_link_type live))
                 (\<lambda>p. Inr (Some p)), k', live)
        | (NextNone, k') \<Rightarrow> if wi_nonblocking live then Some (Inr None, k', live) else win_next_packet next_ex (k', live)
        | (NextError msg, k') \<Rightarrow> Some (Inl (Platform (''pcap_next_ex failed: '' @ msg)), k', live)))"

section \<open>Injection\<close>

record win_injector =
  wj_handle :: int
  wj_buf :: "u8 list"
  wj_link_type :: link_type

definition win_injector_open :: "win_lib \<Rightarrow> string \<Rightarrow> (win_call, 'p, win_injector) sys" where
  "win_injector_open L iface =
     sys_bind (npcap L) (\<lambda>_.
     sys_bind (win_open_device L iface 65535 False) (\<lambda>handle.
     sys_bind (sys_guard [WinClose handle] (win_set_filter L handle [ret_k BPF_DROP])) (\<lambda>_.
     sys_bind (win_datalink L handle) (\<lambda>lt.
       sys_return \<lparr>wj_handle = handle, wj_buf = [], wj_link_type = lt\<rparr>))))"

text \<open>\<open>send\<close>: the frame is copied into the buffer of the injector, which keeps it.\<close>

definition win_send :: "win_lib \<Rightarrow> u8 list \<Rightarrow> win_injector \<Rightarrow> win_call list \<Rightarrow> ('p tap_error + nat) \<times> win_injector \<times> win_call list" where
  "win_send L bytes tx h =
     (if 2 ^ 31 \<le> length bytes then (Inl (Platform (''frame too large: '' @ show_nat (length bytes) @ '' bytes'')), tx, h)
      else
        (case wl_load L of
           Some e \<Rightarrow> (Inl (Platform (''Npcap not available: '' @ e)), tx, h)
         | None \<Rightarrow>
             let tx' = tx\<lparr>wj_buf := bytes\<rparr>
             in (case win_call_named L ''pcap_sendpacket'' (WinSend (wj_handle tx') (wj_buf tx')) h of
                   (Inl e, h') \<Rightarrow> (Inl e, tx', h')
                 | (Inr a, h') \<Rightarrow> (Inr (length bytes), tx', h'))))"

section \<open>A session is a source of packets\<close>

text \<open>A session in non-blocking mode with packets ready.\<close>

fun scripted_next :: "(pkthdr \<times> u8 list) list \<Rightarrow> next_ex \<times> (pkthdr \<times> u8 list) list" where
  "scripted_next [] = (NextNone, [])"
| "scripted_next ((hdr, dat) # rest) = (NextPacket hdr dat, rest)"

definition win_result :: "win_live \<Rightarrow> pkthdr \<times> u8 list \<Rightarrow> 'p tap_error + packet_ref" where
  "win_result live = (\<lambda>(hdr, dat).
     packet_ref_new (take (min (unat (ph_caplen hdr)) (wi_snaplen live)) dat) (scast (ph_tv_sec hdr)) (ph_tv_usec hdr * 1000)
       (ph_len hdr) (wi_link_type live))"

definition win_holds :: "'p itself \<Rightarrow> (pkthdr \<times> u8 list) list \<times> win_live \<Rightarrow> packet_ref list \<Rightarrow> bool" where
  "win_holds p s ps \<longleftrightarrow>
     (case s of (script, live) \<Rightarrow> wi_nonblocking live \<and> map (win_result live) script = (map Inr ps :: ('p tap_error + packet_ref) list))"

interpretation win_source: packet_source
  "win_next_packet scripted_next :: _ \<Rightarrow> (('p tap_error + packet_ref option) \<times> _) option" "win_holds TYPE('p)"
proof (unfold_locales, goal_cases)
  case (1 s)
  then show ?case by (cases s) (auto simp: win_holds_def win_next_packet.simps)
next
  case (2 s p ps)
  then obtain script live hdr dat where s: "s = ((hdr, dat) # script, live)" "wi_nonblocking live"
    "win_result live (hdr, dat) = (Inr p :: 'p tap_error + packet_ref)"
    "map (win_result live) script = (map Inr ps :: ('p tap_error + packet_ref) list)"
    unfolding win_holds_def by (cases s) (auto simp: map_eq_Cons_conv)
  then show ?case by (subst win_next_packet.simps) (simp add: win_holds_def win_result_def Let_def)
qed

text \<open>A capture that cannot be opened leaves no handle open.\<close>

lemma win_open_error_closes:
  assumes "win_open L iface prog snaplen promiscuous mode h = (Inl e :: 'p tap_error + win_live, calls)" and "win_open_device L iface snaplen promiscuous h = (Inr handle :: 'p tap_error + int, h')"
    and "wl_load L = None"
  shows "\<exists>rest. calls = rest @ [WinClose handle]"
  using assms
  by (auto simp: win_open_def npcap_def sys_bind_def sys_guard_def sys_return_def win_datalink_def split: prod.splits sum.splits option.splits)

lemma win_send_too_large:
  "fst (win_send L bytes tx h) = Inr n \<Longrightarrow> n = length bytes \<and> length bytes < 2 ^ 31"
  by (auto simp: win_send_def Let_def split: if_splits option.splits prod.splits sum.splits)

end
