(* ===== verification/Spec2Isabelle.thy ===== *)
theory Spec2Isabelle
  imports Bpf_Display Dedup_Correct Tap_Ring_Theorems Tap_File_Theorems Tap_Capture_Theorems Tap_Macos_Theorems Tap_Windows
begin

text \<open>
  Verification of \<^verbatim>\<open>pktbaffle\<close>, a compiler from libpcap filter expressions to classic BPF programs and to
  extended BPF programs for the XDP hook, and of \<^verbatim>\<open>pkttap\<close>, a library that captures packets with such filters from
  interfaces and files, writes capture files and sends frames.

  \<^bold>\<open>The program.\<close> \<^verbatim>\<open>lib.rs\<close> \<open>compile\<close> scans the text (\<^verbatim>\<open>lexer.rs\<close>), parses the tokens (\<^verbatim>\<open>parser.rs\<close>)
  into the tree of \<^verbatim>\<open>ast.rs\<close>, generates instructions (\<^verbatim>\<open>codegen.rs\<close>) and shortens them (\<^verbatim>\<open>optimizer.rs\<close>).
  A program (\<^verbatim>\<open>bpf.rs\<close>) is encoded for the kernel or run by the interpreter (\<^verbatim>\<open>vm.rs\<close>). For the extended target
  \<^verbatim>\<open>ebpf_codegen.rs\<close> generates instructions of \<^verbatim>\<open>ebpf.rs\<close> from the same tree; the repository executes them with the
  interpreter of its tests, \<^verbatim>\<open>tests/common/ebpf_interp.rs\<close>.

  In \<^verbatim>\<open>pkttap\<close>, \<^verbatim>\<open>capture.rs\<close> builds a capture: it compiles the filter for the link type of its source and opens a
  capture file (\<^verbatim>\<open>file.rs\<close>) or an interface. On Linux (\<^verbatim>\<open>live/linux.rs\<close>) this is a packet socket, read with \<open>recvmsg\<close> or through a
  ring shared with the kernel (\<^verbatim>\<open>live/linux_ring.rs\<close>, \<^verbatim>\<open>ring.rs\<close>); on macOS a BPF device (\<^verbatim>\<open>live/macos.rs\<close>); on Windows a session
  of the Npcap library (\<^verbatim>\<open>live/windows.rs\<close>). All deliver \<open>PacketRef\<close>s (\<^verbatim>\<open>packet.rs\<close>). \<^verbatim>\<open>fanout.rs\<close> opens groups of sockets,
  \<^verbatim>\<open>inject.rs\<close> sends, \<^verbatim>\<open>dump.rs\<close> writes capture files.

  \<^bold>\<open>The theories.\<close>
  \<^item> \<open>Prelude\<close>: machine integers as words, results as sums with \<open>rbind\<close> for \<open>?\<close>, byte order.
    \<open>Error\<close>: \<^verbatim>\<open>error.rs\<close>; its \<open>Panic\<close> is a value of the model only, for \<open>expect\<close>, \<open>unwrap\<close>, indexing out
    of range and exhausted fuel, so that their absence can be proved.
  \<^item> \<open>Bpf\<close>: \<^verbatim>\<open>bpf.rs\<close>, opcodes, instruction constructors, the wire form (locale \<open>wire_format\<close>);
    \<open>Bpf_Display\<close>: the listing of programs, one line per instruction.
    \<open>Vm\<close>: \<^verbatim>\<open>vm.rs\<close>, one step and the loop; program counters only grow (locale \<open>forward_machine\<close>), so as much fuel
    as the program has instructions is enough and \<open>vm_inner\<close> is total.
  \<^item> \<open>Optimizer\<close>: \<^verbatim>\<open>optimizer.rs\<close>. \<open>Flow\<close> describes execution by instruction index;
    \<open>Optimizer_Correct\<close> and \<open>Dedup_Correct\<close> prove that every pass keeps the verdict on every packet (locale
    \<open>vm_pass\<close>, interpreted for \<open>thread_jumps\<close>, \<open>optimize\<close> and \<open>dedup_loads\<close>).
  \<^item> \<open>Ast\<close>: \<^verbatim>\<open>ast.rs\<close>, the tree, its iterative comparison and clone.
  \<^item> \<open>Codegen\<close>: \<^verbatim>\<open>codegen.rs\<close>, the state of the generator (code, path facts, VLAN depth), every emitter, the
    hoisting of guards and the walk with an explicit stack. \<open>Codegen_Spec\<close> gives filters their meaning,
    \<open>sem link d e pkt\<close>, by the header fields of the packet. \<open>Emit_Logic\<close> and \<open>Emit_Rules\<close> are a
    logic of code fragments with open jumps; \<open>Emit_Prims\<close>, \<open>Prims_Correct\<close>, \<open>Bytes_Correct\<close>, \<open>Ports_Correct\<close> treat
    the primitives with it (locale \<open>field_check\<close> for the tests of a header field), \<open>Walk_Correct\<close> and
    \<open>Expr_Correct\<close> the walk, \<open>Compile_Correct\<close>, \<open>Compile_Safe\<close> and \<open>Compile_Theorems\<close> the whole.
  \<^item> \<open>Lexer\<close>: \<^verbatim>\<open>lexer.rs\<close> on the bytes of the text, with the integer and address parsers of the standard
    library it calls. \<open>Lexer_Props\<close> and \<open>Lexer_Roundtrip\<close>: offsets, errors, and scanning of written tokens.
  \<^item> \<open>Token_Text\<close>: the texts of tokens and addresses in messages. \<open>Parser_Prims\<close> and \<open>Parser\<close>: \<^verbatim>\<open>parser.rs\<close>.
    \<open>Parser_Prims_Spec\<close>: weakest preconditions of the parsing methods. \<open>Parser_Theorems\<close> and
    \<open>Parser_Roundtrip\<close>: totality, the invariant of parsed trees, and parsing of written trees.
  \<^item> \<open>Ebpf\<close>: \<^verbatim>\<open>ebpf.rs\<close>. \<open>Ebpf_Interp\<close>: the interpreter of the tests, registers as partial values so that reading
    an unwritten register is a fault, the context and the packet as the only memory, both byte orders.
    \<open>Ebpf_Codegen\<close>: \<^verbatim>\<open>ebpf_codegen.rs\<close>. \<open>Ebpf_Spec\<close> gives the meaning of a filter on the extended target,
    \<open>esem link e pkt\<close>, by the fields of the packet; it differs from \<open>sem\<close> where the code of the two
    targets differs (64-bit comparisons, no VLAN depth, IPv6 transport). \<open>Ebpf_Logic\<close>, \<open>Ebpf_Step\<close> and \<open>Ebpf_Rules\<close> are
    the logic of code fragments for the register machine; \<open>Ebpf_Prims\<close>, \<open>Ebpf_Fields\<close> (locale \<open>echeck\<close>, interpreted for
    networks, IPv6 addresses and prefixes, MAC addresses and port ranges), \<open>Ebpf_Bytes\<close> and \<open>Ebpf_Ports\<close> treat the primitives,
    \<open>Ebpf_Correct\<close> the walk and whole programs, \<open>Ebpf_Errors\<close> the errors, \<open>Ebpf_Theorems\<close> states the properties.
  \<^item> \<open>Frontend\<close>: \<^verbatim>\<open>lib.rs\<close> for both targets (locale \<open>filter_pipeline\<close>, interpreted for each) and the properties from
    text to verdict.

  \<^item> \<open>Tap_Base\<close>: the data of \<^verbatim>\<open>pkttap\<close>, \<open>usize\<close> as natural numbers that wrap at \<open>2 ^ 64\<close> as in a release build, time with the panics of
    the standard library, and the interface of packet sources: the locale \<open>packet_source\<close>, in which the loop \<open>drain\<close> of a user
    is proved to see exactly what the source holds. It is interpreted for rings, files, sockets, BPF devices and
    Npcap sessions.
  \<^item> \<open>Tap_Ring\<close>: the ring, its mapping a list of bytes. \<open>Tap_Ring_Correct\<close>: the kernel and the turns of \<open>next_frame\<close> as step
    relations on the mapping, the invariant \<open>ring_ok\<close>, and the queue of frames the ring abstracts to. \<open>Tap_Ring_Theorems\<close>.
  \<^item> \<open>Tap_File\<close>: reading, filtering and writing capture files; the \<^verbatim>\<open>pcap-file\<close> crate is a record of the functions
    the code calls. \<open>Tap_File_Correct\<close> (\<open>delivers\<close>: what a reader of the crate yields) and \<open>Tap_File_Theorems\<close>.
  \<^item> \<open>Tap_Sys\<close>: code that makes system calls, as functions on the list of calls made so far; a kernel is any function from
    this list and a call to an answer. \<open>Tap_Linux\<close>, \<open>Tap_Macos\<close> and \<open>Tap_Windows\<close>: the back ends.
    \<open>Tap_Capture\<close>: the builder, captures, fanout groups and injectors on Linux. \<open>Tap_Capture_Correct\<close>, \<open>Tap_Capture_Theorems\<close> and
    \<open>Tap_Macos_Theorems\<close>: the calls in their order, with what is undone after a failure, and the packets delivered.

  \<^bold>\<open>What is proved.\<close> For every supported expression that can be written there is a text whose compiled
  and optimized program accepts a packet of at least \<open>need link 0 e\<close> bytes exactly when the expression
  holds for it, and never accepts a packet for which it does not hold. \<open>need\<close> is where the tested headers
  end; on shorter packets a load fails and the program rejects. An expression is
  \<open>supported\<close> when no AND chain in it starts with a \<open>vlan\<close> test and no MPLS label is asked for, or when it is
  itself an AND chain that starts with a \<open>vlan\<close> test and whose other parts are of that kind and do not test the
  tag ethertype again; for the others the generated code can be wrong (\<open>Compile_Theorems\<close> has
  counterexamples). The hypothesis \<open>length raw < 2 ^ 32\<close> is that jump offsets of
  \<open>ja\<close> fit their 32-bit field. No text makes the scanner, the parser, the generator or the optimizer panic or
  loop. Scanner and parser are inverse to writing tokens and trees.

  Extended programs run without a fault on every packet, of any length, end within as many steps as they have
  instructions, and pass the packet exactly when \<open>esem\<close> holds. The hypotheses: \<open>fits_xdp\<close> bounds the packet so
  that its end has a 32-bit address; \<open>encodable\<close> asks that byte offsets fit the signed 16-bit
  field of a load and shifts are below 32, neither of which the generator checks; and the interpreter gives up after
  \<open>STEP_LIMIT\<close> = 65536 turns, while the generator bounds each jump but not the program. Where every test is
  \<open>portable\<close> the two targets accept the same packets.

  The ring delivers the frames the kernel hands over in order, none lost or repeated, however its turns interleave with the
  writes of the kernel; a frame stays unchanged while the caller holds it; and reading a non-blocking ring ends. The
  hypotheses are the layout the kernel documents for blocks (\<open>kernel_step\<close>), that a mapping has the length asked for, and that a
  block with a page fits the address space. A filtered capture file yields exactly the packets for which the expression holds, and packets
  written to pcapng are read back, if the crate's reader delivers the blocks its writer was given. A live capture binds its socket only after the filter is
  attached and the receive path is ready, and gives back what it opened when a call fails, for every kernel. A BPF
  device delivers all frames of the batches it reads, which have the layout of \<open>mac_batch_ok\<close>.

  \<^bold>\<open>Fuel.\<close> \<open>op_loop\<close> and \<open>parse_alu_ops\<close> get one more than the number of remaining tokens, of which each turn
  uses one; \<open>parse_offset_atom\<close> gets one more than \<open>MAX_OFFSET_DEPTH\<close>, the budget the code itself counts down.
  \<open>next_frame\<close>, \<open>fetch_pcapng\<close>, \<open>recv_packet\<close>, the \<open>next_packet\<close> loops, \<open>send_loop\<close> and \<open>drain\<close> can wait for ever in the code and are partial functions
  whose value is \<open>None\<close> then; the theorems state that they return. All other loops are functions with termination proofs.

  \<^bold>\<open>Not modelled.\<close> The depth-limited \<open>Debug\<close> of trees and their iterative drop, the texts of
  errors, the walk of the CMSG macros over ancillary data, the search for the Npcap library, and the poisoning of the
  lock around its injector. The kernels, the \<^verbatim>\<open>pcap-file\<close> crate and Npcap are parameters. \<open>str::trim\<close> is modelled for ASCII text, and the
  Unicode lower-casing of device names is a parameter. Memory is not modelled beyond the
  mapping of the ring and the read buffers.
\<close>

end
